(* ===== verification/Prelude.thy ===== *)
theory Prelude
  imports Complex_Main "HOL-Library.List_Lexorder" "HOL-Library.Sublist" "HOL-Library.Multiset"
    "HOL-Library.Word" "HOL-Library.Log_Nat"
begin

text \<open>
  Shared vocabulary of the development: the Rust strings the crates work on, the
  standard-library operations they call, fallible results, and the stable sort.

  A Rust \<^verbatim>\<open>str\<close> is the list of its Unicode scalar values (\<open>rstr\<close>).
  \<^verbatim>\<open>contains\<close>, \<^verbatim>\<open>starts_with\<close>, \<^verbatim>\<open>strip_prefix\<close> and equality agree on code
  points and on UTF-8 bytes, and so does the ordering of \<^verbatim>\<open>str\<close> (lexicographic);
  where a byte length is read, \<open>utf8_len\<close> counts bytes. A literal of the source is
  written \<open>lit ''...''\<close>; literals outside ASCII are lists of code points.
\<close>

section \<open>Types shared by the components\<close>

type_synonym rchar = nat
type_synonym rstr = "nat list"

text \<open>Instants and \<^verbatim>\<open>DateTime<Utc>\<close> values: nanoseconds on one time line.\<close>
type_synonym time = int

type_synonym uuid = "128 word"
type_synonym u32 = "32 word"
type_synonym u64 = "64 word"

named_theorems rust_str \<open>characterisations of the string operations\<close>
named_theorems res_simps \<open>rules for fallible results\<close>

section \<open>String literals\<close>

definition lit :: "string \<Rightarrow> rstr" where
  "lit s = map of_char s"

lemma lit_Nil [simp]: "lit [] = []"
  by (simp add: lit_def)

lemma lit_Cons [simp]: "lit (c # cs) = of_char c # lit cs"
  by (simp add: lit_def)

section \<open>Operations on \<^verbatim>\<open>str\<close>\<close>

definition starts_with :: "rstr \<Rightarrow> rstr \<Rightarrow> bool" where
  "starts_with s p \<longleftrightarrow> take (length p) s = p"

definition ends_with :: "rstr \<Rightarrow> rstr \<Rightarrow> bool" where
  "ends_with s p \<longleftrightarrow> length p \<le> length s \<and> drop (length s - length p) s = p"

definition strip_prefix :: "rstr \<Rightarrow> rstr \<Rightarrow> rstr option" where
  "strip_prefix s p = (if starts_with s p then Some (drop (length p) s) else None)"

fun contains :: "rstr \<Rightarrow> rstr \<Rightarrow> bool" where
  "contains [] p \<longleftrightarrow> p = []"
| "contains (c # s) p \<longleftrightarrow> starts_with (c # s) p \<or> contains s p"

definition contains_any :: "rstr \<Rightarrow> rstr list \<Rightarrow> bool" where
  "contains_any s ms \<longleftrightarrow> list_ex (contains s) ms"

lemma starts_with_iff [rust_str]: "starts_with s p \<longleftrightarrow> (\<exists>r. s = p @ r)"
  unfolding starts_with_def by (metis append_eq_conv_conj append_take_drop_id)

lemma ends_with_iff [rust_str]: "ends_with s p \<longleftrightarrow> (\<exists>r. s = r @ p)"
proof
  assume "ends_with s p"
  then have "s = take (length s - length p) s @ p"
    unfolding ends_with_def by (metis append_take_drop_id)
  then show "\<exists>r. s = r @ p" by blast
next
  assume "\<exists>r. s = r @ p"
  then show "ends_with s p" by (auto simp: ends_with_def)
qed

lemma strip_prefix_eq_Some [rust_str]: "strip_prefix s p = Some r \<longleftrightarrow> s = p @ r"
  by (auto simp: strip_prefix_def starts_with_iff)

lemma strip_prefix_eq_None [rust_str]: "strip_prefix s p = None \<longleftrightarrow> \<not> starts_with s p"
  by (simp add: strip_prefix_def)

lemma contains_iff [rust_str]: "contains s p \<longleftrightarrow> (\<exists>u v. s = u @ p @ v)"
proof (induction s)
  case Nil
  show ?case by auto
next
  case (Cons c s)
  have "(\<exists>u v. c # s = u @ p @ v) \<longleftrightarrow> (\<exists>v. c # s = p @ v) \<or> (\<exists>u v. s = u @ p @ v)"
    by (metis (no_types, lifting) append_Cons append_Nil list.exhaust_sel list.sel(1) list.sel(3))
  with Cons show ?case by (simp add: starts_with_iff)
qed

lemma contains_any_iff: "contains_any s ms \<longleftrightarrow> (\<exists>m \<in> set ms. contains s m)"
  by (simp add: contains_any_def list_ex_iff)

text \<open>\<^verbatim>\<open>replace(p, "")\<close> for a non-empty pattern: occurrences from left to right, not overlapping.\<close>
function remove_all :: "rstr \<Rightarrow> rstr \<Rightarrow> rstr" where
  "remove_all p [] = []"
| "remove_all p (c # s) =
     (if p \<noteq> [] \<and> starts_with (c # s) p then remove_all p (drop (length p - 1) s) else c # remove_all p s)"
  by pat_completeness auto
termination by (relation "measure (\<lambda>(p, s). length s)") auto

text \<open>\<^verbatim>\<open>str::split\<close> at a character.\<close>
fun split_char :: "rchar \<Rightarrow> rstr \<Rightarrow> rstr list" where
  "split_char c [] = [[]]"
| "split_char c (x # xs) =
     (if x = c then [] # split_char c xs
      else case split_char c xs of p # ps \<Rightarrow> (x # p) # ps | [] \<Rightarrow> [[x]])"

lemma split_char_free: "c \<notin> set p \<Longrightarrow> split_char c p = [p]"
  by (induction p) auto

lemma split_char_append: "c \<notin> set pre \<Longrightarrow> split_char c (pre @ c # p) = pre # split_char c p"
  by (induction pre) auto

lemma split_char_ne: "split_char c p \<noteq> []"
  by (induction p) (auto split: list.splits)

subsection \<open>Whitespace: \<^verbatim>\<open>char::is_whitespace\<close>, \<^verbatim>\<open>trim\<close>, \<^verbatim>\<open>split_whitespace\<close>, \<^verbatim>\<open>lines\<close>\<close>

definition is_ws :: "rchar \<Rightarrow> bool" where
  "is_ws c \<longleftrightarrow> 9 \<le> c \<and> c \<le> 13 \<or> c = 32 \<or> c = 0x85 \<or> c = 0xA0 \<or> c = 0x1680
     \<or> 0x2000 \<le> c \<and> c \<le> 0x200A \<or> c = 0x2028 \<or> c = 0x2029 \<or> c = 0x202F
     \<or> c = 0x205F \<or> c = 0x3000"

definition trim_start :: "rstr \<Rightarrow> rstr" where
  "trim_start s = dropWhile is_ws s"

definition trim_end :: "rstr \<Rightarrow> rstr" where
  "trim_end s = rev (dropWhile is_ws (rev s))"

definition trim :: "rstr \<Rightarrow> rstr" where
  "trim s = trim_end (trim_start s)"

text \<open>A string with no whitespace at either end.\<close>
definition trimmed :: "rstr \<Rightarrow> bool" where
  "trimmed s \<longleftrightarrow> s = [] \<or> \<not> is_ws (hd s) \<and> \<not> is_ws (last s)"

fun split_ws_aux :: "rstr \<Rightarrow> rstr \<Rightarrow> rstr list" where
  "split_ws_aux acc [] = (if acc = [] then [] else [rev acc])"
| "split_ws_aux acc (c # s) =
     (if is_ws c then (if acc = [] then split_ws_aux [] s else rev acc # split_ws_aux [] s)
      else split_ws_aux (c # acc) s)"

definition split_whitespace :: "rstr \<Rightarrow> rstr list" where
  "split_whitespace s = split_ws_aux [] s"

definition strip_cr :: "rstr \<Rightarrow> rstr" where
  "strip_cr l = (if l \<noteq> [] \<and> last l = 13 then butlast l else l)"

fun lines_aux :: "rstr \<Rightarrow> rstr \<Rightarrow> rstr list" where
  "lines_aux acc [] = (if acc = [] then [] else [rev acc])"
| "lines_aux acc (c # s) =
     (if c = 10 then strip_cr (rev acc) # lines_aux [] s else lines_aux (c # acc) s)"

text \<open>\<^verbatim>\<open>str::lines\<close>: a final line without a newline keeps its carriage return.\<close>
definition lines :: "rstr \<Rightarrow> rstr list" where
  "lines s = lines_aux [] s"

text \<open>\<^verbatim>\<open>str::split\<close> by a predicate on characters.\<close>
fun split_by :: "(rchar \<Rightarrow> bool) \<Rightarrow> rstr \<Rightarrow> rstr \<Rightarrow> rstr list" where
  "split_by p cur [] = [cur]"
| "split_by p cur (c # s) = (if p c then cur # split_by p [] s else split_by p (cur @ [c]) s)"

fun join :: "rstr \<Rightarrow> rstr list \<Rightarrow> rstr" where
  "join sep [] = []"
| "join sep [x] = x"
| "join sep (x # y # ys) = x @ sep @ join sep (y # ys)"

lemma trim_Nil [simp]: "trim [] = []"
  by (simp add: trim_def trim_start_def trim_end_def)

lemma trim_end_decomp: "\<exists>t. s = trim_end s @ t \<and> list_all is_ws t"
proof -
  have "rev s = takeWhile is_ws (rev s) @ dropWhile is_ws (rev s)" by simp
  then have "s = trim_end s @ rev (takeWhile is_ws (rev s))"
    unfolding trim_end_def by (metis rev_append rev_rev_ident)
  moreover have "list_all is_ws (rev (takeWhile is_ws (rev s)))"
    by (metis list_all_iff set_rev set_takeWhileD)
  ultimately show ?thesis by blast
qed

lemma hd_trim_start: "trim_start s \<noteq> [] \<Longrightarrow> \<not> is_ws (hd (trim_start s))"
  unfolding trim_start_def by (rule hd_dropWhile)

lemma last_trim_end: "trim_end s \<noteq> [] \<Longrightarrow> \<not> is_ws (last (trim_end s))"
  unfolding trim_end_def by (metis hd_dropWhile last_rev rev_is_Nil_conv)

lemma trimmed_trim [simp]: "trimmed (trim s)"
proof (cases "trim s = []")
  case True
  then show ?thesis by (simp add: trimmed_def)
next
  case False
  then have ne: "trim_end (trim_start s) \<noteq> []" by (simp add: trim_def)
  obtain t where t: "trim_start s = trim_end (trim_start s) @ t"
    using trim_end_decomp by blast
  with ne have "hd (trim_start s) = hd (trim_end (trim_start s))" by (metis hd_append2)
  moreover have "trim_start s \<noteq> []" using ne t by (metis Nil_is_append_conv)
  ultimately show ?thesis
    using hd_trim_start [of s] last_trim_end [OF ne] by (simp add: trimmed_def trim_def)
qed

lemma trim_trimmed: "trimmed s \<Longrightarrow> trim s = s"
proof (cases "s = []")
  case False
  assume "trimmed s"
  with False have "\<not> is_ws (hd s)" "\<not> is_ws (last s)" by (auto simp: trimmed_def)
  with False have "dropWhile is_ws s = s" "dropWhile is_ws (rev s) = rev s"
    by (auto simp: dropWhile_eq_self_iff hd_rev)
  then have "trim_start s = s" "trim_end s = s"
    by (simp_all add: trim_start_def trim_end_def)
  then show ?thesis by (simp add: trim_def)
qed simp

lemma trim_idem [simp]: "trim (trim s) = trim s"
  by (simp add: trim_trimmed)

text \<open>Trimming keeps every part that begins and ends without whitespace.\<close>
lemma trim_keeps:
  assumes "m \<noteq> []" and "\<not> is_ws (hd m)" and "\<not> is_ws (last m)"
  shows "\<exists>u v. trim (pre @ m @ post) = u @ m @ v"
proof -
  have one: "dropWhile is_ws (xs @ ys @ zs) = dropWhile is_ws xs @ ys @ zs" if "ys \<noteq> []" "\<not> is_ws (hd ys)" for xs ys zs
    using that by (cases ys) (auto simp: dropWhile_append)
  have "trim_start (pre @ m @ post) = dropWhile is_ws pre @ m @ post"
    unfolding trim_start_def using assms(1,2) by (rule one)
  moreover have "dropWhile is_ws (rev post @ rev m @ rev (dropWhile is_ws pre)) = dropWhile is_ws (rev post) @ rev m @ rev (dropWhile is_ws pre)"
    using assms(1,3) by (intro one) (simp_all add: hd_rev)
  ultimately have "trim (pre @ m @ post) = dropWhile is_ws pre @ m @ rev (dropWhile is_ws (rev post))"
    by (simp add: trim_def trim_end_def)
  then show ?thesis by blast
qed

lemma set_trim: "set (trim s) \<subseteq> set s"
proof -
  have "set (trim_start s) \<subseteq> set s"
    unfolding trim_start_def by (auto dest: set_dropWhileD)
  moreover have "set (trim_end x) \<subseteq> set x" for x
    unfolding trim_end_def by (auto dest: set_dropWhileD)
  ultimately show ?thesis unfolding trim_def by blast
qed

lemma length_trim: "length (trim s) \<le> length s"
  unfolding trim_def trim_end_def trim_start_def
  by (metis length_dropWhile_le length_rev order_trans)

subsection \<open>Case folding, digits, byte length\<close>

definition to_ascii_lowercase :: "rstr \<Rightarrow> rstr" where
  "to_ascii_lowercase s = map (\<lambda>c. if 65 \<le> c \<and> c \<le> 90 then c + 32 else c) s"

definition utf8_width :: "rchar \<Rightarrow> nat" where
  "utf8_width c = (if c < 0x80 then 1 else if c < 0x800 then 2 else if c < 0x10000 then 3 else 4)"

definition utf8_len :: "rstr \<Rightarrow> nat" where
  "utf8_len s = sum_list (map utf8_width s)"

text \<open>\<^verbatim>\<open>to_string\<close> of an unsigned integer: its decimal digits.\<close>
fun show_nat :: "nat \<Rightarrow> rstr" where
  "show_nat n = (if n < 10 then [48 + n] else show_nat (n div 10) @ [48 + n mod 10])"

declare show_nat.simps [simp del]

text \<open>Reading the digits back.\<close>
definition digits_value :: "rstr \<Rightarrow> nat" where
  "digits_value ds = foldl (\<lambda>a d. 10 * a + (d - 48)) 0 ds"

lemma digits_value_show_nat: "digits_value (show_nat n) = n"
proof (induction n rule: show_nat.induct)
  case (1 n)
  show ?case
  proof (cases "n < 10")
    case True
    then show ?thesis by (simp add: show_nat.simps [of n] digits_value_def)
  next
    case False
    with 1 have "digits_value (show_nat (n div 10)) = n div 10" by simp
    with False show ?thesis by (simp add: show_nat.simps [of n] digits_value_def)
  qed
qed

lemma show_nat_inject [simp]: "show_nat m = show_nat n \<longleftrightarrow> m = n"
  by (metis digits_value_show_nat)

text \<open>
  The Unicode tables behind \<^verbatim>\<open>to_lowercase\<close>, \<^verbatim>\<open>to_uppercase\<close> and \<^verbatim>\<open>is_alphanumeric\<close> are a
  parameter of the definitions that use them; \<open>ascii_tables\<close> is their restriction to
  ASCII text, used where a concrete value is computed.
\<close>

record unicode =
  u_lower :: "rstr \<Rightarrow> rstr"
  u_alnum :: "rchar \<Rightarrow> bool"

definition ascii_alnum :: "rchar \<Rightarrow> bool" where
  "ascii_alnum c \<longleftrightarrow> 48 \<le> c \<and> c \<le> 57 \<or> 65 \<le> c \<and> c \<le> 90 \<or> 97 \<le> c \<and> c \<le> 122"

definition ascii_tables :: unicode where
  "ascii_tables = \<lparr>u_lower = to_ascii_lowercase, u_alnum = ascii_alnum\<rparr>"

text \<open>The first element with a property, and the elements before it.\<close>
lemma find_Some_split:
  "find P xs = Some x \<longleftrightarrow> (\<exists>us vs. xs = us @ x # vs \<and> P x \<and> list_all (\<lambda>u. \<not> P u) us)"
proof (induction xs)
  case (Cons y ys)
  show ?case
  proof (cases "P y")
    case True
    then show ?thesis by (auto simp: Cons_eq_append_conv)
  next
    case False
    then have "find P (y # ys) = Some x \<longleftrightarrow> (\<exists>us vs. ys = us @ x # vs \<and> P x \<and> list_all (\<lambda>u. \<not> P u) us)"
      using Cons.IH by simp
    also have "\<dots> \<longleftrightarrow> (\<exists>us vs. y # ys = us @ x # vs \<and> P x \<and> list_all (\<lambda>u. \<not> P u) us)" (is "?l \<longleftrightarrow> ?r")
    proof
      assume ?l
      then obtain us vs where "ys = us @ x # vs" "P x" "list_all (\<lambda>u. \<not> P u) us" by blast
      with False show ?r by (intro exI [of _ "y # us"] exI [of _ vs]) simp
    next
      assume ?r
      with False show ?l by (auto simp: Cons_eq_append_conv)
    qed
    finally show ?thesis .
  qed
qed simp

section \<open>Machine arithmetic\<close>

definition usize_max :: nat where
  "usize_max = 2 ^ 64 - 1"

definition saturating_mul :: "nat \<Rightarrow> nat \<Rightarrow> nat" where
  "saturating_mul a b = min (a * b) usize_max"

lemma unat_plus_one:
  fixes w v :: "'a :: len word"
  assumes "unat w < unat v"
  shows "unat (w + 1) = unat w + 1"
proof -
  have "unat v < 2 ^ LENGTH('a)" by (rule unsigned_less)
  then have "unat w + 1 < 2 ^ LENGTH('a)" using assms by linarith
  then show ?thesis by (simp add: unat_word_ariths)
qed

text \<open>
  Double precision on non-negative numbers of the normal range: the exact result of an
  operation, rounded to 53 significant bits, ties to even.
\<close>

definition pow2 :: "int \<Rightarrow> rat" where
  "pow2 k = (if 0 \<le> k then 2 ^ nat k else 1 / 2 ^ nat (- k))"

definition rnd_even :: "rat \<Rightarrow> int" where
  "rnd_even x =
     (let f = \<lfloor>x\<rfloor>; d = x - of_int f in
      if d < 1 / 2 \<or> d = 1 / 2 \<and> even f then f else f + 1)"

definition log2_floor :: "rat \<Rightarrow> int" where
  "log2_floor x =
     (let l = bitlen (fst (quotient_of x)) - bitlen (snd (quotient_of x)) in
      if pow2 l \<le> x then l else l - 1)"

definition f64_round :: "rat \<Rightarrow> rat" where
  "f64_round x =
     (if x \<le> 0 then 0
      else let s = 52 - log2_floor x in of_int (rnd_even (x * pow2 s)) * pow2 (- s))"

lemma pow2_eq: "pow2 k = 2 powi k"
  by (simp add: pow2_def power_int_def inverse_eq_divide power_one_over)

lemma pow2_pos [simp]: "0 < pow2 k"
  by (simp add: pow2_eq)

lemma pow2_add: "pow2 (a + b) = pow2 a * pow2 b"
  by (simp add: pow2_eq power_int_add)

lemma pow2_mono: "a \<le> b \<Longrightarrow> pow2 a \<le> pow2 b"
  by (simp add: pow2_eq power_int_increasing)

lemma rnd_even_bounds: "of_int (rnd_even x) \<le> x + 1 / 2" "x - 1 / 2 \<le> of_int (rnd_even x)"
proof -
  have f: "of_int \<lfloor>x\<rfloor> \<le> x" "x < of_int \<lfloor>x\<rfloor> + 1"
    using floor_correct [of x] by simp_all
  let ?down = "x - of_int \<lfloor>x\<rfloor> < 1 / 2 \<or> x - of_int \<lfloor>x\<rfloor> = 1 / 2 \<and> even \<lfloor>x\<rfloor>"
  have "of_int (rnd_even x) \<le> x + 1 / 2 \<and> x - 1 / 2 \<le> of_int (rnd_even x)"
  proof (cases ?down)
    case True
    then have "rnd_even x = \<lfloor>x\<rfloor>" by (simp add: rnd_even_def Let_def)
    moreover from True have "x - of_int \<lfloor>x\<rfloor> \<le> 1 / 2" by linarith
    ultimately show ?thesis using f by linarith
  next
    case False
    then have "rnd_even x = \<lfloor>x\<rfloor> + 1" by (simp add: rnd_even_def Let_def)
    moreover from False have "1 / 2 \<le> x - of_int \<lfloor>x\<rfloor>" by linarith
    ultimately show ?thesis using f by simp
  qed
  then show "of_int (rnd_even x) \<le> x + 1 / 2" "x - 1 / 2 \<le> of_int (rnd_even x)"
    by simp_all
qed

lemma rnd_even_le: "x \<le> of_int n \<Longrightarrow> rnd_even x \<le> n"
proof -
  assume "x \<le> of_int n"
  then have "of_int (rnd_even x) \<le> of_int n + (1 / 2 :: rat)"
    using rnd_even_bounds(1) [of x] by linarith
  then have "of_int (rnd_even x) < (of_int (n + 1) :: rat)" by simp
  then show ?thesis by linarith
qed

lemma rnd_even_of_int [simp]: "rnd_even (of_int n) = n"
  by (simp add: rnd_even_def)

lemma rnd_even_nonneg: "0 \<le> x \<Longrightarrow> 0 \<le> rnd_even x"
  using rnd_even_bounds(2) [of x] by (auto simp: rnd_even_def Let_def)

lemma bitlen_pow2:
  assumes "0 < n"
  shows "pow2 (bitlen n - 1) \<le> of_int n" "of_int n < pow2 (bitlen n)"
proof -
  have b: "2 ^ nat (bitlen n - 1) \<le> n" "n < 2 ^ nat (bitlen n)"
    using bitlen_bounds [OF assms] by simp_all
  have pos: "0 < bitlen n" using assms bitlen_nonneg [of n] bitlen_eq_zero_iff [of n] by linarith
  have "of_int (2 ^ nat (bitlen n - 1)) \<le> (of_int n :: rat)"
    using b(1) by (rule of_int_le_iff [THEN iffD2])
  then show "pow2 (bitlen n - 1) \<le> of_int n" using pos by (simp add: pow2_def)
  have "of_int n < (of_int (2 ^ nat (bitlen n)) :: rat)"
    using b(2) by (rule of_int_less_iff [THEN iffD2])
  then show "of_int n < pow2 (bitlen n)" using pos by (simp add: pow2_def)
qed

lemma log2_floor_bounds:
  assumes "0 < x"
  shows "pow2 (log2_floor x) \<le> x" "x < pow2 (log2_floor x + 1)"
proof -
  obtain n d where q: "quotient_of x = (n, d)" by fastforce
  then have x: "x = of_int n / of_int d" and d: "0 < d"
    by (simp_all add: quotient_of_div quotient_of_denom_pos)
  with assms have n: "0 < n" by (simp add: zero_less_divide_iff)
  let ?l = "bitlen n - bitlen d"
  have up: "x < pow2 (?l + 1)"
  proof -
    have "of_int n < pow2 (?l + 1) * pow2 (bitlen d - 1)"
      using bitlen_pow2(2) [OF n] by (simp flip: pow2_add)
    also have "\<dots> \<le> pow2 (?l + 1) * of_int d"
      using bitlen_pow2(1) [OF d] by (simp add: less_imp_le)
    finally show ?thesis using d by (simp add: x divide_less_eq)
  qed
  have low: "pow2 (?l - 1) \<le> x"
  proof -
    have "pow2 (?l - 1) * of_int d \<le> pow2 (?l - 1) * pow2 (bitlen d)"
      using bitlen_pow2(2) [OF d] by (simp add: less_imp_le)
    also have "\<dots> \<le> of_int n"
      using bitlen_pow2(1) [OF n] by (simp flip: pow2_add)
    finally show ?thesis using d by (simp add: x le_divide_eq)
  qed
  show "pow2 (log2_floor x) \<le> x" "x < pow2 (log2_floor x + 1)"
    using up low by (auto simp: log2_floor_def q Let_def)
qed

lemma f64_round_nonneg: "0 \<le> f64_round x"
  using rnd_even_nonneg [of "x * pow2 (52 - log2_floor x)"]
  by (auto simp: f64_round_def Let_def less_imp_le)

lemma f64_round_0 [simp]: "f64_round 0 = 0"
  by (simp add: f64_round_def)

lemma f64_round_1 [simp]: "f64_round 1 = 1"
proof -
  have "log2_floor 1 = 0" by (simp add: log2_floor_def pow2_def)
  moreover have "rnd_even (pow2 52) = 2 ^ 52"
    using rnd_even_of_int [of "2 ^ 52"] by (simp add: pow2_def)
  ultimately show ?thesis by (simp add: f64_round_def pow2_def)
qed

lemma rnd_even_mono:
  assumes "x \<le> y"
  shows "rnd_even x \<le> rnd_even y"
proof (cases "\<lfloor>x\<rfloor> = \<lfloor>y\<rfloor>")
  case True
  with assms show ?thesis by (auto simp: rnd_even_def Let_def)
next
  case False
  then have "\<lfloor>x\<rfloor> + 1 \<le> \<lfloor>y\<rfloor>" using floor_mono [OF assms] by simp
  moreover have "rnd_even x \<le> \<lfloor>x\<rfloor> + 1" "\<lfloor>y\<rfloor> \<le> rnd_even y" by (simp_all add: rnd_even_def Let_def)
  ultimately show ?thesis by linarith
qed

lemma scaled_bounds:
  assumes "0 < x"
  shows "pow2 52 \<le> x * pow2 (52 - log2_floor x)" "x * pow2 (52 - log2_floor x) \<le> pow2 53"
proof -
  let ?k = "log2_floor x"
  have "pow2 ?k * pow2 (52 - ?k) \<le> x * pow2 (52 - ?k)"
    using log2_floor_bounds(1) [OF assms] by (simp add: less_imp_le)
  then show "pow2 52 \<le> x * pow2 (52 - ?k)" by (simp flip: pow2_add)
  have "x * pow2 (52 - ?k) \<le> pow2 (?k + 1) * pow2 (52 - ?k)"
    using log2_floor_bounds(2) [OF assms] by (simp add: less_imp_le)
  then show "x * pow2 (52 - ?k) \<le> pow2 53" by (simp flip: pow2_add)
qed

lemma f64_round_pow2_bounds:
  assumes "0 < x"
  shows "pow2 (log2_floor x) \<le> f64_round x" "f64_round x \<le> pow2 (log2_floor x + 1)"
proof -
  let ?k = "log2_floor x"
  let ?m = "rnd_even (x * pow2 (52 - ?k))"
  have r: "f64_round x = of_int ?m * pow2 (?k - 52)" using assms by (simp add: f64_round_def Let_def)
  have p: "pow2 52 = of_int (2 ^ 52)" "pow2 53 = of_int (2 ^ 53)" by (simp_all add: pow2_def)
  have "2 ^ 52 \<le> ?m" using rnd_even_mono [OF scaled_bounds(1) [OF assms]] rnd_even_of_int p(1) by metis
  then have "pow2 52 \<le> of_int ?m" unfolding p(1) by (rule of_int_le_iff [THEN iffD2])
  then have "pow2 52 * pow2 (?k - 52) \<le> f64_round x" unfolding r by (simp add: less_imp_le)
  then show "pow2 ?k \<le> f64_round x" by (simp flip: pow2_add)
  have "?m \<le> 2 ^ 53" using rnd_even_mono [OF scaled_bounds(2) [OF assms]] rnd_even_of_int p(2) by metis
  then have "of_int ?m \<le> pow2 53" unfolding p(2) by (rule of_int_le_iff [THEN iffD2])
  then have "f64_round x \<le> pow2 53 * pow2 (?k - 52)" unfolding r by (simp add: less_imp_le)
  then show "f64_round x \<le> pow2 (?k + 1)" by (simp add: add.commute flip: pow2_add)
qed

lemma f64_round_mono:
  assumes "x \<le> y"
  shows "f64_round x \<le> f64_round y"
proof (cases "0 < x")
  case False
  then show ?thesis using f64_round_nonneg [of y] by (simp add: f64_round_def)
next
  case True
  then have y: "0 < y" using assms by simp
  have "pow2 (log2_floor x) < pow2 (log2_floor y + 1)"
    using log2_floor_bounds(1) [OF True] assms log2_floor_bounds(2) [OF y] by linarith
  then have le: "log2_floor x \<le> log2_floor y" using pow2_mono [of "log2_floor y + 1" "log2_floor x"] by linarith
  show ?thesis
  proof (cases "log2_floor x = log2_floor y")
    case eq: True
    have "x * pow2 (52 - log2_floor y) \<le> y * pow2 (52 - log2_floor y)" using assms by (simp add: less_imp_le)
    then have "rnd_even (x * pow2 (52 - log2_floor y)) \<le> rnd_even (y * pow2 (52 - log2_floor y))" by (rule rnd_even_mono)
    then show ?thesis using True y eq by (simp add: f64_round_def Let_def less_imp_le)
  next
    case False
    with le have "pow2 (log2_floor x + 1) \<le> pow2 (log2_floor y)" by (intro pow2_mono) simp
    then show ?thesis using f64_round_pow2_bounds(2) [OF True] f64_round_pow2_bounds(1) [OF y] by linarith
  qed
qed

lemma f64_round_le_1: "x \<le> 1 \<Longrightarrow> f64_round x \<le> 1"
  using f64_round_mono [of x 1] by simp

section \<open>Fallible results\<close>

text \<open>\<^verbatim>\<open>Result<T, E>\<close> is \<open>'e + 'a\<close> with \<open>Inl\<close> the error; \<open>res_bind\<close> is the \<^verbatim>\<open>?\<close> operator.\<close>

definition or_else :: "'a option \<Rightarrow> 'a option \<Rightarrow> 'a option" where
  "or_else a b = (case a of Some x \<Rightarrow> Some x | None \<Rightarrow> b)"

definition res_bind :: "'e + 'a \<Rightarrow> ('a \<Rightarrow> 'e + 'b) \<Rightarrow> 'e + 'b" where
  "res_bind r f = (case r of Inl e \<Rightarrow> Inl e | Inr x \<Rightarrow> f x)"

lemma res_bind_Inl [simp, res_simps]: "res_bind (Inl e) f = Inl e"
  by (simp add: res_bind_def)

lemma res_bind_Inr [simp, res_simps]: "res_bind (Inr x) f = f x"
  by (simp add: res_bind_def)

lemma res_bind_eq_Inr [res_simps]:
  "res_bind r f = Inr y \<longleftrightarrow> (\<exists>x. r = Inr x \<and> f x = Inr y)"
  by (cases r) auto

text \<open>A loop whose body may fail: it stops at the first error.\<close>
fun res_map :: "('a \<Rightarrow> 'e + 'b) \<Rightarrow> 'a list \<Rightarrow> 'e + 'b list" where
  "res_map f [] = Inr []"
| "res_map f (x # xs) = res_bind (f x) (\<lambda>y. res_bind (res_map f xs) (\<lambda>ys. Inr (y # ys)))"

lemma res_map_eq_Inr [res_simps]:
  "res_map f xs = Inr ys \<longleftrightarrow> list_all2 (\<lambda>x y. f x = Inr y) xs ys"
  by (induction xs arbitrary: ys) (auto simp: res_bind_eq_Inr list_all2_Cons1)

text \<open>The operator \<^verbatim>\<open>?\<close> on operations that change the world, and a loop over a list of them.\<close>

definition io_then :: "'w \<times> ('e + 'a) \<Rightarrow> ('a \<Rightarrow> 'w \<Rightarrow> 'w \<times> ('e + 'c)) \<Rightarrow> 'w \<times> ('e + 'c)" where
  "io_then r f = (case r of (w, Inl e) \<Rightarrow> (w, Inl e) | (w, Inr a) \<Rightarrow> f a w)"

lemma io_then_ok [res_simps]: "io_then r f = (w', Inr b) \<longleftrightarrow> (\<exists>w a. r = (w, Inr a) \<and> f a w = (w', Inr b))"
  by (auto simp: io_then_def split: prod.splits sum.splits)

fun io_each :: "('a \<Rightarrow> 'w \<Rightarrow> 'w \<times> ('e + unit)) \<Rightarrow> 'a list \<Rightarrow> 'w \<Rightarrow> 'w \<times> ('e + unit)" where
  "io_each f [] w = (w, Inr ())"
| "io_each f (x # xs) w = io_then (f x w) (\<lambda>_ w. io_each f xs w)"

section \<open>Stable sorting by a comparison\<close>

text \<open>
  \<^verbatim>\<open>slice::sort_by\<close> is a stable sort. \<open>le x y\<close> says that the comparison of \<open>x\<close> with
  \<open>y\<close> is not \<^verbatim>\<open>Greater\<close>.
\<close>

fun insort_by :: "('a \<Rightarrow> 'a \<Rightarrow> bool) \<Rightarrow> 'a \<Rightarrow> 'a list \<Rightarrow> 'a list" where
  "insort_by le x [] = [x]"
| "insort_by le x (y # ys) = (if le x y then x # y # ys else y # insort_by le x ys)"

definition sort_by :: "('a \<Rightarrow> 'a \<Rightarrow> bool) \<Rightarrow> 'a list \<Rightarrow> 'a list" where
  "sort_by le xs = foldr (insort_by le) xs []"

lemma sort_by_Nil [simp]: "sort_by le [] = []"
  by (simp add: sort_by_def)

lemma sort_by_Cons [simp]: "sort_by le (x # xs) = insort_by le x (sort_by le xs)"
  by (simp add: sort_by_def)

lemma mset_insort_by [simp]: "mset (insort_by le x xs) = add_mset x (mset xs)"
  by (induction xs) auto

lemma mset_sort_by [simp]: "mset (sort_by le xs) = mset xs"
  by (induction xs) auto

lemma set_insort_by [simp]: "set (insort_by le x xs) = insert x (set xs)"
  by (induction xs) auto

lemma set_sort_by [simp]: "set (sort_by le xs) = set xs"
  by (induction xs) auto

lemma length_sort_by [simp]: "length (sort_by le xs) = length xs"
  by (metis mset_sort_by size_mset)

text \<open>The contract of a comparison function: a total preorder.\<close>

locale comparison =
  fixes le :: "'a \<Rightarrow> 'a \<Rightarrow> bool"
  assumes le_total: "le x y \<or> le y x"
    and le_trans: "le x y \<Longrightarrow> le y z \<Longrightarrow> le x z"
begin

lemma le_refl: "le x x"
  using le_total by blast

lemma sorted_insort_by: "sorted_wrt le xs \<Longrightarrow> sorted_wrt le (insort_by le x xs)"
proof (induction xs)
  case (Cons y ys)
  then show ?case
    using le_total [of x y] by (auto intro: le_trans)
qed simp

lemma sorted_sort_by: "sorted_wrt le (sort_by le xs)"
  by (induction xs) (auto intro: sorted_insort_by)

lemma filter_insort_by:
  assumes "\<And>y z. P y \<Longrightarrow> P z \<Longrightarrow> le y z"
  shows "filter P (insort_by le x xs) = (if P x then x # filter P xs else filter P xs)"
proof (induction xs)
  case (Cons y ys)
  then show ?case using assms [of x y] by simp
qed simp

text \<open>Stability: elements the comparison does not tell apart keep their order.\<close>
lemma sort_by_stable:
  "filter (\<lambda>y. le x y \<and> le y x) (sort_by le xs) = filter (\<lambda>y. le x y \<and> le y x) xs"
proof (induction xs)
  case (Cons a xs)
  have "le y z" if "le x y \<and> le y x" "le x z \<and> le z x" for y z
    using that by (meson le_trans)
  then have "filter (\<lambda>y. le x y \<and> le y x) (insort_by le a (sort_by le xs)) =
      (if le x a \<and> le a x then a # filter (\<lambda>y. le x y \<and> le y x) (sort_by le xs)
       else filter (\<lambda>y. le x y \<and> le y x) (sort_by le xs))"
    by (rule filter_insort_by)
  then show ?case using Cons.IH by simp
qed simp

lemma sort_by_sorted: "sorted_wrt le xs \<Longrightarrow> sort_by le xs = xs"
proof (induction xs)
  case (Cons x xs)
  then show ?case by (cases xs) auto
qed simp

text \<open>When the comparison tells all elements apart, the order of the input does not matter.\<close>
lemma sorted_unique:
  assumes "sorted_wrt le xs" and "sorted_wrt le ys" and "mset xs = mset ys"
    and "\<And>x y. x \<in> set xs \<Longrightarrow> y \<in> set xs \<Longrightarrow> le x y \<Longrightarrow> le y x \<Longrightarrow> x = y"
  shows "xs = ys"
  using assms
proof (induction xs arbitrary: ys)
  case (Cons x xs)
  then obtain y ys' where ys: "ys = y # ys'" by (cases ys) auto
  have sets: "set (x # xs) = set (y # ys')" using Cons.prems(3) ys by (metis set_mset_mset)
  have "le x y" using Cons.prems(1) sets le_refl by (metis list.set_intros(1) set_ConsD sorted_wrt.simps(2))
  moreover have "le y x" using Cons.prems(2) ys sets le_refl by (metis list.set_intros(1) set_ConsD sorted_wrt.simps(2))
  moreover have "x \<in> set (x # xs)" and "y \<in> set (x # xs)" using sets by auto
  ultimately have "x = y" using Cons.prems(4) by blast
  moreover have "xs = ys'"
    using Cons.prems ys \<open>x = y\<close> by (intro Cons.IH) auto
  ultimately show ?case using ys by simp
qed simp

lemma sort_by_order_independent:
  assumes "mset xs = mset ys" and "\<And>x y. x \<in> set xs \<Longrightarrow> y \<in> set xs \<Longrightarrow> le x y \<Longrightarrow> le y x \<Longrightarrow> x = y"
  shows "sort_by le xs = sort_by le ys"
  using assms by (intro sorted_unique) (auto simp: sorted_sort_by)

end

text \<open>Comparisons that name the first difference of two keys, the second key breaking ties.\<close>

definition le_desc_then :: "('a \<Rightarrow> 'k :: linorder) \<Rightarrow> ('a \<Rightarrow> 'l :: linorder) \<Rightarrow> 'a \<Rightarrow> 'a \<Rightarrow> bool" where
  "le_desc_then f g x y \<longleftrightarrow> f y < f x \<or> f x = f y \<and> g x \<le> g y"

definition le_asc_then :: "('a \<Rightarrow> 'k :: linorder) \<Rightarrow> ('a \<Rightarrow> 'l :: linorder) \<Rightarrow> 'a \<Rightarrow> 'a \<Rightarrow> bool" where
  "le_asc_then f g x y \<longleftrightarrow> f x < f y \<or> f x = f y \<and> g x \<le> g y"

definition le_desc :: "('a \<Rightarrow> 'k :: linorder) \<Rightarrow> 'a \<Rightarrow> 'a \<Rightarrow> bool" where
  "le_desc f x y \<longleftrightarrow> f y \<le> f x"

interpretation desc_then: comparison "le_desc_then f g" for f g
  by unfold_locales (auto simp: le_desc_then_def)

interpretation asc_then: comparison "le_asc_then f g" for f g
  by unfold_locales (auto simp: le_asc_then_def)

interpretation desc: comparison "le_desc f" for f
  by unfold_locales (auto simp: le_desc_def)

lemma sorted_le_desc: "sorted_wrt (le_desc f) xs \<longleftrightarrow> sorted_wrt (\<lambda>x y. f y \<le> f x) xs"
proof -
  have "le_desc f = (\<lambda>x y. f y \<le> f x)" by (intro ext) (simp add: le_desc_def)
  then show ?thesis by simp
qed

lemma sorted_le_desc_then:
  "sorted_wrt (le_desc_then f g) xs \<Longrightarrow> sorted_wrt (\<lambda>x y. f y < f x \<or> f x = f y \<and> g x \<le> g y) xs"
  by (erule sorted_wrt_mono_rel [rotated]) (simp add: le_desc_then_def)

lemma sorted_le_asc_then:
  "sorted_wrt (le_asc_then f g) xs \<Longrightarrow> sorted_wrt (\<lambda>x y. f x < f y \<or> f x = f y \<and> g x \<le> g y) xs"
  by (erule sorted_wrt_mono_rel [rotated]) (simp add: le_asc_then_def)

end
