(* ===== verification/Loop_Guard.thy ===== *)
theory Loop_Guard
  imports Prelude
begin

text \<open>
  The crate \<^verbatim>\<open>loop-guard\<close>: the policy constants (\<^verbatim>\<open>policy.rs\<close>) and the history of tool
  calls with its loop check (\<^verbatim>\<open>history.rs\<close>). The counter table is a map, the record
  list keeps the source's order (oldest first). \<open>run_calls\<close> is a session: the calls
  \<^verbatim>\<open>record\<close> sees, one after the other.
\<close>

section \<open>\<^verbatim>\<open>policy.rs\<close>\<close>

definition MAX_HISTORY_RECORDS :: nat where "MAX_HISTORY_RECORDS = 50"
definition MIN_TOKEN_LENGTH :: nat where "MIN_TOKEN_LENGTH = 2"
definition MAX_TOOL_CALL_FREQUENCY :: nat where "MAX_TOOL_CALL_FREQUENCY = 5"
definition MAX_LOOKUP_TOOL_CALL_FREQUENCY :: nat where "MAX_LOOKUP_TOOL_CALL_FREQUENCY = 2"
definition PERCENT_MULTIPLIER :: rat where "PERCENT_MULTIPLIER = 100"

datatype loop_guard_action = Warn | ReusePrevious | Block

record loop_alert =
  la_action :: loop_guard_action
  la_message :: rstr

record loop_guard_policy =
  max_history_records :: nat
  min_token_length :: nat
  max_tool_call_frequency :: nat
  max_lookup_tool_call_frequency :: nat
  percent_multiplier :: rat

definition default_loop_guard_policy :: loop_guard_policy where
  "default_loop_guard_policy = \<lparr>max_history_records = MAX_HISTORY_RECORDS,
     min_token_length = MIN_TOKEN_LENGTH,
     max_tool_call_frequency = MAX_TOOL_CALL_FREQUENCY,
     max_lookup_tool_call_frequency = MAX_LOOKUP_TOOL_CALL_FREQUENCY,
     percent_multiplier = PERCENT_MULTIPLIER\<rparr>"

definition max_frequency_for_tool :: "loop_guard_policy \<Rightarrow> rstr \<Rightarrow> nat" where
  "max_frequency_for_tool p tool =
     (if tool \<in> {lit ''browser'', lit ''browser_browse'', lit ''web_fetch'', lit ''web_search''}
      then max_lookup_tool_call_frequency p else max_tool_call_frequency p)"

definition with_max_history_records :: "loop_guard_policy \<Rightarrow> nat \<Rightarrow> loop_guard_policy" where
  "with_max_history_records p n = p\<lparr>max_history_records := max n 1\<rparr>"

definition with_max_tool_call_frequency :: "loop_guard_policy \<Rightarrow> nat \<Rightarrow> loop_guard_policy" where
  "with_max_tool_call_frequency p n = p\<lparr>max_tool_call_frequency := max n 1\<rparr>"

definition with_max_lookup_tool_call_frequency :: "loop_guard_policy \<Rightarrow> nat \<Rightarrow> loop_guard_policy" where
  "with_max_lookup_tool_call_frequency p n = p\<lparr>max_lookup_tool_call_frequency := max n 1\<rparr>"

section \<open>\<^verbatim>\<open>history.rs\<close>\<close>

record call_record =
  cr_tool_name :: rstr
  cr_input :: rstr

record query_history =
  qh_records :: "call_record list"
  qh_counts :: "rstr \<rightharpoonup> nat"
  qh_policy :: loop_guard_policy

definition history_with_policy :: "loop_guard_policy \<Rightarrow> query_history" where
  "history_with_policy p = \<lparr>qh_records = [], qh_counts = Map.empty, qh_policy = p\<rparr>"

definition history_new :: query_history where
  "history_new = history_with_policy default_loop_guard_policy"

definition get_count :: "query_history \<Rightarrow> rstr \<Rightarrow> nat" where
  "get_count h tool = (case qh_counts h tool of Some c \<Rightarrow> c | None \<Rightarrow> 0)"

text \<open>
  \<^verbatim>\<open>record\<close>: count the call, append it, and when the list has grown past the limit drop
  the oldest entry and take it out of the count of its tool.
\<close>
definition record_call :: "query_history \<Rightarrow> rstr \<Rightarrow> rstr \<Rightarrow> query_history" where
  "record_call h tool inp =
     (let counts = (qh_counts h)(tool \<mapsto> get_count h tool + 1);
          records = qh_records h @ [\<lparr>cr_tool_name = tool, cr_input = inp\<rparr>]
      in if length records > max_history_records (qh_policy h)
         then (let removed = cr_tool_name (hd records);
                   counts' = (case counts removed of
                       Some c \<Rightarrow> if c > 0 then counts(removed \<mapsto> c - 1) else counts
                     | None \<Rightarrow> counts)
               in h\<lparr>qh_records := tl records, qh_counts := counts'\<rparr>)
         else h\<lparr>qh_records := records, qh_counts := counts\<rparr>)"

definition similarity_tokens :: "unicode \<Rightarrow> rstr \<Rightarrow> nat \<Rightarrow> rstr set" where
  "similarity_tokens U s min_len =
     set (filter (\<lambda>t. utf8_len t > min_len)
       (map (\<lambda>w. filter (u_alnum U) (u_lower U w)) (split_whitespace s)))"

definition calculate_similarity_with_min_token_length :: "unicode \<Rightarrow> rstr \<Rightarrow> rstr \<Rightarrow> nat \<Rightarrow> rat" where
  "calculate_similarity_with_min_token_length U s1 s2 min_len =
     (let tokens1 = similarity_tokens U s1 min_len; tokens2 = similarity_tokens U s2 min_len
      in if tokens1 = {} \<and> tokens2 = {} then 1
         else f64_round (of_nat (card (tokens1 \<inter> tokens2)) / of_nat (card (tokens1 \<union> tokens2))))"

definition calculate_similarity :: "unicode \<Rightarrow> rstr \<Rightarrow> rstr \<Rightarrow> rat" where
  "calculate_similarity U s1 s2 =
     calculate_similarity_with_min_token_length U s1 s2 (min_token_length default_loop_guard_policy)"

definition canonicalize_for_exact_match :: "rstr \<Rightarrow> rstr" where
  "canonicalize_for_exact_match inp = join (lit '' '') (split_whitespace inp)"

definition quoted :: "rstr \<Rightarrow> rstr" where
  "quoted s = [39] @ s @ [39]"

definition block_message :: "rstr \<Rightarrow> nat \<Rightarrow> rstr" where
  "block_message tool n = lit ''CRITICAL: '' @ quoted tool @ lit '' has been called '' @ show_nat n
     @ lit '' times in this session. This indicates a plan stagnation. You MUST stop and re-think: ''
     @ lit ''are you using the wrong tool, or misinterpreting the error/result?''"

definition frequency_message :: "rstr \<Rightarrow> nat \<Rightarrow> rstr" where
  "frequency_message tool n = lit ''WARNING: '' @ quoted tool @ lit '' has already been called ''
     @ show_nat n @ lit '' times in this task. Continue only if this call has changed arguments or is ''
     @ lit ''expected to produce new information.''"

definition reuse_message :: "rstr \<Rightarrow> rstr" where
  "reuse_message tool = lit ''CRITICAL: This call to '' @ quoted tool
     @ lit '' exactly repeats the most recent invocation. Reuse the existing result instead of ''
     @ lit ''hammering the same tool with the same arguments. If the existing result is insufficient, ''
     @ lit ''change the arguments or choose a different next step.''"

text \<open>\<^verbatim>\<open>{:.0}\<close> prints a non-negative number rounded to an integer, ties to even.\<close>
definition similar_message :: "rstr \<Rightarrow> rat \<Rightarrow> rat \<Rightarrow> rstr" where
  "similar_message tool sim multiplier = lit ''WARNING: This call to '' @ quoted tool @ lit '' is ''
     @ show_nat (nat (rnd_even (f64_round (sim * multiplier))))
     @ lit ''% similar to a previous call. Repeating highly similar actions may indicate a logic loop. ''
     @ lit ''Prefer changing parameters, reusing the prior result, or choosing the next step more narrowly.''"

text \<open>The scan over the records, newest first, for a similar call of the same tool.\<close>
fun scan_similar :: "unicode \<Rightarrow> loop_guard_policy \<Rightarrow> rstr \<Rightarrow> rstr \<Rightarrow> rat \<Rightarrow> call_record list \<Rightarrow> loop_alert option" where
  "scan_similar U p tool inp threshold [] = None"
| "scan_similar U p tool inp threshold (r # rs) =
     (if cr_tool_name r = tool
      then (let sim = calculate_similarity_with_min_token_length U (cr_input r) inp (min_token_length p)
            in if sim \<ge> threshold
               then Some \<lparr>la_action = Warn, la_message = similar_message tool sim (percent_multiplier p)\<rparr>
               else scan_similar U p tool inp threshold rs)
      else scan_similar U p tool inp threshold rs)"

definition check_loop :: "unicode \<Rightarrow> query_history \<Rightarrow> rstr \<Rightarrow> rstr \<Rightarrow> rat \<Rightarrow> loop_alert option" where
  "check_loop U h tool inp threshold =
     (let call_count = get_count h tool;
          max_frequency = max_frequency_for_tool (qh_policy h) tool;
          scan = scan_similar U (qh_policy h) tool inp threshold (rev (qh_records h))
      in if call_count \<ge> saturating_mul max_frequency 2
         then Some \<lparr>la_action = Block, la_message = block_message tool call_count\<rparr>
         else if call_count \<ge> max_frequency
         then Some \<lparr>la_action = Warn, la_message = frequency_message tool call_count\<rparr>
         else case find (\<lambda>r. cr_tool_name r = tool) (rev (qh_records h)) of
             Some previous \<Rightarrow>
               if canonicalize_for_exact_match (cr_input previous) = canonicalize_for_exact_match inp
               then Some \<lparr>la_action = ReusePrevious, la_message = reuse_message tool\<rparr>
               else scan
           | None \<Rightarrow> scan)"

text \<open>A session: the calls a history has been told of, oldest first.\<close>
fun run_calls :: "query_history \<Rightarrow> (rstr \<times> rstr) list \<Rightarrow> query_history" where
  "run_calls h [] = h"
| "run_calls h ((tool, inp) # cs) = run_calls (record_call h tool inp) cs"

section \<open>The sliding window\<close>

definition call_of :: "rstr \<times> rstr \<Rightarrow> call_record" where
  "call_of c = \<lparr>cr_tool_name = fst c, cr_input = snd c\<rparr>"

definition recent :: "nat \<Rightarrow> 'a list \<Rightarrow> 'a list" where
  "recent n xs = drop (length xs - n) xs"

definition calls_to :: "rstr \<Rightarrow> (rstr \<times> rstr) list \<Rightarrow> nat" where
  "calls_to tool cs = length (filter (\<lambda>c. fst c = tool) cs)"

text \<open>The history agrees with a window of calls: same records, exact counts.\<close>
definition history_window :: "query_history \<Rightarrow> (rstr \<times> rstr) list \<Rightarrow> bool" where
  "history_window h cs \<longleftrightarrow> qh_records h = map call_of cs \<and> (\<forall>tool. get_count h tool = calls_to tool cs)"

lemma recent_snoc:
  "recent n (xs @ [x]) = (let w = recent n xs @ [x] in if length w > n then tl w else w)"
proof (cases "length xs < n")
  case True
  then show ?thesis by (simp add: recent_def)
next
  case False
  then have len: "length (recent n xs) = n" by (simp add: recent_def)
  show ?thesis
  proof (cases n)
    case 0
    then show ?thesis by (simp add: recent_def)
  next
    case (Suc m)
    with False have "recent n xs \<noteq> []" by (auto simp: recent_def)
    moreover have "drop (Suc (length xs) - n) xs = tl (recent n xs)"
      using False by (simp add: recent_def Suc_diff_le drop_Suc tl_drop)
    ultimately show ?thesis
      using len False by (simp add: recent_def Let_def Suc_diff_le)
  qed
qed

lemma length_recent: "length (recent n xs) \<le> n"
  by (simp add: recent_def)

lemma recent_all: "length xs \<le> n \<Longrightarrow> recent n xs = xs"
  by (simp add: recent_def)

lemma calls_to_Cons: "calls_to tool (c # cs) = (if fst c = tool then 1 else 0) + calls_to tool cs"
  by (simp add: calls_to_def)

lemma calls_to_append: "calls_to tool (xs @ ys) = calls_to tool xs + calls_to tool ys"
  by (simp add: calls_to_def)

lemma policy_record_call [simp]: "qh_policy (record_call h tool inp) = qh_policy h"
  by (simp add: record_call_def Let_def)

lemma get_count_update:
  "get_count (h\<lparr>qh_records := rs, qh_counts := m\<rparr>) tool = (case m tool of Some c \<Rightarrow> c | None \<Rightarrow> 0)"
  by (simp add: get_count_def)

lemma record_call_overflow:
  assumes "qh_records h @ [\<lparr>cr_tool_name = tool, cr_input = inp\<rparr>] = r # rs"
    and "length (r # rs) > max_history_records (qh_policy h)"
    and "((qh_counts h)(tool \<mapsto> get_count h tool + 1)) (cr_tool_name r) = Some n" and "0 < n"
  shows "record_call h tool inp = h\<lparr>qh_records := rs,
    qh_counts := (qh_counts h)(tool \<mapsto> get_count h tool + 1, cr_tool_name r \<mapsto> n - 1)\<rparr>"
  unfolding record_call_def Let_def assms(1) list.sel using assms(2-4) by simp

lemma record_call_window:
  assumes "history_window h cs"
  shows "history_window (record_call h tool inp)
    (let w = cs @ [(tool, inp)] in if length w > max_history_records (qh_policy h) then tl w else w)"
proof (cases "length cs + 1 > max_history_records (qh_policy h)")
  case False
  with assms show ?thesis
    by (auto simp: history_window_def record_call_def get_count_update calls_to_append calls_to_Cons
        call_of_def calls_to_def get_count_def Let_def split: option.splits)
next
  case True
  let ?w = "cs @ [(tool, inp)]"
  let ?m = "(qh_counts h)(tool \<mapsto> get_count h tool + 1)"
  obtain c w where cw: "?w = c # w" by (cases ?w) auto
  have counts: "(case ?m t of Some n \<Rightarrow> n | None \<Rightarrow> 0) = calls_to t ?w" for t
    using assms by (auto simp: history_window_def calls_to_append calls_to_Cons calls_to_def
        get_count_def split: option.splits)
  have rec: "qh_records h @ [\<lparr>cr_tool_name = tool, cr_input = inp\<rparr>] = call_of c # map call_of w"
    using assms cw by (metis (no_types) call_of_def fst_conv history_window_def list.simps(8,9)
        map_append snd_conv)
  have pos: "?m (fst c) = Some (calls_to (fst c) ?w)" "0 < calls_to (fst c) ?w"
    using counts [of "fst c"] by (auto simp: cw calls_to_Cons split: option.splits)
  have "record_call h tool inp =
      h\<lparr>qh_records := map call_of w, qh_counts := ?m(fst c \<mapsto> calls_to (fst c) ?w - 1)\<rparr>"
  proof -
    have len: "length (call_of c # map call_of w) > max_history_records (qh_policy h)"
      using True cw by (metis One_nat_def add.right_neutral add_Suc_right length_Cons length_append_singleton
          length_map)
    have name: "cr_tool_name (call_of c) = fst c" by (simp add: call_of_def)
    show ?thesis
      using record_call_overflow [OF rec len, unfolded name, OF pos] .
  qed
  moreover have "(case (?m(fst c \<mapsto> calls_to (fst c) ?w - 1)) t of Some n \<Rightarrow> n | None \<Rightarrow> 0) = calls_to t w" for t
    using counts [of t] pos by (simp add: cw calls_to_Cons)
  moreover have "length w = length cs" using cw by (metis length_Cons length_append_singleton nat.inject)
  ultimately show ?thesis
    using True cw by (simp add: history_window_def get_count_update Let_def)
qed

lemma run_calls_snoc: "run_calls h (cs @ [(t, i)]) = record_call (run_calls h cs) t i"
  by (induction h cs rule: run_calls.induct) auto

lemma policy_run_calls [simp]: "qh_policy (run_calls h cs) = qh_policy h"
  by (induction h cs rule: run_calls.induct) auto

lemma run_calls_window:
  "history_window (run_calls (history_with_policy p) cs) (recent (max_history_records p) cs)"
proof (induction cs rule: rev_induct)
  case Nil
  show ?case
    by (simp add: history_window_def history_with_policy_def recent_def get_count_def calls_to_def)
next
  case (snoc c cs)
  obtain t i where c: "c = (t, i)" by fastforce
  have "qh_policy (run_calls (history_with_policy p) cs) = p"
    by (simp add: history_with_policy_def)
  then show ?case
    using record_call_window [OF snoc, of t i] by (simp add: c run_calls_snoc recent_snoc)
qed

lemmas run_calls_count = run_calls_window [unfolded history_window_def, THEN conjunct2, THEN spec]
lemmas run_calls_records = run_calls_window [unfolded history_window_def, THEN conjunct1]

section \<open>The verdict of the check\<close>

lemma scan_similar_warn: "scan_similar U p tool inp th rs = Some a \<Longrightarrow> la_action a = Warn"
  by (induction rs) (auto simp: Let_def split: if_splits)

lemma scan_similar_None:
  "scan_similar U p tool inp th rs = None \<longleftrightarrow>
     (\<forall>r \<in> set rs. cr_tool_name r = tool \<longrightarrow>
        calculate_similarity_with_min_token_length U (cr_input r) inp (min_token_length p) < th)"
  by (induction rs) (auto simp: Let_def)

lemma check_loop_block_iff:
  "(\<exists>m. check_loop U h tool inp th = Some \<lparr>la_action = Block, la_message = m\<rparr>) \<longleftrightarrow>
     saturating_mul (max_frequency_for_tool (qh_policy h) tool) 2 \<le> get_count h tool"
  using scan_similar_warn [of U "qh_policy h" tool inp th "rev (qh_records h)"]
  by (auto simp: check_loop_def Let_def split: option.splits if_splits)

lemma finite_similarity_tokens [simp]: "finite (similarity_tokens U s n)"
  by (simp add: similarity_tokens_def)

lemma similarity_sym:
  "calculate_similarity_with_min_token_length U s1 s2 n = calculate_similarity_with_min_token_length U s2 s1 n"
  by (simp add: calculate_similarity_with_min_token_length_def Let_def Int_commute Un_commute conj_commute)

lemma card_ratio_le_1: "finite A \<Longrightarrow> finite B \<Longrightarrow> of_nat (card (A \<inter> B)) / of_nat (card (A \<union> B)) \<le> (1 :: rat)"
proof -
  assume "finite A" "finite B"
  then have "card (A \<inter> B) \<le> card (A \<union> B)" by (intro card_mono) auto
  then have "of_nat (card (A \<inter> B)) \<le> (of_nat (card (A \<union> B)) :: rat)" by simp
  then show ?thesis by (auto simp: divide_le_eq_1)
qed

lemma similarity_range:
  "0 \<le> calculate_similarity_with_min_token_length U s1 s2 n"
  "calculate_similarity_with_min_token_length U s1 s2 n \<le> 1"
  unfolding calculate_similarity_with_min_token_length_def Let_def
  by (auto simp: f64_round_nonneg intro!: f64_round_le_1 card_ratio_le_1 simp del: of_nat_le_iff)

lemma similarity_same_tokens:
  "similarity_tokens U s1 n = similarity_tokens U s2 n \<Longrightarrow>
     calculate_similarity_with_min_token_length U s1 s2 n = 1"
  by (auto simp: calculate_similarity_with_min_token_length_def Let_def)

lemma similarity_disjoint_tokens:
  "similarity_tokens U s1 n \<inter> similarity_tokens U s2 n = {} \<Longrightarrow> similarity_tokens U s1 n \<noteq> {} \<Longrightarrow>
     calculate_similarity_with_min_token_length U s1 s2 n = 0"
  by (auto simp: calculate_similarity_with_min_token_length_def Let_def)

lemma find_rev_last:
  assumes "P x" and "\<forall>v \<in> set vs. \<not> P v"
  shows "find P (rev (us @ x # vs)) = Some x"
  using assms by (induction vs rule: rev_induct) auto

section \<open>Properties\<close>

text \<open>
  C15. Sliding window. After any sequence of calls the history holds exactly the most
  recent \<open>max_history_records\<close> of them, in order, and every tool's counter is the number
  of its calls inside that window: eviction and counting never drift apart.
\<close>
theorem history_is_sliding_window:
  "qh_records (run_calls (history_with_policy p) cs) = map call_of (recent (max_history_records p) cs)
   \<and> get_count (run_calls (history_with_policy p) cs) tool
       = calls_to tool (recent (max_history_records p) cs)"
  using run_calls_window [of p cs] by (simp add: history_window_def)

text \<open>
  C16. Hard block. In every session a call is blocked exactly when the tool was called at
  least twice its frequency limit within the window; a policy whose window is shorter
  than that can never block.
\<close>
theorem block_iff_window_saturated:
  "(\<exists>m. check_loop U (run_calls (history_with_policy p) cs) tool inp th
          = Some \<lparr>la_action = Block, la_message = m\<rparr>)
     = (saturating_mul (max_frequency_for_tool p tool) 2 \<le> calls_to tool (recent (max_history_records p) cs))
   \<and> (max_history_records p < saturating_mul (max_frequency_for_tool p tool) 2 \<longrightarrow>
        check_loop U (run_calls (history_with_policy p) cs) tool inp th
          \<noteq> Some \<lparr>la_action = Block, la_message = m'\<rparr>)"
proof -
  have pol: "qh_policy (run_calls (history_with_policy p) cs) = p"
    by (simp add: history_with_policy_def)
  have "calls_to tool (recent (max_history_records p) cs) \<le> max_history_records p"
    using length_recent [of "max_history_records p" cs]
    unfolding calls_to_def by (meson length_filter_le order_trans)
  moreover note iff = check_loop_block_iff [of U "run_calls (history_with_policy p) cs" tool inp th,
      unfolded pol run_calls_count]
  ultimately have "check_loop U (run_calls (history_with_policy p) cs) tool inp th
      \<noteq> Some \<lparr>la_action = Block, la_message = m'\<rparr>"
    if "max_history_records p < saturating_mul (max_frequency_for_tool p tool) 2"
    using that by fastforce
  with iff show ?thesis by blast
qed

theorem block_iff_window_saturated_witness:
  "3 < saturating_mul (max_frequency_for_tool
        (with_max_history_records default_loop_guard_policy 3) (lit ''web_search'')) 2
   \<and> check_loop ascii_tables (run_calls (history_with_policy
        (with_max_history_records default_loop_guard_policy 3))
        (replicate 9 (lit ''web_search'', lit ''q''))) (lit ''web_search'') (lit ''q'') (4 / 5)
      \<noteq> Some \<lparr>la_action = Block, la_message = []\<rparr>"
proof -
  let ?p = "with_max_history_records default_loop_guard_policy 3"
  have h: "max_history_records ?p < saturating_mul (max_frequency_for_tool ?p (lit ''web_search'')) 2"
    by (simp add: with_max_history_records_def default_loop_guard_policy_def saturating_mul_def
        usize_max_def max_frequency_for_tool_def MAX_LOOKUP_TOOL_CALL_FREQUENCY_def)
  show ?thesis
    using block_iff_window_saturated [of ascii_tables ?p "replicate 9 (lit ''web_search'', lit ''q'')"
        "lit ''web_search''" "lit ''q''" "4 / 5" "[]"] h
    by (simp add: with_max_history_records_def)
qed

text \<open>
  Exact repeats. While a tool is under its frequency limit, repeating its most recent
  call up to whitespace reuses the previous result, whatever other tools were called in
  between and whatever the similarity threshold; it is never treated as a failure.
\<close>
theorem exact_repeat_reuses_previous:
  assumes "calls_to tool (recent (max_history_records p) (us @ (tool, prev) # vs)) < max_frequency_for_tool p tool"
    and "calls_to tool vs = 0"
    and "length vs < max_history_records p"
    and "canonicalize_for_exact_match prev = canonicalize_for_exact_match inp"
    and "max_frequency_for_tool p tool \<le> usize_max"
  shows "check_loop U (run_calls (history_with_policy p) (us @ (tool, prev) # vs)) tool inp th
    = Some \<lparr>la_action = ReusePrevious, la_message = reuse_message tool\<rparr>"
proof -
  let ?cs = "us @ (tool, prev) # vs"
  let ?h = "run_calls (history_with_policy p) ?cs"
  have pol: "qh_policy ?h = p" by (simp add: history_with_policy_def)
  obtain us' where "recent (max_history_records p) ?cs = us' @ (tool, prev) # vs"
    using assms(3) by (auto simp: recent_def)
  then have "qh_records ?h = map call_of us' @ call_of (tool, prev) # map call_of vs"
    by (simp add: run_calls_records)
  moreover have "\<forall>v \<in> set (map call_of vs). cr_tool_name v \<noteq> tool"
    using assms(2) by (auto simp: calls_to_def filter_empty_conv call_of_def)
  ultimately have "find (\<lambda>r. cr_tool_name r = tool) (rev (qh_records ?h)) = Some (call_of (tool, prev))"
    by (metis (mono_tags, lifting) call_of_def call_record.select_convs(1) find_rev_last fst_conv)
  moreover have "get_count ?h tool < max_frequency_for_tool p tool"
    using assms(1) by (simp add: run_calls_count)
  moreover from this have "get_count ?h tool < saturating_mul (max_frequency_for_tool p tool) 2"
    using assms(5) by (auto simp: saturating_mul_def)
  ultimately show ?thesis
    using assms(4) pol by (auto simp: check_loop_def Let_def call_of_def)
qed

theorem exact_repeat_reuses_previous_witness:
  "check_loop ascii_tables (run_calls (history_with_policy default_loop_guard_policy)
      ([] @ (lit ''delegate'', lit ''a  b'') # [(lit ''browser'', lit ''x'')])) (lit ''delegate'') (lit '' a b'') 1
    = Some \<lparr>la_action = ReusePrevious, la_message = reuse_message (lit ''delegate'')\<rparr>"
  by (rule exact_repeat_reuses_previous)
    (simp_all add: default_loop_guard_policy_def MAX_HISTORY_RECORDS_def MAX_TOOL_CALL_FREQUENCY_def
      recent_all calls_to_def max_frequency_for_tool_def usize_max_def
      canonicalize_for_exact_match_def split_whitespace_def is_ws_def)

text \<open>
  Similarity. The score is symmetric and lies in the unit interval after rounding to
  double precision; it is 1 for equal token sets and 0 for disjoint non-empty ones.
\<close>
theorem similarity_is_jaccard:
  "calculate_similarity U s1 s2 = calculate_similarity U s2 s1
   \<and> 0 \<le> calculate_similarity U s1 s2 \<and> calculate_similarity U s1 s2 \<le> 1
   \<and> (similarity_tokens U s1 2 = similarity_tokens U s2 2 \<longrightarrow> calculate_similarity U s1 s2 = 1)
   \<and> (similarity_tokens U s1 2 \<noteq> {} \<and> similarity_tokens U s1 2 \<inter> similarity_tokens U s2 2 = {}
        \<longrightarrow> calculate_similarity U s1 s2 = 0)"
proof -
  have n: "min_token_length default_loop_guard_policy = 2"
    by (simp add: default_loop_guard_policy_def MIN_TOKEN_LENGTH_def)
  show ?thesis
    unfolding calculate_similarity_def n
    using similarity_sym [of U s1 s2 2] similarity_range [of U s1 s2 2]
      similarity_same_tokens [of U s1 2 s2] similarity_disjoint_tokens [of U s1 2 s2] by blast
qed

theorem similarity_is_jaccard_witness:
  "calculate_similarity ascii_tables (lit ''apple stock'') (lit ''Stock, Apple!'') = 1"
proof -
  have "similarity_tokens ascii_tables (lit ''apple stock'') 2
      = similarity_tokens ascii_tables (lit ''Stock, Apple!'') 2"
    by (simp add: similarity_tokens_def split_whitespace_def is_ws_def ascii_tables_def
        to_ascii_lowercase_def ascii_alnum_def utf8_len_def utf8_width_def insert_commute)
  then show ?thesis
    using similarity_is_jaccard [of ascii_tables "lit ''apple stock''" "lit ''Stock, Apple!''"] by blast
qed

end
