(* ===== verification/Redb_Store.thy ===== *)
theory Redb_Store
  imports Prelude
begin

text \<open>
  The interfaces under the crate \<^verbatim>\<open>state\<close>. The embedded database \<^verbatim>\<open>redb\<close> and the JSON
  codec \<^verbatim>\<open>serde_json\<close> are libraries: their operations are arguments of the managers'
  definitions (the records \<open>redb\<close> and \<open>codec\<close>), and what the managers rely on are the
  laws of the locales \<open>kv_tables\<close>, \<open>ordered_tables\<close> and \<open>json_codec\<close>. An operation may
  fail at any time; the laws speak of the calls that succeed. A write is one committed
  transaction, and a failed one leaves the database as it was (the caller keeps the old
  value). \<open>record_store\<close> is the contract every manager with a save and a load offers,
  with the facts its clients use proved once.
\<close>

record ('e, 'db, 'b) redb =
  db_get :: "'db \<Rightarrow> rstr \<Rightarrow> rstr \<Rightarrow> 'e + 'b option"
  db_insert :: "'db \<Rightarrow> rstr \<Rightarrow> rstr \<Rightarrow> 'b \<Rightarrow> 'e + 'db"
  db_remove :: "'db \<Rightarrow> rstr \<Rightarrow> rstr \<Rightarrow> 'e + ('db \<times> bool)"
  db_iter :: "'db \<Rightarrow> rstr \<Rightarrow> 'e + (rstr \<times> 'b) list"

record ('e, 'a, 'b) codec =
  to_vec :: "'a \<Rightarrow> 'e + 'b"
  from_slice :: "'b \<Rightarrow> 'e + 'a"

text \<open>Tables are finite maps; \<open>contents\<close> reads one.\<close>

locale kv_tables =
  fixes R :: "('e, 'db, 'b, 'z) redb_scheme" and contents :: "'db \<Rightarrow> rstr \<Rightarrow> rstr \<rightharpoonup> 'b"
  assumes get_ok: "db_get R d t k = Inr r \<Longrightarrow> r = contents d t k"
    and insert_ok: "db_insert R d t k v = Inr d' \<Longrightarrow> contents d' = (contents d)(t := (contents d t)(k \<mapsto> v))"
    and remove_ok: "db_remove R d t k = Inr (d', b) \<Longrightarrow>
      contents d' = (contents d)(t := (contents d t)(k := None)) \<and> b = (contents d t k \<noteq> None)"
begin

lemma insert_frame: "db_insert R d t k v = Inr d' \<Longrightarrow> t' \<noteq> t \<Longrightarrow> contents d' t' = contents d t'"
  by (simp add: insert_ok)

lemma remove_frame: "db_remove R d t k = Inr (d', b) \<Longrightarrow> t' \<noteq> t \<Longrightarrow> contents d' t' = contents d t'"
  by (simp add: remove_ok)

end

text \<open>Iteration visits every entry once, in the order of the keys.\<close>

locale ordered_tables = kv_tables +
  assumes iter_ok: "db_iter R d t = Inr kvs \<Longrightarrow>
    map_of kvs = contents d t \<and> sorted_wrt (<) (map fst kvs)"
begin

lemma iter_distinct: "db_iter R d t = Inr kvs \<Longrightarrow> distinct (map fst kvs)"
  using iter_ok strict_sorted_iff by blast

lemma iter_entry: "db_iter R d t = Inr kvs \<Longrightarrow> (k, v) \<in> set kvs \<longleftrightarrow> contents d t k = Some v"
  using iter_ok iter_distinct by (metis map_of_eq_Some_iff)

end

locale json_codec =
  fixes C :: "('e, 'a, 'b) codec"
  assumes roundtrip: "to_vec C x = Inr b \<Longrightarrow> from_slice C b = Inr x"

text \<open>The contract of a manager: loads see the last successful save of the key.\<close>

locale record_store =
  fixes save :: "'db \<Rightarrow> 'a \<Rightarrow> 'e + 'db"
    and load :: "'db \<Rightarrow> rstr \<Rightarrow> 'e + 'a option"
    and key :: "'a \<Rightarrow> rstr"
    and view :: "'db \<Rightarrow> rstr \<rightharpoonup> 'a"
  assumes load_view: "load d k = Inr r \<Longrightarrow> r = view d k"
    and save_view: "save d x = Inr d' \<Longrightarrow> view d' = (view d)(key x \<mapsto> x)"
begin

lemma read_your_write: "save d x = Inr d' \<Longrightarrow> load d' (key x) = Inr r \<Longrightarrow> r = Some x"
  using load_view save_view by fastforce

lemma save_other: "save d x = Inr d' \<Longrightarrow> k \<noteq> key x \<Longrightarrow> view d' k = view d k"
  by (simp add: save_view)

lemma saves_commute:
  assumes "save d x = Inr d1" "save d1 y = Inr d2" "save d y = Inr e1" "save e1 x = Inr e2" "key x \<noteq> key y"
  shows "view d2 = view e2"
  using assms by (simp add: save_view fun_upd_twist)

end

section \<open>A manager over one table\<close>

text \<open>
  The part the managers share: encode and insert, or get and decode. Each manager's own
  definition calls these with its table and key.
\<close>

definition put_record :: "('e, 'db, 'b) redb \<Rightarrow> ('e, 'a, 'b) codec \<Rightarrow> rstr \<Rightarrow> 'db \<Rightarrow> rstr \<Rightarrow> 'a \<Rightarrow> 'e + 'db" where
  "put_record R C t d k x = res_bind (to_vec C x) (\<lambda>data. db_insert R d t k data)"

definition get_record :: "('e, 'db, 'b) redb \<Rightarrow> ('e, 'a, 'b) codec \<Rightarrow> rstr \<Rightarrow> 'db \<Rightarrow> rstr \<Rightarrow> 'e + 'a option" where
  "get_record R C t d k = res_bind (db_get R d t k) (\<lambda>v. case v of
       None \<Rightarrow> Inr None
     | Some data \<Rightarrow> res_bind (from_slice C data) (\<lambda>x. Inr (Some x)))"

definition all_records :: "('e, 'db, 'b) redb \<Rightarrow> ('e, 'a, 'b) codec \<Rightarrow> rstr \<Rightarrow> 'db \<Rightarrow> 'e + 'a list" where
  "all_records R C t d = res_bind (db_iter R d t) (res_map (\<lambda>kv. from_slice C (snd kv)))"

definition table_view :: "('e, 'a, 'b) codec \<Rightarrow> ('db \<Rightarrow> rstr \<Rightarrow> rstr \<rightharpoonup> 'b) \<Rightarrow> rstr \<Rightarrow> 'db \<Rightarrow> rstr \<rightharpoonup> 'a" where
  "table_view C contents t d k = (case contents d t k of None \<Rightarrow> None
     | Some b \<Rightarrow> (case from_slice C b of Inl _ \<Rightarrow> None | Inr x \<Rightarrow> Some x))"

locale record_tables = ordered_tables R contents + json_codec C
  for R :: "('e, 'db, 'b) redb" and contents :: "'db \<Rightarrow> rstr \<Rightarrow> rstr \<rightharpoonup> 'b" and C :: "('e, 'a, 'b) codec"
begin

lemma get_record_view: "get_record R C t d k = Inr r \<Longrightarrow> r = table_view C contents t d k"
  by (auto simp: get_record_def res_bind_eq_Inr table_view_def dest!: get_ok split: option.splits)

lemma put_record_view:
  "put_record R C t d k x = Inr d' \<Longrightarrow> table_view C contents t d' = (table_view C contents t d)(k \<mapsto> x)"
  by (auto simp: put_record_def res_bind_eq_Inr table_view_def dest!: insert_ok roundtrip)

lemma table_view_Some:
  "table_view C contents t d k = Some x \<longleftrightarrow> (\<exists>b. contents d t k = Some b \<and> from_slice C b = Inr x)"
  by (auto simp: table_view_def split: option.splits sum.splits)

lemma put_record_frame:
  "put_record R C t d k x = Inr d' \<Longrightarrow> t' \<noteq> t \<Longrightarrow> contents d' t' = contents d t'"
  by (auto simp: put_record_def res_bind_eq_Inr dest: insert_frame)

lemma all_records_set:
  assumes "all_records R C t d = Inr xs"
  shows "set xs = ran (table_view C contents t d)"
proof -
  obtain kvs where kvs: "db_iter R d t = Inr kvs" "list_all2 (\<lambda>kv x. from_slice C (snd kv) = Inr x) kvs xs"
    using assms by (auto simp: all_records_def res_bind_eq_Inr res_map_eq_Inr)
  note entry = iter_entry [OF kvs(1)]
  have "x \<in> set xs \<longleftrightarrow> (\<exists>k b. (k, b) \<in> set kvs \<and> from_slice C b = Inr x)" for x
    using kvs(2) by (induction rule: list_all2_induct) (auto, blast)
  moreover have "x \<in> ran (table_view C contents t d) \<longleftrightarrow> (\<exists>k b. (k, b) \<in> set kvs \<and> from_slice C b = Inr x)" for x
    by (auto simp: ran_def table_view_Some entry)
  ultimately show ?thesis by blast
qed

lemma all_records_length:
  "all_records R C t d = Inr xs \<Longrightarrow> length xs = card (dom (contents d t))"
proof -
  assume "all_records R C t d = Inr xs"
  then obtain kvs where kvs: "db_iter R d t = Inr kvs" "list_all2 (\<lambda>kv x. from_slice C (snd kv) = Inr x) kvs xs"
    by (auto simp: all_records_def res_bind_eq_Inr res_map_eq_Inr)
  have "length xs = length (map fst kvs)" using kvs(2) by (simp add: list_all2_lengthD)
  also have "\<dots> = card (set (map fst kvs))"
    using iter_distinct [OF kvs(1)] by (rule distinct_card [symmetric])
  also have "set (map fst kvs) = dom (contents d t)"
    using iter_ok [OF kvs(1)] by (metis dom_map_of_conv_image_fst list.set_map)
  finally show ?thesis .
qed

end

text \<open>A table whose records are stored under their own key.\<close>

definition keyed :: "('a \<Rightarrow> rstr) \<Rightarrow> (rstr \<rightharpoonup> 'a) \<Rightarrow> bool" where
  "keyed key m \<longleftrightarrow> (\<forall>k x. m k = Some x \<longrightarrow> key x = k)"

lemma keyed_upd [intro]: "keyed key m \<Longrightarrow> key x = k \<Longrightarrow> keyed key (m(k \<mapsto> x))"
  by (simp add: keyed_def)

lemma keyed_del [intro]: "keyed key m \<Longrightarrow> keyed key (m(k := None))"
  by (simp add: keyed_def)

context record_tables
begin

lemma all_records_keys:
  assumes "all_records R C t d = Inr xs" and "keyed key (table_view C contents t d)"
  shows "sorted_wrt (<) (map key xs)" and "distinct xs"
proof -
  obtain kvs where kvs: "db_iter R d t = Inr kvs" "list_all2 (\<lambda>kv x. from_slice C (snd kv) = Inr x) kvs xs"
    using assms(1) by (auto simp: all_records_def res_bind_eq_Inr res_map_eq_Inr)
  have "key x = k" if "(k, b) \<in> set kvs" "from_slice C b = Inr x" for k b x
    using that assms(2) iter_entry [OF kvs(1)] by (auto simp: keyed_def table_view_Some)
  with kvs(2) have "map key xs = map fst kvs"
    by (induction rule: list_all2_induct) (auto, blast+)
  then show "sorted_wrt (<) (map key xs)" using iter_ok [OF kvs(1)] by simp
  then show "distinct xs" using strict_sorted_iff distinct_map by blast
qed

end

text \<open>
  Whatever the table and the key of a record, encode-and-insert with get-and-decode is a
  record store; the managers inherit its facts from here.
\<close>

sublocale record_tables \<subseteq> store: record_store "\<lambda>d x. put_record R C t d (key x) x" "get_record R C t" key
    "table_view C contents t" for t key
  by unfold_locales (auto dest: get_record_view put_record_view)

section \<open>Tables kept in memory\<close>

text \<open>
  Association lists, one per table, visited in the order of the keys: the map the laws
  describe. Properties of the managers are evaluated on it.
\<close>

type_synonym 'b mem_db = "rstr \<Rightarrow> (rstr \<times> 'b) list"

fun mem_put :: "rstr \<Rightarrow> 'b \<Rightarrow> (rstr \<times> 'b) list \<Rightarrow> (rstr \<times> 'b) list" where
  "mem_put k v [] = [(k, v)]"
| "mem_put k v ((k', v') # kvs) =
     (if k < k' then (k, v) # (k', v') # kvs
      else if k = k' then (k, v) # kvs else (k', v') # mem_put k v kvs)"

definition mem_sorted :: "(rstr \<times> 'b) list \<Rightarrow> (rstr \<times> 'b) list" where
  "mem_sorted kvs = foldr (\<lambda>(k, v). mem_put k v) kvs []"

definition mem_redb :: "('e, 'b mem_db, 'b) redb" where
  "mem_redb = \<lparr>
     db_get = (\<lambda>d t k. Inr (map_of (d t) k)),
     db_insert = (\<lambda>d t k v. Inr (d(t := mem_put k v (d t)))),
     db_remove = (\<lambda>d t k. Inr (d(t := filter (\<lambda>kv. fst kv \<noteq> k) (d t)), map_of (d t) k \<noteq> None)),
     db_iter = (\<lambda>d t. Inr (mem_sorted (d t)))\<rparr>"

definition mem_json :: "('e, 'a, 'a) codec" where
  "mem_json = \<lparr>to_vec = Inr, from_slice = Inr\<rparr>"

abbreviation mem_tables :: "(unit, 'b mem_db, 'b) redb" where
  "mem_tables \<equiv> mem_redb"

abbreviation mem_codec :: "(unit, 'a, 'a) codec" where
  "mem_codec \<equiv> mem_json"

definition mem_contents :: "'b mem_db \<Rightarrow> rstr \<Rightarrow> rstr \<rightharpoonup> 'b" where
  "mem_contents d t = map_of (d t)"

lemma map_of_mem_put: "map_of (mem_put k v kvs) = (map_of kvs)(k \<mapsto> v)"
  by (induction kvs rule: mem_put.induct) auto

lemma map_of_filter_key: "map_of (filter (\<lambda>kv. fst kv \<noteq> k) kvs) = (map_of kvs)(k := None)"
  by (induction kvs) (auto simp: fun_upd_twist)

lemma mem_put_keys: "fst ` set (mem_put k v kvs) = insert k (fst ` set kvs)"
  by (induction kvs rule: mem_put.induct) auto

lemma mem_put_sorted: "sorted_wrt (<) (map fst kvs) \<Longrightarrow> sorted_wrt (<) (map fst (mem_put k v kvs))"
proof (induction kvs rule: mem_put.induct)
  case (2 k v k' v' kvs)
  show ?case
  proof (cases "k < k'")
    case True
    with 2 show ?thesis by auto
  next
    case False
    with 2 mem_put_keys [of k v kvs] show ?thesis by auto
  qed
qed simp

lemma mem_sorted: "map_of (mem_sorted kvs) = map_of kvs" "sorted_wrt (<) (map fst (mem_sorted kvs))"
  by (induction kvs) (auto simp: mem_sorted_def map_of_mem_put mem_put_sorted)

interpretation mem: record_tables "mem_redb :: ('e, 'a mem_db, 'a) redb" mem_contents mem_json
proof unfold_locales
  show "r = mem_contents d t k" if "db_get (mem_redb :: ('e, 'a mem_db, 'a) redb) d t k = Inr r" for d t k and r :: "'a option"
    using that by (simp add: mem_redb_def mem_contents_def)
  show "mem_contents d' = (mem_contents d)(t := (mem_contents d t)(k \<mapsto> v))"
    if "db_insert (mem_redb :: ('e, 'a mem_db, 'a) redb) d t k v = Inr d'" for d t k and v :: 'a and d'
  proof -
    have "d' = d(t := mem_put k v (d t))" using that by (simp add: mem_redb_def)
    then show ?thesis by (auto simp: mem_contents_def map_of_mem_put)
  qed
  show "mem_contents d' = (mem_contents d)(t := (mem_contents d t)(k := None)) \<and> b = (mem_contents d t k \<noteq> None)"
    if "db_remove (mem_redb :: ('e, 'a mem_db, 'a) redb) d t k = Inr (d', b)" for d :: "'a mem_db" and t k d' b
  proof -
    have "d' = d(t := filter (\<lambda>kv. fst kv \<noteq> k) (d t))" and b: "b = (map_of (d t) k \<noteq> None)"
      using that by (simp_all add: mem_redb_def)
    then have "mem_contents d' = (mem_contents d)(t := (mem_contents d t)(k := None))"
      by (auto simp: mem_contents_def map_of_filter_key)
    with b show ?thesis by (simp add: mem_contents_def)
  qed
  show "map_of kvs = mem_contents d t \<and> sorted_wrt (<) (map fst kvs)"
    if "db_iter (mem_redb :: ('e, 'a mem_db, 'a) redb) d t = Inr kvs" for d t and kvs :: "(rstr \<times> 'a) list"
    using that mem_sorted by (auto simp: mem_redb_def mem_contents_def)
  show "from_slice (mem_json :: ('e, 'a, 'a) codec) b = Inr x" if "to_vec (mem_json :: ('e, 'a, 'a) codec) x = Inr b" for x b :: 'a
    using that by (simp add: mem_json_def)
qed

lemma mem_get_record: "get_record mem_redb mem_json t d k = Inr (map_of (d t) k)"
  by (simp add: get_record_def mem_redb_def mem_json_def split: option.splits)

lemma mem_put_record: "put_record mem_redb mem_json t d k x = Inr (d(t := mem_put k x (d t)))"
  by (simp add: put_record_def mem_redb_def mem_json_def)

lemma res_map_Inr: "res_map (\<lambda>x. Inr (f x)) xs = Inr (map f xs)"
  by (induction xs) auto

lemma mem_all_records: "all_records mem_redb mem_json t d = Inr (map snd (mem_sorted (d t)))"
  by (simp add: all_records_def mem_redb_def mem_json_def res_map_Inr)

lemma mem_fields:
  "db_get mem_redb d t k = Inr (map_of (d t) k)"
  "db_remove mem_redb d t k = Inr (d(t := filter (\<lambda>kv. fst kv \<noteq> k) (d t)), map_of (d t) k \<noteq> None)"
  "db_insert mem_redb d t k v = Inr (d(t := mem_put k v (d t)))"
  "db_iter mem_redb d t = Inr (mem_sorted (d t))"
  "to_vec mem_json x = Inr x" "from_slice mem_json x = Inr x"
  by (simp_all add: mem_redb_def mem_json_def)

lemmas mem_simps = mem_get_record mem_put_record mem_all_records mem_fields mem_sorted_def

section \<open>Key ranges\<close>

type_synonym bytes = "8 word list"

text \<open>Two more operations of a table: the entries of a key range without its end, and their number.\<close>
record ('e, 'db, 'b) redb_range = "('e, 'db, 'b) redb" +
  db_range :: "'db \<Rightarrow> rstr \<Rightarrow> rstr \<Rightarrow> rstr \<Rightarrow> 'e + (rstr \<times> 'b) list"
  db_len :: "'db \<Rightarrow> rstr \<Rightarrow> 'e + u64"

locale range_tables = ordered_tables R contents
  for R :: "('e, 'db, 'b) redb_range" and contents :: "'db \<Rightarrow> rstr \<Rightarrow> rstr \<rightharpoonup> 'b" +
  assumes range_ok: "db_range R d t lo hi = Inr kvs \<Longrightarrow> distinct (map fst kvs)
      \<and> (\<forall>k v. (k, v) \<in> set kvs \<longleftrightarrow> contents d t k = Some v \<and> lo \<le> k \<and> k < hi)"
    and len_ok: "db_len R d t = Inr n \<Longrightarrow> n = of_nat (card (dom (contents d t)))"

text \<open>Tables of bytes and tables of strings in one database do not share entries.\<close>
locale paired_tables = b: range_tables Rb cb + s: range_tables Rs cs
  for Rb :: "('e, 'db, bytes) redb_range" and Rs :: "('e, 'db, rstr) redb_range" and cb and cs +
  assumes bytes_frame: "db_insert Rb d t k v = Inr d' \<Longrightarrow> cs d' = cs d"
      "db_remove Rb d t k = Inr (d', r) \<Longrightarrow> cs d' = cs d"
    and strs_frame: "db_insert Rs d t k w = Inr d' \<Longrightarrow> cb d' = cb d"
      "db_remove Rs d t k = Inr (d', r) \<Longrightarrow> cb d' = cb d"

definition mem_ranges :: "('db \<Rightarrow> 'b mem_db) \<Rightarrow> ('b mem_db \<Rightarrow> 'db \<Rightarrow> 'db) \<Rightarrow> ('e, 'db, 'b) redb_range" where
  "mem_ranges rd wr = \<lparr>
     db_get = (\<lambda>d t k. Inr (map_of (rd d t) k)),
     db_insert = (\<lambda>d t k v. Inr (wr ((rd d)(t := mem_put k v (rd d t))) d)),
     db_remove = (\<lambda>d t k. Inr (wr ((rd d)(t := filter (\<lambda>kv. fst kv \<noteq> k) (rd d t))) d, map_of (rd d t) k \<noteq> None)),
     db_iter = (\<lambda>d t. Inr (mem_sorted (rd d t))),
     db_range = (\<lambda>d t lo hi. Inr (filter (\<lambda>kv. lo \<le> fst kv \<and> fst kv < hi) (mem_sorted (rd d t)))),
     db_len = (\<lambda>d t. Inr (of_nat (length (mem_sorted (rd d t)))))\<rparr>"

lemma mem_ranges_sel:
  "db_get (mem_ranges rd wr) d t k = Inr (map_of (rd d t) k)"
  "db_insert (mem_ranges rd wr) d t k v = Inr (wr ((rd d)(t := mem_put k v (rd d t))) d)"
  "db_remove (mem_ranges rd wr) d t k = Inr (wr ((rd d)(t := filter (\<lambda>kv. fst kv \<noteq> k) (rd d t))) d, map_of (rd d t) k \<noteq> None)"
  "db_iter (mem_ranges rd wr) d t = Inr (mem_sorted (rd d t))"
  "db_range (mem_ranges rd wr) d t lo hi = Inr (filter (\<lambda>kv. lo \<le> fst kv \<and> fst kv < hi) (mem_sorted (rd d t)))"
  "db_len (mem_ranges rd wr) d t = Inr (of_nat (length (mem_sorted (rd d t))))"
  by (simp_all add: mem_ranges_def)

lemma mem_sorted_facts:
  "distinct (map fst (mem_sorted kvs))" "(k, v) \<in> set (mem_sorted kvs) \<longleftrightarrow> map_of kvs k = Some v"
  "length (mem_sorted kvs) = card (dom (map_of kvs))"
proof -
  show "distinct (map fst (mem_sorted kvs))" using mem_sorted(2) strict_sorted_iff by blast
  then show "(k, v) \<in> set (mem_sorted kvs) \<longleftrightarrow> map_of kvs k = Some v" by (simp add: map_of_eq_Some_iff [symmetric] mem_sorted(1))
  have "length (mem_sorted kvs) = card (set (map fst (mem_sorted kvs)))"
    using \<open>distinct (map fst (mem_sorted kvs))\<close> by (metis distinct_card length_map)
  then show "length (mem_sorted kvs) = card (dom (map_of kvs))"
    by (metis dom_map_of_conv_image_fst list.set_map mem_sorted(1))
qed

lemma mem_ranges_tables:
  assumes "\<And>a d. rd (wr a d) = a"
  shows "range_tables (mem_ranges rd wr :: ('e, 'db, 'b) redb_range) (\<lambda>d t. map_of (rd d t))"
  by unfold_locales (auto simp: mem_ranges_sel assms map_of_mem_put map_of_filter_key mem_sorted mem_sorted_facts
      intro!: ext intro: distinct_map_filter)

text \<open>Two of them side by side.\<close>
lemma mem_pair_tables:
  "paired_tables (mem_ranges fst (\<lambda>a d. (a, snd d))) (mem_ranges snd (\<lambda>a d. (fst d, a))) (\<lambda>d t. map_of (fst d t)) (\<lambda>d t. map_of (snd d t))"
  by (intro paired_tables.intro paired_tables_axioms.intro) (auto simp: mem_ranges_sel intro!: mem_ranges_tables)

end
