(* ===== verification/Task_State.thy ===== *)
theory Task_State
  imports Redb_Store
begin

text \<open>
  The durable task records of the crate \<^verbatim>\<open>state\<close> (\<^verbatim>\<open>task.rs\<close>): the record and its parts,
  the merge that protects completion fields, and every operation of \<^verbatim>\<open>TaskManager\<close>. JSON
  values are a type parameter, \<^verbatim>\<open>Uuid::to_string\<close> is the argument \<open>us\<close>, the clock and
  fresh identifiers are arguments of the operations that read them.
\<close>

section \<open>Records\<close>

definition TASKS_TABLE :: rstr where "TASKS_TABLE = lit ''agent_tasks''"

datatype task_status =
    Pending | Queued | Running | Completed
  | Failed rstr
  | Cancelled
  | Paused time
  | AwaitingApproval rstr rstr
  | Blocked rstr
  | Deferred time "rstr option"

record task_boundary =
  tb_scope :: rstr
  tb_rule :: rstr
  tb_reason :: "rstr option"

record task_evidence_requirement =
  er_topic :: rstr
  er_description :: "rstr option"
  er_minimum_count :: "u32 option"

record task_contract =
  tc_intent :: "rstr option"
  tc_response_language :: "rstr option"
  tc_artifact_language :: "rstr option"
  tc_decisions :: "rstr list"
  tc_boundaries :: "task_boundary list"
  tc_completion_criteria :: "rstr list"
  tc_required_events :: "rstr list"
  tc_evidence_requirements :: "task_evidence_requirement list"
  tc_lint_warnings :: "rstr list"

datatype task_verification_verdict = Pass | Fail | Skip | Uncertain | PendingReview

record task_verification =
  tv_verdict :: task_verification_verdict
  tv_missing_events :: "rstr list"
  tv_evidence_event_ids :: "uuid list"
  tv_warnings :: "rstr list"
  tv_summary :: "rstr option"

record task_artifact_ref =
  ar_artifact_id :: rstr
  ar_kind :: rstr
  ar_uri :: rstr
  ar_media_type :: "rstr option"

record task_checkpoint =
  cp_step :: u32
  cp_label :: rstr
  cp_recorded_at :: time
  cp_summary :: "rstr option"

record 'j task_state =
  t_id :: uuid
  t_name :: rstr
  t_description :: rstr
  t_status :: task_status
  t_created_at :: time
  t_updated_at :: time
  t_payload :: 'j
  t_result :: "'j option"
  t_current_step :: u32
  t_total_steps :: "u32 option"
  t_priority :: "8 word"
  t_agent_id :: rstr
  t_contract_version :: u32
  t_session_id :: "rstr option"
  t_thread_id :: "rstr option"
  t_run_id :: "uuid option"
  t_trace_id :: "uuid option"
  t_parent_task_id :: "uuid option"
  t_root_task_id :: "uuid option"
  t_witness_id :: "uuid option"
  t_approval_receipt_id :: "uuid option"
  t_contract :: "task_contract option"
  t_verification :: "task_verification option"
  t_evidence :: "rstr \<rightharpoonup> 'j"
  t_delegation_request_id :: "rstr option"
  t_delegation_state :: "rstr option"
  t_delegated_by :: "rstr option"
  t_delegated_to :: "rstr option"
  t_delegation_return_mode :: "rstr option"
  t_tags :: "rstr list"
  t_artifacts :: "task_artifact_ref list"
  t_checkpoints :: "task_checkpoint list"

definition default_task_contract_version :: u32 where
  "default_task_contract_version = 1"

definition task_new :: "uuid \<Rightarrow> time \<Rightarrow> rstr \<Rightarrow> rstr \<Rightarrow> 'j \<Rightarrow> rstr \<Rightarrow> 'j task_state" where
  "task_new fresh_id now name description payload agent_id = \<lparr>
     t_id = fresh_id, t_name = name, t_description = description, t_status = Pending,
     t_created_at = now, t_updated_at = now, t_payload = payload, t_result = None,
     t_current_step = 0, t_total_steps = None, t_priority = 0, t_agent_id = agent_id,
     t_contract_version = default_task_contract_version,
     t_session_id = None, t_thread_id = None, t_run_id = None, t_trace_id = None,
     t_parent_task_id = None, t_root_task_id = None, t_witness_id = None,
     t_approval_receipt_id = None, t_contract = None, t_verification = None,
     t_evidence = Map.empty, t_delegation_request_id = None, t_delegation_state = None,
     t_delegated_by = None, t_delegated_to = None, t_delegation_return_mode = None,
     t_tags = [], t_artifacts = [], t_checkpoints = []\<rparr>"

section \<open>Operations\<close>

fun task_status_is_terminal :: "task_status \<Rightarrow> bool" where
  "task_status_is_terminal Completed \<longleftrightarrow> True"
| "task_status_is_terminal (Failed _) \<longleftrightarrow> True"
| "task_status_is_terminal Cancelled \<longleftrightarrow> True"
| "task_status_is_terminal (Blocked _) \<longleftrightarrow> True"
| "task_status_is_terminal _ \<longleftrightarrow> False"

text \<open>The loop over \<^verbatim>\<open>existing.evidence\<close> inserts the keys that \<open>nxt\<close> does not have.\<close>
definition merge_completion_fields :: "'j task_state \<Rightarrow> 'j task_state \<Rightarrow> 'j task_state" where
  "merge_completion_fields existing nxt =
     nxt\<lparr>t_status := (if task_status_is_terminal (t_status existing) \<and> \<not> task_status_is_terminal (t_status nxt)
            then t_status existing else t_status nxt),
          t_result := (if t_result nxt = None then t_result existing else t_result nxt),
          t_verification := (if t_verification nxt = None then t_verification existing else t_verification nxt),
          t_artifacts := (if t_artifacts nxt = [] then t_artifacts existing else t_artifacts nxt),
          t_evidence := t_evidence existing ++ t_evidence nxt\<rparr>"

definition task_save :: "('e, 'db, 'b) redb \<Rightarrow> ('e, 'j task_state, 'b) codec \<Rightarrow> (uuid \<Rightarrow> rstr) \<Rightarrow> 'db \<Rightarrow> 'j task_state \<Rightarrow> 'e + 'db" where
  "task_save R C us d task = put_record R C TASKS_TABLE d (us (t_id task)) task"

definition save_preserving_completion_fields ::
  "('e, 'db, 'b) redb \<Rightarrow> ('e, 'j task_state, 'b) codec \<Rightarrow> (uuid \<Rightarrow> rstr) \<Rightarrow> 'db \<Rightarrow> 'j task_state \<Rightarrow> 'e + 'db" where
  "save_preserving_completion_fields R C us d task =
     res_bind (db_get R d TASKS_TABLE (us (t_id task))) (\<lambda>found.
     res_bind (case found of
         Some data \<Rightarrow> res_bind (from_slice C data) (\<lambda>existing. Inr (merge_completion_fields existing task))
       | None \<Rightarrow> Inr task) (\<lambda>task'.
     put_record R C TASKS_TABLE d (us (t_id task)) task'))"

definition task_load :: "('e, 'db, 'b) redb \<Rightarrow> ('e, 'j task_state, 'b) codec \<Rightarrow> 'db \<Rightarrow> rstr \<Rightarrow> 'e + 'j task_state option" where
  "task_load R C d task_id = get_record R C TASKS_TABLE d task_id"

definition task_list :: "('e, 'db, 'b) redb \<Rightarrow> ('e, 'j task_state, 'b) codec \<Rightarrow> 'db \<Rightarrow> 'e + 'j task_state list" where
  "task_list R C d = all_records R C TASKS_TABLE d"

definition task_list_by_session :: "('e, 'db, 'b) redb \<Rightarrow> ('e, 'j task_state, 'b) codec \<Rightarrow> 'db \<Rightarrow> rstr \<Rightarrow> 'e + 'j task_state list" where
  "task_list_by_session R C d session_id = res_bind (task_list R C d) (\<lambda>tasks.
     Inr (sort_by (le_desc t_updated_at) (filter (\<lambda>task. t_session_id task = Some session_id) tasks)))"

text \<open>The loop of \<^verbatim>\<open>upsert_artifact_refs\<close>: the list of references and the flag \<^verbatim>\<open>changed\<close>.\<close>
fun push_artifact_refs :: "task_artifact_ref list \<Rightarrow> bool \<Rightarrow> task_artifact_ref list \<Rightarrow> task_artifact_ref list \<times> bool" where
  "push_artifact_refs arts changed [] = (arts, changed)"
| "push_artifact_refs arts changed (a # as) =
     (if list_ex (\<lambda>x. ar_artifact_id x = ar_artifact_id a) arts then push_artifact_refs arts changed as
      else push_artifact_refs (arts @ [a]) True as)"

text \<open>
  The read and the write of \<^verbatim>\<open>upsert_artifact_refs\<close> are two transactions;
  \<open>upsert_write\<close> is what runs after the read.
\<close>
definition upsert_write ::
  "('e, 'db, 'b) redb \<Rightarrow> ('e, 'j task_state, 'b) codec \<Rightarrow> (uuid \<Rightarrow> rstr) \<Rightarrow> 'db \<Rightarrow> time \<Rightarrow> 'j task_state \<Rightarrow>
   task_artifact_ref list \<Rightarrow> 'e + ('db \<times> 'j task_state)" where
  "upsert_write R C us d now task refs =
     (let (arts, changed) = push_artifact_refs (t_artifacts task) False refs;
          task' = task\<lparr>t_artifacts := arts\<rparr>
      in if changed then
           (let task'' = task'\<lparr>t_updated_at := now\<rparr>
            in res_bind (task_save R C us d task'') (\<lambda>d'. Inr (d', task'')))
         else Inr (d, task'))"

definition upsert_artifact_refs ::
  "('e, 'db, 'b) redb \<Rightarrow> ('e, 'j task_state, 'b) codec \<Rightarrow> (uuid \<Rightarrow> rstr) \<Rightarrow> 'db \<Rightarrow> time \<Rightarrow> uuid \<Rightarrow>
   task_artifact_ref list \<Rightarrow> 'e + ('db \<times> 'j task_state option)" where
  "upsert_artifact_refs R C us d now task_id refs =
     res_bind (task_load R C d (us task_id)) (\<lambda>found. case found of
         None \<Rightarrow> Inr (d, None)
       | Some task \<Rightarrow> res_bind (upsert_write R C us d now task refs) (\<lambda>(d', task'). Inr (d', Some task')))"

section \<open>What a save may change\<close>

text \<open>Several writers saving updates one after the other.\<close>
fun save_updates ::
  "('e, 'db, 'b) redb \<Rightarrow> ('e, 'j task_state, 'b) codec \<Rightarrow> (uuid \<Rightarrow> rstr) \<Rightarrow> 'db \<Rightarrow> 'j task_state list \<Rightarrow> 'e + 'db" where
  "save_updates R C us d [] = Inr d"
| "save_updates R C us d (t # ts) =
     res_bind (save_preserving_completion_fields R C us d t) (\<lambda>d'. save_updates R C us d' ts)"

text \<open>Progress a later version of a task must not lose.\<close>
definition keeps_completion :: "'j task_state \<Rightarrow> 'j task_state \<Rightarrow> bool" where
  "keeps_completion a b \<longleftrightarrow>
     (task_status_is_terminal (t_status a) \<longrightarrow> task_status_is_terminal (t_status b))
     \<and> (t_result a \<noteq> None \<longrightarrow> t_result b \<noteq> None)
     \<and> (t_verification a \<noteq> None \<longrightarrow> t_verification b \<noteq> None)
     \<and> (t_artifacts a \<noteq> [] \<longrightarrow> t_artifacts b \<noteq> [])
     \<and> dom (t_evidence a) \<subseteq> dom (t_evidence b)"

lemma keeps_completion_refl [simp]: "keeps_completion a a"
  by (simp add: keeps_completion_def)

lemma keeps_completion_trans: "keeps_completion a b \<Longrightarrow> keeps_completion b c \<Longrightarrow> keeps_completion a c"
  by (auto simp: keeps_completion_def)

lemma merge_keeps_existing: "keeps_completion existing (merge_completion_fields existing nxt)"
  by (auto simp: keeps_completion_def merge_completion_fields_def)

lemma merge_id [simp]: "t_id (merge_completion_fields existing nxt) = t_id nxt"
  by (simp add: merge_completion_fields_def)

text \<open>An update that claims no outcome: still open, and no result, proof or artifact of its own.\<close>
definition open_update :: "'j task_state \<Rightarrow> bool" where
  "open_update t \<longleftrightarrow> \<not> task_status_is_terminal (t_status t) \<and> t_result t = None
     \<and> t_verification t = None \<and> t_artifacts t = [] \<and> t_evidence t = Map.empty"

definition same_outcome :: "'j task_state \<Rightarrow> 'j task_state \<Rightarrow> bool" where
  "same_outcome a b \<longleftrightarrow> t_status a = t_status b \<and> t_result a = t_result b
     \<and> t_verification a = t_verification b \<and> t_artifacts a = t_artifacts b \<and> t_evidence a = t_evidence b"

lemma merge_open_update:
  "task_status_is_terminal (t_status a) \<Longrightarrow> open_update n \<Longrightarrow> same_outcome a (merge_completion_fields a n)"
  by (simp add: open_update_def same_outcome_def merge_completion_fields_def)

lemmas task_ops = task_save_def task_load_def task_list_def

locale task_tables = record_tables R contents C
  for R :: "('e, 'db, 'b) redb" and contents :: "'db \<Rightarrow> rstr \<Rightarrow> rstr \<rightharpoonup> 'b"
    and C :: "('e, 'j task_state, 'b) codec"
begin

lemma save_preserving_view:
  assumes "save_preserving_completion_fields R C us d task = Inr d'"
  shows "table_view C contents TASKS_TABLE d' = (table_view C contents TASKS_TABLE d)(us (t_id task) \<mapsto>
    (case table_view C contents TASKS_TABLE d (us (t_id task)) of
       Some existing \<Rightarrow> merge_completion_fields existing task | None \<Rightarrow> task))"
  using assms
  by (auto simp: save_preserving_completion_fields_def res_bind_eq_Inr table_view_def
      dest!: get_ok put_record_view split: option.splits sum.splits)

lemma save_preserving_keyed:
  "save_preserving_completion_fields R C us d task = Inr d' \<Longrightarrow>
   keyed (\<lambda>t. us (t_id t)) (table_view C contents TASKS_TABLE d) \<Longrightarrow>
   keyed (\<lambda>t. us (t_id t)) (table_view C contents TASKS_TABLE d')"
  by (auto simp: save_preserving_view keyed_def split: option.splits)

lemma save_updates_keep:
  "save_updates R C us d ts = Inr d' \<Longrightarrow> table_view C contents TASKS_TABLE d k = Some a \<Longrightarrow>
   \<exists>b. table_view C contents TASKS_TABLE d' k = Some b \<and> keeps_completion a b"
proof (induction ts arbitrary: d a)
  case (Cons t ts)
  then obtain e where e: "save_preserving_completion_fields R C us d t = Inr e" "save_updates R C us e ts = Inr d'"
    by (auto simp: res_bind_eq_Inr)
  obtain a' where "table_view C contents TASKS_TABLE e k = Some a'" "keeps_completion a a'"
    using save_preserving_view [OF e(1)] Cons.prems(2) merge_keeps_existing by (cases "k = us (t_id t)") auto
  with Cons.IH [OF e(2)] show ?case using keeps_completion_trans by blast
qed simp

lemma save_updates_open:
  assumes "save_updates R C us d ts = Inr d'" and "\<forall>t \<in> set ts. us (t_id t) = k \<longrightarrow> open_update t"
    and "table_view C contents TASKS_TABLE d k = Some a" and "task_status_is_terminal (t_status a)"
  shows "\<exists>b. table_view C contents TASKS_TABLE d' k = Some b \<and> same_outcome a b"
  using assms
proof (induction ts arbitrary: d a)
  case (Cons t ts)
  then obtain e where e: "save_preserving_completion_fields R C us d t = Inr e" "save_updates R C us e ts = Inr d'"
    by (auto simp: res_bind_eq_Inr)
  obtain a' where a': "table_view C contents TASKS_TABLE e k = Some a'" "same_outcome a a'"
    using save_preserving_view [OF e(1)] Cons.prems(2-4) merge_open_update
    by (cases "k = us (t_id t)") (auto simp: same_outcome_def)
  with Cons.prems(4) have "task_status_is_terminal (t_status a')" by (simp add: same_outcome_def)
  with Cons.IH [OF e(2) _ a'(1)] Cons.prems(2) a'(2) show ?case by (auto simp: same_outcome_def)
qed (simp add: same_outcome_def)

end

interpretation mem_tasks: task_tables mem_tables mem_contents mem_codec
  by unfold_locales

section \<open>Artifact references\<close>

abbreviation artifact_ids :: "task_artifact_ref list \<Rightarrow> rstr set" where
  "artifact_ids as \<equiv> ar_artifact_id ` set as"

text \<open>The references a call really adds: the first of each identifier not seen before.\<close>
fun new_refs :: "task_artifact_ref list \<Rightarrow> task_artifact_ref list \<Rightarrow> task_artifact_ref list" where
  "new_refs arts [] = []"
| "new_refs arts (a # as) =
     (if ar_artifact_id a \<in> artifact_ids arts then new_refs arts as else a # new_refs (arts @ [a]) as)"

lemma list_ex_artifact_id: "list_ex (\<lambda>x. ar_artifact_id x = i) arts \<longleftrightarrow> i \<in> artifact_ids arts"
  by (auto simp: list_ex_iff)

lemma push_artifact_refs_eq:
  "push_artifact_refs arts c refs = (arts @ new_refs arts refs, c \<or> new_refs arts refs \<noteq> [])"
  by (induction arts c refs rule: push_artifact_refs.induct) (auto simp: list_ex_artifact_id)

lemma new_refs_subset: "set (new_refs arts refs) \<subseteq> set refs"
  by (induction arts refs rule: new_refs.induct) auto

lemma new_refs_mem:
  "i \<in> artifact_ids arts \<or> i \<in> artifact_ids (new_refs arts refs) \<longleftrightarrow> i \<in> artifact_ids arts \<or> i \<in> artifact_ids refs"
proof (induction arts refs rule: new_refs.induct)
  case (2 arts a as)
  then show ?case by (cases "ar_artifact_id a \<in> artifact_ids arts") (simp, blast, simp, blast)
qed simp

lemma new_refs_ids: "artifact_ids (arts @ new_refs arts refs) = artifact_ids arts \<union> artifact_ids refs"
proof (rule set_eqI)
  show "i \<in> artifact_ids (arts @ new_refs arts refs) \<longleftrightarrow> i \<in> artifact_ids arts \<union> artifact_ids refs" for i
    unfolding set_append image_Un Un_iff by (rule new_refs_mem)
qed

lemma new_refs_distinct:
  "distinct (map ar_artifact_id arts) \<Longrightarrow> distinct (map ar_artifact_id (arts @ new_refs arts refs))"
  by (induction arts refs rule: new_refs.induct) auto

lemma new_refs_known: "artifact_ids refs \<subseteq> artifact_ids arts \<Longrightarrow> new_refs arts refs = []"
  by (induction arts refs rule: new_refs.induct) auto

definition with_refs :: "time \<Rightarrow> 'j task_state \<Rightarrow> task_artifact_ref list \<Rightarrow> 'j task_state" where
  "with_refs now task refs = (if new_refs (t_artifacts task) refs = [] then task
     else task\<lparr>t_artifacts := t_artifacts task @ new_refs (t_artifacts task) refs, t_updated_at := now\<rparr>)"

lemma with_refs_artifacts: "t_artifacts (with_refs now task refs) = t_artifacts task @ new_refs (t_artifacts task) refs"
  by (simp add: with_refs_def)

lemma with_refs_again: "with_refs now' (with_refs now task refs) refs = with_refs now task refs"
proof -
  have "new_refs (t_artifacts (with_refs now task refs)) refs = []"
    unfolding with_refs_artifacts by (rule new_refs_known) (simp only: new_refs_ids Un_upper2)
  then show ?thesis by (simp add: with_refs_def)
qed

lemma with_refs_id [simp]: "t_id (with_refs now task refs) = t_id task"
  by (simp add: with_refs_def)

context task_tables
begin

lemma upsert_write_view:
  assumes "upsert_write R C us d now task refs = Inr (d', task')"
  shows "task' = with_refs now task refs"
    and "table_view C contents TASKS_TABLE d' = (if new_refs (t_artifacts task) refs = []
      then table_view C contents TASKS_TABLE d else (table_view C contents TASKS_TABLE d)(us (t_id task) \<mapsto> task'))"
  using assms
  by (auto simp: upsert_write_def with_refs_def push_artifact_refs_eq Let_def res_bind_eq_Inr task_save_def
      dest!: put_record_view split: if_splits)

lemma upsert_view:
  assumes "upsert_artifact_refs R C us d now i refs = Inr (d', r)"
    and "keyed (\<lambda>t. us (t_id t)) (table_view C contents TASKS_TABLE d)"
  shows "r = map_option (\<lambda>t. with_refs now t refs) (table_view C contents TASKS_TABLE d (us i))"
    and "table_view C contents TASKS_TABLE d' = (table_view C contents TASKS_TABLE d)(us i := r)"
proof -
  have "r = map_option (\<lambda>t. with_refs now t refs) (table_view C contents TASKS_TABLE d (us i))
    \<and> table_view C contents TASKS_TABLE d' = (table_view C contents TASKS_TABLE d)(us i := r)"
  proof (cases "table_view C contents TASKS_TABLE d (us i)")
    case None
    with assms(1) have "d' = d \<and> r = None"
      by (auto simp: upsert_artifact_refs_def res_bind_eq_Inr task_load_def dest!: get_record_view split: option.splits)
    with None show ?thesis by (auto simp: fun_upd_idem)
  next
    case (Some t)
    with assms(1) obtain t' where w: "upsert_write R C us d now t refs = Inr (d', t')" "r = Some t'"
      by (auto simp: upsert_artifact_refs_def res_bind_eq_Inr task_load_def dest!: get_record_view split: option.splits)
    have "us (t_id t) = us i" using assms(2) Some by (simp add: keyed_def)
    with upsert_write_view [OF w(1)] w(2) Some show ?thesis by (auto simp: fun_upd_idem with_refs_def)
  qed
  then show "r = map_option (\<lambda>t. with_refs now t refs) (table_view C contents TASKS_TABLE d (us i))"
    "table_view C contents TASKS_TABLE d' = (table_view C contents TASKS_TABLE d)(us i := r)" by blast+
qed

end

section \<open>Properties\<close>

text \<open>Concrete values for the witnesses: decimal identifiers and two versions of a task.\<close>

definition uuid_dec :: "uuid \<Rightarrow> rstr" where
  "uuid_dec u = show_nat (unat u)"

definition sample_done :: "nat task_state" where
  "sample_done = (task_new 1 0 (lit ''t'') [] 7 (lit ''a''))\<lparr>t_status := Completed, t_result := Some 9\<rparr>"

definition sample_running :: "nat task_state" where
  "sample_running = (task_new 1 0 (lit ''t'') [] 7 (lit ''a''))\<lparr>t_status := Running, t_updated_at := 5\<rparr>"

definition sample_ref :: "string \<Rightarrow> task_artifact_ref" where
  "sample_ref i = \<lparr>ar_artifact_id = lit i, ar_kind = [], ar_uri = [], ar_media_type = None\<rparr>"

definition sample_tasks :: "nat task_state mem_db" where
  "sample_tasks = (\<lambda>_. [])(TASKS_TABLE := [(lit ''1'', sample_done)])"

lemmas sample_task_defs = sample_done_def sample_running_def sample_ref_def sample_tasks_def task_new_def uuid_dec_def show_nat.simps

lemma sample_tasks_keyed:
  "keyed (\<lambda>t. uuid_dec (t_id t)) (table_view mem_codec mem_contents TASKS_TABLE sample_tasks)"
  by (simp add: keyed_def table_view_def mem_contents_def mem_json_def sample_task_defs)



text \<open>
  Attaching artifacts. \<^verbatim>\<open>upsert_artifact_refs\<close> keeps the references a task has, in
  order, and appends only references of the call; afterwards the task knows exactly the
  old and the new identifiers, none twice if none was twice before. No other task changes,
  and repeating the call changes nothing, not even the time stamp.
\<close>
theorem upsert_adds_each_ref_once:
  assumes "record_tables R contents C"
    and "keyed (\<lambda>t. us (t_id t)) (table_view C contents TASKS_TABLE d)"
    and "task_load R C d (us i) = Inr (Some t)"
    and "upsert_artifact_refs R C us d now i refs = Inr (d', Some t')"
  shows "(\<exists>new. t_artifacts t' = t_artifacts t @ new \<and> set new \<subseteq> set refs)
    \<and> artifact_ids (t_artifacts t') = artifact_ids (t_artifacts t) \<union> artifact_ids refs
    \<and> (distinct (map ar_artifact_id (t_artifacts t)) \<longrightarrow> distinct (map ar_artifact_id (t_artifacts t')))
    \<and> (task_load R C d' k = Inr r \<longrightarrow> r = (if k = us i then Some t' else table_view C contents TASKS_TABLE d k))
    \<and> (upsert_artifact_refs R C us d' now' i refs = Inr (d'', r'') \<longrightarrow>
         r'' = Some t' \<and> table_view C contents TASKS_TABLE d'' = table_view C contents TASKS_TABLE d')"
proof (intro conjI)
  have loc: "task_tables R contents C" using assms(1) by (simp add: task_tables_def)
  have "table_view C contents TASKS_TABLE d (us i) = Some t"
    using assms(3) record_tables.get_record_view [OF assms(1)] by (fastforce simp: task_load_def)
  then have t': "t' = with_refs now t refs"
    and view: "table_view C contents TASKS_TABLE d' = (table_view C contents TASKS_TABLE d)(us i \<mapsto> t')"
    using task_tables.upsert_view [OF loc assms(4,2)] by simp_all
  show "\<exists>new. t_artifacts t' = t_artifacts t @ new \<and> set new \<subseteq> set refs"
    using new_refs_subset by (auto simp: t' with_refs_artifacts)
  show "artifact_ids (t_artifacts t') = artifact_ids (t_artifacts t) \<union> artifact_ids refs"
    "distinct (map ar_artifact_id (t_artifacts t)) \<longrightarrow> distinct (map ar_artifact_id (t_artifacts t'))"
    unfolding t' with_refs_artifacts using new_refs_ids new_refs_distinct by blast+
  show "task_load R C d' k = Inr r \<longrightarrow> r = (if k = us i then Some t' else table_view C contents TASKS_TABLE d k)"
    using record_tables.get_record_view [OF assms(1), of TASKS_TABLE d' k r] by (simp add: task_load_def view)
  have "us (t_id t') = us i"
    using assms(2) \<open>table_view C contents TASKS_TABLE d (us i) = Some t\<close> by (simp add: keyed_def t')
  then have "keyed (\<lambda>t. us (t_id t)) (table_view C contents TASKS_TABLE d')"
    using assms(2) by (auto simp: view)
  then show "upsert_artifact_refs R C us d' now' i refs = Inr (d'', r'') \<longrightarrow>
      r'' = Some t' \<and> table_view C contents TASKS_TABLE d'' = table_view C contents TASKS_TABLE d'"
    using task_tables.upsert_view [OF loc, of us d' now' i refs d'' r''] by (auto simp: view t' with_refs_again)
qed

theorem upsert_adds_each_ref_once_witness:
  "\<exists>d' t'. upsert_artifact_refs mem_tables mem_codec uuid_dec sample_tasks 8 1 [sample_ref ''x'', sample_ref ''x'']
       = Inr (d', Some t') \<and> artifact_ids (t_artifacts t') = {lit ''x''}"
proof -
  obtain d' t' where u: "upsert_artifact_refs mem_tables mem_codec uuid_dec sample_tasks 8 1
      [sample_ref ''x'', sample_ref ''x''] = Inr (d', Some t')"
    by (simp add: upsert_artifact_refs_def upsert_write_def task_ops mem_simps sample_task_defs Let_def)
  have l: "task_load mem_tables mem_codec sample_tasks (uuid_dec 1) = Inr (Some sample_done)"
    by (simp add: task_load_def mem_simps sample_tasks_def uuid_dec_def show_nat.simps)
  have "artifact_ids (t_artifacts t') = {lit ''x''}"
    using upsert_adds_each_ref_once [OF mem.record_tables_axioms sample_tasks_keyed l u]
    by (simp add: sample_task_defs)
  with u show ?thesis by blast
qed

text \<open>
  Lost update. The read and the write of \<^verbatim>\<open>upsert_artifact_refs\<close> are separate
  transactions. When a second call for the same task runs between them, the first call's
  write replaces the whole record: the task ends with the first call's references only,
  and a reference that only the second call attached is gone although that call reported
  success.
\<close>
theorem upsert_lost_update:
  assumes "record_tables R contents C"
    and "keyed (\<lambda>t. us (t_id t)) (table_view C contents TASKS_TABLE d)"
    and "task_load R C d (us i) = Inr (Some t)"
    and "upsert_artifact_refs R C us d now2 i refs2 = Inr (d2, Some t2)"
    and "upsert_write R C us d2 now1 t refs1 = Inr (d3, t3)"
    and "a \<in> set (t_artifacts t2)" and "ar_artifact_id a \<notin> artifact_ids (t_artifacts t) \<union> artifact_ids refs1"
    and "\<not> artifact_ids refs1 \<subseteq> artifact_ids (t_artifacts t)"
    and "task_load R C d3 (us i) = Inr r"
  shows "r = Some t3 \<and> ar_artifact_id a \<notin> artifact_ids (t_artifacts t3)"
proof -
  have loc: "task_tables R contents C" using assms(1) by (simp add: task_tables_def)
  have view: "table_view C contents TASKS_TABLE d (us i) = Some t" "table_view C contents TASKS_TABLE d3 (us i) = r"
    using assms(3,9) record_tables.get_record_view [OF assms(1)] by (fastforce simp: task_load_def)+
  have ids: "artifact_ids (t_artifacts t3) = artifact_ids (t_artifacts t) \<union> artifact_ids refs1"
    unfolding task_tables.upsert_write_view(1) [OF loc assms(5)] with_refs_artifacts by (rule new_refs_ids)
  have "new_refs (t_artifacts t) refs1 \<noteq> []"
    using ids assms(8) by (auto simp: task_tables.upsert_write_view(1) [OF loc assms(5)] with_refs_def)
  moreover have "us (t_id t) = us i" using assms(2) view(1) by (simp add: keyed_def)
  ultimately have "r = Some t3"
    using task_tables.upsert_write_view(2) [OF loc assms(5)] view(2) by simp
  with ids assms(7) show ?thesis by simp
qed

theorem upsert_lost_update_witness:
  "\<exists>d2 t2 d3 t3. upsert_artifact_refs mem_tables mem_codec uuid_dec sample_tasks 8 1 [sample_ref ''y''] = Inr (d2, Some t2)
     \<and> sample_ref ''y'' \<in> set (t_artifacts t2)
     \<and> upsert_write mem_tables mem_codec uuid_dec d2 9 sample_done [sample_ref ''x''] = Inr (d3, t3)
     \<and> task_load mem_tables mem_codec d3 (uuid_dec 1) = Inr (Some t3)
     \<and> lit ''y'' \<notin> artifact_ids (t_artifacts t3)"
proof -
  let ?t2 = "sample_done\<lparr>t_artifacts := [sample_ref ''y''], t_updated_at := 8\<rparr>"
  let ?d2 = "sample_tasks(TASKS_TABLE := [(lit ''1'', ?t2)])"
  have u: "upsert_artifact_refs mem_tables mem_codec uuid_dec sample_tasks 8 1 [sample_ref ''y''] = Inr (?d2, Some ?t2)"
    by (simp add: upsert_artifact_refs_def upsert_write_def task_ops mem_simps sample_task_defs Let_def)
  obtain d3 t3 where w: "upsert_write mem_tables mem_codec uuid_dec ?d2 9 sample_done [sample_ref ''x''] = Inr (d3, t3)"
    by (simp add: upsert_write_def task_ops mem_simps sample_task_defs Let_def)
  obtain r where r: "task_load mem_tables mem_codec d3 (uuid_dec 1) = Inr r"
    by (simp add: task_load_def mem_get_record)
  have l: "task_load mem_tables mem_codec sample_tasks (uuid_dec 1) = Inr (Some sample_done)"
    by (simp add: task_load_def mem_simps sample_tasks_def uuid_dec_def show_nat.simps)
  have "r = Some t3 \<and> ar_artifact_id (sample_ref ''y'') \<notin> artifact_ids (t_artifacts t3)"
    by (rule upsert_lost_update [OF mem.record_tables_axioms sample_tasks_keyed l u w _ _ _ r])
      (simp_all add: sample_task_defs)
  with u w r show ?thesis by (auto simp: sample_ref_def)
qed

text \<open>
  Listing a session. \<^verbatim>\<open>list_by_session\<close> returns each stored task of the session and no
  other, most recently updated first.
\<close>
theorem list_by_session_complete:
  assumes "record_tables R contents C" and "task_list_by_session R C d sid = Inr ts"
  shows "(t \<in> set ts) = ((\<exists>k. table_view C contents TASKS_TABLE d k = Some t) \<and> t_session_id t = Some sid)
    \<and> sorted_wrt (\<lambda>x y. t_updated_at y \<le> t_updated_at x) ts"
proof -
  obtain all where all: "all_records R C TASKS_TABLE d = Inr all"
    "ts = sort_by (le_desc t_updated_at) (filter (\<lambda>task. t_session_id task = Some sid) all)"
    using assms(2) by (auto simp: task_list_by_session_def task_list_def res_bind_eq_Inr)
  have "sorted_wrt (\<lambda>x y. t_updated_at y \<le> t_updated_at x) ts"
    unfolding all(2) sorted_le_desc [symmetric] by (rule desc.sorted_sort_by)
  then show ?thesis
    using record_tables.all_records_set [OF assms(1) all(1)] all(2) by (auto simp: ran_def)
qed

theorem list_by_session_complete_witness:
  "\<exists>ts. task_list_by_session mem_tables mem_codec
       (sample_tasks(TASKS_TABLE := [(lit ''1'', sample_done\<lparr>t_session_id := Some []\<rparr>)])) [] = Inr ts
     \<and> sample_done\<lparr>t_session_id := Some []\<rparr> \<in> set ts"
proof -
  let ?d = "sample_tasks(TASKS_TABLE := [(lit ''1'', sample_done\<lparr>t_session_id := Some []\<rparr>)])"
  obtain ts where ts: "task_list_by_session mem_tables mem_codec ?d [] = Inr ts"
    by (simp add: task_list_by_session_def task_list_def mem_simps)
  have "table_view mem_codec mem_contents TASKS_TABLE ?d (lit ''1'') = Some (sample_done\<lparr>t_session_id := Some []\<rparr>)"
    by (simp add: table_view_def mem_contents_def mem_json_def)
  with list_by_session_complete [OF mem.record_tables_axioms ts, of "sample_done\<lparr>t_session_id := Some []\<rparr>"] ts
  show ?thesis by auto
qed

end
