(* ===== verification/Run_State.thy ===== *)
theory Run_State
  imports Redb_Store
begin

text \<open>
  The smaller managers of the crate \<^verbatim>\<open>state\<close>: run records (\<^verbatim>\<open>run.rs\<close>), agent snapshots
  (\<^verbatim>\<open>snapshot.rs\<close>) and the session table (\<^verbatim>\<open>session.rs\<close>), whose values are plain strings
  encoded by the database itself (the codec argument \<open>S\<close>).
\<close>

section \<open>Runs\<close>

definition RUNS_TABLE :: rstr where "RUNS_TABLE = lit ''agent_runs''"

record run_record =
  r_run_id :: uuid
  r_trace_id :: uuid
  r_session_id :: uuid
  r_agent_id :: rstr
  r_trace_status :: rstr
  r_started_at :: time
  r_finished_at :: "time option"
  r_task_id :: "uuid option"
  r_thread_id :: "rstr option"
  r_provider :: "rstr option"
  r_model :: "rstr option"
  r_witness_id :: "uuid option"
  r_trial_id :: "uuid option"
  r_suite_id :: "rstr option"
  r_benchmark_fingerprint :: "rstr option"
  r_profiler_id :: "rstr option"
  r_artifact_ids :: "rstr list"
  r_metadata :: "rstr \<rightharpoonup> rstr"

definition run_save :: "('e, 'db, 'b) redb \<Rightarrow> ('e, run_record, 'b) codec \<Rightarrow> (uuid \<Rightarrow> rstr) \<Rightarrow> 'db \<Rightarrow> run_record \<Rightarrow> 'e + 'db" where
  "run_save R C us d run = put_record R C RUNS_TABLE d (us (r_run_id run)) run"

definition run_load :: "('e, 'db, 'b) redb \<Rightarrow> ('e, run_record, 'b) codec \<Rightarrow> 'db \<Rightarrow> rstr \<Rightarrow> 'e + run_record option" where
  "run_load R C d run_id = get_record R C RUNS_TABLE d run_id"

definition run_list :: "('e, 'db, 'b) redb \<Rightarrow> ('e, run_record, 'b) codec \<Rightarrow> 'db \<Rightarrow> 'e + run_record list" where
  "run_list R C d = res_bind (all_records R C RUNS_TABLE d) (\<lambda>runs.
     Inr (sort_by (le_desc_then r_started_at r_run_id) runs))"

definition run_list_by_session :: "('e, 'db, 'b) redb \<Rightarrow> ('e, run_record, 'b) codec \<Rightarrow> 'db \<Rightarrow> uuid \<Rightarrow> 'e + run_record list" where
  "run_list_by_session R C d session_id = res_bind (run_list R C d) (\<lambda>runs.
     Inr (filter (\<lambda>run. r_session_id run = session_id) runs))"

definition run_list_by_task :: "('e, 'db, 'b) redb \<Rightarrow> ('e, run_record, 'b) codec \<Rightarrow> 'db \<Rightarrow> uuid \<Rightarrow> 'e + run_record list" where
  "run_list_by_task R C d task_id = res_bind (run_list R C d) (\<lambda>runs.
     Inr (filter (\<lambda>run. r_task_id run = Some task_id) runs))"

section \<open>Snapshots\<close>

definition SNAPSHOTS_TABLE :: rstr where "SNAPSHOTS_TABLE = lit ''agent_snapshots''"

record 'j agent_snapshot =
  s_id :: uuid
  s_agent_id :: rstr
  s_name :: rstr
  s_timestamp :: time
  s_last_message_seq :: u64
  s_model_config :: "rstr \<rightharpoonup> rstr"
  s_env_context :: "rstr \<rightharpoonup> rstr"
  s_metadata :: 'j

definition snapshot_save :: "('e, 'db, 'b) redb \<Rightarrow> ('e, 'j agent_snapshot, 'b) codec \<Rightarrow> 'db \<Rightarrow> 'j agent_snapshot \<Rightarrow> 'e + 'db" where
  "snapshot_save R C d snapshot = put_record R C SNAPSHOTS_TABLE d (s_agent_id snapshot) snapshot"

definition snapshot_load :: "('e, 'db, 'b) redb \<Rightarrow> ('e, 'j agent_snapshot, 'b) codec \<Rightarrow> 'db \<Rightarrow> rstr \<Rightarrow> 'e + 'j agent_snapshot option" where
  "snapshot_load R C d agent_id = get_record R C SNAPSHOTS_TABLE d agent_id"

section \<open>Sessions\<close>

definition SESSIONS_TABLE :: rstr where "SESSIONS_TABLE = lit ''agent_sessions''"

definition save_session_mapping :: "('e, 'db, 'b) redb \<Rightarrow> ('e, rstr, 'b) codec \<Rightarrow> 'db \<Rightarrow> rstr \<Rightarrow> rstr \<Rightarrow> 'e + 'db" where
  "save_session_mapping R S d session_id role_name = put_record R S SESSIONS_TABLE d session_id role_name"

definition load_session_mapping :: "('e, 'db, 'b) redb \<Rightarrow> ('e, rstr, 'b) codec \<Rightarrow> 'db \<Rightarrow> rstr \<Rightarrow> 'e + rstr option" where
  "load_session_mapping R S d session_id = get_record R S SESSIONS_TABLE d session_id"

definition list_sessions :: "('e, 'db, 'b) redb \<Rightarrow> ('e, rstr, 'b) codec \<Rightarrow> 'db \<Rightarrow> 'e + (rstr \<times> rstr) list" where
  "list_sessions R S d = res_bind (db_iter R d SESSIONS_TABLE) (res_map (\<lambda>kv.
     res_bind (from_slice S (snd kv)) (\<lambda>v. Inr (fst kv, v))))"

definition remove_session :: "('e, 'db, 'b) redb \<Rightarrow> 'db \<Rightarrow> rstr \<Rightarrow> 'e + ('db \<times> bool)" where
  "remove_session R d session_id = db_remove R d SESSIONS_TABLE session_id"

section \<open>Listing\<close>

context record_tables
begin

lemma decoded_entries:
  assumes "db_iter R d t = Inr kvs" and "res_map (\<lambda>kv. res_bind (from_slice C (snd kv)) (\<lambda>v. Inr (fst kv, v))) kvs = Inr xs"
  shows "map fst xs = map fst kvs" and "(k, v) \<in> set xs \<longleftrightarrow> table_view C contents t d k = Some v"
proof -
  have all: "list_all2 (\<lambda>kv x. fst x = fst kv \<and> from_slice C (snd kv) = Inr (snd x)) kvs xs"
    using assms(2) unfolding res_map_eq_Inr by (rule list_all2_mono) (auto simp: res_bind_eq_Inr)
  then show "map fst xs = map fst kvs"
    by (induction rule: list_all2_induct) auto
  have "(k, v) \<in> set xs \<longleftrightarrow> (\<exists>b. (k, b) \<in> set kvs \<and> from_slice C b = Inr v)"
    using all by (induction rule: list_all2_induct) auto
  then show "(k, v) \<in> set xs \<longleftrightarrow> table_view C contents t d k = Some v"
    by (auto simp: table_view_Some iter_entry [OF assms(1)])
qed

lemma remove_view:
  "db_remove R d t k = Inr (d', b) \<Longrightarrow> table_view C contents t d' = (table_view C contents t d)(k := None)"
  by (auto simp: table_view_def dest!: remove_ok)

end

lemma run_list_spec:
  assumes "record_tables R contents C" and "run_list R C d = Inr rs"
  shows "set rs = ran (table_view C contents RUNS_TABLE d)"
    and "length rs = card (dom (contents d RUNS_TABLE))"
    and "sorted_wrt (le_desc_then r_started_at r_run_id) rs"
proof -
  obtain all where all: "all_records R C RUNS_TABLE d = Inr all" "rs = sort_by (le_desc_then r_started_at r_run_id) all"
    using assms(2) by (auto simp: run_list_def res_bind_eq_Inr)
  show "set rs = ran (table_view C contents RUNS_TABLE d)"
    using record_tables.all_records_set [OF assms(1) all(1)] all(2) by simp
  show "length rs = card (dom (contents d RUNS_TABLE))"
    using record_tables.all_records_length [OF assms(1) all(1)] all(2) by simp
  show "sorted_wrt (le_desc_then r_started_at r_run_id) rs"
    unfolding all(2) by (rule desc_then.sorted_sort_by)
qed

section \<open>Properties\<close>

definition sample_run :: "uuid \<Rightarrow> time \<Rightarrow> run_record" where
  "sample_run i t = \<lparr>r_run_id = i, r_trace_id = 0, r_session_id = 3, r_agent_id = [], r_trace_status = [],
     r_started_at = t, r_finished_at = None, r_task_id = Some 4, r_thread_id = None, r_provider = None,
     r_model = None, r_witness_id = None, r_trial_id = None, r_suite_id = None,
     r_benchmark_fingerprint = None, r_profiler_id = None, r_artifact_ids = [], r_metadata = Map.empty\<rparr>"

text \<open>
  Runs of a session. The listing has exactly the stored runs of the session, latest
  start first and equal starts by run identifier, in the order of the full listing.
\<close>
theorem runs_by_session_complete:
  assumes "record_tables R contents C"
    and "run_list_by_session R C d sid = Inr rs"
  shows "(x \<in> set rs) = ((\<exists>k. table_view C contents RUNS_TABLE d k = Some x) \<and> r_session_id x = sid)
    \<and> sorted_wrt (\<lambda>x y. r_started_at y < r_started_at x
        \<or> r_started_at x = r_started_at y \<and> r_run_id x \<le> r_run_id y) rs
    \<and> (\<forall>all. run_list R C d = Inr all \<longrightarrow> subseq rs all \<and> length all = card (dom (contents d RUNS_TABLE)))"
proof -
  obtain all where all: "run_list R C d = Inr all" "rs = filter (\<lambda>run. r_session_id run = sid) all"
    using assms(2) by (auto simp: run_list_by_session_def res_bind_eq_Inr)
  note spec = run_list_spec [OF assms(1) all(1)]
  have "sorted_wrt (le_desc_then r_started_at r_run_id) rs"
    unfolding all(2) by (rule sorted_wrt_filter) (rule spec(3))
  then show ?thesis
    using spec(1,2) all by (auto simp: ran_def dest: sorted_le_desc_then)
qed

theorem runs_by_session_complete_witness:
  "\<exists>rs. run_list_by_session mem_tables mem_codec
      ((\<lambda>_. [])(RUNS_TABLE := [(lit ''a'', sample_run 1 10), (lit ''b'', sample_run 2 20)])) 3 = Inr rs
    \<and> sample_run 2 20 \<in> set rs"
proof -
  let ?d = "(\<lambda>_. [])(RUNS_TABLE := [(lit ''a'', sample_run 1 10), (lit ''b'', sample_run 2 20)])"
  obtain rs where rs: "run_list_by_session mem_tables mem_codec ?d 3 = Inr rs"
    by (simp add: run_list_by_session_def run_list_def mem_simps)
  have "table_view mem_codec mem_contents RUNS_TABLE ?d (lit ''b'') = Some (sample_run 2 20)"
    by (simp add: table_view_def mem_contents_def mem_json_def)
  moreover have "r_session_id (sample_run 2 20) = 3" by (simp add: sample_run_def)
  ultimately show ?thesis
    using runs_by_session_complete [OF mem.record_tables_axioms rs, of "sample_run 2 20"] rs by blast
qed

text \<open>
  Session mappings. After a role is stored for a session it is the one loaded and
  listed, removal takes away that session only and reports whether it was there, and the
  listing has every session once, in the order of the keys.
\<close>
theorem session_mappings_are_a_map:
  assumes "record_tables R contents S"
  shows "(save_session_mapping R S d sid role = Inr d1 \<longrightarrow>
       (load_session_mapping R S d1 sid = Inr r \<longrightarrow> r = Some role)
       \<and> (sid' \<noteq> sid \<longrightarrow> load_session_mapping R S d sid' = Inr p \<longrightarrow> load_session_mapping R S d1 sid' = Inr q \<longrightarrow> p = q))
    \<and> (remove_session R d sid = Inr (d2, removed) \<longrightarrow>
       (load_session_mapping R S d sid = Inr p \<longrightarrow> p \<noteq> None \<longrightarrow> removed)
       \<and> (load_session_mapping R S d2 sid = Inr r \<longrightarrow> r = None)
       \<and> (sid' \<noteq> sid \<longrightarrow> load_session_mapping R S d sid' = Inr p \<longrightarrow> load_session_mapping R S d2 sid' = Inr q \<longrightarrow> p = q))
    \<and> (list_sessions R S d = Inr xs \<longrightarrow> sorted_wrt (<) (map fst xs)
       \<and> (load_session_mapping R S d sid = Inr r \<longrightarrow> (r = Some role) = ((sid, role) \<in> set xs)))"
proof -
  note view = record_tables.get_record_view [OF assms]
  note put = record_tables.put_record_view [OF assms]
  note rem = record_tables.remove_view [OF assms]
  have rem_flag: "removed = (contents d SESSIONS_TABLE sid \<noteq> None)"
    if "db_remove R d SESSIONS_TABLE sid = Inr (d2, removed)"
    using assms that kv_tables.remove_ok unfolding record_tables_def ordered_tables_def by fastforce
  have "save_session_mapping R S d sid role = Inr d1 \<longrightarrow>
       (load_session_mapping R S d1 sid = Inr r \<longrightarrow> r = Some role)
       \<and> (sid' \<noteq> sid \<longrightarrow> load_session_mapping R S d sid' = Inr p \<longrightarrow> load_session_mapping R S d1 sid' = Inr q \<longrightarrow> p = q)"
    by (auto simp: save_session_mapping_def load_session_mapping_def dest!: put view)
  moreover have "remove_session R d sid = Inr (d2, removed) \<longrightarrow>
       (load_session_mapping R S d sid = Inr p \<longrightarrow> p \<noteq> None \<longrightarrow> removed)
       \<and> (load_session_mapping R S d2 sid = Inr r \<longrightarrow> r = None)
       \<and> (sid' \<noteq> sid \<longrightarrow> load_session_mapping R S d sid' = Inr p \<longrightarrow> load_session_mapping R S d2 sid' = Inr q \<longrightarrow> p = q)"
    using rem_flag
    by (auto simp: remove_session_def load_session_mapping_def rem table_view_def dest!: view split: option.splits)
  moreover have "list_sessions R S d = Inr xs \<longrightarrow> sorted_wrt (<) (map fst xs)
       \<and> (load_session_mapping R S d sid = Inr r \<longrightarrow> (r = Some role) = ((sid, role) \<in> set xs))"
  proof
    assume "list_sessions R S d = Inr xs"
    then obtain kvs where kvs: "db_iter R d SESSIONS_TABLE = Inr kvs"
      "res_map (\<lambda>kv. res_bind (from_slice S (snd kv)) (\<lambda>v. Inr (fst kv, v))) kvs = Inr xs"
      by (auto simp: list_sessions_def res_bind_eq_Inr)
    note entries = record_tables.decoded_entries [OF assms kvs]
    have "sorted_wrt (<) (map fst kvs)"
      using assms kvs(1) ordered_tables.iter_ok by (fastforce simp: record_tables_def)
    then show "sorted_wrt (<) (map fst xs)
       \<and> (load_session_mapping R S d sid = Inr r \<longrightarrow> (r = Some role) = ((sid, role) \<in> set xs))"
      using entries by (auto simp: load_session_mapping_def dest!: view)
  qed
  ultimately show ?thesis by blast
qed

theorem session_mappings_are_a_map_witness:
  "\<exists>d1. save_session_mapping mem_tables mem_codec (\<lambda>_. []) (lit ''s'') (lit ''coder'') = Inr d1
    \<and> load_session_mapping mem_tables mem_codec d1 (lit ''s'') = Inr (Some (lit ''coder''))"
proof -
  obtain d1 where d1: "save_session_mapping mem_tables mem_codec (\<lambda>_. []) (lit ''s'') (lit ''coder'') = Inr d1"
    by (simp add: save_session_mapping_def mem_simps)
  obtain r where r: "load_session_mapping mem_tables mem_codec d1 (lit ''s'') = Inr r"
    by (simp add: load_session_mapping_def mem_simps)
  from session_mappings_are_a_map [OF mem.record_tables_axioms, of "\<lambda>_. []" "lit ''s''" "lit ''coder''" d1 r] d1 r
  show ?thesis by blast
qed

end
