(* ===== verification/Runtime_Event.thy ===== *)
theory Runtime_Event
  imports Redb_Store
begin

text \<open>
  The runtime event log of the crate \<^verbatim>\<open>state\<close> (\<^verbatim>\<open>runtime_event.rs\<close>). The JSON payload is a
  type parameter; \<^verbatim>\<open>payload.get("step")\<close> read as an unsigned integer is the argument
  \<open>step_of\<close>, the formatting of a time stamp is the argument \<open>fmt\<close>.
\<close>

section \<open>Records\<close>

definition RUNTIME_EVENTS_TABLE :: rstr where "RUNTIME_EVENTS_TABLE = lit ''runtime_events''"

record runtime_provenance =
  pv_source_uri :: "rstr option"
  pv_source_title :: "rstr option"
  pv_source_status :: "rstr option"
  pv_capture_method :: "rstr option"
  pv_captured_at :: "time option"
  pv_metadata :: "rstr \<rightharpoonup> rstr"

record runtime_receipt =
  rc_receipt_id :: uuid
  rc_status :: rstr
  rc_started_at :: "time option"
  rc_finished_at :: "time option"
  rc_actor :: "rstr option"
  rc_action :: "rstr option"
  rc_input_fingerprint :: "rstr option"
  rc_output_fingerprint :: "rstr option"
  rc_output_preview :: "rstr option"
  rc_blocker :: "rstr option"

definition receipt_new :: "uuid \<Rightarrow> time \<Rightarrow> rstr \<Rightarrow> runtime_receipt" where
  "receipt_new fresh_id now status = \<lparr>rc_receipt_id = fresh_id, rc_status = status, rc_started_at = None,
     rc_finished_at = Some now, rc_actor = None, rc_action = None, rc_input_fingerprint = None,
     rc_output_fingerprint = None, rc_output_preview = None, rc_blocker = None\<rparr>"

record 'j runtime_event_record =
  ev_event_id :: uuid
  ev_topic :: rstr
  ev_occurred_at :: time
  ev_task_id :: "uuid option"
  ev_run_id :: "uuid option"
  ev_trace_id :: "uuid option"
  ev_session_id :: "rstr option"
  ev_thread_id :: "rstr option"
  ev_actor :: "rstr option"
  ev_scope :: "rstr option"
  ev_parent_event_id :: "uuid option"
  ev_receipt :: "runtime_receipt option"
  ev_provenance :: "runtime_provenance option"
  ev_artifact_ids :: "rstr list"
  ev_payload :: 'j
  ev_metadata :: "rstr \<rightharpoonup> rstr"

definition event_new :: "uuid \<Rightarrow> time \<Rightarrow> 'j \<Rightarrow> rstr \<Rightarrow> 'j runtime_event_record" where
  "event_new fresh_id now empty_object topic = \<lparr>ev_event_id = fresh_id, ev_topic = topic, ev_occurred_at = now,
     ev_task_id = None, ev_run_id = None, ev_trace_id = None, ev_session_id = None, ev_thread_id = None,
     ev_actor = None, ev_scope = None, ev_parent_event_id = None, ev_receipt = None,
     ev_provenance = None, ev_artifact_ids = [], ev_payload = empty_object, ev_metadata = Map.empty\<rparr>"

definition with_task :: "'j runtime_event_record \<Rightarrow> uuid \<Rightarrow> 'j runtime_event_record" where
  "with_task e task_id = e\<lparr>ev_task_id := Some task_id\<rparr>"

definition with_actor :: "'j runtime_event_record \<Rightarrow> rstr \<Rightarrow> 'j runtime_event_record" where
  "with_actor e actor = e\<lparr>ev_actor := Some actor\<rparr>"

definition with_payload :: "'j runtime_event_record \<Rightarrow> 'j \<Rightarrow> 'j runtime_event_record" where
  "with_payload e payload = e\<lparr>ev_payload := payload\<rparr>"

definition with_receipt :: "'j runtime_event_record \<Rightarrow> runtime_receipt \<Rightarrow> 'j runtime_event_record" where
  "with_receipt e receipt = e\<lparr>ev_receipt := Some receipt\<rparr>"

definition or_empty :: "rstr option \<Rightarrow> rstr" where
  "or_empty x = (case x of Some s \<Rightarrow> s | None \<Rightarrow> [])"

definition signature :: "('j \<Rightarrow> u64 option) \<Rightarrow> 'j runtime_event_record \<Rightarrow> rstr" where
  "signature step_of e =
     ev_topic e @ lit ''|'' @ or_empty (ev_actor e) @ lit ''|'' @ or_empty (ev_scope e) @ lit ''|''
     @ or_empty (map_option (\<lambda>v. show_nat (unat v)) (step_of (ev_payload e)))"

datatype runtime_completion_decision = Complete | Incomplete (missing_topics: "rstr list")

section \<open>Operations\<close>

definition event_key :: "(time \<Rightarrow> rstr) \<Rightarrow> (uuid \<Rightarrow> rstr) \<Rightarrow> time \<Rightarrow> uuid \<Rightarrow> rstr" where
  "event_key fmt us occurred_at event_id = fmt occurred_at @ lit '':'' @ us event_id"

definition event_append ::
  "('e, 'db, 'b) redb \<Rightarrow> ('e, 'j runtime_event_record, 'b) codec \<Rightarrow> (time \<Rightarrow> rstr) \<Rightarrow> (uuid \<Rightarrow> rstr) \<Rightarrow> 'db \<Rightarrow>
   'j runtime_event_record \<Rightarrow> 'e + ('db \<times> 'j runtime_event_record)" where
  "event_append R C fmt us d event =
     res_bind (put_record R C RUNTIME_EVENTS_TABLE d (event_key fmt us (ev_occurred_at event) (ev_event_id event)) event)
       (\<lambda>d'. Inr (d', event))"

definition event_list ::
  "('e, 'db, 'b) redb \<Rightarrow> ('e, 'j runtime_event_record, 'b) codec \<Rightarrow> 'db \<Rightarrow> 'e + 'j runtime_event_record list" where
  "event_list R C d = res_bind (all_records R C RUNTIME_EVENTS_TABLE d) (\<lambda>events.
     Inr (sort_by (le_asc_then ev_occurred_at ev_event_id) events))"

definition event_list_by_task ::
  "('e, 'db, 'b) redb \<Rightarrow> ('e, 'j runtime_event_record, 'b) codec \<Rightarrow> 'db \<Rightarrow> uuid \<Rightarrow> 'e + 'j runtime_event_record list" where
  "event_list_by_task R C d task_id = res_bind (event_list R C d) (\<lambda>events.
     Inr (filter (\<lambda>event. ev_task_id event = Some task_id) events))"

definition event_list_by_run ::
  "('e, 'db, 'b) redb \<Rightarrow> ('e, 'j runtime_event_record, 'b) codec \<Rightarrow> 'db \<Rightarrow> uuid \<Rightarrow> 'e + 'j runtime_event_record list" where
  "event_list_by_run R C d run_id = res_bind (event_list R C d) (\<lambda>events.
     Inr (filter (\<lambda>event. ev_run_id event = Some run_id) events))"

definition missing_required_topics :: "'j runtime_event_record list \<Rightarrow> rstr list \<Rightarrow> rstr list" where
  "missing_required_topics events required_topics =
     filter (\<lambda>topic. \<not> list_ex (\<lambda>event. ev_topic event = topic) events) required_topics"

definition completion_decision ::
  "('e, 'db, 'b) redb \<Rightarrow> ('e, 'j runtime_event_record, 'b) codec \<Rightarrow> 'db \<Rightarrow> uuid \<Rightarrow> rstr list \<Rightarrow> 'e + runtime_completion_decision" where
  "completion_decision R C d task_id required_topics =
     res_bind (event_list_by_task R C d task_id) (\<lambda>events.
       let missing = missing_required_topics events required_topics
       in if missing = [] then Inr Complete else Inr (Incomplete missing))"

text \<open>The loop over the window with its table of counts.\<close>
fun count_signatures :: "('j \<Rightarrow> u64 option) \<Rightarrow> nat \<Rightarrow> (rstr \<rightharpoonup> nat) \<Rightarrow> 'j runtime_event_record list \<Rightarrow> rstr option" where
  "count_signatures step_of th counts [] = None"
| "count_signatures step_of th counts (e # es) =
     (let s = signature step_of e; c = (case counts s of Some n \<Rightarrow> n + 1 | None \<Rightarrow> 1)
      in if c \<ge> th then Some s else count_signatures step_of th (counts(s \<mapsto> c)) es)"

definition repeated_event_signature :: "('j \<Rightarrow> u64 option) \<Rightarrow> 'j runtime_event_record list \<Rightarrow> nat \<Rightarrow> nat \<Rightarrow> rstr option" where
  "repeated_event_signature step_of events recent_limit repeat_threshold =
     (if repeat_threshold = 0 then None
      else count_signatures step_of repeat_threshold Map.empty (drop (length events - recent_limit) events))"

section \<open>Lemmas\<close>

text \<open>The first entry of a list whose number of occurrences reaches a threshold.\<close>
definition first_reaching :: "nat \<Rightarrow> 'a list \<Rightarrow> 'a \<Rightarrow> bool" where
  "first_reaching th xs s \<longleftrightarrow> (\<exists>p q. xs = p @ s # q \<and> count_list (p @ [s]) s = th \<and> (\<forall>x. count_list p x < th))"

lemma count_signatures_spec:
  assumes "0 < th" and "\<And>s. (case counts s of Some n \<Rightarrow> n | None \<Rightarrow> 0) = count_list (map (signature f) done) s"
    and "\<And>s. count_list (map (signature f) done) s < th"
  shows "case count_signatures f th counts es of
      None \<Rightarrow> \<forall>s. count_list (map (signature f) (done @ es)) s < th
    | Some s \<Rightarrow> first_reaching th (map (signature f) (done @ es)) s"
  using assms
proof (induction es arbitrary: counts "done")
  case Nil
  then show ?case by simp
next
  case (Cons e es)
  let ?s = "signature f e"
  let ?c = "case counts ?s of Some n \<Rightarrow> n + 1 | None \<Rightarrow> 1"
  have c: "?c = count_list (map (signature f) (done @ [e])) ?s"
    using Cons.prems(2) [of ?s] by (simp split: option.splits)
  show ?case
  proof (cases "?c \<ge> th")
    case True
    with c Cons.prems(3) [of ?s] have "count_list (map (signature f) done @ [?s]) ?s = th" by simp
    then have "first_reaching th (map (signature f) (done @ e # es)) ?s"
      unfolding first_reaching_def using Cons.prems(3)
      by (intro exI [of _ "map (signature f) done"] exI [of _ "map (signature f) es"]) simp
    with True show ?thesis by (simp add: Let_def)
  next
    case False
    have counts: "(case (counts(?s \<mapsto> ?c)) s of Some n \<Rightarrow> n | None \<Rightarrow> 0) = count_list (map (signature f) (done @ [e])) s" for s
      using c Cons.prems(2) [of s] by simp
    have below: "count_list (map (signature f) (done @ [e])) s < th" for s
      using c False Cons.prems(3) [of s] by (cases "s = ?s") auto
    have "count_signatures f th counts (e # es) = count_signatures f th (counts(?s \<mapsto> ?c)) es"
      using False by (simp add: Let_def)
    then show ?thesis
      using Cons.IH [OF assms(1) counts below] by (simp only: append_assoc append_Cons append_Nil)
  qed
qed

lemma repeated_signature_none:
  assumes "0 < th" and "\<And>s. count_list (map (signature f) es) s < th"
  shows "repeated_event_signature f es limit th = None"
proof (cases "repeated_event_signature f es limit th")
  case (Some s)
  let ?w = "drop (length es - limit) es"
  have "first_reaching th (map (signature f) ?w) s"
    using count_signatures_spec [OF assms(1), of Map.empty f "[]" ?w] Some assms(1)
    by (simp add: repeated_event_signature_def)
  then have "th \<le> count_list (map (signature f) ?w) s" by (auto simp: first_reaching_def)
  also have "\<dots> \<le> count_list (map (signature f) (take (length es - limit) es @ ?w)) s"
    unfolding map_append count_list_append by simp
  finally show ?thesis using assms(2) [of s] by simp
qed simp

lemma event_key_inject:
  assumes "\<And>i. length (us i) = 36" and "inj us" and "event_key fmt us t i = event_key fmt us t' i'"
  shows "i = i'"
proof -
  have "us i = us i'"
    using assms(1) assms(3) unfolding event_key_def
    by (metis append.assoc append_eq_append_conv)
  with assms(2) show ?thesis by (simp add: inj_eq)
qed

lemma event_list_spec:
  assumes "record_tables R contents C" and "event_list R C d = Inr es"
  shows "set es = ran (table_view C contents RUNTIME_EVENTS_TABLE d)"
    and "sorted_wrt (le_asc_then ev_occurred_at ev_event_id) es"
    and "keyed key (table_view C contents RUNTIME_EVENTS_TABLE d) \<Longrightarrow> distinct es"
proof -
  obtain all where all: "all_records R C RUNTIME_EVENTS_TABLE d = Inr all"
    "es = sort_by (le_asc_then ev_occurred_at ev_event_id) all"
    using assms(2) by (auto simp: event_list_def res_bind_eq_Inr)
  show "set es = ran (table_view C contents RUNTIME_EVENTS_TABLE d)"
    using record_tables.all_records_set [OF assms(1) all(1)] all(2) by simp
  show "sorted_wrt (le_asc_then ev_occurred_at ev_event_id) es"
    unfolding all(2) by (rule asc_then.sorted_sort_by)
  show "distinct es" if "keyed key (table_view C contents RUNTIME_EVENTS_TABLE d)"
    using record_tables.all_records_keys(2) [OF assms(1) all(1) that] all(2)
    by (metis mset_sort_by mset_eq_imp_distinct_iff)
qed

lemma decision_cases:
  "decision = (if a then Complete else Incomplete m) \<Longrightarrow> a = b \<Longrightarrow>
     (decision = Complete) = b \<and> (decision \<noteq> Complete \<longrightarrow> decision = Incomplete m)"
  by simp

section \<open>Properties\<close>

definition sample_event :: "uuid \<Rightarrow> time \<Rightarrow> string \<Rightarrow> nat runtime_event_record" where
  "sample_event i t topic = with_task (event_new i t 0 (lit topic)) 5"

text \<open>Fixed-width identifiers and time stamps for the witnesses.\<close>
definition uuid_fixed :: "uuid \<Rightarrow> rstr" where
  "uuid_fixed u = (unat u) # replicate 35 0"

lemma uuid_fixed_inj: "inj uuid_fixed"
  by (rule injI) (auto simp: uuid_fixed_def dest: unsigned_word_eqI)

lemma uuid_fixed_length: "length (uuid_fixed u) = 36"
  by (simp add: uuid_fixed_def)

definition sample_log :: "nat runtime_event_record mem_db" where
  "sample_log = (\<lambda>_. [])(RUNTIME_EVENTS_TABLE :=
     [(event_key (\<lambda>_. []) uuid_fixed 7 1, sample_event 1 7 ''a'')])"

lemmas sample_event_defs = sample_event_def with_task_def event_new_def

lemma sample_log_keyed:
  "keyed (\<lambda>e. event_key (\<lambda>_. []) uuid_fixed (ev_occurred_at e) (ev_event_id e))
     (table_view mem_codec mem_contents RUNTIME_EVENTS_TABLE sample_log)"
  by (simp add: keyed_def table_view_def mem_contents_def mem_json_def sample_log_def sample_event_defs)

text \<open>
  The log only grows. Appending an event with a fresh identifier adds exactly that
  event: the listing afterwards has every earlier event and the new one, each once, in the
  order of their times, equal times by identifier.
\<close>
theorem append_adds_exactly_one_event:
  assumes "record_tables R contents C"
    and "\<And>i. length (us i) = 36" and "inj us"
    and "keyed (\<lambda>e. event_key fmt us (ev_occurred_at e) (ev_event_id e)) (table_view C contents RUNTIME_EVENTS_TABLE d)"
    and "event_list R C d = Inr es" and "ev_event_id e \<notin> ev_event_id ` set es"
    and "event_append R C fmt us d e = Inr (d', e')"
    and "event_list R C d' = Inr es'"
  shows "e' = e \<and> mset es' = add_mset e (mset es)
    \<and> sorted_wrt (\<lambda>x y. ev_occurred_at x < ev_occurred_at y
        \<or> ev_occurred_at x = ev_occurred_at y \<and> ev_event_id x \<le> ev_event_id y) es'"
proof -
  let ?k = "event_key fmt us (ev_occurred_at e) (ev_event_id e)"
  let ?v = "table_view C contents RUNTIME_EVENTS_TABLE"
  have e': "e' = e" and view: "?v d' = (?v d)(?k \<mapsto> e)"
    using assms(7) record_tables.put_record_view [OF assms(1)]
    by (auto simp: event_append_def res_bind_eq_Inr)
  note old = event_list_spec [OF assms(1,5)] and new = event_list_spec [OF assms(1,8)]
  have fresh: "?v d ?k = None"
  proof (rule ccontr)
    assume "?v d ?k \<noteq> None"
    then obtain x where x: "?v d ?k = Some x" by auto
    then have "event_key fmt us (ev_occurred_at x) (ev_event_id x) = ?k" using assms(4) by (simp add: keyed_def)
    from event_key_inject [OF assms(2,3) this] have "ev_event_id x = ev_event_id e" .
    moreover have "x \<in> set es" using x old(1) by (auto simp: ran_def)
    ultimately show False using assms(6) by (metis imageI)
  qed
  have "keyed (\<lambda>e. event_key fmt us (ev_occurred_at e) (ev_event_id e)) (?v d')"
    using assms(4) by (auto simp: view)
  then have "distinct es'" by (rule new(3))
  moreover have "distinct es" by (rule old(3) [OF assms(4)])
  moreover have "set es' = insert e (set es)" using fresh by (simp add: old(1) new(1) view)
  moreover have "e \<notin> set es" using assms(6) by blast
  ultimately have "mset es' = add_mset e (mset es)"
    by (metis distinct.simps(2) list.simps(15) mset.simps(2) set_eq_iff_mset_eq_distinct)
  with e' new(2) show ?thesis by (auto dest: sorted_le_asc_then)
qed

theorem append_adds_exactly_one_event_witness:
  "\<exists>d' es'. event_append mem_tables mem_codec (\<lambda>_. []) uuid_fixed sample_log (sample_event 2 3 ''b'')
       = Inr (d', sample_event 2 3 ''b'') \<and> event_list mem_tables mem_codec d' = Inr es'
     \<and> mset es' = {#sample_event 1 7 ''a'', sample_event 2 3 ''b''#}"
proof -
  let ?e = "sample_event 2 3 ''b''"
  obtain d' where a: "event_append mem_tables mem_codec (\<lambda>_. []) uuid_fixed sample_log ?e = Inr (d', ?e)"
    by (simp add: event_append_def mem_simps sample_log_def)
  have es: "event_list mem_tables mem_codec sample_log = Inr [sample_event 1 7 ''a'']"
    by (simp add: event_list_def mem_simps sample_log_def)
  have "\<exists>es'. event_list mem_tables mem_codec d' = Inr es'"
    using a by (auto simp: event_append_def event_list_def mem_simps sample_log_def event_key_def
        uuid_fixed_def sample_event_defs)
  then obtain es' where es': "event_list mem_tables mem_codec d' = Inr es'" by blast
  have "ev_event_id ?e \<notin> ev_event_id ` set [sample_event 1 7 ''a'']" by (simp add: sample_event_defs)
  from append_adds_exactly_one_event [OF mem.record_tables_axioms uuid_fixed_length uuid_fixed_inj
      sample_log_keyed es this a es'] a es' show ?thesis by auto
qed

text \<open>
  Completion. A task is complete exactly when each required topic occurs among its
  recorded events; otherwise the missing topics are reported, in the order and with the
  multiplicity of the requirement.
\<close>
theorem complete_iff_all_topics_recorded:
  assumes "record_tables R contents C"
    and "completion_decision R C d tid required = Inr decision"
  shows "(decision = Complete) = (\<forall>topic \<in> set required. \<exists>k e.
        table_view C contents RUNTIME_EVENTS_TABLE d k = Some e \<and> ev_task_id e = Some tid \<and> ev_topic e = topic)
    \<and> (decision \<noteq> Complete \<longrightarrow> decision = Incomplete (filter (\<lambda>topic. \<not> (\<exists>k e.
        table_view C contents RUNTIME_EVENTS_TABLE d k = Some e \<and> ev_task_id e = Some tid \<and> ev_topic e = topic)) required))"
proof -
  obtain es where es: "event_list R C d = Inr es"
    and dec: "decision = (let m = missing_required_topics (filter (\<lambda>e. ev_task_id e = Some tid) es) required
      in if m = [] then Complete else Incomplete m)"
    using assms(2) by (auto simp: completion_decision_def event_list_by_task_def res_bind_eq_Inr Let_def split: if_splits)
  let ?recorded = "\<lambda>topic. \<exists>k e. table_view C contents RUNTIME_EVENTS_TABLE d k = Some e
    \<and> ev_task_id e = Some tid \<and> ev_topic e = topic"
  have "list_ex (\<lambda>e. ev_topic e = topic) (filter (\<lambda>e. ev_task_id e = Some tid) es) \<longleftrightarrow> ?recorded topic" for topic
    using event_list_spec(1) [OF assms(1) es] by (auto simp: list_ex_iff ran_def)
  then have m: "missing_required_topics (filter (\<lambda>e. ev_task_id e = Some tid) es) required
      = filter (\<lambda>topic. \<not> ?recorded topic) required"
    by (simp add: missing_required_topics_def)
  have "decision = (if filter (\<lambda>topic. \<not> ?recorded topic) required = [] then Complete
      else Incomplete (filter (\<lambda>topic. \<not> ?recorded topic) required))"
    unfolding dec m Let_def ..
  moreover have "filter (\<lambda>topic. \<not> ?recorded topic) required = [] \<longleftrightarrow> (\<forall>topic \<in> set required. ?recorded topic)"
    unfolding filter_empty_conv not_not ..
  ultimately show ?thesis by (rule decision_cases)
qed

theorem complete_iff_all_topics_recorded_witness:
  "\<exists>dec. completion_decision mem_tables mem_codec sample_log 5 [lit ''a'', lit ''z''] = Inr dec \<and> dec \<noteq> Complete"
proof -
  obtain dec where dec: "completion_decision mem_tables mem_codec sample_log 5 [lit ''a'', lit ''z''] = Inr dec"
    by (simp add: completion_decision_def event_list_by_task_def event_list_def mem_simps sample_log_def
        missing_required_topics_def sample_event_defs Let_def)
  have "\<not> (\<exists>k e. table_view mem_codec mem_contents RUNTIME_EVENTS_TABLE sample_log k = Some e
      \<and> ev_task_id e = Some 5 \<and> ev_topic e = lit ''z'')"
    by (simp add: table_view_def mem_contents_def mem_json_def sample_log_def sample_event_defs)
  then show ?thesis
    using complete_iff_all_topics_recorded [OF mem.record_tables_axioms dec] dec by auto
qed

text \<open>
  Repetition. With a positive threshold the scan reports a signature exactly when one
  occurs at least that often among the last \<open>recent_limit\<close> events, and then the first to
  reach the threshold.
\<close>
theorem repeated_signature_first_to_reach:
  assumes "0 < threshold"
  shows "case repeated_event_signature step_of events limit threshold of
      None \<Rightarrow> \<forall>s. count_list (map (signature step_of) (drop (length events - limit) events)) s < threshold
    | Some s \<Rightarrow> first_reaching threshold (map (signature step_of) (drop (length events - limit) events)) s"
  using count_signatures_spec [OF assms, of Map.empty step_of "[]" "drop (length events - limit) events",
      unfolded append_Nil] assms
  by (simp add: repeated_event_signature_def)

theorem repeated_signature_first_to_reach_witness:
  "first_reaching 2 (map (signature (\<lambda>_. None)) [sample_event 1 1 ''x'', sample_event 2 2 ''y'', sample_event 3 3 ''x''])
     (lit ''x|||'')"
proof -
  let ?es = "[sample_event 1 1 ''x'', sample_event 2 2 ''y'', sample_event 3 3 ''x'']"
  have "repeated_event_signature (\<lambda>_. None) ?es 10 2 = Some (lit ''x|||'')"
    by (simp add: repeated_event_signature_def signature_def sample_event_defs or_empty_def Let_def)
  then show ?thesis using repeated_signature_first_to_reach [of 2 "\<lambda>_. None" ?es 10] by simp
qed

end
