(* ===== verification/Artifact_State.thy ===== *)
theory Artifact_State
  imports Redb_Store
begin

text \<open>
  Artifact records of the crate \<^verbatim>\<open>state\<close> (\<^verbatim>\<open>artifact.rs\<close>): storage, queries and the cleanup
  with its report. The file system is the argument \<open>F\<close> over an explicit state; the
  constructors \<^verbatim>\<open>chrono::Duration::hours\<close> and \<^verbatim>\<open>days\<close>, which panic outside their range, are
  the argument \<open>H\<close> (\<open>None\<close> is the panic). A cleanup that fails half-way keeps what it has
  deleted, so its result carries the database and the files in every case.
\<close>

section \<open>Records\<close>

definition ARTIFACTS_TABLE :: rstr where "ARTIFACTS_TABLE = lit ''agent_artifacts''"

datatype artifact_scope = Uploads | Workspace | Outputs | Artifacts
datatype artifact_lifecycle = Ephemeral | Session | Durable

record artifact_record =
  a_artifact_id :: rstr
  a_kind :: rstr
  a_uri :: rstr
  a_scope :: artifact_scope
  a_lifecycle :: artifact_lifecycle
  a_created_at :: time
  a_updated_at :: time
  a_agent_id :: rstr
  a_task_id :: "uuid option"
  a_run_id :: "uuid option"
  a_trace_id :: "uuid option"
  a_session_id :: "rstr option"
  a_thread_id :: "rstr option"
  a_tool_name :: "rstr option"
  a_media_type :: "rstr option"
  a_virtual_path :: "rstr option"
  a_source_kind :: rstr
  a_metadata :: "rstr \<rightharpoonup> rstr"

record artifact_query =
  q_thread_id :: "rstr option"
  q_session_id :: "rstr option"
  q_task_id :: "uuid option"
  q_run_id :: "uuid option"
  q_trace_id :: "uuid option"
  q_scope :: "artifact_scope option"
  q_lifecycle :: "artifact_lifecycle option"
  q_source_kind :: "rstr option"
  q_limit :: "nat option"

record artifact_cleanup_policy =
  p_dry_run :: bool
  p_orphan_only :: bool
  p_prune_missing_local_files :: bool
  p_delete_local_files :: bool
  p_scope :: "artifact_scope option"
  p_source_kind :: "rstr option"
  p_ephemeral_max_age_hours :: "int option"
  p_session_max_age_hours :: "int option"
  p_durable_max_age_days :: "int option"
  p_max_delete :: "nat option"

record artifact_cleanup_report =
  rp_dry_run :: bool
  rp_scanned :: nat
  rp_matched :: nat
  rp_deleted :: nat
  rp_kept :: nat
  rp_orphan_matched :: nat
  rp_missing_local_file_matched :: nat
  rp_deleted_local_files :: nat
  rp_skipped_external_files :: nat
  rp_skipped_durable_without_policy :: nat
  rp_deleted_artifact_ids :: "rstr list"
  rp_deleted_file_paths :: "rstr list"

definition default_cleanup_report :: artifact_cleanup_report where
  "default_cleanup_report = \<lparr>rp_dry_run = False, rp_scanned = 0, rp_matched = 0, rp_deleted = 0,
     rp_kept = 0, rp_orphan_matched = 0, rp_missing_local_file_matched = 0, rp_deleted_local_files = 0,
     rp_skipped_external_files = 0, rp_skipped_durable_without_policy = 0,
     rp_deleted_artifact_ids = [], rp_deleted_file_paths = []\<rparr>"

section \<open>Storage and queries\<close>

definition artifact_save :: "('e, 'db, 'b) redb \<Rightarrow> ('e, artifact_record, 'b) codec \<Rightarrow> 'db \<Rightarrow> artifact_record \<Rightarrow> 'e + 'db" where
  "artifact_save R C d artifact = put_record R C ARTIFACTS_TABLE d (a_artifact_id artifact) artifact"

definition artifact_load :: "('e, 'db, 'b) redb \<Rightarrow> ('e, artifact_record, 'b) codec \<Rightarrow> 'db \<Rightarrow> rstr \<Rightarrow> 'e + artifact_record option" where
  "artifact_load R C d artifact_id = get_record R C ARTIFACTS_TABLE d artifact_id"

definition artifact_delete :: "('e, 'db, 'b) redb \<Rightarrow> 'db \<Rightarrow> rstr \<Rightarrow> 'e + ('db \<times> bool)" where
  "artifact_delete R d artifact_id = db_remove R d ARTIFACTS_TABLE artifact_id"

definition artifact_list :: "('e, 'db, 'b) redb \<Rightarrow> ('e, artifact_record, 'b) codec \<Rightarrow> 'db \<Rightarrow> 'e + artifact_record list" where
  "artifact_list R C d = res_bind (all_records R C ARTIFACTS_TABLE d) (\<lambda>artifacts.
     Inr (sort_by (le_desc_then a_updated_at a_artifact_id) artifacts))"

text \<open>A field of a query or policy that is absent matches everything.\<close>
definition wants :: "'a option \<Rightarrow> 'a \<Rightarrow> bool" where
  "wants w x \<longleftrightarrow> (case w of Some v \<Rightarrow> x = v | None \<Rightarrow> True)"

definition wants_some :: "'a option \<Rightarrow> 'a option \<Rightarrow> bool" where
  "wants_some w x \<longleftrightarrow> (case w of Some v \<Rightarrow> x = Some v | None \<Rightarrow> True)"

definition query_matches :: "artifact_query \<Rightarrow> artifact_record \<Rightarrow> bool" where
  "query_matches q a \<longleftrightarrow>
     wants_some (q_thread_id q) (a_thread_id a) \<and> wants_some (q_session_id q) (a_session_id a)
     \<and> wants_some (q_task_id q) (a_task_id a) \<and> wants_some (q_run_id q) (a_run_id a)
     \<and> wants_some (q_trace_id q) (a_trace_id a) \<and> wants (q_scope q) (a_scope a)
     \<and> wants (q_lifecycle q) (a_lifecycle a) \<and> wants (q_source_kind q) (a_source_kind a)"

definition artifact_query_op ::
  "('e, 'db, 'b) redb \<Rightarrow> ('e, artifact_record, 'b) codec \<Rightarrow> 'db \<Rightarrow> artifact_query \<Rightarrow> 'e + artifact_record list" where
  "artifact_query_op R C d q = res_bind (artifact_list R C d) (\<lambda>artifacts.
     let found = filter (query_matches q) artifacts
     in Inr (case q_limit q of Some limit \<Rightarrow> take limit found | None \<Rightarrow> found))"

section \<open>Cleanup\<close>

record 'fs files =
  f_exists :: "'fs \<Rightarrow> rstr \<Rightarrow> bool"
  f_remove :: "'fs \<Rightarrow> rstr \<Rightarrow> 'fs \<times> bool"

record durations =
  d_hours :: "int \<Rightarrow> time option"
  d_days :: "int \<Rightarrow> time option"

datatype 'e failure = Err 'e | Panic

text \<open>\<^verbatim>\<open>Path::is_absolute\<close> on Unix: the path begins with a slash.\<close>
definition local_file_path :: "artifact_record \<Rightarrow> rstr option" where
  "local_file_path a =
     (case strip_prefix (a_uri a) (lit ''file://'') of
        Some rest \<Rightarrow> if rest = [] then None else Some rest
      | None \<Rightarrow> if starts_with (a_uri a) (lit ''/'') then Some (a_uri a) else None)"

definition looks_external_uri :: "rstr \<Rightarrow> bool" where
  "looks_external_uri uri \<longleftrightarrow> contains uri (lit ''://'') \<and> \<not> starts_with uri (lit ''file://'')"

definition classify_scope :: "rstr \<Rightarrow> rstr option \<Rightarrow> artifact_scope" where
  "classify_scope uri virtual_path =
     (let candidate = to_ascii_lowercase (case virtual_path of Some v \<Rightarrow> v | None \<Rightarrow> uri)
      in if contains candidate (lit ''uploads'') then Uploads
         else if contains candidate (lit ''workspace'') then Workspace
         else if contains candidate (lit ''outputs'') then Outputs
         else Artifacts)"

record ('db, 'fs) cleanup_state =
  cs_db :: 'db
  cs_fs :: 'fs
  cs_report :: artifact_cleanup_report
  cs_ids :: "rstr list"
  cs_paths :: "rstr list"

definition is_orphan :: "artifact_record \<Rightarrow> bool" where
  "is_orphan a \<longleftrightarrow> a_task_id a = None \<and> a_run_id a = None \<and> a_trace_id a = None
     \<and> a_session_id a = None \<and> a_thread_id a = None"

definition missing_local_file :: "'fs files \<Rightarrow> 'fs \<Rightarrow> artifact_record \<Rightarrow> bool" where
  "missing_local_file F fs a \<longleftrightarrow> (case local_file_path a of Some path \<Rightarrow> \<not> f_exists F fs path | None \<Rightarrow> False)"

text \<open>The age test of a lifecycle, \<open>None\<close> when the duration constructor panics.\<close>
definition age_eligible :: "durations \<Rightarrow> artifact_cleanup_policy \<Rightarrow> time \<Rightarrow> artifact_record \<Rightarrow> bool option" where
  "age_eligible H p now a =
     (let age = now - a_updated_at a;
          reached = (\<lambda>limit dur. case limit of Some n \<Rightarrow> map_option (\<lambda>d. age \<ge> d) (dur n) | None \<Rightarrow> Some False)
      in case a_lifecycle a of
           Ephemeral \<Rightarrow> reached (p_ephemeral_max_age_hours p) (d_hours H)
         | Session \<Rightarrow> reached (p_session_max_age_hours p) (d_hours H)
         | Durable \<Rightarrow> reached (p_durable_max_age_days p) (d_days H))"

definition count_kept :: "('db, 'fs) cleanup_state \<Rightarrow> ('db, 'fs) cleanup_state" where
  "count_kept st = st\<lparr>cs_report := (cs_report st)\<lparr>rp_kept := rp_kept (cs_report st) + 1\<rparr>\<rparr>"

definition count_skipped_durable :: "artifact_cleanup_policy \<Rightarrow> artifact_record \<Rightarrow> ('db, 'fs) cleanup_state \<Rightarrow> ('db, 'fs) cleanup_state" where
  "count_skipped_durable p a st =
     (if a_lifecycle a = Durable \<and> p_durable_max_age_days p = None
      then st\<lparr>cs_report := (cs_report st)\<lparr>rp_skipped_durable_without_policy := rp_skipped_durable_without_policy (cs_report st) + 1\<rparr>\<rparr>
      else st)"

definition count_matched :: "bool \<Rightarrow> bool \<Rightarrow> ('db, 'fs) cleanup_state \<Rightarrow> ('db, 'fs) cleanup_state" where
  "count_matched orphan missing st = (let rp = cs_report st in st\<lparr>cs_report := rp\<lparr>
     rp_matched := rp_matched rp + 1,
     rp_orphan_matched := rp_orphan_matched rp + (if orphan then 1 else 0),
     rp_missing_local_file_matched := rp_missing_local_file_matched rp + (if missing then 1 else 0)\<rparr>\<rparr>)"

definition count_file :: "rstr \<Rightarrow> ('db, 'fs) cleanup_state \<Rightarrow> ('db, 'fs) cleanup_state" where
  "count_file path st = st\<lparr>cs_report := (cs_report st)\<lparr>rp_deleted_local_files := rp_deleted_local_files (cs_report st) + 1\<rparr>,
     cs_paths := cs_paths st @ [path]\<rparr>"

definition count_external :: "artifact_record \<Rightarrow> ('db, 'fs) cleanup_state \<Rightarrow> ('db, 'fs) cleanup_state" where
  "count_external a st = (if looks_external_uri (a_uri a)
     then st\<lparr>cs_report := (cs_report st)\<lparr>rp_skipped_external_files := rp_skipped_external_files (cs_report st) + 1\<rparr>\<rparr> else st)"

definition push_id :: "artifact_record \<Rightarrow> ('db, 'fs) cleanup_state \<Rightarrow> ('db, 'fs) cleanup_state" where
  "push_id a st = st\<lparr>cs_ids := cs_ids st @ [a_artifact_id a]\<rparr>"

text \<open>The file part of a real deletion, after the record is gone.\<close>
definition remove_local_file :: "'fs files \<Rightarrow> artifact_cleanup_policy \<Rightarrow> artifact_record \<Rightarrow> ('db, 'fs) cleanup_state \<Rightarrow> ('db, 'fs) cleanup_state" where
  "remove_local_file F p a st =
     (if p_delete_local_files p
      then case local_file_path a of
          Some path \<Rightarrow> if f_exists F (cs_fs st) path
            then let (fs', ok) = f_remove F (cs_fs st) path; st' = st\<lparr>cs_fs := fs'\<rparr>
                 in if ok then count_file path st' else st'
            else st
        | None \<Rightarrow> count_external a st
      else st)"

definition predict_local_file :: "artifact_cleanup_policy \<Rightarrow> artifact_record \<Rightarrow> ('db, 'fs) cleanup_state \<Rightarrow> ('db, 'fs) cleanup_state" where
  "predict_local_file p a st =
     (if p_delete_local_files p
      then case local_file_path a of Some path \<Rightarrow> count_file path st | None \<Rightarrow> count_external a st
      else st)"

definition delete_matched ::
  "('e, 'db, 'b) redb \<Rightarrow> 'fs files \<Rightarrow> artifact_cleanup_policy \<Rightarrow> artifact_record \<Rightarrow> ('db, 'fs) cleanup_state \<Rightarrow>
   ('db, 'fs) cleanup_state \<times> 'e failure option" where
  "delete_matched R F p a st =
     (if p_dry_run p then (push_id a (predict_local_file p a st), None)
      else case artifact_delete R (cs_db st) (a_artifact_id a) of
          Inl e \<Rightarrow> (st, Some (Err e))
        | Inr (d', True) \<Rightarrow> (push_id a (remove_local_file F p a (st\<lparr>cs_db := d'\<rparr>)), None)
        | Inr (d', False) \<Rightarrow> (count_kept (st\<lparr>cs_db := d'\<rparr>), None))"

text \<open>One turn of the loop.\<close>
definition cleanup_one ::
  "('e, 'db, 'b) redb \<Rightarrow> 'fs files \<Rightarrow> durations \<Rightarrow> artifact_cleanup_policy \<Rightarrow> time \<Rightarrow> artifact_record \<Rightarrow>
   ('db, 'fs) cleanup_state \<Rightarrow> ('db, 'fs) cleanup_state \<times> 'e failure option" where
  "cleanup_one R F H p now a st =
     (if \<not> wants (p_scope p) (a_scope a) then (count_kept st, None)
      else if \<not> wants (p_source_kind p) (a_source_kind a) then (count_kept st, None)
      else if p_orphan_only p \<and> \<not> is_orphan a then (count_kept st, None)
      else let missing = missing_local_file F (cs_fs st) a in
        if missing \<and> \<not> p_prune_missing_local_files p then (count_kept st, None)
        else case (if missing then Some True else age_eligible H p now a) of
            None \<Rightarrow> (st, Some Panic)
          | Some eligible \<Rightarrow>
              let st1 = (if missing then st else count_skipped_durable p a st) in
              if \<not> eligible then (count_kept st1, None)
              else let st2 = count_matched (is_orphan a) missing st1 in
                if (case p_max_delete p of Some n \<Rightarrow> length (cs_ids st2) \<ge> n | None \<Rightarrow> False)
                then (count_kept st2, None)
                else delete_matched R F p a st2)"

fun cleanup_loop ::
  "('e, 'db, 'b) redb \<Rightarrow> 'fs files \<Rightarrow> durations \<Rightarrow> artifact_cleanup_policy \<Rightarrow> time \<Rightarrow> artifact_record list \<Rightarrow>
   ('db, 'fs) cleanup_state \<Rightarrow> ('db, 'fs) cleanup_state \<times> 'e failure option" where
  "cleanup_loop R F H p now [] st = (st, None)"
| "cleanup_loop R F H p now (a # as) st =
     (case cleanup_one R F H p now a st of
        (st', Some e) \<Rightarrow> (st', Some e)
      | (st', None) \<Rightarrow> cleanup_loop R F H p now as st')"

definition initial_cleanup :: "artifact_cleanup_policy \<Rightarrow> nat \<Rightarrow> 'db \<Rightarrow> 'fs \<Rightarrow> ('db, 'fs) cleanup_state" where
  "initial_cleanup p n d fs = \<lparr>cs_db = d, cs_fs = fs,
     cs_report = default_cleanup_report\<lparr>rp_dry_run := p_dry_run p, rp_scanned := n\<rparr>, cs_ids = [], cs_paths = []\<rparr>"

definition final_report :: "('db, 'fs) cleanup_state \<Rightarrow> artifact_cleanup_report" where
  "final_report st = (cs_report st)\<lparr>rp_deleted := length (cs_ids st), rp_deleted_artifact_ids := cs_ids st,
     rp_deleted_file_paths := cs_paths st\<rparr>"

definition cleanup ::
  "('e, 'db, 'b) redb \<Rightarrow> ('e, artifact_record, 'b) codec \<Rightarrow> 'fs files \<Rightarrow> durations \<Rightarrow> 'db \<Rightarrow> 'fs \<Rightarrow> time \<Rightarrow>
   artifact_cleanup_policy \<Rightarrow> 'db \<times> 'fs \<times> ('e failure + artifact_cleanup_report)" where
  "cleanup R C F H d fs now p =
     (case artifact_list R C d of
        Inl e \<Rightarrow> (d, fs, Inl (Err e))
      | Inr artifacts \<Rightarrow>
          (case cleanup_loop R F H p now artifacts (initial_cleanup p (length artifacts) d fs) of
             (st, Some e) \<Rightarrow> (cs_db st, cs_fs st, Inl e)
           | (st, None) \<Rightarrow> (cs_db st, cs_fs st, Inr (final_report st))))"

section \<open>One turn of the cleanup\<close>

lemmas counters = count_kept_def count_skipped_durable_def count_matched_def count_file_def count_external_def
  push_id_def Let_def

lemma counter_frame [simp]:
  "cs_db (count_kept st) = cs_db st" "cs_fs (count_kept st) = cs_fs st" "cs_ids (count_kept st) = cs_ids st"
  "cs_db (count_skipped_durable p a st) = cs_db st" "cs_fs (count_skipped_durable p a st) = cs_fs st"
  "cs_ids (count_skipped_durable p a st) = cs_ids st"
  "cs_db (count_matched o1 m st) = cs_db st" "cs_fs (count_matched o1 m st) = cs_fs st"
  "cs_ids (count_matched o1 m st) = cs_ids st"
  "cs_db (count_file path st) = cs_db st" "cs_fs (count_file path st) = cs_fs st" "cs_ids (count_file path st) = cs_ids st"
  "cs_db (count_external a st) = cs_db st" "cs_fs (count_external a st) = cs_fs st" "cs_ids (count_external a st) = cs_ids st"
  "cs_db (push_id a st) = cs_db st" "cs_fs (push_id a st) = cs_fs st" "cs_ids (push_id a st) = cs_ids st @ [a_artifact_id a]"
  by (simp_all add: counters)

lemma predict_frame [simp]:
  "cs_db (predict_local_file p a st) = cs_db st" "cs_fs (predict_local_file p a st) = cs_fs st"
  "cs_ids (predict_local_file p a st) = cs_ids st"
  by (simp_all add: predict_local_file_def split: option.splits)

lemma remove_local_file_frame [simp]:
  "cs_db (remove_local_file F p a st) = cs_db st" "cs_ids (remove_local_file F p a st) = cs_ids st"
  by (simp_all add: remove_local_file_def Let_def split: option.splits prod.splits)

abbreviation kept_of :: "('db, 'fs) cleanup_state \<Rightarrow> nat" where
  "kept_of st \<equiv> rp_kept (cs_report st)"

lemma kept_counters [simp]:
  "kept_of (count_kept st) = kept_of st + 1" "kept_of (count_skipped_durable p a st) = kept_of st"
  "kept_of (count_matched o1 m st) = kept_of st" "kept_of (count_file path st) = kept_of st"
  "kept_of (count_external a st) = kept_of st" "kept_of (push_id a st) = kept_of st"
  by (simp_all add: counters)

lemma scanned_counters [simp]:
  "rp_scanned (cs_report (count_kept st)) = rp_scanned (cs_report st)"
  "rp_scanned (cs_report (count_skipped_durable p a st)) = rp_scanned (cs_report st)"
  "rp_scanned (cs_report (count_matched o1 m st)) = rp_scanned (cs_report st)"
  "rp_scanned (cs_report (count_file path st)) = rp_scanned (cs_report st)"
  "rp_scanned (cs_report (count_external a st)) = rp_scanned (cs_report st)"
  "rp_scanned (cs_report (push_id a st)) = rp_scanned (cs_report st)"
  by (simp_all add: counters)

lemma scanned_files [simp]:
  "rp_scanned (cs_report (predict_local_file p a st)) = rp_scanned (cs_report st)"
  "rp_scanned (cs_report (remove_local_file F p a st)) = rp_scanned (cs_report st)"
  by (simp_all add: predict_local_file_def remove_local_file_def Let_def split: option.splits prod.splits)

lemma dry_flag:
  "rp_dry_run (cs_report (count_kept st)) = rp_dry_run (cs_report st)"
  "rp_dry_run (cs_report (count_skipped_durable p a st)) = rp_dry_run (cs_report st)"
  "rp_dry_run (cs_report (count_matched o1 m st)) = rp_dry_run (cs_report st)"
  "rp_dry_run (cs_report (push_id a st)) = rp_dry_run (cs_report st)"
  by (simp_all add: counters)

lemma kept_files [simp]:
  "kept_of (predict_local_file p a st) = kept_of st" "kept_of (remove_local_file F p a st) = kept_of st"
  by (simp_all add: predict_local_file_def remove_local_file_def Let_def split: option.splits prod.splits)

lemma delete_matched_count:
  "delete_matched R F p a st = (st', None) \<Longrightarrow>
     kept_of st' + length (cs_ids st') = kept_of st + length (cs_ids st) + 1
     \<and> length (cs_ids st') \<le> length (cs_ids st) + 1"
  by (auto simp: delete_matched_def split: if_splits sum.splits bool.splits)

lemma cleanup_one_count:
  assumes "cleanup_one R F H p now a st = (st', None)"
  shows "kept_of st' + length (cs_ids st') = kept_of st + length (cs_ids st) + 1"
    and "p_max_delete p = Some n \<Longrightarrow> length (cs_ids st) \<le> n \<Longrightarrow> length (cs_ids st') \<le> n"
  using assms
  by (auto simp: cleanup_one_def Let_def split: if_splits option.splits dest!: delete_matched_count)

text \<open>What a policy allows to be deleted at all.\<close>
definition may_delete :: "durations \<Rightarrow> artifact_cleanup_policy \<Rightarrow> time \<Rightarrow> artifact_record \<Rightarrow> bool" where
  "may_delete H p now a \<longleftrightarrow> \<not> p_dry_run p
     \<and> wants (p_scope p) (a_scope a) \<and> wants (p_source_kind p) (a_source_kind a)
     \<and> (p_orphan_only p \<longrightarrow> is_orphan a)
     \<and> (p_prune_missing_local_files p \<and> local_file_path a \<noteq> None \<or> age_eligible H p now a = Some True)"

lemma delete_matched_db:
  "delete_matched R F p a st = (st', e) \<Longrightarrow>
     cs_db st' = cs_db st \<or> \<not> p_dry_run p \<and> (\<exists>b. db_remove R (cs_db st) ARTIFACTS_TABLE (a_artifact_id a) = Inr (cs_db st', b))"
  by (auto simp: delete_matched_def artifact_delete_def split: if_splits sum.splits bool.splits)

lemma missing_has_path: "missing_local_file F fs a \<Longrightarrow> local_file_path a \<noteq> None"
  by (auto simp: missing_local_file_def split: option.splits)

lemma cleanup_one_db:
  assumes "cleanup_one R F H p now a st = (st', e)"
  shows "cs_db st' = cs_db st \<or> may_delete H p now a
    \<and> (\<exists>b. db_remove R (cs_db st) ARTIFACTS_TABLE (a_artifact_id a) = Inr (cs_db st', b))"
  using assms missing_has_path [of F "cs_fs st" a]
  by (auto simp: cleanup_one_def may_delete_def Let_def split: if_splits option.splits dest!: delete_matched_db)

locale artifact_tables = record_tables R contents C
  for R :: "('e, 'db, 'b) redb" and contents :: "'db \<Rightarrow> rstr \<Rightarrow> rstr \<rightharpoonup> 'b"
    and C :: "('e, artifact_record, 'b) codec"
begin

lemma artifact_list_spec:
  assumes "artifact_list R C d = Inr as"
  shows "set as = ran (table_view C contents ARTIFACTS_TABLE d)"
    and "sorted_wrt (le_desc_then a_updated_at a_artifact_id) as"
    and "keyed a_artifact_id (table_view C contents ARTIFACTS_TABLE d) \<Longrightarrow> distinct (map a_artifact_id as)"
proof -
  obtain all where all: "all_records R C ARTIFACTS_TABLE d = Inr all"
    "as = sort_by (le_desc_then a_updated_at a_artifact_id) all"
    using assms by (auto simp: artifact_list_def res_bind_eq_Inr)
  show "set as = ran (table_view C contents ARTIFACTS_TABLE d)"
    using all_records_set [OF all(1)] all(2) by simp
  show "sorted_wrt (le_desc_then a_updated_at a_artifact_id) as"
    unfolding all(2) by (rule desc_then.sorted_sort_by)
  assume keyed: "keyed a_artifact_id (table_view C contents ARTIFACTS_TABLE d)"
  have "distinct (map a_artifact_id all)"
    using all_records_keys(1) [OF all(1) keyed] strict_sorted_iff by blast
  moreover have "mset (map a_artifact_id as) = mset (map a_artifact_id all)" by (simp add: all(2))
  ultimately show "distinct (map a_artifact_id as)" using mset_eq_imp_distinct_iff by blast
qed

lemma remove_artifact_view:
  "db_remove R d ARTIFACTS_TABLE k = Inr (d', b) \<Longrightarrow>
     table_view C contents ARTIFACTS_TABLE d' = (table_view C contents ARTIFACTS_TABLE d)(k := None)"
  by (auto simp: table_view_def dest!: remove_ok)

lemma cleanup_loop_view:
  assumes "cleanup_loop R F H p now as st = (st', e)"
  shows "table_view C contents ARTIFACTS_TABLE (cs_db st') k = table_view C contents ARTIFACTS_TABLE (cs_db st) k
    \<or> table_view C contents ARTIFACTS_TABLE (cs_db st') k = None
      \<and> (\<exists>a \<in> set as. a_artifact_id a = k \<and> may_delete H p now a)"
  using assms
proof (induction as arbitrary: st)
  case (Cons a as)
  obtain s e1 where one: "cleanup_one R F H p now a st = (s, e1)" by fastforce
  have step: "table_view C contents ARTIFACTS_TABLE (cs_db s) k = table_view C contents ARTIFACTS_TABLE (cs_db st) k
    \<or> table_view C contents ARTIFACTS_TABLE (cs_db s) k = None \<and> a_artifact_id a = k \<and> may_delete H p now a"
    using cleanup_one_db [OF one] by (auto dest!: remove_artifact_view split: if_splits)
  show ?case
  proof (cases e1)
    case None
    with Cons.prems one have "cleanup_loop R F H p now as s = (st', e)" by simp
    from Cons.IH [OF this] step show ?thesis by auto
  next
    case (Some x)
    with Cons.prems one step show ?thesis by auto
  qed
qed simp

end

interpretation mem_artifacts: artifact_tables mem_tables mem_contents mem_codec
  by unfold_locales

lemma cleanup_loop_Cons_None:
  "cleanup_loop R F H p now (a # as) st = (st', None) \<longleftrightarrow>
     (\<exists>s. cleanup_one R F H p now a st = (s, None) \<and> cleanup_loop R F H p now as s = (st', None))"
  by (auto split: prod.splits option.splits)

lemma cleanup_loop_count:
  "cleanup_loop R F H p now as st = (st', None) \<Longrightarrow>
     kept_of st' + length (cs_ids st') = kept_of st + length (cs_ids st) + length as"
proof (induction as arbitrary: st)
  case (Cons a as)
  then obtain s where "cleanup_one R F H p now a st = (s, None)" "cleanup_loop R F H p now as s = (st', None)"
    using cleanup_loop_Cons_None by blast
  then show ?case using Cons.IH [of s] cleanup_one_count(1) [of R F H p now a st s] by simp
qed simp

lemma cleanup_loop_max:
  "cleanup_loop R F H p now as st = (st', None) \<Longrightarrow> p_max_delete p = Some n \<Longrightarrow>
     length (cs_ids st) \<le> n \<Longrightarrow> length (cs_ids st') \<le> n"
proof (induction as arbitrary: st)
  case (Cons a as)
  then obtain s where "cleanup_one R F H p now a st = (s, None)" "cleanup_loop R F H p now as s = (st', None)"
    using cleanup_loop_Cons_None by blast
  then show ?case using Cons cleanup_one_count(2) [of R F H p now a st s n] by simp
qed simp

lemma delete_matched_scanned:
  "delete_matched R F p a st = (st', e) \<Longrightarrow> rp_scanned (cs_report st') = rp_scanned (cs_report st)"
  by (auto simp: delete_matched_def split: if_splits sum.splits bool.splits)

lemma scanned_const:
  "cleanup_one R F H p now a st = (st', e) \<Longrightarrow> rp_scanned (cs_report st') = rp_scanned (cs_report st)"
  by (auto simp: cleanup_one_def Let_def split: if_splits option.splits dest!: delete_matched_scanned)

lemma cleanup_loop_scanned:
  "cleanup_loop R F H p now as st = (st', None) \<Longrightarrow> rp_scanned (cs_report st') = rp_scanned (cs_report st)"
  by (induction as arbitrary: st) (auto simp: cleanup_loop_Cons_None scanned_const simp del: cleanup_loop.simps(2))

section \<open>A dry run and the real run\<close>

text \<open>The two runs have seen the same artifacts and counted the same.\<close>
definition same_progress :: "('db, 'fs) cleanup_state \<Rightarrow> ('db, 'fs) cleanup_state \<Rightarrow> bool" where
  "same_progress dry st \<longleftrightarrow> cs_fs st = cs_fs dry \<and> cs_ids st = cs_ids dry \<and> cs_paths st = cs_paths dry
     \<and> cs_report st = (cs_report dry)\<lparr>rp_dry_run := False\<rparr>"

lemma same_progress_counters:
  assumes "same_progress dry st"
  shows "same_progress (count_kept dry) (count_kept st)"
    and "same_progress (count_skipped_durable p a dry) (count_skipped_durable p a st)"
    and "same_progress (count_matched o1 m dry) (count_matched o1 m st)"
    and "same_progress (push_id a dry) (push_id a st)"
    and "same_progress dry (st\<lparr>cs_db := d\<rparr>)"
  using assms by (simp_all add: same_progress_def counters)

lemma dry_run_irrelevant [simp]:
  "age_eligible H (p\<lparr>p_dry_run := b\<rparr>) now a = age_eligible H p now a"
  "count_skipped_durable (p\<lparr>p_dry_run := b\<rparr>) a st = count_skipped_durable p a st"
  by (cases "a_lifecycle a"; simp add: age_eligible_def count_skipped_durable_def)+

text \<open>With the local files left alone, one turn of the real run does what the dry run predicts.\<close>
lemma cleanup_one_predicted:
  assumes "same_progress dry st" and "\<not> p_delete_local_files p"
    and "cleanup_one R F H (p\<lparr>p_dry_run := False\<rparr>) now a st = (st', None)"
    and "\<And>d b. db_remove R (cs_db st) ARTIFACTS_TABLE (a_artifact_id a) = Inr (d, b) \<Longrightarrow> b"
  shows "\<exists>dry'. cleanup_one R F H (p\<lparr>p_dry_run := True\<rparr>) now a dry = (dry', None) \<and> same_progress dry' st'"
proof -
  let ?real = "p\<lparr>p_dry_run := False\<rparr>" and ?dry = "p\<lparr>p_dry_run := True\<rparr>"
  have fs: "cs_fs dry = cs_fs st" and ids: "cs_ids dry = cs_ids st" using assms(1) by (simp_all add: same_progress_def)
  have del: "\<exists>dry'. delete_matched R F ?dry a s = (dry', None) \<and> same_progress dry' st'"
    if "same_progress s s'" "cs_db s' = cs_db st" "delete_matched R F ?real a s' = (st', None)" for s s'
    using that assms(2,4) same_progress_counters(4) [OF same_progress_counters(5) [OF that(1)]]
    by (auto simp: delete_matched_def artifact_delete_def remove_local_file_def predict_local_file_def
        split: sum.splits bool.splits)
  have del_here: "\<exists>dry'. delete_matched R F ?dry a (count_matched o1 m dry) = (dry', None) \<and> same_progress dry' st'"
    if "delete_matched R F ?real a (count_matched o1 m st) = (st', None)" for o1 m
    using del [OF same_progress_counters(3) [OF assms(1)] _ that] by simp
  have del_skip: "\<exists>dry'. delete_matched R F ?dry a (count_matched o1 m (count_skipped_durable p a dry)) = (dry', None)
      \<and> same_progress dry' st'"
    if "delete_matched R F ?real a (count_matched o1 m (count_skipped_durable p a st)) = (st', None)" for o1 m
    using del [OF same_progress_counters(3) [OF same_progress_counters(2) [OF assms(1)]] _ that] by simp
  show ?thesis
    using assms(1,3)
    by (auto simp: cleanup_one_def Let_def fs ids split: if_splits option.splits
        intro!: same_progress_counters(1-3) dest!: del_here del_skip)
qed

context artifact_tables
begin

lemma cleanup_one_other:
  assumes "cleanup_one R F H p now a st = (st', e)" and "k \<noteq> a_artifact_id a"
  shows "contents (cs_db st') ARTIFACTS_TABLE k = contents (cs_db st) ARTIFACTS_TABLE k"
  using cleanup_one_db [OF assms(1)] assms(2) by (auto dest!: remove_ok)

lemma cleanup_loop_predicted:
  assumes "same_progress dry st" and "\<not> p_delete_local_files p"
    and "cleanup_loop R F H (p\<lparr>p_dry_run := False\<rparr>) now as st = (st', None)"
    and "distinct (map a_artifact_id as)"
    and "\<forall>a \<in> set as. contents (cs_db st) ARTIFACTS_TABLE (a_artifact_id a) \<noteq> None"
  shows "\<exists>dry'. cleanup_loop R F H (p\<lparr>p_dry_run := True\<rparr>) now as dry = (dry', None) \<and> same_progress dry' st'"
  using assms
proof (induction as arbitrary: dry st)
  case (Cons a as)
  obtain s where s: "cleanup_one R F H (p\<lparr>p_dry_run := False\<rparr>) now a st = (s, None)"
    "cleanup_loop R F H (p\<lparr>p_dry_run := False\<rparr>) now as s = (st', None)"
    using Cons.prems(3) cleanup_loop_Cons_None by blast
  obtain dry1 where dry1: "cleanup_one R F H (p\<lparr>p_dry_run := True\<rparr>) now a dry = (dry1, None)" "same_progress dry1 s"
    using cleanup_one_predicted [OF Cons.prems(1,2) s(1)] Cons.prems(5) by (auto dest!: remove_ok)
  have "\<forall>x \<in> set as. contents (cs_db s) ARTIFACTS_TABLE (a_artifact_id x) \<noteq> None"
    using cleanup_one_other [OF s(1)] Cons.prems(4,5) by (auto simp: image_iff)
  from Cons.IH [OF dry1(2) Cons.prems(2) s(2) _ this] Cons.prems(4) dry1(1)
  show ?case by auto
qed simp

end

lemma dry_turn_frame:
  assumes "cleanup_one R F H (p\<lparr>p_dry_run := True\<rparr>) now a st = (st', e)"
  shows "cs_db st' = cs_db st" and "cs_fs st' = cs_fs st"
    and "\<not> p_delete_local_files p \<Longrightarrow> rp_dry_run (cs_report st') = rp_dry_run (cs_report st)"
  using assms
  by (auto simp: cleanup_one_def delete_matched_def Let_def predict_local_file_def dry_flag
      split: if_splits option.splits)

lemma dry_loop_frame:
  assumes "cleanup_loop R F H (p\<lparr>p_dry_run := True\<rparr>) now as st = (st', None)"
  shows "cs_db st' = cs_db st" and "cs_fs st' = cs_fs st"
    and "\<not> p_delete_local_files p \<Longrightarrow> rp_dry_run (cs_report st') = rp_dry_run (cs_report st)"
proof -
  have "cs_db st' = cs_db st \<and> cs_fs st' = cs_fs st
    \<and> (\<not> p_delete_local_files p \<longrightarrow> rp_dry_run (cs_report st') = rp_dry_run (cs_report st))"
    using assms
  proof (induction as arbitrary: st)
    case (Cons a as)
    then obtain s where "cleanup_one R F H (p\<lparr>p_dry_run := True\<rparr>) now a st = (s, None)"
      "cleanup_loop R F H (p\<lparr>p_dry_run := True\<rparr>) now as s = (st', None)"
      using cleanup_loop_Cons_None by blast
    then show ?case using Cons.IH [of s] dry_turn_frame [of R F H p now a st s None] by simp
  qed simp
  then show "cs_db st' = cs_db st" "cs_fs st' = cs_fs st"
    "\<not> p_delete_local_files p \<Longrightarrow> rp_dry_run (cs_report st') = rp_dry_run (cs_report st)" by blast+
qed

section \<open>Properties\<close>

definition sample_artifact :: "string \<Rightarrow> time \<Rightarrow> artifact_lifecycle \<Rightarrow> artifact_record" where
  "sample_artifact i t l = \<lparr>a_artifact_id = lit i, a_kind = [], a_uri = [], a_scope = Outputs, a_lifecycle = l,
     a_created_at = t, a_updated_at = t, a_agent_id = [], a_task_id = None, a_run_id = None, a_trace_id = None,
     a_session_id = None, a_thread_id = None, a_tool_name = None, a_media_type = None, a_virtual_path = None,
     a_source_kind = [], a_metadata = Map.empty\<rparr>"

definition sample_policy :: artifact_cleanup_policy where
  "sample_policy = \<lparr>p_dry_run = False, p_orphan_only = False, p_prune_missing_local_files = False,
     p_delete_local_files = False, p_scope = None, p_source_kind = None, p_ephemeral_max_age_hours = Some 1,
     p_session_max_age_hours = None, p_durable_max_age_days = None, p_max_delete = Some 5\<rparr>"

definition sample_files :: "unit files" where
  "sample_files = \<lparr>f_exists = (\<lambda>_ _. False), f_remove = (\<lambda>_ _. ((), False))\<rparr>"

definition sample_durations :: durations where
  "sample_durations = \<lparr>d_hours = (\<lambda>h. Some (h * 3600)), d_days = (\<lambda>h. Some (h * 86400))\<rparr>"

definition sample_artifacts :: "artifact_record mem_db" where
  "sample_artifacts = (\<lambda>_. [])(ARTIFACTS_TABLE :=
     [(lit ''a'', sample_artifact ''a'' 0 Ephemeral), (lit ''b'', sample_artifact ''b'' 1 Durable)])"

lemmas sample_cleanup_defs = sample_artifact_def sample_policy_def sample_files_def sample_durations_def sample_artifacts_def

lemma sample_cleanup:
  "\<exists>d' fs' rp. cleanup mem_tables mem_codec sample_files sample_durations sample_artifacts () 9000 sample_policy
     = (d', fs', Inr rp)"
  by (simp add: cleanup_def artifact_list_def mem_simps cleanup_one_def delete_matched_def artifact_delete_def
      age_eligible_def missing_local_file_def local_file_path_def strip_prefix_def starts_with_def
      wants_def is_orphan_def initial_cleanup_def le_desc_then_def Let_def sample_cleanup_defs)

lemma sample_artifacts_keyed:
  "keyed a_artifact_id (table_view mem_codec mem_contents ARTIFACTS_TABLE sample_artifacts)"
  by (simp add: keyed_def table_view_def mem_contents_def mem_json_def sample_cleanup_defs)

text \<open>
  C26. The report adds up. A cleanup that returns has accounted for every listed artifact
  once: scanned is deleted plus kept, the deleted identifiers are as many as the count
  says, and no more than \<open>max_delete\<close> artifacts are deleted.
\<close>
theorem cleanup_report_adds_up:
  assumes "cleanup R C F H d fs now p = (d', fs', Inr rp)"
  shows "rp_scanned rp = rp_deleted rp + rp_kept rp
    \<and> rp_deleted rp = length (rp_deleted_artifact_ids rp)
    \<and> (\<forall>n. p_max_delete p = Some n \<longrightarrow> rp_deleted rp \<le> n)"
proof -
  obtain as st where st: "cleanup_loop R F H p now as (initial_cleanup p (length as) d fs) = (st, None)"
    and rp: "rp = final_report st"
    using assms by (auto simp: cleanup_def split: sum.splits prod.splits option.splits)
  have "kept_of st + length (cs_ids st) = length as" "rp_scanned (cs_report st) = length as"
    using cleanup_loop_count [OF st] cleanup_loop_scanned [OF st]
    by (simp_all add: initial_cleanup_def default_cleanup_report_def)
  moreover have "length (cs_ids st) \<le> n" if "p_max_delete p = Some n" for n
    using cleanup_loop_max [OF st that] by (simp add: initial_cleanup_def)
  ultimately show ?thesis by (simp add: rp final_report_def)
qed

theorem cleanup_report_adds_up_witness:
  "\<exists>rp. snd (snd (cleanup mem_tables mem_codec sample_files sample_durations sample_artifacts () 9000 sample_policy))
      = Inr rp \<and> rp_deleted rp \<le> 5"
proof -
  obtain d' fs' rp where c: "cleanup mem_tables mem_codec sample_files sample_durations sample_artifacts () 9000
      sample_policy = (d', fs', Inr rp)" using sample_cleanup by blast
  from cleanup_report_adds_up [OF c] c show ?thesis by (auto simp: sample_policy_def)
qed

text \<open>
  C27. Only what the policy allows is deleted, whatever the outcome. Even when a cleanup
  stops at an error or a panic, every artifact is still stored unless the policy selects it:
  a real run, its scope, source and orphan filters pass, and it is old enough for its
  lifecycle or is a local file with pruning on. In particular a durable artifact without a
  local file survives every policy that sets no age for durable ones.
\<close>
theorem cleanup_deletes_only_selected:
  assumes "record_tables R contents C"
    and "keyed a_artifact_id (table_view C contents ARTIFACTS_TABLE d)"
    and "cleanup R C F H d fs now p = (d', fs', result)"
    and "table_view C contents ARTIFACTS_TABLE d k = Some a"
  shows "(table_view C contents ARTIFACTS_TABLE d' k = Some a \<or> may_delete H p now a)
    \<and> (a_lifecycle a = Durable \<longrightarrow> p_durable_max_age_days p = None \<longrightarrow> local_file_path a = None \<longrightarrow>
         table_view C contents ARTIFACTS_TABLE d' k = Some a)"
proof (intro conjI)
  have loc: "artifact_tables R contents C" using assms(1) by (simp add: artifact_tables_def)
  show sel: "table_view C contents ARTIFACTS_TABLE d' k = Some a \<or> may_delete H p now a"
  proof (cases "artifact_list R C d")
    case (Inl e)
    with assms(3,4) show ?thesis by (simp add: cleanup_def)
  next
    case (Inr as)
    with assms(3) obtain st e where st: "cleanup_loop R F H p now as (initial_cleanup p (length as) d fs) = (st, e)"
      and d': "d' = cs_db st"
      by (auto simp: cleanup_def split: prod.splits option.splits)
    have init: "cs_db (initial_cleanup p (length as) d fs) = d" by (simp add: initial_cleanup_def)
    have "x = a" if "x \<in> set as" "a_artifact_id x = k" for x
      using that artifact_tables.artifact_list_spec(1) [OF loc Inr] assms(2,4) by (auto simp: ran_def keyed_def)
    with artifact_tables.cleanup_loop_view [OF loc st, of k] assms(4) d' init show ?thesis by auto
  qed
  show "a_lifecycle a = Durable \<longrightarrow> p_durable_max_age_days p = None \<longrightarrow> local_file_path a = None \<longrightarrow>
      table_view C contents ARTIFACTS_TABLE d' k = Some a"
    using sel by (auto simp: may_delete_def age_eligible_def)
qed

theorem cleanup_deletes_only_selected_witness:
  "table_view mem_codec mem_contents ARTIFACTS_TABLE
     (fst (cleanup mem_tables mem_codec sample_files sample_durations sample_artifacts () 9000 sample_policy)) (lit ''b'')
   = Some (sample_artifact ''b'' 1 Durable)"
proof -
  obtain d' fs' rp where c: "cleanup mem_tables mem_codec sample_files sample_durations sample_artifacts () 9000
      sample_policy = (d', fs', Inr rp)" using sample_cleanup by blast
  have "table_view mem_codec mem_contents ARTIFACTS_TABLE sample_artifacts (lit ''b'') = Some (sample_artifact ''b'' 1 Durable)"
    by (simp add: table_view_def mem_contents_def mem_json_def sample_cleanup_defs)
  from cleanup_deletes_only_selected [OF mem.record_tables_axioms sample_artifacts_keyed c this] c
  show ?thesis
    by (simp add: sample_cleanup_defs local_file_path_def strip_prefix_def starts_with_def)
qed

text \<open>
  A dry run is a faithful preview. When local files are not to be deleted, a real
  cleanup that returns reports exactly what a dry run in the same situation reports, up to
  the flag itself, and the dry run changes neither the database nor the files.
\<close>
theorem dry_run_predicts_cleanup:
  assumes "record_tables R contents C"
    and "keyed a_artifact_id (table_view C contents ARTIFACTS_TABLE d)"
    and "\<not> p_delete_local_files p"
    and "cleanup R C F H d fs now (p\<lparr>p_dry_run := False\<rparr>) = (d', fs', Inr rp)"
  shows "cleanup R C F H d fs now (p\<lparr>p_dry_run := True\<rparr>) = (d, fs, Inr (rp\<lparr>rp_dry_run := True\<rparr>))"
proof -
  let ?real = "p\<lparr>p_dry_run := False\<rparr>" and ?dry = "p\<lparr>p_dry_run := True\<rparr>"
  have loc: "artifact_tables R contents C" using assms(1) by (simp add: artifact_tables_def)
  obtain as st where as: "artifact_list R C d = Inr as"
    and st: "cleanup_loop R F H ?real now as (initial_cleanup ?real (length as) d fs) = (st, None)"
    and rp: "rp = final_report st" "fs' = cs_fs st"
    using assms(4) by (auto simp: cleanup_def split: sum.splits prod.splits option.splits)
  note spec = artifact_tables.artifact_list_spec [OF loc as]
  have here: "contents d ARTIFACTS_TABLE (a_artifact_id a) \<noteq> None" if "a \<in> set as" for a
    using that spec(1) assms(2) unfolding ran_def keyed_def record_tables.table_view_Some [OF assms(1)] by fastforce
  have "same_progress (initial_cleanup ?dry (length as) d fs) (initial_cleanup ?real (length as) d fs)"
    by (simp add: same_progress_def initial_cleanup_def default_cleanup_report_def)
  from artifact_tables.cleanup_loop_predicted [OF loc this assms(3) st spec(3) [OF assms(2)]] here
  obtain dry' where dry': "cleanup_loop R F H ?dry now as (initial_cleanup ?dry (length as) d fs) = (dry', None)"
    "same_progress dry' st" by (auto simp: initial_cleanup_def)
  note frame = dry_loop_frame [OF dry'(1)]
  have "final_report dry' = (final_report st)\<lparr>rp_dry_run := True\<rparr>"
    using dry'(2) frame(3) [OF assms(3)]
    by (cases "cs_report dry'") (simp add: same_progress_def final_report_def initial_cleanup_def)
  moreover have "cs_db dry' = d" "cs_fs dry' = fs" using frame(1,2) by (simp_all add: initial_cleanup_def)
  ultimately show ?thesis by (simp add: cleanup_def as dry'(1) rp)
qed

theorem dry_run_predicts_cleanup_witness:
  "\<exists>rp. cleanup mem_tables mem_codec sample_files sample_durations sample_artifacts () 9000
       (sample_policy\<lparr>p_dry_run := True\<rparr>) = (sample_artifacts, (), Inr rp) \<and> rp_dry_run rp"
proof -
  obtain d' fs' rp where c: "cleanup mem_tables mem_codec sample_files sample_durations sample_artifacts () 9000
      (sample_policy\<lparr>p_dry_run := False\<rparr>) = (d', fs', Inr rp)"
    using sample_cleanup by (auto simp: sample_policy_def)
  have "\<not> p_delete_local_files sample_policy" by (simp add: sample_policy_def)
  from dry_run_predicts_cleanup [OF mem.record_tables_axioms sample_artifacts_keyed this c] show ?thesis by simp
qed

end
