(* ===== verification/State_Provider.thy ===== *)
theory State_Provider
  imports Task_State Run_State Runtime_Event Artifact_State
begin

text \<open>
  The six managers of \<^verbatim>\<open>StateProvider\<close> (\<^verbatim>\<open>state/src/lib.rs\<close>) over one database. Each writing
  operation of a manager is a request; a history of requests runs one after the other, a
  request that fails leaves the database as it was (\<^verbatim>\<open>cleanup\<close> keeps the deletions it made
  before the failure). Each manager opens its own table, so the requests of one manager are
  invisible to the others.
\<close>

record ('e, 'db, 'b, 'fs, 'j) provider =
  pv_db :: "('e, 'db, 'b) redb"
  pv_snapshots :: "('e, 'j agent_snapshot, 'b) codec"
  pv_tasks :: "('e, 'j task_state, 'b) codec"
  pv_artifacts :: "('e, artifact_record, 'b) codec"
  pv_runs :: "('e, run_record, 'b) codec"
  pv_events :: "('e, 'j runtime_event_record, 'b) codec"
  pv_sessions :: "('e, rstr, 'b) codec"
  pv_uuid :: "uuid \<Rightarrow> rstr"
  pv_stamp :: "time \<Rightarrow> rstr"
  pv_files :: "'fs files"
  pv_durations :: durations

datatype 'j request =
    SaveSnapshot "'j agent_snapshot"
  | SaveTask "'j task_state"
  | UpdateTask "'j task_state"
  | AttachRefs time uuid "task_artifact_ref list"
  | SaveArtifact artifact_record
  | DeleteArtifact rstr
  | CleanupArtifacts time artifact_cleanup_policy
  | SaveRun run_record
  | AppendEvent "'j runtime_event_record"
  | SaveSession rstr rstr
  | RemoveSession rstr

fun request_table :: "'j request \<Rightarrow> rstr" where
  "request_table (SaveSnapshot _) = SNAPSHOTS_TABLE"
| "request_table (SaveTask _) = TASKS_TABLE"
| "request_table (UpdateTask _) = TASKS_TABLE"
| "request_table (AttachRefs _ _ _) = TASKS_TABLE"
| "request_table (SaveArtifact _) = ARTIFACTS_TABLE"
| "request_table (DeleteArtifact _) = ARTIFACTS_TABLE"
| "request_table (CleanupArtifacts _ _) = ARTIFACTS_TABLE"
| "request_table (SaveRun _) = RUNS_TABLE"
| "request_table (AppendEvent _) = RUNTIME_EVENTS_TABLE"
| "request_table (SaveSession _ _) = SESSIONS_TABLE"
| "request_table (RemoveSession _) = SESSIONS_TABLE"

text \<open>The database after a request: the new one, or the old one when the request failed.\<close>
definition committed :: "'db \<Rightarrow> 'e + 'db \<Rightarrow> 'db" where
  "committed d r = (case r of Inl _ \<Rightarrow> d | Inr d' \<Rightarrow> d')"

definition committed_fst :: "'db \<Rightarrow> 'e + ('db \<times> 'a) \<Rightarrow> 'db" where
  "committed_fst d r = (case r of Inl _ \<Rightarrow> d | Inr (d', _) \<Rightarrow> d')"

fun serve :: "('e, 'db, 'b, 'fs, 'j) provider \<Rightarrow> 'db \<times> 'fs \<Rightarrow> 'j request \<Rightarrow> 'db \<times> 'fs" where
  "serve P (d, fs) (SaveSnapshot s) = (committed d (snapshot_save (pv_db P) (pv_snapshots P) d s), fs)"
| "serve P (d, fs) (SaveTask t) = (committed d (task_save (pv_db P) (pv_tasks P) (pv_uuid P) d t), fs)"
| "serve P (d, fs) (UpdateTask t) =
     (committed d (save_preserving_completion_fields (pv_db P) (pv_tasks P) (pv_uuid P) d t), fs)"
| "serve P (d, fs) (AttachRefs now i refs) =
     (committed_fst d (upsert_artifact_refs (pv_db P) (pv_tasks P) (pv_uuid P) d now i refs), fs)"
| "serve P (d, fs) (SaveArtifact a) = (committed d (artifact_save (pv_db P) (pv_artifacts P) d a), fs)"
| "serve P (d, fs) (DeleteArtifact i) = (committed_fst d (artifact_delete (pv_db P) d i), fs)"
| "serve P (d, fs) (CleanupArtifacts now p) =
     (let (d', fs', _) = cleanup (pv_db P) (pv_artifacts P) (pv_files P) (pv_durations P) d fs now p in (d', fs'))"
| "serve P (d, fs) (SaveRun r) = (committed d (run_save (pv_db P) (pv_runs P) (pv_uuid P) d r), fs)"
| "serve P (d, fs) (AppendEvent e) =
     (committed_fst d (event_append (pv_db P) (pv_events P) (pv_stamp P) (pv_uuid P) d e), fs)"
| "serve P (d, fs) (SaveSession s r) = (committed d (save_session_mapping (pv_db P) (pv_sessions P) d s r), fs)"
| "serve P (d, fs) (RemoveSession s) = (committed_fst d (remove_session (pv_db P) d s), fs)"

definition serve_all :: "('e, 'db, 'b, 'fs, 'j) provider \<Rightarrow> 'db \<times> 'fs \<Rightarrow> 'j request list \<Rightarrow> 'db \<times> 'fs" where
  "serve_all P = foldl (serve P)"

text \<open>The task a request may write.\<close>
fun writes_task :: "uuid \<Rightarrow> 'j request \<Rightarrow> bool" where
  "writes_task i (SaveTask t) = (t_id t = i)"
| "writes_task i (UpdateTask t) = (t_id t = i)"
| "writes_task i (AttachRefs _ j _) = (j = i)"
| "writes_task i _ = False"

section \<open>Requests to other tables\<close>

lemma tables_distinct:
  "distinct [SNAPSHOTS_TABLE, TASKS_TABLE, ARTIFACTS_TABLE, RUNS_TABLE, RUNTIME_EVENTS_TABLE, SESSIONS_TABLE]"
  by code_simp

lemmas manager_ops = snapshot_save_def task_save_def save_preserving_completion_fields_def
  artifact_save_def artifact_delete_def run_save_def event_append_def save_session_mapping_def
  remove_session_def put_record_def

text \<open>The operations of one type of table, without the laws of its iteration.\<close>

locale plain_tables = kv_tables R contents
  for R :: "('e, 'db, 'b) redb" and contents :: "'db \<Rightarrow> rstr \<Rightarrow> rstr \<rightharpoonup> 'b"
begin

lemma committed_frame:
  assumes "\<And>d'. r = Inr d' \<Longrightarrow> contents d' t = contents d t"
  shows "contents (committed d r) t = contents d t"
  using assms by (auto simp: committed_def split: sum.splits)

lemma committed_fst_frame:
  assumes "\<And>d' x. r = Inr (d', x) \<Longrightarrow> contents d' t = contents d t"
  shows "contents (committed_fst d r) t = contents d t"
  using assms by (auto simp: committed_fst_def split: sum.splits)

lemma cleanup_loop_frame:
  assumes "cleanup_loop R F H p now as st = (st', e)" and "t \<noteq> ARTIFACTS_TABLE"
  shows "contents (cs_db st') t = contents (cs_db st) t"
  using assms
proof (induction as arbitrary: st)
  case (Cons a as)
  obtain s e1 where one: "cleanup_one R F H p now a st = (s, e1)" by fastforce
  have "contents (cs_db s) t = contents (cs_db st) t"
    using cleanup_one_db [OF one] remove_frame [OF _ Cons.prems(2)] by auto
  with Cons one show ?case by (cases e1) auto
qed simp

lemma cleanup_frame:
  assumes "cleanup R C F H d fs now p = (d', fs', r)" and "t \<noteq> ARTIFACTS_TABLE"
  shows "contents d' t = contents d t"
  using assms by (auto simp: cleanup_def initial_cleanup_def split: sum.splits prod.splits option.splits
      dest!: cleanup_loop_frame)

lemma upsert_frame:
  assumes "upsert_artifact_refs R C us d now i refs = Inr (d', r)" and "t \<noteq> TASKS_TABLE"
  shows "contents d' t = contents d t"
proof -
  have save: "task_save R C us d task = Inr d' \<Longrightarrow> contents d' t = contents d t" for task
    using insert_frame assms(2) by (fastforce simp: task_save_def put_record_def res_bind_eq_Inr)
  have "d' = d \<or> (\<exists>task. task_save R C us d task = Inr d')"
    using assms(1) by (auto simp: upsert_artifact_refs_def upsert_write_def res_bind_eq_Inr Let_def case_prod_beta
        split: option.splits if_splits)
  with save show ?thesis by blast
qed

lemma serve_frame:
  assumes "pv_db P = R" and "request_table q \<noteq> t"
  shows "contents (fst (serve P s q)) t = contents (fst s) t"
proof -
  obtain d fs where s: "s = (d, fs)" by fastforce
  have insert: "db_insert R d (request_table q) k v = Inr d' \<Longrightarrow> contents d' t = contents d t" for k v d'
    using insert_frame assms(2) by metis
  have remove: "db_remove R d (request_table q) k = Inr (d', b) \<Longrightarrow> contents d' t = contents d t" for k d' b
    using remove_frame assms(2) by metis
  show ?thesis
  proof (cases q)
    case (AttachRefs now i refs)
    then have "t \<noteq> TASKS_TABLE" using assms(2) by auto
    with AttachRefs show ?thesis
      by (auto simp: s assms(1) upsert_frame intro!: committed_fst_frame)
  next
    case (CleanupArtifacts now p)
    then have "t \<noteq> ARTIFACTS_TABLE" using assms(2) by auto
    with CleanupArtifacts show ?thesis
      by (auto simp: s assms(1) cleanup_frame split: prod.splits)
  qed (use insert remove in \<open>auto simp: s assms(1) manager_ops res_bind_eq_Inr
      intro!: committed_frame committed_fst_frame split: option.splits\<close>)
qed

end

sublocale record_tables \<subseteq> plain_tables R contents ..

section \<open>Requests to the task table\<close>

context task_tables
begin

lemma view_frame: "contents d' t = contents d t \<Longrightarrow> table_view C contents t d' = table_view C contents t d"
  by (auto simp: table_view_def)

text \<open>What a request to the task table writes: nothing, or one task under its own key.\<close>
lemma serve_task_write:
  assumes "pv_db P = R" "pv_tasks P = C" "inj (pv_uuid P)" "request_table q = TASKS_TABLE"
    and keyed: "keyed (\<lambda>t. pv_uuid P (t_id t)) (table_view C contents TASKS_TABLE d)"
  shows "table_view C contents TASKS_TABLE (fst (serve P (d, fs) q)) = table_view C contents TASKS_TABLE d
    \<or> (\<exists>t. writes_task (t_id t) q
        \<and> table_view C contents TASKS_TABLE (fst (serve P (d, fs) q)) =
            (table_view C contents TASKS_TABLE d)(pv_uuid P (t_id t) \<mapsto> t))"
proof (cases q)
  case (SaveTask t)
  then show ?thesis
    by (auto simp: assms(1,2) committed_def task_save_def dest!: put_record_view split: sum.splits)
next
  case (UpdateTask t)
  show ?thesis
  proof (cases "save_preserving_completion_fields R C (pv_uuid P) d t")
    case (Inr d')
    show ?thesis
      using save_preserving_view [OF Inr] UpdateTask Inr
      by (auto simp: assms(1,2) committed_def split: option.splits
          intro!: exI [where x = "case table_view C contents TASKS_TABLE d (pv_uuid P (t_id t)) of
            Some existing \<Rightarrow> merge_completion_fields existing t | None \<Rightarrow> t"])
  qed (simp add: UpdateTask assms(1,2) committed_def)
next
  case (AttachRefs now i refs)
  show ?thesis
  proof (cases "upsert_artifact_refs R C (pv_uuid P) d now i refs")
    case (Inr r)
    obtain d' t where r: "r = (d', t)" by fastforce
    note up = upsert_view [OF Inr [unfolded r] keyed]
    show ?thesis
    proof (cases "table_view C contents TASKS_TABLE d (pv_uuid P i)")
      case None
      with up have "table_view C contents TASKS_TABLE d' = table_view C contents TASKS_TABLE d"
        by (simp add: fun_upd_idem)
      then show ?thesis by (simp add: AttachRefs Inr r assms(1,2) committed_fst_def)
    next
      case (Some task)
      then have "pv_uuid P (t_id task) = pv_uuid P i" using keyed by (simp add: keyed_def)
      then have "t_id task = i" using assms(3) by (simp add: inj_eq)
      with Some up show ?thesis
        by (auto simp: AttachRefs Inr r assms(1,2) committed_fst_def intro!: exI [where x = "with_refs now task refs"])
    qed
  qed (simp add: AttachRefs assms(1,2) committed_fst_def)
qed (use assms(4) tables_distinct in auto)

lemma serve_task:
  assumes "pv_db P = R" "pv_tasks P = C" "inj (pv_uuid P)" "\<not> writes_task i q"
    and keyed: "keyed (\<lambda>t. pv_uuid P (t_id t)) (table_view C contents TASKS_TABLE (fst s))"
  shows "table_view C contents TASKS_TABLE (fst (serve P s q)) (pv_uuid P i) =
      table_view C contents TASKS_TABLE (fst s) (pv_uuid P i)"
    and "keyed (\<lambda>t. pv_uuid P (t_id t)) (table_view C contents TASKS_TABLE (fst (serve P s q)))"
proof -
  obtain d fs where s: "s = (d, fs)" by fastforce
  let ?v = "table_view C contents TASKS_TABLE"
  have "?v (fst (serve P s q)) = ?v d
      \<or> (\<exists>t. writes_task (t_id t) q \<and> ?v (fst (serve P s q)) = (?v d)(pv_uuid P (t_id t) \<mapsto> t))"
  proof (cases "request_table q = TASKS_TABLE")
    case False
    from view_frame [OF serve_frame [OF assms(1) False]] show ?thesis by (simp add: s)
  next
    case True
    with serve_task_write [OF assms(1-3)] keyed show ?thesis by (simp add: s)
  qed
  with assms(3,4) keyed show "?v (fst (serve P s q)) (pv_uuid P i) = ?v (fst s) (pv_uuid P i)"
    "keyed (\<lambda>t. pv_uuid P (t_id t)) (?v (fst (serve P s q)))"
    by (auto simp: s inj_eq)
qed

lemma serve_all_task:
  assumes "pv_db P = R" "pv_tasks P = C" "inj (pv_uuid P)" "\<forall>q \<in> set qs. \<not> writes_task i q"
    and "keyed (\<lambda>t. pv_uuid P (t_id t)) (table_view C contents TASKS_TABLE (fst s))"
  shows "table_view C contents TASKS_TABLE (fst (serve_all P s qs)) (pv_uuid P i) =
      table_view C contents TASKS_TABLE (fst s) (pv_uuid P i)"
  using assms(4,5)
proof (induction qs arbitrary: s)
  case (Cons q qs)
  from Cons.prems(1) have "\<not> writes_task i q" by simp
  note one = serve_task [OF assms(1-3) this Cons.prems(2)]
  from Cons.IH [OF _ one(2)] Cons.prems(1) one(1) show ?case by (simp add: serve_all_def)
qed (simp add: serve_all_def)

end

section \<open>A provider in memory\<close>

text \<open>
  One database in memory for the six managers: a stored value remembers its record type, and
  each codec refuses the values of the others, as decoding the bytes of another record would.
\<close>

datatype 'j stored =
    StSnapshot "'j agent_snapshot" | StTask "'j task_state" | StArtifact artifact_record
  | StRun run_record | StEvent "'j runtime_event_record" | StSession rstr

definition tagged :: "('a \<Rightarrow> 'b) \<Rightarrow> ('b \<Rightarrow> 'a option) \<Rightarrow> (unit, 'a, 'b) codec" where
  "tagged f g = \<lparr>to_vec = (\<lambda>x. Inr (f x)), from_slice = (\<lambda>b. case g b of Some x \<Rightarrow> Inr x | None \<Rightarrow> Inl ())\<rparr>"

definition mem_provider :: "(unit, 'j stored mem_db, 'j stored, unit, 'j) provider" where
  "mem_provider = \<lparr>pv_db = mem_tables,
     pv_snapshots = tagged StSnapshot (\<lambda>v. case v of StSnapshot x \<Rightarrow> Some x | _ \<Rightarrow> None),
     pv_tasks = tagged StTask (\<lambda>v. case v of StTask x \<Rightarrow> Some x | _ \<Rightarrow> None),
     pv_artifacts = tagged StArtifact (\<lambda>v. case v of StArtifact x \<Rightarrow> Some x | _ \<Rightarrow> None),
     pv_runs = tagged StRun (\<lambda>v. case v of StRun x \<Rightarrow> Some x | _ \<Rightarrow> None),
     pv_events = tagged StEvent (\<lambda>v. case v of StEvent x \<Rightarrow> Some x | _ \<Rightarrow> None),
     pv_sessions = tagged StSession (\<lambda>v. case v of StSession x \<Rightarrow> Some x | _ \<Rightarrow> None),
     pv_uuid = uuid_fixed, pv_stamp = show_nat \<circ> nat, pv_files = sample_files, pv_durations = sample_durations\<rparr>"

lemma mem_provider_sel:
  "pv_db mem_provider = mem_tables" "pv_uuid mem_provider = uuid_fixed"
  "from_slice (pv_tasks mem_provider) (StTask x) = Inr x" "to_vec (pv_tasks mem_provider) x = Inr (StTask x)"
  by (simp_all add: mem_provider_def tagged_def)

interpretation mem_provided: task_tables "mem_tables :: (unit, 'j stored mem_db, 'j stored) redb" mem_contents
  "pv_tasks mem_provider"
proof -
  have "ordered_tables (mem_tables :: (unit, 'j stored mem_db, 'j stored) redb) mem_contents"
    by unfold_locales
  moreover have "json_codec (pv_tasks (mem_provider :: (unit, 'j stored mem_db, 'j stored, unit, 'j) provider))"
    by unfold_locales (auto simp: mem_provider_def tagged_def)
  ultimately show "task_tables (mem_tables :: (unit, 'j stored mem_db, 'j stored) redb) mem_contents (pv_tasks mem_provider)"
    by (simp add: task_tables_def record_tables_def)
qed

lemma mem_provided_load:
  "table_view (pv_tasks mem_provider) mem_contents TASKS_TABLE d k = Some x \<Longrightarrow>
     task_load mem_tables (pv_tasks mem_provider) d k = Inr (Some x)"
  by (auto simp: mem_provided.table_view_Some task_load_def get_record_def mem_fields mem_contents_def)

end
