(* ===== verification/Circuit_Breaker.thy ===== *)
theory Circuit_Breaker
  imports Prelude
begin

text \<open>
  The resilient provider of the crate \<^verbatim>\<open>brain\<close> (\<^verbatim>\<open>agent/provider/resilient.rs\<close>): a circuit
  breaker in front of a primary provider with a fallback. The providers are arguments: an
  attempt of the primary under the timeout is an \<open>attempt\<close>, its error text and the debug
  print of a duration are given by functions. Each of \<^verbatim>\<open>check_state\<close>, \<^verbatim>\<open>report_success\<close> and
  \<^verbatim>\<open>report_failure\<close> holds the mutex for its whole body, so concurrent requests interleave at
  these three operations: \<open>cb_step\<close> is that system.
\<close>

section \<open>State\<close>

record provider_route_decision =
  rd_route :: rstr
  rd_state :: rstr
  rd_provider :: rstr
  rd_fallback_provider :: "rstr option"
  rd_reason :: rstr

record circuit_breaker_config =
  failure_threshold :: u32
  reset_timeout :: time
  request_timeout :: time

definition secs :: "int \<Rightarrow> time" where
  "secs n = n * 1000000000"

definition default_circuit_breaker_config :: circuit_breaker_config where
  "default_circuit_breaker_config = \<lparr>failure_threshold = 3, reset_timeout = secs 60, request_timeout = secs 30\<rparr>"

datatype circuit_state = Closed | Open | HalfOpen

record circuit_state_internal =
  cb_state :: circuit_state
  cb_failures :: u32
  cb_last_failure_time :: "time option"

definition circuit_new :: circuit_state_internal where
  "circuit_new = \<lparr>cb_state = Closed, cb_failures = 0, cb_last_failure_time = None\<rparr>"

section \<open>Operations under the mutex\<close>

text \<open>\<^verbatim>\<open>Instant::elapsed\<close> is zero when the clock is behind.\<close>
definition elapsed :: "time \<Rightarrow> time \<Rightarrow> time" where
  "elapsed now t = max 0 (now - t)"

definition check_state :: "circuit_breaker_config \<Rightarrow> time \<Rightarrow> circuit_state_internal \<Rightarrow> circuit_state \<times> circuit_state_internal" where
  "check_state cfg now r =
     (case cb_state r of
        Open \<Rightarrow> (case cb_last_failure_time r of
            Some last_failure \<Rightarrow>
              if elapsed now last_failure > reset_timeout cfg then (HalfOpen, r\<lparr>cb_state := HalfOpen\<rparr>) else (Open, r)
          | None \<Rightarrow> (Open, r))
      | st \<Rightarrow> (st, r))"

definition report_success :: "circuit_state_internal \<Rightarrow> circuit_state_internal" where
  "report_success r =
     (if cb_state r = HalfOpen then r\<lparr>cb_state := Closed, cb_failures := 0, cb_last_failure_time := None\<rparr>
      else if cb_state r = Closed then r\<lparr>cb_failures := 0\<rparr>
      else r)"

definition report_failure :: "circuit_breaker_config \<Rightarrow> time \<Rightarrow> circuit_state_internal \<Rightarrow> circuit_state_internal" where
  "report_failure cfg now r =
     (let r' = r\<lparr>cb_failures := cb_failures r + 1, cb_last_failure_time := Some now\<rparr>
      in if cb_state r' = Closed \<and> cb_failures r' \<ge> failure_threshold cfg then r'\<lparr>cb_state := Open\<rparr>
         else if cb_state r' = HalfOpen then r'\<lparr>cb_state := Open\<rparr>
         else r')"

section \<open>A request\<close>

datatype ('x, 'r) attempt = Response 'r | Error 'x | TimedOut

record 'x resilient =
  rs_primary_name :: rstr
  rs_fallback_name :: rstr
  rs_show_error :: "'x \<Rightarrow> rstr"
  rs_show_duration :: "time \<Rightarrow> rstr"

fun state_label :: "circuit_state \<Rightarrow> rstr" where
  "state_label Closed = lit ''closed''"
| "state_label Open = lit ''open''"
| "state_label HalfOpen = lit ''halfopen''"

definition emit_route_decision :: "'x resilient \<Rightarrow> rstr \<Rightarrow> circuit_state \<Rightarrow> rstr \<Rightarrow> rstr \<Rightarrow> provider_route_decision" where
  "emit_route_decision P route st provider reason =
     \<lparr>rd_route = route, rd_state = state_label st, rd_provider = provider,
      rd_fallback_provider = Some (rs_fallback_name P), rd_reason = reason\<rparr>"

text \<open>
  \<^verbatim>\<open>stream_completion\<close> of one request: \<open>t0\<close> is the time of the check, \<open>t1\<close> that of the report;
  \<open>primary\<close> is what the primary does if it is called. The result has the breaker, the
  decisions shown to the observer, whether the primary was called, and the answer.
\<close>
definition stream_completion ::
  "circuit_breaker_config \<Rightarrow> 'x resilient \<Rightarrow> time \<Rightarrow> time \<Rightarrow> ('x, 'r) attempt \<Rightarrow> 'x + 'r \<Rightarrow> circuit_state_internal \<Rightarrow>
   circuit_state_internal \<times> provider_route_decision list \<times> bool \<times> ('x + 'r)" where
  "stream_completion cfg P t0 t1 primary fallback r =
     (let (st, r1) = check_state cfg t0 r;
          selected = emit_route_decision P (lit ''primary'') st (rs_primary_name P) (lit ''primary path selected'');
          fall = emit_route_decision P (lit ''fallback'') st (rs_fallback_name P) (lit ''fallback path activated'')
      in if st \<noteq> Open
         then case primary of
             Response x \<Rightarrow> (report_success r1, [selected], True, Inr x)
           | Error e \<Rightarrow> (report_failure cfg t1 r1,
               [selected, emit_route_decision P (lit ''fallback'') st (rs_primary_name P) (lit ''primary error: '' @ rs_show_error P e), fall],
               True, fallback)
           | TimedOut \<Rightarrow> (report_failure cfg t1 r1,
               [selected, emit_route_decision P (lit ''fallback'') st (rs_primary_name P)
                  (lit ''primary timeout > '' @ rs_show_duration P (request_timeout cfg)), fall],
               True, fallback)
         else (r1, [fall], False, fallback))"

text \<open>
  \<^verbatim>\<open>get_dynamic_metadata\<close>, with the capability lists of the two providers; it checks the
  breaker but reports nothing to it.
\<close>
definition fallback_enabled :: rstr where "fallback_enabled = lit ''runtime:fallback-enabled''"
definition resilient_provider :: rstr where "resilient_provider = lit ''runtime:resilient-provider''"

definition dynamic_capabilities ::
  "circuit_breaker_config \<Rightarrow> 'x resilient \<Rightarrow> time \<Rightarrow> 'x + rstr list \<Rightarrow> 'x + rstr list \<Rightarrow> circuit_state_internal \<Rightarrow>
   circuit_state_internal \<times> ('x + rstr list)" where
  "dynamic_capabilities cfg P now primary fallback r =
     (let (st, r1) = check_state cfg now r;
          mark = (\<lambda>caps. caps @ [fallback_enabled, lit ''runtime:fallback-provider:'' @ rs_fallback_name P, resilient_provider]);
          from_fallback = (r1, res_bind fallback (\<lambda>caps. Inr (mark caps)))
      in if st \<noteq> Open
         then case primary of Inr caps \<Rightarrow> (r1, Inr (mark caps)) | Inl _ \<Rightarrow> from_fallback
         else from_fallback)"

definition static_capabilities :: "rstr list \<Rightarrow> rstr list" where
  "static_capabilities caps = caps @ [fallback_enabled, resilient_provider]"

section \<open>Concurrent requests\<close>

text \<open>The breaker, the time, and the number of requests that are with the primary now.\<close>
record cb_system =
  sys_breaker :: circuit_state_internal
  sys_now :: time
  sys_inflight :: nat

inductive cb_step :: "circuit_breaker_config \<Rightarrow> cb_system \<Rightarrow> cb_system \<Rightarrow> bool" for cfg where
  tick: "sys_now s \<le> t \<Longrightarrow> cb_step cfg s (s\<lparr>sys_now := t\<rparr>)"
| admit: "check_state cfg (sys_now s) (sys_breaker s) = (st, r) \<Longrightarrow> st \<noteq> Open \<Longrightarrow>
    cb_step cfg s (s\<lparr>sys_breaker := r, sys_inflight := sys_inflight s + 1\<rparr>)"
| divert: "check_state cfg (sys_now s) (sys_breaker s) = (st, r) \<Longrightarrow> cb_step cfg s (s\<lparr>sys_breaker := r\<rparr>)"
| succeed: "0 < sys_inflight s \<Longrightarrow>
    cb_step cfg s (s\<lparr>sys_breaker := report_success (sys_breaker s), sys_inflight := sys_inflight s - 1\<rparr>)"
| fail: "0 < sys_inflight s \<Longrightarrow>
    cb_step cfg s (s\<lparr>sys_breaker := report_failure cfg (sys_now s) (sys_breaker s), sys_inflight := sys_inflight s - 1\<rparr>)"

definition cb_start :: "time \<Rightarrow> cb_system" where
  "cb_start t = \<lparr>sys_breaker = circuit_new, sys_now = t, sys_inflight = 0\<rparr>"

definition cb_reach :: "circuit_breaker_config \<Rightarrow> time \<Rightarrow> cb_system \<Rightarrow> bool" where
  "cb_reach cfg t s \<longleftrightarrow> (cb_step cfg)\<^sup>*\<^sup>* (cb_start t) s"

inductive_cases cb_step_cases: "cb_step cfg s s'"

section \<open>The invariant\<close>

definition breaker_inv :: "circuit_breaker_config \<Rightarrow> time \<Rightarrow> circuit_state_internal \<Rightarrow> bool" where
  "breaker_inv cfg now r \<longleftrightarrow>
     (cb_state r = Closed \<longrightarrow> cb_failures r < failure_threshold cfg)
     \<and> (cb_state r \<noteq> Closed \<longrightarrow> cb_last_failure_time r \<noteq> None)
     \<and> (\<forall>t. cb_last_failure_time r = Some t \<longrightarrow> t \<le> now)"

lemma breaker_inv_mono: "breaker_inv cfg now r \<Longrightarrow> now \<le> now' \<Longrightarrow> breaker_inv cfg now' r"
  by (fastforce simp: breaker_inv_def)

lemma breaker_inv_new: "0 < failure_threshold cfg \<Longrightarrow> breaker_inv cfg now circuit_new"
  by (simp add: breaker_inv_def circuit_new_def)

lemma breaker_inv_check: "breaker_inv cfg now r \<Longrightarrow> check_state cfg now r = (st, r') \<Longrightarrow> breaker_inv cfg now r' \<and> st = cb_state r'"
  by (auto simp: breaker_inv_def check_state_def split: circuit_state.splits option.splits if_splits)

lemma breaker_inv_success: "0 < failure_threshold cfg \<Longrightarrow> breaker_inv cfg now r \<Longrightarrow> breaker_inv cfg now (report_success r)"
  by (auto simp: breaker_inv_def report_success_def)

lemma breaker_inv_failure: "breaker_inv cfg now r \<Longrightarrow> breaker_inv cfg now (report_failure cfg now r)"
  by (auto simp: breaker_inv_def report_failure_def Let_def)

lemma cb_step_inv:
  "cb_step cfg s s' \<Longrightarrow> 0 < failure_threshold cfg \<Longrightarrow> breaker_inv cfg (sys_now s) (sys_breaker s) \<Longrightarrow>
     breaker_inv cfg (sys_now s') (sys_breaker s')"
  by (erule cb_step_cases) (auto intro: breaker_inv_mono breaker_inv_success breaker_inv_failure dest: breaker_inv_check)

lemma cb_reach_inv:
  assumes "0 < failure_threshold cfg" and "cb_reach cfg t s"
  shows "breaker_inv cfg (sys_now s) (sys_breaker s)"
  using assms(2) unfolding cb_reach_def
proof (induction rule: rtranclp_induct)
  case base
  show ?case using breaker_inv_new [OF assms(1)] by (simp add: cb_start_def)
next
  case (step s s')
  then show ?case using cb_step_inv assms(1) by blast
qed

section \<open>Sequences of requests\<close>

text \<open>Requests whose primary fails, one after the other; their times are given.\<close>
fun failing_requests :: "circuit_breaker_config \<Rightarrow> 'x resilient \<Rightarrow> 'x + 'r \<Rightarrow> (time \<times> time \<times> 'x) list \<Rightarrow>
  circuit_state_internal \<Rightarrow> circuit_state_internal" where
  "failing_requests cfg P fb [] r = r"
| "failing_requests cfg P fb ((t0, t1, e) # rs) r =
     failing_requests cfg P fb rs (fst (stream_completion cfg P t0 t1 (Error e) fb r))"

lemma report_failure_below:
  "cb_state r = Closed \<Longrightarrow> \<not> failure_threshold cfg \<le> cb_failures r + 1 \<Longrightarrow>
     report_failure cfg t r = r\<lparr>cb_failures := cb_failures r + 1, cb_last_failure_time := Some t\<rparr>"
  by (simp add: report_failure_def)

lemma report_failure_reached:
  "cb_state r = Closed \<Longrightarrow> failure_threshold cfg \<le> cb_failures r + 1 \<Longrightarrow>
     report_failure cfg t r = r\<lparr>cb_state := Open, cb_failures := cb_failures r + 1, cb_last_failure_time := Some t\<rparr>"
  by (simp add: report_failure_def)

lemma closed_failure:
  assumes "cb_state r = Closed"
  shows "fst (stream_completion cfg P t0 t1 (Error e) fb r) = report_failure cfg t1 r"
  using assms by (simp add: stream_completion_def check_state_def)

lemma failing_requests_closed:
  assumes "cb_state r = Closed" and "unat (cb_failures r) + length rs < unat (failure_threshold cfg)"
  shows "cb_state (failing_requests cfg P fb rs r) = Closed
    \<and> unat (cb_failures (failing_requests cfg P fb rs r)) = unat (cb_failures r) + length rs"
  using assms
proof (induction rs arbitrary: r)
  case (Cons x rs)
  obtain t0 t1 e where x: "x = (t0, t1, e)" by (cases x) auto
  have lt: "unat (cb_failures r) + 1 < unat (failure_threshold cfg)" using Cons.prems(2) by simp
  then have u: "unat (cb_failures r + 1) = unat (cb_failures r) + 1"
    by (intro unat_plus_one [of _ "failure_threshold cfg"]) simp
  then have "\<not> failure_threshold cfg \<le> cb_failures r + 1" using lt by (simp add: word_le_nat_alt)
  then have r': "report_failure cfg t1 r = r\<lparr>cb_failures := cb_failures r + 1, cb_last_failure_time := Some t1\<rparr>"
    using Cons.prems(1) by (simp add: report_failure_below)
  show ?case
    using Cons.IH [of "report_failure cfg t1 r"] Cons.prems u
    by (simp add: x closed_failure r')
qed simp

lemma failing_requests_append:
  "failing_requests cfg P fb (rs @ [(t0, t1, e)]) r =
     fst (stream_completion cfg P t0 t1 (Error e) fb (failing_requests cfg P fb rs r))"
  by (induction rs arbitrary: r) auto

lemma open_waits:
  "cb_state r = Open \<Longrightarrow> cb_last_failure_time r = Some t1 \<Longrightarrow> elapsed t t1 \<le> reset_timeout cfg \<Longrightarrow> check_state cfg t r = (Open, r)"
  by (simp add: check_state_def)

lemma open_probes:
  "cb_state r = Open \<Longrightarrow> cb_last_failure_time r = Some t1 \<Longrightarrow> elapsed t t1 > reset_timeout cfg \<Longrightarrow>
     check_state cfg t r = (HalfOpen, r\<lparr>cb_state := HalfOpen\<rparr>)"
  by (simp add: check_state_def)

text \<open>Requests that fail one after the other drive the system into the open state.\<close>

lemma closed_failure_count:
  assumes "k < unat (failure_threshold cfg)"
  shows "cb_state ((report_failure cfg t ^^ k) circuit_new) = Closed
    \<and> unat (cb_failures ((report_failure cfg t ^^ k) circuit_new)) = k"
  using assms
proof (induction k)
  case (Suc k)
  let ?r = "(report_failure cfg t ^^ k) circuit_new"
  have k: "cb_state ?r = Closed" "unat (cb_failures ?r) = k" using Suc by simp_all
  then have u: "unat (cb_failures ?r + 1) = Suc k"
    using unat_plus_one [of "cb_failures ?r" "failure_threshold cfg"] Suc.prems by simp
  then have "\<not> failure_threshold cfg \<le> cb_failures ?r + 1" using Suc.prems by (simp add: word_le_nat_alt)
  then show ?case using k u by (simp add: report_failure_below)
qed (simp add: circuit_new_def)

lemma failing_request_steps:
  assumes "cb_state r = Closed"
  shows "(cb_step cfg)\<^sup>*\<^sup>* \<lparr>sys_breaker = r, sys_now = t, sys_inflight = 0\<rparr>
    \<lparr>sys_breaker = report_failure cfg t r, sys_now = t, sys_inflight = 0\<rparr>"
proof -
  have "cb_step cfg \<lparr>sys_breaker = r, sys_now = t, sys_inflight = 0\<rparr> \<lparr>sys_breaker = r, sys_now = t, sys_inflight = 1\<rparr>"
    using admit [of cfg "\<lparr>sys_breaker = r, sys_now = t, sys_inflight = 0\<rparr>"] assms by (simp add: check_state_def)
  moreover have "cb_step cfg \<lparr>sys_breaker = r, sys_now = t, sys_inflight = 1\<rparr>
      \<lparr>sys_breaker = report_failure cfg t r, sys_now = t, sys_inflight = 0\<rparr>"
    using fail [of "\<lparr>sys_breaker = r, sys_now = t, sys_inflight = 1\<rparr>" cfg] by simp
  ultimately show ?thesis by (meson converse_rtranclp_into_rtranclp rtranclp.rtrancl_refl)
qed

lemma cb_reach_failures:
  "k \<le> unat (failure_threshold cfg) \<Longrightarrow>
     cb_reach cfg t \<lparr>sys_breaker = (report_failure cfg t ^^ k) circuit_new, sys_now = t, sys_inflight = 0\<rparr>"
proof (induction k)
  case (Suc k)
  then have "cb_state ((report_failure cfg t ^^ k) circuit_new) = Closed" using closed_failure_count by simp
  from failing_request_steps [OF this, of cfg t] Suc show ?case by (simp add: cb_reach_def)
qed (simp add: cb_reach_def cb_start_def)

lemma cb_reach_open:
  assumes "0 < failure_threshold cfg"
  shows "\<exists>r. cb_reach cfg t \<lparr>sys_breaker = r, sys_now = t, sys_inflight = 0\<rparr> \<and> cb_state r = Open"
proof -
  obtain k where k: "unat (failure_threshold cfg) = Suc k"
    using assms by (metis gr0_implies_Suc unat_gt_0 word_neq_0_conv)
  let ?r = "(report_failure cfg t ^^ k) circuit_new"
  have c: "cb_state ?r = Closed" "unat (cb_failures ?r) = k" using closed_failure_count [of k cfg t] k by simp_all
  then have "unat (cb_failures ?r + 1) = Suc k"
    using unat_plus_one [of "cb_failures ?r" "failure_threshold cfg"] k by simp
  then have "failure_threshold cfg \<le> cb_failures ?r + 1" using k by (simp add: word_le_nat_alt)
  then have "cb_state (report_failure cfg t ?r) = Open" using c(1) by (simp add: report_failure_reached)
  then show ?thesis using cb_reach_failures [of "Suc k" cfg t] k by auto
qed

section \<open>Properties\<close>

definition sample_resilient :: "nat resilient" where
  "sample_resilient = \<lparr>rs_primary_name = lit ''p'', rs_fallback_name = lit ''f'', rs_show_error = show_nat,
     rs_show_duration = (\<lambda>_. [])\<rparr>"

text \<open>
  C21. The breaker under concurrency. However many requests interleave, with a positive
  threshold a closed circuit has fewer failures than the threshold, and a circuit that is
  not closed knows the time of its last failure, so that it can recover.
\<close>
theorem breaker_invariant_reachable:
  assumes "0 < failure_threshold cfg" and "cb_reach cfg t s"
  shows "(cb_state (sys_breaker s) = Closed \<longrightarrow> cb_failures (sys_breaker s) < failure_threshold cfg)
    \<and> (cb_state (sys_breaker s) \<noteq> Closed \<longrightarrow> (\<exists>t0. cb_last_failure_time (sys_breaker s) = Some t0 \<and> t0 \<le> sys_now s))"
  using cb_reach_inv [OF assms] by (auto simp: breaker_inv_def)

theorem breaker_invariant_reachable_witness:
  "cb_failures (sys_breaker (cb_start 0)) < failure_threshold default_circuit_breaker_config"
proof -
  have "cb_reach default_circuit_breaker_config 0 (cb_start 0)" by (simp add: cb_reach_def)
  moreover have "0 < failure_threshold default_circuit_breaker_config"
    by (simp add: default_circuit_breaker_config_def)
  ultimately show ?thesis
    using breaker_invariant_reachable [of default_circuit_breaker_config 0 "cb_start 0"]
    by (simp add: cb_start_def circuit_new_def)
qed



text \<open>
  Recovery. Once the reset timeout has passed since the last failure, the next request
  calls the primary again: its success closes the circuit and forgets all failures, its
  failure or timeout opens the circuit again with the new failure time and answers from the
  fallback.
\<close>
theorem circuit_recovers_by_probe:
  assumes "cb_state r = Open" and "cb_last_failure_time r = Some t1" and "elapsed t t1 > reset_timeout cfg"
  shows "case stream_completion cfg P t t' primary fb r of (r', decisions, called, answer) \<Rightarrow>
      called \<and> (case primary of
          Response x \<Rightarrow> r' = circuit_new \<and> answer = Inr x
        | _ \<Rightarrow> cb_state r' = Open \<and> cb_last_failure_time r' = Some t' \<and> answer = fb)"
  using open_probes [OF assms]
  by (simp add: stream_completion_def report_success_def report_failure_def circuit_new_def Let_def
      split: attempt.splits)

theorem circuit_recovers_by_probe_witness:
  "fst (stream_completion default_circuit_breaker_config sample_resilient (secs 61) (secs 62) (Response (4 :: nat)) (Inr 0)
     \<lparr>cb_state = Open, cb_failures = 3, cb_last_failure_time = Some 0\<rparr>) = circuit_new"
  using circuit_recovers_by_probe [where r = "\<lparr>cb_state = Open, cb_failures = 3, cb_last_failure_time = Some 0\<rparr>"
      and ?t1.0 = 0 and cfg = default_circuit_breaker_config and t = "secs 61" and P = sample_resilient
      and t' = "secs 62" and primary = "Response (4 :: nat)" and fb = "Inr 0"]
  by (simp add: default_circuit_breaker_config_def secs_def elapsed_def split: prod.splits)

text \<open>
  Half-open is not one request. A comment at the routing decision says that a
  half-open circuit tries one request; the state is left half-open until a report arrives,
  so any number of concurrent requests can be with the primary at the same time.
\<close>
theorem half_open_admits_many:
  assumes "0 < failure_threshold cfg"
  shows "\<exists>s. cb_reach cfg t s \<and> cb_state (sys_breaker s) = HalfOpen \<and> sys_inflight s = n"
proof -
  obtain r where r: "cb_reach cfg t \<lparr>sys_breaker = r, sys_now = t, sys_inflight = 0\<rparr>" "cb_state r = Open"
    using cb_reach_open [OF assms] by blast
  obtain t1 where t1: "cb_last_failure_time r = Some t1" "t1 \<le> t"
    using cb_reach_inv [OF assms r(1)] r(2) by (auto simp: breaker_inv_def)
  let ?t = "t + max 0 (reset_timeout cfg) + 1"
  let ?s = "\<lambda>k. \<lparr>sys_breaker = r\<lparr>cb_state := HalfOpen\<rparr>, sys_now = ?t, sys_inflight = k\<rparr>"
  have wait: "cb_step cfg \<lparr>sys_breaker = r, sys_now = t, sys_inflight = 0\<rparr> \<lparr>sys_breaker = r, sys_now = ?t, sys_inflight = 0\<rparr>"
    using tick [of "\<lparr>sys_breaker = r, sys_now = t, sys_inflight = 0\<rparr>" ?t cfg] by simp
  have "check_state cfg ?t r = (HalfOpen, r\<lparr>cb_state := HalfOpen\<rparr>)"
    using t1 r(2) by (intro open_probes) (auto simp: elapsed_def)
  then have check: "cb_step cfg \<lparr>sys_breaker = r, sys_now = ?t, sys_inflight = 0\<rparr> (?s 0)"
    using divert [of cfg "\<lparr>sys_breaker = r, sys_now = ?t, sys_inflight = 0\<rparr>"] by simp
  have more: "cb_step cfg (?s k) (?s (Suc k))" for k
    using admit [of cfg "?s k"] by (simp add: check_state_def)
  have "cb_reach cfg t (?s n)"
  proof (induction n)
    case 0
    show ?case using r(1) wait check unfolding cb_reach_def by (meson rtranclp.rtrancl_into_rtrancl)
  next
    case (Suc n)
    then show ?case using more [of n] unfolding cb_reach_def by (rule rtranclp.rtrancl_into_rtrancl)
  qed
  then show ?thesis by (intro exI [of _ "?s n"]) simp
qed

theorem half_open_admits_many_witness:
  "\<exists>s. cb_reach default_circuit_breaker_config 0 s \<and> cb_state (sys_breaker s) = HalfOpen \<and> sys_inflight s = 2"
proof -
  have "0 < failure_threshold default_circuit_breaker_config" by (simp add: default_circuit_breaker_config_def)
  then show ?thesis by (rule half_open_admits_many)
qed

end
