(* ===== verification/Retry_Provider.thy ===== *)
theory Retry_Provider
  imports Prelude
begin

text \<open>
  The retry wrapper of the crate \<^verbatim>\<open>providers\<close> (\<^verbatim>\<open>retry.rs\<close>) over the error type of the crate
  \<^verbatim>\<open>infra\<close> (\<^verbatim>\<open>error.rs\<close>). The wrapped provider is a function from the number of a call to its
  answer; \<^verbatim>\<open>f64::powi\<close>, whose precision Rust leaves open, is the argument \<open>pw\<close>
  (\<open>None\<close> is infinity).
\<close>

section \<open>Errors\<close>

text \<open>\<open>'f\<close> stands for the errors of other crates that are wrapped unchanged.\<close>
datatype 'f error =
    Config rstr | Auth rstr | ProviderAuth rstr | ProviderApi rstr | ProviderError rstr
  | StreamInterrupted rstr | Internal rstr | NotFound rstr | Agent rstr | Security rstr
  | ToolExecution rstr rstr | ToolNotFound rstr | ToolArguments rstr rstr | Validation rstr
  | Http 'f | Json 'f | Io 'f | Other rstr

section \<open>Configuration and delays\<close>

record retry_config =
  max_retries :: u32
  base_delay_ms :: u64
  max_delay_ms :: u64
  jitter_factor :: rat

definition default_retry_config :: retry_config where
  "default_retry_config = \<lparr>max_retries = 3, base_delay_ms = 500, max_delay_ms = 30000, jitter_factor = f64_round (1 / 5)\<rparr>"

definition with_max_retries :: "retry_config \<Rightarrow> u32 \<Rightarrow> retry_config" where
  "with_max_retries c n = c\<lparr>max_retries := n\<rparr>"

definition with_base_delay_ms :: "retry_config \<Rightarrow> u64 \<Rightarrow> retry_config" where
  "with_base_delay_ms c ms = c\<lparr>base_delay_ms := ms\<rparr>"

definition with_max_delay_ms :: "retry_config \<Rightarrow> u64 \<Rightarrow> retry_config" where
  "with_max_delay_ms c ms = c\<lparr>max_delay_ms := ms\<rparr>"

definition u64_to_f64 :: "u64 \<Rightarrow> rat" where
  "u64_to_f64 w = f64_round (of_nat (unat w))"

definition f64_to_u64 :: "rat \<Rightarrow> u64" where
  "f64_to_u64 x = of_nat (min (nat \<lfloor>x\<rfloor>) (2 ^ 64 - 1))"

definition rand_simple :: "u32 \<Rightarrow> rat" where
  "rand_simple seed = (let x = seed * 2654435761 in f64_round (of_nat (unat x mod 1000) / 1000))"

text \<open>
  The delay in milliseconds. An infinite power gives an infinite product, or NaN when the
  base is zero; \<^verbatim>\<open>min\<close> with the cap answers the cap in both cases.
\<close>
definition delay_for_attempt :: "(int \<Rightarrow> rat option) \<Rightarrow> retry_config \<Rightarrow> u32 \<Rightarrow> u64" where
  "delay_for_attempt pw c attempt =
     (let cap = u64_to_f64 (max_delay_ms c);
          capped = (case pw (sint attempt) of
              Some p \<Rightarrow> min (f64_round (u64_to_f64 (base_delay_ms c) * p)) cap
            | None \<Rightarrow> cap);
          jitter = f64_round (capped * jitter_factor c);
          actual = f64_round (capped + f64_round (rand_simple attempt * jitter))
      in f64_to_u64 actual)"

section \<open>The loop\<close>

definition transient_markers :: "rstr list" where
  "transient_markers = map lit [''429'', ''500'', ''502'', ''503'', ''529'', ''rate limit'', ''overloaded'',
     ''timeout'', ''temporarily'']"

fun is_retryable :: "unicode \<Rightarrow> 'f error \<Rightarrow> bool" where
  "is_retryable U (Http _) \<longleftrightarrow> True"
| "is_retryable U (ProviderApi msg) \<longleftrightarrow> contains_any (u_lower U msg) transient_markers"
| "is_retryable U (ProviderAuth _) \<longleftrightarrow> False"
| "is_retryable U (StreamInterrupted _) \<longleftrightarrow> True"
| "is_retryable U _ \<longleftrightarrow> False"

text \<open>The loop over \<^verbatim>\<open>0..=max_retries\<close>: the answer, the calls made and the delays slept.\<close>
fun retry_loop :: "unicode \<Rightarrow> (int \<Rightarrow> rat option) \<Rightarrow> retry_config \<Rightarrow> (nat \<Rightarrow> 'f error + 'r) \<Rightarrow> nat list \<Rightarrow>
  'f error option \<Rightarrow> nat \<Rightarrow> u64 list \<Rightarrow> ('f error + 'r) \<times> nat \<times> u64 list" where
  "retry_loop U pw c inner [] last_error calls delays =
     (Inl (case last_error of Some e \<Rightarrow> e | None \<Rightarrow> Internal (lit ''All retry attempts exhausted'')), calls, delays)"
| "retry_loop U pw c inner (attempt # attempts) last_error calls delays =
     (let delays' = (if attempt > 0 then delays @ [delay_for_attempt pw c (of_nat (attempt - 1))] else delays)
      in case inner attempt of
           Inr response \<Rightarrow> (Inr response, calls + 1, delays')
         | Inl e \<Rightarrow>
             if is_retryable U e \<and> attempt < unat (max_retries c)
             then retry_loop U pw c inner attempts (Some e) (calls + 1) delays'
             else (Inl e, calls + 1, delays'))"

definition retry_stream_completion :: "unicode \<Rightarrow> (int \<Rightarrow> rat option) \<Rightarrow> retry_config \<Rightarrow> (nat \<Rightarrow> 'f error + 'r) \<Rightarrow>
  ('f error + 'r) \<times> nat \<times> u64 list" where
  "retry_stream_completion U pw c inner = retry_loop U pw c inner [0..<unat (max_retries c) + 1] None 0 []"

section \<open>Lemmas\<close>

text \<open>A call after which the loop stops.\<close>
definition stops :: "unicode \<Rightarrow> retry_config \<Rightarrow> (nat \<Rightarrow> 'f error + 'r) \<Rightarrow> nat \<Rightarrow> bool" where
  "stops U c inner n \<longleftrightarrow> \<not> (\<exists>e. inner n = Inl e \<and> is_retryable U e \<and> n < unat (max_retries c))"

definition slept :: "(int \<Rightarrow> rat option) \<Rightarrow> retry_config \<Rightarrow> nat \<Rightarrow> u64 list \<Rightarrow> u64 list" where
  "slept pw c k delays = (if k > 0 then delays @ [delay_for_attempt pw c (of_nat (k - 1))] else delays)"

lemma slept_all:
  "slept pw c k (map (\<lambda>i. delay_for_attempt pw c (of_nat i)) [0..<k - 1])
     = map (\<lambda>i. delay_for_attempt pw c (of_nat i)) [0..<k]"
  by (cases k) (simp_all add: slept_def)

lemma retry_loop_Cons:
  "retry_loop U pw c inner (k # ks) le0 n delays =
     (if stops U c inner k then (inner k, n + 1, slept pw c k delays)
      else retry_loop U pw c inner ks (Some (projl (inner k))) (n + 1) (slept pw c k delays))"
  by (cases "inner k") (auto simp: stops_def slept_def Let_def)

lemma stops_last: "stops U c inner (unat (max_retries c))"
  by (simp add: stops_def)

lemma retry_loop_spec:
  assumes "k \<le> unat (max_retries c)"
  shows "\<exists>n. k \<le> n \<and> n \<le> unat (max_retries c) \<and> stops U c inner n \<and> (\<forall>i. k \<le> i \<and> i < n \<longrightarrow> \<not> stops U c inner i)
    \<and> retry_loop U pw c inner [k..<unat (max_retries c) + 1] le0 k
         (map (\<lambda>i. delay_for_attempt pw c (of_nat i)) [0..<k - 1])
       = (inner n, n + 1, map (\<lambda>i. delay_for_attempt pw c (of_nat i)) [0..<n])"
  using assms
proof (induction "unat (max_retries c) - k" arbitrary: k le0)
  case 0
  then have k: "k = unat (max_retries c)" by simp
  show ?case
    using stops_last [of U c inner] unfolding k
    by (intro exI [of _ "unat (max_retries c)"]) (auto simp: retry_loop_Cons slept_all [unfolded One_nat_def] simp del: retry_loop.simps)
next
  case (Suc m)
  let ?f = "\<lambda>i. delay_for_attempt pw c (of_nat i)"
  from Suc have k: "k < unat (max_retries c)" and m: "m = unat (max_retries c) - Suc k" by simp_all
  have list: "[k..<unat (max_retries c) + 1] = k # [Suc k..<unat (max_retries c) + 1]"
    using k by (simp add: upt_conv_Cons)
  show ?case
  proof (cases "stops U c inner k")
    case True
    with k show ?thesis unfolding list by (intro exI [of _ k]) (auto simp: retry_loop_Cons slept_all [unfolded One_nat_def] simp del: retry_loop.simps)
  next
    case False
    from Suc.hyps(1) [OF m, of "Some (projl (inner k))"] k obtain n where
      n: "Suc k \<le> n" "n \<le> unat (max_retries c)" "stops U c inner n" "\<forall>i. Suc k \<le> i \<and> i < n \<longrightarrow> \<not> stops U c inner i"
      "retry_loop U pw c inner [Suc k..<unat (max_retries c) + 1] (Some (projl (inner k))) (Suc k) (map ?f [0..<k])
        = (inner n, n + 1, map ?f [0..<n])" by auto
    have "\<not> stops U c inner i" if "k \<le> i" "i < n" for i
      using that False n(4) by (cases "i = k") auto
    moreover have "retry_loop U pw c inner [k..<unat (max_retries c) + 1] le0 k (map ?f [0..<k - 1])
        = (inner n, n + 1, map ?f [0..<n])"
      unfolding list retry_loop_Cons slept_all using False n(5) by simp
    ultimately show ?thesis using n(1-3) by (intro exI [of _ n]) simp
  qed
qed

lemma rand_simple_bounds: "0 \<le> rand_simple s" "rand_simple s \<le> 1"
proof -
  have "of_nat (unat (s * 2654435761) mod 1000) \<le> (of_nat 1000 :: rat)"
    by (rule of_nat_mono) (simp add: less_imp_le)
  then have "of_nat (unat (s * 2654435761) mod 1000) / 1000 \<le> (1 :: rat)" by (simp add: divide_le_eq)
  then show "0 \<le> rand_simple s" "rand_simple s \<le> 1"
    unfolding rand_simple_def Let_def by (simp_all add: f64_round_nonneg f64_round_le_1)
qed

lemma u64_to_f64_default: "u64_to_f64 30000 = 30000"
proof -
  have "f64_round 30000 = 30000" by code_simp
  then show ?thesis by (simp add: u64_to_f64_def)
qed

lemma f64_to_u64_le:
  assumes "x \<le> of_nat n" and "n < 2 ^ 64"
  shows "unat (f64_to_u64 x) \<le> n"
proof -
  have "\<lfloor>x\<rfloor> \<le> int n" using assms(1) by (metis floor_mono floor_of_nat)
  then have le: "nat \<lfloor>x\<rfloor> \<le> n" by simp
  then have "nat \<lfloor>x\<rfloor> < 2 ^ 64" using assms(2) by simp
  then show ?thesis using le by (simp add: f64_to_u64_def unat_of_nat min_def)
qed

section \<open>Properties\<close>

text \<open>
  The retry loop. The wrapper calls the provider at most \<open>max_retries + 1\<close> times and
  answers with the first call that succeeds, fails for good, or is the last one allowed;
  before each repetition it sleeps the delay of the attempt before, so there is one delay
  less than calls. The error prepared for the end of the loop is never returned.
\<close>
theorem retry_stops_at_first_final_answer:
  "\<exists>n. n \<le> unat (max_retries c) \<and> stops U c inner n \<and> (\<forall>i < n. \<not> stops U c inner i)
    \<and> retry_stream_completion U pw c inner
       = (inner n, n + 1, map (\<lambda>i. delay_for_attempt pw c (of_nat i)) [0..<n])"
  using retry_loop_spec [of 0 c U inner pw None] by (simp add: retry_stream_completion_def)

definition flaky :: "nat \<Rightarrow> unit error + nat" where
  "flaky n = (if n < 2 then Inl (StreamInterrupted []) else Inr n)"

theorem retry_stops_at_first_final_answer_witness:
  "\<exists>delays. length delays = 2 \<and> retry_stream_completion ascii_tables (\<lambda>k. Some (2 ^ nat k)) default_retry_config flaky
     = (Inr 2, 3, delays)"
proof -
  have s: "stops ascii_tables default_retry_config flaky i \<longleftrightarrow> 2 \<le> i" for i
    by (auto simp: stops_def flaky_def default_retry_config_def)
  obtain n where n: "stops ascii_tables default_retry_config flaky n"
    "\<forall>i < n. \<not> stops ascii_tables default_retry_config flaky i"
    and r: "retry_stream_completion ascii_tables (\<lambda>k. Some (2 ^ nat k)) default_retry_config flaky
      = (flaky n, n + 1, map (\<lambda>i. delay_for_attempt (\<lambda>k. Some (2 ^ nat k)) default_retry_config (of_nat i)) [0..<n])"
    using retry_stops_at_first_final_answer [of default_retry_config ascii_tables flaky "\<lambda>k. Some (2 ^ nat k)"] by blast
  have "n = 2" using n by (metis s leI le_antisym order_refl)
  with r show ?thesis by (simp add: flaky_def)
qed

text \<open>
  Delays. With the default cap and jitter every delay is at most 36 seconds, whatever
  the base delay, the attempt and the precision of the power function.
\<close>
theorem default_delay_bounded:
  assumes "max_delay_ms c = max_delay_ms default_retry_config"
    and "jitter_factor c = jitter_factor default_retry_config"
  shows "unat (delay_for_attempt pw c attempt) \<le> 36000"
proof -
  define capped where "capped = (case pw (sint attempt) of
      Some p \<Rightarrow> min (f64_round (u64_to_f64 (base_delay_ms c) * p)) 30000 | None \<Rightarrow> 30000)"
  define jitter where "jitter = f64_round (capped * f64_round (1 / 5))"
  have cap: "0 \<le> capped" "capped \<le> 30000"
    unfolding capped_def by (auto simp: f64_round_nonneg split: option.splits)
  have "capped * f64_round (1 / 5) \<le> 30000 * f64_round (1 / 5)"
    using cap(2) f64_round_nonneg by (rule mult_right_mono)
  then have "jitter \<le> f64_round (30000 * f64_round (1 / 5))" unfolding jitter_def by (rule f64_round_mono)
  also have "\<dots> = 6000" by code_simp
  finally have j: "jitter \<le> 6000" .
  have "0 \<le> jitter" unfolding jitter_def by (rule f64_round_nonneg)
  then have "rand_simple attempt * jitter \<le> 6000"
    using mult_mono [OF rand_simple_bounds(2) j] by simp
  then have "f64_round (rand_simple attempt * jitter) \<le> f64_round 6000" by (rule f64_round_mono)
  also have "\<dots> = 6000" by code_simp
  finally have "capped + f64_round (rand_simple attempt * jitter) \<le> 36000" using cap(2) by simp
  then have "f64_round (capped + f64_round (rand_simple attempt * jitter)) \<le> f64_round 36000" by (rule f64_round_mono)
  also have "\<dots> = 36000" by code_simp
  finally have "f64_round (capped + f64_round (rand_simple attempt * jitter)) \<le> of_nat 36000" by simp
  then have "unat (f64_to_u64 (f64_round (capped + f64_round (rand_simple attempt * jitter)))) \<le> 36000"
    by (rule f64_to_u64_le) simp
  then show ?thesis
    using assms by (simp add: delay_for_attempt_def Let_def default_retry_config_def u64_to_f64_default
        capped_def jitter_def)
qed

theorem default_delay_bounded_witness:
  "unat (delay_for_attempt (\<lambda>k. Some (2 ^ nat k)) default_retry_config 9) \<le> 36000"
  by (rule default_delay_bounded) simp_all

end
