(* ===== verification/Approval.thy ===== *)
theory Approval
  imports Prelude
begin

text \<open>
  The approval policy engine of the crate \<^verbatim>\<open>brain\<close> (\<^verbatim>\<open>approval/policy.rs\<close>) with the previews of
  the crate \<^verbatim>\<open>compression\<close> (\<^verbatim>\<open>preview.rs\<close>) that its prompts show. \<open>glob\<close> is the reading of a
  pattern the documentation gives: a star stands for any sequence of characters.
\<close>

section \<open>Previews\<close>

record preview_result =
  pr_content :: rstr
  pr_original_chars :: nat
  pr_output_chars :: nat
  pr_truncated :: bool

definition preview_text_result :: "rstr \<Rightarrow> nat \<Rightarrow> preview_result" where
  "preview_text_result inp max_chars =
     (let original_chars = length inp
      in if max_chars = 0 \<or> original_chars \<le> max_chars
         then \<lparr>pr_content = inp, pr_original_chars = original_chars, pr_output_chars = original_chars, pr_truncated = False\<rparr>
         else let content = take max_chars inp @ lit ''...''
              in \<lparr>pr_content = content, pr_original_chars = original_chars, pr_output_chars = length content, pr_truncated = True\<rparr>)"

definition preview_text :: "rstr \<Rightarrow> nat \<Rightarrow> rstr" where
  "preview_text inp max_chars = pr_content (preview_text_result inp max_chars)"

definition preview_text_with_total :: "rstr \<Rightarrow> nat \<Rightarrow> rstr" where
  "preview_text_with_total inp max_chars =
     (let preview = preview_text_result inp max_chars
      in if pr_truncated preview
         then pr_content preview @ lit '' ('' @ show_nat (pr_original_chars preview) @ lit '' chars total)''
         else pr_content preview)"

section \<open>Policies\<close>

datatype approval_decision = AutoApprove | Deny (deny_reason: rstr) | RequireConfirmation (confirm_message: rstr)

datatype policy_action = Allow | DenyAction | Ask

record tool_policy =
  tp_pattern :: rstr
  tp_action :: policy_action
  tp_reason :: "rstr option"

record approval_policy =
  ap_default_action :: policy_action
  ap_tool_policies :: "tool_policy list"
  ap_auto_approve_verified :: bool
  ap_max_args_preview :: nat

definition default_approval_policy :: approval_policy where
  "default_approval_policy = \<lparr>ap_default_action = Allow, ap_tool_policies = [], ap_auto_approve_verified = True,
     ap_max_args_preview = 500\<rparr>"

record policy_engine =
  pe_policy :: approval_policy
  pe_session_overrides :: "rstr \<rightharpoonup> approval_decision"

definition engine_new :: "approval_policy \<Rightarrow> policy_engine" where
  "engine_new policy = \<lparr>pe_policy = policy, pe_session_overrides = Map.empty\<rparr>"

definition engine_permissive :: policy_engine where
  "engine_permissive = engine_new default_approval_policy"

definition engine_strict :: policy_engine where
  "engine_strict = engine_new (default_approval_policy\<lparr>ap_default_action := Ask, ap_auto_approve_verified := True\<rparr>)"

definition override_tool :: "policy_engine \<Rightarrow> rstr \<Rightarrow> approval_decision \<Rightarrow> policy_engine" where
  "override_tool e tool_name decision = e\<lparr>pe_session_overrides := (pe_session_overrides e)(tool_name \<mapsto> decision)\<rparr>"

abbreviation star :: rchar where "star \<equiv> 42"

definition matches_pattern :: "rstr \<Rightarrow> rstr \<Rightarrow> bool" where
  "matches_pattern pattern name =
     (if pattern = [star] then True
      else if star \<notin> set pattern then pattern = name
      else case split_char star pattern of
          [pre, suf] \<Rightarrow> starts_with name pre \<and> ends_with name suf
        | _ \<Rightarrow> pattern = name)"

definition policy_decision :: "policy_engine \<Rightarrow> tool_policy \<Rightarrow> rstr \<Rightarrow> rstr \<Rightarrow> approval_decision" where
  "policy_decision e tp tool_name arguments =
     (case tp_action tp of
        Allow \<Rightarrow> AutoApprove
      | DenyAction \<Rightarrow> Deny (case tp_reason tp of Some r \<Rightarrow> r
          | None \<Rightarrow> lit ''Tool '' @ [39] @ tool_name @ [39] @ lit '' is denied by policy'')
      | Ask \<Rightarrow> RequireConfirmation (lit ''Tool '' @ [39] @ tool_name @ [39] @ lit '' wants to execute with arguments:'' @ [10]
          @ preview_text_with_total arguments (ap_max_args_preview (pe_policy e)) @ [10]
          @ (case tp_reason tp of Some r \<Rightarrow> r | None \<Rightarrow> lit ''Approve this action?'')))"

definition default_decision :: "policy_engine \<Rightarrow> rstr \<Rightarrow> rstr \<Rightarrow> approval_decision" where
  "default_decision e tool_name arguments =
     (case ap_default_action (pe_policy e) of
        Allow \<Rightarrow> AutoApprove
      | DenyAction \<Rightarrow> Deny (lit ''Denied by default policy'')
      | Ask \<Rightarrow> RequireConfirmation (lit ''Allow tool '' @ [39] @ tool_name @ [39] @ lit '' to execute?'' @ [10]
          @ lit ''Arguments: '' @ preview_text arguments (ap_max_args_preview (pe_policy e))))"

definition evaluate :: "policy_engine \<Rightarrow> rstr \<Rightarrow> rstr \<Rightarrow> bool \<Rightarrow> approval_decision" where
  "evaluate e tool_name arguments is_verified =
     (case pe_session_overrides e tool_name of
        Some decision \<Rightarrow> decision
      | None \<Rightarrow>
          if is_verified \<and> ap_auto_approve_verified (pe_policy e) then AutoApprove
          else case find (\<lambda>tp. matches_pattern (tp_pattern tp) tool_name) (ap_tool_policies (pe_policy e)) of
              Some tp \<Rightarrow> policy_decision e tp tool_name arguments
            | None \<Rightarrow> default_decision e tool_name arguments)"

section \<open>Patterns and globs\<close>

text \<open>The documented meaning of a pattern.\<close>
fun glob :: "rstr \<Rightarrow> rstr \<Rightarrow> bool" where
  "glob [] [] \<longleftrightarrow> True"
| "glob [] (x # n) \<longleftrightarrow> False"
| "glob (c # p) [] \<longleftrightarrow> c = star \<and> glob p []"
| "glob (c # p) (x # n) \<longleftrightarrow> (if c = star then glob p (x # n) \<or> glob (c # p) n else x = c \<and> glob p n)"

lemma glob_literal: "star \<notin> set p \<Longrightarrow> glob p n \<longleftrightarrow> n = p"
  by (induction p n rule: glob.induct) auto

lemma glob_star: "star \<notin> set suf \<Longrightarrow> glob (star # suf) n \<longleftrightarrow> ends_with n suf"
proof (induction n)
  case Nil
  then show ?case by (auto simp: glob_literal ends_with_iff)
next
  case (Cons x n)
  have "glob (star # suf) (x # n) \<longleftrightarrow> x # n = suf \<or> ends_with n suf"
    using Cons by (simp add: glob_literal)
  also have "\<dots> \<longleftrightarrow> ends_with (x # n) suf"
    by (auto simp: ends_with_iff Cons_eq_append_conv)
  finally show ?case .
qed

lemma glob_prefix: "star \<notin> set pre \<Longrightarrow> glob (pre @ p) n \<longleftrightarrow> (\<exists>r. n = pre @ r \<and> glob p r)"
proof (induction pre arbitrary: n)
  case (Cons c pre)
  show ?case
  proof (cases n)
    case Nil
    then show ?thesis using Cons.prems by simp
  next
    case n: (Cons x n')
    then show ?thesis using Cons by auto
  qed
qed simp

lemma matches_one_star:
  assumes "star \<notin> set pre" "star \<notin> set suf"
  shows "matches_pattern (pre @ star # suf) n \<longleftrightarrow> starts_with n pre \<and> ends_with n suf"
proof (cases "pre = [] \<and> suf = []")
  case True
  then show ?thesis by (simp add: matches_pattern_def starts_with_def ends_with_def)
next
  case False
  then have "pre @ star # suf \<noteq> [star]" by (cases pre) auto
  then show ?thesis by (simp add: matches_pattern_def split_char_append split_char_free assms)
qed

lemma glob_one_star:
  assumes "star \<notin> set pre" "star \<notin> set suf"
  shows "glob (pre @ star # suf) n \<longleftrightarrow> starts_with n pre \<and> ends_with n suf \<and> length pre + length suf \<le> length n"
proof -
  have "glob (pre @ star # suf) n \<longleftrightarrow> (\<exists>r. n = pre @ r \<and> ends_with r suf)"
    by (simp only: glob_prefix [OF assms(1)] glob_star [OF assms(2)])
  also have "\<dots> \<longleftrightarrow> starts_with n pre \<and> ends_with n suf \<and> length pre + length suf \<le> length n"
  proof
    assume "\<exists>r. n = pre @ r \<and> ends_with r suf"
    then show "starts_with n pre \<and> ends_with n suf \<and> length pre + length suf \<le> length n"
      by (auto simp: starts_with_iff ends_with_iff)
  next
    assume asm: "starts_with n pre \<and> ends_with n suf \<and> length pre + length suf \<le> length n"
    then obtain r u where n: "n = pre @ r" "n = u @ suf" unfolding starts_with_iff ends_with_iff by blast
    then have "length suf \<le> length r" using asm by simp
    moreover have "drop (length r - length suf) r = suf"
    proof -
      have "length pre \<le> length pre + length r - length suf" using \<open>length suf \<le> length r\<close> by linarith
      then have "drop (length n - length suf) n = drop (length r - length suf) r" using n(1) by simp
      then show ?thesis using n(2) by simp
    qed
    ultimately show "\<exists>r. n = pre @ r \<and> ends_with r suf" using n(1) by (auto simp: ends_with_def)
  qed
  finally show ?thesis .
qed

text \<open>A pattern with two stars or more.\<close>
lemma matches_many_stars:
  assumes "star \<notin> set pre"
  shows "matches_pattern (pre @ star # mid @ star # post) n \<longleftrightarrow> n = pre @ star # mid @ star # post"
proof -
  have "split_char star (mid @ star # post) \<noteq> [x]" for x
  proof (induction mid arbitrary: x)
    case Nil
    then show ?case using split_char_ne by simp
  next
    case (Cons c mid)
    then show ?case by (auto split: list.splits simp: split_char_ne)
  qed
  then obtain a b ps where "split_char star (mid @ star # post) = a # b # ps"
    using split_char_ne by (metis neq_Nil_conv)
  then show ?thesis by (auto simp: matches_pattern_def split_char_append assms)
qed

section \<open>Properties\<close>


text \<open>
  Patterns with one star. Matching agrees with the documented meaning of the star
  whenever the name is at least as long as the fixed parts; on shorter names, where prefix
  and suffix would overlap, the code matches although no sequence of characters fits the
  star.
\<close>
theorem one_star_matches_glob:
  assumes "star \<notin> set pre" and "star \<notin> set suf"
  shows "glob (pre @ star # suf) n = (matches_pattern (pre @ star # suf) n \<and> length pre + length suf \<le> length n)"
  using glob_one_star [OF assms, of n] matches_one_star [OF assms, of n] by simp

theorem one_star_matches_glob_witness:
  "matches_pattern (lit ''aba'' @ star # lit ''ba'') (lit ''aba'') \<and> \<not> glob (lit ''aba'' @ star # lit ''ba'') (lit ''aba'')"
proof -
  have "star \<notin> set (lit ''aba'')" "star \<notin> set (lit ''ba'')" by simp_all
  from one_star_matches_glob [OF this, of "lit ''aba''"] show ?thesis
    by (simp add: matches_pattern_def starts_with_def ends_with_def)
qed

text \<open>
  Patterns with several stars match nothing but themselves. A policy for such a
  pattern never applies to a tool whose name has no star: leaving it out of the list gives
  the same decision for every call, so a denial written that way has no effect.
\<close>
theorem many_star_policy_is_inert:
  assumes "ap_tool_policies (pe_policy e) = before @ tp # after"
    and "tp_pattern tp = pre @ star # mid @ star # post" and "star \<notin> set pre"
    and "star \<notin> set tool"
  shows "evaluate e tool args verified
    = evaluate (e\<lparr>pe_policy := (pe_policy e)\<lparr>ap_tool_policies := before @ after\<rparr>\<rparr>) tool args verified"
proof -
  have "tool \<noteq> tp_pattern tp" using assms(2,4) by auto
  then have "\<not> matches_pattern (tp_pattern tp) tool"
    using matches_many_stars [OF assms(3), of mid post tool] assms(2) by simp
  then have "find (\<lambda>q. matches_pattern (tp_pattern q) tool) (before @ tp # after)
      = find (\<lambda>q. matches_pattern (tp_pattern q) tool) (before @ after)"
    by (induction before) auto
  moreover have "policy_decision (e\<lparr>pe_policy := (pe_policy e)\<lparr>ap_tool_policies := before @ after\<rparr>\<rparr>) q tool args
      = policy_decision e q tool args" for q
    by (cases "tp_action q") (simp_all add: policy_decision_def)
  moreover have "default_decision (e\<lparr>pe_policy := (pe_policy e)\<lparr>ap_tool_policies := before @ after\<rparr>\<rparr>) tool args
      = default_decision e tool args"
    by (cases "ap_default_action (pe_policy e)") (simp_all add: default_decision_def)
  ultimately show ?thesis by (simp add: evaluate_def assms(1) cong: option.case_cong)
qed

theorem many_star_policy_is_inert_witness:
  "evaluate (engine_new (default_approval_policy\<lparr>ap_tool_policies :=
       [\<lparr>tp_pattern = lit ''*shell*'', tp_action = DenyAction, tp_reason = None\<rparr>]\<rparr>)) (lit ''run_shell'') [] False
   = AutoApprove"
proof -
  let ?tp = "\<lparr>tp_pattern = lit ''*shell*'', tp_action = DenyAction, tp_reason = None\<rparr>"
  let ?e = "engine_new (default_approval_policy\<lparr>ap_tool_policies := [?tp]\<rparr>)"
  have "evaluate ?e (lit ''run_shell'') [] False
      = evaluate (?e\<lparr>pe_policy := (pe_policy ?e)\<lparr>ap_tool_policies := [] @ []\<rparr>\<rparr>) (lit ''run_shell'') [] False"
    by (rule many_star_policy_is_inert [where pre = "[]" and mid = "lit ''shell''" and post = "[]" and tp = ?tp])
      (simp_all add: engine_new_def)
  then show ?thesis by (simp add: evaluate_def engine_new_def default_decision_def default_approval_policy_def)
qed

end
