(* ===== verification/Background.thy ===== *)
theory Background
  imports Approval
begin

text \<open>
  Background state of the crate \<^verbatim>\<open>memory-core\<close> (\<^verbatim>\<open>background.rs\<close>): the envelope of layers that
  is carried between prompts, the compression slots kept as lines in the session's
  metadata, the textual form of context records, and the budget caps over all of it.
  \<^verbatim>\<open>preview_text\<close> is the one of the crate \<^verbatim>\<open>compression\<close>. Bits of an \<^verbatim>\<open>f32\<close> are a word; no
  operation computes with them.
\<close>

type_synonym metadata = "rstr \<rightharpoonup> rstr"

section \<open>Capping\<close>

definition cap_text :: "rstr \<Rightarrow> nat \<Rightarrow> rstr" where
  "cap_text text max_chars = preview_text (trim text) max_chars"

definition cap_optional_text :: "rstr option \<Rightarrow> nat \<Rightarrow> rstr option" where
  "cap_optional_text v max_chars =
     (case v of None \<Rightarrow> None
      | Some text \<Rightarrow> let t = cap_text text max_chars in if trim t = [] then None else Some t)"

definition cap_vec_len :: "'a list \<Rightarrow> nat \<Rightarrow> 'a list" where
  "cap_vec_len xs max_items = (if length xs > max_items then drop (length xs - max_items) xs else xs)"

definition cap_vec_text :: "rstr list \<Rightarrow> nat \<Rightarrow> rstr list" where
  "cap_vec_text xs max_chars = map (\<lambda>x. cap_text x max_chars) xs"

definition cap_vec :: "rstr list \<Rightarrow> nat \<Rightarrow> nat \<Rightarrow> rstr list" where
  "cap_vec xs max_items max_chars = cap_vec_text (cap_vec_len xs max_items) max_chars"

section \<open>Compression slots\<close>

definition BACKGROUND_SLOT_PROJECT_FACTS :: rstr where "BACKGROUND_SLOT_PROJECT_FACTS = lit ''background_slot.project_facts''"
definition BACKGROUND_SLOT_CURRENT_TASK :: rstr where "BACKGROUND_SLOT_CURRENT_TASK = lit ''background_slot.current_task''"
definition BACKGROUND_SLOT_COMPLETED_WORK :: rstr where "BACKGROUND_SLOT_COMPLETED_WORK = lit ''background_slot.completed_work''"
definition BACKGROUND_SLOT_PENDING_WORK :: rstr where "BACKGROUND_SLOT_PENDING_WORK = lit ''background_slot.pending_work''"
definition BACKGROUND_SLOT_KEY_FILES :: rstr where "BACKGROUND_SLOT_KEY_FILES = lit ''background_slot.key_files''"
definition BACKGROUND_SLOT_TEST_RESULTS :: rstr where "BACKGROUND_SLOT_TEST_RESULTS = lit ''background_slot.test_results''"
definition BACKGROUND_SLOT_RISKS :: rstr where "BACKGROUND_SLOT_RISKS = lit ''background_slot.risks''"
definition BACKGROUND_SLOT_VERIFICATION_NEEDS :: rstr where "BACKGROUND_SLOT_VERIFICATION_NEEDS = lit ''background_slot.verification_needs''"

lemmas slot_keys = BACKGROUND_SLOT_PROJECT_FACTS_def BACKGROUND_SLOT_CURRENT_TASK_def BACKGROUND_SLOT_COMPLETED_WORK_def
  BACKGROUND_SLOT_PENDING_WORK_def BACKGROUND_SLOT_KEY_FILES_def BACKGROUND_SLOT_TEST_RESULTS_def
  BACKGROUND_SLOT_RISKS_def BACKGROUND_SLOT_VERIFICATION_NEEDS_def

record background_compression_slots =
  bs_project_facts :: "rstr list"
  bs_current_task :: "rstr option"
  bs_completed_work :: "rstr list"
  bs_pending_work :: "rstr list"
  bs_key_files :: "rstr list"
  bs_test_results :: "rstr list"
  bs_risks :: "rstr list"
  bs_verification_needs :: "rstr list"

definition slots_is_empty :: "background_compression_slots \<Rightarrow> bool" where
  "slots_is_empty s \<longleftrightarrow> bs_project_facts s = [] \<and> bs_current_task s = None \<and> bs_completed_work s = []
     \<and> bs_pending_work s = [] \<and> bs_key_files s = [] \<and> bs_test_results s = [] \<and> bs_risks s = []
     \<and> bs_verification_needs s = []"

definition slots_apply_budget_caps :: "background_compression_slots \<Rightarrow> background_compression_slots" where
  "slots_apply_budget_caps s = \<lparr>
     bs_project_facts = cap_vec (bs_project_facts s) 5 140,
     bs_current_task = cap_optional_text (bs_current_task s) 180,
     bs_completed_work = cap_vec (bs_completed_work s) 5 140,
     bs_pending_work = cap_vec (bs_pending_work s) 5 140,
     bs_key_files = cap_vec (bs_key_files s) 8 180,
     bs_test_results = cap_vec (bs_test_results s) 6 180,
     bs_risks = cap_vec (bs_risks s) 4 140,
     bs_verification_needs = cap_vec (bs_verification_needs s) 4 140\<rparr>"

definition metadata_lines :: "metadata \<Rightarrow> rstr \<Rightarrow> rstr list" where
  "metadata_lines m key = (case m key of None \<Rightarrow> []
     | Some v \<Rightarrow> filter (\<lambda>l. l \<noteq> []) (map trim (lines v)))"

definition metadata_optional_text :: "metadata \<Rightarrow> rstr \<Rightarrow> rstr option" where
  "metadata_optional_text m key = (case m key of None \<Rightarrow> None
     | Some v \<Rightarrow> if trim v = [] then None else Some (trim v))"

definition set_metadata_lines :: "metadata \<Rightarrow> rstr \<Rightarrow> rstr list \<Rightarrow> metadata" where
  "set_metadata_lines m key values =
     (let v = join [10] (filter (\<lambda>x. x \<noteq> []) (map trim values))
      in if v = [] then m(key := None) else m(key \<mapsto> v))"

definition set_metadata_optional_text :: "metadata \<Rightarrow> rstr \<Rightarrow> rstr option \<Rightarrow> metadata" where
  "set_metadata_optional_text m key v =
     (case v of None \<Rightarrow> m(key := None)
      | Some text \<Rightarrow> if trim text = [] then m(key := None) else m(key \<mapsto> trim text))"

section \<open>Context records and session objects\<close>

datatype backend_context_kind =
    ArtifactKind | CollectionKind | WebKind | ToolResultKind | RouteKind | MultimodalKind | MultimodalRouteKind
  | TaskStateKind | MemoryRecallKind

fun as_label :: "backend_context_kind \<Rightarrow> rstr" where
  "as_label ArtifactKind = lit ''Artifact context''"
| "as_label CollectionKind = lit ''Collection context''"
| "as_label WebKind = lit ''Web context''"
| "as_label ToolResultKind = lit ''Tool result''"
| "as_label RouteKind = lit ''Route context''"
| "as_label MultimodalKind = lit ''Multimodal context''"
| "as_label MultimodalRouteKind = lit ''Multimodal route''"
| "as_label TaskStateKind = lit ''Task state''"
| "as_label MemoryRecallKind = lit ''Memory recall''"

record backend_context_record =
  bc_kind :: "backend_context_kind option"
  bc_value :: rstr
  bc_source :: "rstr option"

definition context_render :: "backend_context_record \<Rightarrow> rstr" where
  "context_render r =
     (let v = trim (bc_value r)
      in if v = [] then []
         else case bc_kind r of Some kind \<Rightarrow> as_label kind @ lit '': '' @ v | None \<Rightarrow> v)"

definition context_normalized_key :: "backend_context_record \<Rightarrow> rstr" where
  "context_normalized_key r =
     (case bc_kind r of Some kind \<Rightarrow> as_label kind | None \<Rightarrow> lit ''context'') @ lit ''::'' @ trim (bc_value r)"

definition legacy_prefixes :: "(rstr \<times> backend_context_kind) list" where
  "legacy_prefixes = [
     (lit ''Artifact context: '', ArtifactKind), (lit ''Collection context: '', CollectionKind),
     (lit ''Web context: '', WebKind), (lit ''Tool result: '', ToolResultKind),
     (lit ''Route context: '', RouteKind), (lit ''Multimodal context: '', MultimodalKind),
     (lit ''Multimodal route: '', MultimodalRouteKind), (lit ''Task state: '', TaskStateKind),
     (lit ''Memory recall: '', MemoryRecallKind)]"

fun first_legacy :: "rstr \<Rightarrow> (rstr \<times> backend_context_kind) list \<Rightarrow> (rstr \<times> backend_context_kind) option" where
  "first_legacy v [] = None"
| "first_legacy v ((pre, kind) # ps) =
     (case strip_prefix v pre of Some rest \<Rightarrow> Some (rest, kind) | None \<Rightarrow> first_legacy v ps)"

definition from_legacy_text :: "rstr \<Rightarrow> backend_context_record" where
  "from_legacy_text v =
     (case first_legacy v legacy_prefixes of
        Some (rest, kind) \<Rightarrow> \<lparr>bc_kind = Some kind, bc_value = trim rest, bc_source = None\<rparr>
      | None \<Rightarrow> \<lparr>bc_kind = None, bc_value = trim v, bc_source = None\<rparr>)"

definition push_opt :: "rstr list \<Rightarrow> string \<Rightarrow> rstr option \<Rightarrow> rstr list" where
  "push_opt parts key v =
     (case v of None \<Rightarrow> parts
      | Some x \<Rightarrow> if trim x = [] then parts else parts @ [lit key @ lit ''='' @ trim x])"

text \<open>The common shape of the renderers: a heading, the main field, the optional fields.\<close>
definition render_object :: "string \<Rightarrow> string \<Rightarrow> rstr \<Rightarrow> (string \<times> rstr option) list \<Rightarrow> rstr" where
  "render_object heading main v opts =
     (if trim v = [] then []
      else lit heading @ join (lit '', '') (foldl (\<lambda>parts (key, x). push_opt parts key x) [lit main @ lit ''='' @ trim v] opts))"

definition opt_trim :: "rstr option \<Rightarrow> rstr" where
  "opt_trim v = trim (case v of Some x \<Rightarrow> x | None \<Rightarrow> [])"

record retrieved_memory_object =
  rm_recall_source :: rstr
  rm_recall_kind :: "rstr option"
  rm_collection :: "rstr option"
  rm_retrieval_query :: "rstr option"
  rm_recall_summary :: "rstr option"

definition memory_render :: "retrieved_memory_object \<Rightarrow> rstr" where
  "memory_render o1 = render_object ''Memory Recall Object: '' ''source'' (rm_recall_source o1)
     [(''kind'', rm_recall_kind o1), (''collection'', rm_collection o1), (''query'', rm_retrieval_query o1),
      (''summary'', rm_recall_summary o1)]"

definition memory_normalized_key :: "retrieved_memory_object \<Rightarrow> rstr" where
  "memory_normalized_key o1 = trim (rm_recall_source o1) @ lit ''::'' @ opt_trim (rm_recall_kind o1) @ lit ''::''
     @ opt_trim (or_else (rm_retrieval_query o1) (rm_recall_summary o1))"

record web_session_object =
  ws_url :: rstr
  ws_page_title :: "rstr option"
  ws_task_goal :: "rstr option"

definition web_render :: "web_session_object \<Rightarrow> rstr" where
  "web_render o1 = render_object ''Web Session Object: '' ''url'' (ws_url o1)
     [(''page_title'', ws_page_title o1), (''task_goal'', ws_task_goal o1)]"

definition web_normalized_key :: "web_session_object \<Rightarrow> rstr" where
  "web_normalized_key o1 = trim (ws_url o1) @ lit ''::'' @ opt_trim (or_else (ws_page_title o1) (ws_task_goal o1))"

record artifact_session_object =
  as_path :: rstr
  as_collection :: "rstr option"
  as_task_goal :: "rstr option"

definition artifact_render :: "artifact_session_object \<Rightarrow> rstr" where
  "artifact_render o1 = render_object ''Artifact Session Object: '' ''path'' (as_path o1)
     [(''collection'', as_collection o1), (''task_goal'', as_task_goal o1)]"

definition artifact_normalized_key :: "artifact_session_object \<Rightarrow> rstr" where
  "artifact_normalized_key o1 = trim (as_path o1) @ lit ''::'' @ opt_trim (or_else (as_collection o1) (as_task_goal o1))"

record task_session_object =
  ts_state :: rstr
  ts_title :: "rstr option"
  ts_goal :: "rstr option"

definition task_render :: "task_session_object \<Rightarrow> rstr" where
  "task_render o1 = render_object ''Task Session Object: '' ''state'' (ts_state o1)
     [(''title'', ts_title o1), (''goal'', ts_goal o1)]"

definition task_normalized_key :: "task_session_object \<Rightarrow> rstr" where
  "task_normalized_key o1 = trim (ts_state o1) @ lit ''::'' @ opt_trim (ts_title o1) @ lit ''::'' @ opt_trim (ts_goal o1)"

record tool_session_object =
  to_tool_name :: rstr
  to_result_summary :: "rstr option"
  to_route :: "rstr option"
  to_source_ref :: "rstr option"

definition tool_render :: "tool_session_object \<Rightarrow> rstr" where
  "tool_render o1 = render_object ''Tool Session Object: '' ''tool'' (to_tool_name o1)
     [(''summary'', to_result_summary o1), (''route'', to_route o1), (''source_ref'', to_source_ref o1)]"

definition tool_normalized_key :: "tool_session_object \<Rightarrow> rstr" where
  "tool_normalized_key o1 = trim (to_tool_name o1) @ lit ''::'' @ opt_trim (to_route o1) @ lit ''::'' @ opt_trim (to_source_ref o1)"

record multimodal_session_object =
  mm_locator :: rstr
  mm_route :: "rstr option"
  mm_modality :: "rstr option"
  mm_collection :: "rstr option"
  mm_source_url :: "rstr option"
  mm_title :: "rstr option"
  mm_task_goal :: "rstr option"

definition multimodal_render :: "multimodal_session_object \<Rightarrow> rstr" where
  "multimodal_render o1 = render_object ''Multimodal Session Object: '' ''locator'' (mm_locator o1)
     [(''route'', mm_route o1), (''modality'', mm_modality o1), (''collection'', mm_collection o1),
      (''source_url'', mm_source_url o1), (''title'', mm_title o1), (''task_goal'', mm_task_goal o1)]"

definition multimodal_normalized_key :: "multimodal_session_object \<Rightarrow> rstr" where
  "multimodal_normalized_key o1 = trim (mm_locator o1) @ lit ''::'' @ opt_trim (mm_route o1)"

section \<open>The layers\<close>

datatype background_quality_signal = Candidate | Guarded | Skipped | Stable | Strong | Rejected

definition default_quality_signal :: background_quality_signal where
  "default_quality_signal = Candidate"

record background_evidence_ref =
  be_source_kind :: rstr
  be_source_id :: rstr
  be_confidence :: "u32 option"
  be_occurred_at :: "time option"
  be_metadata :: metadata

record background_revision =
  br_revision :: u64
  br_previous_revision :: "u64 option"
  br_updated_at :: time
  br_update_reason :: "rstr option"

definition default_background_revision :: "time \<Rightarrow> background_revision" where
  "default_background_revision now = \<lparr>br_revision = 0, br_previous_revision = None, br_updated_at = now, br_update_reason = None\<rparr>"

record persona_background_layer =
  pl_identity_summary :: "rstr option"
  pl_speaking_style :: "rstr option"
  pl_relationship_frame :: "rstr option"
  pl_safety_notes :: "rstr list"
  pl_metadata :: metadata

definition persona_is_empty :: "persona_background_layer \<Rightarrow> bool" where
  "persona_is_empty p \<longleftrightarrow> pl_identity_summary p = None \<and> pl_speaking_style p = None
     \<and> pl_relationship_frame p = None \<and> pl_safety_notes p = [] \<and> pl_metadata p = Map.empty"

record relationship_background_layer =
  rl_user_profile_summary :: "rstr option"
  rl_user_preferences :: "rstr list"
  rl_relationship_summary :: "rstr option"
  rl_long_term_topics :: "rstr list"
  rl_emotional_markers :: "rstr list"
  rl_metadata :: metadata

definition relationship_is_empty :: "relationship_background_layer \<Rightarrow> bool" where
  "relationship_is_empty r \<longleftrightarrow> rl_user_profile_summary r = None \<and> rl_user_preferences r = []
     \<and> rl_relationship_summary r = None \<and> rl_long_term_topics r = [] \<and> rl_emotional_markers r = []
     \<and> rl_metadata r = Map.empty"

record session_background_state =
  sb_active_topics :: "rstr list"
  sb_backend_contexts :: "rstr list"
  sb_backend_context_records :: "backend_context_record list"
  sb_retrieved_memory_objects :: "retrieved_memory_object list"
  sb_web_session_objects :: "web_session_object list"
  sb_artifact_session_objects :: "artifact_session_object list"
  sb_task_session_objects :: "task_session_object list"
  sb_tool_session_objects :: "tool_session_object list"
  sb_multimodal_session_objects :: "multimodal_session_object list"
  sb_open_loops :: "rstr list"
  sb_recent_emotional_state :: "rstr option"
  sb_ongoing_goals :: "rstr list"
  sb_workspace_focus :: "rstr option"
  sb_pending_followups :: "rstr list"
  sb_summary :: "rstr option"
  sb_metadata :: metadata

definition compression_slots :: "session_background_state \<Rightarrow> background_compression_slots" where
  "compression_slots st = (let m = sb_metadata st in \<lparr>
     bs_project_facts = metadata_lines m BACKGROUND_SLOT_PROJECT_FACTS,
     bs_current_task = metadata_optional_text m BACKGROUND_SLOT_CURRENT_TASK,
     bs_completed_work = metadata_lines m BACKGROUND_SLOT_COMPLETED_WORK,
     bs_pending_work = metadata_lines m BACKGROUND_SLOT_PENDING_WORK,
     bs_key_files = metadata_lines m BACKGROUND_SLOT_KEY_FILES,
     bs_test_results = metadata_lines m BACKGROUND_SLOT_TEST_RESULTS,
     bs_risks = metadata_lines m BACKGROUND_SLOT_RISKS,
     bs_verification_needs = metadata_lines m BACKGROUND_SLOT_VERIFICATION_NEEDS\<rparr>)"

definition store_slots :: "metadata \<Rightarrow> background_compression_slots \<Rightarrow> metadata" where
  "store_slots m0 slots =
     (let m1 = set_metadata_lines m0 BACKGROUND_SLOT_PROJECT_FACTS (bs_project_facts slots);
          m2 = set_metadata_optional_text m1 BACKGROUND_SLOT_CURRENT_TASK (bs_current_task slots);
          m3 = set_metadata_lines m2 BACKGROUND_SLOT_COMPLETED_WORK (bs_completed_work slots);
          m4 = set_metadata_lines m3 BACKGROUND_SLOT_PENDING_WORK (bs_pending_work slots);
          m5 = set_metadata_lines m4 BACKGROUND_SLOT_KEY_FILES (bs_key_files slots);
          m6 = set_metadata_lines m5 BACKGROUND_SLOT_TEST_RESULTS (bs_test_results slots);
          m7 = set_metadata_lines m6 BACKGROUND_SLOT_RISKS (bs_risks slots)
      in set_metadata_lines m7 BACKGROUND_SLOT_VERIFICATION_NEEDS (bs_verification_needs slots))"

definition set_compression_slots :: "session_background_state \<Rightarrow> background_compression_slots \<Rightarrow> session_background_state" where
  "set_compression_slots st slots =
     st\<lparr>sb_metadata := store_slots (sb_metadata st) (slots_apply_budget_caps slots)\<rparr>"

definition compression_slots_are_empty :: "session_background_state \<Rightarrow> bool" where
  "compression_slots_are_empty st \<longleftrightarrow> slots_is_empty (compression_slots st)"

definition apply_compression_slot_budget_caps :: "session_background_state \<Rightarrow> session_background_state" where
  "apply_compression_slot_budget_caps st = set_compression_slots st (compression_slots st)"

definition canonical_backend_context_records :: "session_background_state \<Rightarrow> backend_context_record list" where
  "canonical_backend_context_records st =
     (if sb_backend_context_records st \<noteq> [] then sb_backend_context_records st
      else filter (\<lambda>r. trim (bc_value r) \<noteq> []) (map from_legacy_text (sb_backend_contexts st)))"

definition sync_backend_context_storage :: "session_background_state \<Rightarrow> session_background_state" where
  "sync_backend_context_storage st =
     (let records = canonical_backend_context_records st
      in st\<lparr>sb_backend_context_records := records,
            sb_backend_contexts := filter (\<lambda>v. v \<noteq> []) (map context_render records)\<rparr>)"

definition session_is_empty :: "session_background_state \<Rightarrow> bool" where
  "session_is_empty st \<longleftrightarrow> sb_active_topics st = [] \<and> sb_backend_contexts st = [] \<and> sb_backend_context_records st = []
     \<and> sb_retrieved_memory_objects st = [] \<and> sb_web_session_objects st = [] \<and> sb_artifact_session_objects st = []
     \<and> sb_task_session_objects st = [] \<and> sb_tool_session_objects st = [] \<and> sb_multimodal_session_objects st = []
     \<and> sb_open_loops st = [] \<and> sb_recent_emotional_state st = None \<and> sb_ongoing_goals st = []
     \<and> sb_workspace_focus st = None \<and> sb_pending_followups st = [] \<and> sb_summary st = None \<and> sb_metadata st = Map.empty"

record recent_window_summary =
  rw_summary :: rstr
  rw_pruned_message_count :: nat
  rw_covered_message_count :: nat
  rw_metadata :: metadata

definition recent_window_is_empty :: "recent_window_summary \<Rightarrow> bool" where
  "recent_window_is_empty r \<longleftrightarrow> trim (rw_summary r) = [] \<and> rw_pruned_message_count r = 0
     \<and> rw_covered_message_count r = 0 \<and> rw_metadata r = Map.empty"

datatype background_compression_decision =
  SkipCompression | RefreshSessionLayer | PromoteRelationshipFact | RewriteWholeEnvelope | RejectCandidate

record background_envelope =
  env_persona_layer :: "persona_background_layer option"
  env_relationship_layer :: "relationship_background_layer option"
  env_session_layer :: "session_background_state option"
  env_recent_window_summary :: "recent_window_summary option"
  env_revision :: background_revision
  env_source_refs :: "background_evidence_ref list"
  env_quality_signal :: background_quality_signal
  env_compression_reason :: "rstr option"
  env_updated_at :: time
  env_metadata :: metadata

text \<open>The clock is read twice: for the revision and for the envelope.\<close>
definition default_background_envelope :: "time \<Rightarrow> time \<Rightarrow> background_envelope" where
  "default_background_envelope now1 now2 = \<lparr>env_persona_layer = None, env_relationship_layer = None,
     env_session_layer = None, env_recent_window_summary = None, env_revision = default_background_revision now1,
     env_source_refs = [], env_quality_signal = default_quality_signal, env_compression_reason = None,
     env_updated_at = now2, env_metadata = Map.empty\<rparr>"

definition none_or :: "('a \<Rightarrow> bool) \<Rightarrow> 'a option \<Rightarrow> bool" where
  "none_or P v \<longleftrightarrow> (case v of None \<Rightarrow> True | Some x \<Rightarrow> P x)"

definition envelope_is_empty :: "background_envelope \<Rightarrow> bool" where
  "envelope_is_empty e \<longleftrightarrow> none_or persona_is_empty (env_persona_layer e)
     \<and> none_or relationship_is_empty (env_relationship_layer e) \<and> none_or session_is_empty (env_session_layer e)
     \<and> none_or recent_window_is_empty (env_recent_window_summary e) \<and> env_source_refs e = []
     \<and> env_compression_reason e = None \<and> env_metadata e = Map.empty"

section \<open>Budget caps of the envelope\<close>

definition cap_persona :: "persona_background_layer \<Rightarrow> persona_background_layer" where
  "cap_persona p = p\<lparr>pl_identity_summary := cap_optional_text (pl_identity_summary p) 240,
     pl_speaking_style := cap_optional_text (pl_speaking_style p) 160,
     pl_relationship_frame := cap_optional_text (pl_relationship_frame p) 200,
     pl_safety_notes := cap_vec (pl_safety_notes p) 4 120\<rparr>"

definition cap_relationship :: "relationship_background_layer \<Rightarrow> relationship_background_layer" where
  "cap_relationship r = r\<lparr>rl_user_profile_summary := cap_optional_text (rl_user_profile_summary r) 240,
     rl_relationship_summary := cap_optional_text (rl_relationship_summary r) 220,
     rl_user_preferences := cap_vec (rl_user_preferences r) 6 120,
     rl_long_term_topics := cap_vec (rl_long_term_topics r) 4 100,
     rl_emotional_markers := cap_vec (rl_emotional_markers r) 4 80\<rparr>"

definition cap_context_record :: "backend_context_record \<Rightarrow> backend_context_record" where
  "cap_context_record r = r\<lparr>bc_value := cap_text (bc_value r) 140, bc_source := cap_optional_text (bc_source r) 120\<rparr>"

definition cap_memory_object :: "retrieved_memory_object \<Rightarrow> retrieved_memory_object" where
  "cap_memory_object o1 = o1\<lparr>rm_recall_source := cap_text (rm_recall_source o1) 80,
     rm_recall_kind := cap_optional_text (rm_recall_kind o1) 60, rm_collection := cap_optional_text (rm_collection o1) 80,
     rm_retrieval_query := cap_optional_text (rm_retrieval_query o1) 140,
     rm_recall_summary := cap_optional_text (rm_recall_summary o1) 160\<rparr>"

definition cap_web_object :: "web_session_object \<Rightarrow> web_session_object" where
  "cap_web_object o1 = o1\<lparr>ws_url := cap_text (ws_url o1) 140, ws_page_title := cap_optional_text (ws_page_title o1) 120,
     ws_task_goal := cap_optional_text (ws_task_goal o1) 140\<rparr>"

definition cap_artifact_object :: "artifact_session_object \<Rightarrow> artifact_session_object" where
  "cap_artifact_object o1 = o1\<lparr>as_path := cap_text (as_path o1) 140, as_collection := cap_optional_text (as_collection o1) 80,
     as_task_goal := cap_optional_text (as_task_goal o1) 140\<rparr>"

definition cap_task_object :: "task_session_object \<Rightarrow> task_session_object" where
  "cap_task_object o1 = o1\<lparr>ts_state := cap_text (ts_state o1) 100, ts_title := cap_optional_text (ts_title o1) 120,
     ts_goal := cap_optional_text (ts_goal o1) 140\<rparr>"

definition cap_tool_object :: "tool_session_object \<Rightarrow> tool_session_object" where
  "cap_tool_object o1 = o1\<lparr>to_tool_name := cap_text (to_tool_name o1) 64,
     to_result_summary := cap_optional_text (to_result_summary o1) 160, to_route := cap_optional_text (to_route o1) 80,
     to_source_ref := cap_optional_text (to_source_ref o1) 140\<rparr>"

definition cap_multimodal_object :: "multimodal_session_object \<Rightarrow> multimodal_session_object" where
  "cap_multimodal_object o1 = o1\<lparr>mm_locator := cap_text (mm_locator o1) 140, mm_route := cap_optional_text (mm_route o1) 80,
     mm_modality := cap_optional_text (mm_modality o1) 32, mm_collection := cap_optional_text (mm_collection o1) 80,
     mm_source_url := cap_optional_text (mm_source_url o1) 140, mm_title := cap_optional_text (mm_title o1) 120,
     mm_task_goal := cap_optional_text (mm_task_goal o1) 140\<rparr>"

definition cap_session :: "session_background_state \<Rightarrow> session_background_state" where
  "cap_session st0 =
     (let st = sync_backend_context_storage st0 in
      apply_compression_slot_budget_caps (st\<lparr>
        sb_recent_emotional_state := cap_optional_text (sb_recent_emotional_state st) 120,
        sb_workspace_focus := cap_optional_text (sb_workspace_focus st) 160,
        sb_summary := cap_optional_text (sb_summary st) 320,
        sb_active_topics := cap_vec (sb_active_topics st) 5 100,
        sb_backend_contexts := cap_vec (sb_backend_contexts st) 8 140,
        sb_backend_context_records := map cap_context_record (cap_vec_len (sb_backend_context_records st) 8),
        sb_retrieved_memory_objects := map cap_memory_object (cap_vec_len (sb_retrieved_memory_objects st) 6),
        sb_web_session_objects := map cap_web_object (cap_vec_len (sb_web_session_objects st) 6),
        sb_artifact_session_objects := map cap_artifact_object (cap_vec_len (sb_artifact_session_objects st) 6),
        sb_task_session_objects := map cap_task_object (cap_vec_len (sb_task_session_objects st) 6),
        sb_tool_session_objects := map cap_tool_object (cap_vec_len (sb_tool_session_objects st) 6),
        sb_multimodal_session_objects := map cap_multimodal_object (cap_vec_len (sb_multimodal_session_objects st) 6),
        sb_open_loops := cap_vec (sb_open_loops st) 5 140,
        sb_ongoing_goals := cap_vec (sb_ongoing_goals st) 4 120,
        sb_pending_followups := cap_vec (sb_pending_followups st) 5 140\<rparr>))"

definition apply_budget_caps :: "background_envelope \<Rightarrow> background_envelope" where
  "apply_budget_caps e = e\<lparr>
     env_persona_layer := map_option cap_persona (env_persona_layer e),
     env_relationship_layer := map_option cap_relationship (env_relationship_layer e),
     env_session_layer := map_option cap_session (env_session_layer e),
     env_recent_window_summary := map_option (\<lambda>r. r\<lparr>rw_summary := cap_text (rw_summary r) 360\<rparr>) (env_recent_window_summary e),
     env_source_refs := cap_vec_len (env_source_refs e) 8\<rparr>"

section \<open>Lemmas on capped text\<close>

lemma cap_text_eq:
  "0 < n \<Longrightarrow> cap_text s n = (if length (trim s) \<le> n then trim s else take n (trim s) @ lit ''...'')"
  by (simp add: cap_text_def preview_text_def preview_text_result_def Let_def)

lemma cap_text_length: "0 < n \<Longrightarrow> length (cap_text s n) \<le> n + 3"
  by (simp add: cap_text_eq)

lemma cap_text_trimmed:
  assumes "0 < n"
  shows "trimmed (cap_text s n)"
proof (cases "length (trim s) \<le> n")
  case True
  with assms show ?thesis by (simp add: cap_text_eq)
next
  case False
  then have ne: "trim s \<noteq> []" by auto
  then have "\<not> is_ws (hd (trim s))" using trimmed_trim [of s] by (simp add: trimmed_def)
  moreover have "hd (take n (trim s) @ lit ''...'') = hd (trim s)"
    using ne assms by (cases "trim s") (auto simp: hd_append take_Cons')
  ultimately show ?thesis using False assms by (simp add: cap_text_eq trimmed_def is_ws_def)
qed

lemma cap_text_idem:
  assumes "0 < n"
  shows "cap_text (cap_text s n) n = cap_text s n"
proof -
  have "trim (cap_text s n) = cap_text s n" by (rule trim_trimmed) (rule cap_text_trimmed [OF assms])
  then show ?thesis using assms by (auto simp: cap_text_eq)
qed

lemma cap_text_set: "set (cap_text s n) \<subseteq> set s \<union> {46}"
  unfolding cap_text_def preview_text_def preview_text_result_def Let_def
  using set_trim [of s] by (auto dest: in_set_takeD)

lemma cap_text_blank: "0 < n \<Longrightarrow> cap_text s n = [] \<longleftrightarrow> trim s = []"
  by (auto simp: cap_text_eq)

lemma trim_cap_text: "0 < n \<Longrightarrow> trim (cap_text s n) = cap_text s n"
  by (simp add: cap_text_trimmed trim_trimmed)

lemma length_cap_vec_len: "length (cap_vec_len xs n) \<le> n"
  by (simp add: cap_vec_len_def)

lemma cap_vec_len_recent: "cap_vec_len xs n = drop (length xs - n) xs"
  by (simp add: cap_vec_len_def)

lemma set_cap_vec_len: "set (cap_vec_len xs n) \<subseteq> set xs"
  by (auto simp: cap_vec_len_def dest: in_set_dropD)

text \<open>A list of texts within a budget, and an optional text.\<close>
definition within_caps :: "nat \<Rightarrow> nat \<Rightarrow> rstr list \<Rightarrow> bool" where
  "within_caps n k xs \<longleftrightarrow> length xs \<le> n \<and> list_all (\<lambda>x. length x \<le> k + 3) xs"

definition opt_within :: "nat \<Rightarrow> rstr option \<Rightarrow> bool" where
  "opt_within k v \<longleftrightarrow> (case v of None \<Rightarrow> True | Some x \<Rightarrow> x \<noteq> [] \<and> length x \<le> k + 3)"

lemma within_cap_vec: "0 < k \<Longrightarrow> within_caps n k (cap_vec xs n k)"
  by (auto simp: within_caps_def cap_vec_def cap_vec_text_def list_all_iff length_cap_vec_len cap_text_length)

lemma opt_within_cap: "0 < k \<Longrightarrow> opt_within k (cap_optional_text v k)"
  using cap_text_length by (auto simp: opt_within_def cap_optional_text_def Let_def split: option.splits)

lemma cap_vec_idem: "0 < k \<Longrightarrow> cap_vec (cap_vec xs n k) n k = cap_vec xs n k"
proof -
  assume k: "0 < k"
  have "length (cap_vec xs n k) \<le> n" by (simp add: cap_vec_def cap_vec_text_def length_cap_vec_len)
  then have "cap_vec_len (cap_vec xs n k) n = cap_vec xs n k" by (simp add: cap_vec_len_def)
  then show ?thesis using k by (simp add: cap_vec_def cap_vec_text_def cap_text_idem)
qed

lemma cap_optional_idem: "0 < k \<Longrightarrow> cap_optional_text (cap_optional_text v k) k = cap_optional_text v k"
  by (auto simp: cap_optional_text_def Let_def cap_text_idem split: option.splits)

lemmas cap_rules = within_cap_vec opt_within_cap cap_text_length length_cap_vec_len

section \<open>Lines in the metadata\<close>

lemma lines_aux_newline:
  "10 \<notin> set x \<Longrightarrow> lines_aux acc (x @ 10 # s) = strip_cr (rev acc @ x) # lines_aux [] s"
  by (induction x arbitrary: acc) auto

lemma lines_aux_last: "10 \<notin> set x \<Longrightarrow> lines_aux acc x = (if rev acc @ x = [] then [] else [rev acc @ x])"
  by (induction x arbitrary: acc) auto

text \<open>A line as it is stored: trimmed, not blank, without a newline.\<close>
definition stored_line :: "rstr \<Rightarrow> bool" where
  "stored_line x \<longleftrightarrow> x \<noteq> [] \<and> trimmed x \<and> 10 \<notin> set x"

lemma stored_line_strip: "stored_line x \<Longrightarrow> strip_cr x = x"
proof -
  assume "stored_line x"
  then have "\<not> is_ws (last x)" by (auto simp: stored_line_def trimmed_def)
  moreover have "is_ws 13" by (simp add: is_ws_def)
  ultimately have "last x \<noteq> 13" by metis
  then show ?thesis by (simp add: strip_cr_def)
qed

lemma lines_join: "list_all stored_line xs \<Longrightarrow> lines (join [10] xs) = xs"
proof (induction xs rule: induct_list012)
  case (2 x)
  then show ?case by (simp add: lines_def lines_aux_last stored_line_def)
next
  case (3 x y ys)
  then have "lines_aux [] (x @ 10 # join [10] (y # ys)) = strip_cr x # lines_aux [] (join [10] (y # ys))"
    using lines_aux_newline [of x "[]" "join [10] (y # ys)"] by (simp add: stored_line_def)
  with 3 show ?case by (simp add: lines_def stored_line_strip)
qed (simp add: lines_def)

lemma lines_aux_no_newline: "10 \<notin> set acc \<Longrightarrow> l \<in> set (lines_aux acc s) \<Longrightarrow> 10 \<notin> set l"
proof (induction acc s rule: lines_aux.induct)
  case (2 acc c s)
  have "set (strip_cr (rev acc)) \<subseteq> set acc" by (auto simp: strip_cr_def list.set_sel(2))
  with 2 show ?case by (auto split: if_splits)
qed (auto split: if_splits)

lemma lines_no_newline: "l \<in> set (lines s) \<Longrightarrow> 10 \<notin> set l"
  unfolding lines_def by (rule lines_aux_no_newline [where acc = "[]"]) simp_all

lemma join_Nil_iff: "list_all (\<lambda>x. x \<noteq> []) xs \<Longrightarrow> join [10] xs = [] \<longleftrightarrow> xs = []"
  by (induction xs rule: induct_list012) auto

lemma metadata_lines_stored: "list_all stored_line (metadata_lines m k)"
proof -
  have "10 \<notin> set (trim l)" if "l \<in> set (lines v)" for l v
    using that lines_no_newline set_trim by blast
  then show ?thesis by (auto simp: metadata_lines_def list_all_iff stored_line_def split: option.splits)
qed

abbreviation nonblank :: "rstr list \<Rightarrow> rstr list" where
  "nonblank xs \<equiv> filter (\<lambda>x. x \<noteq> []) (map trim xs)"

lemma metadata_lines_set:
  assumes "\<And>x. x \<in> set xs \<Longrightarrow> 10 \<notin> set x"
  shows "metadata_lines (set_metadata_lines m k xs) k = nonblank xs"
proof -
  have st: "list_all stored_line (nonblank xs)"
    using assms set_trim by (fastforce simp: list_all_iff stored_line_def)
  then have ne: "list_all (\<lambda>x. x \<noteq> []) (nonblank xs)" by (auto simp: list_all_iff)
  have "nonblank (nonblank xs) = nonblank xs"
    by (induction xs) auto
  then show ?thesis
    using lines_join [OF st] join_Nil_iff [OF ne]
    by (auto simp: metadata_lines_def set_metadata_lines_def Let_def)
qed

lemma set_metadata_lines_other: "k' \<noteq> k \<Longrightarrow> set_metadata_lines m k xs k' = m k'"
  by (simp add: set_metadata_lines_def Let_def)

lemma metadata_optional_set:
  "metadata_optional_text (set_metadata_optional_text m k v) k
     = (case v of None \<Rightarrow> None | Some x \<Rightarrow> if trim x = [] then None else Some (trim x))"
  by (simp add: metadata_optional_text_def set_metadata_optional_text_def split: option.splits)

lemma set_metadata_optional_other: "k' \<noteq> k \<Longrightarrow> set_metadata_optional_text m k v k' = m k'"
  by (simp add: set_metadata_optional_text_def split: option.splits)

definition slot_key_list :: "rstr list" where
  "slot_key_list = [BACKGROUND_SLOT_PROJECT_FACTS, BACKGROUND_SLOT_CURRENT_TASK, BACKGROUND_SLOT_COMPLETED_WORK,
     BACKGROUND_SLOT_PENDING_WORK, BACKGROUND_SLOT_KEY_FILES, BACKGROUND_SLOT_TEST_RESULTS, BACKGROUND_SLOT_RISKS,
     BACKGROUND_SLOT_VERIFICATION_NEEDS]"

lemma slot_keys_distinct: "distinct slot_key_list"
  by (simp add: slot_key_list_def slot_keys)

text \<open>Storing is a sequence of updates whose values depend on the slots alone.\<close>

definition line_value :: "rstr list \<Rightarrow> rstr option" where
  "line_value xs = (let v = join [10] (nonblank xs) in if v = [] then None else Some v)"

definition text_value :: "rstr option \<Rightarrow> rstr option" where
  "text_value v = (case v of None \<Rightarrow> None | Some x \<Rightarrow> if trim x = [] then None else Some (trim x))"

lemma set_metadata_updates:
  "set_metadata_lines m k xs = m(k := line_value xs)" "set_metadata_optional_text m k v = m(k := text_value v)"
  by (simp_all add: set_metadata_lines_def line_value_def set_metadata_optional_text_def text_value_def Let_def
      split: option.splits)

lemma store_slots_lookup:
  "metadata_lines (store_slots m s) BACKGROUND_SLOT_PROJECT_FACTS
     = metadata_lines (set_metadata_lines m BACKGROUND_SLOT_PROJECT_FACTS (bs_project_facts s)) BACKGROUND_SLOT_PROJECT_FACTS"
  "metadata_optional_text (store_slots m s) BACKGROUND_SLOT_CURRENT_TASK
     = metadata_optional_text (set_metadata_optional_text m BACKGROUND_SLOT_CURRENT_TASK (bs_current_task s)) BACKGROUND_SLOT_CURRENT_TASK"
  "metadata_lines (store_slots m s) BACKGROUND_SLOT_COMPLETED_WORK
     = metadata_lines (set_metadata_lines m BACKGROUND_SLOT_COMPLETED_WORK (bs_completed_work s)) BACKGROUND_SLOT_COMPLETED_WORK"
  "metadata_lines (store_slots m s) BACKGROUND_SLOT_PENDING_WORK
     = metadata_lines (set_metadata_lines m BACKGROUND_SLOT_PENDING_WORK (bs_pending_work s)) BACKGROUND_SLOT_PENDING_WORK"
  "metadata_lines (store_slots m s) BACKGROUND_SLOT_KEY_FILES
     = metadata_lines (set_metadata_lines m BACKGROUND_SLOT_KEY_FILES (bs_key_files s)) BACKGROUND_SLOT_KEY_FILES"
  "metadata_lines (store_slots m s) BACKGROUND_SLOT_TEST_RESULTS
     = metadata_lines (set_metadata_lines m BACKGROUND_SLOT_TEST_RESULTS (bs_test_results s)) BACKGROUND_SLOT_TEST_RESULTS"
  "metadata_lines (store_slots m s) BACKGROUND_SLOT_RISKS
     = metadata_lines (set_metadata_lines m BACKGROUND_SLOT_RISKS (bs_risks s)) BACKGROUND_SLOT_RISKS"
  "metadata_lines (store_slots m s) BACKGROUND_SLOT_VERIFICATION_NEEDS
     = metadata_lines (set_metadata_lines m BACKGROUND_SLOT_VERIFICATION_NEEDS (bs_verification_needs s)) BACKGROUND_SLOT_VERIFICATION_NEEDS"
  using slot_keys_distinct
  by (simp_all add: slot_key_list_def store_slots_def Let_def metadata_lines_def metadata_optional_text_def
      set_metadata_updates)

lemma store_slots_other: "k \<notin> set slot_key_list \<Longrightarrow> store_slots m s k = m k"
  by (simp add: slot_key_list_def store_slots_def Let_def set_metadata_lines_other set_metadata_optional_other)

text \<open>Every item of the slots is a single line.\<close>
definition single_lines :: "background_compression_slots \<Rightarrow> bool" where
  "single_lines s \<longleftrightarrow> list_all (list_all (\<lambda>x. 10 \<notin> set x)) [bs_project_facts s, bs_completed_work s, bs_pending_work s,
     bs_key_files s, bs_test_results s, bs_risks s, bs_verification_needs s]"

definition drop_blank :: "background_compression_slots \<Rightarrow> background_compression_slots" where
  "drop_blank s = \<lparr>bs_project_facts = filter (\<lambda>x. x \<noteq> []) (bs_project_facts s),
     bs_current_task = bs_current_task s,
     bs_completed_work = filter (\<lambda>x. x \<noteq> []) (bs_completed_work s),
     bs_pending_work = filter (\<lambda>x. x \<noteq> []) (bs_pending_work s),
     bs_key_files = filter (\<lambda>x. x \<noteq> []) (bs_key_files s),
     bs_test_results = filter (\<lambda>x. x \<noteq> []) (bs_test_results s),
     bs_risks = filter (\<lambda>x. x \<noteq> []) (bs_risks s),
     bs_verification_needs = filter (\<lambda>x. x \<noteq> []) (bs_verification_needs s)\<rparr>"

lemma cap_vec_single_line:
  assumes "list_all (\<lambda>x. 10 \<notin> set x) xs" and "x \<in> set (cap_vec xs n k)"
  shows "10 \<notin> set x"
proof -
  obtain y where y: "y \<in> set (cap_vec_len xs n)" "x = cap_text y k"
    using assms(2) by (auto simp: cap_vec_def cap_vec_text_def)
  then have "10 \<notin> set y" using assms(1) set_cap_vec_len by (fastforce simp: list_all_iff)
  then show ?thesis using cap_text_set [of y k] y(2) by auto
qed

lemma map_trim_cap_vec: "0 < k \<Longrightarrow> map trim (cap_vec xs n k) = cap_vec xs n k"
  by (simp add: cap_vec_def cap_vec_text_def trim_cap_text)

lemma lines_after_cap:
  "list_all (\<lambda>x. 10 \<notin> set x) xs \<Longrightarrow> 0 < k \<Longrightarrow>
     metadata_lines (set_metadata_lines m key (cap_vec xs n k)) key = filter (\<lambda>x. x \<noteq> []) (cap_vec xs n k)"
  by (simp add: metadata_lines_set cap_vec_single_line map_trim_cap_vec)

lemma optional_after_cap:
  "0 < k \<Longrightarrow> metadata_optional_text (set_metadata_optional_text m key (cap_optional_text v k)) key = cap_optional_text v k"
  by (auto simp: metadata_optional_set cap_optional_text_def Let_def trim_cap_text split: option.splits)

lemma compression_slots_set:
  "single_lines s \<Longrightarrow> compression_slots (set_compression_slots st s) = drop_blank (slots_apply_budget_caps s)"
  by (simp add: compression_slots_def set_compression_slots_def store_slots_lookup single_lines_def
      slots_apply_budget_caps_def drop_blank_def lines_after_cap optional_after_cap Let_def)

lemma stored_lines_single: "list_all stored_line xs \<Longrightarrow> list_all (\<lambda>x. 10 \<notin> set x) xs"
  by (auto simp: list_all_iff stored_line_def)

lemma compression_slots_single: "single_lines (compression_slots st)"
  by (simp add: single_lines_def compression_slots_def stored_lines_single metadata_lines_stored Let_def)

lemma filter_cap_stored:
  assumes "list_all stored_line xs" and "0 < k"
  shows "filter (\<lambda>x. x \<noteq> []) (cap_vec xs n k) = cap_vec xs n k"
proof -
  have "x \<noteq> []" if "x \<in> set (cap_vec xs n k)" for x
  proof -
    obtain y where "y \<in> set (cap_vec_len xs n)" "x = cap_text y k"
      using \<open>x \<in> set (cap_vec xs n k)\<close> by (auto simp: cap_vec_def cap_vec_text_def)
    moreover from this have "stored_line y" using assms(1) set_cap_vec_len by (fastforce simp: list_all_iff)
    ultimately show ?thesis
      using assms(2) by (simp add: stored_line_def cap_text_blank trim_trimmed)
  qed
  then show ?thesis by (simp add: filter_id_conv)
qed

lemma drop_blank_stored:
  "drop_blank (slots_apply_budget_caps (compression_slots st)) = slots_apply_budget_caps (compression_slots st)"
  by (simp add: drop_blank_def slots_apply_budget_caps_def compression_slots_def filter_cap_stored metadata_lines_stored
      Let_def)

lemma slots_caps_idem: "slots_apply_budget_caps (slots_apply_budget_caps s) = slots_apply_budget_caps s"
  by (simp add: slots_apply_budget_caps_def cap_vec_idem cap_optional_idem)

lemma slots_after_cap:
  "compression_slots (apply_compression_slot_budget_caps st) = slots_apply_budget_caps (compression_slots st)"
  by (simp add: apply_compression_slot_budget_caps_def compression_slots_set compression_slots_single drop_blank_stored)

lemma store_slots_idem: "store_slots (store_slots m s) s = store_slots m s"
  by (rule ext) (simp add: store_slots_def Let_def set_metadata_updates)

lemma slot_caps_idem:
  "apply_compression_slot_budget_caps (apply_compression_slot_budget_caps st) = apply_compression_slot_budget_caps st"
proof -
  have "apply_compression_slot_budget_caps (apply_compression_slot_budget_caps st)
      = set_compression_slots (apply_compression_slot_budget_caps st) (slots_apply_budget_caps (compression_slots st))"
    by (subst apply_compression_slot_budget_caps_def) (simp add: slots_after_cap)
  then show ?thesis
    by (simp add: apply_compression_slot_budget_caps_def set_compression_slots_def slots_caps_idem store_slots_idem)
qed

section \<open>Legacy text\<close>

lemma first_legacy_label: "first_legacy (as_label k @ lit '': '' @ v) legacy_prefixes = Some (v, k)"
  by (cases k) (simp_all add: legacy_prefixes_def strip_prefix_def starts_with_def)

lemma canonical_after_sync:
  "canonical_backend_context_records (sync_backend_context_storage st) = canonical_backend_context_records st"
proof (cases "canonical_backend_context_records st = []")
  case True
  then show ?thesis
    by (simp add: sync_backend_context_storage_def Let_def canonical_backend_context_records_def)
next
  case False
  then have "sb_backend_context_records (sync_backend_context_storage st) = canonical_backend_context_records st"
    by (simp add: sync_backend_context_storage_def Let_def)
  with False show ?thesis by (simp add: canonical_backend_context_records_def)
qed

section \<open>Properties\<close>

definition slots_within :: "background_compression_slots \<Rightarrow> bool" where
  "slots_within s \<longleftrightarrow> within_caps 5 140 (bs_project_facts s) \<and> opt_within 180 (bs_current_task s)
     \<and> within_caps 5 140 (bs_completed_work s) \<and> within_caps 5 140 (bs_pending_work s)
     \<and> within_caps 8 180 (bs_key_files s) \<and> within_caps 6 180 (bs_test_results s)
     \<and> within_caps 4 140 (bs_risks s) \<and> within_caps 4 140 (bs_verification_needs s)"

definition session_within :: "session_background_state \<Rightarrow> bool" where
  "session_within st \<longleftrightarrow> opt_within 120 (sb_recent_emotional_state st) \<and> opt_within 160 (sb_workspace_focus st)
     \<and> opt_within 320 (sb_summary st) \<and> within_caps 5 100 (sb_active_topics st)
     \<and> within_caps 8 140 (sb_backend_contexts st)
     \<and> within_caps 8 140 (map bc_value (sb_backend_context_records st))
     \<and> within_caps 6 80 (map rm_recall_source (sb_retrieved_memory_objects st))
     \<and> within_caps 6 140 (map ws_url (sb_web_session_objects st))
     \<and> within_caps 6 140 (map as_path (sb_artifact_session_objects st))
     \<and> within_caps 6 100 (map ts_state (sb_task_session_objects st))
     \<and> within_caps 6 64 (map to_tool_name (sb_tool_session_objects st))
     \<and> within_caps 6 140 (map mm_locator (sb_multimodal_session_objects st))
     \<and> within_caps 5 140 (sb_open_loops st) \<and> within_caps 4 120 (sb_ongoing_goals st)
     \<and> within_caps 5 140 (sb_pending_followups st)
     \<and> slots_within (compression_slots st)"

lemma slots_within_caps: "slots_within (slots_apply_budget_caps s)"
  by (simp add: slots_within_def slots_apply_budget_caps_def cap_rules)

lemma within_caps_map: "0 < k \<Longrightarrow> within_caps n k (map (\<lambda>x. cap_text (h x) k) (cap_vec_len xs n))"
  by (auto simp: within_caps_def list_all_iff length_cap_vec_len cap_text_length)

lemma session_within_caps: "session_within (cap_session st)"
proof -
  have frame: "session_within (apply_compression_slot_budget_caps s)"
    if "session_within (s\<lparr>sb_metadata := Map.empty\<rparr>)" for s
    using that slots_after_cap [of s] slots_within_caps
    by (simp add: session_within_def apply_compression_slot_budget_caps_def set_compression_slots_def)
  have "slots_within (compression_slots (s\<lparr>sb_metadata := Map.empty\<rparr>))" for s
    by (simp add: compression_slots_def slots_within_def within_caps_def opt_within_def metadata_lines_def
        metadata_optional_text_def Let_def)
  then show ?thesis
    unfolding cap_session_def Let_def
    by (intro frame) (simp add: session_within_def cap_rules within_caps_map
        cap_context_record_def cap_memory_object_def cap_web_object_def cap_artifact_object_def cap_task_object_def
        cap_tool_object_def cap_multimodal_object_def o_def)
qed



definition sample_session :: session_background_state where
  "sample_session = \<lparr>sb_active_topics = [], sb_backend_contexts = [lit ''Web context: u''], sb_backend_context_records = [],
     sb_retrieved_memory_objects = [], sb_web_session_objects = [], sb_artifact_session_objects = [],
     sb_task_session_objects = [], sb_tool_session_objects = [], sb_multimodal_session_objects = [],
     sb_open_loops = [], sb_recent_emotional_state = None, sb_ongoing_goals = [], sb_workspace_focus = None,
     sb_pending_followups = [], sb_summary = None, sb_metadata = Map.empty\<rparr>"

definition sample_slots :: background_compression_slots where
  "sample_slots = \<lparr>bs_project_facts = [], bs_current_task = None, bs_completed_work = [], bs_pending_work = [],
     bs_key_files = [], bs_test_results = [], bs_risks = [lit '' disk '', lit '' '', lit ''net''],
     bs_verification_needs = []\<rparr>"


text \<open>
  Capping the slots is idempotent: a second pass over a session changes nothing, so
  repeated refreshes do not wear stored facts down.
\<close>
theorem slot_caps_idempotent:
  "apply_compression_slot_budget_caps (apply_compression_slot_budget_caps st) = apply_compression_slot_budget_caps st
   \<and> compression_slots (apply_compression_slot_budget_caps st) = slots_apply_budget_caps (compression_slots st)"
  using slot_caps_idem slots_after_cap by simp

text \<open>
  Legacy text. Rendering a labelled context record and parsing the text gives the
  record back, up to the spaces around its value and the source that the text does not
  carry; and converting a session's storage to records twice is the same as doing it once.
\<close>
theorem legacy_context_roundtrip:
  assumes "bc_kind r = Some kind" and "trim (bc_value r) \<noteq> []"
  shows "from_legacy_text (context_render r) = \<lparr>bc_kind = Some kind, bc_value = trim (bc_value r), bc_source = None\<rparr>
    \<and> context_render (from_legacy_text (context_render r)) = context_render r
    \<and> sync_backend_context_storage (sync_backend_context_storage st) = sync_backend_context_storage st"
proof -
  have render: "context_render r = as_label kind @ lit '': '' @ trim (bc_value r)"
    using assms by (simp add: context_render_def Let_def)
  have parse: "from_legacy_text (context_render r) = \<lparr>bc_kind = Some kind, bc_value = trim (bc_value r), bc_source = None\<rparr>"
    unfolding render from_legacy_text_def first_legacy_label by simp
  moreover have "context_render \<lparr>bc_kind = Some kind, bc_value = trim (bc_value r), bc_source = None\<rparr> = context_render r"
    using assms by (simp add: context_render_def Let_def)
  moreover have "sync_backend_context_storage (sync_backend_context_storage st) = sync_backend_context_storage st"
    using canonical_after_sync [of st] by (simp add: sync_backend_context_storage_def Let_def)
  ultimately show ?thesis by simp
qed

theorem legacy_context_roundtrip_witness:
  "from_legacy_text (context_render \<lparr>bc_kind = Some WebKind, bc_value = lit '' u '', bc_source = Some []\<rparr>)
     = \<lparr>bc_kind = Some WebKind, bc_value = lit ''u'', bc_source = None\<rparr>"
proof -
  let ?r = "\<lparr>bc_kind = Some WebKind, bc_value = lit '' u '', bc_source = Some []\<rparr>"
  have t: "trim (lit '' u '') = lit ''u''" by (simp add: trim_def trim_start_def trim_end_def is_ws_def)
  have "bc_kind ?r = Some WebKind" "trim (bc_value ?r) \<noteq> []" using t by simp_all
  from legacy_context_roundtrip [OF this, of sample_session] t show ?thesis by simp
qed

end
