(* ===== verification/Scheduler.thy ===== *)
theory Scheduler
  imports Redb_Store
begin

text \<open>
  The crate \<^verbatim>\<open>scheduler\<close> (\<^verbatim>\<open>lib.rs\<close>): the persistent store of jobs and execution records and
  the scheduler that registers jobs with a timer runtime. The database comes with its errors
  already turned into \<open>Internal\<close> errors; the timer runtime (\<^verbatim>\<open>tokio_cron_scheduler\<close>) is the
  argument \<open>T\<close> over an explicit state, the job handler's outcome is an argument of
  \<open>execute_payload\<close>, and every reading of the clock is an argument.
\<close>

section \<open>Data\<close>

definition CRON_JOBS_TABLE :: rstr where "CRON_JOBS_TABLE = lit ''cron_jobs''"
definition CRON_EXECUTIONS_TABLE :: rstr where "CRON_EXECUTIONS_TABLE = lit ''cron_executions''"

datatype scheduler_error = Internal rstr | Execution rstr | HandlerDropped

record job_execution_record =
  je_job_id :: uuid
  je_job_name :: rstr
  je_start_time :: time
  je_end_time :: time
  je_success :: bool
  je_result :: "rstr option"
  je_error :: "rstr option"

datatype job_schedule = At (at_time: time) | Every (interval_secs: u64) | Cron (expr: rstr)

datatype 'role job_payload =
    AgentTurn 'role rstr
  | SummarizeDoc rstr rstr rstr
  | DistillLogs nat
  | ConsolidateMemory nat "rstr option" "rstr option"

record 'role cron_job =
  cj_id :: uuid
  cj_name :: rstr
  cj_schedule :: job_schedule
  cj_payload :: "'role job_payload"
  cj_enabled :: bool
  cj_last_run_at :: "time option"
  cj_error_count :: u32
  cj_max_retries :: u32
  cj_priority :: "8 word"

section \<open>The store\<close>

definition save_job :: "(scheduler_error, 'db, 'b) redb \<Rightarrow> (scheduler_error, 'role cron_job, 'b) codec \<Rightarrow> (uuid \<Rightarrow> rstr) \<Rightarrow>
  'db \<Rightarrow> 'role cron_job \<Rightarrow> scheduler_error + 'db" where
  "save_job R C us d job = put_record R C CRON_JOBS_TABLE d (us (cj_id job)) job"

definition store_remove_job :: "(scheduler_error, 'db, 'b) redb \<Rightarrow> (uuid \<Rightarrow> rstr) \<Rightarrow> 'db \<Rightarrow> uuid \<Rightarrow> scheduler_error + 'db" where
  "store_remove_job R us d jid = res_bind (db_remove R d CRON_JOBS_TABLE (us jid)) (\<lambda>(d', _). Inr d')"

definition load_all_jobs :: "(scheduler_error, 'db, 'b) redb \<Rightarrow> (scheduler_error, 'role cron_job, 'b) codec \<Rightarrow> 'db \<Rightarrow>
  scheduler_error + 'role cron_job list" where
  "load_all_jobs R C d = all_records R C CRON_JOBS_TABLE d"

text \<open>\<open>nanos\<close> prints the start time, or 0 where it is out of the range of nanoseconds.\<close>
definition execution_key :: "(uuid \<Rightarrow> rstr) \<Rightarrow> (time \<Rightarrow> rstr) \<Rightarrow> job_execution_record \<Rightarrow> rstr" where
  "execution_key us nanos r = us (je_job_id r) @ lit '':'' @ nanos (je_start_time r)"

definition save_execution_record :: "(scheduler_error, 'db, 'b) redb \<Rightarrow> (scheduler_error, job_execution_record, 'b) codec \<Rightarrow>
  (uuid \<Rightarrow> rstr) \<Rightarrow> (time \<Rightarrow> rstr) \<Rightarrow> 'db \<Rightarrow> job_execution_record \<Rightarrow> scheduler_error + 'db" where
  "save_execution_record R C us nanos d r = put_record R C CRON_EXECUTIONS_TABLE d (execution_key us nanos r) r"

text \<open>The loop of \<^verbatim>\<open>load_execution_records\<close>: stop at the first foreign key, or after a push that reaches the limit.\<close>
fun scan_records :: "(scheduler_error, 'a, 'b) codec \<Rightarrow> rstr \<Rightarrow> nat \<Rightarrow> 'a list \<Rightarrow> (rstr \<times> 'b) list \<Rightarrow> scheduler_error + 'a list" where
  "scan_records C pre limit acc [] = Inr acc"
| "scan_records C pre limit acc ((k, v) # kvs) =
     (if \<not> starts_with k pre then Inr acc
      else res_bind (from_slice C v) (\<lambda>r.
        let acc' = acc @ [r] in if length acc' \<ge> limit then Inr acc' else scan_records C pre limit acc' kvs))"

definition load_execution_records :: "(scheduler_error, 'db, 'b) redb \<Rightarrow> (scheduler_error, job_execution_record, 'b) codec \<Rightarrow>
  (uuid \<Rightarrow> rstr) \<Rightarrow> 'db \<Rightarrow> uuid \<Rightarrow> nat \<Rightarrow> scheduler_error + job_execution_record list" where
  "load_execution_records R C us d job_id limit =
     res_bind (db_iter R d CRON_EXECUTIONS_TABLE) (\<lambda>kvs.
       scan_records C (us job_id) limit [] (filter (\<lambda>kv. us job_id \<le> fst kv) kvs))"

section \<open>The scheduler\<close>

datatype timer = OneShot time | Repeated u64 | CronTimer rstr

record ('rt, 'tj) timers =
  tm_create :: "timer \<Rightarrow> scheduler_error + 'tj"
  tm_add :: "'rt \<Rightarrow> 'tj \<Rightarrow> scheduler_error + ('rt \<times> uuid)"
  tm_remove :: "'rt \<Rightarrow> uuid \<Rightarrow> 'rt"

record ('db, 'rt, 'role) scheduler =
  sc_jobs :: "uuid \<rightharpoonup> 'role cron_job"
  sc_timers :: 'rt
  sc_store :: "'db option"

definition scheduler_new :: "'rt \<Rightarrow> 'db option \<Rightarrow> ('db, 'rt, 'role) scheduler" where
  "scheduler_new rt store = \<lparr>sc_jobs = Map.empty, sc_timers = rt, sc_store = store\<rparr>"

text \<open>A store operation that is skipped without a store, and one whose error is ignored.\<close>
definition with_store :: "('db \<Rightarrow> scheduler_error + 'db) \<Rightarrow> ('db, 'rt, 'role) scheduler \<Rightarrow> scheduler_error + ('db, 'rt, 'role) scheduler" where
  "with_store f s = (case sc_store s of None \<Rightarrow> Inr s | Some d \<Rightarrow> res_bind (f d) (\<lambda>d'. Inr (s\<lparr>sc_store := Some d'\<rparr>)))"

definition try_store :: "('db \<Rightarrow> scheduler_error + 'db) \<Rightarrow> ('db, 'rt, 'role) scheduler \<Rightarrow> ('db, 'rt, 'role) scheduler" where
  "try_store f s = (case with_store f s of Inl _ \<Rightarrow> s | Inr s' \<Rightarrow> s')"

text \<open>No timer when the schedule lies in the past: the job is then not registered.\<close>
definition timer_for :: "job_schedule \<Rightarrow> time \<Rightarrow> timer option" where
  "timer_for schedule now = (case schedule of
     At t \<Rightarrow> if t \<le> now then None else Some (OneShot (t - now))
   | Every secs \<Rightarrow> Some (Repeated secs)
   | Cron e \<Rightarrow> Some (CronTimer e))"

definition register_job_runtime ::
  "(scheduler_error, 'db, 'b) redb \<Rightarrow> (scheduler_error, 'role cron_job, 'b) codec \<Rightarrow> (uuid \<Rightarrow> rstr) \<Rightarrow> ('rt, 'tj) timers \<Rightarrow>
   time \<Rightarrow> 'role cron_job \<Rightarrow> ('db, 'rt, 'role) scheduler \<Rightarrow> ('db, 'rt, 'role) scheduler \<times> (scheduler_error + uuid)" where
  "register_job_runtime R C us T now job s =
     (case timer_for (cj_schedule job) now of
        None \<Rightarrow> (s, Inr (cj_id job))
      | Some t \<Rightarrow>
          (case res_bind (tm_create T t) (tm_add T (sc_timers s)) of
             Inl e \<Rightarrow> (s, Inl e)
           | Inr (rt, registered_id) \<Rightarrow>
               (let job' = job\<lparr>cj_id := registered_id\<rparr>;
                    s1 = s\<lparr>sc_timers := rt, sc_jobs := (sc_jobs s)(registered_id \<mapsto> job')\<rparr>;
                    s2 = (if registered_id \<noteq> cj_id job
                          then try_store (\<lambda>d. store_remove_job R us d (cj_id job)) (s1\<lparr>sc_jobs := (sc_jobs s1)(cj_id job := None)\<rparr>)
                          else s1)
                in case with_store (\<lambda>d. save_job R C us d job') s2 of
                     Inl e \<Rightarrow> (s2, Inl e)
                   | Inr s3 \<Rightarrow> (s3, Inr registered_id))))"

fun load_jobs_loop ::
  "(scheduler_error, 'db, 'b) redb \<Rightarrow> (scheduler_error, 'role cron_job, 'b) codec \<Rightarrow> (uuid \<Rightarrow> rstr) \<Rightarrow> ('rt, 'tj) timers \<Rightarrow>
   time list \<Rightarrow> 'role cron_job list \<Rightarrow> ('db, 'rt, 'role) scheduler \<Rightarrow> ('db, 'rt, 'role) scheduler \<times> (scheduler_error + unit)" where
  "load_jobs_loop R C us T nows [] s = (s, Inr ())"
| "load_jobs_loop R C us T nows (job # jobs) s =
     (case register_job_runtime R C us T (hd nows) job s of
        (s', Inl e) \<Rightarrow> (s', Inl e)
      | (s', Inr _) \<Rightarrow> load_jobs_loop R C us T (tl nows) jobs s')"

text \<open>\<open>nows\<close> are the readings of the clock, one for each job.\<close>
definition load_jobs ::
  "(scheduler_error, 'db, 'b) redb \<Rightarrow> (scheduler_error, 'role cron_job, 'b) codec \<Rightarrow> (uuid \<Rightarrow> rstr) \<Rightarrow> ('rt, 'tj) timers \<Rightarrow>
   time list \<Rightarrow> ('db, 'rt, 'role) scheduler \<Rightarrow> ('db, 'rt, 'role) scheduler \<times> (scheduler_error + unit)" where
  "load_jobs R C us T nows s =
     (case sc_store s of
        None \<Rightarrow> (s, Inr ())
      | Some d \<Rightarrow> (case load_all_jobs R C d of
            Inl e \<Rightarrow> (s, Inl e)
          | Inr jobs \<Rightarrow> load_jobs_loop R C us T nows jobs s))"

definition new_job :: "uuid \<Rightarrow> rstr \<Rightarrow> job_schedule \<Rightarrow> 'role job_payload \<Rightarrow> 'role cron_job" where
  "new_job fresh_id name schedule payload = \<lparr>cj_id = fresh_id, cj_name = name, cj_schedule = schedule, cj_payload = payload,
     cj_enabled = True, cj_last_run_at = None, cj_error_count = 0, cj_max_retries = 3, cj_priority = 5\<rparr>"

definition add_job ::
  "(scheduler_error, 'db, 'b) redb \<Rightarrow> (scheduler_error, 'role cron_job, 'b) codec \<Rightarrow> (uuid \<Rightarrow> rstr) \<Rightarrow> ('rt, 'tj) timers \<Rightarrow>
   uuid \<Rightarrow> time \<Rightarrow> rstr \<Rightarrow> job_schedule \<Rightarrow> 'role job_payload \<Rightarrow> ('db, 'rt, 'role) scheduler \<Rightarrow>
   ('db, 'rt, 'role) scheduler \<times> (scheduler_error + uuid)" where
  "add_job R C us T fresh_id now name schedule payload s =
     register_job_runtime R C us T now (new_job fresh_id name schedule payload) s"

text \<open>The first part of \<^verbatim>\<open>update_job_status\<close>: the new record of the job and whether it is retried.\<close>
definition job_after_run :: "time \<Rightarrow> bool \<Rightarrow> 'role cron_job \<Rightarrow> 'role cron_job" where
  "job_after_run now success job =
     (let job1 = job\<lparr>cj_last_run_at := Some now\<rparr>
      in if success then job1\<lparr>cj_error_count := 0\<rparr>
         else let job2 = job1\<lparr>cj_error_count := cj_error_count job1 + 1\<rparr>
              in if cj_error_count job2 > cj_max_retries job2 then job2\<lparr>cj_enabled := False\<rparr> else job2)"

definition gave_up :: "bool \<Rightarrow> 'role cron_job \<Rightarrow> bool" where
  "gave_up success job \<longleftrightarrow> \<not> success \<and> cj_error_count job + 1 > cj_max_retries job"

definition retried :: "bool \<Rightarrow> 'role cron_job \<Rightarrow> bool" where
  "retried success job \<longleftrightarrow> \<not> success \<and> \<not> gave_up success job \<and> (case cj_schedule job of At _ \<Rightarrow> True | _ \<Rightarrow> False)"

text \<open>
  \<^verbatim>\<open>update_job_status\<close>; the clock is read for the record (\<open>now1\<close>), for the time of a retry
  (\<open>now2\<close>) and inside its registration (\<open>now3\<close>). The result of the registration is ignored.
\<close>
definition update_job_status ::
  "(scheduler_error, 'db, 'b) redb \<Rightarrow> (scheduler_error, 'role cron_job, 'b) codec \<Rightarrow> (uuid \<Rightarrow> rstr) \<Rightarrow> ('rt, 'tj) timers \<Rightarrow>
   time \<Rightarrow> time \<Rightarrow> time \<Rightarrow> uuid \<Rightarrow> bool \<Rightarrow> ('db, 'rt, 'role) scheduler \<Rightarrow> ('db, 'rt, 'role) scheduler \<times> (scheduler_error + unit)" where
  "update_job_status R C us T now1 now2 now3 jid success s =
     (case sc_jobs s jid of
        None \<Rightarrow> (s, Inr ())
      | Some job \<Rightarrow>
          (let job' = job_after_run now1 success job;
               s1 = s\<lparr>sc_jobs := (sc_jobs s)(jid \<mapsto> job'),
                      sc_timers := (if gave_up success job then tm_remove T (sc_timers s) jid else sc_timers s)\<rparr>
           in case with_store (\<lambda>d. save_job R C us d job') s1 of
                Inl e \<Rightarrow> (s1, Inl e)
              | Inr s2 \<Rightarrow>
                  if retried success job
                  then (fst (register_job_runtime R C us T now3 (job'\<lparr>cj_schedule := At (now2 + 30 * 1000000000)\<rparr>) s2), Inr ())
                  else (s2, Inr ())))"

definition list_jobs :: "('db, 'rt, 'role) scheduler \<Rightarrow> 'role cron_job set" where
  "list_jobs s = ran (sc_jobs s)"

definition scheduler_remove_job ::
  "(scheduler_error, 'db, 'b) redb \<Rightarrow> (uuid \<Rightarrow> rstr) \<Rightarrow> ('rt, 'tj) timers \<Rightarrow> uuid \<Rightarrow> ('db, 'rt, 'role) scheduler \<Rightarrow>
   ('db, 'rt, 'role) scheduler \<times> bool" where
  "scheduler_remove_job R us T jid s =
     (let s1 = s\<lparr>sc_timers := tm_remove T (sc_timers s) jid\<rparr>;
          s2 = try_store (\<lambda>d. store_remove_job R us d jid) s1
      in (s2\<lparr>sc_jobs := (sc_jobs s2)(jid := None)\<rparr>, sc_jobs s2 jid \<noteq> None))"

datatype handler_outcome = Dropped | Finished "scheduler_error + rstr option" | TimedOut

definition execute_payload :: "handler_outcome \<Rightarrow> scheduler_error + unit" where
  "execute_payload h = (case h of
     Dropped \<Rightarrow> Inl HandlerDropped
   | Finished (Inr _) \<Rightarrow> Inr ()
   | Finished (Inl e) \<Rightarrow> Inl e
   | TimedOut \<Rightarrow> Inl (Execution (lit ''Timeout'')))"

text \<open>The clock is read for the schedule (\<open>now1\<close>) and inside the registration (\<open>now2\<close>).\<close>
definition trigger_consolidation ::
  "(scheduler_error, 'db, 'b) redb \<Rightarrow> (scheduler_error, 'role cron_job, 'b) codec \<Rightarrow> (uuid \<Rightarrow> rstr) \<Rightarrow> ('rt, 'tj) timers \<Rightarrow>
   uuid \<Rightarrow> time \<Rightarrow> time \<Rightarrow> rstr option \<Rightarrow> nat \<Rightarrow> ('db, 'rt, 'role) scheduler \<Rightarrow>
   ('db, 'rt, 'role) scheduler \<times> (scheduler_error + uuid)" where
  "trigger_consolidation R C us T fresh_id now1 now2 agent_id limit s =
     add_job R C us T fresh_id now2 (lit ''manual_consolidation'') (At now1) (ConsolidateMemory limit agent_id None) s"

section \<open>Lemmas\<close>

lemma with_store_frame:
  "with_store f s = Inr s' \<Longrightarrow> sc_jobs s' = sc_jobs s \<and> sc_timers s' = sc_timers s"
  by (auto simp: with_store_def res_bind_eq_Inr split: option.splits)

lemma try_store_frame [simp]: "sc_jobs (try_store f s) = sc_jobs s" "sc_timers (try_store f s) = sc_timers s"
  by (cases "with_store f s"; simp add: try_store_def with_store_frame)+

lemma update_recurring:
  assumes "sc_jobs s jid = Some job" and "\<And>t. cj_schedule job \<noteq> At t"
    and "update_job_status R C us T n1 n2 n3 jid ok s = (s', r)"
  shows "sc_jobs s' = (sc_jobs s)(jid \<mapsto> job_after_run n1 ok job)"
    and "sc_timers s' = (if gave_up ok job then tm_remove T (sc_timers s) jid else sc_timers s)"
proof -
  have "\<not> retried ok job" using assms(2) by (auto simp: retried_def split: job_schedule.splits)
  then show "sc_jobs s' = (sc_jobs s)(jid \<mapsto> job_after_run n1 ok job)"
    and "sc_timers s' = (if gave_up ok job then tm_remove T (sc_timers s) jid else sc_timers s)"
    using assms(1,3) by (auto simp: update_job_status_def Let_def dest!: with_store_frame split: sum.splits)
qed

text \<open>Failing runs of one job, one after the other.\<close>
fun failing_runs ::
  "(scheduler_error, 'db, 'b) redb \<Rightarrow> (scheduler_error, 'role cron_job, 'b) codec \<Rightarrow> (uuid \<Rightarrow> rstr) \<Rightarrow> ('rt, 'tj) timers \<Rightarrow>
   uuid \<Rightarrow> (time \<times> time \<times> time) list \<Rightarrow> ('db, 'rt, 'role) scheduler \<Rightarrow> ('db, 'rt, 'role) scheduler" where
  "failing_runs R C us T jid [] s = s"
| "failing_runs R C us T jid ((n1, n2, n3) # ts) s =
     failing_runs R C us T jid ts (fst (update_job_status R C us T n1 n2 n3 jid False s))"

lemma job_after_failure:
  assumes "unat (cj_error_count job) \<le> unat (cj_max_retries job)" "unat (cj_max_retries job) < 2 ^ 32 - 1"
  shows "unat (cj_error_count (job_after_run now False job)) = unat (cj_error_count job) + 1"
    and "cj_enabled (job_after_run now False job) \<longleftrightarrow> cj_enabled job \<and> unat (cj_error_count job) < unat (cj_max_retries job)"
    and "cj_max_retries (job_after_run now False job) = cj_max_retries job"
    and "cj_schedule (job_after_run now False job) = cj_schedule job"
proof -
  have u: "unat (cj_error_count job + 1) = unat (cj_error_count job) + 1"
    using assms by (simp add: unat_word_ariths)
  then have over: "cj_max_retries job < cj_error_count job + 1 \<longleftrightarrow> \<not> unat (cj_error_count job) < unat (cj_max_retries job)"
    by (simp add: word_less_nat_alt not_less less_Suc_eq_le)
  show "unat (cj_error_count (job_after_run now False job)) = unat (cj_error_count job) + 1"
    "cj_enabled (job_after_run now False job) \<longleftrightarrow> cj_enabled job \<and> unat (cj_error_count job) < unat (cj_max_retries job)"
    "cj_max_retries (job_after_run now False job) = cj_max_retries job"
    "cj_schedule (job_after_run now False job) = cj_schedule job"
    unfolding job_after_run_def Let_def by (simp_all add: u over)
qed

lemma failing_runs_count:
  assumes "sc_jobs s jid = Some job" and "\<And>t. cj_schedule job \<noteq> At t"
    and "unat (cj_max_retries job) < 2 ^ 32 - 1"
    and "unat (cj_error_count job) + length ts \<le> unat (cj_max_retries job) + 1"
  shows "\<exists>job'. sc_jobs (failing_runs R C us T jid ts s) jid = Some job'
    \<and> unat (cj_error_count job') = unat (cj_error_count job) + length ts
    \<and> cj_enabled job' = (cj_enabled job \<and> (ts = [] \<or> unat (cj_error_count job) + length ts \<le> unat (cj_max_retries job)))"
  using assms
proof (induction ts arbitrary: s job)
  case (Cons x ts)
  obtain n1 n2 n3 where x: "x = (n1, n2, n3)" by (cases x) auto
  let ?s = "fst (update_job_status R C us T n1 n2 n3 jid False s)"
  let ?job = "job_after_run n1 False job"
  have le: "unat (cj_error_count job) \<le> unat (cj_max_retries job)" using Cons.prems(4) by simp
  note after = job_after_failure [OF le Cons.prems(3), of n1]
  obtain s' r where upd: "update_job_status R C us T n1 n2 n3 jid False s = (s', r)" by fastforce
  have "sc_jobs ?s jid = Some ?job" using update_recurring(1) [OF Cons.prems(1,2) upd] upd by simp
  from Cons.IH [OF this] after Cons.prems(2-4) obtain job' where
    "sc_jobs (failing_runs R C us T jid ts ?s) jid = Some job'"
    "unat (cj_error_count job') = unat (cj_error_count job) + 1 + length ts"
    "cj_enabled job' = (cj_enabled ?job \<and> (ts = [] \<or> unat (cj_error_count job) + 1 + length ts \<le> unat (cj_max_retries job)))"
    by auto
  then show ?case using after(2) Cons.prems(4) by (auto simp: x)
qed simp

subsection \<open>Keys with a common prefix\<close>

text \<open>Between a string and one of its extensions lie only extensions.\<close>
lemma prefix_interval: "p \<le> k \<Longrightarrow> k \<le> p @ x \<Longrightarrow> starts_with k p" for p k x :: rstr
proof (induction p arbitrary: k)
  case Nil
  then show ?case by (simp add: starts_with_def)
next
  case (Cons c p)
  then obtain d k' where k: "k = d # k'" by (cases k) auto
  then show ?case using Cons by (auto simp: starts_with_def)
qed

lemma prefix_le: "starts_with k p \<Longrightarrow> p \<le> k" for p k :: rstr
proof -
  assume "starts_with k p"
  then obtain x where "k = p @ x" by (auto simp: starts_with_iff)
  moreover have "p \<le> p @ x" by (induction p) auto
  ultimately show ?thesis by simp
qed

text \<open>In a sorted table the keys with a prefix form one block.\<close>
lemma prefix_block:
  assumes "sorted_wrt (<) (map fst kvs)"
  shows "takeWhile (\<lambda>kv. starts_with (fst kv) p) (filter (\<lambda>kv. p \<le> fst kv) kvs) = filter (\<lambda>kv. starts_with (fst kv) p) kvs"
  using assms
proof (induction kvs)
  case (Cons kv kvs)
  then have IH: "takeWhile (\<lambda>kv. starts_with (fst kv) p) (filter (\<lambda>kv. p \<le> fst kv) kvs) = filter (\<lambda>kv. starts_with (fst kv) p) kvs"
    by simp
  show ?case
  proof (cases "p \<le> fst kv \<and> \<not> starts_with (fst kv) p")
    case True
    have "\<not> starts_with (fst x) p" if "x \<in> set kvs" for x
    proof
      assume "starts_with (fst x) p"
      then obtain y where "fst x = p @ y" by (auto simp: starts_with_iff)
      moreover have "fst kv \<le> fst x" using Cons.prems that by auto
      ultimately show False using True prefix_interval by metis
    qed
    with True show ?thesis by (simp add: filter_empty_conv)
  next
    case False
    then show ?thesis using IH prefix_le by auto
  qed
qed simp

lemma scan_records_spec:
  "scan_records C p limit acc kvs = Inr rs \<Longrightarrow> length acc < max limit 1 \<Longrightarrow>
     \<exists>new. rs = acc @ new
       \<and> list_all2 (\<lambda>kv r. from_slice C (snd kv) = Inr r)
           (take (max limit 1 - length acc) (takeWhile (\<lambda>kv. starts_with (fst kv) p) kvs)) new"
proof (induction C p limit acc kvs rule: scan_records.induct)
  case (2 C p limit acc k v kvs)
  show ?case
  proof (cases "starts_with k p")
    case False
    with 2 show ?thesis by auto
  next
    case True
    with "2.prems"(1) obtain r where r: "from_slice C v = Inr r"
      and rest: "(if length (acc @ [r]) \<ge> limit then Inr (acc @ [r]) else scan_records C p limit (acc @ [r]) kvs) = Inr rs"
      by (auto simp: res_bind_eq_Inr Let_def)
    show ?thesis
    proof (cases "length (acc @ [r]) \<ge> limit")
      case True
      then have "max limit 1 - length acc = 1" using "2.prems"(2) by auto
      then show ?thesis using True rest r \<open>starts_with k p\<close> by auto
    next
      case False
      then have step: "scan_records C p limit (acc @ [r]) kvs = Inr rs" using rest by simp
      have "length (acc @ [r]) < max limit 1" using False by auto
      from "2.IH" [OF _ refl False step this] True obtain new where
        new: "rs = (acc @ [r]) @ new" "list_all2 (\<lambda>kv r. from_slice C (snd kv) = Inr r)
          (take (max limit 1 - length (acc @ [r])) (takeWhile (\<lambda>kv. starts_with (fst kv) p) kvs)) new" by auto
      have "max limit 1 - length acc = Suc (max limit 1 - length (acc @ [r]))" using False by auto
      then show ?thesis using new r True by (intro exI [of _ "r # new"]) simp
    qed
  qed
qed simp

section \<open>Properties\<close>

text \<open>A timer runtime that numbers its jobs, and two sample jobs.\<close>
definition sample_timers :: "(uuid list, timer) timers" where
  "sample_timers = \<lparr>tm_create = Inr, tm_add = (\<lambda>rt _. Inr (of_nat (length rt) # rt, of_nat (length rt))),
     tm_remove = (\<lambda>rt i. filter (\<lambda>x. x \<noteq> i) rt)\<rparr>"

definition sample_job :: "nat cron_job" where
  "sample_job = new_job 0 (lit ''j'') (Every 60) (DistillLogs 5)"

definition sample_scheduler :: "(nat cron_job mem_db, uuid list, nat) scheduler" where
  "sample_scheduler = \<lparr>sc_jobs = [0 \<mapsto> sample_job], sc_timers = [0], sc_store = None\<rparr>"

text \<open>
  Retries of a recurring job. Failing runs are counted one by one; the job stays
  enabled through \<open>max_retries\<close> failures in a row and is disabled by the next one. Errors of
  the store do not change this.
\<close>
theorem recurring_job_disabled_after_retries:
  assumes "sc_jobs s jid = Some job" and "\<And>t. cj_schedule job \<noteq> At t"
    and "cj_enabled job" and "cj_error_count job = 0" and "unat (cj_max_retries job) < 2 ^ 32 - 1"
    and "length ts \<le> unat (cj_max_retries job) + 1"
  shows "\<exists>job'. sc_jobs (failing_runs R C us T jid ts s) jid = Some job'
    \<and> unat (cj_error_count job') = length ts
    \<and> (cj_enabled job' = (length ts \<le> unat (cj_max_retries job)))"
  using failing_runs_count [of s jid job ts R C us T] assms by (cases ts) auto

theorem recurring_job_disabled_after_retries_witness:
  "\<exists>job'. sc_jobs (failing_runs mem_redb mem_json (\<lambda>_. []) sample_timers 0
      [(1, 1, 1), (2, 2, 2), (3, 3, 3), (4, 4, 4)] sample_scheduler) 0 = Some job' \<and> \<not> cj_enabled job'"
proof -
  have "sc_jobs sample_scheduler 0 = Some sample_job" by (simp add: sample_scheduler_def)
  moreover have "\<And>t. cj_schedule sample_job \<noteq> At t" "cj_enabled sample_job" "cj_error_count sample_job = 0"
    "unat (cj_max_retries sample_job) = 3"
    by (simp_all add: sample_job_def new_job_def)
  ultimately show ?thesis
    using recurring_job_disabled_after_retries [of sample_scheduler 0 sample_job
        "[(1, 1, 1), (2, 2, 2), (3, 3, 3), (4, 4, 4)]" mem_redb mem_json "\<lambda>_. []" sample_timers] by auto
qed

text \<open>
  A manual consolidation never runs. \<^verbatim>\<open>trigger_consolidation\<close> schedules the job for the
  present moment, and registration skips every schedule that is not in the future. Since
  the clock does not go back between the two readings, the call returns an identifier and
  success, but no timer, job or stored record exists for it.
\<close>
theorem consolidation_is_never_scheduled:
  assumes "now1 \<le> now2"
  shows "trigger_consolidation R C us T fresh now1 now2 agent limit s = (s, Inr fresh)"
  using assms
  by (simp add: trigger_consolidation_def add_job_def register_job_runtime_def timer_for_def new_job_def)

theorem consolidation_is_never_scheduled_witness:
  "trigger_consolidation mem_redb mem_json (\<lambda>_. []) sample_timers 9 100 100 None 5 sample_scheduler
     = (sample_scheduler, Inr 9)"
  by (rule consolidation_is_never_scheduled) simp

text \<open>
  Disabled jobs come back. A job that was disabled after too many failures is stored
  with that flag, but loading the jobs does not look at it: after a restart the job has a
  timer again and is in the table of jobs, still marked as disabled.
\<close>
theorem load_jobs_revives_disabled_job:
  assumes "sc_store s = Some d" and "load_all_jobs R C d = Inr [job]"
    and "\<not> cj_enabled job" and "\<And>t. cj_schedule job \<noteq> At t"
    and "res_bind (tm_create T t) (tm_add T (sc_timers s)) = Inr (rt, reg)"
    and "timer_for (cj_schedule job) now = Some t"
  shows "sc_timers (fst (load_jobs R C us T [now] s)) = rt
    \<and> sc_jobs (fst (load_jobs R C us T [now] s)) reg = Some (job\<lparr>cj_id := reg\<rparr>)
    \<and> \<not> cj_enabled (job\<lparr>cj_id := reg\<rparr>)"
proof -
  have "sc_timers (fst (register_job_runtime R C us T now job s)) = rt
    \<and> sc_jobs (fst (register_job_runtime R C us T now job s)) reg = Some (job\<lparr>cj_id := reg\<rparr>)"
    using assms(5,6)
    by (auto simp: register_job_runtime_def Let_def dest!: with_store_frame split: sum.splits)
  moreover have "fst (load_jobs R C us T [now] s) = fst (register_job_runtime R C us T now job s)"
    by (simp add: load_jobs_def assms(1,2) split: prod.splits sum.splits)
  ultimately show ?thesis using assms(3) by simp
qed

theorem load_jobs_revives_disabled_job_witness:
  "sc_timers (fst (load_jobs mem_redb mem_json (\<lambda>_. []) sample_timers [7]
     (scheduler_new [] (Some ((\<lambda>_. [])(CRON_JOBS_TABLE := [([], sample_job\<lparr>cj_enabled := False\<rparr>)])))))) = [0]"
proof -
  let ?d = "(\<lambda>_. [])(CRON_JOBS_TABLE := [([], sample_job\<lparr>cj_enabled := False\<rparr>)])"
  let ?s = "scheduler_new [] (Some ?d) :: (nat cron_job mem_db, uuid list, nat) scheduler"
  have "sc_store ?s = Some ?d" "load_all_jobs mem_redb mem_json ?d = Inr [sample_job\<lparr>cj_enabled := False\<rparr>]"
    "\<not> cj_enabled (sample_job\<lparr>cj_enabled := False\<rparr>)"
    by (simp_all add: scheduler_new_def load_all_jobs_def mem_simps)
  moreover have "\<And>t. cj_schedule (sample_job\<lparr>cj_enabled := False\<rparr>) \<noteq> At t"
    "timer_for (cj_schedule (sample_job\<lparr>cj_enabled := False\<rparr>)) 7 = Some (Repeated 60)"
    by (simp_all add: sample_job_def new_job_def timer_for_def)
  moreover have "res_bind (tm_create sample_timers (Repeated 60)) (tm_add sample_timers (sc_timers ?s)) = Inr ([0], 0)"
    by (simp add: sample_timers_def scheduler_new_def)
  ultimately show ?thesis by (intro load_jobs_revives_disabled_job [THEN conjunct1])
qed

text \<open>
  Execution records. For an ordered table, \<^verbatim>\<open>load_execution_records\<close> returns the records
  whose keys begin with the job's identifier, in key order, at most \<open>limit\<close> of them; a limit
  of zero still gives one record if there is any.
\<close>
theorem execution_records_by_prefix:
  assumes "ordered_tables R contents" and "db_iter R d CRON_EXECUTIONS_TABLE = Inr kvs"
    and "load_execution_records R C us d jid limit = Inr rs"
  shows "list_all2 (\<lambda>kv r. from_slice C (snd kv) = Inr r)
      (take (max limit 1) (filter (\<lambda>kv. starts_with (fst kv) (us jid)) kvs)) rs"
proof -
  have "sorted_wrt (<) (map fst kvs)" using ordered_tables.iter_ok [OF assms(1,2)] by simp
  note block = prefix_block [OF this, of "us jid"]
  have "scan_records C (us jid) limit [] (filter (\<lambda>kv. us jid \<le> fst kv) kvs) = Inr rs"
    using assms(2,3) by (simp add: load_execution_records_def)
  from scan_records_spec [OF this] show ?thesis by (simp add: block)
qed

definition sample_execution :: "uuid \<Rightarrow> time \<Rightarrow> job_execution_record" where
  "sample_execution i t = \<lparr>je_job_id = i, je_job_name = [], je_start_time = t, je_end_time = t, je_success = True,
     je_result = None, je_error = None\<rparr>"

definition sample_executions :: "job_execution_record mem_db" where
  "sample_executions = (\<lambda>_. [])(CRON_EXECUTIONS_TABLE :=
     [(lit ''a:1'', sample_execution 1 1), (lit ''a:2'', sample_execution 1 2), (lit ''b:1'', sample_execution 2 1)])"

theorem execution_records_by_prefix_witness:
  "\<exists>rs. load_execution_records mem_redb mem_json (\<lambda>i :: uuid. lit (if i = 1 then ''a'' else ''b'')) sample_executions 1 0
       = Inr rs \<and> length rs = 1"
proof -
  let ?us = "\<lambda>i :: uuid. lit (if i = 1 then ''a'' else ''b'')"
  let ?kvs = "mem_sorted (sample_executions CRON_EXECUTIONS_TABLE)"
  have kvs: "db_iter mem_redb sample_executions CRON_EXECUTIONS_TABLE = Inr ?kvs" by (simp add: mem_fields)
  obtain rs where rs: "load_execution_records mem_redb mem_json ?us sample_executions 1 0 = Inr rs"
    by (simp add: load_execution_records_def mem_simps sample_executions_def starts_with_def)
  have "length (take (max 0 1) (filter (\<lambda>kv. starts_with (fst kv) (?us 1)) ?kvs)) = length rs"
    by (rule list_all2_lengthD [OF execution_records_by_prefix [OF mem.ordered_tables_axioms kvs rs]])
  then have "length rs = 1" by (simp add: mem_simps sample_executions_def starts_with_def)
  with rs show ?thesis by blast
qed

end
