(* ===== verification/Prefix_Cache.thy ===== *)
theory Prefix_Cache
  imports Prelude
begin

text \<open>
  The prompt prefix cache of the crate \<^verbatim>\<open>infra\<close> (\<^verbatim>\<open>prefix_cache.rs\<close>) and its invalidator. The
  hash of the standard library's default hasher is the argument \<open>hash\<close>. A session with the
  cache is a list of operations; \<open>cached_by\<close> says what the last operation on a role left.
\<close>

section \<open>The cache\<close>

record cached_prefix =
  cp_content_hash :: u64
  cp_processed :: rstr
  cp_last_validated :: time
  cp_hit_count :: u64

record cache_stats =
  st_entries :: nat
  st_total_hits :: u64
  st_total_misses :: u64
  st_hit_rate :: rat

record prefix_cache =
  pc_cache :: "rstr \<rightharpoonup> cached_prefix"
  pc_hits :: u64
  pc_misses :: u64

definition cache_new :: prefix_cache where
  "cache_new = \<lparr>pc_cache = Map.empty, pc_hits = 0, pc_misses = 0\<rparr>"

definition cache_get :: "time \<Rightarrow> prefix_cache \<Rightarrow> rstr \<Rightarrow> u64 \<Rightarrow> prefix_cache \<times> rstr option" where
  "cache_get now c role current_content_hash =
     (let result = (case pc_cache c role of
          Some entry \<Rightarrow> if cp_content_hash entry = current_content_hash then Some (cp_processed entry) else None
        | None \<Rightarrow> None)
      in if result \<noteq> None
         then (c\<lparr>pc_cache := (case pc_cache c role of
                   Some entry \<Rightarrow> (pc_cache c)(role \<mapsto> entry\<lparr>cp_hit_count := cp_hit_count entry + 1, cp_last_validated := now\<rparr>)
                 | None \<Rightarrow> pc_cache c),
                 pc_hits := pc_hits c + 1\<rparr>, result)
         else (c\<lparr>pc_misses := pc_misses c + 1\<rparr>, result))"

definition cache_put :: "time \<Rightarrow> prefix_cache \<Rightarrow> rstr \<Rightarrow> u64 \<Rightarrow> rstr \<Rightarrow> prefix_cache" where
  "cache_put now c role content_hash processed = c\<lparr>pc_cache := (pc_cache c)(role \<mapsto>
     \<lparr>cp_content_hash = content_hash, cp_processed = processed, cp_last_validated = now, cp_hit_count = 0\<rparr>)\<rparr>"

definition invalidate :: "prefix_cache \<Rightarrow> rstr \<Rightarrow> prefix_cache" where
  "invalidate c role = c\<lparr>pc_cache := (pc_cache c)(role := None)\<rparr>"

definition invalidate_all :: "prefix_cache \<Rightarrow> prefix_cache" where
  "invalidate_all c = c\<lparr>pc_cache := Map.empty\<rparr>"

definition stats :: "prefix_cache \<Rightarrow> cache_stats" where
  "stats c = (let total = pc_hits c + pc_misses c in
     \<lparr>st_entries = card (dom (pc_cache c)), st_total_hits = pc_hits c, st_total_misses = pc_misses c,
      st_hit_rate = (if total > 0 then f64_round (f64_round (of_nat (unat (pc_hits c))) / f64_round (of_nat (unat total))) else 0)\<rparr>)"

record cache_invalidator =
  ci_cache :: prefix_cache
  ci_known_hashes :: "rstr \<rightharpoonup> u64"

definition invalidator_new :: "prefix_cache \<Rightarrow> cache_invalidator" where
  "invalidator_new c = \<lparr>ci_cache = c, ci_known_hashes = Map.empty\<rparr>"

definition check_and_invalidate :: "(rstr \<Rightarrow> u64) \<Rightarrow> cache_invalidator \<Rightarrow> rstr \<Rightarrow> rstr \<Rightarrow> cache_invalidator \<times> bool" where
  "check_and_invalidate hash i role current_content =
     (let new_hash = hash current_content
      in if ci_known_hashes i role \<noteq> Some new_hash
         then (\<lparr>ci_cache = invalidate (ci_cache i) role, ci_known_hashes = (ci_known_hashes i)(role \<mapsto> new_hash)\<rparr>, True)
         else (i, False))"

section \<open>Sessions\<close>

datatype cache_op = Put rstr u64 rstr | Get rstr u64 | Invalidate rstr | InvalidateAll

fun apply_op :: "prefix_cache \<Rightarrow> time \<times> cache_op \<Rightarrow> prefix_cache" where
  "apply_op c (now, Put role h p) = cache_put now c role h p"
| "apply_op c (now, Get role h) = fst (cache_get now c role h)"
| "apply_op c (now, Invalidate role) = invalidate c role"
| "apply_op c (now, InvalidateAll) = invalidate_all c"

text \<open>What the cache owes for a role: the last operation on it, most recent first.\<close>
fun cached_by :: "rstr \<Rightarrow> cache_op list \<Rightarrow> (u64 \<times> rstr) option" where
  "cached_by role [] = None"
| "cached_by role (Put r h p # ops) = (if r = role then Some (h, p) else cached_by role ops)"
| "cached_by role (Get r h # ops) = cached_by role ops"
| "cached_by role (Invalidate r # ops) = (if r = role then None else cached_by role ops)"
| "cached_by role (InvalidateAll # ops) = None"

text \<open>The entry of a role without its bookkeeping.\<close>
definition cache_view :: "prefix_cache \<Rightarrow> rstr \<Rightarrow> (u64 \<times> rstr) option" where
  "cache_view c role = map_option (\<lambda>e. (cp_content_hash e, cp_processed e)) (pc_cache c role)"

lemma cache_get_view: "cache_view (fst (cache_get now c role h)) = cache_view c"
  by (rule ext) (auto simp: cache_get_def cache_view_def Let_def split: option.splits)

lemma cache_get_result:
  "snd (cache_get now c role h) = (case cache_view c role of Some (h', p) \<Rightarrow> if h' = h then Some p else None | None \<Rightarrow> None)"
  by (auto simp: cache_get_def cache_view_def Let_def split: option.splits)

lemma cache_view_session: "cache_view (foldl apply_op cache_new ops) role = cached_by role (rev (map snd ops))"
proof (induction ops rule: rev_induct)
  case Nil
  show ?case by (simp add: cache_new_def cache_view_def)
next
  case (snoc x ops)
  obtain now oper where x: "x = (now, oper)" by fastforce
  show ?case
  proof (cases oper)
    case (Get r h)
    then show ?thesis using snoc by (simp add: x cache_get_view)
  qed (use snoc in \<open>auto simp: x cache_put_def invalidate_def invalidate_all_def cache_view_def\<close>)
qed

definition is_get :: "cache_op \<Rightarrow> bool" where
  "is_get oper = (case oper of Get _ _ \<Rightarrow> True | _ \<Rightarrow> False)"

lemma counters_session:
  "pc_hits (foldl apply_op cache_new ops) + pc_misses (foldl apply_op cache_new ops)
     = of_nat (length (filter (is_get \<circ> snd) ops))"
proof (induction ops rule: rev_induct)
  case Nil
  show ?case by (simp add: cache_new_def)
next
  case (snoc x ops)
  obtain now oper where x: "x = (now, oper)" by fastforce
  show ?case
  proof (cases oper)
    case (Get r h)
    then show ?thesis using snoc by (auto simp: x is_get_def cache_get_def Let_def algebra_simps split: option.splits)
  qed (use snoc in \<open>auto simp: x is_get_def cache_put_def invalidate_def invalidate_all_def\<close>)
qed

section \<open>Properties\<close>

text \<open>
  Coherence. After any session a lookup returns a prefix exactly when the last
  operation on the role (a put, an invalidation, or a clearing of everything) was a put of
  that prefix under the hash asked for; a changed content is never answered from the cache.
  Lookups disturb nothing, and each counts once as a hit or a miss.
\<close>
theorem cache_answers_last_put:
  "(snd (cache_get now (foldl apply_op cache_new ops) role h) = Some p)
     = (cached_by role (rev (map snd ops)) = Some (h, p))
   \<and> cache_view (fst (cache_get now (foldl apply_op cache_new ops) role h)) = cache_view (foldl apply_op cache_new ops)
   \<and> pc_hits (foldl apply_op cache_new ops) + pc_misses (foldl apply_op cache_new ops)
       = of_nat (length (filter (is_get \<circ> snd) ops))"
  by (auto simp: cache_get_result cache_get_view cache_view_session counters_session split: option.splits)

text \<open>
  Invalidation follows the content. The first check of a role and every check after a
  change of its hash empty its entry; a check with the same hash as the one before leaves
  cache and entry alone, whatever other roles were checked in between.
\<close>
theorem invalidator_tracks_content:
  "case check_and_invalidate hash i role content of (i', changed) \<Rightarrow>
     changed = (ci_known_hashes i role \<noteq> Some (hash content))
     \<and> ci_known_hashes i' = (ci_known_hashes i)(role \<mapsto> hash content)
     \<and> (changed \<longrightarrow> snd (cache_get now (ci_cache i') role h) = None)
     \<and> (r \<noteq> role \<or> \<not> changed \<longrightarrow> cache_view (ci_cache i') r = cache_view (ci_cache i) r)"
  by (auto simp: check_and_invalidate_def Let_def invalidate_def cache_get_def cache_view_def fun_upd_idem)

theorem invalidator_tracks_content_witness:
  "snd (check_and_invalidate (\<lambda>s. of_nat (length s)) (invalidator_new cache_new) (lit ''a'') (lit ''x''))
   \<and> snd (cache_get 1 (ci_cache (fst (check_and_invalidate (\<lambda>s. of_nat (length s)) (invalidator_new cache_new)
        (lit ''a'') (lit ''x'')))) (lit ''a'') 1) = None"
  using invalidator_tracks_content [where hash = "\<lambda>s. of_nat (length s)" and i = "invalidator_new cache_new"
      and role = "lit ''a''" and content = "lit ''x''" and now = 1 and h = 1 and r = "lit ''b''"]
  by (auto simp: invalidator_new_def split: prod.splits)

end
