(* ===== verification/Float32.thy ===== *)
theory Float32
  imports Prelude
begin

text \<open>
  Single precision numbers. The finite values are rational numbers; comparisons with the
  infinities and with NaN are those of IEEE 754. On non-negative numbers an
  operation below the overflow limit is the exact result rounded to 24 significant bits (fewer
  for subnormal results), ties to even.
\<close>

datatype f32 = Finite rat | PosInf | NegInf | NaN

fun f32_ge :: "f32 \<Rightarrow> rat \<Rightarrow> bool" where
  "f32_ge (Finite x) c = (c \<le> x)"
| "f32_ge PosInf c = True"
| "f32_ge NegInf c = False"
| "f32_ge NaN c = False"

fun f32_gt :: "f32 \<Rightarrow> rat \<Rightarrow> bool" where
  "f32_gt (Finite x) c = (c < x)"
| "f32_gt PosInf c = True"
| "f32_gt NegInf c = False"
| "f32_gt NaN c = False"

fun f32_le :: "f32 \<Rightarrow> rat \<Rightarrow> bool" where
  "f32_le (Finite x) c = (x \<le> c)"
| "f32_le PosInf c = False"
| "f32_le NegInf c = True"
| "f32_le NaN c = False"

text \<open>\<^verbatim>\<open>clamp\<close> keeps NaN.\<close>
fun f32_clamp :: "f32 \<Rightarrow> rat \<Rightarrow> rat \<Rightarrow> f32" where
  "f32_clamp (Finite x) lo hi = Finite (if x < lo then lo else if x > hi then hi else x)"
| "f32_clamp PosInf lo hi = Finite hi"
| "f32_clamp NegInf lo hi = Finite lo"
| "f32_clamp NaN lo hi = NaN"

definition f32_round :: "rat \<Rightarrow> rat" where
  "f32_round x =
     (if x \<le> 0 then 0
      else let s = min (23 - log2_floor x) 149 in of_int (rnd_even (x * pow2 s)) * pow2 (- s))"

definition f32_add :: "rat \<Rightarrow> rat \<Rightarrow> rat" where
  "f32_add x y = f32_round (x + y)"

definition f32_mul :: "rat \<Rightarrow> rat \<Rightarrow> rat" where
  "f32_mul x y = f32_round (x * y)"

lemma f32_round_nonneg [simp]: "0 \<le> f32_round x"
proof -
  have "0 \<le> rnd_even (x * pow2 s)" if "0 < x" for s
  proof -
    have "0 < x * pow2 s" using that by simp
    then have "0 \<le> \<lfloor>x * pow2 s\<rfloor>" by simp
    then show ?thesis by (simp add: rnd_even_def Let_def)
  qed
  then show ?thesis by (simp add: f32_round_def Let_def less_imp_le [OF pow2_pos])
qed

lemma f32_clamp_range: "f32_clamp x lo hi = Finite y \<Longrightarrow> lo \<le> hi \<Longrightarrow> lo \<le> y \<and> y \<le> hi"
  by (cases x) (auto split: if_splits)

lemma f32_clamp_twice [simp]: "lo \<le> hi \<Longrightarrow> f32_clamp (f32_clamp x lo hi) lo hi = f32_clamp x lo hi"
  by (cases x) auto

end
