(* ===== verification/Runtime_Policy.thy ===== *)
theory Runtime_Policy
  imports Float32
begin

text \<open>
  Three small policies of the crate \<^verbatim>\<open>runtime-policy-core\<close>: how often and how long an attempt
  is retried (\<^verbatim>\<open>attempt.rs\<close>), how full the context window is (\<^verbatim>\<open>context.rs\<close>), and which phase
  of a workflow comes next (\<^verbatim>\<open>workflow.rs\<close>).
\<close>

section \<open>Attempts\<close>

definition DEFAULT_MAX_RETRIES :: u32 where "DEFAULT_MAX_RETRIES = 3"
definition COMPRESSED_HISTORY_RATIO :: rat where "COMPRESSED_HISTORY_RATIO = 1 / 2"
definition BACKOFF_BASE_MS :: u64 where "BACKOFF_BASE_MS = 1000"
definition BACKOFF_MAX_MS :: u64 where "BACKOFF_MAX_MS = 30000"

record strategy_config =
  sg_max_history_ratio :: rat
  sg_enable_smart_pruning :: bool
  sg_add_concise_directive :: bool

datatype strategy = Standard | Compressed | Fallback

fun config :: "strategy \<Rightarrow> strategy_config" where
  "config Standard = \<lparr>sg_max_history_ratio = 1, sg_enable_smart_pruning = False, sg_add_concise_directive = False\<rparr>"
| "config Compressed = \<lparr>sg_max_history_ratio = COMPRESSED_HISTORY_RATIO, sg_enable_smart_pruning = True,
     sg_add_concise_directive = True\<rparr>"
| "config Fallback = \<lparr>sg_max_history_ratio = 0, sg_enable_smart_pruning = True, sg_add_concise_directive = True\<rparr>"

record attempt_state =
  at_id :: uuid
  at_strategy :: strategy
  at_retry_count :: u32
  at_max_retries :: u32

definition attempt_new :: "uuid \<Rightarrow> attempt_state" where
  "attempt_new i = \<lparr>at_id = i, at_strategy = Standard, at_retry_count = 0, at_max_retries = DEFAULT_MAX_RETRIES\<rparr>"

text \<open>
  Arithmetic that may overflow: with overflow checks in the build it panics (\<open>None\<close>), without
  them it wraps.
\<close>
definition arith :: "bool \<Rightarrow> nat \<Rightarrow> 'w :: len word option" where
  "arith checks n = (if checks \<and> n \<ge> 2 ^ LENGTH('w) then None else Some (of_nat n))"

definition backoff_duration :: "bool \<Rightarrow> attempt_state \<Rightarrow> u64 option" where
  "backoff_duration checks a =
     (if at_retry_count a = 0 then Some 0
      else case (arith checks (2 ^ (unat (at_retry_count a) - 1)) :: u64 option) of
          None \<Rightarrow> None
        | Some p \<Rightarrow> map_option (\<lambda>ms. min ms BACKOFF_MAX_MS) (arith checks (unat BACKOFF_BASE_MS * unat p)))"

definition can_retry :: "attempt_state \<Rightarrow> bool" where
  "can_retry a \<longleftrightarrow> at_retry_count a < at_max_retries a"

definition next_attempt :: "bool \<Rightarrow> attempt_state \<Rightarrow> attempt_state option" where
  "next_attempt checks a = map_option (\<lambda>n. a\<lparr>at_retry_count := n\<rparr>) (arith checks (unat (at_retry_count a) + 1))"

definition downgrade :: "attempt_state \<Rightarrow> attempt_state \<times> bool" where
  "downgrade a = (case at_strategy a of
       Standard \<Rightarrow> (a\<lparr>at_strategy := Compressed\<rparr>, True)
     | Compressed \<Rightarrow> (a\<lparr>at_strategy := Fallback\<rparr>, True)
     | Fallback \<Rightarrow> (a, False))"

text \<open>
  How the runtime uses an attempt: it moves to the next one only while \<open>can_retry\<close> allows it,
  and may downgrade the strategy at any time. The number counts the downgrades that succeeded.
\<close>
inductive attempt_reach :: "bool \<Rightarrow> attempt_state \<Rightarrow> attempt_state \<Rightarrow> nat \<Rightarrow> bool" for checks a0 where
  start: "attempt_reach checks a0 a0 0"
| retry: "attempt_reach checks a0 a n \<Longrightarrow> can_retry a \<Longrightarrow> next_attempt checks a = Some b \<Longrightarrow> attempt_reach checks a0 b n"
| lower: "attempt_reach checks a0 a n \<Longrightarrow> downgrade a = (b, True) \<Longrightarrow> attempt_reach checks a0 b (n + 1)"
| lowest: "attempt_reach checks a0 a n \<Longrightarrow> downgrade a = (b, False) \<Longrightarrow> attempt_reach checks a0 b n"

inductive_cases attempt_reachE: "attempt_reach checks a0 a n"

section \<open>Context pressure\<close>

record context_config =
  cx_max_tokens :: nat
  cx_max_history_messages :: nat
  cx_response_reserve :: nat
  cx_enable_cache_control :: bool
  cx_smart_pruning :: bool

definition default_context_config :: context_config where
  "default_context_config = \<lparr>cx_max_tokens = 128000, cx_max_history_messages = 50, cx_response_reserve = 4096,
     cx_enable_cache_control = False, cx_smart_pruning = False\<rparr>"

datatype background_pressure_band = Normal | High | Critical

text \<open>The single precision numbers the literals 0.85 and 0.70 stand for.\<close>
definition from_prompt_occupancy_ratio :: "f32 \<Rightarrow> background_pressure_band" where
  "from_prompt_occupancy_ratio ratio =
     (if f32_ge ratio (14260634 / 16777216) then Critical
      else if f32_ge ratio (11744051 / 16777216) then High else Normal)"

fun band_as_str :: "background_pressure_band \<Rightarrow> rstr" where
  "band_as_str Normal = lit ''normal''"
| "band_as_str High = lit ''high''"
| "band_as_str Critical = lit ''critical''"

section \<open>Workflows\<close>

datatype workflow_phase_kind = Intake | Contract | Plan | Context | Architecture | Generate | Verify | Revise
  | Persist | Approval | Snapshot | Export | Custom

record workflow_phase_descriptor =
  ph_id :: rstr
  ph_kind :: workflow_phase_kind
  ph_tool_action :: "rstr option"
  ph_model_required :: bool
  ph_artifact_effect :: "rstr option"
  ph_required :: bool

record workflow_capabilities =
  wc_resumable :: bool
  wc_interruptible :: bool
  wc_single_active_run_recommended :: bool
  wc_keeps_large_output_out_of_chat :: bool
  wc_requires_worker_model :: bool
  wc_owns_private_model :: bool

definition default_workflow_capabilities :: workflow_capabilities where
  "default_workflow_capabilities = \<lparr>wc_resumable = True, wc_interruptible = True,
     wc_single_active_run_recommended = True, wc_keeps_large_output_out_of_chat = True,
     wc_requires_worker_model = True, wc_owns_private_model = False\<rparr>"

record workflow_driver_descriptor =
  wd_id :: rstr
  wd_version :: rstr
  wd_domain :: rstr
  wd_owner_role :: rstr
  wd_tool_name :: rstr
  wd_entry_actions :: "rstr list"
  wd_phases :: "workflow_phase_descriptor list"
  wd_capabilities :: workflow_capabilities

datatype workflow_run_status = Pending | Running | WaitingForModel | WaitingForTool | Blocked | Completed | Cancelled

record workflow_progress =
  wp_current_step :: "rstr option"
  wp_completed_steps :: nat
  wp_total_steps :: "nat option"
  wp_artifact_path :: "rstr option"
  wp_summary :: "rstr option"

record workflow_blocker =
  wb_code :: rstr
  wb_message :: rstr
  wb_recoverable :: bool

record workflow_run_snapshot =
  ws_workflow_id :: rstr
  ws_status :: workflow_run_status
  ws_current_phase :: "rstr option"
  ws_completed_phases :: "rstr list"
  ws_blockers :: "workflow_blocker list"
  ws_progress :: workflow_progress

record workflow_inspection =
  wi_workflow_id :: rstr
  wi_status :: workflow_run_status
  wi_current_phase :: "rstr option"
  wi_next_phase :: "rstr option"
  wi_blockers :: "workflow_blocker list"
  wi_progress :: workflow_progress

definition inspect :: "workflow_driver_descriptor \<Rightarrow> workflow_run_snapshot \<Rightarrow> workflow_inspection" where
  "inspect descriptor snapshot =
     (let next_phase = map_option ph_id
        (find (\<lambda>phase. \<not> list_ex (\<lambda>done_id. done_id = ph_id phase) (ws_completed_phases snapshot)) (wd_phases descriptor))
      in \<lparr>wi_workflow_id = wd_id descriptor, wi_status = ws_status snapshot,
          wi_current_phase = ws_current_phase snapshot, wi_next_phase = next_phase,
          wi_blockers = ws_blockers snapshot, wi_progress = ws_progress snapshot\<rparr>)"

text \<open>One round of driving a workflow: the phase that inspection names is completed.\<close>
definition complete_next :: "workflow_driver_descriptor \<Rightarrow> workflow_run_snapshot \<Rightarrow> workflow_run_snapshot" where
  "complete_next d s = (case wi_next_phase (inspect d s) of None \<Rightarrow> s
     | Some p \<Rightarrow> s\<lparr>ws_completed_phases := ws_completed_phases s @ [p]\<rparr>)"

text \<open>The phases still to do, each at its first mention.\<close>
fun pending :: "rstr list \<Rightarrow> rstr list \<Rightarrow> rstr list" where
  "pending finished [] = []"
| "pending finished (p # ps) =
     (if p \<in> set finished then pending finished ps else p # pending (finished @ [p]) ps)"

section \<open>Lemmas\<close>

lemma arith_small [simp]: "n < 2 ^ LENGTH('w) \<Longrightarrow> arith checks n = Some (of_nat n :: 'w :: len word)"
  by (simp add: arith_def)

text \<open>The power and the product of the delay, with the exponent on its own.\<close>
definition power_ms :: "bool \<Rightarrow> nat \<Rightarrow> u64 option" where
  "power_ms checks e = (case (arith checks (2 ^ e) :: u64 option) of None \<Rightarrow> None
     | Some p \<Rightarrow> map_option (\<lambda>ms. min ms 30000) (arith checks (1000 * unat p)))"

lemma backoff_power:
  "backoff_duration checks a = (if at_retry_count a = 0 then Some 0 else power_ms checks (unat (at_retry_count a) - 1))"
proof -
  have "unat BACKOFF_BASE_MS = 1000" "BACKOFF_MAX_MS = 30000" by (simp_all add: BACKOFF_BASE_MS_def BACKOFF_MAX_MS_def)
  then show ?thesis by (simp only: backoff_duration_def power_ms_def)
qed

lemma unat_of_nat_small: "n < 2 ^ 64 \<Longrightarrow> unat (of_nat n :: u64) = n"
  by (simp only: unat_of_nat) simp

lemma power_ms_small:
  assumes "e \<le> 54"
  shows "power_ms checks e = Some (of_nat (min (1000 * 2 ^ e) 30000))"
proof -
  have "(2 :: nat) ^ e \<le> 2 ^ 54" using assms by (intro power_increasing) auto
  then have small: "(2 :: nat) ^ e < 2 ^ 64" "1000 * (2 :: nat) ^ e < 2 ^ 64" by simp_all
  define n where "n = 1000 * (2 :: nat) ^ e"
  have n: "min (of_nat n :: u64) 30000 = of_nat (min n 30000)"
    using unat_of_nat_small [of n] small(2) by (auto simp: min_def word_le_nat_alt n_def)
  have "arith checks (2 ^ e) = Some (of_nat (2 ^ e) :: u64)" by (rule arith_small) (use small(1) in simp)
  moreover have "arith checks n = Some (of_nat n :: u64)" by (rule arith_small) (use small(2) in \<open>simp add: n_def\<close>)
  ultimately have "power_ms checks e = Some (min (of_nat n :: u64) 30000)"
    by (simp only: power_ms_def option.case option.map unat_of_nat_small [OF small(1)] n_def)
  then show ?thesis by (simp only: n) (simp only: n_def)
qed

lemma power_ms_wrapped:
  assumes "64 \<le> e"
  shows "power_ms False e = Some 0"
proof -
  obtain k where "e = 64 + k" using assms le_Suc_ex by blast
  then have "2 ^ LENGTH(64) dvd (2 :: nat) ^ e" by (simp add: power_add)
  then have "(of_nat (2 ^ e) :: u64) = 0" by (metis of_nat_eq_0_iff word_of_nat_eq_0_iff)
  then show ?thesis by (simp add: power_ms_def arith_def del: of_nat_power)
qed

lemma power_ms_overflow:
  assumes "55 \<le> e"
  shows "power_ms True e = None"
proof (cases "e < 64")
  case True
  have "(2 :: nat) ^ e < 2 ^ 64" using True by (intro power_strict_increasing) auto
  note u = unat_of_nat_small [OF this]
  have "(2 :: nat) ^ 55 \<le> 2 ^ e" using assms by (intro power_increasing) auto
  then have "2 ^ 64 \<le> 1000 * (2 :: nat) ^ e" by simp
  then show ?thesis by (simp only: power_ms_def arith_def option.case u split: if_splits) simp
next
  case False
  then have "(2 :: nat) ^ 64 \<le> 2 ^ e" by (intro power_increasing) auto
  then show ?thesis by (simp add: power_ms_def arith_def)
qed

text \<open>Counting retries and downgrades along a run of the runtime.\<close>
lemma attempt_reach_bounds:
  assumes "attempt_reach checks a0 a n" and "a0 = attempt_new i"
  shows "at_id a = i \<and> at_max_retries a = 3 \<and> at_retry_count a \<le> 3
    \<and> n = (case at_strategy a of Standard \<Rightarrow> 0 | Compressed \<Rightarrow> 1 | Fallback \<Rightarrow> 2)"
  using assms
proof (induction rule: attempt_reach.induct)
  case (retry a n b)
  then have c: "at_retry_count a < 3" by (simp add: can_retry_def)
  then have "unat (at_retry_count a) < 3" by (simp add: word_less_nat_alt)
  then have "unat (at_retry_count a) + 1 < 2 ^ LENGTH(32)" by simp
  with retry have b: "b = a\<lparr>at_retry_count := of_nat (unat (at_retry_count a) + 1)\<rparr>"
    by (simp add: next_attempt_def)
  have "1 + at_retry_count a \<le> 3" using inc_le [OF c] by (simp add: add.commute)
  with b retry show ?case by simp
qed (auto simp: attempt_new_def DEFAULT_MAX_RETRIES_def downgrade_def split: strategy.splits)

lemma inspect_next:
  "wi_next_phase (inspect d s) = (case pending (ws_completed_phases s) (map ph_id (wd_phases d)) of
     [] \<Rightarrow> None | p # _ \<Rightarrow> Some p)"
proof -
  have "map_option ph_id (find (\<lambda>phase. \<not> list_ex (\<lambda>done_id. done_id = ph_id phase) done_ids) ps)
      = (case pending done_ids (map ph_id ps) of [] \<Rightarrow> None | p # _ \<Rightarrow> Some p)" for done_ids ps
    by (induction ps) (auto simp: list_ex_iff)
  then show ?thesis by (simp add: inspect_def Let_def)
qed

lemma pending_step: "pending f ps = p # rest \<Longrightarrow> pending (f @ [p]) ps = rest"
  by (induction ps) (auto split: if_splits)

lemma pending_set: "set (pending f ps) = set ps - set f"
  by (induction f ps rule: pending.induct) auto

lemma pending_distinct: "distinct (pending f ps)"
  by (induction f ps rule: pending.induct) (auto simp: pending_set)

lemma pending_filter: "distinct ps \<Longrightarrow> pending f ps = filter (\<lambda>p. p \<notin> set f) ps"
proof (induction f ps rule: pending.induct)
  case (2 f p ps)
  then have "filter (\<lambda>q. q \<noteq> p \<and> q \<notin> set f) ps = filter (\<lambda>q. q \<notin> set f) ps"
    by (intro filter_cong) auto
  with 2 show ?case by auto
qed simp

lemma complete_next_pending:
  fixes d s defines "todo \<equiv> pending (ws_completed_phases s) (map ph_id (wd_phases d))"
  shows "ws_completed_phases (complete_next d s) = ws_completed_phases s @ take 1 todo"
    and "pending (ws_completed_phases (complete_next d s)) (map ph_id (wd_phases d)) = drop 1 todo"
  by (auto simp: todo_def complete_next_def inspect_next pending_step split: list.splits)

lemma complete_next_iterate:
  "ws_completed_phases ((complete_next d ^^ k) s)
     = ws_completed_phases s @ take k (pending (ws_completed_phases s) (map ph_id (wd_phases d)))
   \<and> pending (ws_completed_phases ((complete_next d ^^ k) s)) (map ph_id (wd_phases d))
     = drop k (pending (ws_completed_phases s) (map ph_id (wd_phases d)))"
proof (induction k)
  case (Suc k)
  let ?todo = "pending (ws_completed_phases s) (map ph_id (wd_phases d))"
  let ?t = "(complete_next d ^^ k) s"
  from Suc have done_ids: "ws_completed_phases ?t = ws_completed_phases s @ take k ?todo"
    and todo: "pending (ws_completed_phases ?t) (map ph_id (wd_phases d)) = drop k ?todo" by auto
  have "take k ?todo @ take 1 (drop k ?todo) = take (Suc k) ?todo"
    using take_add [of k 1 ?todo] by simp
  then have "ws_completed_phases (complete_next d ?t) = ws_completed_phases s @ take (Suc k) ?todo"
    unfolding complete_next_pending(1) todo by (simp add: done_ids)
  moreover have "pending (ws_completed_phases (complete_next d ?t)) (map ph_id (wd_phases d)) = drop (Suc k) ?todo"
    by (simp only: complete_next_pending(2) todo drop_drop) simp
  ultimately show ?case unfolding funpow.simps o_apply by (rule conjI)
qed simp

section \<open>Properties\<close>

text \<open>
  C30. Retrying is bounded. However the runtime uses an attempt, it moves on at most three
  times and downgrades the strategy at most twice, each downgrade shrinking the history that
  is kept; the delay before a retry is 1, 2 or 4 seconds and its computation cannot overflow.
  For an attempt with another retry limit the delay is capped at 30 seconds up to the 55th
  retry; from the 56th on its computation overflows, and in a build without overflow checks
  the delay is zero from the 65th on.
\<close>
theorem attempt_is_bounded:
  assumes "attempt_reach checks (attempt_new i) a n"
  shows "unat (at_retry_count a) \<le> 3 \<and> n \<le> 2
    \<and> backoff_duration checks a = Some (if at_retry_count a = 0 then 0 else 1000 * 2 ^ (unat (at_retry_count a) - 1))
    \<and> (downgrade a = (b, True) \<longrightarrow>
         sg_max_history_ratio (config (at_strategy b)) < sg_max_history_ratio (config (at_strategy a)))
    \<and> (at_retry_count c \<noteq> 0 \<and> unat (at_retry_count c) \<le> 55 \<longrightarrow>
         backoff_duration checks c = Some (of_nat (min (1000 * 2 ^ (unat (at_retry_count c) - 1)) 30000)))
    \<and> (56 \<le> unat (at_retry_count c) \<longrightarrow> backoff_duration True c = None)
    \<and> (65 \<le> unat (at_retry_count c) \<longrightarrow> backoff_duration False c = Some 0)"
proof (intro conjI impI)
  note inv = attempt_reach_bounds [OF assms refl]
  then show le: "unat (at_retry_count a) \<le> 3" by (simp add: word_le_nat_alt)
  show "n \<le> 2" using inv by (simp split: strategy.splits)
  have "backoff_duration checks a = Some (of_nat (min (1000 * 2 ^ (unat (at_retry_count a) - 1)) 30000))"
    if "at_retry_count a \<noteq> 0"
    using that le by (simp only: backoff_power if_False) (rule power_ms_small, simp)
  moreover have "unat (at_retry_count a) \<in> {0, 1, 2, 3}" using le by auto
  ultimately show "backoff_duration checks a
      = Some (if at_retry_count a = 0 then 0 else 1000 * 2 ^ (unat (at_retry_count a) - 1))"
    by (auto simp: backoff_power unat_eq_zero)
next
  assume "downgrade a = (b, True)"
  then show "sg_max_history_ratio (config (at_strategy b)) < sg_max_history_ratio (config (at_strategy a))"
    by (auto simp: downgrade_def COMPRESSED_HISTORY_RATIO_def split: strategy.splits)
next
  assume "at_retry_count c \<noteq> 0 \<and> unat (at_retry_count c) \<le> 55"
  then show "backoff_duration checks c = Some (of_nat (min (1000 * 2 ^ (unat (at_retry_count c) - 1)) 30000))"
    by (simp only: backoff_power if_False) (rule power_ms_small, arith)
next
  assume "56 \<le> unat (at_retry_count c)"
  then show "backoff_duration True c = None" by (auto simp: backoff_power intro!: power_ms_overflow)
next
  assume "65 \<le> unat (at_retry_count c)"
  then show "backoff_duration False c = Some 0" by (auto simp: backoff_power intro!: power_ms_wrapped)
qed

theorem attempt_is_bounded_witness:
  "\<exists>a. attempt_reach True (attempt_new 7) a 1 \<and> backoff_duration True a = Some 1000"
proof -
  let ?a = "(attempt_new 7)\<lparr>at_retry_count := 1\<rparr>"
  let ?b = "?a\<lparr>at_strategy := Compressed\<rparr>"
  have "attempt_reach True (attempt_new 7) ?a 0"
    by (rule attempt_reach.retry [OF attempt_reach.start])
       (simp_all add: can_retry_def next_attempt_def attempt_new_def DEFAULT_MAX_RETRIES_def)
  then have "attempt_reach True (attempt_new 7) ?b (0 + 1)"
    by (rule attempt_reach.lower) (simp add: downgrade_def attempt_new_def)
  then have r: "attempt_reach True (attempt_new 7) ?b 1" by simp
  from attempt_is_bounded [OF this] have "backoff_duration True ?b = Some 1000" by simp
  with r show ?thesis by blast
qed

text \<open>
  Driving a workflow. Completing the phase that inspection names, again and again, goes
  through exactly the phases that were not completed, each once and in the order in which
  the descriptor first mentions them, and inspection names no further phase exactly when all
  of them are done.
\<close>
theorem workflow_completes_in_order:
  "\<exists>todo. distinct todo \<and> set todo = ph_id ` set (wd_phases d) - set (ws_completed_phases s)
    \<and> (distinct (map ph_id (wd_phases d)) \<longrightarrow>
         todo = filter (\<lambda>p. p \<notin> set (ws_completed_phases s)) (map ph_id (wd_phases d)))
    \<and> (\<forall>k. ws_completed_phases ((complete_next d ^^ k) s) = ws_completed_phases s @ take k todo
         \<and> (wi_next_phase (inspect d ((complete_next d ^^ k) s)) = None) = (length todo \<le> k))"
proof (intro exI conjI allI impI)
  let ?todo = "pending (ws_completed_phases s) (map ph_id (wd_phases d))"
  show "distinct ?todo" by (rule pending_distinct)
  show "set ?todo = ph_id ` set (wd_phases d) - set (ws_completed_phases s)" by (simp add: pending_set)
  show "ws_completed_phases ((complete_next d ^^ k) s) = ws_completed_phases s @ take k ?todo" for k
    using complete_next_iterate by blast
  show "(wi_next_phase (inspect d ((complete_next d ^^ k) s)) = None) = (length ?todo \<le> k)" for k
    using complete_next_iterate [of k d s] by (auto simp: inspect_next split: list.splits)
  assume "distinct (map ph_id (wd_phases d))"
  then show "?todo = filter (\<lambda>p. p \<notin> set (ws_completed_phases s)) (map ph_id (wd_phases d))"
    by (rule pending_filter)
qed

definition sample_workflow :: workflow_driver_descriptor where
  "sample_workflow = \<lparr>wd_id = lit ''tiny'', wd_version = lit ''v1'', wd_domain = lit ''test'',
     wd_owner_role = lit ''worker'', wd_tool_name = lit ''tool'', wd_entry_actions = [lit ''start''],
     wd_phases = [
       \<lparr>ph_id = lit ''plan'', ph_kind = Plan, ph_tool_action = Some (lit ''plan''), ph_model_required = True,
        ph_artifact_effect = None, ph_required = True\<rparr>,
       \<lparr>ph_id = lit ''export'', ph_kind = Export, ph_tool_action = Some (lit ''export''), ph_model_required = False,
        ph_artifact_effect = Some (lit ''artifact.exported''), ph_required = True\<rparr>],
     wd_capabilities = default_workflow_capabilities\<rparr>"

definition sample_run :: workflow_run_snapshot where
  "sample_run = \<lparr>ws_workflow_id = lit ''tiny'', ws_status = Running, ws_current_phase = Some (lit ''plan''),
     ws_completed_phases = [lit ''plan''], ws_blockers = [],
     ws_progress = \<lparr>wp_current_step = None, wp_completed_steps = 0, wp_total_steps = None, wp_artifact_path = None,
       wp_summary = None\<rparr>\<rparr>"

theorem workflow_completes_in_order_witness:
  "ws_completed_phases ((complete_next sample_workflow ^^ 1) sample_run) = [lit ''plan'', lit ''export'']
   \<and> wi_next_phase (inspect sample_workflow ((complete_next sample_workflow ^^ 1) sample_run)) = None"
proof -
  have d: "distinct (map ph_id (wd_phases sample_workflow))" by (simp add: sample_workflow_def)
  have todo: "filter (\<lambda>p. p \<notin> set (ws_completed_phases sample_run)) (map ph_id (wd_phases sample_workflow)) = [lit ''export'']"
    by (simp add: sample_workflow_def sample_run_def)
  have start: "ws_completed_phases sample_run = [lit ''plan'']" by (simp add: sample_run_def)
  obtain ps where ps: "distinct (map ph_id (wd_phases sample_workflow)) \<longrightarrow> ps = [lit ''export'']"
    and run: "\<And>k. ws_completed_phases ((complete_next sample_workflow ^^ k) sample_run) = [lit ''plan''] @ take k ps
      \<and> (wi_next_phase (inspect sample_workflow ((complete_next sample_workflow ^^ k) sample_run)) = None) = (length ps \<le> k)"
    using workflow_completes_in_order [of sample_workflow sample_run] unfolding todo unfolding start
    by (elim exE conjE) (rule that, blast+)
  from ps d have "ps = [lit ''export'']" by simp
  with run [of 1] show ?thesis by simp
qed

end
