(* ===== verification/Provider_Health.thy ===== *)
theory Provider_Health
  imports Prelude
begin

text \<open>
  Recognising failures of a model provider from their messages
  (\<^verbatim>\<open>runtime-policy-core/src/provider_health.rs\<close>). A recoverable failure pauses the task with a
  reason that quotes the message; the gateway later decides from that reason, not from the
  message, whether to restart the runtime host.
\<close>

section \<open>Definitions\<close>

datatype provider_health_issue = ServiceDisconnected | TurnTimedOut | StreamStalled

definition disconnect_markers :: "rstr list" where
  "disconnect_markers = map lit [
     ''error sending request'', ''error decoding response body'', ''failed to read response body'',
     ''connection error'', ''connection refused'', ''connection reset'',
     ''connection closed before message completed'', ''connection aborted'', ''failed to connect'',
     ''tcp connect error'', ''broken pipe'', ''operation timed out'', ''request timed out'',
     ''deadline has elapsed'', ''stream interrupted'', ''unexpected eof'', ''incomplete message'',
     ''server disconnected'', ''service unavailable'', ''provider_service_unavailable'',
     ''provider service unavailable'', ''temporarily unavailable'']"

definition turn_timeout_markers :: "rstr list" where
  "turn_timeout_markers = [
     lit ''llm_turn_timeout'', lit ''llm step timeout'', lit ''model produced no usable output'',
     lit ''model call returned no executable tool call or deliverable content'',
     lit ''runtime stopped this turn to avoid a silent background wait'',
     [26412, 36718, 27169, 22411, 35843, 29992, 22312],
     [31995, 32479, 24050, 20572, 27490, 36825, 19968, 36718, 31561, 24453],
     [36991, 20813, 21518, 21488, 31354, 36716]]"

definition stream_stall_markers :: "rstr list" where
  "stream_stall_markers = map lit [
     ''stream timeout after'', ''stream timed out after'', ''stream idle timeout'',
     ''stream produced no chunk'', ''continuous text stream timeout'']"

definition classify_provider_health_issue :: "rstr \<Rightarrow> provider_health_issue option" where
  "classify_provider_health_issue message =
     (let lowered = to_ascii_lowercase (trim message)
      in if lowered = [] then None
         else if contains_any lowered disconnect_markers then Some ServiceDisconnected
         else if contains_any lowered turn_timeout_markers then Some TurnTimedOut
         else if contains_any lowered stream_stall_markers then Some StreamStalled
         else None)"

definition health_preview :: "rstr \<Rightarrow> nat \<Rightarrow> rstr" where
  "health_preview message max_chars = take max_chars message @ (if length message > max_chars then lit ''...'' else [])"

text \<open>The texts of the three formats, up to the preview.\<close>
definition turn_reason :: rstr where
  "turn_reason = lit ''model turn timed out before producing usable output; '' @
     lit ''task paused at the latest checkpoint and can be resumed with the same task context. provider_error_preview: ''"

definition stream_reason :: rstr where
  "stream_reason = lit ''model text stream stalled before producing a complete artifact; '' @
     lit ''task paused at the latest checkpoint and can be resumed with the same task context. provider_error_preview: ''"

definition disconnect_reason :: rstr where
  "disconnect_reason = lit ''model provider service disconnected; '' @
     lit ''task paused at the latest checkpoint and can be resumed after the runtime host restarts. provider_error_preview: ''"

definition provider_service_pause_reason :: "rstr \<Rightarrow> rstr" where
  "provider_service_pause_reason message =
     (let preview = health_preview (trim message) 320
      in case classify_provider_health_issue message of
           Some TurnTimedOut \<Rightarrow> turn_reason @ preview
         | Some StreamStalled \<Rightarrow> stream_reason @ preview
         | _ \<Rightarrow> disconnect_reason @ preview)"

definition is_recoverable_provider_disconnect :: "rstr \<Rightarrow> bool" where
  "is_recoverable_provider_disconnect message \<longleftrightarrow> (case classify_provider_health_issue message of
       Some ServiceDisconnected \<Rightarrow> True | Some TurnTimedOut \<Rightarrow> True | Some StreamStalled \<Rightarrow> True | None \<Rightarrow> False)"

definition provider_health_issue_should_restart_runtime_host :: "rstr \<Rightarrow> bool" where
  "provider_health_issue_should_restart_runtime_host message \<longleftrightarrow>
     (case classify_provider_health_issue message of Some ServiceDisconnected \<Rightarrow> True | _ \<Rightarrow> False)"

section \<open>Markers inside a text\<close>

text \<open>A marker has no colon and no dot, and neither begins nor ends with white space.\<close>
definition plain_marker :: "rstr \<Rightarrow> bool" where
  "plain_marker m \<longleftrightarrow> m \<noteq> [] \<and> \<not> is_ws (hd m) \<and> \<not> is_ws (last m) \<and> 58 \<notin> set m \<and> 46 \<notin> set m"

definition all_markers :: "rstr list" where
  "all_markers = disconnect_markers @ turn_timeout_markers @ stream_stall_markers"

text \<open>Short pieces, one of which occurs in each marker and none in the texts of the reasons.\<close>
definition needles :: "rstr list" where
  "needles = [
     lit ''il'', lit ''io'', lit ''eo'', lit ''no'', [36718], lit ''q'', [36991], lit ''y'', lit ''ve'',
     lit ''ad'', lit ''nc'', lit ''up'', lit ''tc'', lit ''br'', lit ''m t'']"

lemmas marker_defs = all_markers_def disconnect_markers_def turn_timeout_markers_def stream_stall_markers_def

lemma starts_with_code:
  "starts_with s [] = True" "starts_with [] (d # p) = False"
  "starts_with (c # s) (d # p) = (if c = d then starts_with s p else False)"
  by (simp_all add: starts_with_def)

lemma lower_code:
  "to_ascii_lowercase [] = []"
  "to_ascii_lowercase (c # s) = (if 65 \<le> c \<and> c \<le> 90 then c + 32 else c) # to_ascii_lowercase s"
  by (simp_all add: to_ascii_lowercase_def)

lemma lower_append: "to_ascii_lowercase (s @ t) = to_ascii_lowercase s @ to_ascii_lowercase t"
  by (simp add: to_ascii_lowercase_def)

lemma markers_plain: "list_all plain_marker all_markers"
  by (simp add: marker_defs plain_marker_def is_ws_def)

lemma markers_have_needles:
  "list_all2 (\<lambda>m i. i < length needles \<and> contains m (needles ! i)) all_markers
     [5, 7, 0, 1, 1, 1, 1, 1, 0, 12, 13, 1, 5, 9, 11, 2, 10, 8, 0, 0, 0, 0, 2, 2, 3, 3, 0, 4, 4, 6, 2, 14, 2,
      3, 2]"
  by (simp add: marker_defs needles_def starts_with_code)

lemma contains_append: "contains s m \<Longrightarrow> contains (a @ s @ b) m"
  by (auto simp: contains_iff) (metis append.assoc)

lemma contains_trans: "contains s m \<Longrightarrow> contains m n \<Longrightarrow> contains s n"
  by (auto simp: contains_iff) (metis append.assoc)

lemma contains_separator:
  assumes "c \<notin> set m"
  shows "contains (a @ c # b) m \<longleftrightarrow> contains a m \<or> contains b m"
proof
  assume "contains (a @ c # b) m"
  then obtain u v where uv: "a @ c # b = u @ m @ v" by (auto simp: contains_iff)
  consider "length (u @ m) \<le> length a" | "length a < length u" | "length u \<le> length a" "length a < length (u @ m)"
    by linarith
  then show "contains a m \<or> contains b m"
  proof cases
    case 1
    then have "a = (u @ m) @ take (length a - length (u @ m)) v"
      using arg_cong [OF uv, of "take (length a)"] by simp
    then show ?thesis by (metis append.assoc contains_iff)
  next
    case 2
    then have "b = drop (Suc (length a)) u @ m @ v"
      using arg_cong [OF uv, of "drop (Suc (length a))"] by simp
    then show ?thesis by (metis contains_iff)
  next
    case 3
    have "(a @ c # b) ! length a = c" by simp
    moreover have "(u @ m @ v) ! length a = m ! (length a - length u)" and k: "length a - length u < length m"
      using 3 by (auto simp: nth_append)
    ultimately have "c \<in> set m" using uv nth_mem [OF k] by simp
    with assms show ?thesis by simp
  qed
next
  assume "contains a m \<or> contains b m"
  then show "contains (a @ c # b) m"
    using contains_append [of a m "[]" "c # b"] contains_append [of b m "a @ [c]" "[]"] by auto
qed

lemma contains_join:
  "c \<notin> set m \<Longrightarrow> m \<noteq> [] \<Longrightarrow> contains (join [c] ws) m = list_ex (\<lambda>w. contains w m) ws"
  by (induction "[c]" ws rule: join.induct) (simp_all add: contains_separator)

lemma turn_reason_words:
  "turn_reason = join [32] (map lit [
      ''model'', ''turn'', ''timed'', ''out'', ''before'', ''producing'', ''usable'', ''output;'', ''task'',
      ''paused'', ''at'', ''the'', ''latest'', ''checkpoint'', ''and'', ''can'', ''be'', ''resumed'',
      ''with'', ''the'', ''same'', ''task'', ''context.'', ''provider_error_preview:'', ''''])"
  by (simp add: turn_reason_def)

lemma turn_reason_lower: "to_ascii_lowercase turn_reason = turn_reason"
  by (simp add: turn_reason_def lower_code)

lemma turn_reason_clean: "list_all (\<lambda>n. \<not> contains turn_reason n) needles"
proof -
  have "list_all (\<lambda>n. \<not> contains turn_reason n) (butlast needles)"
    by (simp add: needles_def turn_reason_words contains_join starts_with_code del: join.simps)
  moreover have "\<not> contains turn_reason (last needles)"
    by (simp add: needles_def turn_reason_def starts_with_code)
  ultimately show ?thesis by (simp add: needles_def)
qed

lemma stream_reason_words:
  "stream_reason = join [32] (map lit [
      ''model'', ''text'', ''stream'', ''stalled'', ''before'', ''producing'', ''a'', ''complete'',
      ''artifact;'', ''task'', ''paused'', ''at'', ''the'', ''latest'', ''checkpoint'', ''and'', ''can'',
      ''be'', ''resumed'', ''with'', ''the'', ''same'', ''task'', ''context.'', ''provider_error_preview:'',
      ''''])"
  by (simp add: stream_reason_def)

lemma stream_reason_lower: "to_ascii_lowercase stream_reason = stream_reason"
  by (simp add: stream_reason_def lower_code)

lemma stream_reason_clean: "list_all (\<lambda>n. \<not> contains stream_reason n) needles"
proof -
  have "list_all (\<lambda>n. \<not> contains stream_reason n) (butlast needles)"
    by (simp add: needles_def stream_reason_words contains_join starts_with_code del: join.simps)
  moreover have "\<not> contains stream_reason (last needles)"
    by (simp add: needles_def stream_reason_def starts_with_code)
  ultimately show ?thesis by (simp add: needles_def)
qed

lemma disconnect_reason_words:
  "disconnect_reason = join [32] (map lit [
      ''model'', ''provider'', ''service'', ''disconnected;'', ''task'', ''paused'', ''at'', ''the'',
      ''latest'', ''checkpoint'', ''and'', ''can'', ''be'', ''resumed'', ''after'', ''the'', ''runtime'',
      ''host'', ''restarts.'', ''provider_error_preview:'', ''''])"
  by (simp add: disconnect_reason_def)

lemma disconnect_reason_lower: "to_ascii_lowercase disconnect_reason = disconnect_reason"
  by (simp add: disconnect_reason_def lower_code)

lemma disconnect_reason_clean: "list_all (\<lambda>n. \<not> contains disconnect_reason n) needles"
proof -
  have "list_all (\<lambda>n. \<not> contains disconnect_reason n) (butlast needles)"
    by (simp add: needles_def disconnect_reason_words contains_join starts_with_code del: join.simps)
  moreover have "\<not> contains disconnect_reason (last needles)"
    by (simp add: needles_def disconnect_reason_def starts_with_code)
  ultimately show ?thesis by (simp add: needles_def)
qed

lemma clean_markers:
  assumes "list_all (\<lambda>n. \<not> contains s n) needles" and "m \<in> set all_markers"
  shows "\<not> contains s m"
proof
  assume "contains s m"
  obtain i where "i < length needles" "contains m (needles ! i)"
    using markers_have_needles assms(2) by (metis (no_types, lifting) in_set_conv_nth list_all2_conv_all_nth)
  with assms(1) contains_trans [OF \<open>contains s m\<close>] show False by (metis list_all_iff nth_mem)
qed

lemma contains_ws_prefix:
  assumes "list_all is_ws w" "m \<noteq> []" "\<not> is_ws (hd m)"
  shows "contains (w @ s) m = contains s m"
  using assms(1)
proof (induction w)
  case (Cons c w)
  have "\<not> starts_with (c # w @ s) m" using Cons.prems assms(2,3) by (cases m) (auto simp: starts_with_code split: if_splits)
  with Cons show ?case by simp
qed simp

lemma contains_rev: "contains (rev s) (rev m) = contains s m"
proof -
  have "contains (rev s) (rev m)" if "contains s m" for s m :: rstr
    using that by (auto simp: contains_iff) (metis append.assoc)
  from this [of s m] this [of "rev s" "rev m"] show ?thesis by auto
qed

lemma contains_ws_suffix:
  assumes "list_all is_ws w" "m \<noteq> []" "\<not> is_ws (last m)"
  shows "contains (s @ w) m = contains s m"
  using contains_ws_prefix [of "rev w" "rev m" "rev s"] assms contains_rev [of "s @ w" m] contains_rev [of s m]
  by (simp add: hd_rev)

lemma lower_ws: "list_all is_ws (to_ascii_lowercase w) = list_all is_ws w"
  by (induction w) (auto simp: lower_code is_ws_def)

lemma trim_decomp: "\<exists>w1 w2. s = w1 @ trim s @ w2 \<and> list_all is_ws w1 \<and> list_all is_ws w2"
proof -
  obtain t where t: "trim_start s = trim s @ t" "list_all is_ws t"
    using trim_end_decomp [of "trim_start s"] by (auto simp: trim_def)
  have "s = takeWhile is_ws s @ trim_start s" by (simp add: trim_start_def)
  with t show ?thesis by (metis list_all_iff set_takeWhileD)
qed

lemma contains_lower_trim:
  assumes "plain_marker m"
  shows "contains (to_ascii_lowercase (trim s)) m = contains (to_ascii_lowercase s) m"
proof -
  obtain w1 w2 where s: "s = w1 @ trim s @ w2" and ws: "list_all is_ws w1" "list_all is_ws w2"
    using trim_decomp by blast
  have "contains (to_ascii_lowercase (w1 @ trim s @ w2)) m = contains (to_ascii_lowercase (trim s)) m"
    using ws assms contains_ws_prefix contains_ws_suffix by (simp add: lower_append lower_ws plain_marker_def)
  with s show ?thesis by simp
qed

lemma reason_contains:
  assumes "plain_marker m" and "R = R0 @ [58, 32]" and "\<not> contains (to_ascii_lowercase R) m"
  shows "contains (to_ascii_lowercase (R @ health_preview t k)) m = contains (to_ascii_lowercase (take k t)) m"
proof -
  have m: "58 \<notin> set m" "46 \<notin> set m" "m \<noteq> []" "\<not> is_ws (hd m)" using assms(1) by (auto simp: plain_marker_def)
  have R: "to_ascii_lowercase R = to_ascii_lowercase R0 @ 58 # [32]" by (simp add: assms(2) lower_append lower_code)
  with assms(3) m have R0: "\<not> contains (to_ascii_lowercase R0) m" by (simp add: contains_separator)
  let ?q = "to_ascii_lowercase (health_preview t k)"
  have "contains (to_ascii_lowercase (R @ health_preview t k)) m = contains ([32] @ ?q) m"
    using R0 contains_separator [OF m(1), of "to_ascii_lowercase R0" "[32] @ ?q"] by (simp add: lower_append R)
  also have "\<dots> = contains ?q m"
    by (rule contains_ws_prefix) (use m in \<open>simp_all add: is_ws_def\<close>)
  also have "\<dots> = contains (to_ascii_lowercase (take k t)) m"
  proof (cases "length t > k")
    case True
    have "\<not> contains [46, 46] m" using m(2,3) by (cases m) (auto simp: starts_with_code split: if_splits)
    with True show ?thesis
      using contains_separator [OF m(2), of "to_ascii_lowercase (take k t)" "[46, 46]"]
      by (simp add: health_preview_def lower_append lower_code)
  qed (simp add: health_preview_def)
  finally show ?thesis .
qed

section \<open>Classification\<close>

lemma marker_lists: "set disconnect_markers \<subseteq> set all_markers" "set turn_timeout_markers \<subseteq> set all_markers"
  "set stream_stall_markers \<subseteq> set all_markers"
  by (auto simp: all_markers_def)

lemma contains_any_cong:
  "set ms \<subseteq> set all_markers \<Longrightarrow> \<forall>m \<in> set all_markers. contains s m = contains t m \<Longrightarrow>
     contains_any s ms = contains_any t ms"
  by (auto simp: contains_any_iff)

text \<open>The order of the tests, on the message as it is: trimming changes nothing.\<close>
lemma classify_untrimmed:
  "classify_provider_health_issue s =
     (if contains_any (to_ascii_lowercase s) disconnect_markers then Some ServiceDisconnected
      else if contains_any (to_ascii_lowercase s) turn_timeout_markers then Some TurnTimedOut
      else if contains_any (to_ascii_lowercase s) stream_stall_markers then Some StreamStalled
      else None)"
proof -
  have same: "\<forall>m \<in> set all_markers. contains (to_ascii_lowercase (trim s)) m = contains (to_ascii_lowercase s) m"
    using markers_plain contains_lower_trim by (auto simp: list_all_iff)
  have empty: "\<forall>m \<in> set all_markers. \<not> contains [] m"
    using markers_plain by (auto simp: list_all_iff plain_marker_def)
  show ?thesis
  proof (cases "to_ascii_lowercase (trim s) = []")
    case True
    with same empty marker_lists show ?thesis
      by (auto simp: classify_provider_health_issue_def contains_any_iff)
  next
    case False
    then show ?thesis
      by (simp add: classify_provider_health_issue_def contains_any_cong [OF marker_lists(1) same]
          contains_any_cong [OF marker_lists(2) same] contains_any_cong [OF marker_lists(3) same])
  qed
qed

lemma classify_cong:
  assumes "\<forall>m \<in> set all_markers. contains (to_ascii_lowercase s) m = contains (to_ascii_lowercase t) m"
  shows "classify_provider_health_issue s = classify_provider_health_issue t"
  by (simp add: classify_untrimmed contains_any_cong [OF marker_lists(1) assms]
      contains_any_cong [OF marker_lists(2) assms] contains_any_cong [OF marker_lists(3) assms])

lemma classify_reason:
  assumes "R \<in> {turn_reason, stream_reason, disconnect_reason}"
  shows "classify_provider_health_issue (R @ health_preview t k) = classify_provider_health_issue (take k t)"
proof (rule classify_cong, intro ballI)
  fix m assume m: "m \<in> set all_markers"
  have "R = butlast (butlast R) @ [58, 32]"
    using assms by (auto simp: turn_reason_def stream_reason_def disconnect_reason_def)
  moreover have "\<not> contains (to_ascii_lowercase R) m"
    using assms clean_markers [OF _ m] turn_reason_clean stream_reason_clean disconnect_reason_clean
    by (auto simp: turn_reason_lower stream_reason_lower disconnect_reason_lower)
  moreover have "plain_marker m" using m markers_plain by (simp add: list_all_iff)
  ultimately show "contains (to_ascii_lowercase (R @ health_preview t k)) m = contains (to_ascii_lowercase (take k t)) m"
    by (intro reason_contains)
qed

lemma pause_reason_classified:
  "classify_provider_health_issue (provider_service_pause_reason msg) = classify_provider_health_issue (take 320 (trim msg))"
  by (auto simp: provider_service_pause_reason_def Let_def classify_reason
      split: option.splits provider_health_issue.splits)

lemma classify_trim: "classify_provider_health_issue (trim s) = classify_provider_health_issue s"
  by (simp add: classify_provider_health_issue_def)

lemma restart_of_class:
  "classify_provider_health_issue s = classify_provider_health_issue t \<Longrightarrow>
     provider_health_issue_should_restart_runtime_host s = provider_health_issue_should_restart_runtime_host t"
  by (simp add: provider_health_issue_should_restart_runtime_host_def)

section \<open>Properties\<close>

text \<open>A refused connection, reported after a long message.\<close>
definition late_report :: rstr where
  "late_report = replicate 320 120 @ lit ''connection refused''"

lemma late_report_restart: "provider_health_issue_should_restart_runtime_host late_report"
proof -
  let ?m = "lit ''connection refused''"
  have "to_ascii_lowercase ?m = ?m" by (simp add: lower_code)
  then have low: "to_ascii_lowercase late_report = replicate 320 120 @ ?m"
    by (simp only: late_report_def lower_append) (simp add: to_ascii_lowercase_def)
  have "contains ?m ?m" unfolding contains_iff by (metis append_Nil append_Nil2)
  from contains_append [OF this, of "replicate 320 120" "[]"]
  have "contains (to_ascii_lowercase late_report) ?m" by (simp only: low append_Nil2)
  moreover have "?m \<in> set disconnect_markers" by (simp add: disconnect_markers_def)
  ultimately have "contains_any (to_ascii_lowercase late_report) disconnect_markers"
    unfolding contains_any_iff by blast
  then show ?thesis
    by (simp add: provider_health_issue_should_restart_runtime_host_def classify_untrimmed)
qed

lemma late_report_lost: "classify_provider_health_issue (take 320 (trim late_report)) = None"
proof -
  have "trimmed late_report" by (simp add: trimmed_def late_report_def is_ws_def)
  then have t: "take 320 (trim late_report) = replicate 320 120"
    by (simp only: trim_trimmed) (simp add: late_report_def)
  have "list_all (\<lambda>m. m \<noteq> [] \<and> hd m \<noteq> 120) all_markers" by (simp add: marker_defs)
  then have "\<not> contains (replicate 320 120) m" if "m \<in> set all_markers" for m
    using that by (auto simp: list_all_iff contains_iff dest!: arg_cong [where f = set])
      (metis hd_in_set singletonD subsetD sup.cobounded2 sup_assoc sup.cobounded1)
  then have none: "contains_any (to_ascii_lowercase (replicate 320 120)) ms = False" if "set ms \<subseteq> set all_markers" for ms
    using that by (auto simp: contains_any_iff to_ascii_lowercase_def)
  show ?thesis unfolding t classify_untrimmed by (simp only: none marker_lists if_False)
qed

text \<open>
  The reason of a pause tells as much as its preview. Classifying a pause reason gives
  what the first 320 characters of the trimmed message give: the text around the preview
  never looks like a failure itself, and a message that fits is classified as before, so the
  decision to restart the runtime host can be taken from the reason. For a longer message
  the marker may lie behind the cut: there are messages that ask for a restart while the
  reason built from them does not.
\<close>
theorem pause_reason_keeps_class:
  "classify_provider_health_issue (provider_service_pause_reason msg)
     = classify_provider_health_issue (take 320 (trim msg))
   \<and> (length (trim msg) \<le> 320 \<longrightarrow>
        classify_provider_health_issue (provider_service_pause_reason msg) = classify_provider_health_issue msg
        \<and> provider_health_issue_should_restart_runtime_host (provider_service_pause_reason msg)
            = provider_health_issue_should_restart_runtime_host msg)
   \<and> (\<exists>long. provider_health_issue_should_restart_runtime_host long
        \<and> \<not> is_recoverable_provider_disconnect (provider_service_pause_reason long))"
proof (intro conjI impI exI)
  show c: "classify_provider_health_issue (provider_service_pause_reason msg)
     = classify_provider_health_issue (take 320 (trim msg))" by (rule pause_reason_classified)
  assume "length (trim msg) \<le> 320"
  with c show "classify_provider_health_issue (provider_service_pause_reason msg) = classify_provider_health_issue msg"
    by (simp add: classify_trim)
  then show "provider_health_issue_should_restart_runtime_host (provider_service_pause_reason msg)
      = provider_health_issue_should_restart_runtime_host msg" by (rule restart_of_class)
next
  show "provider_health_issue_should_restart_runtime_host late_report" by (rule late_report_restart)
  show "\<not> is_recoverable_provider_disconnect (provider_service_pause_reason late_report)"
    by (simp add: is_recoverable_provider_disconnect_def pause_reason_classified late_report_lost)
qed

theorem pause_reason_keeps_class_witness:
  "provider_health_issue_should_restart_runtime_host (provider_service_pause_reason (lit ''Connection refused (os error 111)''))"
proof -
  let ?msg = "lit ''Connection refused (os error 111)''"
  have low: "to_ascii_lowercase ?msg = [] @ lit ''connection refused'' @ lit '' (os error 111)''"
    by (simp add: lower_code)
  have "contains (to_ascii_lowercase ?msg) (lit ''connection refused'')"
    unfolding low contains_iff by blast
  moreover have "lit ''connection refused'' \<in> set disconnect_markers" by (simp add: disconnect_markers_def)
  ultimately have "contains_any (to_ascii_lowercase ?msg) disconnect_markers" unfolding contains_any_iff by blast
  then have "provider_health_issue_should_restart_runtime_host ?msg"
    by (simp add: provider_health_issue_should_restart_runtime_host_def classify_untrimmed)
  moreover have "length (trim ?msg) \<le> 320" using length_trim [of ?msg] by simp
  ultimately show ?thesis using pause_reason_keeps_class [of ?msg] by blast
qed

end
