(* ===== verification/Json.thy ===== *)
theory Json
  imports Prelude
begin

text \<open>
  The values of \<^verbatim>\<open>serde_json\<close> the program builds with \<^verbatim>\<open>json!\<close> and reads back by key. An
  integer is itself, any other number its double; an object is the list of its entries.
\<close>

datatype json = JNull | JBool bool | JInt int | JFloat rat | JStr rstr | JArr "json list" | JObj "(rstr \<times> json) list"

definition json_get :: "json \<Rightarrow> rstr \<Rightarrow> json option" where
  "json_get j k = (case j of JObj kvs \<Rightarrow> map_of kvs k | _ \<Rightarrow> None)"

definition as_u64 :: "json \<Rightarrow> u64 option" where
  "as_u64 j = (case j of JInt i \<Rightarrow> if 0 \<le> i \<and> i < 2 ^ 64 then Some (of_int i) else None | _ \<Rightarrow> None)"

definition as_array :: "json \<Rightarrow> json list option" where
  "as_array j = (case j of JArr xs \<Rightarrow> Some xs | _ \<Rightarrow> None)"

definition as_str :: "json \<Rightarrow> rstr option" where
  "as_str j = (case j of JStr s \<Rightarrow> Some s | _ \<Rightarrow> None)"

definition as_bool :: "json \<Rightarrow> bool option" where
  "as_bool j = (case j of JBool b \<Rightarrow> Some b | _ \<Rightarrow> None)"

text \<open>\<^verbatim>\<open>as_f64\<close> of an integer rounds it to a double.\<close>
definition as_f64 :: "json \<Rightarrow> rat option" where
  "as_f64 j = (case j of JFloat q \<Rightarrow> Some q
     | JInt i \<Rightarrow> Some (if i < 0 then - f64_round (of_int (- i)) else f64_round (of_int i))
     | _ \<Rightarrow> None)"

text \<open>\<^verbatim>\<open>value[key]\<close> for reading: a missing entry is null.\<close>
definition json_index :: "json \<Rightarrow> rstr \<Rightarrow> json" where
  "json_index j k = (case json_get j k of Some v \<Rightarrow> v | None \<Rightarrow> JNull)"

definition json_opt :: "rstr option \<Rightarrow> json" where
  "json_opt x = (case x of Some s \<Rightarrow> JStr s | None \<Rightarrow> JNull)"

end
