(* ===== verification/Continuous_Task.thy ===== *)
theory Continuous_Task
  imports Runtime_Event Task_State Provider_Health Json
begin

text \<open>
  The executor of continuous tasks (\<^verbatim>\<open>brain/src/runtime/continuous_task.rs\<close>): a plan of steps is
  run in order, each step with bounded retries and time budgets, every finished step is
  checkpointed, and the run ends completed, paused, blocked or failed. The step runner and
  the checkpoint sink are traits: their operations are the fields of \<open>executor_env\<close>, acting
  on a world that also carries the clocks. A future is the value it resolves to; one that
  is dropped by a timeout leaves the world as the runner left it.
\<close>

section \<open>Plans\<close>

record continuous_task_policy =
  cy_max_steps :: nat
  cy_max_retries_per_step :: nat
  cy_stop_on_exact_repeat :: bool
  cy_max_step_duration_secs :: "nat option"
  cy_max_step_total_duration_secs :: "nat option"

definition default_continuous_task_policy :: continuous_task_policy where
  "default_continuous_task_policy = \<lparr>cy_max_steps = 32, cy_max_retries_per_step = 1, cy_stop_on_exact_repeat = True,
     cy_max_step_duration_secs = Some 300, cy_max_step_total_duration_secs = None\<rparr>"

record continuous_artifact_target =
  ct_uri :: rstr
  ct_kind :: rstr
  ct_media_type :: "rstr option"

record continuous_task_anchor =
  an_name :: rstr
  an_value :: rstr

record continuous_task_contract =
  cn_invariants :: "rstr list"
  cn_anchors :: "continuous_task_anchor list"
  cn_completion_criteria :: "rstr list"
  cn_required_events :: "rstr list"
  cn_completion_event :: "rstr option"

datatype continuous_step_action =
    Delegate rstr rstr
  | Tool rstr json
  | Skill rstr json
  | Model rstr
  | Browser rstr json
  | File rstr rstr json
  | Composite "continuous_step_action list"
  | CustomAction rstr json

definition default_step_action :: continuous_step_action where
  "default_step_action = CustomAction (lit ''instruction'') (JObj [])"

record continuous_task_step =
  st_index :: nat
  st_label :: rstr
  st_instruction :: rstr
  st_expected_output :: "rstr option"
  st_depends_on :: "nat list"
  st_action :: continuous_step_action

record continuous_task_plan =
  pl_id :: uuid
  pl_objective :: rstr
  pl_worker_role :: rstr
  pl_steps :: "continuous_task_step list"
  pl_policy :: continuous_task_policy
  pl_artifact_target :: "continuous_artifact_target option"
  pl_contract :: "continuous_task_contract option"

definition plan_new :: "uuid \<Rightarrow> rstr \<Rightarrow> rstr \<Rightarrow> continuous_task_plan" where
  "plan_new fresh_id objective worker_role = \<lparr>pl_id = fresh_id, pl_objective = objective, pl_worker_role = worker_role,
     pl_steps = [], pl_policy = default_continuous_task_policy, pl_artifact_target = None, pl_contract = None\<rparr>"

definition with_steps :: "continuous_task_plan \<Rightarrow> continuous_task_step list \<Rightarrow> continuous_task_plan" where
  "with_steps p steps = p\<lparr>pl_steps := steps\<rparr>"

definition with_policy :: "continuous_task_plan \<Rightarrow> continuous_task_policy \<Rightarrow> continuous_task_plan" where
  "with_policy p policy = p\<lparr>pl_policy := policy\<rparr>"

definition with_artifact_target :: "continuous_task_plan \<Rightarrow> continuous_artifact_target \<Rightarrow> continuous_task_plan" where
  "with_artifact_target p target = p\<lparr>pl_artifact_target := Some target\<rparr>"

definition with_contract :: "continuous_task_plan \<Rightarrow> continuous_task_contract \<Rightarrow> continuous_task_plan" where
  "with_contract p contract = p\<lparr>pl_contract := Some contract\<rparr>"

section \<open>Requests, results and runs\<close>

record continuous_step_request =
  rq_task_id :: uuid
  rq_objective :: rstr
  rq_worker_role :: rstr
  rq_step :: continuous_task_step
  rq_previous_summary :: "rstr option"
  rq_recent_checkpoint_summaries :: "rstr list"
  rq_attempt :: nat
  rq_previous_error :: "rstr option"
  rq_contract :: "continuous_task_contract option"

record continuous_step_result =
  sr_output :: rstr
  sr_summary :: rstr
  sr_artifact_uri :: "rstr option"

text \<open>The errors of a runner: a declared blocker, or any other error by its text.\<close>
record continuous_step_blocker =
  bl_reason :: rstr
  bl_output :: rstr

datatype runner_error = Blocker continuous_step_blocker | Failure rstr

record continuous_task_checkpoint =
  cc_step :: nat
  cc_label :: rstr
  cc_recorded_at :: time
  cc_summary :: rstr
  cc_artifact_uri :: "rstr option"

datatype continuous_task_status = CtCompleted | CtPaused rstr | CtBlocked rstr | CtFailed rstr

record continuous_task_run =
  cr_task_id :: uuid
  cr_status :: continuous_task_status
  cr_completed_steps :: nat
  cr_total_steps :: nat
  cr_started_at :: time
  cr_finished_at :: time
  cr_checkpoints :: "continuous_task_checkpoint list"
  cr_outputs :: "rstr list"

record continuous_task_completion_report =
  re_task_id :: uuid
  re_status :: continuous_task_status
  re_completed_steps :: nat
  re_total_steps :: nat
  re_final_summary :: rstr
  re_artifacts :: "rstr list"
  re_checkpoint_summaries :: "rstr list"

definition final_summary :: "continuous_task_run \<Rightarrow> rstr" where
  "final_summary run =
     (if cr_checkpoints run \<noteq> [] then cc_summary (last (cr_checkpoints run))
      else if cr_outputs run \<noteq> [] then last (cr_outputs run)
      else lit ''no steps completed'')"

definition checkpoint_line :: "continuous_task_checkpoint \<Rightarrow> rstr" where
  "checkpoint_line c = show_nat (cc_step c) @ lit ''. '' @ cc_label c @ lit '': '' @ cc_summary c"

definition completion_report :: "continuous_task_run \<Rightarrow> continuous_task_completion_report" where
  "completion_report run = \<lparr>re_task_id = cr_task_id run, re_status = cr_status run,
     re_completed_steps = cr_completed_steps run, re_total_steps = cr_total_steps run,
     re_final_summary = final_summary run,
     re_artifacts = List.map_filter cc_artifact_uri (cr_checkpoints run),
     re_checkpoint_summaries = map checkpoint_line (cr_checkpoints run)\<rparr>"

section \<open>The completion gate\<close>

datatype continuous_completion_gate_decision = GateComplete | GateBlocked rstr

definition required_topics :: "continuous_task_plan \<Rightarrow> rstr list" where
  "required_topics plan = (case pl_contract plan of None \<Rightarrow> []
     | Some c \<Rightarrow> cn_required_events c @ (case cn_completion_event c of Some topic \<Rightarrow> [topic] | None \<Rightarrow> []))"

text \<open>The number under \<^verbatim>\<open>step\<close> in the payload of an event, as \<^verbatim>\<open>signature\<close> reads it.\<close>
definition payload_step :: "json \<Rightarrow> u64 option" where
  "payload_step j = Option.bind (json_get j (lit ''step'')) as_u64"

definition continuous_completion_gate_decision ::
  "(continuous_task_status \<Rightarrow> rstr) \<Rightarrow> continuous_task_plan \<Rightarrow> continuous_task_run \<Rightarrow> json runtime_event_record list \<Rightarrow>
   continuous_completion_gate_decision" where
  "continuous_completion_gate_decision debug plan run events =
     (if cr_status run \<noteq> CtCompleted
      then GateBlocked (lit ''continuous task status is '' @ debug (cr_status run))
      else let missing = missing_required_topics events (required_topics plan) in
        if missing \<noteq> []
        then GateBlocked (lit ''missing required runtime events: '' @ join (lit '', '') missing)
        else case repeated_event_signature payload_step events 12 4 of
            Some s \<Rightarrow> GateBlocked (lit ''repeated runtime event signature detected: '' @ s)
          | None \<Rightarrow> GateComplete)"

section \<open>Bad output\<close>

definition repeated_separator_ratio :: "rstr \<Rightarrow> nat" where
  "repeated_separator_ratio text =
     (let total = length text; separators = length (filter (\<lambda>c. c \<in> {95, 124, 45, 61, 126}) text)
      in if total = 0 then 0 else min ((separators * 1000) div total) 1000)"

fun same_char_run :: "rchar option \<Rightarrow> nat \<Rightarrow> nat \<Rightarrow> rstr \<Rightarrow> nat" where
  "same_char_run previous current best [] = best"
| "same_char_run previous current best (c # s) =
     (let current' = (if Some c = previous then current + 1 else 1)
      in same_char_run (Some c) current' (max best current') s)"

definition max_consecutive_same_char_run :: "rstr \<Rightarrow> nat" where
  "max_consecutive_same_char_run text = same_char_run None 0 0 text"

text \<open>Counting entries in a table: the best count so far and the first entry that reached it.\<close>
fun tally :: "(rstr \<rightharpoonup> nat) \<Rightarrow> rstr \<Rightarrow> nat \<Rightarrow> rstr list \<Rightarrow> (rstr \<rightharpoonup> nat) \<times> rstr \<times> nat" where
  "tally counts best_token best [] = (counts, best_token, best)"
| "tally counts best_token best (x # xs) =
     (let n = (case counts x of Some n \<Rightarrow> n + 1 | None \<Rightarrow> 1)
      in if n > best then tally (counts(x \<mapsto> n)) x n xs else tally (counts(x \<mapsto> n)) best_token best xs)"

definition repeated_line_blocker :: "rstr \<Rightarrow> rstr option" where
  "repeated_line_blocker text =
     (let ls = filter (\<lambda>line. length line \<ge> 8) (map trim (lines text));
          best = snd (snd (tally Map.empty [] 0 ls))
      in if length ls < 6 then None
         else if best \<ge> 4 \<and> best * 1000 div length ls \<ge> 600
         then Some (lit ''line-level repetition detected: '' @ show_nat best @ lit '' of '' @ show_nat (length ls)
           @ lit '' substantive lines are identical'')
         else None)"

definition token_separator :: "rchar \<Rightarrow> bool" where
  "token_separator c \<longleftrightarrow> is_ws c \<or> c \<in> {45, 95, 124, 47, 92, 44, 46, 59, 58, 65292, 12290, 65307, 65306, 12289, 65281,
     65311, 40, 41, 65288, 65289, 91, 93, 12304, 12305, 123, 125}"

definition repetition_tokens :: "rstr \<Rightarrow> rstr list" where
  "repetition_tokens text = filter (\<lambda>token. length token \<ge> 2) (map trim (split_by token_separator [] text))"

definition repeated_token_blocker :: "rstr \<Rightarrow> rstr option" where
  "repeated_token_blocker text =
     (let tokens = repetition_tokens text; (counts, best_token, best) = tally Map.empty [] 0 tokens;
          unique = length (remdups tokens)
      in if length tokens < 80 then None
         else if best \<ge> 24 \<and> best * 1000 div length tokens \<ge> 250
         then Some (lit ''token-level repetition detected: '' @ [39] @ best_token @ [39] @ lit '' appears '' @ show_nat best
           @ lit '' times in '' @ show_nat (length tokens) @ lit '' tokens'')
         else if length tokens \<ge> 120 \<and> unique \<le> length tokens div 12
         then Some (lit ''low-diversity repeated output detected: '' @ show_nat unique @ lit '' unique tokens across ''
           @ show_nat (length tokens) @ lit '' tokens'')
         else None)"

definition continuous_step_quality_blocker :: "rstr \<Rightarrow> rstr option" where
  "continuous_step_quality_blocker output =
     (let trimmed = trim output in
      if trimmed = [] then Some (lit ''empty output'')
      else if repeated_separator_ratio trimmed > 180 then Some (lit ''output is dominated by repeated separators'')
      else if max_consecutive_same_char_run trimmed \<ge> 80
      then Some (lit ''single character repeated '' @ show_nat (max_consecutive_same_char_run trimmed)
        @ lit '' times consecutively'')
      else case repeated_line_blocker trimmed of Some reason \<Rightarrow> Some reason
        | None \<Rightarrow> repeated_token_blocker trimmed)"

definition recoverable_markers :: "rstr list" where
  "recoverable_markers = [lit ''runtime_effect: artifact.needs_revision'',
     [34] @ lit ''runtime_effect'' @ [34, 58, 34] @ lit ''artifact.needs_revision'' @ [34],
     lit ''runtime_effect: artifact.metadata_needs_repair'',
     [34] @ lit ''runtime_effect'' @ [34, 58, 34] @ lit ''artifact.metadata_needs_repair'' @ [34]]"

definition blocked_markers :: "rstr list" where
  "blocked_markers = [lit ''status: blocked'',
     [34] @ lit ''status'' @ [34, 58, 34] @ lit ''blocked'' @ [34],
     [34] @ lit ''status'' @ [34, 58, 32, 34] @ lit ''blocked'' @ [34]] @ recoverable_markers"

definition continuous_step_declared_blocker :: "rstr \<Rightarrow> rstr option" where
  "continuous_step_declared_blocker output =
     (if \<not> contains_any (to_ascii_lowercase output) blocked_markers then None
      else Some (trim (case find (\<lambda>line. let lowered = to_ascii_lowercase line in
              starts_with lowered (lit ''blockers:'') \<or> starts_with lowered (lit ''status:'')
              \<or> starts_with lowered (lit ''runtime_effect:'')) (lines output) of
            Some line \<Rightarrow> line
          | None \<Rightarrow> lit ''continuous step declared a blocked artifact state'')))"

definition continuous_step_declared_blocker_is_recoverable :: "rstr \<Rightarrow> bool" where
  "continuous_step_declared_blocker_is_recoverable output \<longleftrightarrow> contains_any (to_ascii_lowercase output) recoverable_markers"

definition compact_runtime_preview :: "rstr \<Rightarrow> nat \<Rightarrow> rstr" where
  "compact_runtime_preview v max_chars = take max_chars v @ (if length v > max_chars then lit ''...'' else [])"

section \<open>The executor\<close>

record ('w, 'e) executor_env =
  utc_now :: "'w \<Rightarrow> time"
  instant :: "'w \<Rightarrow> nat"
  run_step :: "'w \<Rightarrow> continuous_step_request \<Rightarrow> 'w \<times> (runner_error + continuous_step_result)"
  run_step_within :: "'w \<Rightarrow> nat \<Rightarrow> continuous_step_request \<Rightarrow> 'w \<times> (runner_error + continuous_step_result) option"
  record_step :: "'w \<Rightarrow> continuous_step_request \<Rightarrow> continuous_step_result \<Rightarrow> 'w \<times> ('e + rstr option)"
  record_step_attempt :: "'w \<Rightarrow> continuous_step_request \<Rightarrow> rstr \<Rightarrow> rstr \<Rightarrow> rstr option \<Rightarrow> 'w \<times> ('e + unit)"

definition recent_checkpoint_summaries :: "continuous_task_checkpoint list \<Rightarrow> nat \<Rightarrow> rstr list" where
  "recent_checkpoint_summaries checkpoints limit = map checkpoint_line (drop (length checkpoints - limit) checkpoints)"

definition step_request :: "continuous_task_plan \<Rightarrow> continuous_task_step \<Rightarrow> rstr option \<Rightarrow> rstr list \<Rightarrow> nat \<Rightarrow> rstr option \<Rightarrow>
  continuous_step_request" where
  "step_request plan step previous_summary recent attempt previous_error = \<lparr>rq_task_id = pl_id plan,
     rq_objective = pl_objective plan, rq_worker_role = pl_worker_role plan, rq_step = step,
     rq_previous_summary = previous_summary, rq_recent_checkpoint_summaries = recent, rq_attempt = attempt,
     rq_previous_error = previous_error, rq_contract = pl_contract plan\<rparr>"

definition request_for_checkpoint :: "continuous_task_plan \<Rightarrow> continuous_task_step \<Rightarrow> rstr option \<Rightarrow> continuous_step_request" where
  "request_for_checkpoint plan step previous_summary = step_request plan step previous_summary [] 0 None"

text \<open>A budget in seconds as a duration in nanoseconds; zero means none.\<close>
definition budget :: "nat option \<Rightarrow> nat option" where
  "budget secs = (case secs of Some n \<Rightarrow> if n > 0 then Some (n * 10 ^ 9) else None | None \<Rightarrow> None)"

definition as_secs :: "nat \<Rightarrow> nat" where
  "as_secs d = d div 10 ^ 9"

text \<open>
  What one turn of the retry loop decides: take the result, try again (\<^verbatim>\<open>continue\<close>), give up
  the step (\<^verbatim>\<open>break\<close>), return the run with a status and perhaps one more output, or propagate
  an error of the sink.
\<close>
datatype 'e turn = Take continuous_step_result | Again rstr | Leave rstr
  | Return continuous_task_status "rstr option" | Propagate 'e

text \<open>Record an attempt; an error of the sink leaves the function.\<close>
definition noted :: "('w, 'e) executor_env \<Rightarrow> continuous_step_request \<Rightarrow> rstr \<Rightarrow> rstr \<Rightarrow> rstr option \<Rightarrow> 'e turn \<Rightarrow> 'w \<Rightarrow> 'w \<times> 'e turn" where
  "noted E request status reason preview t w =
     (case record_step_attempt E w request status reason preview of
        (w', Inl e) \<Rightarrow> (w', Propagate e)
      | (w', Inr _) \<Rightarrow> (w', t))"

definition judge_output :: "('w, 'e) executor_env \<Rightarrow> continuous_task_plan \<Rightarrow> continuous_step_request \<Rightarrow> continuous_step_result \<Rightarrow>
  'w \<Rightarrow> 'w \<times> 'e turn" where
  "judge_output E plan request v w =
     (case continuous_step_quality_blocker (sr_output v) of
        Some reason \<Rightarrow>
          (let error = lit ''step '' @ show_nat (st_index (rq_step request)) @ lit '' produced invalid continuous output: '' @ reason
           in noted E request (lit ''rejected'') error (Some (sr_output v)) (Again error) w)
      | None \<Rightarrow> (case continuous_step_declared_blocker (sr_output v) of
          Some reason \<Rightarrow>
            if rq_attempt request < cy_max_retries_per_step (pl_policy plan)
               \<and> continuous_step_declared_blocker_is_recoverable (sr_output v)
            then noted E request (lit ''rejected'') reason (Some (sr_output v)) (Again reason) w
            else noted E request (lit ''blocked'') reason (Some (sr_output v)) (Return (CtBlocked reason) (Some (sr_output v))) w
        | None \<Rightarrow> (w, Take v)))"

definition judge_error :: "('w, 'e) executor_env \<Rightarrow> continuous_step_request \<Rightarrow> runner_error \<Rightarrow> 'w \<Rightarrow> 'w \<times> 'e turn" where
  "judge_error E request err w =
     (case err of
        Blocker b \<Rightarrow> noted E request (lit ''blocked'') (bl_reason b) (Some (bl_output b))
          (Return (CtBlocked (bl_reason b)) (Some (bl_output b))) w
      | Failure error \<Rightarrow> noted E request (lit ''failed'') error None
          (if is_recoverable_provider_disconnect error
           then Return (CtPaused (provider_service_pause_reason error)) None else Again error) w)"

definition judge :: "('w, 'e) executor_env \<Rightarrow> continuous_task_plan \<Rightarrow> continuous_step_request \<Rightarrow>
  runner_error + continuous_step_result \<Rightarrow> 'w \<Rightarrow> 'w \<times> 'e turn" where
  "judge E plan request r w = (case r of Inr v \<Rightarrow> judge_output E plan request v w | Inl err \<Rightarrow> judge_error E request err w)"

definition run_bounded :: "('w, 'e) executor_env \<Rightarrow> continuous_task_plan \<Rightarrow> continuous_step_request \<Rightarrow> nat \<Rightarrow> 'w \<Rightarrow> 'w \<times> 'e turn" where
  "run_bounded E plan request effective w =
     (case run_step_within E w effective request of
        (w', Some r) \<Rightarrow> judge E plan request r w'
      | (w', None) \<Rightarrow>
          (let error = lit ''step '' @ show_nat (st_index (rq_step request)) @ lit '' attempt '' @ show_nat (rq_attempt request + 1)
             @ lit '' exceeded its '' @ show_nat (as_secs effective) @ lit ''s execution budget''
           in noted E request (lit ''failed'') error None (Again error) w'))"

text \<open>One turn of the retry loop, from the request to the decision.\<close>
definition attempt_step :: "('w, 'e) executor_env \<Rightarrow> continuous_task_plan \<Rightarrow> nat \<Rightarrow> continuous_step_request \<Rightarrow> 'w \<Rightarrow> 'w \<times> 'e turn" where
  "attempt_step E plan step_started request w =
     (case record_step_attempt E w request (lit ''running'') (lit ''continuous step attempt started'') None of
        (w1, Inl e) \<Rightarrow> (w1, Propagate e)
      | (w1, Inr _) \<Rightarrow>
          (let step_budget = budget (cy_max_step_duration_secs (pl_policy plan));
               elapsed = instant E w1 - step_started
           in case budget (cy_max_step_total_duration_secs (pl_policy plan)) of
                Some total_budget \<Rightarrow>
                  if elapsed \<ge> total_budget
                  then (let error = lit ''step '' @ show_nat (st_index (rq_step request)) @ lit '' exceeded its ''
                          @ show_nat (as_secs total_budget) @ lit ''s total execution budget''
                        in noted E request (lit ''failed'') error None (Leave error) w1)
                  else run_bounded E plan request
                    (case step_budget of Some b \<Rightarrow> min b (total_budget - elapsed) | None \<Rightarrow> total_budget - elapsed) w1
              | None \<Rightarrow> (case step_budget of
                    Some b \<Rightarrow> run_bounded E plan request b w1
                  | None \<Rightarrow> (case run_step E w1 request of (w2, r) \<Rightarrow> judge E plan request r w2))))"

text \<open>What the retry loop leaves: a result, no result with the last error, or an early end.\<close>
datatype 'e step_end = Got continuous_step_result | Nothing "rstr option"
  | Ended continuous_task_status "rstr option" | Raised 'e

fun retry_step :: "('w, 'e) executor_env \<Rightarrow> continuous_task_plan \<Rightarrow> continuous_task_step \<Rightarrow> rstr option \<Rightarrow> rstr list \<Rightarrow> nat \<Rightarrow>
  nat list \<Rightarrow> rstr option \<Rightarrow> 'w \<Rightarrow> 'w \<times> 'e step_end" where
  "retry_step E plan step previous_summary recent started [] last_error w = (w, Nothing last_error)"
| "retry_step E plan step previous_summary recent started (attempt # attempts) last_error w =
     (case attempt_step E plan started (step_request plan step previous_summary recent attempt last_error) w of
        (w', Take v) \<Rightarrow> (w', Got v)
      | (w', Again error) \<Rightarrow> retry_step E plan step previous_summary recent started attempts (Some error) w'
      | (w', Leave error) \<Rightarrow> (w', Nothing (Some error))
      | (w', Return status extra) \<Rightarrow> (w', Ended status extra)
      | (w', Propagate e) \<Rightarrow> (w', Raised e))"

record progress =
  pg_checkpoints :: "continuous_task_checkpoint list"
  pg_outputs :: "rstr list"
  pg_previous_summary :: "rstr option"
  pg_previous_output :: "rstr option"

definition end_run :: "('w, 'e) executor_env \<Rightarrow> continuous_task_plan \<Rightarrow> time \<Rightarrow> progress \<Rightarrow> continuous_task_status \<Rightarrow> rstr list \<Rightarrow>
  'w \<Rightarrow> 'w \<times> ('e + continuous_task_run)" where
  "end_run E plan started_at pg status extra w = (w, Inr \<lparr>cr_task_id = pl_id plan, cr_status = status,
     cr_completed_steps = length (pg_checkpoints pg), cr_total_steps = length (pl_steps plan),
     cr_started_at = started_at, cr_finished_at = utc_now E w, cr_checkpoints = pg_checkpoints pg,
     cr_outputs = pg_outputs pg @ extra\<rparr>)"

definition unfinished_dependency :: "continuous_task_checkpoint list \<Rightarrow> continuous_task_step \<Rightarrow> nat option" where
  "unfinished_dependency checkpoints step =
     find (\<lambda>dependency. \<not> list_ex (\<lambda>checkpoint. cc_step checkpoint = dependency) checkpoints) (st_depends_on step)"

definition failed_status :: "rstr option \<Rightarrow> continuous_task_status" where
  "failed_status last_error =
     (let reason = (case last_error of Some e \<Rightarrow> e | None \<Rightarrow> lit ''step failed without an error message'')
      in if is_recoverable_provider_disconnect reason then CtPaused (provider_service_pause_reason reason)
         else CtFailed reason)"

definition advance :: "continuous_task_step \<Rightarrow> continuous_step_result \<Rightarrow> rstr option \<Rightarrow> time \<Rightarrow> progress \<Rightarrow> progress" where
  "advance step v artifact_uri now pg = \<lparr>
     pg_checkpoints = pg_checkpoints pg @ [\<lparr>cc_step = st_index step, cc_label = st_label step, cc_recorded_at = now,
       cc_summary = sr_summary v, cc_artifact_uri = artifact_uri\<rparr>],
     pg_outputs = pg_outputs pg @ [sr_output v], pg_previous_summary = Some (sr_summary v),
     pg_previous_output = Some (sr_output v)\<rparr>"

text \<open>The loop over the steps; its last line is the end of the run.\<close>
fun run_steps :: "('w, 'e) executor_env \<Rightarrow> continuous_task_plan \<Rightarrow> nat \<Rightarrow> time \<Rightarrow> continuous_task_step list \<Rightarrow> progress \<Rightarrow> 'w \<Rightarrow>
  'w \<times> ('e + continuous_task_run)" where
  "run_steps E plan max_steps started_at [] pg w =
     end_run E plan started_at pg
       (if length (pl_steps plan) > max_steps
        then CtBlocked (lit ''step budget exhausted: completed '' @ show_nat max_steps @ lit '' of ''
          @ show_nat (length (pl_steps plan)) @ lit '' planned steps'')
        else CtCompleted) [] w"
| "run_steps E plan max_steps started_at (step # steps) pg w =
     (case unfinished_dependency (pg_checkpoints pg) step of
        Some dependency \<Rightarrow> end_run E plan started_at pg (CtBlocked (lit ''step '' @ show_nat (st_index step)
          @ lit '' depends on unfinished step '' @ show_nat dependency)) [] w
      | None \<Rightarrow>
        (case retry_step E plan step (pg_previous_summary pg) (recent_checkpoint_summaries (pg_checkpoints pg) 8)
               (instant E w) [0..<cy_max_retries_per_step (pl_policy plan) + 1] None w of
           (w1, Raised e) \<Rightarrow> (w1, Inl e)
         | (w1, Ended status extra) \<Rightarrow> end_run E plan started_at pg status (case extra of Some x \<Rightarrow> [x] | None \<Rightarrow> []) w1
         | (w1, Nothing last_error) \<Rightarrow> end_run E plan started_at pg (failed_status last_error) [] w1
         | (w1, Got v) \<Rightarrow>
             if cy_stop_on_exact_repeat (pl_policy plan) \<and> pg_previous_output pg = Some (sr_output v)
             then end_run E plan started_at pg (CtBlocked (lit ''exact repeated output at step '' @ show_nat (st_index step)
               @ lit ''; stopped to avoid a loop'')) [] w1
             else (case record_step E w1 (request_for_checkpoint plan step (pg_previous_summary pg)) v of
                 (w2, Inl e) \<Rightarrow> (w2, Inl e)
               | (w2, Inr uri) \<Rightarrow> run_steps E plan max_steps started_at steps
                   (advance step v (if uri = None then sr_artifact_uri v else uri) (utc_now E w2) pg) w2)))"

definition no_progress :: progress where
  "no_progress = \<lparr>pg_checkpoints = [], pg_outputs = [], pg_previous_summary = None, pg_previous_output = None\<rparr>"

definition run_with_checkpoint_sink :: "('w, 'e) executor_env \<Rightarrow> continuous_task_plan \<Rightarrow> 'w \<Rightarrow> 'w \<times> ('e + continuous_task_run)" where
  "run_with_checkpoint_sink E plan w =
     (let started_at = utc_now E w; max_steps = min (cy_max_steps (pl_policy plan)) (length (pl_steps plan))
      in if max_steps = 0
         then end_run E plan started_at no_progress (CtBlocked (lit ''continuous task has no executable steps'')) [] w
         else run_steps E plan max_steps started_at (take max_steps (pl_steps plan)) no_progress w)"

text \<open>The sink that records nothing, and the executor with it.\<close>
definition noop_sink :: "('w, 'e) executor_env \<Rightarrow> ('w, 'e) executor_env" where
  "noop_sink E = E\<lparr>record_step := (\<lambda>w _ _. (w, Inr None)), record_step_attempt := (\<lambda>w _ _ _ _. (w, Inr ()))\<rparr>"

definition run_without_sink :: "('w, 'e) executor_env \<Rightarrow> continuous_task_plan \<Rightarrow> 'w \<Rightarrow> 'w \<times> ('e + continuous_task_run)" where
  "run_without_sink E plan w = run_with_checkpoint_sink (noop_sink E) plan w"

section \<open>Composite actions\<close>

record action_outcome =
  ao_outputs :: "rstr list"
  ao_summaries :: "rstr list"
  ao_artifact_uri :: "rstr option"

fun run_actions :: "('w \<Rightarrow> continuous_step_action \<Rightarrow> continuous_step_request \<Rightarrow> 'w \<times> (runner_error + continuous_step_result)) \<Rightarrow>
  continuous_step_request \<Rightarrow> continuous_step_action list \<Rightarrow> action_outcome \<Rightarrow> 'w \<Rightarrow> 'w \<times> (runner_error + continuous_step_result)" where
  "run_actions execute request [] acc w = (w, Inr \<lparr>sr_output = join [10] (ao_outputs acc),
     sr_summary = join (lit ''; '') (ao_summaries acc), sr_artifact_uri = ao_artifact_uri acc\<rparr>)"
| "run_actions execute request (a # as) acc w =
     (case execute w a (request\<lparr>rq_step := (rq_step request)\<lparr>st_action := a\<rparr>\<rparr>) of
        (w', Inl e) \<Rightarrow> (w', Inl e)
      | (w', Inr r) \<Rightarrow> run_actions execute request as \<lparr>
            ao_outputs = (if trim (sr_output r) \<noteq> [] then ao_outputs acc @ [sr_output r] else ao_outputs acc),
            ao_summaries = (if trim (sr_summary r) \<noteq> [] then ao_summaries acc @ [sr_summary r] else ao_summaries acc),
            ao_artifact_uri = (if sr_artifact_uri r \<noteq> None then sr_artifact_uri r else ao_artifact_uri acc)\<rparr> w')"

definition action_runner :: "('w \<Rightarrow> continuous_step_action \<Rightarrow> continuous_step_request \<Rightarrow> 'w \<times> (runner_error + continuous_step_result)) \<Rightarrow>
  'w \<Rightarrow> continuous_step_request \<Rightarrow> 'w \<times> (runner_error + continuous_step_result)" where
  "action_runner execute w request = (case st_action (rq_step request) of
       Composite actions \<Rightarrow> run_actions execute request actions \<lparr>ao_outputs = [], ao_summaries = [], ao_artifact_uri = None\<rparr> w
     | action \<Rightarrow> execute w action request)"

section \<open>The events of a run\<close>

text \<open>The events the delegation tool builds from a run before it asks the gate.\<close>
definition checkpoint_events :: "(nat \<Rightarrow> uuid) \<Rightarrow> time \<Rightarrow> uuid \<Rightarrow> nat \<Rightarrow> continuous_task_checkpoint \<Rightarrow> json runtime_event_record list" where
  "checkpoint_events fresh now task_id n c =
     (let e = (\<lambda>k topic payload. with_payload (with_actor (with_task (event_new (fresh (2 * n + k)) now (JObj []) topic) task_id)
                (lit ''continuous_worker'')) payload)
      in e 0 (lit ''continuous.step.checkpointed'') (JObj [(lit ''step'', JInt (int (cc_step c))), (lit ''label'', JStr (cc_label c)),
             (lit ''summary'', JStr (cc_summary c)), (lit ''artifact_uri'', json_opt (cc_artifact_uri c))])
         # (case cc_artifact_uri c of
              Some uri \<Rightarrow> [e 1 (lit ''artifact.written'') (JObj [(lit ''step'', JInt (int (cc_step c))), (lit ''uri'', JStr uri)])]
            | None \<Rightarrow> []))"

definition runtime_events_from_continuous_run :: "(nat \<Rightarrow> uuid) \<Rightarrow> time \<Rightarrow> continuous_task_run \<Rightarrow> json runtime_event_record list" where
  "runtime_events_from_continuous_run fresh now run =
     concat (map (\<lambda>(n, c). checkpoint_events fresh now (cr_task_id run) n c) (enumerate 0 (cr_checkpoints run)))"

definition continuous_run_result_status :: "continuous_task_status \<Rightarrow> rstr" where
  "continuous_run_result_status s = (case s of CtCompleted \<Rightarrow> lit ''completed'' | CtPaused _ \<Rightarrow> lit ''paused''
     | CtBlocked _ \<Rightarrow> lit ''blocked'' | CtFailed _ \<Rightarrow> lit ''failed'')"

definition continuous_run_blockers :: "continuous_task_status \<Rightarrow> rstr option" where
  "continuous_run_blockers s = (case s of CtCompleted \<Rightarrow> None | CtPaused reason \<Rightarrow> Some reason
     | CtBlocked reason \<Rightarrow> Some reason | CtFailed reason \<Rightarrow> Some reason)"

section \<open>What the loops preserve\<close>

definition good_output :: "rstr \<Rightarrow> bool" where
  "good_output x \<longleftrightarrow> continuous_step_quality_blocker x = None \<and> continuous_step_declared_blocker x = None"

text \<open>A turn may take a good result, and may return with any status but success.\<close>
definition sound_turn :: "'e turn \<Rightarrow> bool" where
  "sound_turn t \<longleftrightarrow> (case t of Take v \<Rightarrow> good_output (sr_output v) | Return status _ \<Rightarrow> status \<noteq> CtCompleted | _ \<Rightarrow> True)"

lemma noted_sound: "sound_turn t \<Longrightarrow> sound_turn (snd (noted E r st reason pv t w))"
  by (auto simp: noted_def sound_turn_def split: prod.splits sum.splits)

lemma judge_sound: "sound_turn (snd (judge E plan request r w))"
  by (auto simp: judge_def judge_output_def judge_error_def Let_def good_output_def
      split: sum.splits option.splits runner_error.splits intro!: noted_sound) (auto simp: sound_turn_def good_output_def)

lemma run_bounded_sound: "sound_turn (snd (run_bounded E plan request b w))"
  by (auto simp: run_bounded_def Let_def judge_sound split: prod.splits option.splits intro!: noted_sound)
     (simp add: sound_turn_def)

lemma attempt_step_sound: "sound_turn (snd (attempt_step E plan started request w))"
proof -
  have "sound_turn (Leave x)" "sound_turn (Propagate e)" for x and e :: 'e by (simp_all add: sound_turn_def)
  then show ?thesis
    by (auto simp: attempt_step_def Let_def run_bounded_sound judge_sound
        split: prod.splits sum.splits option.splits intro!: noted_sound)
qed

lemma retry_step_sound:
  "retry_step E plan step ps recent started as le0 w = (w', r) \<Longrightarrow>
     (case r of Got v \<Rightarrow> good_output (sr_output v) | Ended status _ \<Rightarrow> status \<noteq> CtCompleted | _ \<Rightarrow> True)"
proof (induction as arbitrary: le0 w)
  case (Cons a as)
  obtain w1 t where t: "attempt_step E plan started (step_request plan step ps recent a le0) w = (w1, t)" by fastforce
  have "sound_turn t" using attempt_step_sound [of E plan started "step_request plan step ps recent a le0" w] t by simp
  with Cons t show ?case by (cases t) (auto simp: sound_turn_def)
qed auto

lemma failed_status_ne: "failed_status e \<noteq> CtCompleted"
  by (simp add: failed_status_def Let_def)

text \<open>The progress after a list of steps has been checkpointed.\<close>
definition progress_of :: "continuous_task_plan \<Rightarrow> continuous_task_step list \<Rightarrow> progress \<Rightarrow> bool" where
  "progress_of plan done_steps pg \<longleftrightarrow>
     map (\<lambda>c. (cc_step c, cc_label c)) (pg_checkpoints pg) = map (\<lambda>s. (st_index s, st_label s)) done_steps
     \<and> length (pg_outputs pg) = length done_steps
     \<and> pg_previous_output pg = (if pg_outputs pg = [] then None else Some (last (pg_outputs pg)))
     \<and> list_all good_output (pg_outputs pg)
     \<and> (cy_stop_on_exact_repeat (pl_policy plan) \<longrightarrow> successively (\<noteq>) (pg_outputs pg))
     \<and> (\<forall>i < length done_steps. set (st_depends_on (done_steps ! i)) \<subseteq> st_index ` set (take i done_steps))"

lemma progress_checkpoint_steps:
  "progress_of plan done_steps pg \<Longrightarrow> cc_step ` set (pg_checkpoints pg) = st_index ` set done_steps"
proof -
  assume "progress_of plan done_steps pg"
  then have "map fst (map (\<lambda>c. (cc_step c, cc_label c)) (pg_checkpoints pg)) = map fst (map (\<lambda>s. (st_index s, st_label s)) done_steps)"
    by (simp only: progress_of_def)
  then have "map cc_step (pg_checkpoints pg) = map st_index done_steps" by (simp add: comp_def)
  then show ?thesis by (metis list.set_map)
qed

lemma progress_lengths:
  "progress_of plan steps pg \<Longrightarrow> length (pg_checkpoints pg) = length steps \<and> length (pg_outputs pg) = length steps"
  unfolding progress_of_def by (metis map_eq_imp_length_eq)

lemma no_unfinished_dependency:
  "unfinished_dependency cs step = None \<longleftrightarrow> set (st_depends_on step) \<subseteq> cc_step ` set cs"
  by (auto simp: unfinished_dependency_def find_None_iff list_ex_iff)

lemma progress_advance:
  assumes "progress_of plan done_steps pg" and "unfinished_dependency (pg_checkpoints pg) step = None"
    and "good_output (sr_output v)"
    and "\<not> (cy_stop_on_exact_repeat (pl_policy plan) \<and> pg_previous_output pg = Some (sr_output v))"
  shows "progress_of plan (done_steps @ [step]) (advance step v uri now pg)"
proof -
  have dep: "set (st_depends_on step) \<subseteq> st_index ` set done_steps"
    using assms(2) progress_checkpoint_steps [OF assms(1)] by (simp add: no_unfinished_dependency)
  have "set (st_depends_on ((done_steps @ [step]) ! i)) \<subseteq> st_index ` set (take i (done_steps @ [step]))"
    if "i < length (done_steps @ [step])" for i
    using that dep assms(1) by (cases "i = length done_steps") (auto simp: progress_of_def nth_append)
  with assms show ?thesis
    by (auto simp: progress_of_def advance_def successively_append_iff)
qed

lemma run_steps_progress:
  assumes "progress_of plan done_steps pg" and "run_steps E plan ms sa steps pg w = (w', Inr run)"
  shows "\<exists>k pg' extra. k \<le> length steps \<and> progress_of plan (done_steps @ take k steps) pg'
    \<and> cr_checkpoints run = pg_checkpoints pg' \<and> cr_outputs run = pg_outputs pg' @ extra \<and> length extra \<le> 1
    \<and> cr_completed_steps run = length (pg_checkpoints pg') \<and> cr_total_steps run = length (pl_steps plan)
    \<and> (if k = length steps then extra = [] \<and> (cr_status run = CtCompleted) = (length (pl_steps plan) \<le> ms)
       else cr_status run \<noteq> CtCompleted)"
  using assms
proof (induction steps arbitrary: done_steps pg w)
  case Nil
  then show ?case by (intro exI [of _ 0] exI [of _ pg] exI [of _ "[]"]) (auto simp: end_run_def split: if_splits)
next
  case (Cons step steps)
  have early: ?case if "cr_checkpoints run = pg_checkpoints pg" "cr_completed_steps run = length (pg_checkpoints pg)"
      "cr_total_steps run = length (pl_steps plan)" "cr_outputs run = pg_outputs pg @ extra" "length extra \<le> 1"
      "cr_status run \<noteq> CtCompleted" for extra
    using that Cons.prems(1) by (intro exI [of _ 0] exI [of _ pg] exI [of _ extra]) simp
  obtain w1 r where r: "retry_step E plan step (pg_previous_summary pg) (recent_checkpoint_summaries (pg_checkpoints pg) 8)
      (instant E w) [0..<cy_max_retries_per_step (pl_policy plan) + 1] None w = (w1, r)" by fastforce
  note sound = retry_step_sound [OF r]
  show ?case
  proof (cases "unfinished_dependency (pg_checkpoints pg) step")
    case (Some d)
    with Cons.prems(2) show ?thesis by (intro early [of "[]"]) (auto simp: end_run_def)
  next
    case free: None
    show ?thesis
    proof (cases r)
      case (Nothing e)
      with Cons.prems(2) free r show ?thesis by (intro early [of "[]"]) (auto simp: end_run_def failed_status_ne)
    next
      case (Ended st extra)
      with Cons.prems(2) free r sound show ?thesis
        by (intro early [of "case extra of Some x \<Rightarrow> [x] | None \<Rightarrow> []"]) (auto simp: end_run_def split: option.splits)
    next
      case (Raised e)
      with Cons.prems(2) free r show ?thesis by simp
    next
      case (Got v)
      show ?thesis
      proof (cases "cy_stop_on_exact_repeat (pl_policy plan) \<and> pg_previous_output pg = Some (sr_output v)")
        case True
        with Cons.prems(2) free r Got show ?thesis by (intro early [of "[]"]) (auto simp: end_run_def)
      next
        case False
        obtain w2 uri where rec: "record_step E w1 (request_for_checkpoint plan step (pg_previous_summary pg)) v = (w2, Inr uri)"
          using Cons.prems(2) free r Got False by (auto split: prod.splits sum.splits if_splits)
        let ?pg = "advance step v (if uri = None then sr_artifact_uri v else uri) (utc_now E w2) pg"
        have "run_steps E plan ms sa steps ?pg w2 = (w', Inr run)"
          using Cons.prems(2) free r Got False rec by (auto split: if_splits)
        from Cons.IH [OF progress_advance [OF Cons.prems(1) free _ False] this] sound Got
        obtain k pg' extra where "k \<le> length steps" "progress_of plan ((done_steps @ [step]) @ take k steps) pg'"
          "cr_checkpoints run = pg_checkpoints pg'" "cr_outputs run = pg_outputs pg' @ extra" "length extra \<le> 1"
          "cr_completed_steps run = length (pg_checkpoints pg')" "cr_total_steps run = length (pl_steps plan)"
          "if k = length steps then extra = [] \<and> (cr_status run = CtCompleted) = (length (pl_steps plan) \<le> ms)
           else cr_status run \<noteq> CtCompleted" by auto
        then show ?thesis by (intro exI [of _ "Suc k"] exI [of _ pg'] exI [of _ extra]) simp
      qed
    qed
  qed
qed

section \<open>Counting the calls of the runner\<close>

definition counting :: "('w, 'e) executor_env \<Rightarrow> ('w \<times> nat, 'e) executor_env" where
  "counting E = \<lparr>utc_now = (\<lambda>(w, n). utc_now E w), instant = (\<lambda>(w, n). instant E w),
     run_step = (\<lambda>(w, n) r. let (w', x) = run_step E w r in ((w', n + 1), x)),
     run_step_within = (\<lambda>(w, n) b r. let (w', x) = run_step_within E w b r in ((w', n + 1), x)),
     record_step = (\<lambda>(w, n) r v. let (w', x) = record_step E w r v in ((w', n), x)),
     record_step_attempt = (\<lambda>(w, n) r s m pv. let (w', x) = record_step_attempt E w r s m pv in ((w', n), x))\<rparr>"

lemma counting_sel:
  "utc_now (counting E) (w, n) = utc_now E w" "instant (counting E) (w, n) = instant E w"
  "run_step (counting E) (w, n) r = (let (w', x) = run_step E w r in ((w', n + 1), x))"
  "run_step_within (counting E) (w, n) b r = (let (w', x) = run_step_within E w b r in ((w', n + 1), x))"
  "record_step (counting E) (w, n) r v = (let (w', x) = record_step E w r v in ((w', n), x))"
  "record_step_attempt (counting E) (w, n) r s m pv = (let (w', x) = record_step_attempt E w r s m pv in ((w', n), x))"
  by (simp_all add: counting_def)

text \<open>A computation with the counter is the one without it, and adds at most so many calls.\<close>
definition counts :: "nat \<Rightarrow> nat \<Rightarrow> ('w \<times> nat) \<times> 'a \<Rightarrow> 'w \<times> 'a \<Rightarrow> bool" where
  "counts n k x y \<longleftrightarrow> (\<exists>w n' r. x = ((w, n'), r) \<and> y = (w, r) \<and> n' \<le> n + k)"

lemma counts_mono: "counts n k x y \<Longrightarrow> k \<le> k' \<Longrightarrow> counts n k' x y"
  by (fastforce simp: counts_def)

lemma noted_counts: "counts n 0 (noted (counting E) r s m pv t (w, n)) (noted E r s m pv t w)"
  by (simp add: counts_def noted_def counting_sel Let_def split: prod.splits sum.splits)

lemma judge_counts: "counts n 0 (judge (counting E) plan r x (w, n)) (judge E plan r x w)"
proof -
  have "counts n 0 ((w, n), t) (w, t)" for t :: "'e turn" by (simp add: counts_def)
  then show ?thesis
    by (auto simp: judge_def judge_output_def judge_error_def Let_def noted_counts
        split: sum.splits option.splits runner_error.splits)
qed

lemma counts_Suc: "counts (n + 1) 0 x y \<Longrightarrow> counts n 1 x y"
  by (auto simp: counts_def)

lemma run_bounded_counts: "counts n 1 (run_bounded (counting E) plan r b (w, n)) (run_bounded E plan r b w)"
proof -
  obtain w' x where x: "run_step_within E w b r = (w', x)" by fastforce
  note j = counts_Suc [OF judge_counts] and l = counts_Suc [OF noted_counts]
  show ?thesis
    using j l by (cases x) (simp_all add: run_bounded_def counting_sel Let_def x del: lit_Cons)
qed

lemma attempt_step_counts:
  "counts n 1 (attempt_step (counting E) plan started r (w, n)) (attempt_step E plan started r w)"
proof -
  obtain w1 x where x: "record_step_attempt E w r (lit ''running'') (lit ''continuous step attempt started'') None = (w1, x)"
    by fastforce
  obtain w2 y where y: "run_step E w1 r = (w2, y)" by fastforce
  note j = counts_Suc [OF judge_counts [of "n + 1" E plan r y w2]]
  have l: "counts n 1 (noted (counting E) r s m pv t (w1, n)) (noted E r s m pv t w1)" for s m pv t
    by (rule counts_mono [OF noted_counts]) simp
  have p: "counts n 1 ((w1, n), t) (w1, t)" for t :: "'e turn" by (simp add: counts_def)
  show ?thesis
    using j l p run_bounded_counts by (auto simp: attempt_step_def counting_sel Let_def x y simp del: lit_Cons split: sum.splits option.splits)
qed

lemma retry_step_counts:
  "counts n (length as) (retry_step (counting E) plan step ps recent started as le0 (w, n))
     (retry_step E plan step ps recent started as le0 w)"
proof (induction as arbitrary: le0 w n)
  case (Cons a as)
  let ?r = "step_request plan step ps recent a le0"
  obtain w1 n1 t where t: "attempt_step (counting E) plan started ?r (w, n) = ((w1, n1), t)"
    "attempt_step E plan started ?r w = (w1, t)" "n1 \<le> n + 1"
    using attempt_step_counts [of n E plan started ?r w] by (auto simp: counts_def)
  have "counts n1 (length as) (retry_step (counting E) plan step ps recent started as (Some e) (w1, n1))
      (retry_step E plan step ps recent started as (Some e) w1)" for e by (rule Cons.IH)
  then have again: "counts n (length (a # as)) (retry_step (counting E) plan step ps recent started as (Some e) (w1, n1))
      (retry_step E plan step ps recent started as (Some e) w1)" for e
    using t(3) by (fastforce simp: counts_def)
  have stop: "counts n (length (a # as)) ((w1, n1), x) (w1, x)" for x :: "'e step_end"
    using t(3) by (simp add: counts_def)
  show ?case using again stop t(1,2) by (cases t) simp_all
qed (simp add: counts_def)

lemma run_steps_counts:
  "counts n (length steps * (cy_max_retries_per_step (pl_policy plan) + 1))
     (run_steps (counting E) plan ms sa steps pg (w, n)) (run_steps E plan ms sa steps pg w)"
proof (induction steps arbitrary: pg w n)
  case (Cons step steps)
  let ?m = "cy_max_retries_per_step (pl_policy plan) + 1"
  let ?as = "[0..<?m]"
  obtain w1 n1 r where r: "retry_step (counting E) plan step (pg_previous_summary pg)
      (recent_checkpoint_summaries (pg_checkpoints pg) 8) (instant E w) ?as None (w, n) = ((w1, n1), r)"
    "retry_step E plan step (pg_previous_summary pg)
      (recent_checkpoint_summaries (pg_checkpoints pg) 8) (instant E w) ?as None w = (w1, r)" "n1 \<le> n + ?m"
    using retry_step_counts [of n ?as E plan step] unfolding counts_def by (metis length_upt diff_zero)
  have n1: "n1 \<le> n + length (step # steps) * ?m" using r(3) by simp
  have stop: "counts n (length (step # steps) * ?m) (end_run (counting E) plan sa pg st extra (w1, n1)) (end_run E plan sa pg st extra w1)" for st extra
    using n1 by (simp add: counts_def end_run_def counting_sel)
  have first: "counts n (length (step # steps) * ?m) (end_run (counting E) plan sa pg st extra (w, n)) (end_run E plan sa pg st extra w)" for st extra
    by (simp add: counts_def end_run_def counting_sel)
  have raised: "counts n (length (step # steps) * ?m) ((w2, n1), Inl e) (w2, Inl e :: 'e + continuous_task_run)" for w2 e
    using n1 by (simp add: counts_def)
  have go: "counts n (length (step # steps) * ?m) (run_steps (counting E) plan ms sa steps pg' (w2, n1)) (run_steps E plan ms sa steps pg' w2)"
    for pg' w2
    using Cons.IH [of n1 pg' w2] r(3) by (fastforce simp: counts_def)
  show ?case
    using stop first raised go r(1,2)
    by (cases r) (auto simp: counting_sel Let_def split: option.splits prod.splits sum.splits)
qed (simp add: counts_def end_run_def counting_sel)

lemma run_counts:
  "counts 0 (min (cy_max_steps (pl_policy plan)) (length (pl_steps plan)) * (cy_max_retries_per_step (pl_policy plan) + 1))
     (run_with_checkpoint_sink (counting E) plan (w, 0)) (run_with_checkpoint_sink E plan w)"
proof -
  define ms where "ms = min (cy_max_steps (pl_policy plan)) (length (pl_steps plan))"
  have stop: "counts 0 k (end_run (counting E) plan sa pg st x (w, 0)) (end_run E plan sa pg st x w)" for k sa pg st x
    by (simp add: counts_def end_run_def counting_sel)
  have len: "length (take ms (pl_steps plan)) = ms" by (simp add: ms_def)
  note go = run_steps_counts [of 0 "take ms (pl_steps plan)" plan E ms "utc_now E w" no_progress w, unfolded len]
  show ?thesis
    unfolding run_with_checkpoint_sink_def Let_def counting_sel ms_def [symmetric] using go stop by (cases "ms = 0") simp_all
qed

section \<open>Events of a run\<close>

lemma signature_of_event:
  "signature payload_step (with_payload (with_actor (with_task (event_new i now (JObj []) topic) t) actor) payload)
     = topic @ [124] @ actor @ [124] @ [124] @ or_empty (map_option (\<lambda>v. show_nat (unat v)) (payload_step payload))"
  by (simp add: signature_def with_payload_def with_actor_def with_task_def event_new_def or_empty_def)

definition own_signature :: "rstr \<Rightarrow> nat \<Rightarrow> rstr" where
  "own_signature topic step = topic @ [124] @ lit ''continuous_worker'' @ [124] @ [124] @ show_nat step"

lemma payload_step_of: "n < 2 ^ 64 \<Longrightarrow> payload_step (JObj ((lit ''step'', JInt (int n)) # kvs)) = Some (of_nat n)"
  by (simp add: payload_step_def json_get_def as_u64_def)

lemma checkpoint_signatures:
  assumes "cc_step c < 2 ^ 64"
  shows "map (signature payload_step) (checkpoint_events fresh now t n c)
    = own_signature (lit ''continuous.step.checkpointed'') (cc_step c)
      # (if cc_artifact_uri c = None then [] else [own_signature (lit ''artifact.written'') (cc_step c)])"
proof -
  have "unat (of_nat (cc_step c) :: u64) = cc_step c" using assms by (simp add: unat_of_nat)
  then show ?thesis
    using payload_step_of [OF assms]
    by (simp add: checkpoint_events_def Let_def signature_of_event own_signature_def or_empty_def del: lit_Cons split: option.splits)
qed

lemma own_signature_inject:
  "own_signature topic m = own_signature topic n \<longleftrightarrow> m = n"
  "own_signature (lit ''continuous.step.checkpointed'') m \<noteq> own_signature (lit ''artifact.written'') n"
  "own_signature (lit ''artifact.written'') m \<noteq> own_signature (lit ''continuous.step.checkpointed'') n"
  by (simp_all add: own_signature_def)

lemma count_list_distinct: "distinct xs \<Longrightarrow> count_list xs x \<le> 1"
  by (induction xs) auto

lemma event_signatures_distinct:
  assumes "distinct (map cc_step cs)" and "\<forall>c \<in> set cs. cc_step c < 2 ^ 64"
  shows "distinct (map (signature payload_step) (concat (map (\<lambda>(n, c). checkpoint_events fresh now t n c) (enumerate k cs))))"
proof -
  let ?sigs = "\<lambda>c. own_signature (lit ''continuous.step.checkpointed'') (cc_step c)
      # (if cc_artifact_uri c = None then [] else [own_signature (lit ''artifact.written'') (cc_step c)])"
  have eq: "map (signature payload_step) (concat (map (\<lambda>(n, c). checkpoint_events fresh now t n c) (enumerate k cs)))
      = concat (map ?sigs cs)"
    using assms(2) by (induction cs arbitrary: k) (simp_all add: checkpoint_signatures)
  have "distinct (concat (map ?sigs cs))"
    using assms(1) by (induction cs) (auto simp: own_signature_inject simp del: lit_Cons split: if_splits)
  with eq show ?thesis by simp
qed

lemma event_topics:
  "ev_topic ` set (concat (map (\<lambda>(n, c). checkpoint_events fresh now t n c) (enumerate k cs)))
     = (if cs = [] then {} else {lit ''continuous.step.checkpointed''})
       \<union> (if \<exists>c \<in> set cs. cc_artifact_uri c \<noteq> None then {lit ''artifact.written''} else {})"
proof (induction cs arbitrary: k)
  case (Cons c cs)
  have "ev_topic ` set (checkpoint_events fresh now t k c) = {lit ''continuous.step.checkpointed''}
      \<union> (if cc_artifact_uri c \<noteq> None then {lit ''artifact.written''} else {})"
    by (auto simp: checkpoint_events_def Let_def with_payload_def with_actor_def with_task_def event_new_def
        simp del: lit_Cons split: option.splits)
  with Cons.IH [of "Suc k"] show ?case by (auto simp: image_Un simp del: lit_Cons)
qed simp

lemma no_missing_topics:
  "missing_required_topics es ts = [] \<longleftrightarrow> set ts \<subseteq> ev_topic ` set es"
  by (auto simp: missing_required_topics_def filter_empty_conv list_ex_iff)

lemma gate_on_own_events:
  assumes "cr_status run = CtCompleted" and "distinct (map cc_step (cr_checkpoints run))"
    and "\<forall>c \<in> set (cr_checkpoints run). cc_step c < 2 ^ 64"
  shows "continuous_completion_gate_decision debug plan run (runtime_events_from_continuous_run fresh now run) = GateComplete
    \<longleftrightarrow> set (required_topics plan) \<subseteq> ev_topic ` set (runtime_events_from_continuous_run fresh now run)"
proof -
  have "distinct (map (signature payload_step) (runtime_events_from_continuous_run fresh now run))"
    unfolding runtime_events_from_continuous_run_def by (rule event_signatures_distinct [OF assms(2,3)])
  then have "count_list (map (signature payload_step) (runtime_events_from_continuous_run fresh now run)) s < 4" for s
    by (rule le_less_trans [OF count_list_distinct]) simp
  then have "repeated_event_signature payload_step (runtime_events_from_continuous_run fresh now run) 12 4 = None"
    by (intro repeated_signature_none) simp_all
  with assms(1) show ?thesis
    by (simp add: continuous_completion_gate_decision_def Let_def no_missing_topics)
qed

section \<open>The steps of a whole run\<close>

definition sample_step :: "nat \<Rightarrow> nat list \<Rightarrow> continuous_task_step" where
  "sample_step n deps = \<lparr>st_index = n, st_label = lit ''s'', st_instruction = [], st_expected_output = None,
     st_depends_on = deps, st_action = default_step_action\<rparr>"

definition sample_plan :: continuous_task_plan where
  "sample_plan = with_steps (plan_new 9 (lit ''o'') (lit ''writer'')) [sample_step 1 [], sample_step 2 [1]]"

text \<open>A world that counts the calls; the runner answers with a different text each time.\<close>
definition sample_env :: "(nat, unit) executor_env" where
  "sample_env = \<lparr>utc_now = int, instant = (\<lambda>w. w),
     run_step = (\<lambda>w _. (w + 1, Inr \<lparr>sr_output = [97 + w], sr_summary = lit ''ok'', sr_artifact_uri = Some (lit ''f'')\<rparr>)),
     run_step_within = (\<lambda>w _ _. (w + 1, Some (Inr \<lparr>sr_output = [97 + w], sr_summary = lit ''ok'', sr_artifact_uri = Some (lit ''f'')\<rparr>))),
     record_step = (\<lambda>w _ _. (w, Inr None)), record_step_attempt = (\<lambda>w _ _ _ _. (w, Inr ()))\<rparr>"

lemma run_progress:
  assumes "run_with_checkpoint_sink E plan w = (w', Inr run)"
  shows "\<exists>k pg extra. k \<le> min (cy_max_steps (pl_policy plan)) (length (pl_steps plan))
    \<and> progress_of plan (take k (pl_steps plan)) pg
    \<and> cr_checkpoints run = pg_checkpoints pg \<and> cr_outputs run = pg_outputs pg @ extra \<and> length extra \<le> 1
    \<and> cr_completed_steps run = k
    \<and> (cr_status run = CtCompleted \<longleftrightarrow> pl_steps plan \<noteq> [] \<and> k = length (pl_steps plan))"
proof -
  define ms where "ms = min (cy_max_steps (pl_policy plan)) (length (pl_steps plan))"
  have start: "progress_of plan [] no_progress" by (simp add: progress_of_def no_progress_def)
  show ?thesis
  proof (cases "ms = 0")
    case True
    with assms have "run = \<lparr>cr_task_id = pl_id plan, cr_status = CtBlocked (lit ''continuous task has no executable steps''),
        cr_completed_steps = 0, cr_total_steps = length (pl_steps plan), cr_started_at = utc_now E w,
        cr_finished_at = utc_now E w, cr_checkpoints = [], cr_outputs = []\<rparr>"
      by (auto simp: run_with_checkpoint_sink_def Let_def ms_def end_run_def no_progress_def simp del: lit_Cons)
    then show ?thesis
      using start by (intro exI [of _ 0] exI [of _ no_progress] exI [of _ "[]"]) (simp add: no_progress_def)
  next
    case False
    with assms have "run_steps E plan ms (utc_now E w) (take ms (pl_steps plan)) no_progress w = (w', Inr run)"
      by (simp only: run_with_checkpoint_sink_def Let_def ms_def [symmetric] if_False)
    from run_steps_progress [OF start this] obtain k pg extra where k: "k \<le> length (take ms (pl_steps plan))"
      and pg: "progress_of plan (take k (take ms (pl_steps plan))) pg"
      and run: "cr_checkpoints run = pg_checkpoints pg" "cr_outputs run = pg_outputs pg @ extra" "length extra \<le> 1"
        "cr_completed_steps run = length (pg_checkpoints pg)"
      and final: "if k = length (take ms (pl_steps plan)) then extra = [] \<and> (cr_status run = CtCompleted) = (length (pl_steps plan) \<le> ms)
         else cr_status run \<noteq> CtCompleted" by auto
    have kms: "k \<le> ms" "ms \<le> length (pl_steps plan)" using k by (simp_all add: ms_def)
    then have tk: "take k (take ms (pl_steps plan)) = take k (pl_steps plan)" by (simp add: min_def)
    have "length (pg_checkpoints pg) = k"
      using pg kms progress_lengths [of plan "take k (pl_steps plan)" pg] unfolding tk by simp
    moreover have "cr_status run = CtCompleted \<longleftrightarrow> pl_steps plan \<noteq> [] \<and> k = length (pl_steps plan)"
      using final kms False by (cases "k = ms") auto
    ultimately show ?thesis
      using pg run kms unfolding tk by (intro exI [of _ k] exI [of _ pg] exI [of _ extra]) (simp add: ms_def)
  qed
qed

lemma completed_run_steps:
  assumes "run_with_checkpoint_sink E plan w = (w', Inr run)" and "cr_status run = CtCompleted"
  shows "map cc_step (cr_checkpoints run) = map st_index (pl_steps plan) \<and> cr_checkpoints run \<noteq> []"
proof -
  from run_progress [OF assms(1)] assms(2) obtain pg where pg: "progress_of plan (pl_steps plan) pg"
    "cr_checkpoints run = pg_checkpoints pg" and ne: "pl_steps plan \<noteq> []" by auto
  from pg(1) have "map fst (map (\<lambda>c. (cc_step c, cc_label c)) (pg_checkpoints pg)) = map fst (map (\<lambda>s. (st_index s, st_label s)) (pl_steps plan))"
    by (simp only: progress_of_def)
  then have "map cc_step (pg_checkpoints pg) = map st_index (pl_steps plan)" by (simp add: comp_def)
  with pg(2) ne show ?thesis by auto
qed

definition sample_answer :: "nat \<Rightarrow> continuous_step_result" where
  "sample_answer w = \<lparr>sr_output = [97 + w], sr_summary = lit ''ok'', sr_artifact_uri = Some (lit ''f'')\<rparr>"

lemma good_char:
  "continuous_step_quality_blocker [97] = None" "continuous_step_quality_blocker [98] = None"
  "continuous_step_declared_blocker [97] = None" "continuous_step_declared_blocker [98] = None"
  by (simp_all add: continuous_step_quality_blocker_def continuous_step_declared_blocker_def trim_def trim_start_def trim_end_def is_ws_def
      repeated_separator_ratio_def max_consecutive_same_char_run_def repeated_line_blocker_def repeated_token_blocker_def lines_def strip_cr_def
      repetition_tokens_def token_separator_def contains_any_def blocked_markers_def recoverable_markers_def starts_with_def
      to_ascii_lowercase_def)

lemma sample_attempt:
  "attempt_step sample_env sample_plan started request 0 = (1, Take (sample_answer 0))"
  "attempt_step sample_env sample_plan started request 1 = (2, Take (sample_answer 1))"
  by (simp_all add: attempt_step_def sample_env_def sample_plan_def with_steps_def plan_new_def default_continuous_task_policy_def
      budget_def run_bounded_def judge_def judge_output_def sample_answer_def good_char del: lit_Cons)

lemma sample_retry:
  "retry_step sample_env sample_plan step ps recent started [0..<cy_max_retries_per_step (pl_policy sample_plan) + 1] None 0
     = (1, Got (sample_answer 0))"
  "retry_step sample_env sample_plan step ps recent started [0..<cy_max_retries_per_step (pl_policy sample_plan) + 1] None 1
     = (2, Got (sample_answer 1))"
  by (simp_all add: upt_rec sample_attempt [simplified])

lemma sample_run_evaluated:
  "case run_with_checkpoint_sink sample_env sample_plan 0 of
     (w, Inr run) \<Rightarrow> w = 2 \<and> cr_status run = CtCompleted \<and> list_ex (\<lambda>c. cc_artifact_uri c \<noteq> None) (cr_checkpoints run)
   | _ \<Rightarrow> False"
proof -
  have steps: "pl_steps sample_plan = [sample_step 1 [], sample_step 2 [1]]" "cy_max_steps (pl_policy sample_plan) = 32"
    by (simp_all add: sample_plan_def with_steps_def plan_new_def default_continuous_task_policy_def)
  have sink: "record_step sample_env w r v = (w, Inr None)" for w r v by (simp add: sample_env_def)
  show ?thesis
    unfolding run_with_checkpoint_sink_def Let_def steps
    by (simp add: steps sample_retry [simplified] sink no_progress_def unfinished_dependency_def sample_step_def advance_def
        sample_answer_def end_run_def del: lit_Cons)
qed

lemma sample_run:
  "\<exists>run. run_with_checkpoint_sink sample_env sample_plan 0 = (2, Inr run) \<and> cr_status run = CtCompleted
     \<and> (\<exists>c \<in> set (cr_checkpoints run). cc_artifact_uri c \<noteq> None)"
  using sample_run_evaluated by (auto simp: list_ex_iff split: prod.splits sum.splits)

section \<open>Properties\<close>

text \<open>
  C6. A run is a prefix of its plan. Whatever the runner and the sink do, a run that is
  returned has checkpointed some number of the first steps of the plan, in order and within
  the step budget; every checkpointed step came after all steps it depends on, its output
  passed the quality gate and declared no blocker, and no output repeats the one before when
  repeats stop the run. The run is completed exactly when every step of a non-empty plan is
  checkpointed.
\<close>
theorem run_is_prefix_of_plan:
  assumes "run_with_checkpoint_sink E plan w = (w', Inr run)"
  shows "\<exists>k. cr_completed_steps run = k \<and> k \<le> min (cy_max_steps (pl_policy plan)) (length (pl_steps plan))
    \<and> map (\<lambda>c. (cc_step c, cc_label c)) (cr_checkpoints run) = map (\<lambda>s. (st_index s, st_label s)) (take k (pl_steps plan))
    \<and> (\<forall>i < k. set (st_depends_on (pl_steps plan ! i)) \<subseteq> st_index ` set (take i (pl_steps plan)))
    \<and> list_all good_output (take k (cr_outputs run)) \<and> length (cr_outputs run) \<in> {k, k + 1}
    \<and> (cy_stop_on_exact_repeat (pl_policy plan) \<longrightarrow> successively (\<noteq>) (take k (cr_outputs run)))
    \<and> (cr_status run = CtCompleted \<longleftrightarrow> pl_steps plan \<noteq> [] \<and> k = length (pl_steps plan))"
proof -
  from run_progress [OF assms] obtain k pg extra where k: "k \<le> min (cy_max_steps (pl_policy plan)) (length (pl_steps plan))"
    and pg: "progress_of plan (take k (pl_steps plan)) pg"
    and run: "cr_checkpoints run = pg_checkpoints pg" "cr_outputs run = pg_outputs pg @ extra" "length extra \<le> 1"
      "cr_completed_steps run = k" "cr_status run = CtCompleted \<longleftrightarrow> pl_steps plan \<noteq> [] \<and> k = length (pl_steps plan)"
    by blast
  have len: "length (pg_outputs pg) = k" using progress_lengths [OF pg] k by simp
  then have outs: "take k (cr_outputs run) = pg_outputs pg" using run(2) by simp
  have deps: "set (st_depends_on (pl_steps plan ! i)) \<subseteq> st_index ` set (take i (pl_steps plan))" if "i < k" for i
  proof -
    from that k have "i < length (take k (pl_steps plan))" "take i (take k (pl_steps plan)) = take i (pl_steps plan)" by simp_all
    with pg that show ?thesis unfolding progress_of_def by (metis nth_take)
  qed
  have "map (\<lambda>c. (cc_step c, cc_label c)) (cr_checkpoints run) = map (\<lambda>s. (st_index s, st_label s)) (take k (pl_steps plan))"
    "list_all good_output (take k (cr_outputs run))"
    "cy_stop_on_exact_repeat (pl_policy plan) \<longrightarrow> successively (\<noteq>) (take k (cr_outputs run))"
    using pg run(1) unfolding outs progress_of_def by simp_all
  moreover have "length (cr_outputs run) \<in> {k, k + 1}" using run(2,3) len by (cases extra) auto
  ultimately show ?thesis using k run(4,5) deps by blast
qed

theorem run_is_prefix_of_plan_witness:
  "\<exists>run. run_with_checkpoint_sink sample_env sample_plan 0 = (2, Inr run) \<and> cr_completed_steps run = 2
     \<and> map (\<lambda>c. (cc_step c, cc_label c)) (cr_checkpoints run) = [(1, lit ''s''), (2, lit ''s'')]"
proof -
  obtain run where run: "run_with_checkpoint_sink sample_env sample_plan 0 = (2, Inr run)" "cr_status run = CtCompleted"
    using sample_run by blast
  have steps: "map (\<lambda>s. (st_index s, st_label s)) (pl_steps sample_plan) = [(1, lit ''s''), (2, lit ''s'')]"
    "length (pl_steps sample_plan) = 2"
    by (simp_all add: sample_plan_def with_steps_def sample_step_def)
  from run_is_prefix_of_plan [OF run(1)] run(2) obtain k where "cr_completed_steps run = k" "k = length (pl_steps sample_plan)"
    "map (\<lambda>c. (cc_step c, cc_label c)) (cr_checkpoints run) = map (\<lambda>s. (st_index s, st_label s)) (take k (pl_steps sample_plan))"
    by blast
  with run(1) steps show ?thesis by simp
qed

text \<open>
  C28. A run ends within its attempt budget. Counting the calls of the step runner changes
  nothing of what the executor returns, and the runner is called at most once per allowed
  attempt of every step within the step budget, whatever the runner and the sink answer.
\<close>
theorem runner_calls_bounded:
  "\<exists>n. run_with_checkpoint_sink (counting E) plan (w, 0)
      = (let (w', r) = run_with_checkpoint_sink E plan w in ((w', n), r))
    \<and> n \<le> min (cy_max_steps (pl_policy plan)) (length (pl_steps plan)) * (cy_max_retries_per_step (pl_policy plan) + 1)"
  using run_counts [of plan E w] by (auto simp: counts_def split: prod.splits)

text \<open>
  The completion gate on a run's own events. A completed run whose step numbers are
  distinct and fit an unsigned 64-bit integer passes the gate on the events recorded for it
  exactly when every topic its plan requires is the checkpoint topic, or the artifact topic of
  a run that wrote an artifact. The repetition check never stops such a run.
\<close>
theorem gate_accepts_own_events:
  assumes "run_with_checkpoint_sink E plan w = (w', Inr run)" and "cr_status run = CtCompleted"
    and "distinct (map st_index (pl_steps plan))" and "\<forall>s \<in> set (pl_steps plan). st_index s < 2 ^ 64"
  shows "continuous_completion_gate_decision debug plan run (runtime_events_from_continuous_run fresh now run) = GateComplete
    \<longleftrightarrow> set (required_topics plan) \<subseteq> {lit ''continuous.step.checkpointed''}
          \<union> (if \<exists>c \<in> set (cr_checkpoints run). cc_artifact_uri c \<noteq> None then {lit ''artifact.written''} else {})"
proof -
  from completed_run_steps [OF assms(1,2)] have steps: "map cc_step (cr_checkpoints run) = map st_index (pl_steps plan)"
    and ne: "cr_checkpoints run \<noteq> []" by auto
  have "\<forall>c \<in> set (cr_checkpoints run). cc_step c < 2 ^ 64"
    using assms(4) arg_cong [OF steps, of set] by (metis (mono_tags, lifting) image_iff list.set_map)
  moreover have "distinct (map cc_step (cr_checkpoints run))" using assms(3) steps by simp
  moreover have "ev_topic ` set (runtime_events_from_continuous_run fresh now run) = {lit ''continuous.step.checkpointed''}
      \<union> (if \<exists>c \<in> set (cr_checkpoints run). cc_artifact_uri c \<noteq> None then {lit ''artifact.written''} else {})"
    unfolding runtime_events_from_continuous_run_def event_topics using ne by (simp only: if_False)
  ultimately show ?thesis using gate_on_own_events [OF assms(2)] by metis
qed

theorem gate_accepts_own_events_witness:
  "\<exists>run. run_with_checkpoint_sink sample_env sample_plan 0 = (2, Inr run)
     \<and> (continuous_completion_gate_decision (\<lambda>_. []) sample_plan run (runtime_events_from_continuous_run of_nat 0 run) = GateComplete
        \<longleftrightarrow> set (required_topics sample_plan) \<subseteq> {lit ''continuous.step.checkpointed'', lit ''artifact.written''})"
proof -
  obtain run where run: "run_with_checkpoint_sink sample_env sample_plan 0 = (2, Inr run)" "cr_status run = CtCompleted"
      "\<exists>c \<in> set (cr_checkpoints run). cc_artifact_uri c \<noteq> None" using sample_run by blast
  have "distinct (map st_index (pl_steps sample_plan))" "\<forall>s \<in> set (pl_steps sample_plan). st_index s < 2 ^ 64"
    by (simp_all add: sample_plan_def with_steps_def plan_new_def sample_step_def)
  from gate_accepts_own_events [OF run(1,2) this] run show ?thesis by auto
qed

end
