(* ===== verification/Task_Sink.thy ===== *)
theory Task_Sink
  imports Continuous_Task "HOL-Library.Sublist"
begin

text \<open>
  The checkpoint sink that keeps the task record up to date (\<^verbatim>\<open>PersistentTaskCheckpointSink\<close> of
  \<^verbatim>\<open>brain/src/runtime/continuous_task.rs\<close>), over the task table and the event log, and the task
  record built from a finished run. The executor's world is the database with the rest of the
  system. The sink awaits between its database transactions, so other tasks run there:
  \<open>sk_sleep\<close> is what they do while the sink polls a paused task, \<open>sk_meanwhile\<close> what they do
  between the load and the save of a record. The poll loop has fuel; \<open>StillPaused\<close> means that
  the task was paused at every poll.
\<close>

section \<open>The sink\<close>

datatype 'e sink_error = Bail rstr | Below 'e | StillPaused

record ('e, 'db, 'b, 'x) task_sink =
  sk_db :: "('e, 'db, 'b) redb"
  sk_tasks :: "('e, json task_state, 'b) codec"
  sk_events :: "('e, json runtime_event_record, 'b) codec"
  sk_uuid :: "uuid \<Rightarrow> rstr"
  sk_stamp :: "time \<Rightarrow> rstr"
  sk_event_manager :: bool
  sk_task_id :: uuid
  sk_inner :: "'x \<Rightarrow> continuous_step_request \<Rightarrow> continuous_step_result \<Rightarrow> 'x \<times> ('e + rstr option)"
  sk_now :: "'db \<times> 'x \<Rightarrow> nat \<Rightarrow> time"
  sk_fresh :: "'db \<times> 'x \<Rightarrow> nat \<Rightarrow> uuid"
  sk_to_value :: "continuous_step_request \<Rightarrow> 'e + json"
  sk_fingerprint :: "json \<Rightarrow> rstr"
  sk_sleep :: "'db \<times> 'x \<Rightarrow> 'db \<times> 'x"
  sk_meanwhile :: "'db \<times> 'x \<Rightarrow> 'db \<times> 'x"

definition below :: "'e + 'a \<Rightarrow> 'e sink_error + 'a" where
  "below r = (case r of Inl e \<Rightarrow> Inl (Below e) | Inr a \<Rightarrow> Inr a)"

definition sink_load :: "('e, 'db, 'b, 'x) task_sink \<Rightarrow> 'db \<times> 'x \<Rightarrow> 'e + json task_state option" where
  "sink_load S w = task_load (sk_db S) (sk_tasks S) (fst w) (sk_uuid S (sk_task_id S))"

definition sink_save :: "('e, 'db, 'b, 'x) task_sink \<Rightarrow> json task_state \<Rightarrow> 'db \<times> 'x \<Rightarrow> ('db \<times> 'x) \<times> ('e sink_error + unit)" where
  "sink_save S task w = (case task_save (sk_db S) (sk_tasks S) (sk_uuid S) (fst w) task of
       Inl e \<Rightarrow> (w, Inl (Below e))
     | Inr d \<Rightarrow> ((d, snd w), Inr ()))"

definition sink_append :: "('e, 'db, 'b, 'x) task_sink \<Rightarrow> json runtime_event_record \<Rightarrow> 'db \<times> 'x \<Rightarrow> ('db \<times> 'x) \<times> ('e sink_error + unit)" where
  "sink_append S event w = (case event_append (sk_db S) (sk_events S) (sk_stamp S) (sk_uuid S) (fst w) event of
       Inl e \<Rightarrow> (w, Inl (Below e))
     | Inr (d, _) \<Rightarrow> ((d, snd w), Inr ()))"

text \<open>Load the task, change it and save it; nothing happens when there is none.\<close>
definition touch_task :: "('e, 'db, 'b, 'x) task_sink \<Rightarrow> (json task_state \<Rightarrow> json task_state) \<Rightarrow> 'db \<times> 'x \<Rightarrow>
  ('db \<times> 'x) \<times> ('e sink_error + unit)" where
  "touch_task S f w = io_then (w, below (sink_load S w)) (\<lambda>found w.
     case found of None \<Rightarrow> (w, Inr ()) | Some task \<Rightarrow> sink_save S (f task) (sk_meanwhile S w))"

fun running_status :: "task_status \<Rightarrow> task_status" where
  "running_status Cancelled = Cancelled"
| "running_status (Paused t) = Paused t"
| "running_status _ = Running"

definition sink_event :: "('e, 'db, 'b, 'x) task_sink \<Rightarrow> 'db \<times> 'x \<Rightarrow> nat \<Rightarrow> continuous_step_request \<Rightarrow> rstr \<Rightarrow> json runtime_event_record" where
  "sink_event S w n request topic =
     with_actor (with_task (event_new (sk_fresh S w n) (sk_now S w n) (JObj []) topic) (rq_task_id request)) (rq_worker_role request)"

section \<open>Recording a step\<close>

definition step_receipt :: "('e, 'db, 'b, 'x) task_sink \<Rightarrow> 'db \<times> 'x \<Rightarrow> continuous_step_request \<Rightarrow> continuous_step_result \<Rightarrow> json \<Rightarrow> runtime_receipt" where
  "step_receipt S w request result input = \<lparr>rc_receipt_id = sk_fresh S w 0, rc_status = lit ''completed'',
     rc_started_at = None, rc_finished_at = Some (sk_now S w 0), rc_actor = Some (rq_worker_role request),
     rc_action = Some (lit ''continuous_step''), rc_input_fingerprint = Some (sk_fingerprint S input),
     rc_output_fingerprint = Some (sk_fingerprint S (JObj [(lit ''summary'', JStr (sr_summary result)),
       (lit ''artifact_uri'', json_opt (sr_artifact_uri result))])),
     rc_output_preview = Some (compact_runtime_preview (sr_summary result) 500), rc_blocker = None\<rparr>"

definition step_events :: "('e, 'db, 'b, 'x) task_sink \<Rightarrow> continuous_step_request \<Rightarrow> continuous_step_result \<Rightarrow> rstr option \<Rightarrow>
  'db \<times> 'x \<Rightarrow> ('db \<times> 'x) \<times> ('e sink_error + unit)" where
  "step_events S request result artifact_uri w =
     (if \<not> sk_event_manager S then (w, Inr ())
      else io_then (w, below (sk_to_value S request)) (\<lambda>input w.
        io_then (sink_append S (with_payload (with_receipt (sink_event S w 1 request (lit ''continuous.step.checkpointed''))
             (step_receipt S w request result input))
             (JObj [(lit ''step'', JInt (int (st_index (rq_step request)))), (lit ''label'', JStr (st_label (rq_step request))),
               (lit ''summary'', JStr (sr_summary result)), (lit ''artifact_uri'', json_opt (or_else artifact_uri (sr_artifact_uri result)))])) w)
        (\<lambda>_ w. case or_else artifact_uri (sr_artifact_uri result) of
            None \<Rightarrow> (w, Inr ())
          | Some uri \<Rightarrow> sink_append S (with_payload (sink_event S w 2 request (lit ''artifact.written''))
              (JObj [(lit ''step'', JInt (int (st_index (rq_step request)))), (lit ''uri'', JStr uri)])) w)))"

definition step_artifact_id :: "(uuid \<Rightarrow> rstr) \<Rightarrow> uuid \<Rightarrow> nat \<Rightarrow> rstr" where
  "step_artifact_id us task_id index = lit ''continuous:'' @ us task_id @ lit '':'' @ show_nat index"

definition checkpointed :: "(uuid \<Rightarrow> rstr) \<Rightarrow> (nat \<Rightarrow> time) \<Rightarrow> continuous_step_request \<Rightarrow> continuous_step_result \<Rightarrow> rstr option \<Rightarrow>
  json task_state \<Rightarrow> json task_state" where
  "checkpointed us now request result uri task = task\<lparr>
     t_updated_at := now 0, t_status := running_status (t_status task),
     t_current_step := of_nat (st_index (rq_step request)),
     t_checkpoints := t_checkpoints task @ [\<lparr>cp_step = of_nat (st_index (rq_step request)), cp_label = st_label (rq_step request),
       cp_recorded_at = now 1, cp_summary = Some (sr_summary result)\<rparr>],
     t_artifacts := (case uri of None \<Rightarrow> t_artifacts task
       | Some u \<Rightarrow> (let artifact_id = step_artifact_id us (rq_task_id request) (st_index (rq_step request))
           in if list_ex (\<lambda>a. ar_artifact_id a = artifact_id) (t_artifacts task) then t_artifacts task
              else t_artifacts task @ [\<lparr>ar_artifact_id = artifact_id, ar_kind = lit ''continuous_output'', ar_uri = u,
                ar_media_type = Some (lit ''text/plain'')\<rparr>]))\<rparr>"

definition sink_record_step :: "('e, 'db, 'b, 'x) task_sink \<Rightarrow> 'db \<times> 'x \<Rightarrow> continuous_step_request \<Rightarrow> continuous_step_result \<Rightarrow>
  ('db \<times> 'x) \<times> ('e sink_error + rstr option)" where
  "sink_record_step S w request result =
     io_then (w, below (sink_load S w)) (\<lambda>found w.
     if (case found of Some task \<Rightarrow> t_status task = Cancelled | None \<Rightarrow> False)
     then (w, Inl (Bail (lit ''continuous task was cancelled'')))
     else io_then (let (x, r) = sk_inner S (snd w) request result in ((fst w, x), below r)) (\<lambda>artifact_uri w.
     io_then (step_events S request result artifact_uri w) (\<lambda>_ w.
     io_then (touch_task S (checkpointed (sk_uuid S) (sk_now S w) request result (or_else artifact_uri (sr_artifact_uri result))) w) (\<lambda>_ w.
     (w, Inr artifact_uri)))))"

section \<open>Recording an attempt\<close>

text \<open>The loop that polls a paused task every half second.\<close>
fun wait_while_paused :: "('e, 'db, 'b, 'x) task_sink \<Rightarrow> nat \<Rightarrow> 'db \<times> 'x \<Rightarrow> ('db \<times> 'x) \<times> ('e sink_error + unit)" where
  "wait_while_paused S 0 w = (w, Inl StillPaused)"
| "wait_while_paused S (Suc n) w = (case sink_load S w of
       Inl e \<Rightarrow> (w, Inl (Below e))
     | Inr None \<Rightarrow> (w, Inr ())
     | Inr (Some task) \<Rightarrow> (case t_status task of
           Cancelled \<Rightarrow> (w, Inl (Bail (lit ''continuous task was cancelled'')))
         | Paused _ \<Rightarrow> wait_while_paused S n (sk_sleep S w)
         | _ \<Rightarrow> (w, Inr ())))"

definition attempt_status :: "rstr \<Rightarrow> rstr" where
  "attempt_status status = (if trim status = [] then lit ''failed'' else trim status)"

definition attempt_summary :: "continuous_step_request \<Rightarrow> rstr \<Rightarrow> rstr \<Rightarrow> rstr" where
  "attempt_summary request status reason = lit ''continuous step '' @ show_nat (st_index (rq_step request)) @ lit '' attempt ''
     @ show_nat (rq_attempt request + 1) @ lit '' '' @ status @ lit '': '' @ compact_runtime_preview reason 500"

definition attempt_receipt :: "('e, 'db, 'b, 'x) task_sink \<Rightarrow> 'db \<times> 'x \<Rightarrow> continuous_step_request \<Rightarrow> rstr \<Rightarrow> rstr \<Rightarrow> rstr option \<Rightarrow>
  json \<Rightarrow> runtime_receipt" where
  "attempt_receipt S w request status reason preview input = \<lparr>rc_receipt_id = sk_fresh S w 0, rc_status = status,
     rc_started_at = None, rc_finished_at = Some (sk_now S w 0), rc_actor = Some (rq_worker_role request),
     rc_action = Some (lit ''continuous_step_attempt''), rc_input_fingerprint = Some (sk_fingerprint S input),
     rc_output_fingerprint = map_option (\<lambda>p. sk_fingerprint S (JObj [(lit ''preview'', JStr p)])) preview,
     rc_output_preview = map_option (\<lambda>p. compact_runtime_preview p 500) preview,
     rc_blocker = (if status = lit ''running'' then None else Some (compact_runtime_preview reason 500))\<rparr>"

definition attempt_event :: "('e, 'db, 'b, 'x) task_sink \<Rightarrow> continuous_step_request \<Rightarrow> rstr \<Rightarrow> rstr \<Rightarrow> rstr option \<Rightarrow>
  'db \<times> 'x \<Rightarrow> ('db \<times> 'x) \<times> ('e sink_error + unit)" where
  "attempt_event S request status reason preview w =
     (if \<not> sk_event_manager S then (w, Inr ())
      else io_then (w, below (sk_to_value S request)) (\<lambda>input w.
        sink_append S (with_payload (with_receipt (sink_event S w 1 request (lit ''continuous.step.attempt''))
             (attempt_receipt S w request status reason preview input))
             (JObj [(lit ''step'', JInt (int (st_index (rq_step request)))), (lit ''label'', JStr (st_label (rq_step request))),
               (lit ''attempt'', JInt (int (rq_attempt request + 1))), (lit ''status'', JStr status), (lit ''reason'', JStr reason),
               (lit ''output_chars'', (case preview of Some p \<Rightarrow> JInt (int (length p)) | None \<Rightarrow> JNull))])) w))"

definition attempted :: "(nat \<Rightarrow> time) \<Rightarrow> continuous_step_request \<Rightarrow> rstr \<Rightarrow> rstr \<Rightarrow> json task_state \<Rightarrow> json task_state" where
  "attempted now request status summary task = task\<lparr>
     t_updated_at := now 0, t_status := running_status (t_status task),
     t_current_step := of_nat (st_index (rq_step request)),
     t_checkpoints := t_checkpoints task @ [\<lparr>cp_step = of_nat (st_index (rq_step request)),
       cp_label = st_label (rq_step request) @ lit '':attempt-'' @ show_nat (rq_attempt request + 1) @ lit ''-'' @ status,
       cp_recorded_at = now 1, cp_summary = Some summary\<rparr>]\<rparr>"

definition sink_record_step_attempt :: "('e, 'db, 'b, 'x) task_sink \<Rightarrow> nat \<Rightarrow> 'db \<times> 'x \<Rightarrow> continuous_step_request \<Rightarrow> rstr \<Rightarrow> rstr \<Rightarrow>
  rstr option \<Rightarrow> ('db \<times> 'x) \<times> ('e sink_error + unit)" where
  "sink_record_step_attempt S patience w request status reason preview =
     io_then (wait_while_paused S patience w) (\<lambda>_ w.
     let status = attempt_status status; summary = attempt_summary request status reason
     in io_then (attempt_event S request status reason preview w) (\<lambda>_ w.
        touch_task S (attempted (sk_now S w) request status summary) w))"

text \<open>The executor with this sink.\<close>
definition with_task_sink :: "('e, 'db, 'b, 'x) task_sink \<Rightarrow> nat \<Rightarrow> ('db \<times> 'x, 'e sink_error) executor_env \<Rightarrow>
  ('db \<times> 'x, 'e sink_error) executor_env" where
  "with_task_sink S patience E = E\<lparr>record_step := sink_record_step S, record_step_attempt := sink_record_step_attempt S patience\<rparr>"

section \<open>The task record of a finished run\<close>

fun task_status_of_run :: "time \<Rightarrow> continuous_task_status \<Rightarrow> task_status" where
  "task_status_of_run finished CtCompleted = Completed"
| "task_status_of_run finished (CtPaused reason) = Paused finished"
| "task_status_of_run finished (CtBlocked reason) = Blocked reason"
| "task_status_of_run finished (CtFailed reason) = Failed reason"

definition paused_checkpoint :: "continuous_task_run \<Rightarrow> task_checkpoint list" where
  "paused_checkpoint run = (case cr_status run of
       CtPaused reason \<Rightarrow> [\<lparr>cp_step = of_nat (cr_completed_steps run), cp_label = lit ''continuous_task:paused:provider_service'',
         cp_recorded_at = cr_finished_at run, cp_summary = Some reason\<rparr>]
     | _ \<Rightarrow> [])"

definition run_artifact :: "(uuid \<Rightarrow> rstr) \<Rightarrow> continuous_task_plan \<Rightarrow> continuous_task_checkpoint \<Rightarrow> task_artifact_ref option" where
  "run_artifact us plan c = map_option (\<lambda>uri. \<lparr>ar_artifact_id = step_artifact_id us (pl_id plan) (cc_step c),
     ar_kind = (case pl_artifact_target plan of Some target \<Rightarrow> ct_kind target | None \<Rightarrow> lit ''continuous_output''),
     ar_uri = uri,
     ar_media_type = Option.bind (pl_artifact_target plan) ct_media_type\<rparr>) (cc_artifact_uri c)"

text \<open>
  The JSON of the artifact target, the contract and the status of the run is the argument
  \<open>enc\<close>; a new record's own identifier and time stamp are overwritten at once.
\<close>
record run_encoders =
  enc_target :: "continuous_artifact_target option \<Rightarrow> json"
  enc_contract :: "continuous_task_contract option \<Rightarrow> json"
  enc_status :: "continuous_task_status \<Rightarrow> json"

definition task_state_from_continuous_run :: "run_encoders \<Rightarrow> (uuid \<Rightarrow> rstr) \<Rightarrow> uuid \<Rightarrow> time \<Rightarrow> continuous_task_plan \<Rightarrow> continuous_task_run \<Rightarrow>
  rstr \<Rightarrow> rstr option \<Rightarrow> rstr option \<Rightarrow> json task_state" where
  "task_state_from_continuous_run enc us fresh_id now plan run agent_id session_id thread_id =
     (task_new fresh_id now (lit ''continuous_task'') (pl_objective plan)
       (JObj [(lit ''entrypoint'', JStr (lit ''brain.runtime.continuous_task'')), (lit ''worker_role'', JStr (pl_worker_role plan)),
         (lit ''planned_steps'', JInt (int (length (pl_steps plan)))), (lit ''artifact_target'', enc_target enc (pl_artifact_target plan)),
         (lit ''contract'', enc_contract enc (pl_contract plan))]) agent_id)
     \<lparr>t_id := pl_id plan, t_created_at := cr_started_at run, t_updated_at := cr_finished_at run,
      t_current_step := of_nat (cr_completed_steps run), t_total_steps := Some (of_nat (cr_total_steps run)),
      t_session_id := session_id, t_thread_id := thread_id, t_tags := [lit ''continuous'', lit ''checkpointed''],
      t_status := task_status_of_run (cr_finished_at run) (cr_status run),
      t_checkpoints := map (\<lambda>c. \<lparr>cp_step = of_nat (cc_step c), cp_label = cc_label c, cp_recorded_at = cc_recorded_at c,
        cp_summary = Some (cc_summary c)\<rparr>) (cr_checkpoints run) @ paused_checkpoint run,
      t_artifacts := List.map_filter (run_artifact us plan) (cr_checkpoints run),
      t_result := Some (JObj [(lit ''status'', enc_status enc (cr_status run)), (lit ''completed_steps'', JInt (int (cr_completed_steps run))),
        (lit ''total_steps'', JInt (int (cr_total_steps run))), (lit ''final_summary'', JStr (final_summary run))])\<rparr>"

section \<open>The contract of a checkpoint sink\<close>

text \<open>
  What a sink must keep so that the world tells, after every return, which steps are
  checkpointed: \<open>holds cs\<close> says that the world accounts for the checkpoints \<open>cs\<close>.
\<close>

locale checkpoint_contract =
  fixes E :: "('w, 'e) executor_env" and plan :: continuous_task_plan
    and holds :: "continuous_task_checkpoint list \<Rightarrow> 'w \<Rightarrow> bool"
  assumes runner_keeps: "holds cs w \<Longrightarrow> holds cs (fst (run_step E w r))"
    and bounded_runner_keeps: "holds cs w \<Longrightarrow> holds cs (fst (run_step_within E w b r))"
    and attempt_keeps: "holds cs w \<Longrightarrow> record_step_attempt E w r s m p = (w', Inr ()) \<Longrightarrow> holds cs w'"
    and step_advances: "holds cs w \<Longrightarrow> record_step E w (request_for_checkpoint plan step ps) v = (w', Inr uri) \<Longrightarrow>
      holds (cs @ [\<lparr>cc_step = st_index step, cc_label = st_label step, cc_recorded_at = utc_now E w',
        cc_summary = sr_summary v, cc_artifact_uri = (if uri = None then sr_artifact_uri v else uri)\<rparr>]) w'"
begin

definition kept :: "continuous_task_checkpoint list \<Rightarrow> 'w \<times> 'e turn \<Rightarrow> bool" where
  "kept cs r \<longleftrightarrow> (case r of (w, Propagate _) \<Rightarrow> True | (w, _) \<Rightarrow> holds cs w)"

lemma noted_kept: "holds cs w \<Longrightarrow> kept cs (noted E r s m pv t w)"
  by (auto simp: noted_def kept_def dest: attempt_keeps split: prod.splits sum.splits turn.splits)

lemma judge_kept:
  assumes "holds cs w"
  shows "kept cs (judge E plan r x w)"
proof -
  note n = noted_kept [OF assms]
  have t: "kept cs (w, Take v)" for v using assms by (simp add: kept_def)
  have "kept cs (judge_error E r e w)" for e by (cases e) (simp_all add: judge_error_def n)
  moreover have "kept cs (judge_output E plan r v w)" for v
    using n t by (simp add: judge_output_def Let_def split: option.split del: lit_Cons)
  ultimately show ?thesis by (cases x) (simp_all add: judge_def)
qed

lemma run_bounded_kept: "holds cs w \<Longrightarrow> kept cs (run_bounded E plan r b w)"
proof -
  assume "holds cs w"
  then have h: "holds cs (fst (run_step_within E w b r))" by (rule bounded_runner_keeps)
  obtain w1 x where x: "run_step_within E w b r = (w1, x)" by fastforce
  show ?thesis
    using judge_kept [OF h] noted_kept [OF h] by (cases x) (simp_all add: run_bounded_def Let_def x del: lit_Cons)
qed

lemma attempt_step_kept: "holds cs w \<Longrightarrow> kept cs (attempt_step E plan started r w)"
proof -
  assume h: "holds cs w"
  obtain w1 x where x: "record_step_attempt E w r (lit ''running'') (lit ''continuous step attempt started'') None = (w1, x)" by fastforce
  show ?thesis
  proof (cases x)
    case (Inr u)
    then have h1: "holds cs w1" using attempt_keeps [OF h] x by simp
    have h2: "holds cs (fst (run_step E w1 r))" by (rule runner_keeps [OF h1])
    show ?thesis
      using noted_kept [OF h1] run_bounded_kept [OF h1] judge_kept [OF h2] Inr x
      by (auto simp: attempt_step_def Let_def simp del: lit_Cons split: option.splits prod.splits)
  qed (simp add: attempt_step_def x kept_def del: lit_Cons)
qed

lemma retry_step_kept:
  "holds cs w \<Longrightarrow> retry_step E plan step ps recent started as le w = (w', r) \<Longrightarrow> (\<forall>e. r \<noteq> Raised e) \<Longrightarrow> holds cs w'"
proof (induction as arbitrary: le w)
  case (Cons a as)
  obtain w1 t where t: "attempt_step E plan started (step_request plan step ps recent a le) w = (w1, t)" by fastforce
  with attempt_step_kept [OF Cons.prems(1)] have k: "kept cs (w1, t)" by metis
  show ?case
    using Cons t k by (cases t) (auto simp: kept_def)
qed simp

lemma run_steps_hold:
  "holds (pg_checkpoints pg) w \<Longrightarrow> run_steps E plan ms sa steps pg w = (w', Inr run) \<Longrightarrow> holds (cr_checkpoints run) w'"
proof (induction steps arbitrary: pg w)
  case (Cons step steps)
  obtain w1 r where r: "retry_step E plan step (pg_previous_summary pg) (recent_checkpoint_summaries (pg_checkpoints pg) 8)
      (instant E w) [0..<cy_max_retries_per_step (pl_policy plan) + 1] None w = (w1, r)" by fastforce
  note h1 = retry_step_kept [OF Cons.prems(1) r]
  have stop: "holds (cr_checkpoints run) w'" if "holds (pg_checkpoints pg) w''" "end_run E plan sa pg st extra w'' = (w', Inr run)" for st extra w''
    using that by (auto simp: end_run_def)
  show ?case
  proof (cases "unfinished_dependency (pg_checkpoints pg) step")
    case None
    note run = Cons.prems(2) [unfolded run_steps.simps None option.case r prod.case]
    show ?thesis
    proof (cases r)
      case (Got v)
      show ?thesis
      proof (cases "cy_stop_on_exact_repeat (pl_policy plan) \<and> pg_previous_output pg = Some (sr_output v)")
        case False
        obtain w2 y where y: "record_step E w1 (request_for_checkpoint plan step (pg_previous_summary pg)) v = (w2, y)" by fastforce
        with run Got False obtain uri where uri: "y = Inr uri" by (cases y) auto
        let ?pg = "advance step v (if uri = None then sr_artifact_uri v else uri) (utc_now E w2) pg"
        have "holds (pg_checkpoints ?pg) w2"
          using step_advances [OF h1 y [unfolded uri]] Got by (simp add: advance_def)
        with Cons.IH show ?thesis using run Got False y uri by auto
      qed (use run Got h1 stop in auto)
    qed (use run h1 stop in auto)
  qed (use Cons.prems stop in auto)
qed (auto simp: end_run_def)

lemma run_holds:
  "holds [] w \<Longrightarrow> run_with_checkpoint_sink E plan w = (w', Inr run) \<Longrightarrow> holds (cr_checkpoints run) w'"
  by (auto simp: run_with_checkpoint_sink_def Let_def end_run_def no_progress_def
      dest!: run_steps_hold [rotated] split: if_splits)

end

section \<open>The task record accounts for the run\<close>

definition stored :: "('e, 'db, 'b, 'x) task_sink \<Rightarrow> ('db \<Rightarrow> rstr \<Rightarrow> rstr \<rightharpoonup> 'b) \<Rightarrow> 'db \<times> 'x \<Rightarrow> json task_state option" where
  "stored S contents w = table_view (sk_tasks S) contents TASKS_TABLE (fst w) (sk_uuid S (sk_task_id S))"

text \<open>What the rest of the system may do to the record while the run lasts.\<close>
definition same_progress :: "json task_state \<Rightarrow> json task_state \<Rightarrow> bool" where
  "same_progress t t' \<longleftrightarrow> t_id t' = t_id t \<and> t_checkpoints t' = t_checkpoints t \<and> t_artifacts t' = t_artifacts t"

definition run_mark :: "continuous_task_checkpoint \<Rightarrow> u32 \<times> rstr \<times> rstr option" where
  "run_mark c = (of_nat (cc_step c), cc_label c, Some (cc_summary c))"

definition task_mark :: "task_checkpoint \<Rightarrow> u32 \<times> rstr \<times> rstr option" where
  "task_mark c = (cp_step c, cp_label c, cp_summary c)"

definition accounts :: "(uuid \<Rightarrow> rstr) \<Rightarrow> continuous_task_plan \<Rightarrow> task_checkpoint list \<Rightarrow> continuous_task_checkpoint list \<Rightarrow> json task_state \<Rightarrow> bool" where
  "accounts us plan old cs task \<longleftrightarrow>
     (\<exists>new. t_checkpoints task = old @ new \<and> subseq (map run_mark cs) (map task_mark new))
     \<and> (\<forall>c \<in> set cs. cc_artifact_uri c \<noteq> None \<longrightarrow> step_artifact_id us (pl_id plan) (cc_step c) \<in> artifact_ids (t_artifacts task))"

lemma accounts_same: "accounts us plan old cs t \<Longrightarrow> same_progress t t' \<Longrightarrow> accounts us plan old cs t'"
  by (auto simp: accounts_def same_progress_def)

lemma accounts_attempted: "accounts us plan old cs t \<Longrightarrow> accounts us plan old cs (attempted now r s m t)"
  by (force simp: accounts_def attempted_def)

lemma accounts_checkpointed:
  assumes "accounts us plan old cs t"
  shows "accounts us plan old (cs @ [\<lparr>cc_step = st_index step, cc_label = st_label step, cc_recorded_at = n, cc_summary = sr_summary v, cc_artifact_uri = uri\<rparr>])
      (checkpointed us now (request_for_checkpoint plan step ps) v uri t)"
proof -
  let ?c = "\<lparr>cc_step = st_index step, cc_label = st_label step, cc_recorded_at = n, cc_summary = sr_summary v, cc_artifact_uri = uri\<rparr>"
  let ?t = "checkpointed us now (request_for_checkpoint plan step ps) v uri t"
  obtain new where new: "t_checkpoints t = old @ new" "subseq (map run_mark cs) (map task_mark new)"
    using assms by (auto simp: accounts_def)
  obtain c where c: "t_checkpoints ?t = old @ new @ [c]" "task_mark c = run_mark ?c"
    by (simp add: checkpointed_def new(1) task_mark_def run_mark_def request_for_checkpoint_def step_request_def)
  have "subseq (map run_mark (cs @ [?c])) (map task_mark (new @ [c]))"
    using list_emb_append_mono [OF new(2) subseq_order.order_refl [of "[run_mark ?c]"]] c(2) by simp
  moreover have "artifact_ids (t_artifacts t) \<subseteq> artifact_ids (t_artifacts ?t)"
    "uri \<noteq> None \<Longrightarrow> step_artifact_id us (pl_id plan) (st_index step) \<in> artifact_ids (t_artifacts ?t)"
    by (auto simp: checkpointed_def Let_def list_ex_artifact_id request_for_checkpoint_def step_request_def split: option.splits if_splits)
  ultimately show ?thesis
    using assms c(1) by (auto simp: accounts_def)
qed

lemma kept_id [simp]: "t_id (attempted now r s m t) = t_id t" "t_id (checkpointed us now r v uri t) = t_id t"
  by (simp_all add: attempted_def checkpointed_def)

locale stored_task = record_tables "sk_db S" contents "sk_tasks S"
  for S :: "('e, 'db, 'b, 'x) task_sink" and contents :: "'db \<Rightarrow> rstr \<Rightarrow> rstr \<rightharpoonup> 'b" +
  fixes E :: "('db \<times> 'x, 'e sink_error) executor_env"
  assumes runner_leaves: "rel_option same_progress (stored S contents w) (stored S contents (fst (run_step E w r)))"
    and bounded_runner_leaves: "rel_option same_progress (stored S contents w) (stored S contents (fst (run_step_within E w b r)))"
    and sleep_leaves: "rel_option same_progress (stored S contents w) (stored S contents (sk_sleep S w))"
begin

definition account :: "continuous_task_plan \<Rightarrow> task_checkpoint list \<Rightarrow> continuous_task_checkpoint list \<Rightarrow> 'db \<times> 'x \<Rightarrow> bool" where
  "account plan old cs w \<longleftrightarrow> (\<exists>task. stored S contents w = Some task \<and> t_id task = sk_task_id S \<and> accounts (sk_uuid S) plan old cs task)"

lemma account_same:
  assumes "account plan old cs w" and "rel_option same_progress (stored S contents w) (stored S contents w')"
  shows "account plan old cs w'"
proof -
  obtain task where task: "stored S contents w = Some task" "t_id task = sk_task_id S" "accounts (sk_uuid S) plan old cs task"
    using assms(1) by (auto simp: account_def)
  with assms(2) obtain task' where "stored S contents w' = Some task'" "same_progress task task'"
    by (auto simp: option_rel_Some1)
  with task show ?thesis using accounts_same by (auto simp: account_def same_progress_def)
qed

lemma load_stored: "sink_load S w = Inr found \<Longrightarrow> found = stored S contents w"
  unfolding sink_load_def task_load_def stored_def by (rule get_record_view)

lemma save_stored:
  "sink_save S task w = (w', Inr u) \<Longrightarrow> t_id task = sk_task_id S \<Longrightarrow> stored S contents w' = Some task"
  by (auto simp: sink_save_def task_save_def stored_def dest!: put_record_view split: sum.splits)

lemma append_stored: "sink_append S event w = (w', r) \<Longrightarrow> stored S contents w' = stored S contents w"
proof -
  assume a: "sink_append S event w = (w', r)"
  have "TASKS_TABLE \<noteq> RUNTIME_EVENTS_TABLE" by (simp add: TASKS_TABLE_def RUNTIME_EVENTS_TABLE_def)
  with a have "contents (fst w') TASKS_TABLE = contents (fst w) TASKS_TABLE"
    by (auto simp: sink_append_def event_append_def put_record_def res_bind_eq_Inr dest: insert_frame split: sum.splits prod.splits)
  then show ?thesis by (simp add: stored_def table_view_def)
qed

lemma touch_stored:
  assumes "touch_task S f w = (w', Inr u)" and "stored S contents w = Some task" and "t_id (f task) = sk_task_id S"
  shows "stored S contents w' = Some (f task)"
proof -
  obtain found where "sink_load S w = Inr found" using assms(1) by (auto simp: touch_task_def io_then_def below_def split: sum.splits)
  with assms load_stored [OF this] have "sink_save S (f task) (sk_meanwhile S w) = (w', Inr u)"
    by (simp add: touch_task_def io_then_def below_def)
  then show ?thesis using assms(3) by (rule save_stored)
qed

lemma wait_account: "account plan old cs w \<Longrightarrow> wait_while_paused S n w = (w', r) \<Longrightarrow> account plan old cs w'"
proof (induction n arbitrary: w)
  case (Suc n)
  then show ?case
    using account_same [OF Suc.prems(1) sleep_leaves]
    by (auto simp del: lit_Cons split: sum.splits option.splits task_status.splits)
qed simp

lemma attempt_event_stored: "attempt_event S r s m p w = (w', x) \<Longrightarrow> stored S contents w' = stored S contents w"
  by (auto simp: attempt_event_def io_then_def simp del: lit_Cons dest: append_stored split: if_splits sum.splits prod.splits)

lemma step_events_stored: "step_events S r v uri w = (w', x) \<Longrightarrow> stored S contents w' = stored S contents w"
  by (auto simp: step_events_def io_then_def simp del: lit_Cons dest!: append_stored
      split: if_splits sum.splits prod.splits option.splits)

lemma attempt_account:
  assumes "account plan old cs w" and "sink_record_step_attempt S n w r s m p = (w', Inr ())"
  shows "account plan old cs w'"
proof -
  obtain w1 u where w1: "wait_while_paused S n w = (w1, Inr u)"
    using assms(2) by (auto simp: sink_record_step_attempt_def io_then_def split: prod.splits sum.splits)
  define status where "status = attempt_status s"
  obtain w2 u' where w2: "attempt_event S r status m p w1 = (w2, Inr u')"
    and w': "touch_task S (attempted (sk_now S w2) r status (attempt_summary r status m)) w2 = (w', Inr ())"
    using assms(2) w1 by (auto simp: sink_record_step_attempt_def io_then_def Let_def status_def split: prod.splits sum.splits)
  from wait_account [OF assms(1) w1] obtain task where task: "stored S contents w1 = Some task" "t_id task = sk_task_id S"
    "accounts (sk_uuid S) plan old cs task" by (auto simp: account_def)
  have "stored S contents w' = Some (attempted (sk_now S w2) r status (attempt_summary r status m) task)"
    by (rule touch_stored [OF w']) (simp_all add: attempt_event_stored [OF w2] task)
  with task show ?thesis by (simp add: account_def accounts_attempted)
qed

lemma step_account:
  assumes "account plan old cs w" and "sink_record_step S w (request_for_checkpoint plan step ps) v = (w', Inr uri)"
  shows "account plan old (cs @ [\<lparr>cc_step = st_index step, cc_label = st_label step, cc_recorded_at = now,
    cc_summary = sr_summary v, cc_artifact_uri = (if uri = None then sr_artifact_uri v else uri)\<rparr>]) w'"
proof -
  let ?r = "request_for_checkpoint plan step ps"
  obtain x where x: "sk_inner S (snd w) ?r v = (x, Inr uri)"
    and rest: "io_then (step_events S ?r v uri (fst w, x)) (\<lambda>_ w.
       io_then (touch_task S (checkpointed (sk_uuid S) (sk_now S w) ?r v (or_else uri (sr_artifact_uri v))) w) (\<lambda>_ w. (w, Inr uri)))
       = (w', Inr uri)"
    using assms(2) by (auto simp: sink_record_step_def io_then_def below_def simp del: lit_Cons
        split: prod.splits sum.splits option.splits if_splits)
  from rest obtain w2 u where w2: "step_events S ?r v uri (fst w, x) = (w2, Inr u)"
    by (auto simp: io_then_def split: prod.splits sum.splits)
  with rest obtain u' where w': "touch_task S (checkpointed (sk_uuid S) (sk_now S w2) ?r v (or_else uri (sr_artifact_uri v))) w2 = (w', Inr u')"
    by (auto simp: io_then_def split: prod.splits sum.splits)
  obtain task where task: "stored S contents w = Some task" "t_id task = sk_task_id S" "accounts (sk_uuid S) plan old cs task"
    using assms(1) by (auto simp: account_def)
  have "stored S contents w2 = Some task" using step_events_stored [OF w2] task(1) by (simp add: stored_def)
  from touch_stored [OF w' this]
  have "stored S contents w' = Some (checkpointed (sk_uuid S) (sk_now S w2) ?r v (or_else uri (sr_artifact_uri v)) task)"
    using task(2) by simp
  moreover have "(if uri = None then sr_artifact_uri v else uri) = or_else uri (sr_artifact_uri v)"
    by (auto simp: or_else_def split: option.splits)
  ultimately show ?thesis using task accounts_checkpointed [OF task(3)] by (simp add: account_def)
qed

lemma sink_contract: "checkpoint_contract (with_task_sink S n E) plan (account plan old)"
  using account_same [OF _ runner_leaves] account_same [OF _ bounded_runner_leaves] attempt_account step_account
  by unfold_locales (simp_all add: with_task_sink_def)

end

sublocale stored_task \<subseteq> sink: checkpoint_contract "with_task_sink S n E" plan "account plan old"
  for n plan old
  by (rule sink_contract)

section \<open>A sample sink\<close>

text \<open>The in-memory task table, no event log, a runner that answers with a different letter each time.\<close>
definition sample_sink :: "(unit, json task_state mem_db, json task_state, nat) task_sink" where
  "sample_sink = \<lparr>sk_db = mem_tables, sk_tasks = mem_codec, sk_events = \<lparr>to_vec = (\<lambda>_. Inl ()), from_slice = (\<lambda>_. Inl ())\<rparr>,
     sk_uuid = uuid_dec, sk_stamp = (\<lambda>_. []), sk_event_manager = False, sk_task_id = 9,
     sk_inner = (\<lambda>x _ _. (x, Inr None)), sk_now = (\<lambda>w n. int n), sk_fresh = (\<lambda>w n. of_nat n), sk_to_value = (\<lambda>_. Inl ()),
     sk_fingerprint = (\<lambda>_. []), sk_sleep = (\<lambda>w. w), sk_meanwhile = (\<lambda>w. w)\<rparr>"

definition sample_runner :: "(json task_state mem_db \<times> nat, unit sink_error) executor_env" where
  "sample_runner = \<lparr>utc_now = (\<lambda>w. int (snd w)), instant = snd,
     run_step = (\<lambda>w _. ((fst w, snd w + 1), Inr (sample_answer (snd w)))),
     run_step_within = (\<lambda>w _ _. ((fst w, snd w + 1), Some (Inr (sample_answer (snd w))))),
     record_step = (\<lambda>w _ _. (w, Inr None)), record_step_attempt = (\<lambda>w _ _ _ _. (w, Inr ()))\<rparr>"


interpretation sample_stored: stored_task sample_sink mem_contents sample_runner
proof (rule stored_task.intro)
  show "record_tables (sk_db sample_sink) mem_contents (sk_tasks sample_sink)"
    using mem.record_tables_axioms by (simp add: sample_sink_def)
  have "same_progress t t" for t by (simp add: same_progress_def)
  then have "rel_option same_progress x x" for x by (simp add: option.rel_refl)
  then show "stored_task_axioms sample_sink mem_contents sample_runner"
    by unfold_locales (simp_all add: sample_runner_def sample_sink_def stored_def)
qed

definition sample_task :: "task_status \<Rightarrow> json task_state" where
  "sample_task s = (task_new 9 0 (lit ''continuous_task'') [] JNull [])\<lparr>t_status := s\<rparr>"

definition sample_world :: "task_status \<Rightarrow> json task_state mem_db \<times> nat" where
  "sample_world s = ((\<lambda>_. [(uuid_dec 9, sample_task s)]), 0)"

abbreviation sample_executor :: "(json task_state mem_db \<times> nat, unit sink_error) executor_env" where
  "sample_executor \<equiv> with_task_sink sample_sink 2 sample_runner"

definition sample_ready :: "json task_state mem_db \<times> nat \<Rightarrow> bool" where
  "sample_ready w \<longleftrightarrow> (\<exists>task. stored sample_sink mem_contents w = Some task \<and> t_id task = 9 \<and> t_status task = Running)"

lemma sample_load: "sink_load sample_sink w = Inr (stored sample_sink mem_contents w)"
proof -
  have "table_view mem_codec mem_contents t d k = map_of (d t) k" for t :: rstr and d :: "json task_state mem_db" and k
    by (simp add: table_view_def mem_contents_def mem_json_def split: option.splits)
  then show ?thesis by (simp add: sink_load_def task_load_def stored_def sample_sink_def mem_get_record)
qed

lemma sample_touch:
  assumes "sample_ready (d, n)" and "\<And>t. t_id (f t) = t_id t" and "\<And>t. t_status (f t) = running_status (t_status t)"
  shows "\<exists>d'. touch_task sample_sink f (d, n) = ((d', n), Inr ()) \<and> sample_ready (d', n)"
proof -
  obtain task where task: "stored sample_sink mem_contents (d, n) = Some task" "t_id task = 9" "t_status task = Running"
    using assms(1) by (auto simp: sample_ready_def)
  obtain d' where d': "touch_task sample_sink f (d, n) = ((d', n), Inr ())"
    using task by (simp add: touch_task_def io_then_def below_def sample_load sink_save_def task_save_def)
      (simp add: sample_sink_def mem_put_record)
  have "stored sample_sink mem_contents (d', n) = Some (f task)"
    by (rule sample_stored.touch_stored [OF d' task(1)]) (simp add: assms(2) task(2), simp add: sample_sink_def)
  with d' task assms(2,3) show ?thesis by (auto simp: sample_ready_def)
qed

lemma sample_note:
  assumes "sample_ready (d, n)"
  shows "\<exists>d'. record_step_attempt sample_executor (d, n) r s m p = ((d', n), Inr ()) \<and> sample_ready (d', n)"
proof -
  have wait: "wait_while_paused sample_sink 2 (d, n) = ((d, n), Inr ())"
    using assms by (auto simp: numeral_2_eq_2 sample_ready_def sample_load simp del: lit_Cons)
  have quiet: "attempt_event sample_sink r s' m p (d, n) = ((d, n), Inr ())" for s'
    by (simp add: attempt_event_def sample_sink_def)
  show ?thesis
    using sample_touch [OF assms, of "attempted (sk_now sample_sink (d, n)) r (attempt_status s) (attempt_summary r (attempt_status s) m)"]
    by (simp add: with_task_sink_def sink_record_step_attempt_def io_then_def wait quiet Let_def attempted_def)
qed

lemma sample_checkpoint:
  assumes "sample_ready (d, n)"
  shows "\<exists>d'. record_step sample_executor (d, n) r v = ((d', n), Inr None) \<and> sample_ready (d', n)"
proof -
  have quiet: "step_events sample_sink r v u (d, n) = ((d, n), Inr ())" for u
    by (simp add: step_events_def sample_sink_def)
  have inner: "sk_inner sample_sink n r v = (n, Inr None)" by (simp add: sample_sink_def)
  obtain task where task: "stored sample_sink mem_contents (d, n) = Some task" "t_status task = Running"
    using assms by (auto simp: sample_ready_def)
  show ?thesis
    using sample_touch [OF assms, of "checkpointed (sk_uuid sample_sink) (sk_now sample_sink (d, n)) r v (or_else None (sr_artifact_uri v))"] task
    by (auto simp: with_task_sink_def sink_record_step_def io_then_def below_def sample_load quiet inner checkpointed_def)
qed

lemma sample_turn:
  assumes "sample_ready (d, n)" and "n = 0 \<or> n = 1"
  shows "\<exists>d'. sample_ready (d', n + 1)
    \<and> retry_step sample_executor sample_plan step ps recent started [0..<cy_max_retries_per_step (pl_policy sample_plan) + 1] None (d, n)
      = ((d', n + 1), Got (sample_answer n))"
proof -
  let ?r = "step_request sample_plan step ps recent 0 None"
  obtain d' where d': "record_step_attempt sample_executor (d, n) ?r (lit ''running'') (lit ''continuous step attempt started'') None = ((d', n), Inr ())"
      "sample_ready (d', n)" using sample_note [OF assms(1)] by blast
  have plan: "pl_policy sample_plan = default_continuous_task_policy" by (simp add: sample_plan_def with_steps_def plan_new_def)
  have run: "run_step_within sample_executor (d', n) b ?r = ((d', n + 1), Some (Inr (sample_answer n)))" for b
    by (simp add: with_task_sink_def sample_runner_def)
  have fine: "judge_output sample_executor sample_plan ?r (sample_answer n) w = (w, Take (sample_answer n))" for w
    using assms(2) by (auto simp: judge_output_def sample_answer_def good_char [simplified])
  have "attempt_step sample_executor sample_plan started ?r (d, n) = ((d', n + 1), Take (sample_answer n))"
    by (simp add: attempt_step_def d'(1) plan default_continuous_task_policy_def budget_def run_bounded_def run judge_def fine del: lit_Cons)
  moreover have "sample_ready (d', n + 1)" using d'(2) by (simp add: sample_ready_def stored_def)
  moreover have "[0..<k + 1] = 0 # [1..<k + 1]" for k by (simp add: upt_conv_Cons)
  ultimately show ?thesis by (auto simp del: upt_Suc)
qed

lemma sample_advance:
  assumes "sample_ready (d, n)" and "n = 0 \<or> n = 1" and "unfinished_dependency (pg_checkpoints pg) step = None"
    and "pg_previous_output pg \<noteq> Some (sr_output (sample_answer n))"
  shows "\<exists>d' now. sample_ready (d', n + 1) \<and> run_steps sample_executor sample_plan ms sa (step # steps) pg (d, n)
    = run_steps sample_executor sample_plan ms sa steps (advance step (sample_answer n) (sr_artifact_uri (sample_answer n)) now pg) (d', n + 1)"
proof -
  obtain d1 where d1: "sample_ready (d1, n + 1)" "retry_step sample_executor sample_plan step (pg_previous_summary pg)
      (recent_checkpoint_summaries (pg_checkpoints pg) 8) (instant sample_executor (d, n))
      [0..<cy_max_retries_per_step (pl_policy sample_plan) + 1] None (d, n) = ((d1, n + 1), Got (sample_answer n))"
    using sample_turn [OF assms(1,2)] by blast
  obtain d2 where d2: "record_step sample_executor (d1, n + 1) (request_for_checkpoint sample_plan step (pg_previous_summary pg)) (sample_answer n)
      = ((d2, n + 1), Inr None)" "sample_ready (d2, n + 1)"
    using sample_checkpoint [OF d1(1)] by blast
  then show ?thesis
    unfolding run_steps.simps(2) assms(3) option.case d1(2) prod.case using assms(4) by auto
qed

lemma sample_sink_run:
  assumes "sample_ready (d, 0)"
  shows "\<exists>w' run. run_with_checkpoint_sink sample_executor sample_plan (d, 0) = (w', Inr run) \<and> map cc_step (cr_checkpoints run) = [1, 2]"
proof -
  have steps: "pl_steps sample_plan = [sample_step 1 [], sample_step 2 [1]]" "cy_max_steps (pl_policy sample_plan) = 32"
    by (simp_all add: sample_plan_def with_steps_def plan_new_def default_continuous_task_policy_def)
  let ?sa = "utc_now sample_executor (d, 0)"
  obtain d1 now1 where d1: "sample_ready (d1, 1)" and one: "run_steps sample_executor sample_plan 2 ?sa [sample_step 1 [], sample_step 2 [1]] no_progress (d, 0)
      = run_steps sample_executor sample_plan 2 ?sa [sample_step 2 [1]]
          (advance (sample_step 1 []) (sample_answer 0) (sr_artifact_uri (sample_answer 0)) now1 no_progress) (d1, 1)"
    using sample_advance [OF assms, of no_progress "sample_step 1 []" 2 ?sa "[sample_step 2 [1]]"]
    by (auto simp: unfinished_dependency_def sample_step_def no_progress_def)
  let ?pg = "advance (sample_step 1 []) (sample_answer 0) (sr_artifact_uri (sample_answer 0)) now1 no_progress"
  have "unfinished_dependency (pg_checkpoints ?pg) (sample_step 2 [1]) = None" "pg_previous_output ?pg \<noteq> Some (sr_output (sample_answer 1))"
    by (simp_all add: unfinished_dependency_def sample_step_def no_progress_def advance_def sample_answer_def)
  then obtain d2 now2 where "run_steps sample_executor sample_plan 2 ?sa [sample_step 2 [1]] ?pg (d1, 1)
      = run_steps sample_executor sample_plan 2 ?sa [] (advance (sample_step 2 [1]) (sample_answer 1) (sr_artifact_uri (sample_answer 1)) now2 ?pg) (d2, 2)"
    using sample_advance [OF d1, of ?pg "sample_step 2 [1]" 2 ?sa "[]"] by (auto simp only: one_add_one)
  moreover have "run_with_checkpoint_sink sample_executor sample_plan (d, 0)
      = run_steps sample_executor sample_plan 2 ?sa [sample_step 1 [], sample_step 2 [1]] no_progress (d, 0)"
    unfolding run_with_checkpoint_sink_def Let_def steps by (simp del: run_steps.simps add: numeral_2_eq_2 [symmetric])
  ultimately show ?thesis
    unfolding one by (simp add: end_run_def) (simp add: advance_def sample_step_def no_progress_def)
qed

lemma sample_world_stored: "stored sample_sink mem_contents (sample_world s) = Some (sample_task s)"
  by (simp add: stored_def sample_world_def sample_sink_def table_view_def mem_contents_def mem_json_def)

section \<open>Properties\<close>



text \<open>
  A cancelled task runs nothing. When the record is cancelled as a run with an executable
  first step starts, the run fails with the cancellation and neither the runner nor anything
  in the database has been touched.
\<close>
theorem cancelled_task_runs_nothing:
  assumes "sink_load S w = Inr (Some task)" and "t_status task = Cancelled"
    and "pl_steps plan = step # steps" and "st_depends_on step = []" and "0 < cy_max_steps (pl_policy plan)"
  shows "run_with_checkpoint_sink (with_task_sink S (Suc n) E) plan w = (w, Inl (Bail (lit ''continuous task was cancelled'')))"
proof -
  let ?E = "with_task_sink S (Suc n) E"
  obtain m where m: "min (cy_max_steps (pl_policy plan)) (length (pl_steps plan)) = Suc m"
    using assms(3,5) by (cases "min (cy_max_steps (pl_policy plan)) (length (pl_steps plan))") auto
  have "record_step_attempt ?E w r s reason p = (w, Inl (Bail (lit ''continuous task was cancelled'')))" for r s reason p
    using assms(1,2) by (simp add: with_task_sink_def sink_record_step_attempt_def io_then_def del: lit_Cons)
  then have "attempt_step ?E plan started r w = (w, Propagate (Bail (lit ''continuous task was cancelled'')))" for started r
    by (simp add: attempt_step_def del: lit_Cons)
  moreover have "[0..<k + 1] = 0 # [1..<k + 1]" for k by (simp add: upt_conv_Cons)
  ultimately have "run_steps ?E plan ms sa (step # more) no_progress w = (w, Inl (Bail (lit ''continuous task was cancelled'')))" for ms sa more
    unfolding run_steps.simps by (simp add: unfinished_dependency_def assms(4) del: lit_Cons upt_Suc)
  then have "run_steps ?E plan (Suc m) sa (take (Suc m) (pl_steps plan)) no_progress w
      = (w, Inl (Bail (lit ''continuous task was cancelled'')))" for sa
    by (simp only: assms(3) take_Suc_Cons)
  then show ?thesis by (simp only: run_with_checkpoint_sink_def Let_def m nat.distinct if_False)
qed

theorem cancelled_task_runs_nothing_witness:
  "run_with_checkpoint_sink (with_task_sink sample_sink (Suc 0) sample_runner) sample_plan (sample_world Cancelled)
     = (sample_world Cancelled, Inl (Bail (lit ''continuous task was cancelled'')))"
proof -
  have "sink_load sample_sink (sample_world Cancelled) = Inr (Some (sample_task Cancelled))"
    by (simp add: sample_load sample_world_stored)
  moreover have "t_status (sample_task Cancelled) = Cancelled" by (simp add: sample_task_def)
  moreover have "pl_steps sample_plan = [sample_step 1 [], sample_step 2 [1]]" "st_depends_on (sample_step 1 []) = []"
    "0 < cy_max_steps (pl_policy sample_plan)"
    by (simp_all add: sample_plan_def with_steps_def plan_new_def default_continuous_task_policy_def sample_step_def)
  ultimately show ?thesis by (rule cancelled_task_runs_nothing)
qed

text \<open>
  C29. A paused task resumes. When the record is paused at the first polls and no longer paused
  at a later one, the wait ends at that poll, with the cancellation when it was cancelled by
  then; more fuel changes nothing.
\<close>
theorem pause_ends:
  assumes "\<And>i. i < k \<Longrightarrow> \<exists>task t. sink_load S ((sk_sleep S ^^ i) w) = Inr (Some task) \<and> t_status task = Paused t"
    and "sink_load S ((sk_sleep S ^^ k) w) = Inr (Some task)" and "\<And>t. t_status task \<noteq> Paused t" and "k < fuel"
  shows "wait_while_paused S fuel w = ((sk_sleep S ^^ k) w,
    if t_status task = Cancelled then Inl (Bail (lit ''continuous task was cancelled'')) else Inr ())"
  using assms
proof (induction k arbitrary: w fuel)
  case 0
  then obtain n where "fuel = Suc n" by (cases fuel) auto
  with 0 show ?case by (auto simp del: lit_Cons split: task_status.splits)
next
  case (Suc k)
  then obtain n where n: "fuel = Suc n" "k < n" by (cases fuel) auto
  obtain paused t where paused: "sink_load S w = Inr (Some paused)" "t_status paused = Paused t"
    using Suc.prems(1) [of 0] by auto
  have "wait_while_paused S n (sk_sleep S w) = ((sk_sleep S ^^ k) (sk_sleep S w),
      if t_status task = Cancelled then Inl (Bail (lit ''continuous task was cancelled'')) else Inr ())"
    using Suc.prems(1) [of "Suc i" for i] Suc.prems(2,3) n(2) by (intro Suc.IH) (simp_all add: funpow_swap1)
  with paused n(1) show ?case by (simp add: funpow_swap1 del: lit_Cons)
qed

theorem pause_ends_witness:
  "wait_while_paused (sample_sink\<lparr>sk_sleep := (\<lambda>_. sample_world Running)\<rparr>) 3 (sample_world (Paused 4)) = (sample_world Running, Inr ())"
proof -
  let ?S = "sample_sink\<lparr>sk_sleep := (\<lambda>_. sample_world Running)\<rparr>"
  have load: "sink_load ?S (sample_world s) = Inr (Some (sample_task s))" for s
    using sample_load [of "sample_world s"] sample_world_stored [of s] by (simp add: sink_load_def)
  have "t_status (sample_task s) = s" for s by (simp add: sample_task_def)
  with pause_ends [of 1 ?S "sample_world (Paused 4)" "sample_task Running" 3] load show ?thesis by simp
qed

text \<open>
  The other side of the overwriting: a cancellation that arrives between the load and the save
  of an attempt note is lost.
\<close>
theorem cancellation_is_overwritten:
  assumes "stored_task S contents E" and "stored S contents w = Some task" and "t_id task = sk_task_id S"
    and "t_status task \<noteq> Cancelled" and "\<And>t. t_status task \<noteq> Paused t"
    and "touch_task S (attempted now r s m) w = (w', Inr u)"
  shows "\<exists>task'. stored S contents w' = Some task' \<and> t_status task' = Running"
proof -
  from assms(1) have "stored S contents w' = Some (attempted now r s m task)"
    by (rule stored_task.touch_stored [OF _ assms(6,2)]) (simp add: assms(3))
  moreover have "running_status (t_status task) = Running" using assms(4,5) by (cases "t_status task") auto
  ultimately show ?thesis by (simp add: attempted_def)
qed

end
