(* ===== verification/Hardness.thy ===== *)
theory Hardness
  imports Float32 Json
begin

text \<open>
  The decision functions of the crate \<^verbatim>\<open>hardness\<close>: which recovery to try when a lookup gave
  poor evidence, how a failure is classified, when the reasoning strategy changes, when the
  runtime intervenes, and the bounds put on an estimate of a task. The tables behind
  \<^verbatim>\<open>to_lowercase\<close> and \<^verbatim>\<open>to_uppercase\<close> are arguments. The text heuristics of the crate are in the
  theory \<open>Hardness_Text\<close>.
\<close>

section \<open>Recovery of lookups\<close>

record tool_first_recovery_input =
  tf_current_step :: nat
  tf_max_steps :: nat
  tf_available_tool_count :: nat
  tf_has_recent_tool_execution_required_prompt :: bool
  tf_simple_media_understanding :: bool

definition decide_tool_first_recovery :: "tool_first_recovery_input \<Rightarrow> bool" where
  "decide_tool_first_recovery i \<longleftrightarrow> tf_current_step i < tf_max_steps i \<and> tf_available_tool_count i > 0
     \<and> \<not> tf_has_recent_tool_execution_required_prompt i \<and> \<not> tf_simple_media_understanding i"

datatype evidence_quality = EmptyEvidence | Irrelevant | UntrustedSource | MissingConcreteSource | BlockedByAccess
  | LowInformation | Partial | Sufficient

datatype recovery_action = RetrySameSurfaceSmallBudget | SwitchObservationSurface | DelegateSpecialist | EmitBlocker
  | FinalizeFromEvidence

record lookup_recovery_input =
  lr_current_step :: nat
  lr_max_steps :: nat
  lr_evidence_quality :: evidence_quality
  lr_has_search_tool :: bool
  lr_search_attempts :: nat
  lr_has_observation_tool :: bool
  lr_observation_already_attempted :: bool
  lr_has_delegate_tool :: bool
  lr_specialist_already_attempted :: bool
  lr_required_persistence :: bool

definition decide_lookup_evidence_recovery :: "lookup_recovery_input \<Rightarrow> recovery_action" where
  "decide_lookup_evidence_recovery i =
     (if lr_evidence_quality i = Sufficient then FinalizeFromEvidence
      else let has_step_budget = lr_current_step i < lr_max_steps i in
      if \<not> has_step_budget then EmitBlocker
      else let needs_grounded_recovery = lr_evidence_quality i \<in> {EmptyEvidence, Irrelevant, UntrustedSource,
             MissingConcreteSource, BlockedByAccess, LowInformation, Partial} in
      if needs_grounded_recovery \<and> lr_has_observation_tool i \<and> \<not> lr_observation_already_attempted i
      then SwitchObservationSurface
      else if lr_has_search_tool i \<and> lr_search_attempts i < 2 \<and> lr_evidence_quality i \<in> {EmptyEvidence, Irrelevant}
      then RetrySameSurfaceSmallBudget
      else if lr_has_delegate_tool i \<and> \<not> lr_specialist_already_attempted i
        \<and> (lr_required_persistence i \<or> lr_evidence_quality i \<in> {MissingConcreteSource, BlockedByAccess, LowInformation, Partial})
      then DelegateSpecialist
      else EmitBlocker)"

datatype completion_gate_signal = SignalComplete | MissingRequiredEffect | QualityFailed | RuntimeBlocker | SignalUncertain | Skipped

datatype completion_gate_decision = GatePass | GateFail | GateStopped | GateUncertain | GateSkip

fun decide_completion_gate :: "completion_gate_signal \<Rightarrow> completion_gate_decision" where
  "decide_completion_gate SignalComplete = GatePass"
| "decide_completion_gate MissingRequiredEffect = GateFail"
| "decide_completion_gate QualityFailed = GateFail"
| "decide_completion_gate RuntimeBlocker = GateStopped"
| "decide_completion_gate SignalUncertain = GateUncertain"
| "decide_completion_gate Skipped = GateSkip"

section \<open>Failures\<close>

datatype failure_class = Quality | Execution | Transport | Resource | Unknown

record failure_analysis_input =
  fa_evolution_manager_available :: bool
  fa_tool_name_is_empty :: bool
  fa_normalized_error_is_empty :: bool

definition should_enqueue_failure_analysis :: "failure_analysis_input \<Rightarrow> bool" where
  "should_enqueue_failure_analysis i \<longleftrightarrow> fa_evolution_manager_available i \<and> \<not> fa_tool_name_is_empty i
     \<and> \<not> fa_normalized_error_is_empty i"

definition quality_markers :: "rstr list" where
  "quality_markers = map lit [
     ''no response from llm'', ''empty response'', ''missing final answer'', ''placeholder'',
     ''<|tool_call>'', ''tool_call'', ''did not produce a natural language answer'',
     ''failed to provide final answer'', ''critique'']"

definition transport_markers :: "rstr list" where
  "transport_markers = map lit [
     ''timeout'', ''timed out'', ''connection'', ''rate limit'', ''overloaded'', ''502'', ''503'', ''504'',
     ''bad gateway'', ''service unavailable'', ''api error'', ''providerapi'']"

definition resource_markers :: "rstr list" where
  "resource_markers = map lit [
     ''oom'', ''out of memory'', ''device lost'', ''errordevicelost'', ''vram'', ''memory pressure'',
     ''resource exhausted'']"

definition execution_markers :: "rstr list" where
  "execution_markers = map lit [
     ''cannot be opened'', ''file does not exist'', ''permission denied'', ''tool failed'',
     ''error executing tool'', ''invalid argument'', ''no such file'', ''unsupported'']"

definition classify_failure :: "unicode \<Rightarrow> rstr \<Rightarrow> failure_class" where
  "classify_failure U error =
     (let normalized = u_lower U (trim error)
      in if normalized = [] then Unknown
         else if contains_any normalized quality_markers then Quality
         else if contains_any normalized transport_markers then Transport
         else if contains_any normalized resource_markers then Resource
         else if contains_any normalized execution_markers then Execution
         else Unknown)"

definition should_trigger_error_reflexion :: "failure_class \<Rightarrow> bool" where
  "should_trigger_error_reflexion c \<longleftrightarrow> c = Quality"

definition retry_allows_reflexion_upgrade :: "nat \<Rightarrow> nat \<Rightarrow> failure_class \<Rightarrow> bool" where
  "retry_allows_reflexion_upgrade retry_count max_reflexion_retries c \<longleftrightarrow>
     retry_count > 0 \<and> retry_count \<le> max_reflexion_retries \<and> should_trigger_error_reflexion c"

datatype finalization_fallback_kind = QualityNoAnswer | MediaUnderstandingRetryHint | TransportUnavailable | ResourcePressure
  | ExecutionFailure | UnknownFailure

record finalization_fallback_input =
  ff_failure_classification :: failure_class
  ff_has_media_input :: bool
  ff_simple_media_understanding :: bool

definition decide_finalization_fallback :: "finalization_fallback_input \<Rightarrow> finalization_fallback_kind option" where
  "decide_finalization_fallback i = (case ff_failure_classification i of
       Quality \<Rightarrow> if ff_has_media_input i \<and> ff_simple_media_understanding i then Some MediaUnderstandingRetryHint
         else Some QualityNoAnswer
     | Transport \<Rightarrow> Some TransportUnavailable
     | Resource \<Rightarrow> Some ResourcePressure
     | Execution \<Rightarrow> Some ExecutionFailure
     | Unknown \<Rightarrow> Some UnknownFailure)"

record execution_tool_reply_input =
  xr_has_media_input :: bool
  xr_normalized_text_is_empty :: bool
  xr_document_understanding_turn :: bool
  xr_capability_route_requires_real_tool_call :: bool

definition decide_execution_tool_reply_requirement :: "execution_tool_reply_input \<Rightarrow> bool" where
  "decide_execution_tool_reply_requirement i =
     (if xr_normalized_text_is_empty i then False
      else if xr_has_media_input i \<and> xr_document_understanding_turn i then False
      else xr_capability_route_requires_real_tool_call i)"

section \<open>Reasoning strategy\<close>

datatype initial_reasoning_strategy = ReAct | Reflexion

record initial_strategy_input =
  is_force_react_due_to_resource_pressure :: bool
  is_throttled_by_metabolic_guard :: bool
  is_reflexion_enabled :: bool
  is_explicit_image_generation_turn :: bool
  is_light_frontstage_turn :: bool
  is_has_media_input :: bool

definition is_explicit_image_generation_first_attempt :: "bool \<Rightarrow> nat \<Rightarrow> bool \<Rightarrow> bool" where
  "is_explicit_image_generation_first_attempt has_media_input retry_count requests_image_generation \<longleftrightarrow>
     \<not> has_media_input \<and> retry_count = 0 \<and> requests_image_generation"

definition should_append_reflexion_recovery_prompt :: "bool \<Rightarrow> bool \<Rightarrow> failure_class \<Rightarrow> bool" where
  "should_append_reflexion_recovery_prompt reflexion_enabled requires_execution_tool_reply c \<longleftrightarrow>
     reflexion_enabled \<and> \<not> requires_execution_tool_reply \<and> should_trigger_error_reflexion c"

definition decide_initial_reasoning_strategy :: "initial_strategy_input \<Rightarrow> initial_reasoning_strategy" where
  "decide_initial_reasoning_strategy i =
     (if is_force_react_due_to_resource_pressure i \<or> is_explicit_image_generation_turn i \<or> is_light_frontstage_turn i
         \<or> is_has_media_input i then ReAct
      else if is_throttled_by_metabolic_guard i then (if is_reflexion_enabled i then Reflexion else ReAct)
      else if is_reflexion_enabled i then Reflexion
      else ReAct)"

datatype reflexion_upgrade_reason = HighComplexity | RetryRecovery

record reflexion_upgrade_decision =
  ru_should_upgrade :: bool
  ru_reason :: "reflexion_upgrade_reason option"

record reflexion_upgrade_input =
  ri_current_strategy_is_react :: bool
  ri_complexity_score :: "16 word"
  ri_retry_count :: nat
  ri_max_reflexion_retries :: nat
  ri_retry_recovery_eligible :: bool
  ri_explicit_image_generation_turn :: bool
  ri_has_media_input :: bool
  ri_simple_media_understanding :: bool

definition decide_reflexion_strategy_upgrade :: "reflexion_upgrade_input \<Rightarrow> reflexion_upgrade_decision" where
  "decide_reflexion_strategy_upgrade i =
     (if \<not> ri_current_strategy_is_react i \<or> ri_explicit_image_generation_turn i \<or> ri_has_media_input i
         \<or> ri_simple_media_understanding i
      then \<lparr>ru_should_upgrade = False, ru_reason = None\<rparr>
      else if ri_retry_recovery_eligible i \<and> ri_retry_count i > 0 \<and> ri_retry_count i \<le> ri_max_reflexion_retries i
      then \<lparr>ru_should_upgrade = True, ru_reason = Some RetryRecovery\<rparr>
      else if ri_complexity_score i > 80
      then \<lparr>ru_should_upgrade = True, ru_reason = Some HighComplexity\<rparr>
      else \<lparr>ru_should_upgrade = False, ru_reason = None\<rparr>)"

record reflexion_review_input =
  rv_strategy_is_reflexion :: bool
  rv_current_step :: nat
  rv_max_steps :: nat
  rv_has_media_input :: bool
  rv_simple_media_understanding :: bool

definition should_run_reflexion_review :: "reflexion_review_input \<Rightarrow> bool" where
  "should_run_reflexion_review i \<longleftrightarrow> rv_strategy_is_reflexion i \<and> rv_current_step i < rv_max_steps i
     \<and> \<not> rv_has_media_input i \<and> \<not> rv_simple_media_understanding i"

section \<open>Interventions\<close>

datatype status_recap_reason = StepThreshold | ContextDensity

record intervention_decision =
  iv_budget_breaker :: bool
  iv_metabolic_warning :: bool
  iv_error_reflexion :: bool
  iv_status_recap :: bool
  iv_status_recap_reason :: "status_recap_reason option"

definition default_intervention_decision :: intervention_decision where
  "default_intervention_decision = \<lparr>iv_budget_breaker = False, iv_metabolic_warning = False, iv_error_reflexion = False,
     iv_status_recap = False, iv_status_recap_reason = None\<rparr>"

record intervention_gate_input =
  ig_token_usage_total :: "u32 option"
  ig_token_budget :: "u32 option"
  ig_cpu_usage :: f32
  ig_mem_pressure :: f32
  ig_enable_reflexion :: bool
  ig_quality_error_detected :: bool
  ig_complexity_score :: f32
  ig_predicted_output_tokens :: nat
  ig_is_parallelizable :: bool
  ig_current_step :: nat
  ig_estimated_steps :: nat
  ig_total_chars :: nat
  ig_is_local_provider :: bool
  ig_is_sub_agent :: bool
  ig_is_specialist_worker :: bool
  ig_simple_media_understanding :: bool
  ig_lightweight_repo_inspection :: bool
  ig_compound_realtime_followup_execution :: bool
  ig_status_recap_threshold_steps :: nat
  ig_status_recap_threshold_chars :: nat

text \<open>The remainder is reached only behind the guard on the threshold; \<open>None\<close> is a division by zero.\<close>
definition rem_usize :: "nat \<Rightarrow> nat \<Rightarrow> nat option" where
  "rem_usize a b = (if b = 0 then None else Some (a mod b))"

definition recap_by_steps :: "intervention_gate_input \<Rightarrow> bool option" where
  "recap_by_steps i =
     (if ig_status_recap_threshold_steps i > 0 \<and> ig_current_step i > 1
      then map_option (\<lambda>r. r = 0) (rem_usize (ig_current_step i) (ig_status_recap_threshold_steps i))
      else Some False)"

definition lightweight_frontstage_turn :: "intervention_gate_input \<Rightarrow> bool" where
  "lightweight_frontstage_turn i \<longleftrightarrow> ig_simple_media_understanding i \<or> ig_lightweight_repo_inspection i
     \<or> ig_compound_realtime_followup_execution i"

definition decide_interventions :: "intervention_gate_input \<Rightarrow> intervention_decision option" where
  "decide_interventions i =
     (let d0 = default_intervention_decision;
          lightweight = lightweight_frontstage_turn i;
          d1 = (case (ig_token_usage_total i, ig_token_budget i) of
                  (Some usage, Some limit) \<Rightarrow> if usage \<ge> limit then d0\<lparr>iv_budget_breaker := True\<rparr> else d0
                | _ \<Rightarrow> d0);
          d2 = (if f32_gt (ig_cpu_usage i) 80 \<or> f32_gt (ig_mem_pressure i) 90 then d1\<lparr>iv_metabolic_warning := True\<rparr> else d1);
          d3 = (if ig_enable_reflexion i \<and> ig_quality_error_detected i \<and> \<not> lightweight
                then d2\<lparr>iv_error_reflexion := True\<rparr> else d2)
      in case recap_by_steps i of None \<Rightarrow> None
         | Some by_steps \<Rightarrow>
           (let by_chars = (ig_current_step i > 1 \<and> ig_total_chars i > ig_status_recap_threshold_chars i)
            in Some (if \<not> lightweight \<and> \<not> ig_is_specialist_worker i \<and> (by_steps \<or> by_chars)
                     then d3\<lparr>iv_status_recap := True,
                             iv_status_recap_reason := Some (if by_steps then StepThreshold else ContextDensity)\<rparr>
                     else d3)))"

section \<open>Task estimates\<close>

record task_complexity =
  tx_estimated_steps :: nat
  tx_risk_score :: f32
  tx_rationale :: rstr
  tx_max_steps_override :: "nat option"
  tx_intent :: rstr

definition clamp :: "nat \<Rightarrow> nat \<Rightarrow> nat \<Rightarrow> nat" where
  "clamp x lo hi = (if x < lo then lo else if x > hi then hi else x)"

definition sanitize_task_complexity :: "task_complexity \<Rightarrow> task_complexity" where
  "sanitize_task_complexity c =
     (let c1 = (if tx_intent c = [] then c\<lparr>tx_intent := lit ''general_query''\<rparr> else c)
      in c1\<lparr>tx_estimated_steps := clamp (tx_estimated_steps c1) 1 100,
            tx_risk_score := f32_clamp (tx_risk_score c1) 0 1,
            tx_max_steps_override := map_option (\<lambda>m. clamp m 1 200) (tx_max_steps_override c1)\<rparr>)"

section \<open>Recovery ends\<close>

text \<open>
  How the reasoner drives the decision: an action that is carried out shows up in the next
  input (another search attempt, the observation or the specialist as attempted), nothing
  attempted is forgotten, and everything else may change between two decisions. The action
  that ends the recovery has no successor.
\<close>
definition recovery_follows :: "lookup_recovery_input \<Rightarrow> lookup_recovery_input \<Rightarrow> bool" where
  "recovery_follows i j \<longleftrightarrow>
     (lr_observation_already_attempted i \<longrightarrow> lr_observation_already_attempted j)
     \<and> (lr_specialist_already_attempted i \<longrightarrow> lr_specialist_already_attempted j)
     \<and> lr_search_attempts i \<le> lr_search_attempts j
     \<and> (case decide_lookup_evidence_recovery i of
          RetrySameSurfaceSmallBudget \<Rightarrow> lr_search_attempts i < lr_search_attempts j
        | SwitchObservationSurface \<Rightarrow> lr_observation_already_attempted j
        | DelegateSpecialist \<Rightarrow> lr_specialist_already_attempted j
        | _ \<Rightarrow> False)"

definition recoveries_left :: "lookup_recovery_input \<Rightarrow> nat" where
  "recoveries_left i = (if lr_observation_already_attempted i then 0 else 1) + (2 - lr_search_attempts i)
     + (if lr_specialist_already_attempted i then 0 else 1)"

lemma decide_recovery_cases:
  "decide_lookup_evidence_recovery i = SwitchObservationSurface \<longleftrightarrow>
     lr_evidence_quality i \<noteq> Sufficient \<and> lr_current_step i < lr_max_steps i
     \<and> lr_has_observation_tool i \<and> \<not> lr_observation_already_attempted i"
  "decide_lookup_evidence_recovery i = RetrySameSurfaceSmallBudget \<Longrightarrow>
     lr_current_step i < lr_max_steps i \<and> lr_has_search_tool i \<and> lr_search_attempts i < 2
     \<and> lr_evidence_quality i \<in> {EmptyEvidence, Irrelevant}"
  "decide_lookup_evidence_recovery i = DelegateSpecialist \<Longrightarrow>
     lr_evidence_quality i \<noteq> Sufficient \<and> lr_current_step i < lr_max_steps i
     \<and> lr_has_delegate_tool i \<and> \<not> lr_specialist_already_attempted i"
  "decide_lookup_evidence_recovery i = FinalizeFromEvidence \<longleftrightarrow> lr_evidence_quality i = Sufficient"
  by (cases "lr_evidence_quality i"; simp add: decide_lookup_evidence_recovery_def Let_def split: if_splits)+

lemma decide_recovery_sound:
  "(case decide_lookup_evidence_recovery i of
           SwitchObservationSurface \<Rightarrow> lr_has_observation_tool i \<and> \<not> lr_observation_already_attempted i
         | RetrySameSurfaceSmallBudget \<Rightarrow> lr_has_search_tool i \<and> lr_search_attempts i < 2
         | DelegateSpecialist \<Rightarrow> lr_has_delegate_tool i \<and> \<not> lr_specialist_already_attempted i
         | FinalizeFromEvidence \<Rightarrow> lr_evidence_quality i = Sufficient
         | EmitBlocker \<Rightarrow> lr_evidence_quality i \<noteq> Sufficient)
         \<and> (decide_lookup_evidence_recovery i \<in> {FinalizeFromEvidence, EmitBlocker} \<or> lr_current_step i < lr_max_steps i)"
  using decide_recovery_cases [of i] by (cases "decide_lookup_evidence_recovery i") simp_all

lemma recoveries_left_decreases: "recovery_follows i j \<Longrightarrow> recoveries_left j < recoveries_left i"
  using decide_recovery_cases [of i]
  by (cases "decide_lookup_evidence_recovery i") (auto simp: recovery_follows_def recoveries_left_def split: if_splits)

lemma recovery_chain_bound: "successively recovery_follows (i # is) \<Longrightarrow> length is \<le> recoveries_left i"
proof (induction "is" arbitrary: i)
  case (Cons j js)
  then have "recovery_follows i j" "length js \<le> recoveries_left j" by simp_all
  with recoveries_left_decreases [of i j] show ?case by simp
qed simp

abbreviation recovery_actions :: "lookup_recovery_input list \<Rightarrow> recovery_action list" where
  "recovery_actions \<equiv> map decide_lookup_evidence_recovery"

lemma chain_keeps_attempts:
  "successively recovery_follows (i # is) \<Longrightarrow> j \<in> set is \<Longrightarrow>
   (lr_observation_already_attempted i \<longrightarrow> lr_observation_already_attempted j)
   \<and> (lr_specialist_already_attempted i \<longrightarrow> lr_specialist_already_attempted j) \<and> lr_search_attempts i \<le> lr_search_attempts j"
proof (induction "is" arbitrary: i)
  case (Cons k ks)
  then have step: "recovery_follows i k" and rest: "successively recovery_follows (k # ks)" by simp_all
  have "(lr_observation_already_attempted k \<longrightarrow> lr_observation_already_attempted j)
      \<and> (lr_specialist_already_attempted k \<longrightarrow> lr_specialist_already_attempted j) \<and> lr_search_attempts k \<le> lr_search_attempts j"
    using Cons.IH [OF rest] Cons.prems(2) by (cases "j = k") auto
  with step show ?case by (auto simp: recovery_follows_def)
qed simp

lemma one_observation:
  "successively recovery_follows is \<Longrightarrow> count_list (recovery_actions is) SwitchObservationSurface \<le> 1"
proof (induction "is")
  case (Cons i js)
  then have ih: "count_list (recovery_actions js) SwitchObservationSurface \<le> 1" by (cases js) simp_all
  show ?case
  proof (cases "decide_lookup_evidence_recovery i = SwitchObservationSurface \<and> js \<noteq> []")
    case True
    then obtain j ks where js: "js = j # ks" by (cases js) auto
    with Cons.prems True have "lr_observation_already_attempted j" by (simp add: recovery_follows_def)
    with chain_keeps_attempts [of j ks] Cons.prems js have "\<forall>k \<in> set js. lr_observation_already_attempted k" by auto
    then have "SwitchObservationSurface \<notin> set (recovery_actions js)" using decide_recovery_cases(1) by fastforce
    then have "count_list (recovery_actions js) SwitchObservationSurface = 0" by (simp add: count_list_0_iff)
    then show ?thesis by simp
  next
    case False
    with ih show ?thesis by auto
  qed
qed simp

definition sample_lookup :: "evidence_quality \<Rightarrow> nat \<Rightarrow> bool \<Rightarrow> bool \<Rightarrow> lookup_recovery_input" where
  "sample_lookup q n obs spec = \<lparr>lr_current_step = 1, lr_max_steps = 9, lr_evidence_quality = q, lr_has_search_tool = True,
     lr_search_attempts = n, lr_has_observation_tool = True, lr_observation_already_attempted = obs,
     lr_has_delegate_tool = True, lr_specialist_already_attempted = spec, lr_required_persistence = False\<rparr>"

definition sample_lookups :: "lookup_recovery_input list" where
  "sample_lookups = [sample_lookup Partial 0 False False, sample_lookup EmptyEvidence 0 True False, sample_lookup Irrelevant 1 True False,
     sample_lookup LowInformation 2 True False, sample_lookup Sufficient 2 True True]"

section \<open>Properties\<close>

text \<open>
  C32. Lookup recovery ends. However the evidence, the step counter and the available tools
  change between decisions, a chain of recoveries has at most four actions (at most one switch
  of the observation surface) before it ends with the evidence or with a blocker; an action is
  only chosen within the step budget and for a tool that is there and not yet used up.
\<close>
theorem recovery_ends:
  assumes "successively recovery_follows is"
  shows "length is \<le> 5 \<and> count_list (recovery_actions is) SwitchObservationSurface \<le> 1
    \<and> (\<forall>i \<in> set is. (case decide_lookup_evidence_recovery i of
           SwitchObservationSurface \<Rightarrow> lr_has_observation_tool i \<and> \<not> lr_observation_already_attempted i
         | RetrySameSurfaceSmallBudget \<Rightarrow> lr_has_search_tool i \<and> lr_search_attempts i < 2
         | DelegateSpecialist \<Rightarrow> lr_has_delegate_tool i \<and> \<not> lr_specialist_already_attempted i
         | FinalizeFromEvidence \<Rightarrow> lr_evidence_quality i = Sufficient
         | EmitBlocker \<Rightarrow> lr_evidence_quality i \<noteq> Sufficient)
         \<and> (decide_lookup_evidence_recovery i \<in> {FinalizeFromEvidence, EmitBlocker} \<or> lr_current_step i < lr_max_steps i))"
proof (intro conjI ballI)
  show "length is \<le> 5"
  proof (cases "is")
    case (Cons i js)
    have "recoveries_left i \<le> 4" by (auto simp: recoveries_left_def)
    with recovery_chain_bound [of i js] assms Cons show ?thesis by simp
  qed simp
  show "count_list (recovery_actions is) SwitchObservationSurface \<le> 1" by (rule one_observation [OF assms])
qed (use decide_recovery_sound in blast)+

theorem recovery_ends_witness:
  "map decide_lookup_evidence_recovery sample_lookups
     = [SwitchObservationSurface, RetrySameSurfaceSmallBudget, RetrySameSurfaceSmallBudget, DelegateSpecialist, FinalizeFromEvidence]
   \<and> length sample_lookups \<le> 5"
proof -
  have "successively recovery_follows sample_lookups"
    by (simp add: sample_lookups_def sample_lookup_def recovery_follows_def decide_lookup_evidence_recovery_def)
  from recovery_ends [OF this] show ?thesis
    by (simp add: sample_lookups_def sample_lookup_def decide_lookup_evidence_recovery_def)
qed

text \<open>
  Interventions. The gate never divides by zero, and each intervention happens exactly
  under its condition: the budget breaker at the token limit, the warning above the load
  limits, the error reflexion after a quality error unless the turn is a light one, the recap
  from the second step on at a multiple of the step threshold or above the text threshold,
  never for light turns or specialists, and with the step reason when both apply.
\<close>
theorem interventions_exact:
  "\<exists>d. decide_interventions i = Some d
    \<and> (iv_budget_breaker d \<longleftrightarrow> (\<exists>u l. ig_token_usage_total i = Some u \<and> ig_token_budget i = Some l \<and> l \<le> u))
    \<and> (iv_metabolic_warning d \<longleftrightarrow> f32_gt (ig_cpu_usage i) 80 \<or> f32_gt (ig_mem_pressure i) 90)
    \<and> (iv_error_reflexion d \<longleftrightarrow> ig_enable_reflexion i \<and> ig_quality_error_detected i \<and> \<not> lightweight_frontstage_turn i)
    \<and> (iv_status_recap d \<longleftrightarrow> \<not> lightweight_frontstage_turn i \<and> \<not> ig_is_specialist_worker i \<and> 1 < ig_current_step i
         \<and> (0 < ig_status_recap_threshold_steps i \<and> ig_status_recap_threshold_steps i dvd ig_current_step i
            \<or> ig_status_recap_threshold_chars i < ig_total_chars i))
    \<and> iv_status_recap_reason d = (if \<not> iv_status_recap d then None
         else if 0 < ig_status_recap_threshold_steps i \<and> ig_status_recap_threshold_steps i dvd ig_current_step i
         then Some StepThreshold else Some ContextDensity)"
proof -
  define by_steps where "by_steps = (0 < ig_status_recap_threshold_steps i \<and> 1 < ig_current_step i
      \<and> ig_status_recap_threshold_steps i dvd ig_current_step i)"
  have steps: "recap_by_steps i = Some by_steps"
    by (auto simp: recap_by_steps_def rem_usize_def by_steps_def dvd_eq_mod_eq_0)
  show ?thesis
    unfolding decide_interventions_def Let_def steps option.case
    by (auto simp: default_intervention_decision_def by_steps_def split: option.split)
qed

text \<open>
  C40. Estimates are sane. A sanitized estimate has between one and a hundred steps, a step
  limit between one and two hundred if any, a named intent, and a risk in the unit interval
  unless the risk was not a number; sanitizing again changes nothing, and an estimate that is
  already sane is left alone.
\<close>
theorem sanitized_estimate:
  "let s = sanitize_task_complexity c in
     1 \<le> tx_estimated_steps s \<and> tx_estimated_steps s \<le> 100
     \<and> pred_option (\<lambda>m. 1 \<le> m \<and> m \<le> 200) (tx_max_steps_override s)
     \<and> (tx_max_steps_override s = None \<longleftrightarrow> tx_max_steps_override c = None)
     \<and> tx_intent s \<noteq> [] \<and> tx_rationale s = tx_rationale c
     \<and> (tx_risk_score s = NaN \<and> tx_risk_score c = NaN \<or> (\<exists>r. tx_risk_score s = Finite r \<and> 0 \<le> r \<and> r \<le> 1))
     \<and> sanitize_task_complexity s = s"
proof -
  have risk: "f32_clamp x 0 1 = NaN \<and> x = NaN \<or> (\<exists>r. f32_clamp x 0 1 = Finite r \<and> 0 \<le> r \<and> r \<le> 1)" for x
    by (cases x) auto
  have clamped: "lo \<le> hi \<Longrightarrow> lo \<le> clamp x lo hi \<and> clamp x lo hi \<le> hi" "lo \<le> hi \<Longrightarrow> clamp (clamp x lo hi) lo hi = clamp x lo hi" for x lo hi
    by (auto simp: clamp_def)
  have intent: "lit ''general_query'' \<noteq> []" by simp
  show ?thesis
    using risk [of "tx_risk_score c"] clamped [of 1 100 "tx_estimated_steps c"] clamped [of 1 200] intent
    by (cases "tx_intent c = []"; cases "tx_max_steps_override c") (simp_all add: sanitize_task_complexity_def Let_def del: lit_Cons)
qed

end
