(* ===== verification/Hardness_Text.thy ===== *)
theory Hardness_Text
  imports Hardness
begin

text \<open>
  The text heuristics of the crate \<^verbatim>\<open>hardness\<close>: reading the verdict of a self-critique, the
  pre-flight level of a request, the recognition of simple questions about media, and the
  complexity estimate with its reading of a model's answer. Slices of strings go by bytes: a
  slice that does not start and end between characters, or whose ends are crossed, panics,
  which is \<open>None\<close> in the outer option.
\<close>

section \<open>Strings by bytes\<close>

text \<open>\<^verbatim>\<open>find\<close>, counted in characters.\<close>
fun find_str :: "rstr \<Rightarrow> rstr \<Rightarrow> nat option" where
  "find_str p [] = (if p = [] then Some 0 else None)"
| "find_str p (c # s) = (if starts_with (c # s) p then Some 0 else map_option Suc (find_str p s))"

text \<open>The byte position of a character position.\<close>
definition byte_at :: "rstr \<Rightarrow> nat \<Rightarrow> nat" where
  "byte_at s i = utf8_len (take i s)"

text \<open>\<^verbatim>\<open>&s[n..]\<close>.\<close>
fun slice_from :: "rstr \<Rightarrow> nat \<Rightarrow> rstr option" where
  "slice_from s 0 = Some s"
| "slice_from [] (Suc n) = None"
| "slice_from (c # s) (Suc n) = (if utf8_width c \<le> Suc n then slice_from s (Suc n - utf8_width c) else None)"

section \<open>Self-critique\<close>

definition passed_phrases :: "rstr list" where
  "passed_phrases = map lit [
     ''no missing steps'', ''missing steps or factual errors'', ''no factual errors'', ''no factual error'',
     ''factual errors'', ''factual error'', ''no inaccuracies'', ''no inaccuracy'', ''not inaccurate'',
     ''not wrong'', ''accurate and appropriate'', ''factually correct'', ''correctly states'',
     ''correctly conveys'', ''without unnecessary elaboration'', ''no errors are present'',
     ''no error is present'']"

definition issue_terms :: "rstr list" where
  "issue_terms = map lit [
     ''missing'', ''lacks'', ''lack of'', ''inaccurate'', ''incorrect'', ''error'', ''wrong'',
     ''unsupported'', ''hallucinat'', ''incomplete'', ''not answer'', ''does not answer'', ''contradict'',
     ''unsafe'', ''too vague'', ''ambiguous'']"

definition reflexion_reason_has_actionable_issue :: "unicode \<Rightarrow> rstr \<Rightarrow> bool" where
  "reflexion_reason_has_actionable_issue U reason =
     contains_any (foldl (\<lambda>lowered phrase. remove_all phrase lowered) (u_lower U reason) passed_phrases) issue_terms"

definition extract_reflexion_critique_reason :: "unicode \<Rightarrow> (rstr \<Rightarrow> rstr) \<Rightarrow> rstr \<Rightarrow> rstr option option" where
  "extract_reflexion_critique_reason U to_upper critique_text =
     (let upper = to_upper critique_text
      in if contains upper (lit ''[PASSED]'') then Some None
         else case find_str (lit ''[CRITIQUE]'') upper of
           None \<Rightarrow> Some None
         | Some i \<Rightarrow> (case slice_from critique_text (byte_at upper i + utf8_len (lit ''[CRITIQUE]'')) of
             None \<Rightarrow> None
           | Some rest \<Rightarrow> (let reason = trim rest
               in Some (if reason = [] then Some (lit ''unspecified critique'')
                        else if \<not> reflexion_reason_has_actionable_issue U reason then None
                        else Some reason))))"

section \<open>Pre-flight\<close>

datatype extended_pre_flight_level = NoPreFlight | ComplexTask | HighRiskTask

datatype pre_flight_route_class = NoRoute | ComplexRoute | HighRiskRoute

definition repo_scope_markers :: "rstr list" where
  "repo_scope_markers = [
     [24403, 21069, 39033, 30446], [36825, 20010, 39033, 30446], [20195, 30721, 24211], [20179, 24211],
     lit ''repo'', lit ''repository'', lit ''project'', lit ''workspace'', lit ''docs'', [25991, 26723],
     [25991, 20214]]"

definition inspection_markers :: "rstr list" where
  "inspection_markers = [
     [26597, 30475], [30475, 30475], [30475, 19968, 19979], [24110, 25105, 30475], [24635, 32467],
     [27010, 25324], [31616, 30701, 24635, 32467], lit ''brief summary'', lit ''summary'', lit ''summarize'',
     lit ''inspect'', lit ''review'', lit ''read'']"

definition mutating_markers :: "rstr list" where
  "mutating_markers = [
     [20462, 25913], [20462, 22797], [37325, 26500], [23454, 29616], [21019, 24314], [26032, 22686],
     [21024, 38500], [36816, 34892], [25191, 34892], [23433, 35013], [37096, 32626], [25552, 20132],
     lit ''push'', lit ''commit'', lit ''fix'', lit ''refactor'', lit ''implement'', lit ''create'',
     lit ''delete'', lit ''run'', lit ''execute'', lit ''install'', lit ''deploy'']"

definition is_lightweight_repo_inspection_request :: "unicode \<Rightarrow> rstr \<Rightarrow> bool" where
  "is_lightweight_repo_inspection_request U user_request =
     (let normalized = u_lower U (trim user_request)
      in if normalized = [] then False
         else if \<not> contains_any normalized repo_scope_markers then False
         else if \<not> contains_any normalized inspection_markers then False
         else \<not> contains_any normalized mutating_markers)"

definition classify_extended_pre_flight_level :: "unicode \<Rightarrow> rstr \<Rightarrow> pre_flight_route_class \<Rightarrow> bool \<Rightarrow> bool \<Rightarrow> extended_pre_flight_level" where
  "classify_extended_pre_flight_level U user_request route_class has_media_input requires_verification =
     (if has_media_input then ComplexTask
      else let trimmed = trim user_request in
      if trimmed = [] then NoPreFlight
      else if is_lightweight_repo_inspection_request U trimmed then NoPreFlight
      else if requires_verification then HighRiskTask
      else case route_class of
          HighRiskRoute \<Rightarrow> HighRiskTask
        | ComplexRoute \<Rightarrow> ComplexTask
        | NoRoute \<Rightarrow>
            if length trimmed > 220 \<or> contains trimmed [10] \<or> contains trimmed [96, 96, 96]
               \<or> contains trimmed (lit ''http://'') \<or> contains trimmed (lit ''https://'')
            then ComplexTask else NoPreFlight)"

definition should_run_extended_pre_flight_for_turn :: "extended_pre_flight_level \<Rightarrow> bool" where
  "should_run_extended_pre_flight_for_turn level \<longleftrightarrow> level \<noteq> NoPreFlight"

definition extended_pre_flight_runs_complexity_estimator :: "extended_pre_flight_level \<Rightarrow> bool" where
  "extended_pre_flight_runs_complexity_estimator level \<longleftrightarrow> level \<noteq> NoPreFlight"

definition extended_pre_flight_runs_jit_distillation :: "extended_pre_flight_level \<Rightarrow> bool" where
  "extended_pre_flight_runs_jit_distillation level \<longleftrightarrow> level \<noteq> NoPreFlight"

definition extended_pre_flight_allows_auto_stepdown :: "extended_pre_flight_level \<Rightarrow> bool" where
  "extended_pre_flight_allows_auto_stepdown level \<longleftrightarrow> level = ComplexTask"

section \<open>Media\<close>

datatype media_kind = Image | Audio | Video

record message_snapshot =
  ms_text :: rstr
  ms_media :: "media_kind list"

record complexity_score =
  cs_score :: f32
  cs_reason :: rstr
  cs_predicted_output_tokens :: nat
  cs_is_parallelizable :: bool
  cs_level :: nat
  cs_metadata :: json

definition injection_prefixes :: "rstr list" where
  "injection_prefixes = map lit [
     ''[Image Attachment'', ''[Image Content]'', ''[Parsed '', ''[Audio Attachment'', ''[Video Attachment'',
     ''source:'', ''parser_mode:'', ''file://'', ''http://'', ''https://'']"

definition strip_frontstage_media_injection :: "rstr \<Rightarrow> rstr" where
  "strip_frontstage_media_injection text =
     (let user_visible_prefix = (case find_str ([10] @ lit ''[Parsed '') text of Some i \<Rightarrow> take i text | None \<Rightarrow> text)
      in trim (join (lit '' '') (filter (\<lambda>line. \<not> list_ex (starts_with (trim line)) injection_prefixes) (lines user_visible_prefix))))"

definition media_types :: "complexity_score \<Rightarrow> json list option" where
  "media_types complexity = Option.bind (json_get (cs_metadata complexity) (lit ''media_types'')) as_array"

definition understanding_markers :: "rstr list" where
  "understanding_markers = [
     [25551, 36848], [30475, 30475], [22270, 37324], [22270, 29255], [39118, 26684], [20687, 20160, 20040],
     [20160, 20040, 26679], lit ''what is in'', lit ''what'' @ [39] @ lit ''s in'', lit ''what is this'',
     lit ''describe'', lit ''style'', lit ''look like'', lit ''photo'', lit ''image'']"

definition execution_intent_markers :: "rstr list" where
  "execution_intent_markers = [
     [20998, 26512], [35268, 21010], [37325, 26500], [21516, 26102], [24182, 34892], lit ''execute'',
     lit ''implement'', lit ''refactor'', lit ''parallel'']"

definition is_simple_media_understanding_turn :: "unicode \<Rightarrow> message_snapshot \<Rightarrow> complexity_score \<Rightarrow> bool" where
  "is_simple_media_understanding_turn U last_user_message complexity =
     (let media_detected = (ms_media last_user_message \<noteq> [] \<or> (case media_types complexity of Some types \<Rightarrow> types \<noteq> [] | None \<Rightarrow> False));
          user_text = u_lower U (strip_frontstage_media_injection (ms_text last_user_message));
          short_frontstage_prompt = (length user_text \<le> 160);
          simple_understanding_intent = contains_any user_text understanding_markers;
          complex_execution_intent = contains_any user_text execution_intent_markers
      in media_detected \<and> short_frontstage_prompt \<and> \<not> complex_execution_intent
         \<and> (simple_understanding_intent \<or> cs_predicted_output_tokens complexity \<le> 2200))"

definition is_frontstage_single_image_turn :: "message_snapshot \<Rightarrow> complexity_score \<Rightarrow> nat \<Rightarrow> nat \<Rightarrow> bool" where
  "is_frontstage_single_image_turn last_user_message complexity steps total_chars =
     (if steps > 1 \<or> total_chars > 1200 then False
      else if length (filter (\<lambda>m. m = Image) (ms_media last_user_message)) = 1 then True
      else case media_types complexity of
          Some types \<Rightarrow> length types = 1 \<and> (case types of t # _ \<Rightarrow> as_str t = Some (lit ''image'') | [] \<Rightarrow> False)
        | None \<Rightarrow> False)"

section \<open>Complexity estimate\<close>

definition parallel_keywords :: "rstr list" where
  "parallel_keywords = [
     [21516, 26102], [24182, 34892], [20998, 21035], [25209, 37327], lit ''parallel'',
     lit ''simultaneously'', lit ''batch'', lit ''separately'']"

definition complex_keywords :: "rstr list" where
  "complex_keywords = [
     [20998, 26512], [35774, 35745], [37325, 26500], [23454, 29616], [20248, 21270], lit ''analyze'',
     lit ''design'', lit ''refactor'', lit ''implement'', lit ''optimize'']"

definition code_markers :: "rstr list" where
  "code_markers = map lit [
     ''fn '', ''def '', ''pub '', ''class '', ''let '', ''const '', ''impl '', ''interface '']"

definition keyword_count :: "rstr \<Rightarrow> rstr list \<Rightarrow> nat" where
  "keyword_count content keywords = length (filter (contains content) keywords)"

fun media_tokens_of :: "media_kind \<Rightarrow> nat" where
  "media_tokens_of Image = 1500"
| "media_tokens_of Audio = 1200"
| "media_tokens_of Video = 5000"

fun media_type_name :: "media_kind \<Rightarrow> rstr" where
  "media_type_name Image = lit ''image''"
| "media_type_name Audio = lit ''audio''"
| "media_type_name Video = lit ''video''"

definition analyze_media_content :: "message_snapshot \<Rightarrow> nat \<times> nat \<times> rstr list" where
  "analyze_media_content msg = foldl (\<lambda>(count, tokens, types) media.
     (count + 1, tokens + media_tokens_of media, types @ [media_type_name media])) (0, 0, []) (ms_media msg)"

definition detect_code_content :: "rstr \<Rightarrow> bool" where
  "detect_code_content text = (if contains text [96, 96, 96] then True else keyword_count text code_markers \<ge> 2)"

definition ascii_punctuation :: "rchar \<Rightarrow> bool" where
  "ascii_punctuation c \<longleftrightarrow> 33 \<le> c \<and> c \<le> 47 \<or> 58 \<le> c \<and> c \<le> 64 \<or> 91 \<le> c \<and> c \<le> 96 \<or> 123 \<le> c \<and> c \<le> 126"

definition token_weight :: "bool \<Rightarrow> rchar \<Rightarrow> rat" where
  "token_weight is_code c =
     (if 0x4e00 \<le> c \<and> c \<le> 0x9fff \<or> 0xac00 \<le> c \<and> c \<le> 0xd7af then f32_round (18 / 10)
      else if is_code \<and> ascii_punctuation c then f32_round (25 / 10)
      else if is_ws c then f32_round (3 / 10)
      else 1)"

text \<open>A float cast to \<^verbatim>\<open>usize\<close> truncates and saturates.\<close>
definition f32_to_usize :: "rat \<Rightarrow> nat" where
  "f32_to_usize x = min usize_max (nat \<lfloor>x\<rfloor>)"

definition estimate_tokens :: "rstr \<Rightarrow> bool \<Rightarrow> nat" where
  "estimate_tokens text is_code =
     (if text = [] then 0
      else f32_to_usize (of_int \<lceil>foldl (\<lambda>total c. f32_add total (token_weight is_code c)) 0 text\<rceil>))"

text \<open>The score grows by a constant, or by a constant and a multiple of the count.\<close>
definition score_step :: "bool \<Rightarrow> rat \<Rightarrow> rat \<times> rstr list \<Rightarrow> rstr \<Rightarrow> rat \<times> rstr list" where
  "score_step cond amount st reason = (if cond then (f32_add (fst st) amount, snd st @ [reason]) else st)"

text \<open>The score with its reasons, the predicted output, whether the task is parallel, and the metadata.\<close>
definition level_1_parts :: "unicode \<Rightarrow> f32 \<Rightarrow> message_snapshot \<Rightarrow> (rat \<times> rstr list) \<times> nat \<times> bool \<times> json" where
  "level_1_parts U usage last_msg =
     (let content = u_lower U (ms_text last_msg);
          p_count = keyword_count content parallel_keywords; c_count = keyword_count content complex_keywords;
          is_parallel = (p_count > 0);
          s1 = score_step (p_count > 0) (f32_add (f32_round (2 / 10)) (f32_mul (f32_round (of_nat p_count)) (f32_round (5 / 100))))
                 (0, []) (lit ''PARALLEL_SIGNATURE'');
          s2 = score_step (c_count \<ge> 2) (f32_round (3 / 10)) s1 (lit ''SEMANTIC_COMPLEXITY_BIAS'');
          (media_count, media_tokens, types) = analyze_media_content last_msg;
          s3 = score_step (media_count > 0) (f32_add (f32_round (5 / 10)) (f32_mul (f32_round (of_nat media_count)) (f32_round (1 / 10))))
                 s2 (lit ''MULTI_MODAL_INPUT('' @ show_nat media_count @ lit '')'');
          is_code = detect_code_content content;
          input_tokens = estimate_tokens content is_code + media_tokens;
          multiplier = (if is_parallel then 45 / 10 else if is_code then 3 else 2);
          predicted_output = f32_to_usize (f32_mul (f32_round (of_nat input_tokens)) multiplier);
          s4 = score_step (input_tokens > 2000) (f32_round (4 / 10)) s3 (lit ''LARGE_CONTEXT_INPUT'');
          s5 = score_step (predicted_output > 3000) (f32_round (3 / 10)) s4 (lit ''LARGE_OUTPUT_PROJECTION'');
          s6 = score_step (f32_gt usage 75) (f32_round (15 / 100)) s5 (lit ''HIGH_SYS_LOAD_BIAS'')
      in (s6, predicted_output, is_parallel, JObj (if media_count > 0 then [(lit ''media_types'', JArr (map JStr types))] else [])))"

definition estimate_level_1 :: "unicode \<Rightarrow> f32 \<Rightarrow> message_snapshot list \<Rightarrow> complexity_score" where
  "estimate_level_1 U usage messages =
     (case level_1_parts U usage (last messages) of ((score, reasons), predicted_output, is_parallel, metadata) \<Rightarrow>
        \<lparr>cs_score = f32_clamp (Finite score) 0 1, cs_reason = join (lit ''|'') reasons,
          cs_predicted_output_tokens = predicted_output, cs_is_parallelizable = is_parallel, cs_level = 1,
          cs_metadata = metadata\<rparr>)"

text \<open>\<^verbatim>\<open>rfind\<close> of a character, and the part between the fences of a code block.\<close>
definition rfind_char :: "rchar \<Rightarrow> rstr \<Rightarrow> nat option" where
  "rfind_char c s = (if c \<in> set s then Some (length s - 1 - length (takeWhile (\<lambda>x. x \<noteq> c) (rev s))) else None)"

definition fenced :: "rstr \<Rightarrow> rstr \<Rightarrow> rstr option" where
  "fenced fence response = (case find_str fence response of None \<Rightarrow> None
     | Some start \<Rightarrow> (let rest = drop (start + length fence) response in
         case find_str [96, 96, 96] rest of None \<Rightarrow> None | Some fin \<Rightarrow> Some (trim (take fin rest))))"

text \<open>\<^verbatim>\<open>&response[s..=e]\<close> between two braces, which are one byte each.\<close>
definition slice_inclusive :: "rstr \<Rightarrow> nat \<Rightarrow> nat \<Rightarrow> rstr option" where
  "slice_inclusive response s e = (if s \<le> e + 1 then Some (take (e + 1 - s) (drop s response)) else None)"

definition extract_json_from_response :: "rstr \<Rightarrow> rstr option" where
  "extract_json_from_response response =
     (case fenced ([96, 96, 96] @ lit ''json'') response of Some body \<Rightarrow> Some body
      | None \<Rightarrow> (case fenced [96, 96, 96] response of Some body \<Rightarrow> Some body
      | None \<Rightarrow> (case (find_str [123] response, rfind_char 125 response) of
          (Some s, Some e) \<Rightarrow> slice_inclusive response s e
        | _ \<Rightarrow> Some (trim response))))"

definition to_f32 :: "rat \<Rightarrow> f32" where
  "to_f32 q = (let m = f32_round \<bar>q\<bar> in if m \<ge> 2 ^ 128 then (if q < 0 then NegInf else PosInf) else Finite (if q < 0 then - m else m))"

definition unwrap_or :: "'a option \<Rightarrow> 'a \<Rightarrow> 'a" where
  "unwrap_or x d = (case x of Some v \<Rightarrow> v | None \<Rightarrow> d)"

text \<open>
  The second level asks a model; its answer and the JSON parser are arguments. A parse error
  is its text.
\<close>
definition level_2_of_json :: "json \<Rightarrow> complexity_score" where
  "level_2_of_json parsed = \<lparr>
     cs_score = to_f32 (unwrap_or (as_f64 (json_index parsed (lit ''score''))) (1 / 2)),
     cs_reason = unwrap_or (as_str (json_index parsed (lit ''reason''))) (lit ''LLM_ANALYSIS''),
     cs_predicted_output_tokens = unat (unwrap_or (as_u64 (json_index parsed (lit ''predicted_output_tokens''))) 1000),
     cs_is_parallelizable = unwrap_or (as_bool (json_index parsed (lit ''is_parallelizable''))) False,
     cs_level = 2,
     cs_metadata = JObj (case as_array (json_index parsed (lit ''sub_tasks'')) of
        Some st \<Rightarrow> [(lit ''sub_tasks'', JArr st)] | None \<Rightarrow> [])\<rparr>"

definition estimate_level_2 :: "(rstr \<Rightarrow> rstr + json) \<Rightarrow> rstr + rstr \<Rightarrow> (rstr + complexity_score) option" where
  "estimate_level_2 from_str answer =
     (case answer of Inl e \<Rightarrow> Some (Inl e)
      | Inr response \<Rightarrow> (case extract_json_from_response response of None \<Rightarrow> None
          | Some json_str \<Rightarrow> Some (case from_str json_str of
              Inr parsed \<Rightarrow> Inr (level_2_of_json parsed)
            | Inl error \<Rightarrow> Inl (lit ''Complexity L2 parse error: '' @ error @ lit ''. Raw: '' @ json_str))))"

definition empty_input_score :: complexity_score where
  "empty_input_score = \<lparr>cs_score = Finite 0, cs_reason = lit ''EMPTY_INPUT'', cs_predicted_output_tokens = 0,
     cs_is_parallelizable = False, cs_level = 1, cs_metadata = JNull\<rparr>"

text \<open>The comparison of the first score with the two literals; the answer is asked for only when it is used.\<close>
definition level_1_sufficient :: "complexity_score \<Rightarrow> bool" where
  "level_1_sufficient l1 \<longleftrightarrow> (\<not> f32_ge (cs_score l1) (f32_round (35 / 100)) \<and> cs_score l1 \<noteq> NaN)
     \<or> (f32_gt (cs_score l1) (f32_round (85 / 100)) \<and> cs_level l1 = 1)"

definition estimate :: "unicode \<Rightarrow> (rstr \<Rightarrow> rstr + json) \<Rightarrow> f32 \<Rightarrow> (message_snapshot \<Rightarrow> rstr + rstr) option \<Rightarrow> message_snapshot list \<Rightarrow>
  complexity_score option" where
  "estimate U from_str usage analyzer messages =
     (if messages = [] then Some empty_input_score
      else let l1 = estimate_level_1 U usage messages in
      if level_1_sufficient l1 then Some l1
      else case analyzer of None \<Rightarrow> Some l1
        | Some ask \<Rightarrow> (case estimate_level_2 from_str (ask (last messages)) of None \<Rightarrow> None
            | Some (Inr l2) \<Rightarrow> Some l2
            | Some (Inl _) \<Rightarrow> Some l1))"

section \<open>Slices\<close>

lemma utf8_width_pos [simp]: "0 < utf8_width c"
  by (simp add: utf8_width_def)

lemma slice_at_boundary: "slice_from s (byte_at s i) = Some (drop i s)"
proof (induction s arbitrary: i)
  case (Cons c s)
  show ?case
  proof (cases i)
    case (Suc j)
    obtain n where n: "byte_at (c # s) (Suc j) = Suc n" and w: "utf8_width c \<le> Suc n" "Suc n - utf8_width c = byte_at s j"
      using utf8_width_pos [of c] by (cases "byte_at (c # s) (Suc j)") (simp_all add: byte_at_def utf8_len_def del: utf8_width_pos)
    with Suc show ?thesis using Cons.IH [of j] by simp
  qed (simp add: byte_at_def utf8_len_def)
qed (simp add: byte_at_def utf8_len_def)

lemma slice_from_Cons:
  "slice_from (c # s) n = (if n = 0 then Some (c # s) else if utf8_width c \<le> n then slice_from s (n - utf8_width c) else None)"
  by (cases n) simp_all

lemma utf8_len_append: "utf8_len (s @ t) = utf8_len s + utf8_len t"
  by (simp add: utf8_len_def)

lemma byte_at_same_widths: "(\<And>c. utf8_width (f c) = utf8_width c) \<Longrightarrow> byte_at (map f s) i = byte_at s i"
  by (simp add: byte_at_def utf8_len_def take_map comp_def)

lemma find_str_Some: "find_str p s = Some i \<longleftrightarrow>
   i \<le> length s \<and> starts_with (drop i s) p \<and> (\<forall>j < i. \<not> starts_with (drop j s) p)"
proof (induction s arbitrary: i)
  case (Cons c s)
  show ?case
  proof (cases i)
    case (Suc j)
    show ?thesis
      using Cons.IH [of j] Suc by (auto simp: less_Suc_eq_0_disj)
  qed auto
qed (auto simp: starts_with_def)

lemma find_str_None: "find_str p s = None \<longleftrightarrow> \<not> contains s p"
  by (induction s) auto

section \<open>Reading JSON out of an answer\<close>

lemma rfind_char_None: "rfind_char c s = None \<longleftrightarrow> c \<notin> set s"
  by (simp add: rfind_char_def)

lemma rfind_char_last: "c \<notin> set post \<Longrightarrow> rfind_char c (pre @ [c] @ post) = Some (length pre)"
proof -
  assume "c \<notin> set post"
  then have "takeWhile (\<lambda>x. x \<noteq> c) (rev (pre @ [c] @ post)) = rev post"
    by (simp add: takeWhile_append takeWhile_eq_all_conv)
  then show ?thesis by (simp add: rfind_char_def)
qed

lemma find_char_first: "c \<notin> set pre \<Longrightarrow> find_str [c] (pre @ c # post) = Some (length pre)"
  by (induction pre) (auto simp: starts_with_def)

lemma find_char_None: "find_str [c] s = None \<longleftrightarrow> c \<notin> set s"
  by (induction s) (auto simp: starts_with_def)

lemma no_fence: "\<not> contains s [96, 96, 96] \<Longrightarrow> fenced [96, 96, 96] s = None \<and> fenced ([96, 96, 96] @ p) s = None"
proof -
  assume a: "\<not> contains s [96, 96, 96]"
  then have "\<not> contains s ([96, 96, 96] @ p)" unfolding contains_iff by (metis append.assoc)
  with a show ?thesis by (simp add: fenced_def find_str_None [symmetric])
qed

lemma find_char_split: "find_str [c] s = Some i \<Longrightarrow> \<exists>pre post. s = pre @ [c] @ post \<and> c \<notin> set pre \<and> i = length pre"
  using find_char_first [of c] find_char_None [of c s] by (metis append_Cons append_Nil not_None_eq option.inject split_list_first)

lemma rfind_char_split: "rfind_char c s = Some i \<Longrightarrow> \<exists>pre post. s = pre @ [c] @ post \<and> c \<notin> set post \<and> i = length pre"
  using rfind_char_last [of c] rfind_char_None [of c s] by (metis append_Cons append_Nil not_None_eq option.inject split_list_last)

text \<open>The first opening brace is more than one place after the last closing one.\<close>
definition crossed_braces :: "rstr \<Rightarrow> bool" where
  "crossed_braces s \<longleftrightarrow> (\<exists>pre mid post. s = pre @ [125] @ mid @ [123] @ post \<and> mid \<noteq> []
     \<and> 123 \<notin> set (pre @ mid) \<and> 125 \<notin> set (mid @ post))"

lemma crossed_iff:
  assumes "find_str [123] s = Some i" and "rfind_char 125 s = Some e"
  shows "crossed_braces s \<longleftrightarrow> e + 1 < i"
proof
  assume "crossed_braces s"
  then obtain pre mid post where s: "s = pre @ [125] @ mid @ [123] @ post" "mid \<noteq> []" "123 \<notin> set (pre @ mid)" "125 \<notin> set (mid @ post)"
    by (auto simp: crossed_braces_def)
  have "i = length pre + 1 + length mid"
    using find_char_first [of 123 "pre @ [125] @ mid" post] s assms(1) by simp
  moreover have "e = length pre"
    using rfind_char_last [of 125 "mid @ [123] @ post" pre] s assms(2) by simp
  ultimately show "e + 1 < i" using s(2) by (cases mid) auto
next
  assume lt: "e + 1 < i"
  obtain a b where a: "s = a @ [123] @ b" "123 \<notin> set a" "i = length a" using find_char_split [OF assms(1)] by blast
  obtain c d where c: "s = c @ [125] @ d" "125 \<notin> set d" "e = length c" using rfind_char_split [OF assms(2)] by blast
  have "\<exists>mid. a = c @ [125] @ mid \<and> d = mid @ [123] @ b"
    using a(1,3) c(1,3) lt by (auto simp: append_eq_append_conv2 append_eq_Cons_conv Cons_eq_append_conv)
  then obtain mid where mid: "a = c @ [125] @ mid" "d = mid @ [123] @ b" by blast
  with a c lt have "s = c @ [125] @ mid @ [123] @ b" "mid \<noteq> []" "123 \<notin> set (c @ mid)" "125 \<notin> set (mid @ b)" by auto
  then show "crossed_braces s" unfolding crossed_braces_def by blast
qed

lemma extract_between:
  "extract_json_from_response s = (case (find_str [123] s, rfind_char 125 s) of
       (Some i, Some e) \<Rightarrow> slice_inclusive s i e | _ \<Rightarrow> Some (trim s))" if "\<not> contains s [96, 96, 96]"
  using no_fence [OF that] by (simp add: extract_json_from_response_def del: lit_Cons)

section \<open>Properties\<close>

text \<open>
  The reason of a critique. When upper-casing changes no character's width in bytes (as for
  ASCII), a text that does not pass and carries the marker yields exactly what follows the
  first marker, trimmed: a default reason when nothing follows, nothing when no issue is left
  after the phrases of approval are removed. There is no panic.
\<close>
theorem critique_reason_of_plain_text:
  assumes "to_upper text = map up text" and "\<And>c. utf8_width (up c) = utf8_width c"
    and "\<not> contains (map up text) (lit ''[PASSED]'')" and "map up text = pre @ lit ''[CRITIQUE]'' @ post"
    and "\<forall>j < length pre. \<not> starts_with (drop j (map up text)) (lit ''[CRITIQUE]'')"
  shows "extract_reflexion_critique_reason U to_upper text = Some (
    let reason = trim (drop (length pre + 10) text) in
    if reason = [] then Some (lit ''unspecified critique'')
    else if reflexion_reason_has_actionable_issue U reason then Some reason else None)"
proof -
  let ?m = "lit ''[CRITIQUE]''"
  have find: "find_str ?m (map up text) = Some (length pre)"
    using assms(4,5) by (simp add: find_str_Some starts_with_def del: lit_Cons)
  have len: "length ?m = 10" by simp
  have "byte_at (map up text) (length pre) + utf8_len ?m = utf8_len (take (length pre + 10) (map up text))"
    using len by (simp add: byte_at_def assms(4) utf8_len_append del: lit_Cons)
  also have "\<dots> = byte_at text (length pre + 10)"
    using byte_at_same_widths [of up "text" "length pre + 10"] assms(2) by (simp add: byte_at_def)
  finally have "slice_from text (byte_at (map up text) (length pre) + utf8_len ?m) = Some (drop (length pre + 10) text)"
    using slice_at_boundary by metis
  with find assms(1,3) show ?thesis
    by (simp add: extract_reflexion_critique_reason_def Let_def del: lit_Cons)
qed

theorem critique_reason_of_plain_text_witness:
  "extract_reflexion_critique_reason ascii_tables (map (\<lambda>c. if 97 \<le> c \<and> c \<le> 122 then c - 32 else c)) (lit ''[Critique] too vague'')
     = Some (Some (lit ''too vague''))"
proof -
  let ?up = "\<lambda>c :: rchar. if 97 \<le> c \<and> c \<le> 122 then c - 32 else c"
  let ?t = "lit ''[Critique] too vague''"
  have upper: "map ?up ?t = [] @ lit ''[CRITIQUE]'' @ lit '' TOO VAGUE''" by simp
  have passed: "\<not> contains (map ?up ?t) (lit ''[PASSED]'')" by (simp add: starts_with_def)
  have reason: "trim (drop (length ([] :: rstr) + 10) ?t) = lit ''too vague''"
    by (simp add: trim_def trim_start_def trim_end_def is_ws_def)
  have issue: "reflexion_reason_has_actionable_issue ascii_tables (lit ''too vague'')"
    by (simp add: reflexion_reason_has_actionable_issue_def ascii_tables_def to_ascii_lowercase_def passed_phrases_def issue_terms_def
        contains_any_def starts_with_def)
  have widths: "utf8_width (?up c) = utf8_width c" for c by (auto simp: utf8_width_def)
  have "extract_reflexion_critique_reason ascii_tables (map ?up) ?t = Some (
    let reason = trim (drop (length ([] :: rstr) + 10) ?t) in
    if reason = [] then Some (lit ''unspecified critique'')
    else if reflexion_reason_has_actionable_issue ascii_tables reason then Some reason else None)"
    using passed upper widths by (intro critique_reason_of_plain_text [where up = ?up and post = "lit '' TOO VAGUE''"]) (simp_all del: lit_Cons)
  then show ?thesis unfolding reason Let_def using issue by simp
qed

text \<open>
  When a character grows in upper case, as U+0149 does (two bytes, three in upper case), the
  byte position found in the upper-cased text is one too far: the slice can start inside a
  character and panics.
\<close>
theorem critique_can_panic:
  assumes "to_upper ([329] @ lit ''[CRITIQUE]'' @ [32570]) = [700, 78] @ lit ''[CRITIQUE]'' @ [32570]"
  shows "extract_reflexion_critique_reason U to_upper ([329] @ lit ''[CRITIQUE]'' @ [32570]) = None"
  using assms by (simp add: extract_reflexion_critique_reason_def starts_with_def byte_at_def utf8_len_def utf8_width_def
      slice_from_Cons del: slice_from.simps)

text \<open>
  A critique that only reports factual errors is read as approval: the words are among the
  phrases that are removed before the issues are looked for.
\<close>
theorem factual_errors_are_dismissed:
  "\<not> reflexion_reason_has_actionable_issue ascii_tables (lit ''it has factual errors'')"
  by (simp add: reflexion_reason_has_actionable_issue_def ascii_tables_def to_ascii_lowercase_def passed_phrases_def issue_terms_def
      contains_any_def starts_with_def)

text \<open>
  A model's answer without code fences. Its JSON is the text from the first opening to the
  last closing brace; the reading panics exactly when the first opening brace comes more than
  one place after the last closing one; without a pair of braces it is the trimmed answer.
\<close>
theorem json_of_answer:
  assumes "\<not> contains response [96, 96, 96]"
  shows "(extract_json_from_response response = None \<longleftrightarrow>
      (\<exists>pre mid post. response = pre @ [125] @ mid @ [123] @ post \<and> mid \<noteq> []
         \<and> 123 \<notin> set (pre @ mid) \<and> 125 \<notin> set (mid @ post)))
    \<and> (\<forall>pre mid post. response = pre @ [123] @ mid @ [125] @ post \<and> 123 \<notin> set pre \<and> 125 \<notin> set post \<longrightarrow>
        extract_json_from_response response = Some ([123] @ mid @ [125]))
    \<and> (123 \<notin> set response \<or> 125 \<notin> set response \<longrightarrow> extract_json_from_response response = Some (trim response))"
proof (intro conjI allI impI)
  note between = extract_between [OF assms]
  have "extract_json_from_response response = None \<longleftrightarrow> crossed_braces response"
  proof (cases "find_str [123] response"; cases "rfind_char 125 response")
    fix i e
    assume ie: "find_str [123] response = Some i" "rfind_char 125 response = Some e"
    with crossed_iff [OF ie] show ?thesis by (auto simp: between slice_inclusive_def)
  qed (use find_char_None [of 123 response] rfind_char_None [of 125 response] between in \<open>auto simp: crossed_braces_def\<close>)
  then show "extract_json_from_response response = None \<longleftrightarrow>
      (\<exists>pre mid post. response = pre @ [125] @ mid @ [123] @ post \<and> mid \<noteq> []
         \<and> 123 \<notin> set (pre @ mid) \<and> 125 \<notin> set (mid @ post))"
    by (simp only: crossed_braces_def)
  show "extract_json_from_response response = Some ([123] @ mid @ [125])"
    if "response = pre @ [123] @ mid @ [125] @ post \<and> 123 \<notin> set pre \<and> 125 \<notin> set post" for pre mid post
    using that find_char_first [of 123 pre "mid @ [125] @ post"] rfind_char_last [of 125 post "pre @ [123] @ mid"]
    unfolding between by (auto simp: slice_inclusive_def)
  show "extract_json_from_response response = Some (trim response)" if "123 \<notin> set response \<or> 125 \<notin> set response"
    using that find_char_None [of 123 response] rfind_char_None [of 125 response]
    by (auto simp: between split: option.splits)
qed

theorem json_of_answer_witness:
  "extract_json_from_response (lit ''see {x} ok'') = Some (lit ''{x}'') \<and> extract_json_from_response (lit ''} or {'') = None"
proof -
  have "\<not> contains (lit ''see {x} ok'') [96, 96, 96]" "\<not> contains (lit ''} or {'') [96, 96, 96]" by (simp_all add: starts_with_def)
  note a = json_of_answer [OF this(1)] and b = json_of_answer [OF this(2)]
  have "lit ''see {x} ok'' = lit ''see '' @ [123] @ lit ''x'' @ [125] @ lit '' ok''"
    "lit ''} or {'' = [] @ [125] @ lit '' or '' @ [123] @ []" by simp_all
  moreover have "123 \<notin> set (lit ''see '')" "125 \<notin> set (lit '' ok'')" "lit '' or '' \<noteq> []" "123 \<notin> set ([] @ lit '' or '')" "125 \<notin> set (lit '' or '' @ [])"
    by simp_all
  ultimately have "extract_json_from_response (lit ''see {x} ok'') = Some ([123] @ lit ''x'' @ [125])"
    "extract_json_from_response (lit ''} or {'') = None"
    using a b by blast+
  then show ?thesis by simp
qed

text \<open>
  The complexity estimate. The score of the first level lies in the unit interval; a model is
  consulted only when that score is between the two limits, so otherwise its answer, failure
  or absence makes no difference, and a failing or unreadable answer leaves the first level.
\<close>
theorem estimate_consults_model_when_unclear:
  assumes "messages \<noteq> []"
  shows "\<exists>s. cs_score (estimate_level_1 U usage messages) = Finite s \<and> 0 \<le> s \<and> s \<le> 1
    \<and> estimate U from_str usage None messages = Some (estimate_level_1 U usage messages)
    \<and> (estimate U from_str usage analyzer messages \<noteq> Some (estimate_level_1 U usage messages) \<longrightarrow>
         f32_round (35 / 100) \<le> s \<and> s \<le> f32_round (85 / 100)
         \<and> (\<exists>ask response. analyzer = Some ask \<and> ask (last messages) = Inr response
              \<and> (extract_json_from_response response = None
                 \<or> (\<exists>body parsed. extract_json_from_response response = Some body \<and> from_str body = Inr parsed
                      \<and> estimate U from_str usage analyzer messages = Some (level_2_of_json parsed)))))"
proof -
  define l1 where "l1 = estimate_level_1 U usage messages"
  have "\<exists>q. cs_score l1 = f32_clamp (Finite q) 0 1"
    by (auto simp: l1_def estimate_level_1_def simp del: lit_Cons f32_clamp.simps split: prod.split)
  then obtain s where s: "cs_score l1 = Finite s" "0 \<le> s" "s \<le> 1" by (auto split: if_splits)
  have level: "cs_level l1 = 1" by (simp add: l1_def estimate_level_1_def del: lit_Cons split: prod.split)
  have enough: "level_1_sufficient l1 \<longleftrightarrow> s < f32_round (35 / 100) \<or> f32_round (85 / 100) < s"
    by (auto simp: level_1_sufficient_def s(1) level)
  have "estimate U from_str usage None messages = Some l1" using assms by (simp add: estimate_def l1_def Let_def)
  moreover have "f32_round (35 / 100) \<le> s \<and> s \<le> f32_round (85 / 100)
         \<and> (\<exists>ask response. analyzer = Some ask \<and> ask (last messages) = Inr response
              \<and> (extract_json_from_response response = None
                 \<or> (\<exists>body parsed. extract_json_from_response response = Some body \<and> from_str body = Inr parsed
                      \<and> estimate U from_str usage analyzer messages = Some (level_2_of_json parsed))))"
    if diff: "estimate U from_str usage analyzer messages \<noteq> Some l1"
  proof -
    have grey: "\<not> level_1_sufficient l1" using diff assms by (auto simp: estimate_def l1_def Let_def)
    then have eq: "estimate U from_str usage analyzer messages = (case analyzer of None \<Rightarrow> Some l1
        | Some ask \<Rightarrow> (case estimate_level_2 from_str (ask (last messages)) of None \<Rightarrow> None
            | Some (Inr l2) \<Rightarrow> Some l2
            | Some (Inl _) \<Rightarrow> Some l1))"
      using assms by (simp add: estimate_def Let_def flip: l1_def)
    from diff eq obtain ask where ask: "analyzer = Some ask" by (cases analyzer) auto
    from diff eq ask obtain response where r: "ask (last messages) = Inr response"
      by (cases "ask (last messages)") (auto simp: estimate_level_2_def)
    from diff eq ask r have "extract_json_from_response response = None
        \<or> (\<exists>body parsed. extract_json_from_response response = Some body \<and> from_str body = Inr parsed
              \<and> estimate U from_str usage analyzer messages = Some (level_2_of_json parsed))"
      by (auto simp: estimate_level_2_def simp del: lit_Cons split: option.splits sum.splits)
    with grey enough ask r show ?thesis by auto
  qed
  ultimately show ?thesis using s unfolding l1_def [symmetric] by blast
qed

theorem estimate_consults_model_when_unclear_witness:
  "\<exists>s. cs_score (estimate_level_1 ascii_tables NaN [\<lparr>ms_text = lit ''hi'', ms_media = []\<rparr>]) = Finite s \<and> 0 \<le> s \<and> s \<le> 1"
  using estimate_consults_model_when_unclear [of "[\<lparr>ms_text = lit ''hi'', ms_media = []\<rparr>]" ascii_tables NaN "\<lambda>_. Inr JNull" None] by blast

end
