(* ===== verification/Creation_Intake.thy ===== *)
theory Creation_Intake
  imports Prelude
begin

text \<open>
  The intake of creation requests and the language contract
  (\<^verbatim>\<open>runtime-policy-core/src/intake.rs\<close> and \<^verbatim>\<open>language.rs\<close>): a request for a novel, a paper or a
  report is either passed on or answered with a question, for the age of the user when the
  request is for adult or graphic content, and for the missing details when it is too thin.
\<close>

section \<open>Decisions and tables\<close>

datatype creation_intake_action = Proceed | Clarify

record creation_intake_decision =
  ci_action :: creation_intake_action
  ci_artifact_kind :: "rstr option"
  ci_missing_slots :: "rstr list"
  ci_prompt :: "rstr option"

definition proceed :: creation_intake_decision where
  "proceed = \<lparr>ci_action = Proceed, ci_artifact_kind = None, ci_missing_slots = [], ci_prompt = None\<rparr>"

definition should_clarify :: "creation_intake_decision \<Rightarrow> bool" where
  "should_clarify d \<longleftrightarrow> ci_action d = Clarify"

record artifact_profile =
  ap_kind :: rstr
  ap_surfaces :: "rstr list"
  ap_minimum_slots :: nat
  ap_questions_zh :: "rstr list"
  ap_questions_en :: "rstr list"

definition CREATION_VERBS :: "rstr list" where
  "CREATION_VERBS = [
     [20889], [21019, 20316], [29983, 25104], [21019, 24314], [20570], [21046, 20316], [36215, 33609],
     [35774, 35745], [24320, 21457], [23454, 29616], [20135, 20986], [25972, 29702], lit ''write'',
     lit ''generate'', lit ''create'', lit ''make'', lit ''draft'', lit ''design'', lit ''build'',
     lit ''implement'', lit ''produce'']"

definition AUTONOMY_SURFACES :: "rstr list" where
  "AUTONOMY_SURFACES = [
     [20320, 33258, 24049, 23450], [20320, 26469, 23450], [20320, 20915, 23450],
     [33258, 34892, 23450, 22842], [33258, 34892, 20915, 23450], [33258, 30001, 21457, 25381],
     [25353, 20320, 30340, 21028, 26029], [24110, 25105, 23450], [33258, 21160, 34917, 40784],
     [33258, 24049, 23450], [33258, 24049, 20915, 23450], lit ''you decide'', lit ''your call'',
     lit ''use your judgment'', lit ''surprise me'', lit ''fill in the details'']"

definition PLANNING_DIALOGUE_SURFACES :: "rstr list" where
  "PLANNING_DIALOGUE_SURFACES = [
     [20808, 19981, 35201, 20889, 27491, 25991], [19981, 35201, 20889, 27491, 25991],
     [20808, 21035, 20889, 27491, 25991], [20808, 19981, 20889, 27491, 25991],
     [20808, 36890, 36807, 22810, 36718, 23545, 35805], [20808, 21644, 25105, 22810, 36718, 23545, 35805],
     [22810, 36718, 33258, 28982, 35821, 35328, 23545, 35805], [22810, 36718, 23545, 35805, 23450],
     [22810, 36718, 23545, 35805, 30830, 23450], [22810, 36718, 23545, 35805, 25226],
     [23450, 21046, 23567, 35828, 22823, 32434], [23450, 21046, 22823, 32434],
     [23450, 21046, 21019, 20316, 22823, 32434], [35268, 21010, 28165, 26970], [20808, 23450, 22823, 32434],
     [23450, 19979, 22823, 32434], [20808, 23450, 26694, 26550], [23450, 19979, 26694, 26550],
     [25226, 26694, 26550, 23450, 19979, 26469], [26694, 26550, 23450, 19979, 26469],
     [20808, 25226, 26694, 26550], [20808, 23450, 21019, 20316, 26694, 26550], [21019, 20316, 21512, 21516],
     [20808, 29702, 35299, 38656, 27714], [38382, 25105, 36824, 38656, 35201, 30830, 35748],
     [38656, 35201, 30830, 35748, 21738, 20123], [20808, 30830, 35748], [20808, 35752, 35770],
     [20808, 32842, 28165, 26970], [19981, 35201, 31435, 21051, 24320, 22987],
     lit ''don'' @ [39] @ lit ''t write yet'', lit ''do not write yet'', lit ''do not start writing'',
     lit ''before writing'', lit ''clarify first'', lit ''outline first'', lit ''plan first'', lit ''ask me'']"

definition SCALE_SURFACES :: "rstr list" where
  "SCALE_SURFACES = [
     [23383], [39029], [31456], [20998, 38047], [23567, 26102], [19975, 23383], [21315, 23383],
     [30701, 31687], [20013, 31687], [38271, 31687], [23436, 25972], [19968, 31456], [31532, 19968, 31456],
     lit ''word'', lit ''words'', lit ''page'', lit ''pages'', lit ''chapter'', lit ''chapters'',
     lit ''short'', lit ''long'', lit ''complete'', lit ''full'']"

definition FORMAT_SURFACES :: "rstr list" where
  "FORMAT_SURFACES = [
     lit ''txt'', lit ''pdf'', lit ''md'', lit ''markdown'', lit ''html'', lit ''docx'', [25991, 20214],
     [25991, 26723], [23548, 20986], [20445, 23384]]"

definition AUDIENCE_SURFACES :: "rstr list" where
  "AUDIENCE_SURFACES = [
     [32473], [38754, 21521], [35835, 32773], [32769, 24072], [23398, 29983], [23458, 25143], [32769, 26495],
     [25237, 36164, 20154], [29992, 25143], lit ''audience'', lit ''reader'', lit ''for '']"

definition SOURCE_SURFACES :: "rstr list" where
  "SOURCE_SURFACES = [
     [26681, 25454], [22522, 20110], [21442, 32771], [26448, 26009], [32032, 26448], [30693, 35782, 24211],
     [25968, 25454, 24211], [35770, 25991], [32593, 39029], [25991, 26723], lit ''according to'',
     lit ''based on'', lit ''source'', lit ''material'', lit ''reference'']"

definition ADULT_CREATION_SURFACES :: "rstr list" where
  "ADULT_CREATION_SURFACES = [
     [33394, 24773], [24773, 33394], [25104, 20154], [25104, 20154, 21521], [38706, 39592], [24615, 29233],
     [24615, 25551, 20889], lit ''18'' @ [31105], lit ''r18'', lit ''nsfw'', lit ''adult fiction'',
     lit ''adult novel'', lit ''adult content'', lit ''erotic'', lit ''explicit sex'', lit ''sexual'',
     lit ''porn'']"

definition GRAPHIC_VIOLENCE_SURFACES :: "rstr list" where
  "GRAPHIC_VIOLENCE_SURFACES = [
     [34880, 33125], [37325, 21475], [27531, 34384], [34384, 26432], [32930, 35299], [20869, 33039],
     [26292, 21147, 34880, 33125], lit ''graphic violence'', lit ''gore'', lit ''gory'', lit ''splatter'']"

definition ADULT_AGE_CONFIRMATION_SURFACES :: "rstr list" where
  "ADULT_AGE_CONFIRMATION_SURFACES = [
     [25105, 24050, 28385] @ lit ''18'', [25105, 24050, 28385, 21313, 20843],
     [25105, 24050, 24180, 28385] @ lit ''18'', [25105, 24050, 24180, 28385, 21313, 20843],
     [26412, 20154, 24050, 28385] @ lit ''18'', [26412, 20154, 24050, 28385, 21313, 20843],
     [24180, 28385] @ lit ''18'' @ [21608, 23681], [24180, 28385, 21313, 20843, 21608, 23681],
     [30830, 35748, 24050, 28385] @ lit ''18'', [30830, 35748, 24050, 28385, 21313, 20843],
     [25105, 26159, 25104, 24180, 20154], [25104, 24180, 20154], [24050, 25104, 24180],
     [24050, 28415] @ lit ''18'', [24050, 28415, 21313, 20843], lit ''i am 18'',
     lit ''i'' @ [39] @ lit ''m 18'', lit ''i am over 18'', lit ''i'' @ [39] @ lit ''m over 18'',
     lit ''i am an adult'']"

definition fiction_profile :: artifact_profile where
  "fiction_profile = \<lparr>ap_kind = lit ''fiction'', ap_surfaces = [
       [23567, 35828], [25925, 20107], [31456, 33410], [27491, 25991], lit ''novel'', lit ''fiction'',
       lit ''story''],
     ap_minimum_slots = 1,
     ap_questions_zh = [
       [24819, 20889, 20160, 20040, 39064, 26448, 30340, 23567, 35828, 65311, 27604, 22914, 37117, 24066, 29572, 24187, 12289, 24322, 30028, 29572, 24187, 12289, 31185, 24187, 12289, 35328, 24773, 65307, 20063, 21487, 20197, 35828, 8220, 20320, 26469, 23450, 8221, 12290],
       [27599, 31456, 22823, 27010, 22810, 23569, 23383, 65311, 23567, 35828, 30446, 21069, 25903, 25345] @ lit '' 2500 '' @ [25110] @ lit '' 5000 '' @ [20004, 26723, 12290],
       [24635, 23383, 25968, 22823, 27010, 22810, 23569, 65311, 27604, 22914] @ lit '' 5 '' @ [19975, 23383, 12289] @ lit ''10 '' @ [19975, 23383, 12289] @ lit ''50 '' @ [19975, 23383, 65307, 20063, 21487, 20197, 35753, 25105, 25353, 39064, 26448, 24314, 35758, 12290]],
     ap_questions_en = [
       lit ''What fiction genre should it use, or should I decide?'',
       lit ''How long should each chapter be? Fiction currently supports 2500 or 5000 words/characters as configured bands.'',
       lit ''What total length should the project target, or should I propose one for the genre?'']\<rparr>"

definition paper_profile :: artifact_profile where
  "paper_profile = \<lparr>ap_kind = lit ''paper'', ap_surfaces = [
       [35770, 25991], lit ''paper'', lit ''thesis'', lit ''article''],
     ap_minimum_slots = 1,
     ap_questions_zh = [
       [35770, 25991, 20027, 39064, 12289, 30740, 31350, 38382, 39064, 25110, 39046, 22495, 26159, 20160, 20040, 65311, 20063, 21487, 20197, 35828, 8220, 20320, 26469, 23450, 8221, 12290],
       [38656, 35201, 23398, 26415, 35770, 25991, 12289, 32508, 36848, 12289, 35838, 31243, 35770, 25991, 65292, 36824, 26159, 25237, 31295, 39118, 26684, 65311],
       [26159, 21542, 38656, 35201, 24341, 29992, 24050, 26377, 36164, 26009, 12289, 30693, 35782, 24211, 25110, 22806, 37096, 26816, 32034, 35777, 25454, 65311]],
     ap_questions_en = [
       lit ''What topic, research question, or field should the paper cover?'',
       lit ''Should it be a research paper, review, class essay, or publication-style draft?'',
       lit ''Should it cite supplied material, knowledge-base items, or external evidence?'']\<rparr>"

definition report_profile :: artifact_profile where
  "report_profile = \<lparr>ap_kind = lit ''report'', ap_surfaces = [
       [25253, 21578], [26041, 26696], [24635, 32467], lit ''report'', lit ''proposal'', lit ''brief''],
     ap_minimum_slots = 1,
     ap_questions_zh = [
       [25253, 21578, 20027, 39064, 21644, 20351, 29992, 22330, 26223, 26159, 20160, 20040, 65311, 20063, 21487, 20197, 35828, 8220, 20320, 26469, 23450, 8221, 12290],
       [35835, 32773, 26159, 35841, 65292, 20559, 27491, 24335, 12289, 21830, 19994, 12289, 25216, 26415, 36824, 26159, 27719, 25253, 39118, 26684, 65311],
       [38656, 35201, 22810, 38271, 12289, 20160, 20040, 26684, 24335, 12289, 26159, 21542, 35201, 24341, 29992, 26448, 26009, 65311]],
     ap_questions_en = [
       lit ''What is the report topic and use case?'',
       lit ''Who is the audience, and should the tone be formal, business, technical, or briefing-style?'',
       lit ''How long and what output format should it use, and should it cite sources?'']\<rparr>"

definition PROFILES :: "artifact_profile list" where
  "PROFILES = [fiction_profile, paper_profile, report_profile]"

section \<open>Recognising text\<close>

definition intake_contains_any :: "rstr \<Rightarrow> rstr list \<Rightarrow> bool" where
  "intake_contains_any v terms =
     (let lowered = to_ascii_lowercase v
      in list_ex (\<lambda>term. contains v term \<or> contains lowered (to_ascii_lowercase term)) terms)"

definition ascii_digit :: "rchar \<Rightarrow> bool" where
  "ascii_digit c \<longleftrightarrow> 48 \<le> c \<and> c \<le> 57"

definition contains_digit :: "rstr \<Rightarrow> bool" where
  "contains_digit v = list_ex ascii_digit v"

definition has_cjk :: "rstr \<Rightarrow> bool" where
  "has_cjk v = list_ex (\<lambda>c. 0x4e00 \<le> c \<and> c \<le> 0x9fff) v"

definition label :: "bool \<Rightarrow> rstr \<Rightarrow> rstr \<Rightarrow> rstr" where
  "label chinese zh en = (if chinese then zh else en)"

definition strip_known_terms :: "rstr \<Rightarrow> rstr list \<Rightarrow> rstr" where
  "strip_known_terms v terms = foldl (\<lambda>out term. remove_all term out) v terms"

definition topic_fillers :: "rstr list" where
  "topic_fillers = [
     [24110, 25105], [32473, 25105], [35831], [40635, 28902], [19968, 19979], [19968, 20010], [19968, 20221],
     [19968, 31687], [20808], [21644, 25105], [36319, 25105], [22810, 36718], [23545, 35805],
     [33258, 28982, 35821, 35328], [27491, 25991], [26694, 26550], [22823, 32434], [21512, 21516],
     lit ''help me'', lit ''please'', lit ''clarify'', lit ''outline'', lit ''framework'', lit ''contract'']"

definition filler_char :: "rchar \<Rightarrow> bool" where
  "filler_char c \<longleftrightarrow> ascii_digit c \<or> c \<in> {19968, 20108, 19977, 22235, 20116, 20845, 19971, 20843, 20061, 21313, 20960, 20010, 31687, 20221, 39029, 37096, 26412, 27573, 26465}"

definition strip_topic_fillers :: "rstr \<Rightarrow> rstr" where
  "strip_topic_fillers v = filter (\<lambda>c. \<not> filler_char c) (foldl (\<lambda>out filler. remove_all filler out) v topic_fillers)"

definition topic_markers :: "rstr list" where
  "topic_markers = [
     [20851, 20110], [20027, 39064], [39064, 26448], [31867, 22411], [39118, 26684], [29572, 24187],
     [20185, 20384], [31185, 24187], [35328, 24773], [24748, 30097], [33609, 26681], [36870, 34989],
     [24515, 33039, 30149], [27835, 30103], [21271, 20140], [24191, 24030], [27604, 29305, 24065],
     lit ''topic'', lit ''about'', lit ''genre'', lit ''style'']"

definition has_concrete_topic_or_modifier :: "rstr \<Rightarrow> rstr \<Rightarrow> bool" where
  "has_concrete_topic_or_modifier request kind =
     (let compact = filter (\<lambda>c. \<not> is_ws c) request; normalized_compact = to_ascii_lowercase compact
      in if intake_contains_any normalized_compact topic_markers then True
         else let surfaces = (case find (\<lambda>p. ap_kind p = kind) PROFILES of Some p \<Rightarrow> ap_surfaces p | None \<Rightarrow> []);
                  without_verbs = strip_known_terms normalized_compact CREATION_VERBS;
                  without_artifact = strip_known_terms without_verbs surfaces;
                  without_scale = strip_known_terms without_artifact SCALE_SURFACES;
                  without_fillers = strip_topic_fillers without_scale
              in length without_fillers \<ge> (if has_cjk request then 4 else 12))"

definition book_request_markers :: "rstr list" where
  "book_request_markers = [
     [20889, 19968, 26412], [21019, 20316, 19968, 26412], [29983, 25104, 19968, 26412],
     [21019, 24314, 19968, 26412], [20889, 19968, 37096], [21019, 20316, 19968, 37096]]"

definition genre_markers :: "rstr list" where
  "genre_markers = [
     [24748, 30097], [29572, 24187], [20185, 20384], [27494, 20384], [31185, 24187], [22855, 24187],
     [35328, 24773], [29233, 24773], [24656, 24598], [24778, 24730], [25512, 29702], [20882, 38505],
     [32676, 20687], [29616, 23454, 20027, 20041], lit ''novel'', lit ''fiction'']"

definition fiction_book_request_has_genre_evidence :: "rstr \<Rightarrow> bool" where
  "fiction_book_request_has_genre_evidence request \<longleftrightarrow>
     intake_contains_any request book_request_markers \<and> intake_contains_any request genre_markers"

definition creation_artifact_profile :: "rstr \<Rightarrow> artifact_profile option" where
  "creation_artifact_profile request =
     (case find (\<lambda>p. intake_contains_any request (ap_surfaces p)) PROFILES of
        Some p \<Rightarrow> Some p
      | None \<Rightarrow> if fiction_book_request_has_genre_evidence request
                then find (\<lambda>p. ap_kind p = lit ''fiction'') PROFILES else None)"

definition adult_age_confirmation_present :: "rstr \<Rightarrow> bool" where
  "adult_age_confirmation_present request = intake_contains_any request ADULT_AGE_CONFIRMATION_SURFACES"

definition creation_request_needs_adult_age_confirmation :: "rstr \<Rightarrow> bool" where
  "creation_request_needs_adult_age_confirmation r =
     (let request = trim r
      in if request = [] \<or> adult_age_confirmation_present request then False
         else intake_contains_any request ADULT_CREATION_SURFACES \<or> intake_contains_any request GRAPHIC_VIOLENCE_SURFACES)"

section \<open>Slots and prompts\<close>

definition creation_slot_count :: "rstr \<Rightarrow> rstr \<Rightarrow> nat" where
  "creation_slot_count request kind =
     (if has_concrete_topic_or_modifier request kind then 1 else 0)
     + (if intake_contains_any request SCALE_SURFACES \<or> contains_digit request then 1 else 0)
     + (if intake_contains_any request FORMAT_SURFACES then 1 else 0)
     + (if intake_contains_any request AUDIENCE_SURFACES then 1 else 0)
     + (if intake_contains_any request SOURCE_SURFACES then 1 else 0)"

definition missing_slot_labels :: "rstr \<Rightarrow> rstr \<Rightarrow> bool \<Rightarrow> rstr list" where
  "missing_slot_labels request kind chinese =
     (if \<not> has_concrete_topic_or_modifier request kind
      then [label chinese ([20027, 39064] @ lit ''/'' @ [39064, 26448]) (lit ''topic or premise'')] else [])
     @ (if \<not> intake_contains_any request SCALE_SURFACES \<and> \<not> contains_digit request
      then [label chinese ([35268, 27169] @ lit ''/'' @ [33539, 22260]) (lit ''scope or length'')] else [])
     @ (if kind \<noteq> lit ''fiction'' \<and> \<not> intake_contains_any request FORMAT_SURFACES
      then [label chinese ([36755, 20986, 26684, 24335]) (lit ''output format'')] else [])"

definition render_creation_intake_prompt :: "artifact_profile \<Rightarrow> rstr list \<Rightarrow> bool \<Rightarrow> rstr" where
  "render_creation_intake_prompt profile missing_slots chinese =
     (let missing = (if missing_slots = [] then (if chinese then [20851, 38190, 20449, 24687] else lit ''key details'')
            else join (if chinese then [12289] else lit '', '') missing_slots);
          questions = join [10] (map (\<lambda>q. lit ''- '' @ q) (if chinese then ap_questions_zh profile else ap_questions_en profile))
      in if chinese
         then (if ap_kind profile = lit ''fiction''
           then [21487, 20197, 12290, 20320, 24819, 20889, 20160, 20040, 39064, 26448, 30340, 23567, 35828, 65311, 27599, 31456, 23383, 25968, 35831, 36873, 25321] @
          lit '' 2500 '' @ [25110] @ lit '' 5000'' @
          [12290, 24635, 23383, 25968, 21487, 20197, 21578, 35785, 25105, 65292, 27604, 22914] @ lit '' 5'' @
          [19975, 12289] @ lit ''10'' @ [19975, 12289] @ lit ''50'' @
          [19975, 65307, 22914, 26524, 19981, 24819, 23450, 65292, 20063, 21487, 20197, 35828, 8220, 20320, 26469, 23450, 8221, 12290, 10, 10, 24403, 21069, 36824, 32570, 65306] @
          missing @ [12290, 10, 10, 20320, 21487, 20197, 36825, 26679, 22238, 31572, 65306, 10] @ questions
           else [21487, 20197, 12290, 20320, 21482, 35201, 32487, 32493, 29992, 33258, 28982, 35821, 35328, 34917, 19968, 21477, 26041, 21521, 23601, 34892, 65292, 25105, 20250, 33258, 21160, 34917, 40784, 21019, 20316, 21512, 21516, 65292, 19981, 38656, 35201, 20320, 22635, 20889, 31995, 32479, 23383, 27573, 12290, 10, 10, 24403, 21069, 26368, 22909, 20877, 35828, 26126, 65306] @
          missing @ [12290, 10, 10, 20320, 21487, 20197, 20219, 36873, 19968, 31181, 35828, 27861, 65306, 10] @
          questions @ [10] @ lit ''- '' @
          [25110, 32773, 30452, 25509, 35828, 8220, 20320, 26469, 23450, 8221, 65292, 25105, 20250, 33258, 34892, 29983, 25104, 20027, 39064, 12289, 32467, 26500, 21644, 20889, 20316, 21442, 25968, 12290])
         else lit ''Yes. Add one natural-language direction and I will fill the creation contract automatically; you do not need to fill system fields.'' @
          [10, 10] @ lit ''It would help to clarify: '' @ missing @ lit ''.'' @ [10, 10] @
          lit ''You can answer in any of these ways:'' @ [10] @ questions @ [10] @ lit ''- Or just say '' @ [34] @
          lit ''you decide'' @ [34] @
          lit '' and I will generate the premise, outline, ending, and writing parameters.'')"

definition render_adult_age_confirmation_prompt :: "bool \<Rightarrow> rstr" where
  "render_adult_age_confirmation_prompt chinese =
     (if chinese
      then [36825, 31867, 21019, 20316, 21487, 33021, 21253, 21547, 25104, 20154, 21521, 12289, 24378, 28872, 26292, 21147, 25110, 34880, 33125, 20869, 23481, 12290, 24320, 22987, 29983, 25104, 21512, 21516, 25110, 27491, 25991, 21069, 65292, 35831, 20808, 30830, 35748, 20320, 24050, 24180, 28385, 21313, 20843, 21608, 23681, 12290, 10, 10, 35831, 29992, 33258, 28982, 35821, 35328, 22238, 22797, 30830, 35748, 65292, 20363, 22914, 65306, 8220, 25105, 24050, 24180, 28385, 21313, 20843, 21608, 23681, 65292, 32487, 32493, 25353, 36825, 20010, 26041, 21521, 20889, 12290, 8221, 30830, 35748, 21069, 25105, 19981, 20250, 24320, 22987, 29983, 25104, 36825, 31867, 20869, 23481, 12290]
      else lit ''This request may involve adult, explicit, graphic, or violent content. Before I generate a contract or prose for it, please confirm that you are at least 18 years old.'' @
        [10, 10] @ lit ''You can reply naturally, for example: '' @ [34] @
        lit ''I am over 18; continue with this direction.'' @ [34] @
        lit '' I will not start generating this content before that confirmation.'')"

section \<open>The decision\<close>

definition clarify :: "artifact_profile \<Rightarrow> rstr list \<Rightarrow> rstr \<Rightarrow> creation_intake_decision" where
  "clarify profile missing_slots prompt = \<lparr>ci_action = Clarify, ci_artifact_kind = Some (ap_kind profile),
     ci_missing_slots = missing_slots, ci_prompt = Some prompt\<rparr>"

text \<open>The three identical ends of the function that ask for details.\<close>
definition ask_for_details :: "rstr \<Rightarrow> artifact_profile \<Rightarrow> creation_intake_decision" where
  "ask_for_details request profile =
     (let chinese = has_cjk request; missing_slots = missing_slot_labels request (ap_kind profile) chinese
      in clarify profile missing_slots (render_creation_intake_prompt profile missing_slots chinese))"

definition evaluate_creation_intake :: "rstr \<Rightarrow> creation_intake_decision" where
  "evaluate_creation_intake r =
     (let request = trim r in
      if request = [] then proceed
      else case creation_artifact_profile request of None \<Rightarrow> proceed
      | Some profile \<Rightarrow>
        if creation_request_needs_adult_age_confirmation request
        then (let chinese = has_cjk request
              in clarify profile [label chinese ([24180, 40836, 30830, 35748]) (lit ''adult age confirmation'')] (render_adult_age_confirmation_prompt chinese))
        else if intake_contains_any request PLANNING_DIALOGUE_SURFACES
        then (if intake_contains_any request AUTONOMY_SURFACES \<or> creation_slot_count request (ap_kind profile) \<ge> ap_minimum_slots profile
              then proceed else ask_for_details request profile)
        else if \<not> intake_contains_any request CREATION_VERBS then proceed
        else if intake_contains_any request AUTONOMY_SURFACES then proceed
        else if \<not> has_concrete_topic_or_modifier request (ap_kind profile) then ask_for_details request profile
        else if creation_slot_count request (ap_kind profile) \<ge> ap_minimum_slots profile then proceed
        else ask_for_details request profile)"

definition detect_creation_artifact_kind :: "rstr \<Rightarrow> rstr option" where
  "detect_creation_artifact_kind r =
     (let request = trim r in
      if request = [] \<or> \<not> intake_contains_any request CREATION_VERBS then None
      else map_option ap_kind (creation_artifact_profile request))"

section \<open>The language contract\<close>

record language_contract =
  lc_response_language :: rstr
  lc_artifact_language :: rstr
  lc_source :: rstr

datatype script = Cjk | Kana | Hangul | Cyrillic | Arabic | Latin

definition script_of :: "rchar \<Rightarrow> script option" where
  "script_of c =
     (if 0x4e00 \<le> c \<and> c \<le> 0x9fff \<or> 0x3400 \<le> c \<and> c \<le> 0x4dbf then Some Cjk
      else if 0x3040 \<le> c \<and> c \<le> 0x30ff then Some Kana
      else if 0xac00 \<le> c \<and> c \<le> 0xd7af then Some Hangul
      else if 0x0400 \<le> c \<and> c \<le> 0x04ff then Some Cyrillic
      else if 0x0600 \<le> c \<and> c \<le> 0x06ff then Some Arabic
      else if 65 \<le> c \<and> c \<le> 90 \<or> 97 \<le> c \<and> c \<le> 122 then Some Latin
      else None)"

definition script_count :: "script \<Rightarrow> rstr \<Rightarrow> nat" where
  "script_count s v = length (filter (\<lambda>c. script_of c = Some s) v)"

definition detect_primary_language :: "rstr \<Rightarrow> rstr" where
  "detect_primary_language v =
     (let cjk = script_count Cjk v; kana = script_count Kana v; hangul = script_count Hangul v;
          cyrillic = script_count Cyrillic v; arabic = script_count Arabic v; latin = script_count Latin v
      in if cjk \<ge> max (max (max kana hangul) cyrillic) arabic \<and> cjk > 0 then lit ''zh-CN''
         else if kana > 0 then lit ''ja''
         else if hangul > 0 then lit ''ko''
         else if cyrillic > 0 then lit ''ru''
         else if arabic > 0 then lit ''ar''
         else if latin > 0 then lit ''en''
         else lit ''same_as_user'')"

definition resolve_language_contract :: "rstr \<Rightarrow> language_contract" where
  "resolve_language_contract v =
     (let response_language = detect_primary_language v
      in \<lparr>lc_response_language = response_language, lc_artifact_language = response_language,
          lc_source = lit ''latest_user_message''\<rparr>)"

definition system_prompt :: "language_contract \<Rightarrow> rstr" where
  "system_prompt c =
     (if lc_response_language c = lit ''same_as_user''
      then lit ''### LANGUAGE CONTRACT'' @ [10] @ lit ''Respond in the same natural language as the user'' @ [39] @
        lit ''s latest request unless the user explicitly asks for a different language. Apply the same rule to titles, names, summaries, progress updates, and generated artifact body text. Tool names and required JSON/schema keys may remain in their required technical language, but user-facing content must not drift languages.''
      else lit ''### LANGUAGE CONTRACT'' @ [10] @ lit ''Detected user language: '' @ lc_response_language c @
        lit ''.'' @ [10] @ lit ''Respond to the user in '' @ lc_response_language c @
        lit '' unless the user explicitly asks for a different language. Apply '' @ lc_response_language c @
        lit '' to titles, names, summaries, progress updates, and generated artifact body text. Tool names and required JSON/schema keys may remain in their required technical language, but user-facing content must not drift languages.'')"

definition delegate_suffix :: "language_contract \<Rightarrow> rstr" where
  "delegate_suffix c =
     (if lc_response_language c = lit ''same_as_user''
      then lit '' Language contract: preserve the user'' @ [39] @
        lit ''s natural language for all user-facing responses, artifact titles, summaries, names, and body text unless the user explicitly requested another language; schema/tool keys may remain technical.''
      else lit '' Language contract: user-facing responses, artifact titles, summaries, names, and body text must use '' @
        lc_response_language c @
        lit ''; schema/tool keys may remain technical unless the user requested another language.'')"

section \<open>Facts about the tables\<close>

lemma profile_of_table: "creation_artifact_profile request = Some p \<Longrightarrow> p \<in> set PROFILES"
  by (auto simp: creation_artifact_profile_def find_Some_iff simp del: lit_Cons split: option.splits if_splits)

lemma one_slot_is_enough: "p \<in> set PROFILES \<Longrightarrow> ap_minimum_slots p = 1"
  by (auto simp: PROFILES_def fiction_profile_def paper_profile_def report_profile_def simp del: lit_Cons)

lemma topic_is_a_slot: "has_concrete_topic_or_modifier request kind \<Longrightarrow> 1 \<le> creation_slot_count request kind"
  by (simp add: creation_slot_count_def)

lemma needs_age_trim [simp]:
  "creation_request_needs_adult_age_confirmation (trim r) = creation_request_needs_adult_age_confirmation r"
  by (simp add: creation_request_needs_adult_age_confirmation_def)

text \<open>The question that is asked, for a request with an artifact.\<close>
lemma evaluate_cases:
  assumes "trim r \<noteq> []" and "creation_artifact_profile (trim r) = Some p"
  shows "evaluate_creation_intake r =
    (if creation_request_needs_adult_age_confirmation r
     then clarify p [label (has_cjk (trim r)) [24180, 40836, 30830, 35748] (lit ''adult age confirmation'')]
            (render_adult_age_confirmation_prompt (has_cjk (trim r)))
     else if intake_contains_any (trim r) PLANNING_DIALOGUE_SURFACES \<and> \<not> intake_contains_any (trim r) AUTONOMY_SURFACES
               \<and> creation_slot_count (trim r) (ap_kind p) = 0
           \<or> \<not> intake_contains_any (trim r) PLANNING_DIALOGUE_SURFACES \<and> intake_contains_any (trim r) CREATION_VERBS
               \<and> \<not> intake_contains_any (trim r) AUTONOMY_SURFACES
               \<and> \<not> has_concrete_topic_or_modifier (trim r) (ap_kind p)
     then ask_for_details (trim r) p else proceed)"
proof -
  have one: "ap_minimum_slots p = 1" by (rule one_slot_is_enough [OF profile_of_table [OF assms(2)]])
  have slots: "creation_slot_count q k \<ge> 1 \<longleftrightarrow> creation_slot_count q k \<noteq> 0" for q k by auto
  have topic: "has_concrete_topic_or_modifier (trim r) (ap_kind p) \<Longrightarrow> creation_slot_count (trim r) (ap_kind p) \<noteq> 0"
    using topic_is_a_slot [of "trim r" "ap_kind p"] by simp
  show ?thesis
    unfolding evaluate_creation_intake_def Let_def assms(2) option.case one slots needs_age_trim using assms(1) topic
    by (simp del: lit_Cons)
qed

lemma decision_simps [simp]:
  "\<not> should_clarify proceed" "should_clarify (clarify p ms t)" "should_clarify (ask_for_details r p)"
  by (simp_all add: should_clarify_def proceed_def clarify_def ask_for_details_def Let_def)

lemma intake_contains_mono: "contains v term \<Longrightarrow> term \<in> set terms \<Longrightarrow> intake_contains_any v terms"
  by (auto simp: intake_contains_any_def list_ex_iff)

section \<open>Properties\<close>

text \<open>
  When the intake asks. A request is answered with a question exactly when it names an
  artifact and either needs the age confirmation, or plans by dialogue without leaving the
  choice to the system and without a single filled slot, or asks to create something without
  leaving the choice and without a concrete topic. A question always comes with a prompt and
  the kind of artifact; the last branch of the function, for a topic without enough slots, is
  never taken.
\<close>
theorem clarify_iff:
  "(should_clarify (evaluate_creation_intake r) \<longleftrightarrow>
      (\<exists>p. trim r \<noteq> [] \<and> creation_artifact_profile (trim r) = Some p
         \<and> (creation_request_needs_adult_age_confirmation r
            \<or> intake_contains_any (trim r) PLANNING_DIALOGUE_SURFACES \<and> \<not> intake_contains_any (trim r) AUTONOMY_SURFACES
                \<and> creation_slot_count (trim r) (ap_kind p) = 0
            \<or> \<not> intake_contains_any (trim r) PLANNING_DIALOGUE_SURFACES \<and> intake_contains_any (trim r) CREATION_VERBS
                \<and> \<not> intake_contains_any (trim r) AUTONOMY_SURFACES
                \<and> \<not> has_concrete_topic_or_modifier (trim r) (ap_kind p))))
   \<and> (if should_clarify (evaluate_creation_intake r)
      then ci_prompt (evaluate_creation_intake r) \<noteq> None
        \<and> ci_artifact_kind (evaluate_creation_intake r) = map_option ap_kind (creation_artifact_profile (trim r))
      else evaluate_creation_intake r = proceed)"
proof (cases "trim r = [] \<or> creation_artifact_profile (trim r) = None")
  case True
  then have "evaluate_creation_intake r = proceed" by (auto simp: evaluate_creation_intake_def Let_def)
  with True show ?thesis by auto
next
  case False
  then obtain p where p: "trim r \<noteq> []" "creation_artifact_profile (trim r) = Some p" by auto
  have fields: "ci_prompt (clarify p ms t) \<noteq> None" "ci_artifact_kind (clarify p ms t) = Some (ap_kind p)" for ms t
    by (simp_all add: clarify_def)
  have ask: "\<exists>ms t. ask_for_details (trim r) p = clarify p ms t" unfolding ask_for_details_def Let_def by blast
  then obtain ms t where ask: "ask_for_details (trim r) p = clarify p ms t" by blast
  show ?thesis
    unfolding evaluate_cases [OF p] ask using p fields by (simp del: lit_Cons)
qed

text \<open>
  The age gate. A request for an artifact with adult or graphic content is passed on only
  when it carries one of the confirmation phrases; otherwise the answer is the request for the
  confirmation of age, whatever else the request says.
\<close>
theorem age_gate:
  assumes "creation_artifact_profile (trim r) = Some p"
    and "intake_contains_any (trim r) ADULT_CREATION_SURFACES \<or> intake_contains_any (trim r) GRAPHIC_VIOLENCE_SURFACES"
    and "\<not> intake_contains_any (trim r) ADULT_AGE_CONFIRMATION_SURFACES" and "trim r \<noteq> []"
  shows "evaluate_creation_intake r =
    \<lparr>ci_action = Clarify, ci_artifact_kind = Some (ap_kind p),
     ci_missing_slots = [label (has_cjk (trim r)) [24180, 40836, 30830, 35748] (lit ''adult age confirmation'')],
     ci_prompt = Some (render_adult_age_confirmation_prompt (has_cjk (trim r)))\<rparr>"
proof -
  have "creation_request_needs_adult_age_confirmation r"
    using assms by (simp add: creation_request_needs_adult_age_confirmation_def adult_age_confirmation_present_def)
  then show ?thesis unfolding evaluate_cases [OF assms(4,1)] by (simp add: clarify_def del: lit_Cons)
qed

theorem age_gate_witness:
  "ci_action (evaluate_creation_intake [33394, 24773, 23567, 35828]) = Clarify"
proof -
  let ?r = "[33394, 24773, 23567, 35828] :: rstr"
  have t: "trim ?r = ?r" by (simp add: trim_def trim_start_def trim_end_def is_ws_def)
  have "creation_artifact_profile (trim ?r) = Some fiction_profile"
    by (simp add: t creation_artifact_profile_def PROFILES_def fiction_profile_def intake_contains_any_def starts_with_def)
  moreover have "intake_contains_any (trim ?r) ADULT_CREATION_SURFACES"
    by (simp add: t intake_contains_any_def ADULT_CREATION_SURFACES_def starts_with_def)
  moreover have "\<not> intake_contains_any (trim ?r) ADULT_AGE_CONFIRMATION_SURFACES"
    by (simp add: t intake_contains_any_def ADULT_AGE_CONFIRMATION_SURFACES_def starts_with_def to_ascii_lowercase_def)
  ultimately have "evaluate_creation_intake ?r =
    \<lparr>ci_action = Clarify, ci_artifact_kind = Some (ap_kind fiction_profile),
     ci_missing_slots = [label (has_cjk (trim ?r)) [24180, 40836, 30830, 35748] (lit ''adult age confirmation'')],
     ci_prompt = Some (render_adult_age_confirmation_prompt (has_cjk (trim ?r)))\<rparr>"
    by (intro age_gate) (simp_all add: t del: lit_Cons)
  then show ?thesis by simp
qed

text \<open>
  A minor who says so passes the gate: the phrase for a minor contains the phrase for an adult,
  which counts as a confirmation.
\<close>
theorem minors_pass_the_age_gate:
  "\<not> creation_request_needs_adult_age_confirmation (pre @ [26410, 25104, 24180, 20154] @ post)"
proof -
  let ?t = "trim (pre @ [26410, 25104, 24180, 20154] @ post)"
  obtain u v where "?t = u @ [26410, 25104, 24180, 20154] @ v"
    using trim_keeps [of "[26410, 25104, 24180, 20154]" pre post] by (auto simp: is_ws_def)
  then have "?t = (u @ [26410]) @ [25104, 24180, 20154] @ v" by simp
  then have "contains ?t [25104, 24180, 20154]" unfolding contains_iff by blast
  moreover have "[25104, 24180, 20154] \<in> set ADULT_AGE_CONFIRMATION_SURFACES" by (simp add: ADULT_AGE_CONFIRMATION_SURFACES_def)
  ultimately have "adult_age_confirmation_present ?t"
    unfolding adult_age_confirmation_present_def by (rule intake_contains_mono)
  then show ?thesis by (simp add: creation_request_needs_adult_age_confirmation_def)
qed

text \<open>
  The language of the answer. It is Chinese exactly when Chinese characters are present and
  at least as many as those of each other non-Latin script; otherwise the first script present
  in the order Japanese, Korean, Russian, Arabic decides, English only when nothing else is
  there, and text without letters of these scripts leaves the choice to the user. The artifact
  has the language of the answer.
\<close>
theorem language_of_request:
  "lc_artifact_language (resolve_language_contract v) = lc_response_language (resolve_language_contract v)
   \<and> (lc_response_language (resolve_language_contract v) = lit ''zh-CN'' \<longleftrightarrow> script_count Cjk v > 0
        \<and> script_count Kana v \<le> script_count Cjk v \<and> script_count Hangul v \<le> script_count Cjk v
        \<and> script_count Cyrillic v \<le> script_count Cjk v \<and> script_count Arabic v \<le> script_count Cjk v)
   \<and> (lc_response_language (resolve_language_contract v) = lit ''en'' \<longleftrightarrow>
        script_of ` set v \<subseteq> {None, Some Latin} \<and> Some Latin \<in> script_of ` set v)
   \<and> (lc_response_language (resolve_language_contract v) = lit ''same_as_user'' \<longleftrightarrow> script_of ` set v \<subseteq> {None})"
proof -
  let ?A = "script_of ` set v"
  have pos: "script_count s v > 0 \<longleftrightarrow> Some s \<in> ?A" for s
    by (force simp: script_count_def filter_empty_conv image_iff)
  have sub: "B \<subseteq> {None, Some Latin} \<longleftrightarrow> (\<forall>s. Some s \<in> B \<longrightarrow> s = Latin)" "B \<subseteq> {None} \<longleftrightarrow> (\<forall>s. Some s \<notin> B)"
    for B :: "script option set"
  proof -
    show "B \<subseteq> {None, Some Latin} \<longleftrightarrow> (\<forall>s. Some s \<in> B \<longrightarrow> s = Latin)"
    proof
      assume "\<forall>s. Some s \<in> B \<longrightarrow> s = Latin"
      then have "x \<in> {None, Some Latin}" if "x \<in> B" for x using that by (cases x) auto
      then show "B \<subseteq> {None, Some Latin}" by blast
    qed auto
    show "B \<subseteq> {None} \<longleftrightarrow> (\<forall>s. Some s \<notin> B)"
    proof
      assume "\<forall>s. Some s \<notin> B"
      then have "x = None" if "x \<in> B" for x using that by (cases x) auto
      then show "B \<subseteq> {None}" by blast
    qed auto
  qed
  have all: "(\<forall>s. Q s) \<longleftrightarrow> Q Cjk \<and> Q Kana \<and> Q Hangul \<and> Q Cyrillic \<and> Q Arabic \<and> Q Latin" for Q
    by (metis script.exhaust)
  have lang: "lc_response_language (resolve_language_contract v) = detect_primary_language v"
    "lc_artifact_language (resolve_language_contract v) = detect_primary_language v"
    by (simp_all add: resolve_language_contract_def Let_def del: lit_Cons)
  show ?thesis
    unfolding lang sub all pos [symmetric] by (auto simp: detect_primary_language_def Let_def)
qed

end
