(* ===== verification/Chunker.thy ===== *)
theory Chunker
  imports Prelude
begin

text \<open>
  The splitting of documents into overlapping chunks (\<^verbatim>\<open>engram/src/chunker.rs\<close>). Offsets count
  characters; positions stay far below the size of \<^verbatim>\<open>usize\<close>, so they are natural numbers.
\<close>

section \<open>Definitions\<close>

record chunker_config =
  ck_chunk_size :: nat
  ck_chunk_overlap :: nat
  ck_min_chunk_size :: nat
  ck_max_lookback :: nat

definition default_chunker_config :: chunker_config where
  "default_chunker_config = \<lparr>ck_chunk_size = 512, ck_chunk_overlap = 64, ck_min_chunk_size = 50, ck_max_lookback = 100\<rparr>"

record chunk =
  ch_text :: rstr
  ch_start_offset :: nat
  ch_end_offset :: nat
  ch_sequence :: nat
  ch_is_natural :: bool

definition smart_trim :: "chunk \<Rightarrow> chunk" where
  "smart_trim c =
     (let original = ch_text c; trimmed = trim_start original;
          lead_spaces = length original - length trimmed;
          c1 = (if lead_spaces > 0 then c\<lparr>ch_start_offset := ch_start_offset c + lead_spaces\<rparr> else c);
          final_trimmed = trim_end trimmed;
          tail_spaces = length trimmed - length final_trimmed;
          c2 = (if tail_spaces > 0 then c1\<lparr>ch_end_offset := ch_end_offset c1 - tail_spaces\<rparr> else c1)
      in c2\<lparr>ch_text := final_trimmed\<rparr>)"

definition chunk_len :: "chunk \<Rightarrow> nat" where
  "chunk_len c = length (ch_text c)"

record chunk_stats =
  cst_total_chunks :: nat
  cst_avg_size :: rat
  cst_natural_splits :: nat

definition boundaries :: "rchar set" where
  "boundaries = {12290, 65281, 65311, 65307, 65306, 8230, 46, 33, 63, 10}"

text \<open>The end of the window that starts at \<open>start\<close>, and whether it is a natural boundary.\<close>
definition window_end :: "chunker_config \<Rightarrow> rstr \<Rightarrow> nat \<Rightarrow> nat \<times> bool" where
  "window_end cfg chars start =
     (let fin = min (start + ck_chunk_size cfg) (length chars)
      in if fin < length chars
         then (let lookback_limit = max (fin - ck_max_lookback cfg) start
               in case find (\<lambda>i. chars ! i \<in> boundaries) (rev [lookback_limit..<fin]) of
                    Some i \<Rightarrow> (i + 1, True)
                  | None \<Rightarrow> (fin, False))
         else (fin, True))"

definition window_chunk :: "rstr \<Rightarrow> nat \<Rightarrow> nat \<Rightarrow> bool \<Rightarrow> nat \<Rightarrow> chunk" where
  "window_chunk chars start fin natural sequence = smart_trim \<lparr>ch_text = take (fin - start) (drop start chars),
     ch_start_offset = start, ch_end_offset = fin, ch_sequence = sequence, ch_is_natural = natural\<rparr>"

definition keep_chunk :: "chunker_config \<Rightarrow> rstr \<Rightarrow> nat \<Rightarrow> chunk \<Rightarrow> bool" where
  "keep_chunk cfg chars fin c \<longleftrightarrow> chunk_len c \<ge> ck_min_chunk_size cfg \<or> fin = length chars \<and> ch_text c \<noteq> []"

definition next_start :: "chunker_config \<Rightarrow> rstr \<Rightarrow> nat \<Rightarrow> nat \<Rightarrow> nat" where
  "next_start cfg chars start fin =
     (let next = (if fin \<ge> length chars then length chars else max (fin - ck_chunk_overlap cfg) (start + 1))
      in if next \<le> start \<and> fin < length chars then fin else next)"

text \<open>The loop; the second result counts the natural splits.\<close>
function chunk_loop :: "chunker_config \<Rightarrow> rstr \<Rightarrow> nat \<Rightarrow> nat \<Rightarrow> chunk list \<times> nat" where
  "chunk_loop cfg chars start sequence =
     (if start < length chars
      then (let fin = fst (window_end cfg chars start); natural = snd (window_end cfg chars start);
                c = window_chunk chars start fin natural sequence; keep = keep_chunk cfg chars fin c;
                rest = chunk_loop cfg chars (next_start cfg chars start fin) (if keep then sequence + 1 else sequence)
            in if keep then (c # fst rest, snd rest + (if natural then 1 else 0)) else rest)
      else ([], 0))"
  by pat_completeness auto
termination
  by (relation "measure (\<lambda>(cfg, chars, start, sequence). length chars - start)") (auto simp: next_start_def Let_def)

declare chunk_loop.simps [simp del]

definition chunk_text :: "chunker_config \<Rightarrow> rstr \<Rightarrow> chunk list \<times> chunk_stats" where
  "chunk_text cfg chars =
     (if chars = [] then ([], \<lparr>cst_total_chunks = 0, cst_avg_size = 0, cst_natural_splits = 0\<rparr>)
      else let (chunks, natural_splits) = chunk_loop cfg chars 0 0; total_chunks = length chunks
        in (chunks, \<lparr>cst_total_chunks = total_chunks,
              cst_avg_size = (if total_chunks > 0
                 then f64_round (f64_round (of_nat (sum_list (map chunk_len chunks))) / f64_round (of_nat total_chunks)) else 0),
              cst_natural_splits = natural_splits\<rparr>))"

section \<open>Slices\<close>

definition slice :: "'a list \<Rightarrow> nat \<Rightarrow> nat \<Rightarrow> 'a list" where
  "slice xs a b = take (b - a) (drop a xs)"

definition lead :: "rstr \<Rightarrow> nat" where
  "lead s = length s - length (trim_start s)"

definition tail :: "rstr \<Rightarrow> nat" where
  "tail s = length (trim_start s) - length (trim s)"

lemma lead_eq: "lead s = length (takeWhile is_ws s)"
proof -
  have "length s = length (takeWhile is_ws s) + length (dropWhile is_ws s)"
    by (metis length_append takeWhile_dropWhile_id)
  then show ?thesis by (simp add: lead_def trim_start_def)
qed

lemma trim_start_drop: "trim_start s = drop (lead s) s"
  by (simp add: trim_start_def lead_eq dropWhile_eq_drop)

lemma trim_end_take: "trim_end s = take (length s - length (takeWhile is_ws (rev s))) s"
  by (simp add: trim_end_def dropWhile_eq_drop rev_drop)

lemma tail_eq: "tail s = length (takeWhile is_ws (rev (trim_start s)))"
proof -
  have "length (takeWhile is_ws (rev (trim_start s))) \<le> length (trim_start s)"
    using length_takeWhile_le [of is_ws "rev (trim_start s)"] by simp
  then show ?thesis by (simp add: tail_def trim_def trim_end_take)
qed

lemma trim_slice: "trim s = slice s (lead s) (length s - tail s)"
proof -
  have "trim s = take (length (trim_start s) - tail s) (trim_start s)" by (simp add: trim_def trim_end_take tail_eq)
  also have "length (trim_start s) - tail s = length s - tail s - lead s" by (simp add: trim_start_drop)
  finally show ?thesis by (simp add: slice_def trim_start_drop [of s, symmetric])
qed

lemma lead_tail: "lead s + tail s \<le> length s" "trim s \<noteq> [] \<Longrightarrow> lead s + tail s < length s"
proof -
  have "length (trim s) = length s - tail s - lead s"
    using length_takeWhile_le [of is_ws "rev (trim_start s)"] by (simp add: trim_slice slice_def tail_eq trim_start_drop)
  then show "trim s \<noteq> [] \<Longrightarrow> lead s + tail s < length s" by (cases "trim s") auto
  have "tail s \<le> length (trim_start s)" by (simp add: tail_def)
  moreover have "lead s \<le> length s" by (simp add: lead_def)
  ultimately show "lead s + tail s \<le> length s" by (simp add: trim_start_drop)
qed

text \<open>Every character that is not whitespace is between the cut positions.\<close>
lemma inside_trim:
  assumes "i < length s" and "\<not> is_ws (s ! i)"
  shows "lead s \<le> i \<and> i < length s - tail s"
proof
  show lead: "lead s \<le> i"
    using assms by (metis lead_eq leI nth_mem set_takeWhileD takeWhile_nth)
  define r where "r = rev (trim_start s)"
  have len: "length r = length s - lead s" by (simp add: r_def trim_start_drop)
  have nth: "r ! (length s - Suc i) = s ! i"
    using assms(1) lead by (simp add: r_def trim_start_drop rev_nth)
  have "length (takeWhile is_ws r) \<le> length s - Suc i"
    using assms nth by (metis leI nth_mem set_takeWhileD takeWhile_nth)
  then show "i < length s - tail s" using assms(1) by (simp add: tail_eq r_def [symmetric])
qed

section \<open>Chunks of a window\<close>

lemma smart_trim_fields:
  "ch_text (smart_trim c) = trim (ch_text c)" "ch_start_offset (smart_trim c) = ch_start_offset c + lead (ch_text c)"
  "ch_end_offset (smart_trim c) = ch_end_offset c - tail (ch_text c)"
  "ch_sequence (smart_trim c) = ch_sequence c" "ch_is_natural (smart_trim c) = ch_is_natural c"
  by (simp_all add: smart_trim_def Let_def lead_def tail_def trim_def)

lemma slice_slice: "b \<le> length (slice xs m n) \<Longrightarrow> slice (slice xs m n) a b = slice xs (m + a) (m + b)"
proof -
  assume "b \<le> length (slice xs m n)"
  then have "b - a \<le> n - (m + a)" by (auto simp: slice_def)
  then show ?thesis by (simp add: slice_def drop_take min_absorb1 ac_simps)
qed

lemma window_end_bounds:
  assumes "start < length chars" and "window_end cfg chars start = (fin, natural)"
  shows "start \<le> fin \<and> fin \<le> length chars \<and> fin \<le> start + ck_chunk_size cfg \<and> (0 < ck_chunk_size cfg \<longrightarrow> start < fin)"
proof (cases "start + ck_chunk_size cfg < length chars")
  case True
  define limit where "limit = max (start + ck_chunk_size cfg - ck_max_lookback cfg) start"
  show ?thesis
  proof (cases "find (\<lambda>i. chars ! i \<in> boundaries) (rev [limit..<start + ck_chunk_size cfg])")
    case None
    with True assms show ?thesis by (auto simp: window_end_def Let_def limit_def)
  next
    case (Some i)
    then have "i \<in> set (rev [limit..<start + ck_chunk_size cfg])" by (metis find_Some_iff nth_mem)
    then have "start \<le> i" "i < start + ck_chunk_size cfg" by (auto simp: limit_def)
    with Some True assms show ?thesis by (auto simp: window_end_def Let_def limit_def)
  qed
qed (use assms in \<open>auto simp: window_end_def Let_def\<close>)

lemma window_chunk_fields:
  fixes natural :: bool and sequence :: nat
  assumes "start \<le> fin" and "fin \<le> length chars"
  defines "w \<equiv> slice chars start fin" and "c \<equiv> window_chunk chars start fin natural sequence"
  shows "ch_text c = trim w" "ch_start_offset c = start + lead w" "ch_end_offset c = fin - tail w"
    "ch_sequence c = sequence" "ch_is_natural c = natural"
    "ch_text c = slice chars (ch_start_offset c) (ch_end_offset c)" "ch_start_offset c \<le> ch_end_offset c"
proof -
  have w: "take (fin - start) (drop start chars) = w" by (simp add: w_def slice_def)
  have len: "length w = fin - start" using assms(1,2) by (simp add: w_def slice_def)
  show fields: "ch_text c = trim w" "ch_start_offset c = start + lead w" "ch_end_offset c = fin - tail w"
    "ch_sequence c = sequence" "ch_is_natural c = natural"
    by (simp_all add: c_def window_chunk_def smart_trim_fields w)
  have lt: "lead w + tail w \<le> fin - start" using lead_tail(1) [of w] len by simp
  have "trim w = slice (slice chars start fin) (lead w) (length w - tail w)" by (simp add: trim_slice w_def)
  also have "\<dots> = slice chars (start + lead w) (start + (length w - tail w))"
    by (rule slice_slice) (simp add: w_def [symmetric])
  also have "start + (length w - tail w) = fin - tail w" using len lt assms(1) by simp
  finally show "ch_text c = slice chars (ch_start_offset c) (ch_end_offset c)" by (simp add: fields)
  show "ch_start_offset c \<le> ch_end_offset c" using fields lt assms(1) by simp
qed

definition well_placed :: "chunker_config \<Rightarrow> rstr \<Rightarrow> chunk \<Rightarrow> bool" where
  "well_placed cfg chars c \<longleftrightarrow> ch_start_offset c \<le> ch_end_offset c \<and> ch_end_offset c \<le> length chars
     \<and> ch_text c = take (ch_end_offset c - ch_start_offset c) (drop (ch_start_offset c) chars)
     \<and> trimmed (ch_text c) \<and> length (ch_text c) \<le> ck_chunk_size cfg"

lemma window_well_placed:
  assumes "start < length chars" and "window_end cfg chars start = (fin, natural)"
  shows "well_placed cfg chars (window_chunk chars start fin natural sequence)"
proof -
  note b = window_end_bounds [OF assms]
  from b have bounds: "start \<le> fin" "fin \<le> length chars" by simp_all
  note f = window_chunk_fields [OF bounds]
  have "length (slice chars start fin) \<le> ck_chunk_size cfg" using b by (auto simp: slice_def)
  moreover have "length (trim (slice chars start fin)) \<le> length (slice chars start fin)"
    by (rule length_trim)
  ultimately have "length (ch_text (window_chunk chars start fin natural sequence)) \<le> ck_chunk_size cfg" by (simp add: f(1))
  moreover have "trimmed (ch_text (window_chunk chars start fin natural sequence))" by (simp add: f(1))
  moreover have "ch_end_offset (window_chunk chars start fin natural sequence) \<le> length chars" using bounds f(3) by simp
  ultimately show ?thesis
    unfolding well_placed_def using f(6,7) unfolding slice_def by simp
qed

lemma chunk_loop_placed: "\<forall>c \<in> set (fst (chunk_loop cfg chars start sequence)). well_placed cfg chars c"
proof (induction cfg chars start sequence rule: chunk_loop.induct)
  case (1 cfg chars start sequence)
  show ?case
  proof (cases "start < length chars")
    case True
    from "1.IH" [OF True refl refl refl refl] window_well_placed [OF True, of cfg "fst (window_end cfg chars start)" "snd (window_end cfg chars start)" sequence]
    show ?thesis by (subst chunk_loop.simps) (auto simp: Let_def)
  qed (simp add: chunk_loop.simps)
qed

lemma chunk_loop_sequence:
  "map ch_sequence (fst (chunk_loop cfg chars start sequence)) = [sequence..<sequence + length (fst (chunk_loop cfg chars start sequence))]
   \<and> snd (chunk_loop cfg chars start sequence) = length (filter ch_is_natural (fst (chunk_loop cfg chars start sequence)))"
proof (induction cfg chars start sequence rule: chunk_loop.induct)
  case (1 cfg chars start sequence)
  show ?case
  proof (cases "start < length chars")
    case True
    have fields: "ch_sequence (window_chunk chars start fin natural sequence) = sequence"
      "ch_is_natural (window_chunk chars start fin natural sequence) = natural" for fin natural
      by (simp_all add: window_chunk_def smart_trim_fields)
    from "1.IH" [OF True refl refl refl refl] True fields show ?thesis
      by (subst (1 2 3 4) chunk_loop.simps) (auto simp: Let_def upt_conv_Cons simp del: upt_Suc)
  qed (simp add: chunk_loop.simps)
qed

lemma chunk_loop_covers:
  assumes "0 < ck_chunk_size cfg" and "ck_min_chunk_size cfg \<le> 1" and "start \<le> i" and "i < length chars" and "\<not> is_ws (chars ! i)"
  shows "\<exists>c \<in> set (fst (chunk_loop cfg chars start sequence)). ch_start_offset c \<le> i \<and> i < ch_end_offset c"
  using assms
proof (induction cfg chars start sequence rule: chunk_loop.induct)
  case (1 cfg chars start sequence)
  have lt: "start < length chars" using 1 by simp
  obtain fin natural where w: "window_end cfg chars start = (fin, natural)" by fastforce
  note b = window_end_bounds [OF lt w]
  let ?c = "window_chunk chars start fin natural sequence"
  note loop = chunk_loop.simps [of cfg chars start sequence]
  show ?case
  proof (cases "i < fin")
    case True
    from b have bounds: "start \<le> fin" "fin \<le> length chars" by simp_all
    note f = window_chunk_fields [OF bounds, of natural sequence]
    let ?w = "slice chars start fin"
    have len: "length ?w = fin - start" using bounds by (simp add: slice_def)
    have "?w ! (i - start) = chars ! i" using True 1 bounds by (simp add: slice_def)
    with 1 True len have inside: "lead ?w \<le> i - start" "i - start < length ?w - tail ?w"
      using inside_trim [of "i - start" ?w] by (simp_all add: less_diff_iff)
    then have here: "ch_start_offset ?c \<le> i" "i < ch_end_offset ?c" using f(2,3) len bounds 1 by auto
    then have "ch_text ?c \<noteq> []" using f(6,7) bounds f(3) by (auto simp: slice_def)
    then have "keep_chunk cfg chars fin ?c" using 1 by (cases "ch_text ?c") (auto simp: keep_chunk_def chunk_len_def)
    then show ?thesis using here lt w loop by (simp add: Let_def)
  next
    case False
    then have fin: "fin < length chars" using 1 by simp
    then have "next_start cfg chars start fin \<le> fin" using b 1 by (simp add: next_start_def Let_def)
    then have "next_start cfg chars start fin \<le> i" using False by simp
    from "1.IH" [OF lt refl refl refl refl, unfolded w fst_conv snd_conv, OF "1.prems"(1,2) this "1.prems"(4,5)]
    show ?thesis using lt w loop by (auto simp: Let_def)
  qed
qed

section \<open>Properties\<close>

text \<open>
  Chunks know where they are. The chunker always ends; every chunk is the part of the text
  between its offsets, trimmed and at most one chunk size long; the sequence numbers count up
  from zero without gaps; the statistics count the chunks and the natural splits.
\<close>
theorem chunks_are_slices:
  "let (chunks, stats) = chunk_text cfg chars in
     list_all (\<lambda>c. ch_start_offset c \<le> ch_end_offset c \<and> ch_end_offset c \<le> length chars
       \<and> ch_text c = take (ch_end_offset c - ch_start_offset c) (drop (ch_start_offset c) chars)
       \<and> trimmed (ch_text c) \<and> length (ch_text c) \<le> ck_chunk_size cfg) chunks
     \<and> map ch_sequence chunks = [0..<length chunks]
     \<and> cst_total_chunks stats = length chunks \<and> cst_natural_splits stats = length (filter ch_is_natural chunks)"
  using chunk_loop_placed [of cfg chars 0 0] chunk_loop_sequence [of cfg chars 0 0]
  by (cases "chunk_loop cfg chars 0 0") (auto simp: chunk_text_def Let_def list_all_iff well_placed_def)

text \<open>
  Nothing is lost. With a positive chunk size and no minimum size beyond one character, every
  character that is not whitespace lies between the offsets of some chunk, whatever the
  overlap and the lookback are.
\<close>
theorem chunks_cover_text:
  assumes "0 < ck_chunk_size cfg" and "ck_min_chunk_size cfg \<le> 1" and "i < length chars" and "\<not> is_ws (chars ! i)"
  shows "\<exists>c \<in> set (fst (chunk_text cfg chars)). ch_start_offset c \<le> i \<and> i < ch_end_offset c"
proof -
  from assms(3) have "chars \<noteq> []" by auto
  with chunk_loop_covers [OF assms(1,2) _ assms(3,4), of 0 0] show ?thesis
    by (simp add: chunk_text_def Let_def case_prod_beta)
qed

theorem chunks_cover_text_witness:
  "\<exists>c \<in> set (fst (chunk_text \<lparr>ck_chunk_size = 4, ck_chunk_overlap = 1, ck_min_chunk_size = 1, ck_max_lookback = 2\<rparr> (lit ''ab. cdefg''))).
     ch_start_offset c \<le> 6 \<and> 6 < ch_end_offset c"
  by (rule chunks_cover_text) (simp_all add: is_ws_def)

text \<open>
  With a larger minimum a short text between wide whitespace is in no chunk at all.
\<close>
theorem short_text_is_dropped:
  "fst (chunk_text \<lparr>ck_chunk_size = 2, ck_chunk_overlap = 0, ck_min_chunk_size = 2, ck_max_lookback = 0\<rparr> (lit ''a   '')) = []"
  by (simp add: chunk_text_def chunk_loop.simps window_end_def Let_def next_start_def window_chunk_def smart_trim_def keep_chunk_def
      chunk_len_def trim_start_def trim_end_def is_ws_def)

end
