(* ===== verification/Virtual_Path.thy ===== *)
theory Virtual_Path
  imports Prelude
begin

text \<open>
  The logical addresses of stored knowledge (\<^verbatim>\<open>engram/src/virtual_path.rs\<close>): parsing with the
  check against path traversal, printing, and the key of the store. Unicode normalisation is
  the argument \<open>nfc\<close>.
\<close>

section \<open>Strings\<close>

definition split_once :: "rchar \<Rightarrow> rstr \<Rightarrow> (rstr \<times> rstr) option" where
  "split_once c s = (if c \<in> set s then Some (takeWhile (\<lambda>x. x \<noteq> c) s, tl (dropWhile (\<lambda>x. x \<noteq> c) s)) else None)"

definition rsplit_once :: "rchar \<Rightarrow> rstr \<Rightarrow> (rstr \<times> rstr) option" where
  "rsplit_once c s = map_option (\<lambda>(a, b). (rev b, rev a)) (split_once c (rev s))"

definition trim_matches :: "rchar \<Rightarrow> rstr \<Rightarrow> rstr" where
  "trim_matches c s = rev (dropWhile (\<lambda>x. x = c) (rev (dropWhile (\<lambda>x. x = c) s)))"

section \<open>Paths\<close>

record virtual_path =
  vp_collection :: rstr
  vp_path :: rstr

abbreviation slash :: rchar where "slash \<equiv> 47"

abbreviation colon :: rchar where "colon \<equiv> 58"

definition is_safe_segment :: "rstr \<Rightarrow> bool" where
  "is_safe_segment s \<longleftrightarrow> s \<noteq> [] \<and> s \<noteq> lit ''..'' \<and> s \<noteq> lit ''.''"

definition parse_path :: "(rstr \<Rightarrow> rstr) \<Rightarrow> rstr \<Rightarrow> rstr + virtual_path" where
  "parse_path nfc input =
     (let normalized = nfc (trim input) in
      case (case strip_prefix normalized (lit ''benshu://'') of Some r \<Rightarrow> Some r | None \<Rightarrow> strip_prefix normalized (lit ''//'')) of
        None \<Rightarrow> Inl (lit ''Missing benshu:// prefix'')
      | Some rest \<Rightarrow>
          (let (collection, inner_path) = (case split_once slash rest of Some cp \<Rightarrow> cp | None \<Rightarrow> (rest, []))
           in if collection = [] \<or> list_ex (\<lambda>c. is_ws c \<or> c = colon) collection
              then Inl (lit ''Invalid collection name'')
              else if inner_path \<noteq> [] \<and> list_ex (\<lambda>segment. \<not> is_safe_segment segment \<and> segment \<noteq> []) (split_char slash inner_path)
              then Inl (lit ''Path traversal detected'')
              else Inr \<lparr>vp_collection = collection, vp_path = trim_matches slash inner_path\<rparr>))"

definition build_path :: "rstr \<Rightarrow> rstr \<Rightarrow> rstr" where
  "build_path collection path =
     (let path = trim_matches slash path
      in if path = [] then lit ''benshu://'' @ collection else lit ''benshu://'' @ collection @ [slash] @ path)"

definition to_storage_key :: "virtual_path \<Rightarrow> rstr" where
  "to_storage_key p = vp_collection p @ [colon] @ vp_path p"

definition display_path :: "virtual_path \<Rightarrow> rstr" where
  "display_path p = (if vp_path p = [] then vp_collection p else vp_collection p @ [slash] @ vp_path p)"

definition extension :: "unicode \<Rightarrow> virtual_path \<Rightarrow> rstr option" where
  "extension U p = map_option (\<lambda>(_, ext). u_lower U ext) (rsplit_once 46 (vp_path p))"

definition fmt_path :: "virtual_path \<Rightarrow> rstr" where
  "fmt_path p = build_path (vp_collection p) (vp_path p)"

section \<open>Lemmas\<close>

lemma split_once_Some:
  "split_once c s = Some (a, b) \<longleftrightarrow> s = a @ c # b \<and> c \<notin> set a"
proof
  assume l: "split_once c s = Some (a, b)"
  then have "c \<in> set s" by (auto simp: split_once_def split: if_splits)
  then obtain u v where u: "s = u @ c # v" "c \<notin> set u" by (metis split_list_first)
  have "takeWhile (\<lambda>x. x \<noteq> c) s = u" "dropWhile (\<lambda>x. x \<noteq> c) s = c # v"
    using u by (auto simp: takeWhile_append dropWhile_append takeWhile_eq_all_conv)
  with l u show "s = a @ c # b \<and> c \<notin> set a" by (auto simp: split_once_def split: if_splits)
next
  assume r: "s = a @ c # b \<and> c \<notin> set a"
  then have "takeWhile (\<lambda>x. x \<noteq> c) s = a" "dropWhile (\<lambda>x. x \<noteq> c) s = c # b"
    by (auto simp: takeWhile_append dropWhile_append takeWhile_eq_all_conv)
  with r show "split_once c s = Some (a, b)" by (auto simp: split_once_def)
qed

lemma split_once_None: "split_once c s = None \<longleftrightarrow> c \<notin> set s"
  by (simp add: split_once_def)

lemma split_char_snoc: "split_char c (p @ [c]) = split_char c p @ [[]]"
  by (induction p) (auto simp: split_char_ne split: list.splits)

lemma segments_drop: "set (split_char c (dropWhile (\<lambda>x. x = c) p)) \<subseteq> set (split_char c p)"
  by (induction p) auto

lemma segments_drop_end: "set (split_char c (rev (dropWhile (\<lambda>x. x = c) (rev p)))) \<subseteq> set (split_char c p)"
  by (induction p rule: rev_induct) (auto simp: split_char_snoc)

lemma segments_trim: "set (split_char c (trim_matches c p)) \<subseteq> set (split_char c p)"
  using segments_drop_end [of c "dropWhile (\<lambda>x. x = c) p"] segments_drop [of c p] by (auto simp: trim_matches_def)

lemma trim_matches_ends:
  "trim_matches c s = [] \<or> hd (trim_matches c s) \<noteq> c \<and> last (trim_matches c s) \<noteq> c"
proof -
  define t where "t = dropWhile (\<lambda>x. x = c) s"
  have t: "t = [] \<or> hd t \<noteq> c" unfolding t_def by (metis (mono_tags) hd_dropWhile)
  define r where "r = dropWhile (\<lambda>x. x = c) (rev t)"
  have r: "r = [] \<or> hd r \<noteq> c" unfolding r_def by (metis (mono_tags) hd_dropWhile)
  obtain u where u: "rev t = u @ r" unfolding r_def by (metis takeWhile_dropWhile_id)
  then have "t = rev r @ rev u" by (metis rev_append rev_rev_ident)
  with t have "rev r = [] \<or> hd (rev r) \<noteq> c" by (cases "rev r") auto
  with r show ?thesis by (auto simp: trim_matches_def t_def [symmetric] r_def [symmetric] last_rev)
qed

lemma trim_matches_id: "s = [] \<or> hd s \<noteq> c \<and> last s \<noteq> c \<Longrightarrow> trim_matches c s = s"
proof (cases s rule: rev_cases)
  case (snoc ys y)
  assume "s = [] \<or> hd s \<noteq> c \<and> last s \<noteq> c"
  then have ends: "hd s \<noteq> c" "last s \<noteq> c" using snoc by simp_all
  have "dropWhile (\<lambda>x. x = c) s = s" using ends(1) by (cases s) simp_all
  moreover have "dropWhile (\<lambda>x. x = c) (rev s) = rev s" using ends(2) snoc by simp
  ultimately show ?thesis by (simp add: trim_matches_def)
qed (simp add: trim_matches_def)

definition valid_collection :: "rstr \<Rightarrow> bool" where
  "valid_collection c \<longleftrightarrow> c \<noteq> [] \<and> slash \<notin> set c \<and> colon \<notin> set c \<and> list_all (\<lambda>x. \<not> is_ws x) c"

definition valid_path :: "rstr \<Rightarrow> bool" where
  "valid_path p \<longleftrightarrow> (p = [] \<or> hd p \<noteq> slash \<and> last p \<noteq> slash)
     \<and> lit ''..'' \<notin> set (split_char slash p) \<and> lit ''.'' \<notin> set (split_char slash p)"

lemma parse_valid:
  assumes "parse_path nfc input = Inr vp"
  shows "valid_collection (vp_collection vp) \<and> valid_path (vp_path vp)"
proof -
  let ?n = "nfc (trim input)"
  obtain rest where rest: "(case strip_prefix ?n (lit ''benshu://'') of Some r \<Rightarrow> Some r | None \<Rightarrow> strip_prefix ?n (lit ''//'')) = Some rest"
    using assms unfolding parse_path_def Let_def by (cases "case strip_prefix ?n (lit ''benshu://'') of Some r \<Rightarrow> Some r | None \<Rightarrow> strip_prefix ?n (lit ''//'')") simp_all
  obtain c p where cp: "(case split_once slash rest of Some cp \<Rightarrow> cp | None \<Rightarrow> (rest, [])) = (c, p)" by fastforce
  from assms [unfolded parse_path_def Let_def rest option.case cp prod.case]
  have r: "c \<noteq> [] \<and> \<not> list_ex (\<lambda>x. is_ws x \<or> x = colon) c
      \<and> \<not> (p \<noteq> [] \<and> list_ex (\<lambda>segment. \<not> is_safe_segment segment \<and> segment \<noteq> []) (split_char slash p))
      \<and> vp = \<lparr>vp_collection = c, vp_path = trim_matches slash p\<rparr>"
    by (simp del: lit_Cons split: if_splits)
  have "slash \<notin> set c" using cp by (auto simp: split_once_Some split_once_None split: option.splits)
  moreover have "s \<in> set (split_char slash p) \<Longrightarrow> s = [] \<or> is_safe_segment s" for s
    using r by (cases "p = []") (auto simp: list_ex_iff)
  then have "s \<in> set (split_char slash (trim_matches slash p)) \<Longrightarrow> s \<noteq> lit ''..'' \<and> s \<noteq> lit ''.''" for s
    using segments_trim [of slash p] by (fastforce simp: is_safe_segment_def)
  ultimately show ?thesis
    using r trim_matches_ends [of slash p] by (auto simp: valid_collection_def valid_path_def list_ex_iff list_all_iff simp del: lit_Cons)
qed

section \<open>Properties\<close>

text \<open>
  Parsed paths are safe and have their own keys. Whatever the input and the normalisation, a
  path that parses has a collection without slash, colon or whitespace, no slash at either end
  of its path and no segment that leads upwards or stays; two parsed paths with the same
  storage key are equal.
\<close>
theorem parsed_paths_are_safe:
  assumes "parse_path nfc input = Inr vp"
  shows "vp_collection vp \<noteq> [] \<and> slash \<notin> set (vp_collection vp) \<and> colon \<notin> set (vp_collection vp)
    \<and> lit ''..'' \<notin> set (split_char slash (vp_path vp)) \<and> lit ''.'' \<notin> set (split_char slash (vp_path vp))
    \<and> (vp_path vp = [] \<or> hd (vp_path vp) \<noteq> slash \<and> last (vp_path vp) \<noteq> slash)
    \<and> (parse_path nfc' input' = Inr vp' \<and> to_storage_key vp' = to_storage_key vp \<longrightarrow> vp' = vp)"
proof -
  have inj: "vp' = vp" if "parse_path nfc' input' = Inr vp'" "to_storage_key vp' = to_storage_key vp"
  proof -
    have "colon \<notin> set (vp_collection vp)" "colon \<notin> set (vp_collection vp')"
      using parse_valid [OF assms] parse_valid [OF that(1)] by (simp_all add: valid_collection_def)
    with that(2) have "vp_collection vp' = vp_collection vp \<and> vp_path vp' = vp_path vp"
      unfolding to_storage_key_def by (metis append_Cons append_Nil option.inject prod.inject split_once_Some)
    then show ?thesis by simp
  qed
  with parse_valid [OF assms] show ?thesis by (auto simp: valid_collection_def valid_path_def simp del: lit_Cons)
qed

theorem parsed_paths_are_safe_witness:
  "\<exists>vp. parse_path id (lit ''benshu://docs/a.md/'') = Inr vp \<and> slash \<notin> set (vp_collection vp) \<and> vp_path vp = lit ''a.md''"
proof -
  have "parse_path id (lit ''benshu://docs/a.md/'') = Inr \<lparr>vp_collection = lit ''docs'', vp_path = lit ''a.md''\<rparr>"
    by (simp add: parse_path_def trim_def trim_start_def trim_end_def is_ws_def strip_prefix_def starts_with_def split_once_def
        is_safe_segment_def trim_matches_def)
  with parsed_paths_are_safe [OF this] show ?thesis by auto
qed

text \<open>
  Paths survive printing. A path that was parsed prints to a text that parses to the same
  path again, provided the text has no whitespace at its ends and is in normal form.
\<close>
theorem parse_of_printed_path:
  assumes "parse_path nfc input = Inr vp" and "trimmed (fmt_path vp)" and "nfc' (fmt_path vp) = fmt_path vp"
  shows "parse_path nfc' (fmt_path vp) = Inr vp"
proof -
  let ?c = "vp_collection vp" and ?p = "vp_path vp"
  have c: "valid_collection ?c" and p: "valid_path ?p" using parse_valid [OF assms(1)] by simp_all
  have tm: "trim_matches slash ?p = ?p" using p by (intro trim_matches_id) (auto simp: valid_path_def)
  have normal: "nfc' (trim (fmt_path vp)) = fmt_path vp" using assms(2,3) by (simp add: trim_trimmed)
  define rest where "rest = (if ?p = [] then ?c else ?c @ slash # ?p)"
  have fmt: "fmt_path vp = lit ''benshu://'' @ rest" by (simp add: fmt_path_def build_path_def tm rest_def Let_def del: lit_Cons)
  have strip: "strip_prefix (fmt_path vp) (lit ''benshu://'') = Some rest" by (simp add: fmt strip_prefix_def starts_with_def)
  have split: "(case split_once slash rest of Some cp \<Rightarrow> cp | None \<Rightarrow> (rest, [])) = (?c, ?p)"
  proof (cases "?p = []")
    case True
    then have "split_once slash rest = None" using c by (simp add: rest_def split_once_None valid_collection_def)
    with True show ?thesis by (simp add: rest_def)
  next
    case False
    then have "split_once slash rest = Some (?c, ?p)" using c by (simp add: rest_def split_once_Some valid_collection_def)
    then show ?thesis by simp
  qed
  have coll: "\<not> (?c = [] \<or> list_ex (\<lambda>x. is_ws x \<or> x = colon) ?c)"
    using c by (auto simp: valid_collection_def list_ex_iff list_all_iff)
  have seg: "\<not> (?p \<noteq> [] \<and> list_ex (\<lambda>segment. \<not> is_safe_segment segment \<and> segment \<noteq> []) (split_char slash ?p))"
    using p by (auto simp: valid_path_def list_ex_iff is_safe_segment_def simp del: lit_Cons)
  show ?thesis
    unfolding parse_path_def Let_def normal strip option.case split prod.case using coll seg tm by (simp del: lit_Cons)
qed

theorem parse_of_printed_path_witness:
  "parse_path id (fmt_path \<lparr>vp_collection = lit ''docs'', vp_path = lit ''a.md''\<rparr>) = Inr \<lparr>vp_collection = lit ''docs'', vp_path = lit ''a.md''\<rparr>"
proof -
  have "parse_path id (lit ''//docs/a.md'') = Inr \<lparr>vp_collection = lit ''docs'', vp_path = lit ''a.md''\<rparr>"
    by (simp add: parse_path_def trim_def trim_start_def trim_end_def is_ws_def strip_prefix_def starts_with_def split_once_def
        is_safe_segment_def trim_matches_def)
  moreover have "trimmed (fmt_path \<lparr>vp_collection = lit ''docs'', vp_path = lit ''a.md''\<rparr>)"
    by (simp add: fmt_path_def build_path_def trim_matches_def trimmed_def is_ws_def)
  ultimately show ?thesis by (rule parse_of_printed_path) simp
qed

text \<open>The extension is taken from the last dot anywhere in the path, even in a directory name.\<close>
theorem extension_of_directory:
  "extension ascii_tables \<lparr>vp_collection = lit ''c'', vp_path = lit ''v1.2/notes''\<rparr> = Some (lit ''2/notes'')"
  by (simp add: extension_def rsplit_once_def split_once_def ascii_tables_def to_ascii_lowercase_def)

end
