(* ===== verification/Rank_Fusion.thy ===== *)
theory Rank_Fusion
  imports Prelude
begin

text \<open>
  Reciprocal rank fusion of search results (\<^verbatim>\<open>engram/src/rrf.rs\<close>). Weights and scores are finite
  non-negative doubles; sums and quotients are rounded. The builders are kept in a hash map,
  whose iteration order is the argument \<open>order\<close>.
\<close>

section \<open>Definitions\<close>

record rrf_config =
  rf_k :: nat
  rf_bm25_weight :: rat
  rf_vector_weight :: rat

definition default_rrf_config :: rrf_config where
  "default_rrf_config = \<lparr>rf_k = 60, rf_bm25_weight = f64_round (4 / 10), rf_vector_weight = f64_round (6 / 10)\<rparr>"

definition validate_rrf :: "rrf_config \<Rightarrow> rstr + unit" where
  "validate_rrf c = (if rf_k c = 0 then Inl (lit ''RRF constant '' @ [39] @ lit ''k'' @ [39] @ lit '' must be greater than 0'')
     else if rf_bm25_weight c < 0 \<or> rf_vector_weight c < 0 then Inl (lit ''Weights must be non-negative'')
     else Inr ())"

record ranked_stream =
  rs_name :: rstr
  rs_weight :: rat
  rs_results :: "(rstr \<times> rat) list"

text \<open>The builder has the fields of the result.\<close>
record fused_result =
  fr_docid :: rstr
  fr_rrf_score :: rat
  fr_source_metadata :: "rstr \<rightharpoonup> nat \<times> rat"

definition is_hybrid :: "fused_result \<Rightarrow> bool" where
  "is_hybrid r \<longleftrightarrow> fr_source_metadata r (lit ''bm25'') \<noteq> None \<and> fr_source_metadata r (lit ''vector'') \<noteq> None"

definition with_config :: "rrf_config \<Rightarrow> rrf_config option" where
  "with_config c = (case validate_rrf c of Inl _ \<Rightarrow> None | Inr _ \<Rightarrow> Some c)"

definition builder_new :: "rstr \<Rightarrow> fused_result" where
  "builder_new docid = \<lparr>fr_docid = docid, fr_rrf_score = 0, fr_source_metadata = Map.empty\<rparr>"

definition rrf_contribution :: "nat \<Rightarrow> rat \<Rightarrow> nat \<Rightarrow> rat" where
  "rrf_contribution k weight rank = f64_round (weight / f64_round (of_nat (k + rank + 1)))"

definition fuse_entry :: "nat \<Rightarrow> ranked_stream \<Rightarrow> (rstr \<rightharpoonup> fused_result) \<Rightarrow> nat \<times> rstr \<times> rat \<Rightarrow> rstr \<rightharpoonup> fused_result" where
  "fuse_entry k stream builders e = (case e of (rank, docid, score) \<Rightarrow>
     (let builder = (case builders docid of Some b \<Rightarrow> b | None \<Rightarrow> builder_new docid)
      in if fr_source_metadata builder (rs_name stream) \<noteq> None then builders(docid \<mapsto> builder)
         else builders(docid \<mapsto> builder\<lparr>
           fr_rrf_score := f64_round (fr_rrf_score builder + rrf_contribution k (rs_weight stream) rank),
           fr_source_metadata := (fr_source_metadata builder)(rs_name stream \<mapsto> (rank, score))\<rparr>)))"

definition fuse_stream :: "nat \<Rightarrow> (rstr \<rightharpoonup> fused_result) \<Rightarrow> ranked_stream \<Rightarrow> rstr \<rightharpoonup> fused_result" where
  "fuse_stream k builders stream = foldl (fuse_entry k stream) builders (enumerate 0 (rs_results stream))"

text \<open>The comparison of the sort: higher score, then agreement of both sources, then the identifier.\<close>
definition le_fused :: "fused_result \<Rightarrow> fused_result \<Rightarrow> bool" where
  "le_fused a b \<longleftrightarrow> fr_rrf_score b < fr_rrf_score a
     \<or> fr_rrf_score a = fr_rrf_score b \<and> (is_hybrid a \<and> \<not> is_hybrid b \<or> is_hybrid a = is_hybrid b \<and> fr_docid a \<le> fr_docid b)"

definition fuse :: "((rstr \<rightharpoonup> fused_result) \<Rightarrow> rstr list) \<Rightarrow> rrf_config \<Rightarrow> ranked_stream list \<Rightarrow> fused_result list" where
  "fuse order cfg streams =
     (let builder_map = foldl (fuse_stream (rf_k cfg)) Map.empty streams
      in sort_by le_fused (List.map_filter builder_map (order builder_map)))"

definition fuse_hybrid :: "((rstr \<rightharpoonup> fused_result) \<Rightarrow> rstr list) \<Rightarrow> rrf_config \<Rightarrow> (rstr \<times> rat) list \<Rightarrow> (rstr \<times> rat) list \<Rightarrow> rat \<Rightarrow> rat \<Rightarrow>
  fused_result list" where
  "fuse_hybrid order cfg bm25 vector bm25_weight vector_weight =
     fuse order cfg [\<lparr>rs_name = lit ''bm25'', rs_weight = bm25_weight, rs_results = bm25\<rparr>,
       \<lparr>rs_name = lit ''vector'', rs_weight = vector_weight, rs_results = vector\<rparr>]"

section \<open>The formula\<close>

text \<open>The first place of a document in a stream, and the sum over the streams in their order.\<close>
definition place :: "rstr \<Rightarrow> ranked_stream \<Rightarrow> (nat \<times> rat) option" where
  "place d s = map_option (\<lambda>(rank, _, score). (rank, score)) (find (\<lambda>e. fst (snd e) = d) (enumerate 0 (rs_results s)))"

definition rrf_sum :: "nat \<Rightarrow> ranked_stream list \<Rightarrow> rstr \<Rightarrow> rat" where
  "rrf_sum k streams d = foldl (\<lambda>acc s. case place d s of None \<Rightarrow> acc
     | Some (rank, _) \<Rightarrow> f64_round (acc + rrf_contribution k (rs_weight s) rank)) 0 streams"

definition sources :: "ranked_stream list \<Rightarrow> rstr \<Rightarrow> rstr \<rightharpoonup> nat \<times> rat" where
  "sources streams d = foldl (\<lambda>m s. case place d s of None \<Rightarrow> m | Some p \<Rightarrow> m(rs_name s \<mapsto> p)) Map.empty streams"

definition builder_of :: "(rstr \<rightharpoonup> fused_result) \<Rightarrow> rstr \<Rightarrow> fused_result" where
  "builder_of m d = (case m d of Some b \<Rightarrow> b | None \<Rightarrow> builder_new d)"

definition add_source :: "nat \<Rightarrow> ranked_stream \<Rightarrow> nat \<times> rat \<Rightarrow> fused_result \<Rightarrow> fused_result" where
  "add_source k s p b = b\<lparr>fr_rrf_score := f64_round (fr_rrf_score b + rrf_contribution k (rs_weight s) (fst p)),
     fr_source_metadata := (fr_source_metadata b)(rs_name s \<mapsto> p)\<rparr>"

lemma find_append: "find P (xs @ ys) = (case find P xs of Some x \<Rightarrow> Some x | None \<Rightarrow> find P ys)"
  by (induction xs) auto

lemma stream_entries:
  assumes "fr_source_metadata (builder_of m d) (rs_name s) = None"
  shows "foldl (fuse_entry k s) m es d = (case find (\<lambda>e. fst (snd e) = d) es of
      None \<Rightarrow> m d | Some e \<Rightarrow> Some (add_source k s (fst e, snd (snd e)) (builder_of m d)))"
proof (induction es rule: rev_induct)
  case (snoc e es)
  obtain rank d' score where e: "e = (rank, d', score)" by (cases e) auto
  define m' where "m' = foldl (fuse_entry k s) m es"
  have step: "foldl (fuse_entry k s) m (es @ [e]) = fuse_entry k s m' e" by (simp add: m'_def)
  show ?case
  proof (cases "d' = d")
    case False
    then have "fuse_entry k s m' e d = m' d" by (simp add: fuse_entry_def e Let_def)
    with snoc.IH False show ?thesis unfolding step by (auto simp: find_append e m'_def split: option.splits)
  next
    case same: True
    show ?thesis
    proof (cases "find (\<lambda>e. fst (snd e) = d) es")
      case None
      then have "m' d = m d" using snoc.IH by (simp add: m'_def)
      then have "builder_of m' d = builder_of m d" by (simp add: builder_of_def)
      with assms same None show ?thesis
        unfolding step by (simp add: find_append e fuse_entry_def Let_def builder_of_def [symmetric] add_source_def)
    next
      case (Some e0)
      then have "m' d = Some (add_source k s (fst e0, snd (snd e0)) (builder_of m d))" using snoc.IH by (simp add: m'_def)
      with same Some show ?thesis unfolding step by (simp add: find_append e fuse_entry_def Let_def add_source_def)
    qed
  qed
qed simp

lemma stream_builders:
  assumes "fr_source_metadata (builder_of m d) (rs_name s) = None"
  shows "fuse_stream k m s d = (case place d s of None \<Rightarrow> m d | Some p \<Rightarrow> Some (add_source k s p (builder_of m d)))"
  unfolding fuse_stream_def stream_entries [OF assms] place_def by (auto split: option.splits)

text \<open>The builders after all streams are those of the formula.\<close>
lemma streams_builders:
  assumes "distinct (map rs_name streams)"
  shows "foldl (fuse_stream k) Map.empty streams d =
    (if \<exists>s \<in> set streams. place d s \<noteq> None
     then Some \<lparr>fr_docid = d, fr_rrf_score = rrf_sum k streams d, fr_source_metadata = sources streams d\<rparr> else None)
    \<and> dom (sources streams d) \<subseteq> rs_name ` set streams
    \<and> ((\<forall>s \<in> set streams. place d s = None) \<longrightarrow> rrf_sum k streams d = 0 \<and> sources streams d = Map.empty)"
  using assms
proof (induction streams rule: rev_induct)
  case (snoc s ss)
  define m where "m = foldl (fuse_stream k) Map.empty ss"
  from snoc have ih: "m d = (if \<exists>s \<in> set ss. place d s \<noteq> None
       then Some \<lparr>fr_docid = d, fr_rrf_score = rrf_sum k ss d, fr_source_metadata = sources ss d\<rparr> else None)"
    "dom (sources ss d) \<subseteq> rs_name ` set ss"
    "(\<forall>s \<in> set ss. place d s = None) \<longrightarrow> rrf_sum k ss d = 0 \<and> sources ss d = Map.empty"
    by (auto simp: m_def)
  have builder: "builder_of m d = \<lparr>fr_docid = d, fr_rrf_score = rrf_sum k ss d, fr_source_metadata = sources ss d\<rparr>"
    using ih(1,3) by (auto simp: builder_of_def builder_new_def split: if_splits)
  have "rs_name s \<notin> rs_name ` set ss" using snoc.prems by simp
  with ih(2) have "fr_source_metadata (builder_of m d) (rs_name s) = None" by (auto simp: builder)
  note step = stream_builders [OF this, of k, unfolded builder]
  have sums: "rrf_sum k (ss @ [s]) d = (case place d s of None \<Rightarrow> rrf_sum k ss d | Some (rank, _) \<Rightarrow> f64_round (rrf_sum k ss d + rrf_contribution k (rs_weight s) rank))"
    "sources (ss @ [s]) d = (case place d s of None \<Rightarrow> sources ss d | Some p \<Rightarrow> (sources ss d)(rs_name s \<mapsto> p))"
    unfolding rrf_sum_def sources_def by simp_all
  have dom: "dom (sources (ss @ [s]) d) \<subseteq> rs_name ` set (ss @ [s])"
    using ih(2) by (cases "place d s") (auto simp: sums(2))
  have "foldl (fuse_stream k) Map.empty (ss @ [s]) d = (if \<exists>s \<in> set (ss @ [s]). place d s \<noteq> None
      then Some \<lparr>fr_docid = d, fr_rrf_score = rrf_sum k (ss @ [s]) d, fr_source_metadata = sources (ss @ [s]) d\<rparr> else None)"
    using step ih(1) by (cases "place d s") (simp_all add: sums m_def [symmetric] add_source_def split: prod.splits)
  moreover have "(\<forall>s \<in> set (ss @ [s]). place d s = None) \<longrightarrow>
      rrf_sum k (ss @ [s]) d = 0 \<and> sources (ss @ [s]) d = Map.empty"
    using ih(3) by (simp add: sums)
  ultimately show ?case using dom by blast
qed (simp add: rrf_sum_def sources_def)

section \<open>Order\<close>

interpretation fused: comparison le_fused
  by unfold_locales (auto simp: le_fused_def)

lemma le_fused_antisym: "le_fused a b \<Longrightarrow> le_fused b a \<Longrightarrow> fr_docid a = fr_docid b"
  by (auto simp: le_fused_def)

text \<open>The identifiers that occur in a list of streams, each once.\<close>
definition fused_ids :: "ranked_stream list \<Rightarrow> rstr set" where
  "fused_ids streams = (\<Union>s \<in> set streams. fst ` set (rs_results s))"

lemma place_in_stream: "place d s \<noteq> None \<longleftrightarrow> d \<in> fst ` set (rs_results s)"
proof -
  have "place d s \<noteq> None \<longleftrightarrow> (\<exists>e \<in> set (enumerate 0 (rs_results s)). fst (snd e) = d)"
    by (simp only: place_def option.map_disc_iff find_None_iff not_not) blast
  also have "\<dots> \<longleftrightarrow> d \<in> fst ` snd ` set (enumerate 0 (rs_results s))" by blast
  also have "snd ` set (enumerate 0 (rs_results s)) = set (rs_results s)"
    by (metis list.set_map map_snd_enumerate)
  finally show ?thesis .
qed

lemma place_in_streams: "d \<in> fused_ids streams \<longleftrightarrow> (\<exists>s \<in> set streams. place d s \<noteq> None)"
  by (simp only: fused_ids_def UN_iff place_in_stream)

text \<open>What the builders hold once every stream has been read, in the shape the sort receives it.\<close>
lemma fused_before_sort:
  assumes "distinct (map rs_name streams)" and "distinct ids" and "set ids = fused_ids streams"
  shows "List.map_filter (foldl (fuse_stream k) Map.empty streams) ids =
    map (\<lambda>d. \<lparr>fr_docid = d, fr_rrf_score = rrf_sum k streams d, fr_source_metadata = sources streams d\<rparr>) ids"
proof -
  have "foldl (fuse_stream k) Map.empty streams d =
      Some \<lparr>fr_docid = d, fr_rrf_score = rrf_sum k streams d, fr_source_metadata = sources streams d\<rparr>" if "d \<in> set ids" for d
    using that assms(3) streams_builders [OF assms(1), of k d] by (metis place_in_streams)
  then show ?thesis by (induction ids) (auto simp: List.map_filter_def)
qed

lemma dom_builders:
  assumes "distinct (map rs_name streams)"
  shows "dom (foldl (fuse_stream k) Map.empty streams) = fused_ids streams"
proof -
  have "d \<in> dom (foldl (fuse_stream k) Map.empty streams) \<longleftrightarrow> d \<in> fused_ids streams" for d
    using streams_builders [OF assms, of k d] unfolding place_in_streams domIff by (metis option.discI)
  then show ?thesis by blast
qed

text \<open>An iteration order of the hash map: every key of a map with these keys, once.\<close>
definition iterates :: "((rstr \<rightharpoonup> fused_result) \<Rightarrow> rstr list) \<Rightarrow> rstr set \<Rightarrow> bool" where
  "iterates order ids \<longleftrightarrow> (\<forall>m. dom m = ids \<longrightarrow> distinct (order m) \<and> set (order m) = dom m)"

text \<open>
  C33. Fusion of streams with different names: whatever the iteration order of the hash map, the
  result has one entry for each identifier of the streams, whose score is the sum of the formula
  over the first place of the identifier in each stream and whose metadata are those places; the
  entries are sorted by score, then agreement, then identifier, and two iteration orders give the
  same list.
\<close>
theorem fusion_is_rrf:
  assumes "distinct (map rs_name streams)"
    and "iterates order (fused_ids streams)" and "iterates order' (fused_ids streams)"
  shows "fr_docid ` set (fuse order cfg streams) = fused_ids streams \<and> distinct (map fr_docid (fuse order cfg streams))
    \<and> (\<forall>r \<in> set (fuse order cfg streams). fr_rrf_score r = rrf_sum (rf_k cfg) streams (fr_docid r)
           \<and> fr_source_metadata r = sources streams (fr_docid r))
    \<and> sorted_wrt le_fused (fuse order cfg streams) \<and> fuse order cfg streams = fuse order' cfg streams"
proof -
  let ?m = "foldl (fuse_stream (rf_k cfg)) Map.empty streams"
  let ?f = "\<lambda>d. \<lparr>fr_docid = d, fr_rrf_score = rrf_sum (rf_k cfg) streams d, fr_source_metadata = sources streams d\<rparr>"
  have ids: "distinct (order ?m)" "set (order ?m) = fused_ids streams" "distinct (order' ?m)" "set (order' ?m) = fused_ids streams"
    using assms(2,3) [unfolded iterates_def, rule_format, of ?m] dom_builders [OF assms(1)] by auto
  have eq: "fuse order cfg streams = sort_by le_fused (map ?f (order ?m))" "fuse order' cfg streams = sort_by le_fused (map ?f (order' ?m))"
    using ids by (simp_all add: fuse_def Let_def fused_before_sort [OF assms(1)])
  have entries: "fr_docid ` set (fuse order cfg streams) = fused_ids streams"
    "\<forall>r \<in> set (fuse order cfg streams). fr_rrf_score r = rrf_sum (rf_k cfg) streams (fr_docid r)
       \<and> fr_source_metadata r = sources streams (fr_docid r)"
    "sorted_wrt le_fused (fuse order cfg streams)"
    using ids by (auto simp: eq image_image fused.sorted_sort_by)
  have "mset (map fr_docid (fuse order cfg streams)) = mset (order ?m)"
    by (simp add: eq multiset.map_comp o_def)
  then have "distinct (map fr_docid (fuse order cfg streams))"
    using ids(1) mset_eq_imp_distinct_iff by blast
  moreover have "mset (order ?m) = mset (order' ?m)" using ids by (simp add: set_eq_iff_mset_eq_distinct [symmetric])
  then have "mset (map ?f (order ?m)) = mset (map ?f (order' ?m))" by simp
  then have "fuse order cfg streams = fuse order' cfg streams"
    unfolding eq by (rule fused.sort_by_order_independent) (auto dest: le_fused_antisym)
  ultimately show ?thesis using entries by blast
qed

definition sample_streams :: "ranked_stream list" where
  "sample_streams = [\<lparr>rs_name = lit ''bm25'', rs_weight = 1, rs_results = [(lit ''a'', 10), (lit ''b'', 5), (lit ''a'', 1)]\<rparr>,
     \<lparr>rs_name = lit ''vector'', rs_weight = 1, rs_results = [(lit ''b'', 1)]\<rparr>]"

theorem fusion_is_rrf_witness:
  "distinct (map rs_name sample_streams) \<and> fused_ids sample_streams = {lit ''a'', lit ''b''}
   \<and> fr_docid ` set (fuse (\<lambda>_. [lit ''a'', lit ''b'']) default_rrf_config sample_streams) = {lit ''a'', lit ''b''}
   \<and> fuse (\<lambda>_. [lit ''a'', lit ''b'']) default_rrf_config sample_streams
       = fuse (\<lambda>_. [lit ''b'', lit ''a'']) default_rrf_config sample_streams"
proof -
  have names: "distinct (map rs_name sample_streams)" by (simp add: sample_streams_def)
  have ids: "fused_ids sample_streams = {lit ''a'', lit ''b''}" by (auto simp: sample_streams_def fused_ids_def)
  have "iterates (\<lambda>_. [lit ''a'', lit ''b'']) (fused_ids sample_streams)"
    "iterates (\<lambda>_. [lit ''b'', lit ''a'']) (fused_ids sample_streams)"
    by (auto simp: ids iterates_def)
  from fusion_is_rrf [OF names this, of default_rrf_config, unfolded ids] show ?thesis
    by (intro conjI names ids) (elim conjE, assumption)+
qed

end
