(* ===== verification/Engram_Storage.thy ===== *)
theory Engram_Storage
  imports Redb_Store
begin

text \<open>
  The storage of the memory engine: the trait \<^verbatim>\<open>Storage\<close> of \<^verbatim>\<open>engram/src/storage/mod.rs\<close> as the
  record of its methods, its implementation in memory (\<^verbatim>\<open>in_memory.rs\<close>) and the one over
  \<^verbatim>\<open>redb\<close> (\<^verbatim>\<open>redb_impl.rs\<close>). A method that writes returns the new store, an error leaves the
  store as it was. The tables of the database hold bytes or strings; \<open>engram_db\<close> has the two
  kinds of operations over one database. Hash maps are iterated in the order of an argument.
\<close>

section \<open>Bytes\<close>


text \<open>The bit pattern of an \<^verbatim>\<open>f32\<close>, and its four bytes.\<close>
type_synonym f32_bits = "32 word"

definition to_le_bytes :: "f32_bits \<Rightarrow> bytes" where
  "to_le_bytes w = [ucast w, ucast (drop_bit 8 w), ucast (drop_bit 16 w), ucast (drop_bit 24 w)]"

definition from_le_bytes :: "8 word \<Rightarrow> 8 word \<Rightarrow> 8 word \<Rightarrow> 8 word \<Rightarrow> f32_bits" where
  "from_le_bytes a b c d = or (ucast a) (or (push_bit 8 (ucast b)) (or (push_bit 16 (ucast c)) (push_bit 24 (ucast d))))"

text \<open>The loop over the groups of four bytes; the length has been checked before.\<close>
fun read_f32s :: "bytes \<Rightarrow> f32_bits list" where
  "read_f32s (a # b # c # d # bs) = from_le_bytes a b c d # read_f32s bs"
| "read_f32s _ = []"

section \<open>The trait\<close>

type_synonym triple = "rstr \<times> rstr \<times> rstr \<times> bytes"

record ('e, 's) storage =
  put_document :: "'s \<Rightarrow> rstr \<Rightarrow> bytes \<Rightarrow> 'e + 's"
  get_document :: "'s \<Rightarrow> rstr \<Rightarrow> 'e + bytes option"
  delete_document :: "'s \<Rightarrow> rstr \<Rightarrow> 'e + ('s \<times> bool)"
  iter_documents :: "'s \<Rightarrow> 'e + (rstr \<times> bytes) list"
  document_count :: "'s \<Rightarrow> 'e + u64"
  put_docid_map :: "'s \<Rightarrow> rstr \<Rightarrow> rstr \<Rightarrow> 'e + 's"
  get_docid_map :: "'s \<Rightarrow> rstr \<Rightarrow> 'e + rstr option"
  delete_docid_map :: "'s \<Rightarrow> rstr \<Rightarrow> 'e + ('s \<times> bool)"
  put_content :: "'s \<Rightarrow> rstr \<Rightarrow> bytes \<Rightarrow> 'e + 's"
  get_content :: "'s \<Rightarrow> rstr \<Rightarrow> 'e + bytes option"
  content_count :: "'s \<Rightarrow> 'e + u64"
  put_collection :: "'s \<Rightarrow> rstr \<Rightarrow> bytes \<Rightarrow> 'e + 's"
  get_collection :: "'s \<Rightarrow> rstr \<Rightarrow> 'e + bytes option"
  list_collections :: "'s \<Rightarrow> 'e + (rstr \<times> bytes) list"
  put_session :: "'s \<Rightarrow> rstr \<Rightarrow> rstr \<Rightarrow> 'e + 's"
  get_session :: "'s \<Rightarrow> rstr \<Rightarrow> 'e + rstr option"
  delete_session :: "'s \<Rightarrow> rstr \<Rightarrow> 'e + ('s \<times> bool)"
  list_sessions :: "'s \<Rightarrow> 'e + (rstr \<times> rstr) list"
  put_fts_forward :: "'s \<Rightarrow> rstr \<Rightarrow> bytes \<Rightarrow> 'e + 's"
  get_fts_forward :: "'s \<Rightarrow> rstr \<Rightarrow> 'e + bytes option"
  delete_fts_forward :: "'s \<Rightarrow> rstr \<Rightarrow> 'e + ('s \<times> bool)"
  put_fts_inverted :: "'s \<Rightarrow> rstr \<Rightarrow> bytes \<Rightarrow> 'e + 's"
  get_fts_inverted :: "'s \<Rightarrow> rstr \<Rightarrow> 'e + bytes option"
  delete_fts_inverted :: "'s \<Rightarrow> rstr \<Rightarrow> 'e + ('s \<times> bool)"
  put_vector :: "'s \<Rightarrow> rstr \<Rightarrow> bytes \<Rightarrow> 'e + 's"
  get_vector :: "'s \<Rightarrow> rstr \<Rightarrow> 'e + bytes option"
  delete_vector :: "'s \<Rightarrow> rstr \<Rightarrow> 'e + ('s \<times> bool)"
  iter_vectors :: "'s \<Rightarrow> 'e + (rstr \<times> bytes) list"
  put_embedding_cache :: "'s \<Rightarrow> rstr \<Rightarrow> f32_bits list \<Rightarrow> 'e + 's"
  get_embedding_cache :: "'s \<Rightarrow> rstr \<Rightarrow> 'e + f32_bits list option"
  put_experience :: "'s \<Rightarrow> rstr \<Rightarrow> bytes \<Rightarrow> 'e + 's"
  get_experience :: "'s \<Rightarrow> rstr \<Rightarrow> 'e + bytes option"
  delete_experience :: "'s \<Rightarrow> rstr \<Rightarrow> 'e + ('s \<times> bool)"
  iter_experiences :: "'s \<Rightarrow> 'e + (rstr \<times> bytes) list"
  experience_count :: "'s \<Rightarrow> 'e + u64"
  put_anti_pattern :: "'s \<Rightarrow> rstr \<Rightarrow> bytes \<Rightarrow> 'e + 's"
  get_anti_pattern :: "'s \<Rightarrow> rstr \<Rightarrow> 'e + bytes option"
  delete_anti_pattern :: "'s \<Rightarrow> rstr \<Rightarrow> 'e + ('s \<times> bool)"
  iter_anti_patterns :: "'s \<Rightarrow> 'e + (rstr \<times> bytes) list"
  anti_pattern_count :: "'s \<Rightarrow> 'e + u64"
  put_idx :: "'s \<Rightarrow> rstr \<Rightarrow> rstr \<Rightarrow> 'e + 's"
  get_idx :: "'s \<Rightarrow> rstr \<Rightarrow> 'e + rstr option"
  put_triple :: "'s \<Rightarrow> rstr \<Rightarrow> rstr \<Rightarrow> rstr \<Rightarrow> bytes \<Rightarrow> 'e + 's"
  put_triples_batch :: "'s \<Rightarrow> triple list \<Rightarrow> 'e + 's"
  delete_triple :: "'s \<Rightarrow> rstr \<Rightarrow> rstr \<Rightarrow> rstr \<Rightarrow> 'e + ('s \<times> bool)"
  query_triples :: "'s \<Rightarrow> rstr option \<Rightarrow> rstr option \<Rightarrow> rstr option \<Rightarrow> 'e + triple list"
  compact :: "'s \<Rightarrow> 'e + unit"
  disk_usage :: "'s \<Rightarrow> 'e + u64 option"

text \<open>The one method with a body; the error is the constructor \<^verbatim>\<open>Storage\<close> of the error type.\<close>
definition get_vector_f32 :: "(rstr \<Rightarrow> 'e) \<Rightarrow> ('e, 's) storage \<Rightarrow> 's \<Rightarrow> rstr \<Rightarrow> 'e + f32_bits list option" where
  "get_vector_f32 storage_error S s key = res_bind (get_vector S s key) (\<lambda>found. case found of
       None \<Rightarrow> Inr None
     | Some b \<Rightarrow> if length b mod 4 \<noteq> 0
         then Inl (storage_error (lit ''Invalid vector size ('' @ show_nat (length b) @ lit '' bytes)''))
         else Inr (Some (read_f32s b)))"

section \<open>In memory\<close>

record in_memory_state =
  im_docs :: "rstr \<rightharpoonup> bytes"
  im_collections :: "rstr \<rightharpoonup> bytes"
  im_fts_forward :: "rstr \<rightharpoonup> bytes"
  im_fts_inverted :: "rstr \<rightharpoonup> bytes"
  im_vectors :: "rstr \<rightharpoonup> bytes"
  im_id_map :: "rstr \<rightharpoonup> rstr"
  im_triples :: "triple list"

definition in_memory_new :: in_memory_state where
  "in_memory_new = \<lparr>im_docs = Map.empty, im_collections = Map.empty, im_fts_forward = Map.empty,
     im_fts_inverted = Map.empty, im_vectors = Map.empty, im_id_map = Map.empty, im_triples = []\<rparr>"

text \<open>The entries of a hash map in its iteration order.\<close>
definition map_entries :: "((rstr \<rightharpoonup> bytes) \<Rightarrow> rstr list) \<Rightarrow> (rstr \<rightharpoonup> bytes) \<Rightarrow> (rstr \<times> bytes) list" where
  "map_entries order m = map (\<lambda>k. (k, case m k of Some v \<Rightarrow> v | None \<Rightarrow> [])) (order m)"

definition other_triple :: "rstr \<Rightarrow> rstr \<Rightarrow> rstr \<Rightarrow> triple \<Rightarrow> bool" where
  "other_triple s p o' t = (case t of (ts, tp, tob, _) \<Rightarrow> ts \<noteq> s \<or> tp \<noteq> p \<or> tob \<noteq> o')"

definition im_push_triple :: "rstr \<Rightarrow> rstr \<Rightarrow> rstr \<Rightarrow> bytes \<Rightarrow> triple list \<Rightarrow> triple list" where
  "im_push_triple s p o' metadata triples = filter (other_triple s p o') triples @ [(s, p, o', metadata)]"

definition im_put_triple :: "in_memory_state \<Rightarrow> rstr \<Rightarrow> rstr \<Rightarrow> rstr \<Rightarrow> bytes \<Rightarrow> in_memory_state" where
  "im_put_triple st s p o' metadata = st\<lparr>im_triples := im_push_triple s p o' metadata (im_triples st)\<rparr>"

definition im_put_triples_batch :: "in_memory_state \<Rightarrow> triple list \<Rightarrow> in_memory_state" where
  "im_put_triples_batch st batch =
     st\<lparr>im_triples := foldl (\<lambda>triples (s, p, o', metadata). im_push_triple s p o' metadata triples) (im_triples st) batch\<rparr>"

definition im_delete_triple :: "in_memory_state \<Rightarrow> rstr \<Rightarrow> rstr \<Rightarrow> rstr \<Rightarrow> in_memory_state \<times> bool" where
  "im_delete_triple st s p o' =
     (let kept = filter (other_triple s p o') (im_triples st)
      in (st\<lparr>im_triples := kept\<rparr>, length kept < length (im_triples st)))"

definition im_query_triples :: "in_memory_state \<Rightarrow> rstr option \<Rightarrow> rstr option \<Rightarrow> rstr option \<Rightarrow> triple list" where
  "im_query_triples st s p o' = filter (\<lambda>(ts, tp, tob, _).
     (case s of None \<Rightarrow> True | Some sv \<Rightarrow> ts = sv) \<and> (case p of None \<Rightarrow> True | Some pv \<Rightarrow> tp = pv)
     \<and> (case o' of None \<Rightarrow> True | Some ov \<Rightarrow> tob = ov)) (im_triples st)"

text \<open>Groups the tests do not need store nothing.\<close>
definition in_memory_storage :: "((rstr \<rightharpoonup> bytes) \<Rightarrow> rstr list) \<Rightarrow> ('e, in_memory_state) storage" where
  "in_memory_storage order = \<lparr>
     put_document = (\<lambda>st key data. Inr (st\<lparr>im_docs := (im_docs st)(key \<mapsto> data)\<rparr>)),
     get_document = (\<lambda>st key. Inr (im_docs st key)),
     delete_document = (\<lambda>st key. Inr (st\<lparr>im_docs := (im_docs st)(key := None)\<rparr>, im_docs st key \<noteq> None)),
     iter_documents = (\<lambda>st. Inr (map_entries order (im_docs st))),
     document_count = (\<lambda>st. Inr (of_nat (length (order (im_docs st))))),
     put_docid_map = (\<lambda>st _ _. Inr st),
     get_docid_map = (\<lambda>st _. Inr None),
     delete_docid_map = (\<lambda>st _. Inr (st, False)),
     put_content = (\<lambda>st _ _. Inr st),
     get_content = (\<lambda>st _. Inr None),
     content_count = (\<lambda>st. Inr 0),
     put_collection = (\<lambda>st name data. Inr (st\<lparr>im_collections := (im_collections st)(name \<mapsto> data)\<rparr>)),
     get_collection = (\<lambda>st name. Inr (im_collections st name)),
     list_collections = (\<lambda>st. Inr (map_entries order (im_collections st))),
     put_session = (\<lambda>st _ _. Inr st),
     get_session = (\<lambda>st _. Inr None),
     delete_session = (\<lambda>st _. Inr (st, False)),
     list_sessions = (\<lambda>st. Inr []),
     put_fts_forward = (\<lambda>st k data. Inr (st\<lparr>im_fts_forward := (im_fts_forward st)(k \<mapsto> data)\<rparr>)),
     get_fts_forward = (\<lambda>st k. Inr (im_fts_forward st k)),
     delete_fts_forward = (\<lambda>st k. Inr (st\<lparr>im_fts_forward := (im_fts_forward st)(k := None)\<rparr>, im_fts_forward st k \<noteq> None)),
     put_fts_inverted = (\<lambda>st k data. Inr (st\<lparr>im_fts_inverted := (im_fts_inverted st)(k \<mapsto> data)\<rparr>)),
     get_fts_inverted = (\<lambda>st k. Inr (im_fts_inverted st k)),
     delete_fts_inverted = (\<lambda>st k. Inr (st\<lparr>im_fts_inverted := (im_fts_inverted st)(k := None)\<rparr>, im_fts_inverted st k \<noteq> None)),
     put_vector = (\<lambda>st k data. Inr (st\<lparr>im_vectors := (im_vectors st)(k \<mapsto> data)\<rparr>)),
     get_vector = (\<lambda>st k. Inr (im_vectors st k)),
     delete_vector = (\<lambda>st k. Inr (st\<lparr>im_vectors := (im_vectors st)(k := None)\<rparr>, im_vectors st k \<noteq> None)),
     iter_vectors = (\<lambda>st. Inr (map_entries order (im_vectors st))),
     put_embedding_cache = (\<lambda>st _ _. Inr st),
     get_embedding_cache = (\<lambda>st _. Inr None),
     put_experience = (\<lambda>st _ _. Inr st),
     get_experience = (\<lambda>st _. Inr None),
     delete_experience = (\<lambda>st _. Inr (st, False)),
     iter_experiences = (\<lambda>st. Inr []),
     experience_count = (\<lambda>st. Inr 0),
     put_anti_pattern = (\<lambda>st _ _. Inr st),
     get_anti_pattern = (\<lambda>st _. Inr None),
     delete_anti_pattern = (\<lambda>st _. Inr (st, False)),
     iter_anti_patterns = (\<lambda>st. Inr []),
     anti_pattern_count = (\<lambda>st. Inr 0),
     put_idx = (\<lambda>st id key. Inr (st\<lparr>im_id_map := (im_id_map st)(id \<mapsto> key)\<rparr>)),
     get_idx = (\<lambda>st id. Inr (im_id_map st id)),
     put_triple = (\<lambda>st s p o' metadata. Inr (im_put_triple st s p o' metadata)),
     put_triples_batch = (\<lambda>st batch. Inr (im_put_triples_batch st batch)),
     delete_triple = (\<lambda>st s p o'. Inr (im_delete_triple st s p o')),
     query_triples = (\<lambda>st s p o'. Inr (im_query_triples st s p o')),
     compact = (\<lambda>st. Inr ()),
     disk_usage = (\<lambda>st. Inr None)\<rparr>"

section \<open>Over redb\<close>

record ('e, 'db) engram_db =
  ed_bytes :: "('e, 'db, bytes) redb_range"
  ed_strs :: "('e, 'db, rstr) redb_range"
  ed_error :: "rstr \<Rightarrow> 'e"
  ed_file_len :: "'db \<Rightarrow> u64 option"

definition DOCUMENTS_TABLE :: rstr where "DOCUMENTS_TABLE = lit ''documents''"
definition COLLECTIONS_TABLE :: rstr where "COLLECTIONS_TABLE = lit ''collections''"
definition CONTENT_TABLE :: rstr where "CONTENT_TABLE = lit ''content''"
definition SESSIONS_TABLE :: rstr where "SESSIONS_TABLE = lit ''sessions''"
definition FTS_FORWARD_TABLE :: rstr where "FTS_FORWARD_TABLE = lit ''fts_forward''"
definition FTS_INVERTED_TABLE :: rstr where "FTS_INVERTED_TABLE = lit ''fts_inverted''"
definition VECTORS_TABLE :: rstr where "VECTORS_TABLE = lit ''vectors''"
definition EMBEDDING_CACHE_TABLE :: rstr where "EMBEDDING_CACHE_TABLE = lit ''embedding_cache''"
definition DOCID_MAP_TABLE :: rstr where "DOCID_MAP_TABLE = lit ''docid_map''"
definition EXPERIENCES_TABLE :: rstr where "EXPERIENCES_TABLE = lit ''experiences''"
definition ANTI_PATTERNS_TABLE :: rstr where "ANTI_PATTERNS_TABLE = lit ''anti_patterns''"
definition HNSW_IDX_TABLE :: rstr where "HNSW_IDX_TABLE = lit ''hnsw_idx''"
definition KG_SPO_TABLE :: rstr where "KG_SPO_TABLE = lit ''kg_spo''"
definition KG_OPS_TABLE :: rstr where "KG_OPS_TABLE = lit ''kg_ops''"
definition KG_POS_TABLE :: rstr where "KG_POS_TABLE = lit ''kg_pos''"

definition SEPARATOR :: rchar where "SEPARATOR = 0x1f"

lemmas table_names = DOCUMENTS_TABLE_def COLLECTIONS_TABLE_def CONTENT_TABLE_def SESSIONS_TABLE_def FTS_FORWARD_TABLE_def
  FTS_INVERTED_TABLE_def VECTORS_TABLE_def EMBEDDING_CACHE_TABLE_def DOCID_MAP_TABLE_def EXPERIENCES_TABLE_def
  ANTI_PATTERNS_TABLE_def HNSW_IDX_TABLE_def KG_SPO_TABLE_def KG_OPS_TABLE_def KG_POS_TABLE_def

definition put_generic :: "('e, 'db) engram_db \<Rightarrow> rstr \<Rightarrow> 'db \<Rightarrow> rstr \<Rightarrow> bytes \<Rightarrow> 'e + 'db" where
  "put_generic E t d key v = db_insert (ed_bytes E) d t key v"

definition get_generic :: "('e, 'db) engram_db \<Rightarrow> rstr \<Rightarrow> 'db \<Rightarrow> rstr \<Rightarrow> 'e + bytes option" where
  "get_generic E t d key = db_get (ed_bytes E) d t key"

definition delete_generic :: "('e, 'db) engram_db \<Rightarrow> rstr \<Rightarrow> 'db \<Rightarrow> rstr \<Rightarrow> 'e + ('db \<times> bool)" where
  "delete_generic E t d key = db_remove (ed_bytes E) d t key"

definition iter_generic :: "('e, 'db) engram_db \<Rightarrow> rstr \<Rightarrow> 'db \<Rightarrow> 'e + (rstr \<times> bytes) list" where
  "iter_generic E t d = db_iter (ed_bytes E) d t"

definition count_generic :: "('e, 'db) engram_db \<Rightarrow> rstr \<Rightarrow> 'db \<Rightarrow> 'e + u64" where
  "count_generic E t d = db_len (ed_bytes E) d t"

definition put_strstr :: "('e, 'db) engram_db \<Rightarrow> rstr \<Rightarrow> 'db \<Rightarrow> rstr \<Rightarrow> rstr \<Rightarrow> 'e + 'db" where
  "put_strstr E t d key v = db_insert (ed_strs E) d t key v"

definition get_strstr :: "('e, 'db) engram_db \<Rightarrow> rstr \<Rightarrow> 'db \<Rightarrow> rstr \<Rightarrow> 'e + rstr option" where
  "get_strstr E t d key = db_get (ed_strs E) d t key"

definition delete_strstr :: "('e, 'db) engram_db \<Rightarrow> rstr \<Rightarrow> 'db \<Rightarrow> rstr \<Rightarrow> 'e + ('db \<times> bool)" where
  "delete_strstr E t d key = db_remove (ed_strs E) d t key"

subsection \<open>Triples\<close>

definition kg_key :: "rstr \<Rightarrow> rstr \<Rightarrow> rstr \<Rightarrow> rstr" where
  "kg_key a b c = a @ [SEPARATOR] @ b @ [SEPARATOR] @ c"

text \<open>The three inserts of one transaction; an error drops all of them.\<close>
definition kg_insert :: "('e, 'db) engram_db \<Rightarrow> 'db \<Rightarrow> triple \<Rightarrow> 'e + 'db" where
  "kg_insert E d t = (case t of (s, p, o', meta) \<Rightarrow>
     res_bind (db_insert (ed_bytes E) d KG_SPO_TABLE (kg_key s p o') meta) (\<lambda>d1.
     res_bind (db_insert (ed_bytes E) d1 KG_OPS_TABLE (kg_key o' p s) meta) (\<lambda>d2.
     db_insert (ed_bytes E) d2 KG_POS_TABLE (kg_key p o' s) meta)))"

definition kv_put_triple :: "('e, 'db) engram_db \<Rightarrow> 'db \<Rightarrow> rstr \<Rightarrow> rstr \<Rightarrow> rstr \<Rightarrow> bytes \<Rightarrow> 'e + 'db" where
  "kv_put_triple E d s p o' metadata = kg_insert E d (s, p, o', metadata)"

fun kv_put_triples_batch :: "('e, 'db) engram_db \<Rightarrow> 'db \<Rightarrow> triple list \<Rightarrow> 'e + 'db" where
  "kv_put_triples_batch E d [] = Inr d"
| "kv_put_triples_batch E d (t # ts) = res_bind (kg_insert E d t) (\<lambda>d'. kv_put_triples_batch E d' ts)"

definition kv_delete_triple :: "('e, 'db) engram_db \<Rightarrow> 'db \<Rightarrow> rstr \<Rightarrow> rstr \<Rightarrow> rstr \<Rightarrow> 'e + ('db \<times> bool)" where
  "kv_delete_triple E d s p o' =
     res_bind (db_remove (ed_bytes E) d KG_OPS_TABLE (kg_key o' p s)) (\<lambda>(d1, _).
     res_bind (db_remove (ed_bytes E) d1 KG_POS_TABLE (kg_key p o' s)) (\<lambda>(d2, _).
     db_remove (ed_bytes E) d2 KG_SPO_TABLE (kg_key s p o')))"

definition process_triple_result :: "rstr \<Rightarrow> rstr option \<Rightarrow> rstr option \<Rightarrow> rstr option \<Rightarrow> triple list \<Rightarrow> rstr \<times> bytes \<Rightarrow> triple list" where
  "process_triple_result table_name s_filter p_filter o_filter results kv =
     (case split_char SEPARATOR (fst kv) of
        [a, b, c] \<Rightarrow>
          (let (subj, pred, obj) = (if table_name = KG_SPO_TABLE then (a, b, c)
                                    else if table_name = KG_OPS_TABLE then (c, b, a) else (c, a, b))
           in if (case s_filter of Some s \<Rightarrow> subj \<noteq> s | None \<Rightarrow> False) then results
              else if (case p_filter of Some p \<Rightarrow> pred \<noteq> p | None \<Rightarrow> False) then results
              else if (case o_filter of Some o' \<Rightarrow> obj \<noteq> o' | None \<Rightarrow> False) then results
              else results @ [(subj, pred, obj, snd kv)])
      | _ \<Rightarrow> results)"

definition query_strategy :: "rstr option \<Rightarrow> rstr option \<Rightarrow> rstr option \<Rightarrow> rstr \<times> rstr" where
  "query_strategy s p o' = (case (s, p, o') of
       (Some subject, Some predicate, _) \<Rightarrow> (KG_SPO_TABLE, subject @ [SEPARATOR] @ predicate @ [SEPARATOR])
     | (Some subject, None, _) \<Rightarrow> (KG_SPO_TABLE, subject @ [SEPARATOR])
     | (None, Some predicate, Some object) \<Rightarrow> (KG_OPS_TABLE, object @ [SEPARATOR] @ predicate @ [SEPARATOR])
     | (None, None, Some object) \<Rightarrow> (KG_OPS_TABLE, object @ [SEPARATOR])
     | (None, Some predicate, None) \<Rightarrow> (KG_POS_TABLE, predicate @ [SEPARATOR])
     | (None, None, None) \<Rightarrow> (KG_SPO_TABLE, []))"

definition kv_query_triples :: "('e, 'db) engram_db \<Rightarrow> 'db \<Rightarrow> rstr option \<Rightarrow> rstr option \<Rightarrow> rstr option \<Rightarrow> 'e + triple list" where
  "kv_query_triples E d s p o' =
     (let (table_name, prefix) = query_strategy s p o'
      in res_bind (db_range (ed_bytes E) d table_name prefix (prefix @ [0x10ffff])) (\<lambda>items.
         Inr (foldl (process_triple_result table_name s p o') [] items)))"

subsection \<open>The implementation\<close>

definition kv_get_embedding_cache :: "('e, 'db) engram_db \<Rightarrow> 'db \<Rightarrow> rstr \<Rightarrow> 'e + f32_bits list option" where
  "kv_get_embedding_cache E d hash = res_bind (get_generic E EMBEDDING_CACHE_TABLE d hash) (\<lambda>found. case found of
       None \<Rightarrow> Inr None
     | Some b \<Rightarrow> if length b mod 4 \<noteq> 0 then Inl (ed_error E (lit ''Invalid embedding cache size''))
         else Inr (Some (read_f32s b)))"

definition engram_kv :: "('e, 'db) engram_db \<Rightarrow> ('e, 'db) storage" where
  "engram_kv E = \<lparr>
     put_document = put_generic E DOCUMENTS_TABLE,
     get_document = get_generic E DOCUMENTS_TABLE,
     delete_document = delete_generic E DOCUMENTS_TABLE,
     iter_documents = iter_generic E DOCUMENTS_TABLE,
     document_count = count_generic E DOCUMENTS_TABLE,
     put_docid_map = put_strstr E DOCID_MAP_TABLE,
     get_docid_map = get_strstr E DOCID_MAP_TABLE,
     delete_docid_map = delete_strstr E DOCID_MAP_TABLE,
     put_content = put_generic E CONTENT_TABLE,
     get_content = get_generic E CONTENT_TABLE,
     content_count = count_generic E CONTENT_TABLE,
     put_collection = put_generic E COLLECTIONS_TABLE,
     get_collection = get_generic E COLLECTIONS_TABLE,
     list_collections = iter_generic E COLLECTIONS_TABLE,
     put_session = put_strstr E SESSIONS_TABLE,
     get_session = get_strstr E SESSIONS_TABLE,
     delete_session = delete_strstr E SESSIONS_TABLE,
     list_sessions = (\<lambda>d. db_iter (ed_strs E) d SESSIONS_TABLE),
     put_fts_forward = put_generic E FTS_FORWARD_TABLE,
     get_fts_forward = get_generic E FTS_FORWARD_TABLE,
     delete_fts_forward = delete_generic E FTS_FORWARD_TABLE,
     put_fts_inverted = put_generic E FTS_INVERTED_TABLE,
     get_fts_inverted = get_generic E FTS_INVERTED_TABLE,
     delete_fts_inverted = delete_generic E FTS_INVERTED_TABLE,
     put_vector = put_generic E VECTORS_TABLE,
     get_vector = get_generic E VECTORS_TABLE,
     delete_vector = delete_generic E VECTORS_TABLE,
     iter_vectors = iter_generic E VECTORS_TABLE,
     put_embedding_cache = (\<lambda>d hash vector. put_generic E EMBEDDING_CACHE_TABLE d hash (concat (map to_le_bytes vector))),
     get_embedding_cache = kv_get_embedding_cache E,
     put_experience = put_generic E EXPERIENCES_TABLE,
     get_experience = get_generic E EXPERIENCES_TABLE,
     delete_experience = delete_generic E EXPERIENCES_TABLE,
     iter_experiences = iter_generic E EXPERIENCES_TABLE,
     experience_count = count_generic E EXPERIENCES_TABLE,
     put_anti_pattern = put_generic E ANTI_PATTERNS_TABLE,
     get_anti_pattern = get_generic E ANTI_PATTERNS_TABLE,
     delete_anti_pattern = delete_generic E ANTI_PATTERNS_TABLE,
     iter_anti_patterns = iter_generic E ANTI_PATTERNS_TABLE,
     anti_pattern_count = count_generic E ANTI_PATTERNS_TABLE,
     put_idx = put_strstr E HNSW_IDX_TABLE,
     get_idx = get_strstr E HNSW_IDX_TABLE,
     put_triple = kv_put_triple E,
     put_triples_batch = kv_put_triples_batch E,
     delete_triple = kv_delete_triple E,
     query_triples = kv_query_triples E,
     compact = (\<lambda>d. Inr ()),
     disk_usage = (\<lambda>d. Inr (ed_file_len E d))\<rparr>"

section \<open>Laws of the tables\<close>

locale engram_tables = paired_tables "ed_bytes E" "ed_strs E" cb cs
  for E :: "('e, 'db) engram_db" and cb and cs

section \<open>One group of methods\<close>

text \<open>What a client relies on for a group with put, get and delete.\<close>
locale store_group =
  fixes put :: "'s \<Rightarrow> rstr \<Rightarrow> 'v \<Rightarrow> 'e + 's" and get :: "'s \<Rightarrow> rstr \<Rightarrow> 'e + 'v option"
    and delete :: "'s \<Rightarrow> rstr \<Rightarrow> 'e + ('s \<times> bool)" and view :: "'s \<Rightarrow> rstr \<rightharpoonup> 'v"
  assumes put_view: "put s k v = Inr s' \<Longrightarrow> view s' = (view s)(k \<mapsto> v)"
    and get_view: "get s k = Inr r \<Longrightarrow> r = view s k"
    and delete_view: "delete s k = Inr (s', b) \<Longrightarrow> view s' = (view s)(k := None) \<and> b = (view s k \<noteq> None)"
begin

lemma get_after_put: "put s k v = Inr s' \<Longrightarrow> get s' k' = Inr r \<Longrightarrow> r = (if k' = k then Some v else view s k')"
  using put_view get_view by fastforce

lemma get_after_delete: "delete s k = Inr (s', b) \<Longrightarrow> get s' k' = Inr r \<Longrightarrow> r = (if k' = k then None else view s k')"
  using delete_view get_view by fastforce

lemma delete_twice: "delete s k = Inr (s', b) \<Longrightarrow> delete s' k = Inr (s'', b') \<Longrightarrow> \<not> b' \<and> view s'' = view s'"
  using delete_view [of s k s' b] delete_view [of s' k s'' b'] by simp

end

lemma in_memory_groups:
  "store_group (put_document (in_memory_storage order)) (get_document (in_memory_storage order))
     (delete_document (in_memory_storage order)) im_docs"
  "store_group (put_fts_forward (in_memory_storage order)) (get_fts_forward (in_memory_storage order))
     (delete_fts_forward (in_memory_storage order)) im_fts_forward"
  "store_group (put_fts_inverted (in_memory_storage order)) (get_fts_inverted (in_memory_storage order))
     (delete_fts_inverted (in_memory_storage order)) im_fts_inverted"
  "store_group (put_vector (in_memory_storage order)) (get_vector (in_memory_storage order))
     (delete_vector (in_memory_storage order)) im_vectors"
  by (unfold_locales; auto simp: in_memory_storage_def)+

interpretation im_documents: store_group "put_document (in_memory_storage order)" "get_document (in_memory_storage order)"
    "delete_document (in_memory_storage order)" im_docs for order
  by (rule in_memory_groups)

context engram_tables
begin

lemma bytes_group: "store_group (put_generic E t) (get_generic E t) (delete_generic E t) (\<lambda>d. cb d t)"
  by unfold_locales (auto simp: put_generic_def get_generic_def delete_generic_def dest: b.insert_ok b.get_ok b.remove_ok)

lemma strs_group: "store_group (put_strstr E t) (get_strstr E t) (delete_strstr E t) (\<lambda>d. cs d t)"
  by unfold_locales (auto simp: put_strstr_def get_strstr_def delete_strstr_def dest: s.insert_ok s.get_ok s.remove_ok)

end

sublocale engram_tables \<subseteq> documents: store_group "put_document (engram_kv E)" "get_document (engram_kv E)"
    "delete_document (engram_kv E)" "\<lambda>d. cb d DOCUMENTS_TABLE"
  using bytes_group by (simp add: engram_kv_def)

sublocale engram_tables \<subseteq> experiences: store_group "put_experience (engram_kv E)" "get_experience (engram_kv E)"
    "delete_experience (engram_kv E)" "\<lambda>d. cb d EXPERIENCES_TABLE"
  using bytes_group by (simp add: engram_kv_def)

sublocale engram_tables \<subseteq> sessions: store_group "put_session (engram_kv E)" "get_session (engram_kv E)"
    "delete_session (engram_kv E)" "\<lambda>d. cs d SESSIONS_TABLE"
  using strs_group by (simp add: engram_kv_def)

section \<open>Numbers\<close>

lemma from_to_le_bytes [simp]:
  "from_le_bytes (ucast w) (ucast (drop_bit 8 w)) (ucast (drop_bit 16 w)) (ucast (drop_bit 24 w)) = w"
proof (rule bit_word_eqI)
  fix n assume "n < LENGTH(32)"
  then consider "n < 8" | "8 \<le> n" "n < 16" | "16 \<le> n" "n < 24" | "24 \<le> n" "n < 32" by fastforce
  then show "bit (from_le_bytes (ucast w) (ucast (drop_bit 8 w)) (ucast (drop_bit 16 w)) (ucast (drop_bit 24 w))) n = bit w n"
    by cases (auto simp: from_le_bytes_def bit_simps)
qed

lemma read_written_f32s: "read_f32s (concat (map to_le_bytes ws)) = ws" "length (concat (map to_le_bytes ws)) mod 4 = 0"
  by (induction ws) (simp_all add: to_le_bytes_def)

section \<open>The triple store as a map\<close>

datatype kg_op = PutTriple triple | PutBatch "triple list" | DeleteTriple rstr rstr rstr

type_synonym triple_map = "rstr \<times> rstr \<times> rstr \<rightharpoonup> bytes"

definition put_spec :: "triple_map \<Rightarrow> triple \<Rightarrow> triple_map" where
  "put_spec m t = (case t of (s, p, o', meta) \<Rightarrow> m((s, p, o') \<mapsto> meta))"

text \<open>The specification: what the operations do to the map, and what the deletions answer.\<close>
fun kg_spec :: "kg_op list \<Rightarrow> triple_map \<Rightarrow> triple_map \<times> bool list" where
  "kg_spec [] m = (m, [])"
| "kg_spec (PutTriple t # ops) m = kg_spec ops (put_spec m t)"
| "kg_spec (PutBatch ts # ops) m = kg_spec ops (foldl put_spec m ts)"
| "kg_spec (DeleteTriple s p o' # ops) m =
     (case kg_spec ops (m((s, p, o') := None)) of (m', bs) \<Rightarrow> (m', (m (s, p, o') \<noteq> None) # bs))"

fun run_kg :: "('e, 's) storage \<Rightarrow> kg_op list \<Rightarrow> 's \<Rightarrow> 'e + ('s \<times> bool list)" where
  "run_kg S [] st = Inr (st, [])"
| "run_kg S (PutTriple (s, p, o', meta) # ops) st = res_bind (put_triple S st s p o' meta) (run_kg S ops)"
| "run_kg S (PutBatch ts # ops) st = res_bind (put_triples_batch S st ts) (run_kg S ops)"
| "run_kg S (DeleteTriple s p o' # ops) st = res_bind (delete_triple S st s p o') (\<lambda>(st', b).
     res_bind (run_kg S ops st') (\<lambda>(st'', bs). Inr (st'', b # bs)))"

definition wanted :: "rstr option \<Rightarrow> rstr \<Rightarrow> bool" where
  "wanted f x \<longleftrightarrow> f = None \<or> f = Some x"

fun op_ok :: "(rstr \<Rightarrow> bool) \<Rightarrow> kg_op \<Rightarrow> bool" where
  "op_ok ok (PutTriple (s, p, o', _)) \<longleftrightarrow> ok s \<and> ok p \<and> ok o'"
| "op_ok ok (PutBatch ts) \<longleftrightarrow> (\<forall>(s, p, o', _) \<in> set ts. ok s \<and> ok p \<and> ok o')"
| "op_ok ok (DeleteTriple s p o') \<longleftrightarrow> ok s \<and> ok p \<and> ok o'"

text \<open>The contract of the triple methods, for names that satisfy \<open>ok\<close>.\<close>
locale triple_store =
  fixes S :: "('e, 's) storage" and ok :: "rstr \<Rightarrow> bool" and sane :: "'s \<Rightarrow> bool" and view :: "'s \<Rightarrow> triple_map"
  assumes put_ok: "sane st \<Longrightarrow> ok s \<Longrightarrow> ok p \<Longrightarrow> ok o' \<Longrightarrow> put_triple S st s p o' meta = Inr st' \<Longrightarrow>
      sane st' \<and> view st' = put_spec (view st) (s, p, o', meta)"
    and batch_ok: "sane st \<Longrightarrow> op_ok ok (PutBatch ts) \<Longrightarrow> put_triples_batch S st ts = Inr st' \<Longrightarrow>
      sane st' \<and> view st' = foldl put_spec (view st) ts"
    and delete_ok: "sane st \<Longrightarrow> ok s \<Longrightarrow> ok p \<Longrightarrow> ok o' \<Longrightarrow> delete_triple S st s p o' = Inr (st', b) \<Longrightarrow>
      sane st' \<and> view st' = (view st)((s, p, o') := None) \<and> b = (view st (s, p, o') \<noteq> None)"
    and query_ok: "sane st \<Longrightarrow> query_triples S st fs fp fo = Inr ts \<Longrightarrow> distinct ts
      \<and> (\<forall>s p o' meta. (s, p, o', meta) \<in> set ts \<longleftrightarrow> view st (s, p, o') = Some meta \<and> wanted fs s \<and> wanted fp p \<and> wanted fo o')"
begin

lemma run_refines:
  "run_kg S ops st = Inr (st', bs) \<Longrightarrow> sane st \<Longrightarrow> list_all (op_ok ok) ops \<Longrightarrow>
   sane st' \<and> kg_spec ops (view st) = (view st', bs)"
proof (induction ops arbitrary: st bs)
  case (Cons op ops)
  show ?case
  proof (cases op)
    case (PutTriple t)
    obtain s p o' meta where t: "t = (s, p, o', meta)" by (metis prod_cases4)
    with Cons.prems PutTriple obtain st1 where step: "put_triple S st s p o' meta = Inr st1" "run_kg S ops st1 = Inr (st', bs)"
      by (auto simp: res_bind_eq_Inr)
    from Cons.prems PutTriple t put_ok [OF _ _ _ _ step(1)]
    have "sane st1" "view st1 = put_spec (view st) (s, p, o', meta)" by simp_all
    with Cons.IH [OF step(2)] Cons.prems(3) PutTriple t show ?thesis by simp
  next
    case (PutBatch ts)
    with Cons.prems obtain st1 where step: "put_triples_batch S st ts = Inr st1" "run_kg S ops st1 = Inr (st', bs)"
      by (auto simp: res_bind_eq_Inr)
    from Cons.prems PutBatch batch_ok [OF _ _ step(1)] have "sane st1" "view st1 = foldl put_spec (view st) ts" by simp_all
    with Cons.IH [OF step(2)] Cons.prems(3) PutBatch show ?thesis by simp
  next
    case (DeleteTriple s p o')
    with Cons.prems obtain st1 b bs' where step: "delete_triple S st s p o' = Inr (st1, b)" "run_kg S ops st1 = Inr (st', bs')" "bs = b # bs'"
      by (auto simp: res_bind_eq_Inr)
    from Cons.prems DeleteTriple delete_ok [OF _ _ _ _ step(1)]
    have one: "sane st1" "view st1 = (view st)((s, p, o') := None)" "b = (view st (s, p, o') \<noteq> None)" by simp_all
    have spec: "sane st'" "kg_spec ops (view st1) = (view st', bs')"
      using Cons.IH [OF step(2) one(1)] Cons.prems(3) by simp_all
    show ?thesis
      unfolding DeleteTriple step(3) kg_spec.simps one(2) [symmetric] spec(2) using spec(1) one(3) by simp
  qed
qed auto

end

text \<open>Two stores with this contract answer every query alike.\<close>
lemma stores_agree:
  assumes "triple_store S ok sane view" and "triple_store S' ok' sane' view'"
    and "sane st" and "sane' st'" and "view st = view' st'" and "list_all (op_ok ok) ops" and "list_all (op_ok ok') ops"
    and "run_kg S ops st = Inr (u, bs)" and "run_kg S' ops st' = Inr (u', bs')"
    and "query_triples S u fs fp fo = Inr ts" and "query_triples S' u' fs fp fo = Inr ts'"
  shows "bs = bs' \<and> mset ts = mset ts'"
proof -
  have "sane u" "kg_spec ops (view st) = (view u, bs)" "sane' u'" "kg_spec ops (view st) = (view' u', bs')"
    using triple_store.run_refines [OF assms(1,8,3,6)] triple_store.run_refines [OF assms(2,9,4,7)] assms(5) by auto
  moreover from this have eq: "view u = view' u'" "bs = bs'" by auto
  ultimately have "set ts = set ts'" "distinct ts" "distinct ts'"
    using triple_store.query_ok [OF assms(1) _ assms(10)] triple_store.query_ok [OF assms(2) _ assms(11)] by auto
  with eq(2) show ?thesis by (simp add: set_eq_iff_mset_eq_distinct)
qed

subsection \<open>In memory\<close>

definition triple_key :: "triple \<Rightarrow> rstr \<times> rstr \<times> rstr" where
  "triple_key t = (case t of (s, p, o', _) \<Rightarrow> (s, p, o'))"

lemma other_triple_key: "other_triple s p o' t \<longleftrightarrow> triple_key t \<noteq> (s, p, o')"
  by (auto simp: other_triple_def triple_key_def split: prod.splits)

definition keyed_view :: "triple list \<Rightarrow> triple_map" where
  "keyed_view ts = map_of (map (\<lambda>t. (triple_key t, snd (snd (snd t)))) ts)"

lemma keyed_view_filter: "keyed_view (filter (other_triple s p o') ts) = (keyed_view ts)((s, p, o') := None)"
  by (induction ts) (auto simp: keyed_view_def other_triple_key fun_upd_twist)

lemma keyed_view_push:
  assumes "distinct (map triple_key ts)"
  shows "keyed_view (im_push_triple s p o' meta ts) = put_spec (keyed_view ts) (s, p, o', meta)"
    and "distinct (map triple_key (im_push_triple s p o' meta ts))"
proof -
  show "keyed_view (im_push_triple s p o' meta ts) = put_spec (keyed_view ts) (s, p, o', meta)"
    using keyed_view_filter [of s p o' ts]
    by (auto simp: im_push_triple_def keyed_view_def map_add_def put_spec_def triple_key_def split: option.splits)
  show "distinct (map triple_key (im_push_triple s p o' meta ts))"
    using assms by (auto simp: im_push_triple_def other_triple_key distinct_map_filter triple_key_def [of "(s, p, o', meta)"])
qed

lemma keyed_view_entry:
  "distinct (map triple_key ts) \<Longrightarrow> (s, p, o', meta) \<in> set ts \<longleftrightarrow> keyed_view ts (s, p, o') = Some meta"
  by (induction ts) (auto simp: keyed_view_def triple_key_def image_iff split: prod.splits)

definition im_view :: "in_memory_state \<Rightarrow> triple_map" where
  "im_view st = keyed_view (im_triples st)"

definition im_sane :: "in_memory_state \<Rightarrow> bool" where
  "im_sane st \<longleftrightarrow> distinct (map triple_key (im_triples st))"

lemma keyed_view_batch:
  assumes "distinct (map triple_key ts)"
  shows "keyed_view (foldl (\<lambda>ts (s, p, o', meta). im_push_triple s p o' meta ts) ts batch) = foldl put_spec (keyed_view ts) batch
    \<and> distinct (map triple_key (foldl (\<lambda>ts (s, p, o', meta). im_push_triple s p o' meta ts) ts batch))"
  using assms by (induction batch arbitrary: ts) (auto simp: keyed_view_push)

interpretation im_triples: triple_store "in_memory_storage order" "\<lambda>_. True" im_sane im_view for order
proof unfold_locales
  show "im_sane st' \<and> im_view st' = put_spec (im_view st) (s, p, o', meta)"
    if "im_sane st" "put_triple (in_memory_storage order) st s p o' meta = Inr st'" for st st' s p o' meta
    using that by (auto simp: in_memory_storage_def im_put_triple_def im_sane_def im_view_def keyed_view_push)
  show "im_sane st' \<and> im_view st' = foldl put_spec (im_view st) ts"
    if "im_sane st" "put_triples_batch (in_memory_storage order) st ts = Inr st'" for st st' ts
    using that keyed_view_batch by (auto simp: in_memory_storage_def im_put_triples_batch_def im_sane_def im_view_def)
  show "im_sane st' \<and> im_view st' = (im_view st)((s, p, o') := None) \<and> b = (im_view st (s, p, o') \<noteq> None)"
    if "im_sane st" "delete_triple (in_memory_storage order) st s p o' = Inr (st', b)" for st st' s p o' b
  proof -
    let ?ts = "im_triples st"
    have st': "st' = st\<lparr>im_triples := filter (other_triple s p o') ?ts\<rparr>" and b: "b \<longleftrightarrow> length (filter (other_triple s p o') ?ts) < length ?ts"
      using that(2) by (auto simp: in_memory_storage_def im_delete_triple_def Let_def)
    have "b \<longleftrightarrow> (\<exists>t \<in> set ?ts. triple_key t = (s, p, o'))"
    proof (cases "\<exists>t \<in> set ?ts. triple_key t = (s, p, o')")
      case True
      then show ?thesis unfolding b by (auto simp: other_triple_key intro!: length_filter_less)
    next
      case False
      then have "filter (other_triple s p o') ?ts = ?ts" by (auto simp: other_triple_key filter_id_conv)
      with False show ?thesis unfolding b by simp
    qed
    also have "\<dots> \<longleftrightarrow> keyed_view ?ts (s, p, o') \<noteq> None"
      by (force simp: keyed_view_def map_of_eq_None_iff image_iff)
    finally show ?thesis using that(1) by (simp add: st' im_sane_def im_view_def keyed_view_filter distinct_map_filter)
  qed
  show "distinct ts \<and> (\<forall>s p o' meta. (s, p, o', meta) \<in> set ts \<longleftrightarrow>
      im_view st (s, p, o') = Some meta \<and> wanted fs s \<and> wanted fp p \<and> wanted fo o')"
    if "im_sane st" "query_triples (in_memory_storage order) st fs fp fo = Inr ts" for st fs fp fo ts
  proof -
    have "ts = im_query_triples st fs fp fo" using that(2) by (simp add: in_memory_storage_def)
    moreover have "distinct (im_triples st)" using that(1) distinct_map unfolding im_sane_def by blast
    ultimately show ?thesis
      using that(1) by (auto simp: im_query_triples_def im_sane_def im_view_def keyed_view_entry [symmetric] wanted_def split: option.splits)
  qed
qed

subsection \<open>Over redb\<close>

text \<open>Names without the separator and the last code point, which ends every key range.\<close>
definition plain_name :: "rstr \<Rightarrow> bool" where
  "plain_name x \<longleftrightarrow> (\<forall>c \<in> set x. c < 0x10ffff \<and> c \<noteq> SEPARATOR)"

lemma prefix_range: "p \<le> k \<and> k < p @ [m] \<longleftrightarrow> (\<exists>x. k = p @ x \<and> (x = [] \<or> hd x < m))" for p k :: rstr
proof (induction p arbitrary: k)
  case Nil
  then show ?case by (cases k) auto
next
  case (Cons a p)
  then show ?case by (cases k) auto
qed

lemma split_kg_key: "plain_name a \<Longrightarrow> plain_name b \<Longrightarrow> plain_name c \<Longrightarrow> split_char SEPARATOR (kg_key a b c) = [a, b, c]"
proof -
  assume "plain_name a" "plain_name b" "plain_name c"
  then have "SEPARATOR \<notin> set a" "SEPARATOR \<notin> set b" "SEPARATOR \<notin> set c" by (auto simp: plain_name_def)
  then show ?thesis by (simp add: kg_key_def split_char_append split_char_free)
qed

definition table_key :: "rstr \<Rightarrow> rstr \<times> rstr \<times> rstr \<Rightarrow> rstr" where
  "table_key t x = (case x of (s, p, o') \<Rightarrow>
     if t = KG_SPO_TABLE then kg_key s p o' else if t = KG_OPS_TABLE then kg_key o' p s else kg_key p o' s)"

definition plain_triple :: "rstr \<times> rstr \<times> rstr \<Rightarrow> bool" where
  "plain_triple x = (case x of (s, p, o') \<Rightarrow> plain_name s \<and> plain_name p \<and> plain_name o')"

definition kv_view :: "('db \<Rightarrow> rstr \<Rightarrow> rstr \<rightharpoonup> bytes) \<Rightarrow> 'db \<Rightarrow> triple_map" where
  "kv_view cb d x = (if plain_triple x then cb d KG_SPO_TABLE (table_key KG_SPO_TABLE x) else None)"

definition KG_TABLES :: "rstr set" where
  "KG_TABLES = {KG_SPO_TABLE, KG_OPS_TABLE, KG_POS_TABLE}"

text \<open>The three tables hold the same triples, each under its own key.\<close>
definition kv_sane :: "('db \<Rightarrow> rstr \<Rightarrow> rstr \<rightharpoonup> bytes) \<Rightarrow> 'db \<Rightarrow> bool" where
  "kv_sane cb d \<longleftrightarrow> (\<forall>t \<in> KG_TABLES. (\<forall>x. plain_triple x \<longrightarrow> cb d t (table_key t x) = kv_view cb d x)
     \<and> (\<forall>k \<in> dom (cb d t). \<exists>x. plain_triple x \<and> k = table_key t x))"

lemma table_key_inject: "plain_triple x \<Longrightarrow> plain_triple y \<Longrightarrow> table_key t x = table_key t y \<longleftrightarrow> x = y"
proof -
  assume xy: "plain_triple x" "plain_triple y"
  obtain s p o' s' p' q where "x = (s, p, o')" "y = (s', p', q)" by (metis prod_cases3)
  with xy show ?thesis
    unfolding plain_triple_def table_key_def by (auto dest: arg_cong [where f = "split_char SEPARATOR"] simp: split_kg_key)
qed

lemma table_key_plain:
  assumes "plain_triple x" and "t \<in> KG_TABLES"
  shows "process_triple_result t fs fp fo ts (table_key t x, meta) =
    (if wanted fs (fst x) \<and> wanted fp (fst (snd x)) \<and> wanted fo (snd (snd x)) then ts @ [(fst x, fst (snd x), snd (snd x), meta)] else ts)"
proof -
  obtain s p o' where x: "x = (s, p, o')" by (metis prod_cases3)
  have plain: "plain_name s" "plain_name p" "plain_name o'" using assms(1) by (auto simp: x plain_triple_def)
  have "split_char SEPARATOR (table_key t x) =
      (if t = KG_SPO_TABLE then [s, p, o'] else if t = KG_OPS_TABLE then [o', p, s] else [p, o', s])"
    using plain by (simp add: x table_key_def split_kg_key)
  then show ?thesis
    by (simp add: process_triple_result_def x wanted_def split: option.splits)
qed

text \<open>The key of a wanted triple is in the range the query reads.\<close>
lemma query_range:
  assumes "plain_triple (s, p, o')" and "wanted fs s" "wanted fp p" "wanted fo o'" and "query_strategy fs fp fo = (t, pre)"
  shows "t \<in> KG_TABLES" and "pre \<le> table_key t (s, p, o')" and "table_key t (s, p, o') < pre @ [0x10ffff]"
proof -
  have plain: "\<forall>c \<in> set s. c < 0x10ffff" "\<forall>c \<in> set p. c < 0x10ffff" "\<forall>c \<in> set o'. c < 0x10ffff" "SEPARATOR < 0x10ffff"
    using assms(1) by (auto simp: plain_triple_def plain_name_def SEPARATOR_def)
  show "t \<in> KG_TABLES" using assms(5) by (auto simp: query_strategy_def KG_TABLES_def split: option.splits)
  have names: "KG_SPO_TABLE \<noteq> KG_OPS_TABLE" "KG_SPO_TABLE \<noteq> KG_POS_TABLE" "KG_OPS_TABLE \<noteq> KG_POS_TABLE" by (simp_all add: table_names)
  have hd_ok: "hd x < 0x10ffff" if "x \<noteq> []" "\<forall>c \<in> set x. c < 0x10ffff" for x :: rstr using that by (cases x) auto
  have "\<exists>x. table_key t (s, p, o') = pre @ x \<and> (\<forall>c \<in> set x. c < 0x10ffff)"
    using assms(2-5) plain names
    by (auto simp: wanted_def query_strategy_def table_key_def kg_key_def split: option.splits)
  then have "\<exists>x. table_key t (s, p, o') = pre @ x \<and> (x = [] \<or> hd x < 0x10ffff)" using hd_ok by blast
  then show "pre \<le> table_key t (s, p, o')" "table_key t (s, p, o') < pre @ [0x10ffff]"
    using prefix_range [of pre "table_key t (s, p, o')" "0x10ffff"] by blast+
qed

lemma process_items:
  assumes "t \<in> KG_TABLES" and "\<forall>kv \<in> set items. \<exists>x. plain_triple x \<and> fst kv = table_key t x" and "distinct (map fst items)"
  shows "distinct (foldl (process_triple_result t fs fp fo) [] items)
    \<and> (\<forall>s p o' meta. (s, p, o', meta) \<in> set (foldl (process_triple_result t fs fp fo) [] items) \<longleftrightarrow>
        plain_triple (s, p, o') \<and> (table_key t (s, p, o'), meta) \<in> set items \<and> wanted fs s \<and> wanted fp p \<and> wanted fo o')"
  using assms(2-)
proof (induction items rule: rev_induct)
  case (snoc kv items)
  obtain x meta where kv: "plain_triple x" "kv = (table_key t x, meta)" using snoc.prems(1) by (cases kv) auto
  obtain s p o' where x: "x = (s, p, o')" by (metis prod_cases3)
  define rs where "rs = foldl (process_triple_result t fs fp fo) [] items"
  have ih: "distinct rs" "\<And>s p o' meta. (s, p, o', meta) \<in> set rs \<longleftrightarrow> plain_triple (s, p, o')
      \<and> (table_key t (s, p, o'), meta) \<in> set items \<and> wanted fs s \<and> wanted fp p \<and> wanted fo o'"
    using snoc by (auto simp: rs_def)
  have step: "foldl (process_triple_result t fs fp fo) [] (items @ [kv]) =
      (if wanted fs s \<and> wanted fp p \<and> wanted fo o' then rs @ [(s, p, o', meta)] else rs)"
    using table_key_plain [OF kv(1) assms(1)] by (simp add: rs_def kv(2) x)
  have new: "(s, p, o', meta) \<notin> set rs" using snoc.prems(2) kv x ih(2) by force
  have mem: "(table_key t y, m) \<in> set (items @ [kv]) \<longleftrightarrow> (table_key t y, m) \<in> set items \<or> y = (s, p, o') \<and> m = meta"
    if "plain_triple y" for y m
    using table_key_inject [OF that kv(1), of t] kv(2) x by auto
  let ?new = "if wanted fs s \<and> wanted fp p \<and> wanted fo o' then rs @ [(s, p, o', meta)] else rs"
  have "distinct ?new" using ih(1) new by simp
  moreover have "(a, b, c, m) \<in> set ?new \<longleftrightarrow> plain_triple (a, b, c)
      \<and> ((table_key t (a, b, c), m) \<in> set items \<or> (a, b, c) = (s, p, o') \<and> m = meta) \<and> wanted fs a \<and> wanted fp b \<and> wanted fo c" for a b c m
    using ih(2) [of a b c m] kv(1) x by auto
  ultimately show ?case unfolding step using mem by blast
qed simp

context engram_tables
begin

lemma kg_names [simp]:
  "KG_SPO_TABLE \<noteq> KG_OPS_TABLE" "KG_SPO_TABLE \<noteq> KG_POS_TABLE" "KG_OPS_TABLE \<noteq> KG_POS_TABLE"
  "KG_OPS_TABLE \<noteq> KG_SPO_TABLE" "KG_POS_TABLE \<noteq> KG_SPO_TABLE" "KG_POS_TABLE \<noteq> KG_OPS_TABLE"
  by (simp_all add: table_names)

lemma kg_insert_tables:
  assumes "kg_insert E d (s, p, o', meta) = Inr d'" and "t \<in> KG_TABLES"
  shows "cb d' t = (cb d t)(table_key t (s, p, o') \<mapsto> meta)"
proof -
  obtain d1 d2 where steps: "db_insert (ed_bytes E) d KG_SPO_TABLE (kg_key s p o') meta = Inr d1"
      "db_insert (ed_bytes E) d1 KG_OPS_TABLE (kg_key o' p s) meta = Inr d2"
      "db_insert (ed_bytes E) d2 KG_POS_TABLE (kg_key p o' s) meta = Inr d'"
    using assms(1) by (auto simp: kg_insert_def res_bind_eq_Inr)
  show ?thesis
    using assms(2) unfolding KG_TABLES_def insert_iff empty_iff
    by (elim disjE FalseE) (simp_all add: b.insert_ok [OF steps(1)] b.insert_ok [OF steps(2)] b.insert_ok [OF steps(3)] table_key_def)
qed

lemma kg_delete_tables:
  assumes "kv_delete_triple E d s p o' = Inr (d', r)"
  shows "t \<in> KG_TABLES \<Longrightarrow> cb d' t = (cb d t)(table_key t (s, p, o') := None)"
    and "r \<longleftrightarrow> cb d KG_SPO_TABLE (kg_key s p o') \<noteq> None"
proof -
  obtain d1 r1 d2 r2 where steps: "db_remove (ed_bytes E) d KG_OPS_TABLE (kg_key o' p s) = Inr (d1, r1)"
      "db_remove (ed_bytes E) d1 KG_POS_TABLE (kg_key p o' s) = Inr (d2, r2)"
      "db_remove (ed_bytes E) d2 KG_SPO_TABLE (kg_key s p o') = Inr (d', r)"
    using assms by (auto simp: kv_delete_triple_def res_bind_eq_Inr)
  note removed = b.remove_ok [OF steps(1)] b.remove_ok [OF steps(2)] b.remove_ok [OF steps(3)]
  show "cb d' t = (cb d t)(table_key t (s, p, o') := None)" if "t \<in> KG_TABLES"
    using that unfolding KG_TABLES_def insert_iff empty_iff
    by (elim disjE FalseE) (simp_all add: removed [THEN conjunct1] table_key_def)
  show "r \<longleftrightarrow> cb d KG_SPO_TABLE (kg_key s p o') \<noteq> None" using removed by simp
qed

text \<open>One update of all three tables keeps them in step.\<close>
lemma update_sane:
  assumes "kv_sane cb d" and "plain_triple x" and "\<And>t. t \<in> KG_TABLES \<Longrightarrow> cb d' t = (cb d t)(table_key t x := v)"
  shows "kv_sane cb d'" and "kv_view cb d' = (kv_view cb d)(x := v)"
proof -
  have spo: "cb d' KG_SPO_TABLE = (cb d KG_SPO_TABLE)(table_key KG_SPO_TABLE x := v)"
    by (rule assms(3)) (simp add: KG_TABLES_def)
  show view: "kv_view cb d' = (kv_view cb d)(x := v)"
  proof
    fix y show "kv_view cb d' y = ((kv_view cb d)(x := v)) y"
      using table_key_inject [OF _ assms(2), of y KG_SPO_TABLE] assms(2) by (simp add: kv_view_def spo)
  qed
  show "kv_sane cb d'"
    unfolding kv_sane_def
  proof (intro ballI conjI allI impI)
    fix t y assume t: "t \<in> KG_TABLES" and y: "plain_triple y"
    have "cb d t (table_key t y) = kv_view cb d y" using assms(1) t y unfolding kv_sane_def by blast
    then show "cb d' t (table_key t y) = kv_view cb d' y"
      using assms(3) [OF t] table_key_inject [OF y assms(2), of t] by (simp add: view)
  next
    fix t k assume t: "t \<in> KG_TABLES" and k: "k \<in> dom (cb d' t)"
    then consider "k = table_key t x" | "k \<in> dom (cb d t)" using assms(3) [OF t] by (auto split: if_splits)
    then show "\<exists>y. plain_triple y \<and> k = table_key t y"
      using assms(1,2) t unfolding kv_sane_def by cases blast+
  qed
qed

lemma batch_sane:
  assumes "kv_sane cb d" and "op_ok plain_name (PutBatch ts)" and "kv_put_triples_batch E d ts = Inr d'"
  shows "kv_sane cb d' \<and> kv_view cb d' = foldl put_spec (kv_view cb d) ts"
  using assms
proof (induction ts arbitrary: d)
  case (Cons t ts)
  obtain s p o' meta where t: "t = (s, p, o', meta)" by (metis prod_cases4)
  then have plain: "plain_triple (s, p, o')" using Cons.prems(2) by (simp add: plain_triple_def)
  obtain d1 where d1: "kg_insert E d (s, p, o', meta) = Inr d1" "kv_put_triples_batch E d1 ts = Inr d'"
    using Cons.prems(3) t by (auto simp: res_bind_eq_Inr)
  note one = update_sane [OF Cons.prems(1) plain kg_insert_tables [OF d1(1)]]
  have "kv_sane cb d' \<and> kv_view cb d' = foldl put_spec (kv_view cb d1) ts" using Cons.IH [OF one(1) _ d1(2)] Cons.prems(2) by simp
  moreover have "put_spec (kv_view cb d) t = kv_view cb d1" by (simp add: t put_spec_def one(2))
  ultimately show ?case by simp
qed simp

lemma query_set:
  assumes "kv_sane cb d" and "kv_query_triples E d fs fp fo = Inr ts"
  shows "distinct ts \<and> (\<forall>s p o' meta. (s, p, o', meta) \<in> set ts \<longleftrightarrow>
    kv_view cb d (s, p, o') = Some meta \<and> wanted fs s \<and> wanted fp p \<and> wanted fo o')"
proof -
  obtain t pre where strategy: "query_strategy fs fp fo = (t, pre)" by fastforce
  then obtain items where items: "db_range (ed_bytes E) d t pre (pre @ [0x10ffff]) = Inr items"
      "ts = foldl (process_triple_result t fs fp fo) [] items"
    using assms(2) by (auto simp: kv_query_triples_def res_bind_eq_Inr)
  have t: "t \<in> KG_TABLES" using strategy by (auto simp: query_strategy_def KG_TABLES_def split: option.splits)
  note entries = b.range_ok [OF items(1)]
  have keys: "\<forall>kv \<in> set items. \<exists>x. plain_triple x \<and> fst kv = table_key t x"
    using assms(1) t entries unfolding kv_sane_def by (metis domI prod.collapse)
  have "(plain_triple (s, p, o') \<and> (table_key t (s, p, o'), meta) \<in> set items \<and> wanted fs s \<and> wanted fp p \<and> wanted fo o')
      \<longleftrightarrow> (kv_view cb d (s, p, o') = Some meta \<and> wanted fs s \<and> wanted fp p \<and> wanted fo o')" for s p o' meta
  proof (cases "plain_triple (s, p, o')")
    case True
    then have "cb d t (table_key t (s, p, o')) = kv_view cb d (s, p, o')" using assms(1) t unfolding kv_sane_def by blast
    then show ?thesis using True entries query_range(2,3) [OF True _ _ _ strategy] by auto
  qed (simp add: kv_view_def)
  then show ?thesis using process_items [OF t keys, of fs fp fo] entries unfolding items(2) by blast
qed

lemma kg_contract: "triple_store (engram_kv E) plain_name (kv_sane cb) (kv_view cb)"
proof unfold_locales
  fix d s p o' meta d' assume d: "kv_sane cb d" and plain: "plain_name s" "plain_name p" "plain_name o'"
    and put: "put_triple (engram_kv E) d s p o' meta = Inr d'"
  have "kg_insert E d (s, p, o', meta) = Inr d'" using put by (simp add: engram_kv_def kv_put_triple_def)
  from update_sane [OF d _ kg_insert_tables [OF this]] plain
  show "kv_sane cb d' \<and> kv_view cb d' = put_spec (kv_view cb d) (s, p, o', meta)" by (simp add: plain_triple_def put_spec_def)
next
  fix d ts d' assume "kv_sane cb d" "op_ok plain_name (PutBatch ts)" "put_triples_batch (engram_kv E) d ts = Inr d'"
  then show "kv_sane cb d' \<and> kv_view cb d' = foldl put_spec (kv_view cb d) ts"
    using batch_sane by (simp add: engram_kv_def)
next
  fix d s p o' d' r assume d: "kv_sane cb d" and plain: "plain_name s" "plain_name p" "plain_name o'"
    and del: "delete_triple (engram_kv E) d s p o' = Inr (d', r)"
  have del: "kv_delete_triple E d s p o' = Inr (d', r)" using del by (simp add: engram_kv_def)
  from update_sane [OF d _ kg_delete_tables(1) [OF del]] kg_delete_tables(2) [OF del] plain
  show "kv_sane cb d' \<and> kv_view cb d' = (kv_view cb d)((s, p, o') := None) \<and> r = (kv_view cb d (s, p, o') \<noteq> None)"
    by (simp add: plain_triple_def kv_view_def table_key_def)
next
  fix d fs fp fo ts assume "kv_sane cb d" "query_triples (engram_kv E) d fs fp fo = Inr ts"
  then show "distinct ts \<and> (\<forall>s p o' meta. (s, p, o', meta) \<in> set ts \<longleftrightarrow>
      kv_view cb d (s, p, o') = Some meta \<and> wanted fs s \<and> wanted fp p \<and> wanted fo o')"
    using query_set by (simp add: engram_kv_def)
qed

end

sublocale engram_tables \<subseteq> kg: triple_store "engram_kv E" plain_name "kv_sane cb" "kv_view cb"
  by (rule kg_contract)

section \<open>A database in memory\<close>

definition sample_engram :: "(rstr, bytes mem_db \<times> rstr mem_db) engram_db" where
  "sample_engram = \<lparr>ed_bytes = mem_ranges fst (\<lambda>a d. (a, snd d)), ed_strs = mem_ranges snd (\<lambda>a d. (fst d, a)),
     ed_error = (\<lambda>m. m), ed_file_len = (\<lambda>_. None)\<rparr>"

interpretation sample_kv: engram_tables sample_engram "\<lambda>d t. map_of (fst d t)" "\<lambda>d t. map_of (snd d t)"
  by (intro engram_tables.intro) (simp add: sample_engram_def mem_pair_tables)

section \<open>Properties\<close>


definition sample_kg :: "kg_op list" where
  "sample_kg = [PutTriple (lit ''a'', lit ''r'', lit ''b'', [1]), PutBatch [(lit ''d'', lit ''q'', lit ''b'', [3])],
     PutTriple (lit ''a'', lit ''r'', lit ''b'', [4]), DeleteTriple (lit ''d'') (lit ''q'') (lit ''b'')]"

lemma sample_kg_runs:
  "\<exists>d' bs. run_kg (engram_kv sample_engram) sample_kg (\<lambda>_. [], \<lambda>_. []) = Inr (d', bs)"
  by (simp add: sample_kg_def engram_kv_def kv_put_triple_def kg_insert_def kv_delete_triple_def sample_engram_def mem_ranges_sel)

lemma sample_kg_in_memory:
  "\<exists>st. run_kg (in_memory_storage order :: (rstr, in_memory_state) storage) sample_kg in_memory_new = Inr (st, [True])
     \<and> im_triples st = [(lit ''a'', lit ''r'', lit ''b'', [4])]"
  by (simp add: sample_kg_def in_memory_storage_def im_put_triple_def im_push_triple_def im_put_triples_batch_def
      im_delete_triple_def other_triple_def in_memory_new_def)


text \<open>
  The limits. A triple with the separator in a name is stored under a key that is skipped
  whichever index is read, so that no query finds it. The implementation in memory accepts
  content, sessions and experiences and forgets them.
\<close>
lemma length_split_char: "length (split_char c s) = Suc (count_list s c)"
  by (induction s) (auto split: list.splits)

theorem separator_hides_triple:
  assumes "SEPARATOR \<in> set a \<union> set b \<union> set c"
  shows "process_triple_result t fs fp fo results (kg_key a b c, meta) = results"
proof -
  have "0 < count_list a SEPARATOR \<or> 0 < count_list b SEPARATOR \<or> 0 < count_list c SEPARATOR"
    using assms by (auto simp: count_list_0_iff neq0_conv [symmetric] simp del: neq0_conv)
  then have "length (split_char SEPARATOR (kg_key a b c)) \<noteq> 3" by (auto simp: length_split_char kg_key_def)
  then show ?thesis by (auto simp: process_triple_result_def split: list.splits)
qed

theorem in_memory_forgets:
  "put_content (in_memory_storage order) st h b = Inr st \<and> get_content (in_memory_storage order) st h = Inr None
   \<and> put_session (in_memory_storage order) st h v = Inr st \<and> get_session (in_memory_storage order) st h = Inr None
   \<and> put_experience (in_memory_storage order) st h b = Inr st \<and> get_experience (in_memory_storage order) st h = Inr None"
  by (simp add: in_memory_storage_def)

end
