(* ===== verification/Fts_Index.thy ===== *)
theory Fts_Index
  imports Engram_Storage
begin

text \<open>
  The full-text index of the memory engine (\<^verbatim>\<open>engram/src/fts.rs\<close>) over the trait \<^verbatim>\<open>Storage\<close>:
  a forward index from documents to their term counts, and an inverted index in which the
  posting list of a term is a list of segments under keys of their own, each adding and
  removing documents, compacted into one when there are eight. Operations run under the
  engine's lock. The tokenizer's dictionary, the \<^verbatim>\<open>bincode\<close> codecs, the LRU cache, the clock and
  the logarithm are arguments; hash maps are iterated in an order of their keys. An operation
  that fails part way keeps what it wrote.
\<close>

section \<open>Data\<close>

definition STOPWORDS :: "rstr list" where
  "STOPWORDS = [
     lit ''the'', lit ''a'', lit ''an'', lit ''and'', lit ''or'', lit ''but'', lit ''in'', lit ''on'',
     lit ''at'', lit ''to'', lit ''for'', lit ''with'', lit ''is'', lit ''are'', lit ''was'', lit ''were'',
     lit ''of'', [30340], [20102], [26159], [22312], [25105], [26377], [21644], [23601], [19981], [20154],
     [37117], [19968], [19968, 20010], [19978], [20063], [24456], [21040], [35828], [35201], [21435],
     [20320], [20250], [30528], [27809, 26377], [30475], [22909], [33258, 24049], [36825]]"

text \<open>Document and term counts are far below the limit of \<^verbatim>\<open>u64\<close>.\<close>
record fts_stats =
  fs_total_docs :: nat
  fs_total_len :: nat
  fs_avg_dl :: rat

definition default_fts_stats :: fts_stats where
  "default_fts_stats = \<lparr>fs_total_docs = 0, fs_total_len = 0, fs_avg_dl = 0\<rparr>"

definition average_length :: "nat \<Rightarrow> nat \<Rightarrow> rat" where
  "average_length total_len total_docs = f64_round (f64_round (of_nat total_len) / f64_round (of_nat total_docs))"

definition stats_update :: "fts_stats \<Rightarrow> u32 \<Rightarrow> fts_stats" where
  "stats_update st new_doc_len =
     (let docs = fs_total_docs st + 1; len = fs_total_len st + unat new_doc_len
      in \<lparr>fs_total_docs = docs, fs_total_len = len, fs_avg_dl = average_length len docs\<rparr>)"

definition stats_remove :: "fts_stats \<Rightarrow> u32 \<Rightarrow> fts_stats" where
  "stats_remove st old_doc_len =
     (if fs_total_docs st > 0
      then let docs = fs_total_docs st - 1; len = fs_total_len st - unat old_doc_len
           in \<lparr>fs_total_docs = docs, fs_total_len = len, fs_avg_dl = (if docs > 0 then average_length len docs else 0)\<rparr>
      else st)"

record posting_entry =
  pe_doc_key :: rstr
  pe_term_frequency :: u32
  pe_doc_length :: u32

record posting_list =
  pl_term :: rstr
  pl_entries :: "posting_entry list"

definition POSTING_STATE_CONTRACT_VERSION :: u32 where "POSTING_STATE_CONTRACT_VERSION = 1"
definition POSTING_SEGMENT_COMPACT_THRESHOLD :: nat where "POSTING_SEGMENT_COMPACT_THRESHOLD = 8"
definition POSTING_SEGMENT_PREFIX :: rstr where "POSTING_SEGMENT_PREFIX = lit ''__fts_segment__''"

record posting_list_state =
  ps_contract_version :: u32
  ps_term :: rstr
  ps_segments :: "rstr list"

record posting_segment =
  sg_term :: rstr
  sg_added_entries :: "posting_entry list"
  sg_removed_doc_keys :: "rstr list"

record bm25_config =
  bm_k1 :: rat
  bm_b :: rat

definition default_bm25_config :: bm25_config where
  "default_bm25_config = \<lparr>bm_k1 = f64_round (12 / 10), bm_b = 3 / 4\<rparr>"

record fts_result =
  ft_doc_key :: rstr
  ft_score :: rat

text \<open>The engine: the store, the cache and the counter of segments.\<close>
record ('s, 'c) fts_engine =
  fe_kv :: 's
  fe_cache :: 'c
  fe_segment_seq :: nat

text \<open>What it works with.\<close>
record ('e, 's, 'c) fts_env =
  fx_storage :: "('e, 's) storage"
  fx_unicode :: unicode
  fx_cut :: "rstr \<Rightarrow> rstr list"
  fx_counts :: "('e, rstr \<rightharpoonup> u32, bytes) codec"
  fx_stats :: "('e, fts_stats, bytes) codec"
  fx_state :: "('e, posting_list_state, bytes) codec"
  fx_segment :: "('e, posting_segment, bytes) codec"
  fx_list :: "('e, posting_list, bytes) codec"
  fx_error :: "rstr \<Rightarrow> 'e"
  fx_order :: "rstr set \<Rightarrow> rstr list"
  fx_now_ms :: "('s, 'c) fts_engine \<Rightarrow> nat"
  fx_cache_get :: "'c \<Rightarrow> rstr \<Rightarrow> 'c \<times> posting_list option"
  fx_cache_put :: "'c \<Rightarrow> rstr \<Rightarrow> posting_list \<Rightarrow> 'c"
  fx_cache_pop :: "'c \<Rightarrow> rstr \<Rightarrow> 'c"
  fx_round :: "rat \<Rightarrow> rat"
  fx_ln :: "rat \<Rightarrow> rat"
  fx_config :: bm25_config

definition fts_new :: "'s \<Rightarrow> 'c \<Rightarrow> ('s, 'c) fts_engine" where
  "fts_new kv empty_cache = \<lparr>fe_kv = kv, fe_cache = empty_cache, fe_segment_seq = 1\<rparr>"

section \<open>Access to the store\<close>

definition kv_write :: "('s, 'c) fts_engine \<Rightarrow> 'e + 's \<Rightarrow> ('s, 'c) fts_engine \<times> ('e + unit)" where
  "kv_write w r = (case r of Inl e \<Rightarrow> (w, Inl e) | Inr s \<Rightarrow> (w\<lparr>fe_kv := s\<rparr>, Inr ()))"

definition kv_delete :: "('s, 'c) fts_engine \<Rightarrow> 'e + ('s \<times> bool) \<Rightarrow> ('s, 'c) fts_engine \<times> ('e + unit)" where
  "kv_delete w r = (case r of Inl e \<Rightarrow> (w, Inl e) | Inr (s, _) \<Rightarrow> (w\<lparr>fe_kv := s\<rparr>, Inr ()))"

definition write_encoded :: "('e, 'a, bytes) codec \<Rightarrow> ('s \<Rightarrow> rstr \<Rightarrow> bytes \<Rightarrow> 'e + 's) \<Rightarrow> rstr \<Rightarrow> 'a \<Rightarrow> ('s, 'c) fts_engine \<Rightarrow>
  ('s, 'c) fts_engine \<times> ('e + unit)" where
  "write_encoded C put key x w = kv_write w (res_bind (to_vec C x) (put (fe_kv w) key))"

definition put_inverted :: "('e, 's, 'c) fts_env \<Rightarrow> ('e, 'a, bytes) codec \<Rightarrow> rstr \<Rightarrow> 'a \<Rightarrow> ('s, 'c) fts_engine \<Rightarrow>
  ('s, 'c) fts_engine \<times> ('e + unit)" where
  "put_inverted E C = write_encoded C (put_fts_inverted (fx_storage E))"

definition delete_inverted :: "('e, 's, 'c) fts_env \<Rightarrow> rstr \<Rightarrow> ('s, 'c) fts_engine \<Rightarrow> ('s, 'c) fts_engine \<times> ('e + unit)" where
  "delete_inverted E key w = kv_delete w (delete_fts_inverted (fx_storage E) (fe_kv w) key)"

definition get_stats :: "('e, 's, 'c) fts_env \<Rightarrow> ('s, 'c) fts_engine \<Rightarrow> 'e + fts_stats" where
  "get_stats E w = res_bind (get_collection (fx_storage E) (fe_kv w) (lit ''__fts_stats__'')) (\<lambda>found.
     case found of Some data \<Rightarrow> from_slice (fx_stats E) data | None \<Rightarrow> Inr default_fts_stats)"

definition put_stats :: "('e, 's, 'c) fts_env \<Rightarrow> fts_stats \<Rightarrow> ('s, 'c) fts_engine \<Rightarrow> ('s, 'c) fts_engine \<times> ('e + unit)" where
  "put_stats E = write_encoded (fx_stats E) (put_collection (fx_storage E)) (lit ''__fts_stats__'')"

definition get_forward_tf_map :: "('e, 's, 'c) fts_env \<Rightarrow> ('s, 'c) fts_engine \<Rightarrow> rstr \<Rightarrow> 'e + (rstr \<rightharpoonup> u32) option" where
  "get_forward_tf_map E w doc_key = res_bind (get_fts_forward (fx_storage E) (fe_kv w) doc_key) (\<lambda>found.
     case found of None \<Rightarrow> Inr None | Some data \<Rightarrow> res_bind (from_slice (fx_counts E) data) (\<lambda>m. Inr (Some m)))"

section \<open>Terms\<close>

definition keep_token :: "('e, 's, 'c) fts_env \<Rightarrow> rstr \<Rightarrow> rstr option" where
  "keep_token E s =
     (let trimmed = trim s in
      if trimmed = [] \<or> trimmed \<in> set STOPWORDS then None
      else let first_char = hd trimmed; is_cjk = (0x4e00 \<le> first_char \<and> first_char \<le> 0x9fff);
               is_alphanum = u_alnum (fx_unicode E) first_char
           in if is_cjk \<and> is_alphanum \<or> utf8_len trimmed \<ge> 2 then Some trimmed else None)"

definition tokenize :: "('e, 's, 'c) fts_env \<Rightarrow> rstr \<Rightarrow> rstr list" where
  "tokenize E text = List.map_filter (keep_token E) (fx_cut E (u_lower (fx_unicode E) text))"

definition count_term :: "(rstr \<rightharpoonup> u32) \<Rightarrow> rstr \<Rightarrow> rstr \<rightharpoonup> u32" where
  "count_term m term = m(term \<mapsto> (case m term of Some n \<Rightarrow> n | None \<Rightarrow> 0) + 1)"

definition term_counts :: "rstr list \<Rightarrow> rstr \<rightharpoonup> u32" where
  "term_counts terms = foldl count_term Map.empty terms"

text \<open>The sum of the values of a map, in the order of its keys.\<close>
definition values_sum :: "('e, 's, 'c) fts_env \<Rightarrow> (rstr \<rightharpoonup> u32) \<Rightarrow> u32" where
  "values_sum E m = sum_list (List.map_filter m (fx_order E (dom m)))"

section \<open>Posting lists\<close>

definition segment_key :: "rstr \<Rightarrow> nat \<Rightarrow> nat \<Rightarrow> rstr" where
  "segment_key term now_ms seq = POSTING_SEGMENT_PREFIX @ lit '':'' @ term @ lit '':'' @ show_nat now_ms @ lit '':'' @ show_nat seq"

definition next_segment_key :: "('e, 's, 'c) fts_env \<Rightarrow> rstr \<Rightarrow> ('s, 'c) fts_engine \<Rightarrow> ('s, 'c) fts_engine \<times> rstr" where
  "next_segment_key E term w = (w\<lparr>fe_segment_seq := fe_segment_seq w + 1\<rparr>, segment_key term (fx_now_ms E w) (fe_segment_seq w))"

definition persist_posting_state :: "('e, 's, 'c) fts_env \<Rightarrow> posting_list_state \<Rightarrow> ('s, 'c) fts_engine \<Rightarrow>
  ('s, 'c) fts_engine \<times> ('e + unit)" where
  "persist_posting_state E state = put_inverted E (fx_state E) (ps_term state) state"

text \<open>Write a segment under a new key.\<close>
definition put_segment :: "('e, 's, 'c) fts_env \<Rightarrow> rstr \<Rightarrow> posting_entry list \<Rightarrow> rstr list \<Rightarrow> ('s, 'c) fts_engine \<Rightarrow>
  ('s, 'c) fts_engine \<times> ('e + rstr)" where
  "put_segment E term added_entries removed_doc_keys w =
     (let (w1, key) = next_segment_key E term w
      in io_then (put_inverted E (fx_segment E) key
             \<lparr>sg_term = term, sg_added_entries = added_entries, sg_removed_doc_keys = removed_doc_keys\<rparr> w1)
           (\<lambda>_ w. (w, Inr key)))"

definition posting_state_from_legacy :: "('e, 's, 'c) fts_env \<Rightarrow> rstr \<Rightarrow> posting_list \<Rightarrow> ('s, 'c) fts_engine \<Rightarrow>
  ('s, 'c) fts_engine \<times> ('e + posting_list_state)" where
  "posting_state_from_legacy E term legacy w =
     io_then (put_segment E term (pl_entries legacy) [] w) (\<lambda>key w.
     let state = \<lparr>ps_contract_version = POSTING_STATE_CONTRACT_VERSION, ps_term = term, ps_segments = [key]\<rparr>
     in io_then (persist_posting_state E state w) (\<lambda>_ w. (w, Inr state)))"

definition apply_segment :: "posting_segment \<Rightarrow> (rstr \<rightharpoonup> posting_entry) \<Rightarrow> rstr \<rightharpoonup> posting_entry" where
  "apply_segment segment entries =
     foldl (\<lambda>m entry. m(pe_doc_key entry \<mapsto> entry))
       (foldl (\<lambda>m doc_key. m(doc_key := None)) entries (sg_removed_doc_keys segment)) (sg_added_entries segment)"

fun merge_segments :: "('e, 's, 'c) fts_env \<Rightarrow> 's \<Rightarrow> rstr list \<Rightarrow> (rstr \<rightharpoonup> posting_entry) \<Rightarrow> 'e + (rstr \<rightharpoonup> posting_entry)" where
  "merge_segments E s [] entries = Inr entries"
| "merge_segments E s (key # ks) entries =
     res_bind (get_fts_inverted (fx_storage E) s key) (\<lambda>found. case found of
         None \<Rightarrow> merge_segments E s ks entries
       | Some data \<Rightarrow> res_bind (from_slice (fx_segment E) data) (\<lambda>segment.
           merge_segments E s ks (apply_segment segment entries)))"

definition entries_list :: "('e, 's, 'c) fts_env \<Rightarrow> rstr \<Rightarrow> (rstr \<rightharpoonup> posting_entry) \<Rightarrow> posting_list" where
  "entries_list E term entries = \<lparr>pl_term = term,
     pl_entries = sort_by (\<lambda>left right. pe_doc_key left \<le> pe_doc_key right) (List.map_filter entries (fx_order E (dom entries)))\<rparr>"

definition materialize_posting_state :: "('e, 's, 'c) fts_env \<Rightarrow> 's \<Rightarrow> posting_list_state \<Rightarrow> 'e + posting_list" where
  "materialize_posting_state E s state =
     res_bind (merge_segments E s (ps_segments state) Map.empty) (\<lambda>entries. Inr (entries_list E (ps_term state) entries))"

definition get_or_migrate_posting_state :: "('e, 's, 'c) fts_env \<Rightarrow> rstr \<Rightarrow> ('s, 'c) fts_engine \<Rightarrow>
  ('s, 'c) fts_engine \<times> ('e + posting_list_state option)" where
  "get_or_migrate_posting_state E term w =
     io_then (w, get_fts_inverted (fx_storage E) (fe_kv w) term) (\<lambda>found w. case found of
         None \<Rightarrow> (w, Inr None)
       | Some data \<Rightarrow> (case from_slice (fx_state E) data of
             Inr state \<Rightarrow> (w, Inr (Some state))
           | Inl _ \<Rightarrow> (case from_slice (fx_list E) data of
               Inr legacy \<Rightarrow> io_then (posting_state_from_legacy E term legacy w) (\<lambda>state w. (w, Inr (Some state)))
             | Inl _ \<Rightarrow> (w, Inl (fx_error E (lit ''Failed to deserialize posting state for term '' @ term))))))"

definition get_posting_list_internal :: "('e, 's, 'c) fts_env \<Rightarrow> rstr \<Rightarrow> ('s, 'c) fts_engine \<Rightarrow>
  ('s, 'c) fts_engine \<times> ('e + posting_list)" where
  "get_posting_list_internal E term w =
     (case fx_cache_get E (fe_cache w) term of
        (c, Some l) \<Rightarrow> (w\<lparr>fe_cache := c\<rparr>, Inr l)
      | (c, None) \<Rightarrow>
          (let w = w\<lparr>fe_cache := c\<rparr> in
           io_then (w, get_fts_inverted (fx_storage E) (fe_kv w) term) (\<lambda>found w. case found of
               Some data \<Rightarrow>
                 io_then (w, case from_slice (fx_state E) data of
                     Inr state \<Rightarrow> materialize_posting_state E (fe_kv w) state
                   | Inl _ \<Rightarrow> from_slice (fx_list E) data) (\<lambda>l w.
                 (w\<lparr>fe_cache := fx_cache_put E (fe_cache w) term l\<rparr>, Inr l))
             | None \<Rightarrow> (w, Inr \<lparr>pl_term = term, pl_entries = []\<rparr>))))"

text \<open>The second half of the update: replace eight or more segments by one.\<close>
definition compact_segments :: "('e, 's, 'c) fts_env \<Rightarrow> rstr \<Rightarrow> posting_list_state \<Rightarrow> posting_list \<Rightarrow> ('s, 'c) fts_engine \<Rightarrow>
  ('s, 'c) fts_engine \<times> ('e + posting_list_state \<times> posting_list)" where
  "compact_segments E term state resolved w =
     (if length (ps_segments state) \<ge> POSTING_SEGMENT_COMPACT_THRESHOLD
      then io_then (put_segment E term (pl_entries resolved) [] w) (\<lambda>key w.
           io_then (io_each (delete_inverted E) (ps_segments state) w) (\<lambda>_ w.
           let state = state\<lparr>ps_segments := [key]\<rparr>
           in io_then (w, materialize_posting_state E (fe_kv w) state) (\<lambda>resolved w. (w, Inr (state, resolved)))))
      else (w, Inr (state, resolved)))"

text \<open>The end of the update: an empty posting list is deleted, another one stored and cached.\<close>
definition store_posting :: "('e, 's, 'c) fts_env \<Rightarrow> rstr \<Rightarrow> posting_list_state \<Rightarrow> posting_list \<Rightarrow> ('s, 'c) fts_engine \<Rightarrow>
  ('s, 'c) fts_engine \<times> ('e + unit)" where
  "store_posting E term state resolved w =
     (let w = w\<lparr>fe_cache := fx_cache_pop E (fe_cache w) term\<rparr>
      in if pl_entries resolved = []
         then io_then (io_each (delete_inverted E) (ps_segments state) w) (\<lambda>_ w. delete_inverted E term w)
         else io_then (persist_posting_state E state w) (\<lambda>_ w.
           (w\<lparr>fe_cache := fx_cache_put E (fe_cache w) term resolved\<rparr>, Inr ())))"

definition apply_term_delta :: "('e, 's, 'c) fts_env \<Rightarrow> rstr \<Rightarrow> posting_entry list \<Rightarrow> rstr list \<Rightarrow> ('s, 'c) fts_engine \<Rightarrow>
  ('s, 'c) fts_engine \<times> ('e + unit)" where
  "apply_term_delta E term added_entries removed_doc_keys w =
     io_then (get_or_migrate_posting_state E term w) (\<lambda>found w.
     let state = (case found of Some state \<Rightarrow> state
       | None \<Rightarrow> \<lparr>ps_contract_version = POSTING_STATE_CONTRACT_VERSION, ps_term = term, ps_segments = []\<rparr>)
     in io_then (if added_entries \<noteq> [] \<or> removed_doc_keys \<noteq> []
           then io_then (put_segment E term added_entries removed_doc_keys w) (\<lambda>key w.
             (w, Inr (state\<lparr>ps_segments := ps_segments state @ [key]\<rparr>)))
           else (w, Inr state)) (\<lambda>state w.
     io_then (w, materialize_posting_state E (fe_kv w) state) (\<lambda>resolved w.
     io_then (compact_segments E term state resolved w) (\<lambda>(state, resolved) w.
     store_posting E term state resolved w))))"

section \<open>Indexing\<close>

definition term_delta :: "rstr \<Rightarrow> u32 \<Rightarrow> (rstr \<rightharpoonup> u32) option \<Rightarrow> (rstr \<rightharpoonup> u32) \<Rightarrow> rstr \<Rightarrow> posting_entry list \<times> rstr list" where
  "term_delta doc_key doc_length previous tf_map term =
     ((case tf_map term of Some n \<Rightarrow> [\<lparr>pe_doc_key = doc_key, pe_term_frequency = n, pe_doc_length = doc_length\<rparr>] | None \<Rightarrow> []),
      (case previous of Some p \<Rightarrow> (if p term \<noteq> None then [doc_key] else []) | None \<Rightarrow> []))"

definition index_document :: "('e, 's, 'c) fts_env \<Rightarrow> rstr \<Rightarrow> rstr \<Rightarrow> ('s, 'c) fts_engine \<Rightarrow> ('s, 'c) fts_engine \<times> ('e + unit)" where
  "index_document E doc_key text w =
     (let terms = tokenize E text; doc_length = of_nat (length terms)
      in io_then (w, get_forward_tf_map E w doc_key) (\<lambda>previous w.
         let tf_map = term_counts terms
         in io_then (w, get_stats E w) (\<lambda>stats w.
            let stats = (case previous of Some p \<Rightarrow> stats_remove stats (values_sum E p) | None \<Rightarrow> stats)
            in io_then (put_stats E (stats_update stats doc_length) w) (\<lambda>_ w.
               io_then (write_encoded (fx_counts E) (put_fts_forward (fx_storage E)) doc_key tf_map w) (\<lambda>_ w.
               let affected = dom tf_map \<union> (case previous of Some p \<Rightarrow> dom p | None \<Rightarrow> {})
               in io_each (\<lambda>term. apply_term_delta E term (fst (term_delta doc_key doc_length previous tf_map term))
                      (snd (term_delta doc_key doc_length previous tf_map term))) (fx_order E affected) w)))))"

text \<open>The batch collects the entries and the documents of each term first.\<close>
record batch_state =
  bs_stats :: fts_stats
  bs_entries :: "rstr \<rightharpoonup> posting_entry list"
  bs_affected :: "rstr \<rightharpoonup> rstr set"

definition affect :: "rstr \<Rightarrow> batch_state \<Rightarrow> rstr \<Rightarrow> batch_state" where
  "affect doc_key b term = b\<lparr>bs_affected := (bs_affected b)(term \<mapsto>
     insert doc_key (case bs_affected b term of Some ds \<Rightarrow> ds | None \<Rightarrow> {}))\<rparr>"

definition add_entry :: "rstr \<Rightarrow> u32 \<Rightarrow> (rstr \<rightharpoonup> u32) \<Rightarrow> batch_state \<Rightarrow> rstr \<Rightarrow> batch_state" where
  "add_entry doc_key doc_length tf_map b term = affect doc_key (b\<lparr>bs_entries := (bs_entries b)(term \<mapsto>
     (case bs_entries b term of Some es \<Rightarrow> es | None \<Rightarrow> []) @ [\<lparr>pe_doc_key = doc_key,
        pe_term_frequency = (case tf_map term of Some n \<Rightarrow> n | None \<Rightarrow> 0), pe_doc_length = doc_length\<rparr>])\<rparr>) term"

definition batch_document :: "('e, 's, 'c) fts_env \<Rightarrow> batch_state \<Rightarrow> rstr \<times> rstr \<Rightarrow> ('s, 'c) fts_engine \<Rightarrow>
  ('s, 'c) fts_engine \<times> ('e + batch_state)" where
  "batch_document E b doc w =
     (let doc_key = fst doc; terms = tokenize E (snd doc); doc_length = of_nat (length terms)
      in io_then (w, get_forward_tf_map E w doc_key) (\<lambda>previous w.
         let b = (case previous of
               Some p \<Rightarrow> foldl (affect doc_key) (b\<lparr>bs_stats := stats_remove (bs_stats b) (values_sum E p)\<rparr>) (fx_order E (dom p))
             | None \<Rightarrow> b);
             b = b\<lparr>bs_stats := stats_update (bs_stats b) doc_length\<rparr>; tf_map = term_counts terms
         in io_then (write_encoded (fx_counts E) (put_fts_forward (fx_storage E)) doc_key tf_map w) (\<lambda>_ w.
            (w, Inr (foldl (add_entry doc_key doc_length tf_map) b (fx_order E (dom tf_map)))))))"

fun batch_documents :: "('e, 's, 'c) fts_env \<Rightarrow> batch_state \<Rightarrow> (rstr \<times> rstr) list \<Rightarrow> ('s, 'c) fts_engine \<Rightarrow>
  ('s, 'c) fts_engine \<times> ('e + batch_state)" where
  "batch_documents E b [] w = (w, Inr b)"
| "batch_documents E b (doc # docs) w = io_then (batch_document E b doc w) (\<lambda>b w. batch_documents E b docs w)"

definition index_batch :: "('e, 's, 'c) fts_env \<Rightarrow> (rstr \<times> rstr) list \<Rightarrow> ('s, 'c) fts_engine \<Rightarrow> ('s, 'c) fts_engine \<times> ('e + unit)" where
  "index_batch E docs w =
     io_then (w, get_stats E w) (\<lambda>stats w.
     io_then (batch_documents E \<lparr>bs_stats = stats, bs_entries = Map.empty, bs_affected = Map.empty\<rparr> docs w) (\<lambda>b w.
     io_then (io_each (\<lambda>term. apply_term_delta E term (case bs_entries b term of Some es \<Rightarrow> es | None \<Rightarrow> [])
         (fx_order E (case bs_affected b term of Some ds \<Rightarrow> ds | None \<Rightarrow> {}))) (fx_order E (dom (bs_affected b))) w) (\<lambda>_ w.
     put_stats E (bs_stats b) w)))"

text \<open>Removing a document; the length is taken from the first posting list that has the document.\<close>
fun delete_terms :: "('e, 's, 'c) fts_env \<Rightarrow> rstr \<Rightarrow> rstr list \<Rightarrow> u32 \<Rightarrow> ('s, 'c) fts_engine \<Rightarrow> ('s, 'c) fts_engine \<times> ('e + u32)" where
  "delete_terms E doc_key [] doc_len w = (w, Inr doc_len)"
| "delete_terms E doc_key (term # ts) doc_len w =
     io_then (get_posting_list_internal E term w) (\<lambda>posting_list w.
     let doc_len = (if doc_len = 0
       then (case find (\<lambda>e. pe_doc_key e = doc_key) (pl_entries posting_list) of Some entry \<Rightarrow> pe_doc_length entry | None \<Rightarrow> doc_len)
       else doc_len)
     in io_then (apply_term_delta E term [] [doc_key] w) (\<lambda>_ w. delete_terms E doc_key ts doc_len w))"

definition fts_delete_document :: "('e, 's, 'c) fts_env \<Rightarrow> rstr \<Rightarrow> ('s, 'c) fts_engine \<Rightarrow> ('s, 'c) fts_engine \<times> ('e + unit)" where
  "fts_delete_document E doc_key w =
     io_then (w, get_stats E w) (\<lambda>stats w.
     io_then (w, get_forward_tf_map E w doc_key) (\<lambda>forward w.
     io_then (case forward of
         Some tf_map \<Rightarrow> io_then (delete_terms E doc_key (fx_order E (dom tf_map)) 0 w) (\<lambda>doc_len w.
           if doc_len > 0 then put_stats E (stats_remove stats doc_len) w else (w, Inr ()))
       | None \<Rightarrow> (w, Inr ())) (\<lambda>_ w.
     kv_delete w (delete_fts_forward (fx_storage E) (fe_kv w) doc_key))))"

section \<open>Search\<close>

definition score_entry :: "('e, 's, 'c) fts_env \<Rightarrow> rat \<Rightarrow> rat \<Rightarrow> posting_entry \<Rightarrow> rat" where
  "score_entry E avg_dl idf entry =
     (let r = fx_round E; k1 = bm_k1 (fx_config E); b = bm_b (fx_config E);
          tf = of_nat (unat (pe_term_frequency entry)); dl = of_nat (unat (pe_doc_length entry));
          numerator = r (tf * r (k1 + 1));
          denominator = r (tf + r (k1 * r (r (1 - b) + r (r (b * dl) / avg_dl))))
      in r (r (idf * numerator) / denominator))"

definition inverse_frequency :: "('e, 's, 'c) fts_env \<Rightarrow> nat \<Rightarrow> nat \<Rightarrow> rat" where
  "inverse_frequency E total_docs df =
     (let r = fx_round E; n = r (of_nat total_docs); d = r (of_nat df)
      in fx_ln E (r (r (r (r (n - d) + 1 / 2) / r (d + 1 / 2)) + 1)))"

definition add_score :: "('e, 's, 'c) fts_env \<Rightarrow> (posting_entry \<Rightarrow> rat) \<Rightarrow> (rstr \<rightharpoonup> rat) \<Rightarrow> posting_entry \<Rightarrow> rstr \<rightharpoonup> rat" where
  "add_score E score scores entry = scores(pe_doc_key entry \<mapsto>
     fx_round E ((case scores (pe_doc_key entry) of Some x \<Rightarrow> x | None \<Rightarrow> 0) + score entry))"

fun score_terms :: "('e, 's, 'c) fts_env \<Rightarrow> nat \<Rightarrow> rat \<Rightarrow> rstr list \<Rightarrow> (rstr \<rightharpoonup> rat) \<Rightarrow> ('s, 'c) fts_engine \<Rightarrow>
  ('s, 'c) fts_engine \<times> ('e + (rstr \<rightharpoonup> rat))" where
  "score_terms E total_docs avg_dl [] scores w = (w, Inr scores)"
| "score_terms E total_docs avg_dl (term # ts) scores w =
     io_then (get_posting_list_internal E term w) (\<lambda>posting_list w.
     let entries = pl_entries posting_list; df = length entries
     in score_terms E total_docs avg_dl ts
          (if df = 0 then scores
           else foldl (add_score E (score_entry E avg_dl (inverse_frequency E total_docs df))) scores
             (if length entries > 5000 then take 5000 entries else entries)) w)"

definition fts_search :: "('e, 's, 'c) fts_env \<Rightarrow> rstr \<Rightarrow> nat \<Rightarrow> ('s, 'c) fts_engine \<Rightarrow> ('s, 'c) fts_engine \<times> ('e + fts_result list)" where
  "fts_search E query limit w =
     io_then (w, get_stats E w) (\<lambda>stats w.
     let total_docs = fs_total_docs stats; avg_dl = (if fs_avg_dl stats > 0 then fs_avg_dl stats else 100)
     in if total_docs = 0 then (w, Inr [])
        else io_then (score_terms E total_docs avg_dl (tokenize E query) Map.empty w) (\<lambda>scores w.
          let results = map (\<lambda>k. \<lparr>ft_doc_key = k, ft_score = (case scores k of Some x \<Rightarrow> x | None \<Rightarrow> 0)\<rparr>) (fx_order E (dom scores))
          in (w, Inr (take limit (sort_by (le_desc ft_score) results)))))"

end
