(* ===== verification/Fts_Correct.thy ===== *)
theory Fts_Correct
  imports Fts_Index
begin

text \<open>
  The full-text index is correct. Against the plain index, a map from documents to their
  lists of terms, the tables the engine writes say the same thing after every operation:
  the forward table has the counts of every document, the segments of every term add up
  to the posting list of the term, the cache agrees with them and the statistics are
  exact. A search finds the documents with a term of the query and ranks them by BM25.
  The laws of the storage, the codecs and the cache are the locales \<open>fts_store\<close> and
  \<open>fts_laws\<close>; \<open>F\<close> says whether the storage may fail, so that one proof gives
  what holds of the calls that succeed, and for a storage that does not fail that every
  call succeeds.
\<close>

section \<open>Postconditions\<close>

definition res_post :: "bool \<Rightarrow> ('a \<Rightarrow> bool) \<Rightarrow> 'e + 'a \<Rightarrow> bool" where
  "res_post F Q r = (case r of Inl _ \<Rightarrow> F | Inr x \<Rightarrow> Q x)"

definition io_post :: "bool \<Rightarrow> ('a \<Rightarrow> 'w \<Rightarrow> bool) \<Rightarrow> 'w \<times> ('e + 'a) \<Rightarrow> bool" where
  "io_post F Q r = (case snd r of Inl _ \<Rightarrow> F | Inr x \<Rightarrow> Q x (fst r))"

lemma res_post_Inr [simp]: "res_post F Q (Inr x) = Q x"
  by (simp add: res_post_def)

lemma res_post_bind: "res_post F (\<lambda>x. res_post F Q (f x)) r \<Longrightarrow> res_post F Q (res_bind r f)"
  by (auto simp: res_post_def res_bind_def split: sum.splits)

lemma res_post_mono: "res_post F Q r \<Longrightarrow> (\<And>x. Q x \<Longrightarrow> Q' x) \<Longrightarrow> res_post F Q' r"
  by (auto simp: res_post_def split: sum.splits)

lemma io_post_pure [simp]: "io_post F Q (w, r) = res_post F (\<lambda>x. Q x w) r"
  by (auto simp: res_post_def io_post_def split: sum.splits)

lemma io_post_then: "io_post F (\<lambda>x w. io_post F Q (f x w)) r \<Longrightarrow> io_post F Q (io_then r f)"
  by (auto simp: io_post_def io_then_def res_post_def split: sum.splits prod.splits)

lemma io_post_mono: "io_post F Q r \<Longrightarrow> (\<And>x w. Q x w \<Longrightarrow> Q' x w) \<Longrightarrow> io_post F Q' r"
  by (auto simp: io_post_def split: sum.splits)

lemma io_post_seq: "io_post F Q r \<Longrightarrow> (\<And>x w. Q x w \<Longrightarrow> io_post F Q' (f x w)) \<Longrightarrow> io_post F Q' (io_then r f)"
  by (rule io_post_then) (rule io_post_mono)

lemma io_post_call: "res_post F Q r \<Longrightarrow> (\<And>x. Q x \<Longrightarrow> io_post F Q' (f x w)) \<Longrightarrow> io_post F Q' (io_then (w, r) f)"
  by (rule io_post_then) (simp add: res_post_mono)

lemma io_post_each_aux:
  assumes "\<And>ys x zs w. xs = ys @ x # zs \<Longrightarrow> I ys w \<Longrightarrow> io_post F (\<lambda>_. I (ys @ [x])) (f x w)"
  shows "xs = us @ vs \<Longrightarrow> I us w \<Longrightarrow> io_post F (\<lambda>_. I xs) (io_each f vs w)"
proof (induction vs arbitrary: us w)
  case (Cons v vs)
  have "io_post F (\<lambda>_. I (us @ [v])) (f v w)" using assms Cons.prems by blast
  then show ?case using Cons.IH [of "us @ [v]"] Cons.prems(1) by (auto intro: io_post_seq)
qed simp

lemma io_post_each:
  assumes "\<And>ys x zs w. xs = ys @ x # zs \<Longrightarrow> I ys w \<Longrightarrow> io_post F (\<lambda>_. I (ys @ [x])) (f x w)" "I [] w"
  shows "io_post F (\<lambda>_. I xs) (io_each f xs w)"
  using io_post_each_aux [of xs I F f "[]" xs w] assms by simp

section \<open>Interfaces\<close>

record ('s, 'c) fts_view =
  vw_forward :: "'s \<Rightarrow> rstr \<rightharpoonup> bytes"
  vw_inverted :: "'s \<Rightarrow> rstr \<rightharpoonup> bytes"
  vw_collection :: "'s \<Rightarrow> rstr \<rightharpoonup> bytes"
  vw_cached :: "'c \<Rightarrow> rstr \<rightharpoonup> posting_list"

locale fts_store =
  fixes S :: "('e, 's) storage" and V :: "('s, 'c) fts_view" and F :: bool
  assumes get_forward: "res_post F (\<lambda>r. r = vw_forward V s k) (get_fts_forward S s k)"
    and get_inverted: "res_post F (\<lambda>r. r = vw_inverted V s k) (get_fts_inverted S s k)"
    and get_coll: "res_post F (\<lambda>r. r = vw_collection V s k) (get_collection S s k)"
    and put_forward: "res_post F (\<lambda>s'. vw_forward V s' = (vw_forward V s)(k \<mapsto> v) \<and> vw_inverted V s' = vw_inverted V s
        \<and> vw_collection V s' = vw_collection V s) (put_fts_forward S s k v)"
    and put_inverted: "res_post F (\<lambda>s'. vw_inverted V s' = (vw_inverted V s)(k \<mapsto> v) \<and> vw_forward V s' = vw_forward V s
        \<and> vw_collection V s' = vw_collection V s) (put_fts_inverted S s k v)"
    and put_coll: "res_post F (\<lambda>s'. vw_collection V s' = (vw_collection V s)(k \<mapsto> v) \<and> vw_forward V s' = vw_forward V s
        \<and> vw_inverted V s' = vw_inverted V s) (put_collection S s k v)"
    and delete_forward: "res_post F (\<lambda>(s', b). vw_forward V s' = (vw_forward V s)(k := None) \<and> vw_inverted V s' = vw_inverted V s
        \<and> vw_collection V s' = vw_collection V s) (delete_fts_forward S s k)"
    and delete_inverted: "res_post F (\<lambda>(s', b). vw_inverted V s' = (vw_inverted V s)(k := None) \<and> vw_forward V s' = vw_forward V s
        \<and> vw_collection V s' = vw_collection V s) (delete_fts_inverted S s k)"

definition codec_law :: "bool \<Rightarrow> ('e, 'a, bytes) codec \<Rightarrow> bool" where
  "codec_law F C \<longleftrightarrow> (\<forall>x. res_post F (\<lambda>b. from_slice C b = Inr x) (to_vec C x))"

lemma codec_lawD: "codec_law F C \<Longrightarrow> res_post F (\<lambda>b. from_slice C b = Inr x) (to_vec C x)"
  by (simp add: codec_law_def)

text \<open>The names of segments are not terms.\<close>
definition good_term :: "rstr \<Rightarrow> bool" where
  "good_term t \<longleftrightarrow> \<not> starts_with t POSTING_SEGMENT_PREFIX"

locale fts_laws = fts_store "fx_storage E" V F
  for E :: "('e, 's, 'c) fts_env" and V :: "('s, 'c) fts_view" and F :: bool +
  assumes counts_codec: "res_post F (\<lambda>b. from_slice (fx_counts E) b = Inr (term_counts ts)) (to_vec (fx_counts E) (term_counts ts))"
    and stats_codec: "codec_law F (fx_stats E)"
    and state_codec: "codec_law F (fx_state E)" and segment_codec: "codec_law F (fx_segment E)"
    and order: "finite A \<Longrightarrow> distinct (fx_order E A) \<and> set (fx_order E A) = A"
    and cache_get: "fx_cache_get E c k = (c', r) \<Longrightarrow> r = vw_cached V c k \<and> vw_cached V c' = vw_cached V c"
    and cache_put: "vw_cached V (fx_cache_put E c k l) \<subseteq>\<^sub>m (vw_cached V c)(k \<mapsto> l)"
    and cache_pop: "vw_cached V (fx_cache_pop E c k) \<subseteq>\<^sub>m (vw_cached V c)(k := None)"
    and tokens: "t \<in> set (tokenize E s) \<Longrightarrow> good_term t"

section \<open>Segments\<close>

lemma digits_show_nat: "c \<in> set (show_nat n) \<Longrightarrow> 48 \<le> c \<and> c \<le> 57"
  by (induction n rule: show_nat.induct) (subst (asm) (2) show_nat.simps, auto split: if_splits)

lemma append_colon_inject:
  assumes "58 \<notin> set y" "58 \<notin> set y'" "x @ 58 # y = x' @ 58 # y'"
  shows "x = x' \<and> y = (y' :: rstr)"
  using assms by (auto simp: append_eq_append_conv2 Cons_eq_append_conv append_eq_Cons_conv)

lemma segment_key_inject [simp]: "segment_key t n q = segment_key t' n' q' \<longleftrightarrow> t = t' \<and> n = n' \<and> q = q'"
proof
  assume "segment_key t n q = segment_key t' n' q'"
  then have "(t @ 58 # show_nat n) @ 58 # show_nat q = (t' @ 58 # show_nat n') @ 58 # show_nat q'"
    by (simp add: segment_key_def lit_def)
  moreover have "58 \<notin> set (show_nat m)" for m using digits_show_nat by fastforce
  ultimately show "t = t' \<and> n = n' \<and> q = q'" using append_colon_inject by (metis show_nat_inject)
qed simp

lemma good_not_key: "good_term t \<Longrightarrow> t \<noteq> segment_key t' n q"
  by (auto simp: good_term_def segment_key_def starts_with_def)

text \<open>Posting lists as maps from documents.\<close>
definition doc_keyed :: "(rstr \<rightharpoonup> posting_entry) \<Rightarrow> bool" where
  "doc_keyed m \<longleftrightarrow> finite (dom m) \<and> (\<forall>d e. m d = Some e \<longrightarrow> pe_doc_key e = d)"

lemma doc_keyed_empty [simp]: "doc_keyed Map.empty"
  by (simp add: doc_keyed_def)

lemma apply_segment_lookup:
  "apply_segment sg m d = (case find (\<lambda>e. pe_doc_key e = d) (rev (sg_added_entries sg)) of Some e \<Rightarrow> Some e
     | None \<Rightarrow> if d \<in> set (sg_removed_doc_keys sg) then None else m d)"
proof -
  have removed: "foldl (\<lambda>m k. m(k := None)) m ks d = (if d \<in> set ks then None else m d)" for m :: "rstr \<rightharpoonup> posting_entry" and ks
    by (induction ks arbitrary: m) auto
  have added: "foldl (\<lambda>m e. m(pe_doc_key e \<mapsto> e)) m es d = (case find (\<lambda>e. pe_doc_key e = d) (rev es) of Some e \<Rightarrow> Some e | None \<Rightarrow> m d)" for m es
    by (induction es rule: rev_induct) auto
  show ?thesis by (auto simp: apply_segment_def added removed split: option.splits)
qed

lemma keyed_apply_segment:
  assumes "doc_keyed m"
  shows "doc_keyed (apply_segment sg m)"
proof -
  have "dom (apply_segment sg m) \<subseteq> pe_doc_key ` set (sg_added_entries sg) \<union> dom m"
    by (auto simp: apply_segment_lookup find_None_iff split: option.splits if_splits dest!: find_Some_split [THEN iffD1])
      (metis Un_iff image_eqI in_set_conv_decomp set_rev)+
  then have "finite (dom (apply_segment sg m))" using assms by (auto simp: doc_keyed_def intro: finite_subset)
  then show ?thesis using assms
    by (auto simp: doc_keyed_def apply_segment_lookup find_Some_split split: option.splits if_splits)
qed

definition segment_at :: "('e, 's, 'c) fts_env \<Rightarrow> (rstr \<rightharpoonup> bytes) \<Rightarrow> rstr \<Rightarrow> posting_segment \<Rightarrow> bool" where
  "segment_at E tbl k sg \<longleftrightarrow> (\<exists>b. tbl k = Some b \<and> from_slice (fx_segment E) b = Inr sg)"

text \<open>The segments under the keys lead from one map to another.\<close>
fun segments_give :: "('e, 's, 'c) fts_env \<Rightarrow> (rstr \<rightharpoonup> bytes) \<Rightarrow> rstr list \<Rightarrow> (rstr \<rightharpoonup> posting_entry) \<Rightarrow> (rstr \<rightharpoonup> posting_entry) \<Rightarrow> bool" where
  "segments_give E tbl [] m m' = (m' = m)"
| "segments_give E tbl (k # ks) m m' = (\<exists>sg. segment_at E tbl k sg \<and> segments_give E tbl ks (apply_segment sg m) m')"

lemma segments_give_append [simp]:
  "segments_give E tbl (ks @ ls) m m' \<longleftrightarrow> (\<exists>m1. segments_give E tbl ks m m1 \<and> segments_give E tbl ls m1 m')"
  by (induction ks arbitrary: m) auto

lemma segments_give_cong:
  "(\<And>k. k \<in> set ks \<Longrightarrow> tbl' k = tbl k) \<Longrightarrow> segments_give E tbl ks m m' \<Longrightarrow> segments_give E tbl' ks m m'"
proof (induction ks arbitrary: m)
  case (Cons k ks)
  then obtain sg where "segment_at E tbl k sg" "segments_give E tbl ks (apply_segment sg m) m'" by auto
  with Cons show ?case by (auto simp: segment_at_def intro!: exI [of _ sg])
qed simp

lemma doc_keyed_segments: "segments_give E tbl ks m m' \<Longrightarrow> doc_keyed m \<Longrightarrow> doc_keyed m'"
  by (induction ks arbitrary: m) (auto intro: keyed_apply_segment)

lemma find_keyed:
  assumes "distinct (map pe_doc_key es)"
  shows "find (\<lambda>e. pe_doc_key e = d) es = Some e \<longleftrightarrow> e \<in> set es \<and> pe_doc_key e = d"
  using assms by (induction es) (auto simp: image_iff)

context fts_laws
begin

lemma set_entries_list: "doc_keyed m \<Longrightarrow> set (pl_entries (entries_list E t m)) = ran m"
  using order [of "dom m"] by (auto simp: entries_list_def doc_keyed_def List.map_filter_def ran_def dom_def) force

lemma distinct_entries_list:
  assumes "doc_keyed m"
  shows "distinct (map pe_doc_key (pl_entries (entries_list E t m)))"
proof -
  let ?ks = "fx_order E (dom m)"
  have "map_option pe_doc_key (m d) = Some d" if "d \<in> set ?ks" for d
    using that assms order [of "dom m"] by (auto simp: doc_keyed_def)
  then have "map pe_doc_key (List.map_filter m ks) = ks" if "set ks \<subseteq> set ?ks" for ks
    using that by (induction ks) (fastforce simp: map_filter_simps split: option.splits)+
  then have "distinct (map pe_doc_key (List.map_filter m ?ks))"
    using assms order [of "dom m"] by (simp add: doc_keyed_def)
  moreover have "mset (map pe_doc_key (pl_entries (entries_list E t m))) = mset (map pe_doc_key (List.map_filter m ?ks))"
    by (simp add: entries_list_def)
  ultimately show ?thesis using mset_eq_imp_distinct_iff by blast
qed

lemma entries_list_find: "doc_keyed m \<Longrightarrow> find (\<lambda>e. pe_doc_key e = d) (pl_entries (entries_list E t m)) = m d"
  using find_keyed [OF distinct_entries_list [of m t], of d] set_entries_list [of m t]
  by (cases "m d") (auto simp: doc_keyed_def ran_def find_None_iff)

lemma entries_list_Nil: "doc_keyed m \<Longrightarrow> pl_entries (entries_list E t m) = [] \<longleftrightarrow> m = Map.empty"
  using set_entries_list [of m t] by (auto simp: ran_def) (metis option.exhaust)

lemma length_entries_list: "doc_keyed m \<Longrightarrow> length (pl_entries (entries_list E t m)) = card (dom m)"
proof -
  assume k: "doc_keyed m"
  have "pe_doc_key ` ran m = dom m" using k by (force simp: doc_keyed_def ran_def)
  then show ?thesis using distinct_card [OF distinct_entries_list [OF k, of t]] set_entries_list [OF k, of t] by simp
qed

lemma compacted: "doc_keyed m \<Longrightarrow> apply_segment \<lparr>sg_term = t, sg_added_entries = pl_entries (entries_list E t' m), sg_removed_doc_keys = []\<rparr> Map.empty = m"
proof
  fix d
  assume k: "doc_keyed m"
  let ?es = "pl_entries (entries_list E t' m)"
  have "distinct (map pe_doc_key (rev ?es))" using distinct_entries_list [OF k, of t'] by (simp flip: rev_map)
  then have "find (\<lambda>e. pe_doc_key e = d) (rev ?es) = m d"
    using find_keyed [of "rev ?es" d] set_entries_list [OF k, of t'] k
    by (cases "m d") (auto simp: doc_keyed_def ran_def find_None_iff)
  then show "apply_segment \<lparr>sg_term = t, sg_added_entries = ?es, sg_removed_doc_keys = []\<rparr> Map.empty d = m d"
    by (simp add: apply_segment_lookup split: option.splits)
qed

end

section \<open>The invariant of the inverted table\<close>

definition of_term :: "rstr \<Rightarrow> rstr \<Rightarrow> bool" where
  "of_term t k \<longleftrightarrow> k = t \<or> (\<exists>n q. k = segment_key t n q)"

definition own_keys :: "rstr \<Rightarrow> nat \<Rightarrow> rstr list \<Rightarrow> bool" where
  "own_keys t q ks \<longleftrightarrow> (\<forall>k \<in> set ks. \<exists>n j. k = segment_key t n j \<and> j < q)"

definition holds_term :: "('e, 's, 'c) fts_env \<Rightarrow> (rstr \<rightharpoonup> bytes) \<Rightarrow> nat \<Rightarrow> rstr \<Rightarrow> (rstr \<rightharpoonup> posting_entry) \<Rightarrow> bool" where
  "holds_term E tbl q t m \<longleftrightarrow> (case tbl t of None \<Rightarrow> m = Map.empty
     | Some b \<Rightarrow> \<exists>st. from_slice (fx_state E) b = Inr st \<and> ps_term st = t \<and> own_keys t q (ps_segments st)
         \<and> segments_give E tbl (ps_segments st) Map.empty m)"

text \<open>Every term has the posting list \<open>P\<close> says, in the segments and in the cache.\<close>
definition posts_ok :: "('e, 's, 'c) fts_env \<Rightarrow> ('s, 'c) fts_view \<Rightarrow> (rstr \<Rightarrow> rstr \<rightharpoonup> posting_entry) \<Rightarrow> ('s, 'c) fts_engine \<Rightarrow> bool" where
  "posts_ok E V P w \<longleftrightarrow> (\<forall>t. good_term t \<longrightarrow> holds_term E (vw_inverted V (fe_kv w)) (fe_segment_seq w) t (P t)
     \<and> (\<forall>l. vw_cached V (fe_cache w) t = Some l \<longrightarrow> l = entries_list E t (P t)))"

definition same_rest :: "('s, 'c) fts_view \<Rightarrow> ('s, 'c) fts_engine \<Rightarrow> ('s, 'c) fts_engine \<Rightarrow> bool" where
  "same_rest V w w' \<longleftrightarrow> vw_forward V (fe_kv w') = vw_forward V (fe_kv w) \<and> vw_collection V (fe_kv w') = vw_collection V (fe_kv w)"

definition touched :: "('s, 'c) fts_view \<Rightarrow> ('s, 'c) fts_engine \<Rightarrow> ('s, 'c) fts_engine \<Rightarrow> (rstr \<rightharpoonup> bytes) \<Rightarrow> bool" where
  "touched V w w' tbl \<longleftrightarrow> fe_cache w' = fe_cache w \<and> fe_segment_seq w' = fe_segment_seq w \<and> same_rest V w w'
     \<and> vw_inverted V (fe_kv w') = tbl"

text \<open>In the middle of an update of a term: the segments \<open>ks\<close> lead to \<open>m\<close>, the rest is as at the start.\<close>
definition stage :: "('e, 's, 'c) fts_env \<Rightarrow> ('s, 'c) fts_view \<Rightarrow> ('s, 'c) fts_engine \<Rightarrow> rstr \<Rightarrow> rstr list \<Rightarrow> (rstr \<rightharpoonup> posting_entry) \<Rightarrow>
  ('s, 'c) fts_engine \<Rightarrow> bool" where
  "stage E V w0 t ks m w \<longleftrightarrow> own_keys t (fe_segment_seq w) ks \<and> segments_give E (vw_inverted V (fe_kv w)) ks Map.empty m
     \<and> (\<forall>k. \<not> of_term t k \<longrightarrow> vw_inverted V (fe_kv w) k = vw_inverted V (fe_kv w0) k)
     \<and> fe_segment_seq w0 \<le> fe_segment_seq w \<and> fe_cache w = fe_cache w0 \<and> same_rest V w0 w"

lemma doc_keyed_holds: "holds_term E tbl q t m \<Longrightarrow> doc_keyed m"
  by (auto simp: holds_term_def intro: doc_keyed_segments split: option.splits)

lemma doc_keyed_posts: "posts_ok E V P w \<Longrightarrow> good_term t \<Longrightarrow> doc_keyed (P t)"
  unfolding posts_ok_def using doc_keyed_holds by blast

lemma doc_keyed_stage: "stage E V w0 t ks m w \<Longrightarrow> doc_keyed m"
  by (auto simp: stage_def intro: doc_keyed_segments)

lemma holds_other:
  assumes "holds_term E tbl q t' m" "good_term t'" "good_term t" "t' \<noteq> t" "q \<le> q'"
    and same: "\<And>k. \<not> of_term t k \<Longrightarrow> tbl' k = tbl k"
  shows "holds_term E tbl' q' t' m"
proof -
  have own: "\<not> of_term t k" if "own_keys t' q ks" "k \<in> set ks" for ks k
    using that assms(3,4) good_not_key unfolding own_keys_def of_term_def by (metis segment_key_inject)
  have "\<not> of_term t t'" using assms(2,4) good_not_key by (auto simp: of_term_def)
  then have t': "tbl' t' = tbl t'" by (rule same)
  have "own_keys t' q' ks" if "own_keys t' q ks" for ks using that assms(5) by (fastforce simp: own_keys_def)
  moreover have "segments_give E tbl' ks Map.empty m" if "own_keys t' q ks" "segments_give E tbl ks Map.empty m" for ks
    by (rule segments_give_cong [OF same [OF own [OF that(1)]] that(2)])
  ultimately show ?thesis using assms(1) t' by (fastforce simp: holds_term_def split: option.splits)
qed

context fts_laws
begin

lemma write_encoded_post:
  assumes "res_post F (\<lambda>b. from_slice C b = Inr x) (to_vec C x)"
    and "\<And>s v. res_post F (Q s v) (put s k v)"
  shows "io_post F (\<lambda>_ w'. \<exists>b s'. from_slice C b = Inr x \<and> Q (fe_kv w) b s' \<and> w' = w\<lparr>fe_kv := s'\<rparr>) (write_encoded C put k x w)"
  using assms(1) assms(2) [of "fe_kv w"]
  by (fastforce simp: write_encoded_def kv_write_def res_post_def io_post_def res_bind_def split: sum.splits)

lemma put_inverted_post:
  assumes "codec_law F C"
  shows "io_post F (\<lambda>_ w'. \<exists>b. from_slice C b = Inr x \<and> touched V w w' ((vw_inverted V (fe_kv w))(k \<mapsto> b)))
     (Fts_Index.put_inverted E C k x w)"
  unfolding Fts_Index.put_inverted_def
  by (rule io_post_mono [OF write_encoded_post [OF codec_lawD [OF assms] put_inverted]]) (auto simp: touched_def same_rest_def)

lemma delete_inverted_post:
  "io_post F (\<lambda>_ w'. touched V w w' ((vw_inverted V (fe_kv w))(k := None))) (Fts_Index.delete_inverted E k w)"
  using delete_inverted [of "fe_kv w" k]
  by (auto simp: Fts_Index.delete_inverted_def kv_delete_def res_post_def io_post_def touched_def same_rest_def split: sum.splits prod.splits)

lemma delete_keys_post:
  "io_post F (\<lambda>_ w'. touched V w w' (\<lambda>k. if k \<in> set ks then None else vw_inverted V (fe_kv w) k))
     (io_each (Fts_Index.delete_inverted E) ks w)"
proof (rule io_post_each [where I = "\<lambda>ys w'. touched V w w' (\<lambda>k. if k \<in> set ys then None else vw_inverted V (fe_kv w) k)"])
  fix ys x zs w'
  assume "touched V w w' (\<lambda>k. if k \<in> set ys then None else vw_inverted V (fe_kv w) k)"
  then show "io_post F (\<lambda>_ w'. touched V w w' (\<lambda>k. if k \<in> set (ys @ [x]) then None else vw_inverted V (fe_kv w) k))
      (Fts_Index.delete_inverted E x w')"
    by (intro io_post_mono [OF delete_inverted_post]) (auto simp: touched_def same_rest_def)
qed (simp add: touched_def same_rest_def)

lemma put_segment_post:
  assumes "stage E V w0 t ks m w"
  shows "io_post F (\<lambda>k w'. stage E V w0 t (ks @ [k]) (apply_segment \<lparr>sg_term = t, sg_added_entries = as, sg_removed_doc_keys = rs\<rparr> m) w'
     \<and> k \<notin> set ks \<and> segment_at E (vw_inverted V (fe_kv w')) k \<lparr>sg_term = t, sg_added_entries = as, sg_removed_doc_keys = rs\<rparr>)
     (put_segment E t as rs w)"
proof -
  let ?k = "segment_key t (fx_now_ms E w) (fe_segment_seq w)" and ?w = "w\<lparr>fe_segment_seq := fe_segment_seq w + 1\<rparr>"
  let ?sg = "\<lparr>sg_term = t, sg_added_entries = as, sg_removed_doc_keys = rs\<rparr>"
  have fresh: "?k \<notin> set ks" using assms by (auto simp: stage_def own_keys_def)
  have step: "stage E V w0 t (ks @ [?k]) (apply_segment ?sg m) w' \<and> segment_at E (vw_inverted V (fe_kv w')) ?k ?sg"
    if "from_slice (fx_segment E) b = Inr ?sg" "touched V ?w w' ((vw_inverted V (fe_kv ?w))(?k \<mapsto> b))" for b w'
  proof -
    have "segments_give E (vw_inverted V (fe_kv w')) ks Map.empty m"
      using assms fresh that(2) by (auto simp: stage_def touched_def intro: segments_give_cong [rotated])
    moreover have "segment_at E (vw_inverted V (fe_kv w')) ?k ?sg" using that by (simp add: segment_at_def touched_def)
    moreover have "own_keys t (fe_segment_seq w + 1) (ks @ [?k])" using assms by (fastforce simp: stage_def own_keys_def less_Suc_eq)
    ultimately show ?thesis using assms that by (auto simp: stage_def touched_def same_rest_def of_term_def)
  qed
  show ?thesis
    unfolding put_segment_def next_segment_key_def Let_def prod.case
    by (rule io_post_seq [OF put_inverted_post [OF segment_codec]]) (use step fresh in auto)
qed

lemma materialize_post:
  assumes "segments_give E (vw_inverted V s) (ps_segments st) Map.empty m"
  shows "res_post F (\<lambda>l. l = entries_list E (ps_term st) m) (materialize_posting_state E s st)"
proof -
  have "res_post F (\<lambda>m'. m' = m) (merge_segments E s ks m0)" if "segments_give E (vw_inverted V s) ks m0 m" for ks m0
    using that
  proof (induction ks arbitrary: m0)
    case (Cons k ks)
    then obtain b sg where sg: "vw_inverted V s k = Some b" "from_slice (fx_segment E) b = Inr sg"
        "segments_give E (vw_inverted V s) ks (apply_segment sg m0) m"
      by (auto simp: segment_at_def)
    show ?case unfolding merge_segments.simps
      by (rule res_post_bind, rule res_post_mono [OF get_inverted]) (simp add: sg Cons.IH)
  qed simp
  note merged = this [OF assms]
  show ?thesis
    unfolding materialize_posting_state_def by (rule res_post_bind, rule res_post_mono [OF merged]) simp
qed

lemma get_or_migrate_post:
  assumes "posts_ok E V P w" "good_term t"
  shows "io_post F (\<lambda>found w'. w' = w \<and> (let st = (case found of Some st \<Rightarrow> st
      | None \<Rightarrow> \<lparr>ps_contract_version = POSTING_STATE_CONTRACT_VERSION, ps_term = t, ps_segments = []\<rparr>)
    in ps_term st = t \<and> stage E V w t (ps_segments st) (P t) w)) (get_or_migrate_posting_state E t w)"
proof -
  have h: "holds_term E (vw_inverted V (fe_kv w)) (fe_segment_seq w) t (P t)"
    using assms by (auto simp: posts_ok_def)
  show ?thesis
  proof (cases "vw_inverted V (fe_kv w) t")
    case None
    with h have "stage E V w t [] (P t) w" by (simp add: holds_term_def stage_def own_keys_def same_rest_def)
    with None show ?thesis unfolding get_or_migrate_posting_state_def
      by (intro io_post_call [OF get_inverted]) simp
  next
    case (Some b)
    with h obtain st where st: "from_slice (fx_state E) b = Inr st" "ps_term st = t" "stage E V w t (ps_segments st) (P t) w"
      by (auto simp: holds_term_def stage_def same_rest_def)
    with Some show ?thesis unfolding get_or_migrate_posting_state_def
      by (intro io_post_call [OF get_inverted]) simp
  qed
qed

lemma compact_post:
  assumes "stage E V w0 t (ps_segments st) m w" "ps_term st = t"
  shows "io_post F (\<lambda>(st', l) w'. stage E V w0 t (ps_segments st') m w' \<and> ps_term st' = t \<and> l = entries_list E t m)
     (compact_segments E t st (entries_list E t m) w)"
proof (cases "length (ps_segments st) \<ge> POSTING_SEGMENT_COMPACT_THRESHOLD")
  case True
  let ?sg = "\<lparr>sg_term = t, sg_added_entries = pl_entries (entries_list E t m), sg_removed_doc_keys = []\<rparr>"
  have c: "apply_segment ?sg Map.empty = m" by (rule compacted [OF doc_keyed_stage [OF assms(1)]])
  have dropped: "stage E V w0 t [k] m w''"
    if "stage E V w0 t (ps_segments st @ [k]) m' w'" "k \<notin> set (ps_segments st)" "segment_at E (vw_inverted V (fe_kv w')) k ?sg"
      "touched V w' w'' (\<lambda>k. if k \<in> set (ps_segments st) then None else vw_inverted V (fe_kv w') k)" for k m' w' w''
  proof -
    have "segment_at E (vw_inverted V (fe_kv w'')) k ?sg" using that(2-4) by (simp add: segment_at_def touched_def)
    moreover have "of_term t k'" if "k' \<in> set (ps_segments st)" for k'
      using that assms(1) by (auto simp: stage_def own_keys_def of_term_def)
    ultimately show ?thesis using that(1,4) c by (auto simp: stage_def touched_def same_rest_def own_keys_def)
  qed
  let ?Q = "\<lambda>(st', l) w'. stage E V w0 t (ps_segments st') m w' \<and> ps_term st' = t \<and> l = entries_list E t m"
  have last: "io_post F ?Q (io_then (w'', materialize_posting_state E (fe_kv w'') (st\<lparr>ps_segments := [k]\<rparr>))
      (\<lambda>l w. (w, Inr (st\<lparr>ps_segments := [k]\<rparr>, l))))" if "stage E V w0 t [k] m w''" for k w''
  proof -
    have "segments_give E (vw_inverted V (fe_kv w'')) (ps_segments (st\<lparr>ps_segments := [k]\<rparr>)) Map.empty m"
      using that by (simp add: stage_def)
    then show ?thesis by (rule io_post_call [OF materialize_post]) (simp add: that assms(2))
  qed
  show ?thesis
    unfolding compact_segments_def if_P [OF True] Let_def
  proof (rule io_post_seq [OF put_segment_post [OF assms(1)]], elim conjE, rule io_post_seq [OF delete_keys_post])
  qed (rule last, rule dropped)
next
  case False
  with assms show ?thesis by (simp add: compact_segments_def)
qed

text \<open>What is left of an update once the segments are written.\<close>
lemma finish_update:
  assumes "posts_ok E V P w0" "good_term t" "stage E V w0 t (ps_segments st) m w" "same_rest V w w'"
    and tbl: "vw_inverted V (fe_kv w') = tbl'" "fe_segment_seq w' = fe_segment_seq w"
      "\<And>k. \<not> of_term t k \<Longrightarrow> tbl' k = vw_inverted V (fe_kv w) k"
    and own: "holds_term E tbl' (fe_segment_seq w) t m"
    and cache: "vw_cached V (fe_cache w') \<subseteq>\<^sub>m (vw_cached V (fe_cache w0))(t := c)" "c = None \<or> c = Some (entries_list E t m)"
  shows "posts_ok E V (P(t := m)) w' \<and> same_rest V w0 w'"
proof -
  have "holds_term E tbl' (fe_segment_seq w') t' (P t')" if "good_term t'" "t' \<noteq> t" for t'
  proof (rule holds_other [OF _ that(1) assms(2) that(2)])
    show "holds_term E (vw_inverted V (fe_kv w0)) (fe_segment_seq w0) t' (P t')" using assms(1) that by (simp add: posts_ok_def)
    show "fe_segment_seq w0 \<le> fe_segment_seq w'" using assms(3) tbl(2) by (simp add: stage_def)
    show "tbl' k = vw_inverted V (fe_kv w0) k" if "\<not> of_term t k" for k using assms(3) tbl(3) that by (simp add: stage_def)
  qed
  moreover have "l = entries_list E t' ((P(t := m)) t')" if "good_term t'" "vw_cached V (fe_cache w') t' = Some l" for t' l
  proof -
    have "((vw_cached V (fe_cache w0))(t := c)) t' = Some l" using that(2) cache(1) by (metis domI map_le_def)
    then show ?thesis using cache(2) assms(1) that(1) by (auto simp: posts_ok_def split: if_splits)
  qed
  moreover have "same_rest V w0 w'" using assms(3,4) by (simp add: stage_def same_rest_def)
  ultimately show ?thesis using own tbl by (auto simp: posts_ok_def)
qed

lemma drop_term_post:
  assumes "posts_ok E V P w0" "good_term t" "stage E V w0 t (ps_segments st) Map.empty w"
  shows "io_post F (\<lambda>_ w'. posts_ok E V (P(t := Map.empty)) w' \<and> same_rest V w0 w')
     (io_then (io_each (Fts_Index.delete_inverted E) (ps_segments st) (w\<lparr>fe_cache := fx_cache_pop E (fe_cache w) t\<rparr>))
       (\<lambda>_. Fts_Index.delete_inverted E t))"
proof -
  let ?w = "w\<lparr>fe_cache := fx_cache_pop E (fe_cache w) t\<rparr>"
  let ?t1 = "\<lambda>k. if k \<in> set (ps_segments st) then None else vw_inverted V (fe_kv ?w) k"
  have "posts_ok E V (P(t := Map.empty)) w2 \<and> same_rest V w0 w2"
    if "touched V ?w w1 ?t1" "touched V w1 w2 ((vw_inverted V (fe_kv w1))(t := None))" for w1 w2
  proof (rule finish_update [OF assms])
    show "same_rest V w w2" using that by (simp add: touched_def same_rest_def)
    show "vw_inverted V (fe_kv w2) = ?t1(t := None)" "fe_segment_seq w2 = fe_segment_seq w" using that by (simp_all add: touched_def)
    show "(?t1(t := None)) k = vw_inverted V (fe_kv w) k" if "\<not> of_term t k" for k
      using that assms(3) by (auto simp: of_term_def stage_def own_keys_def)
    show "holds_term E (?t1(t := None)) (fe_segment_seq w) t Map.empty" by (simp add: holds_term_def)
    show "vw_cached V (fe_cache w2) \<subseteq>\<^sub>m (vw_cached V (fe_cache w0))(t := None)"
      using that cache_pop [of "fe_cache w" t] assms(3) by (simp add: touched_def stage_def)
  qed simp
  then show ?thesis
    by (intro io_post_seq [OF delete_keys_post] io_post_mono [OF delete_inverted_post])
qed

lemma persist_term_post:
  assumes "posts_ok E V P w0" "good_term t" "stage E V w0 t (ps_segments st) m w" "ps_term st = t"
  shows "io_post F (\<lambda>_ w'. posts_ok E V (P(t := m)) w' \<and> same_rest V w0 w')
     (io_then (persist_posting_state E st (w\<lparr>fe_cache := fx_cache_pop E (fe_cache w) t\<rparr>))
       (\<lambda>_ w. (w\<lparr>fe_cache := fx_cache_put E (fe_cache w) t (entries_list E t m)\<rparr>, Inr ())))"
proof -
  let ?w = "w\<lparr>fe_cache := fx_cache_pop E (fe_cache w) t\<rparr>"
  have "posts_ok E V (P(t := m)) w2 \<and> same_rest V w0 w2"
    if b: "from_slice (fx_state E) b = Inr st" "touched V ?w w1 ((vw_inverted V (fe_kv ?w))(t \<mapsto> b))"
      and w2: "w2 = w1\<lparr>fe_cache := fx_cache_put E (fe_cache w1) t (entries_list E t m)\<rparr>" for b w1 w2
  proof (rule finish_update [OF assms(1-3)])
    show "same_rest V w w2" using b w2 by (simp add: touched_def same_rest_def)
    let ?t = "(vw_inverted V (fe_kv w))(t \<mapsto> b)"
    show "vw_inverted V (fe_kv w2) = ?t" "fe_segment_seq w2 = fe_segment_seq w" using b w2 by (simp_all add: touched_def)
    show "?t k = vw_inverted V (fe_kv w) k" if "\<not> of_term t k" for k using that by (auto simp: of_term_def)
    have "t \<notin> set (ps_segments st)" using assms(2,3) good_not_key by (fastforce simp: stage_def own_keys_def)
    then have "segments_give E ?t (ps_segments st) Map.empty m"
      using assms(3) by (auto simp: stage_def intro: segments_give_cong [rotated])
    then show "holds_term E ?t (fe_segment_seq w) t m" using assms(3,4) b(1) by (auto simp: holds_term_def stage_def)
    have "vw_cached V (fe_cache w2) \<subseteq>\<^sub>m (vw_cached V (fe_cache w1))(t \<mapsto> entries_list E t m)" using w2 cache_put by simp
    also have "\<dots> \<subseteq>\<^sub>m (vw_cached V (fe_cache w0))(t \<mapsto> entries_list E t m)"
      using b(2) cache_pop [of "fe_cache w" t] assms(3) by (auto simp: touched_def stage_def map_le_def dom_def)
    finally show "vw_cached V (fe_cache w2) \<subseteq>\<^sub>m (vw_cached V (fe_cache w0))(t \<mapsto> entries_list E t m)" .
  qed simp
  then show ?thesis
    unfolding persist_posting_state_def assms(4)
    by (intro io_post_seq [OF put_inverted_post [OF state_codec]]) auto
qed

lemma apply_term_delta_post:
  assumes "posts_ok E V P w" "good_term t"
  shows "io_post F (\<lambda>_ w'. posts_ok E V (P(t := apply_segment \<lparr>sg_term = t, sg_added_entries = as, sg_removed_doc_keys = rs\<rparr> (P t))) w'
     \<and> same_rest V w w') (apply_term_delta E t as rs w)"
proof -
  define m where "m = apply_segment \<lparr>sg_term = t, sg_added_entries = as, sg_removed_doc_keys = rs\<rparr> (P t)"
  have same: "m = P t" if "as = []" "rs = []" using that by (auto simp: m_def apply_segment_def)
  have ending: "io_post F (\<lambda>_ w'. posts_ok E V (P(t := m)) w' \<and> same_rest V w w') (store_posting E t st l w1)"
    if "stage E V w t (ps_segments st) m w1" "ps_term st = t" "l = entries_list E t m" for st l w1
    using drop_term_post [OF assms, of st w1] persist_term_post [OF assms that(1,2)] that entries_list_Nil [OF doc_keyed_stage [OF that(1)], of t]
    by (cases "m = Map.empty") (simp_all add: store_posting_def Let_def)
  have compaction: "io_post F (\<lambda>_ w'. posts_ok E V (P(t := m)) w' \<and> same_rest V w w')
      (io_then (w1, materialize_posting_state E (fe_kv w1) st) (\<lambda>l w. io_then (compact_segments E t st l w) (\<lambda>(st, l). store_posting E t st l)))"
    if st: "stage E V w t (ps_segments st) m w1" "ps_term st = t" for st w1
  proof (rule io_post_call [OF materialize_post])
    show "segments_give E (vw_inverted V (fe_kv w1)) (ps_segments st) Map.empty m" using st by (simp add: stage_def)
    show "io_post F (\<lambda>_ w'. posts_ok E V (P(t := m)) w' \<and> same_rest V w w')
        (io_then (compact_segments E t st l w1) (\<lambda>(st, l). store_posting E t st l))" if "l = entries_list E (ps_term st) m" for l
      unfolding that st(2) using ending by (intro io_post_seq [OF compact_post [OF st]]) auto
  qed
  show ?thesis
    unfolding apply_term_delta_def m_def [symmetric] Let_def [of "case _ of None \<Rightarrow> _ | Some _ \<Rightarrow> _"]
  proof (rule io_post_seq [OF get_or_migrate_post [OF assms]], goal_cases)
    case (1 found w')
    define st where "st = (case found of Some st \<Rightarrow> st
      | None \<Rightarrow> \<lparr>ps_contract_version = POSTING_STATE_CONTRACT_VERSION, ps_term = t, ps_segments = []\<rparr>)"
    have st: "stage E V w t (ps_segments st) (P t) w" "ps_term st = t" and "w' = w"
      using 1 by (simp_all add: st_def Let_def)
    have pushed: "io_post F (\<lambda>st' w'. stage E V w t (ps_segments st') m w' \<and> ps_term st' = t)
        (if as \<noteq> [] \<or> rs \<noteq> [] then io_then (put_segment E t as rs w) (\<lambda>key w. (w, Inr (st\<lparr>ps_segments := ps_segments st @ [key]\<rparr>)))
         else (w, Inr st))"
    proof (cases "as \<noteq> [] \<or> rs \<noteq> []")
      case True
      show ?thesis unfolding if_P [OF True] by (rule io_post_seq [OF put_segment_post [OF st(1)]]) (simp add: m_def st(2))
    next
      case False
      then show ?thesis using st same by simp
    qed
    show ?case unfolding st_def [symmetric] \<open>w' = w\<close> Let_def
      by (rule io_post_seq [OF pushed]) (use compaction in blast)
  qed
qed

lemma cache_posting:
  assumes "posts_ok E V P w"
  shows "posts_ok E V P (w\<lparr>fe_cache := fx_cache_put E (fe_cache w) t (entries_list E t (P t))\<rparr>)"
proof -
  have "l = entries_list E t' (P t')"
    if "good_term t'" "vw_cached V (fx_cache_put E (fe_cache w) t (entries_list E t (P t))) t' = Some l" for t' l
  proof -
    have "((vw_cached V (fe_cache w))(t \<mapsto> entries_list E t (P t))) t' = Some l"
      using cache_put [of "fe_cache w" t "entries_list E t (P t)"] that(2) by (metis domI map_le_def)
    then show ?thesis using assms that(1) by (auto simp: posts_ok_def split: if_splits)
  qed
  then show ?thesis using assms by (simp add: posts_ok_def)
qed

lemma get_posting_list_post:
  assumes "posts_ok E V P w" "good_term t"
  shows "io_post F (\<lambda>l w'. l = entries_list E t (P t) \<and> posts_ok E V P w' \<and> fe_kv w' = fe_kv w) (get_posting_list_internal E t w)"
proof (cases "fx_cache_get E (fe_cache w) t")
  case (Pair c r)
  from cache_get [OF Pair] have r: "r = vw_cached V (fe_cache w) t" "vw_cached V c = vw_cached V (fe_cache w)" by auto
  have c: "posts_ok E V P (w\<lparr>fe_cache := c\<rparr>)" using assms(1) r by (simp add: posts_ok_def)
  have stored: "io_post F (\<lambda>l w'. l = entries_list E t (P t) \<and> posts_ok E V P w' \<and> fe_kv w' = fe_kv w)
      (io_then (w\<lparr>fe_cache := c\<rparr>, res) (\<lambda>l w. (w\<lparr>fe_cache := fx_cache_put E (fe_cache w) t l\<rparr>, Inr l)))"
    if "res_post F (\<lambda>l. l = entries_list E t (P t)) res" for res
    by (rule io_post_call [OF that]) (use cache_posting [OF c] in simp)
  show ?thesis
  proof (cases r)
    case (Some l)
    moreover from this r have "l = entries_list E t (P t)" using assms by (simp add: posts_ok_def)
    ultimately show ?thesis using Pair c by (simp add: get_posting_list_internal_def)
  next
    case None
    have h: "holds_term E (vw_inverted V (fe_kv w)) (fe_segment_seq w) t (P t)"
      using assms by (auto simp: posts_ok_def)
    show ?thesis
    proof (cases "vw_inverted V (fe_kv w) t")
      case None
      with h have "\<lparr>pl_term = t, pl_entries = []\<rparr> = entries_list E t (P t)"
        using entries_list_Nil [of "P t" t] by (simp add: holds_term_def entries_list_def)
      with None \<open>r = None\<close> Pair c show ?thesis unfolding get_posting_list_internal_def
        by (simp add: Let_def) (rule io_post_call [OF get_inverted], simp)
    next
      case (Some b)
      with h obtain st where st: "from_slice (fx_state E) b = Inr st" "ps_term st = t"
          "segments_give E (vw_inverted V (fe_kv w)) (ps_segments st) Map.empty (P t)"
        by (auto simp: holds_term_def)
      have "res_post F (\<lambda>l. l = entries_list E t (P t)) (materialize_posting_state E (fe_kv w) st)"
        using materialize_post [OF st(3)] st(2) by simp
      with Some st \<open>r = None\<close> Pair stored show ?thesis unfolding get_posting_list_internal_def
        by (simp add: Let_def) (rule io_post_call [OF get_inverted], simp)
    qed
  qed
qed

end

section \<open>The plain index\<close>

definition post :: "(rstr \<rightharpoonup> rstr list) \<Rightarrow> rstr \<Rightarrow> rstr \<rightharpoonup> posting_entry" where
  "post idx t d = (case idx d of None \<Rightarrow> None | Some ts \<Rightarrow> if t \<in> set ts
     then Some \<lparr>pe_doc_key = d, pe_term_frequency = of_nat (count_list ts t), pe_doc_length = of_nat (length ts)\<rparr> else None)"

definition plain_stats :: "(rstr \<rightharpoonup> rstr list) \<Rightarrow> fts_stats" where
  "plain_stats idx = (let n = card (dom idx); l = (\<Sum>d \<in> dom idx. length (the (idx d)))
     in \<lparr>fs_total_docs = n, fs_total_len = l, fs_avg_dl = (if n > 0 then average_length l n else 0)\<rparr>)"

definition plain_index :: "(rstr \<rightharpoonup> rstr list) \<Rightarrow> bool" where
  "plain_index idx \<longleftrightarrow> finite (dom idx) \<and> (\<forall>d ts. idx d = Some ts \<longrightarrow> length ts < 2 ^ 32 \<and> (\<forall>t \<in> set ts. good_term t))"

lemma plain_good: "plain_index idx \<Longrightarrow> idx d = Some ts \<Longrightarrow> t \<in> set ts \<Longrightarrow> good_term t"
  by (simp add: plain_index_def)

definition forward_ok :: "('e, 's, 'c) fts_env \<Rightarrow> (rstr \<rightharpoonup> bytes) \<Rightarrow> (rstr \<rightharpoonup> rstr list) \<Rightarrow> bool" where
  "forward_ok E tbl idx \<longleftrightarrow> (\<forall>d. case idx d of None \<Rightarrow> tbl d = None
     | Some ts \<Rightarrow> \<exists>b. tbl d = Some b \<and> from_slice (fx_counts E) b = Inr (term_counts ts))"

definition stats_ok :: "('e, 's, 'c) fts_env \<Rightarrow> (rstr \<rightharpoonup> bytes) \<Rightarrow> fts_stats \<Rightarrow> bool" where
  "stats_ok E tbl st \<longleftrightarrow> (case tbl (lit ''__fts_stats__'') of None \<Rightarrow> st = default_fts_stats
     | Some b \<Rightarrow> from_slice (fx_stats E) b = Inr st)"

text \<open>What the engine stores is the plain index.\<close>
definition index_ok :: "('e, 's, 'c) fts_env \<Rightarrow> ('s, 'c) fts_view \<Rightarrow> (rstr \<rightharpoonup> rstr list) \<Rightarrow> ('s, 'c) fts_engine \<Rightarrow> bool" where
  "index_ok E V idx w \<longleftrightarrow> plain_index idx \<and> posts_ok E V (post idx) w \<and> forward_ok E (vw_forward V (fe_kv w)) idx
     \<and> stats_ok E (vw_collection V (fe_kv w)) (plain_stats idx)"

lemma term_counts_lookup: "term_counts ts t = (if t \<in> set ts then Some (of_nat (count_list ts t)) else None)"
  unfolding term_counts_def
  by (induction ts rule: rev_induct) (auto simp: count_term_def count_list_0_iff)

lemma dom_term_counts [simp]: "dom (term_counts ts) = set ts"
  by (auto simp: term_counts_lookup split: if_splits)

lemma post_delta:
  assumes "finite (dom idx)"
  shows "apply_segment \<lparr>sg_term = t, sg_added_entries = fst (term_delta d (of_nat (length ts)) (map_option term_counts (idx d)) (term_counts ts) t),
     sg_removed_doc_keys = snd (term_delta d (of_nat (length ts)) (map_option term_counts (idx d)) (term_counts ts) t)\<rparr> (post idx t)
     = post (idx(d \<mapsto> ts)) t"
  by (rule ext) (auto simp: apply_segment_lookup term_delta_def term_counts_lookup post_def split: option.splits)

lemma post_remove: "apply_segment \<lparr>sg_term = t, sg_added_entries = [], sg_removed_doc_keys = [d]\<rparr> (post idx t) = post (idx(d := None)) t"
  by (rule ext) (auto simp: apply_segment_lookup post_def)

lemma unat_of_length: "n < 2 ^ 32 \<Longrightarrow> unat (of_nat n :: u32) = n"
  by (simp add: unsigned_of_nat take_bit_nat_eq_self)

lemma remove_plain:
  assumes "finite (dom idx)" "idx d = Some ts" "length ts < 2 ^ 32"
  shows "stats_remove (plain_stats idx) (of_nat (length ts)) = plain_stats (idx(d := None))"
proof -
  have dom: "dom idx = insert d (dom (idx(d := None)))" using assms(2) by auto
  have fin: "finite (dom (idx(d := None)))" using assms(1) by simp
  have "card (dom idx) = Suc (card (dom (idx(d := None))))" unfolding dom using fin by (subst card_insert_disjoint) auto
  moreover have "(\<Sum>d \<in> dom idx. length (the (idx d))) = length ts + (\<Sum>d \<in> dom (idx(d := None)). length (the (idx d)))"
    unfolding dom using fin assms(2) by (subst sum.insert) auto
  moreover have "(\<Sum>d' \<in> dom (idx(d := None)). length (the ((idx(d := None)) d'))) = (\<Sum>d \<in> dom (idx(d := None)). length (the (idx d)))"
    by (rule sum.cong) auto
  ultimately show ?thesis using assms(3)
    unfolding plain_stats_def stats_remove_def Let_def by (simp add: unat_of_length del: dom_fun_upd)
qed

lemma update_plain:
  assumes "finite (dom idx)" "idx d = None" "length ts < 2 ^ 32"
  shows "stats_update (plain_stats idx) (of_nat (length ts)) = plain_stats (idx(d \<mapsto> ts))"
proof -
  have "(\<Sum>d' \<in> dom idx. length (the ((idx(d \<mapsto> ts)) d'))) = (\<Sum>d \<in> dom idx. length (the (idx d)))"
    using assms(2) by (intro sum.cong) auto
  moreover have "d \<notin> dom idx" using assms(2) by auto
  ultimately show ?thesis using assms
    unfolding plain_stats_def stats_update_def Let_def by (simp add: unat_of_length add.commute)
qed

lemma posts_ok_cong:
  "posts_ok E V P w \<Longrightarrow> vw_inverted V (fe_kv w') = vw_inverted V (fe_kv w) \<Longrightarrow> fe_cache w' = fe_cache w \<Longrightarrow> fe_segment_seq w' = fe_segment_seq w
   \<Longrightarrow> (\<And>t. good_term t \<Longrightarrow> P' t = P t) \<Longrightarrow> posts_ok E V P' w'"
  by (simp add: posts_ok_def)

lemma forward_update:
  assumes "forward_ok E tbl idx"
  shows "from_slice (fx_counts E) b = Inr (term_counts ts) \<Longrightarrow> forward_ok E (tbl(d \<mapsto> b)) (idx(d \<mapsto> ts))"
    and "forward_ok E (tbl(d := None)) (idx(d := None))"
proof -
  have k: "case idx k of None \<Rightarrow> tbl k = None | Some ts \<Rightarrow> \<exists>b. tbl k = Some b \<and> from_slice (fx_counts E) b = Inr (term_counts ts)" for k
    using assms by (simp add: forward_ok_def)
  have "case (idx(d \<mapsto> ts)) k of None \<Rightarrow> (tbl(d \<mapsto> b)) k = None
      | Some ts \<Rightarrow> \<exists>b'. (tbl(d \<mapsto> b)) k = Some b' \<and> from_slice (fx_counts E) b' = Inr (term_counts ts)"
    if "from_slice (fx_counts E) b = Inr (term_counts ts)" for k
    using that k [of k] by (cases "idx k") auto
  then show "from_slice (fx_counts E) b = Inr (term_counts ts) \<Longrightarrow> forward_ok E (tbl(d \<mapsto> b)) (idx(d \<mapsto> ts))"
    unfolding forward_ok_def by blast
  have "case (idx(d := None)) k of None \<Rightarrow> (tbl(d := None)) k = None
      | Some ts \<Rightarrow> \<exists>b. (tbl(d := None)) k = Some b \<and> from_slice (fx_counts E) b = Inr (term_counts ts)" for k
    using k [of k] by (cases "idx k") auto
  then show "forward_ok E (tbl(d := None)) (idx(d := None))"
    unfolding forward_ok_def by blast
qed

context fts_laws
begin

lemma values_sum_counts: "length ts < 2 ^ 32 \<Longrightarrow> values_sum E (term_counts ts) = of_nat (length ts)"
proof -
  have "List.map_filter (term_counts ts) ks = map (\<lambda>t. of_nat (count_list ts t)) ks" if "set ks \<subseteq> set ts" for ks
    using that by (induction ks) (auto simp: map_filter_simps term_counts_lookup)
  then have "values_sum E (term_counts ts) = sum_list (map (\<lambda>t. of_nat (count_list ts t)) (fx_order E (set ts)))"
    using order [of "set ts"] by (simp add: values_sum_def)
  also have "\<dots> = (\<Sum>t \<in> set ts. of_nat (count_list ts t))" using order [of "set ts"] by (simp add: sum_list_distinct_conv_sum_set)
  also have "\<dots> = of_nat (length ts)" by (simp flip: of_nat_sum add: sum_count_set)
  finally show ?thesis .
qed

lemma get_stats_post: "stats_ok E (vw_collection V (fe_kv w)) st \<Longrightarrow> res_post F (\<lambda>r. r = st) (get_stats E w)"
  unfolding get_stats_def
  by (rule res_post_bind, rule res_post_mono [OF get_coll]) (auto simp: stats_ok_def split: option.splits)

lemma get_forward_post:
  "forward_ok E (vw_forward V (fe_kv w)) idx \<Longrightarrow> res_post F (\<lambda>r. r = map_option term_counts (idx d)) (get_forward_tf_map E w d)"
  unfolding get_forward_tf_map_def
  by (rule res_post_bind, rule res_post_mono [OF get_forward])
    (auto simp: forward_ok_def res_post_def split: option.splits dest!: spec [of _ d])

lemma put_stats_post:
  "io_post F (\<lambda>_ w'. stats_ok E (vw_collection V (fe_kv w')) st \<and> vw_forward V (fe_kv w') = vw_forward V (fe_kv w)
     \<and> vw_inverted V (fe_kv w') = vw_inverted V (fe_kv w) \<and> fe_cache w' = fe_cache w \<and> fe_segment_seq w' = fe_segment_seq w) (put_stats E st w)"
  unfolding put_stats_def
  by (rule io_post_mono [OF write_encoded_post [OF codec_lawD [OF stats_codec] put_coll]]) (auto simp: stats_ok_def)

lemma put_forward_post:
  assumes "forward_ok E (vw_forward V (fe_kv w)) idx"
  shows "io_post F (\<lambda>_ w'. forward_ok E (vw_forward V (fe_kv w')) (idx(d \<mapsto> ts)) \<and> vw_collection V (fe_kv w') = vw_collection V (fe_kv w)
     \<and> vw_inverted V (fe_kv w') = vw_inverted V (fe_kv w) \<and> fe_cache w' = fe_cache w \<and> fe_segment_seq w' = fe_segment_seq w)
     (write_encoded (fx_counts E) (put_fts_forward (fx_storage E)) d (term_counts ts) w)"
  by (rule io_post_mono [OF write_encoded_post [OF counts_codec put_forward]]) (use forward_update(1) [OF assms] in auto)

text \<open>The loop over the terms: each goes from its posting list under \<open>P\<close> to the one under \<open>P'\<close>.\<close>
lemma each_term_post:
  assumes "posts_ok E V P w" "distinct ts" "\<And>t. t \<in> set ts \<Longrightarrow> good_term t"
    and "\<And>t. t \<in> set ts \<Longrightarrow> apply_segment \<lparr>sg_term = t, sg_added_entries = as t, sg_removed_doc_keys = rs t\<rparr> (P t) = P' t"
    and "\<And>t. good_term t \<Longrightarrow> t \<notin> set ts \<Longrightarrow> P' t = P t"
  shows "io_post F (\<lambda>_ w'. posts_ok E V P' w' \<and> same_rest V w w') (io_each (\<lambda>t. apply_term_delta E t (as t) (rs t)) ts w)"
proof -
  let ?P = "\<lambda>us t. if t \<in> set us then P' t else P t"
  have "io_post F (\<lambda>_ w'. posts_ok E V (?P ts) w' \<and> same_rest V w w') (io_each (\<lambda>t. apply_term_delta E t (as t) (rs t)) ts w)"
  proof (rule io_post_each [where I = "\<lambda>us w'. posts_ok E V (?P us) w' \<and> same_rest V w w'"])
    fix us t vs w'
    assume split: "ts = us @ t # vs" and I: "posts_ok E V (?P us) w' \<and> same_rest V w w'"
    then have t: "good_term t" "t \<notin> set us" using assms(2,3) by auto
    have "(?P us)(t := apply_segment \<lparr>sg_term = t, sg_added_entries = as t, sg_removed_doc_keys = rs t\<rparr> (?P us t)) = ?P (us @ [t])"
      using t assms(4) [of t] split by auto
    with apply_term_delta_post [OF conjunct1 [OF I] t(1), of "as t" "rs t"]
    have "io_post F (\<lambda>_ w''. posts_ok E V (?P (us @ [t])) w'' \<and> same_rest V w' w'') (apply_term_delta E t (as t) (rs t) w')" by simp
    then show "io_post F (\<lambda>_ w'. posts_ok E V (?P (us @ [t])) w' \<and> same_rest V w w') (apply_term_delta E t (as t) (rs t) w')"
      by (rule io_post_mono) (use I in \<open>auto simp: same_rest_def\<close>)
  qed (use assms(1) in \<open>auto simp: same_rest_def\<close>)
  then show ?thesis
    by (rule io_post_mono) (use assms(5) in \<open>auto elim!: posts_ok_cong\<close>)
qed

lemma same_rest_ok:
  "same_rest V w w' \<Longrightarrow> forward_ok E (vw_forward V (fe_kv w)) idx \<Longrightarrow> stats_ok E (vw_collection V (fe_kv w)) st \<Longrightarrow>
   forward_ok E (vw_forward V (fe_kv w')) idx \<and> stats_ok E (vw_collection V (fe_kv w')) st"
  by (simp add: same_rest_def)

lemma plain_update: "plain_index idx \<Longrightarrow> length (tokenize E text) < 2 ^ 32 \<Longrightarrow> plain_index (idx(d \<mapsto> tokenize E text))"
  using tokens by (auto simp: plain_index_def)

text \<open>The statistics with the old version of a document taken out, and the new one added.\<close>
lemma replaced_stats:
  assumes "plain_index idx" "length ts < 2 ^ 32"
  shows "stats_update (case map_option term_counts (idx d) of Some p \<Rightarrow> stats_remove (plain_stats idx) (values_sum E p) | None \<Rightarrow> plain_stats idx)
     (of_nat (length ts)) = plain_stats (idx(d \<mapsto> ts))"
proof (cases "idx d")
  case None
  with assms show ?thesis by (simp add: update_plain plain_index_def)
next
  case (Some old)
  with assms have "stats_remove (plain_stats idx) (values_sum E (term_counts old)) = plain_stats (idx(d := None))"
    by (simp add: values_sum_counts remove_plain plain_index_def)
  with Some assms show ?thesis using update_plain [of "idx(d := None)" d ts] by (simp add: plain_index_def)
qed

lemma index_document_post:
  assumes "index_ok E V idx w" and len: "length (tokenize E text) < 2 ^ 32"
  shows "io_post F (\<lambda>_. index_ok E V (idx(d \<mapsto> tokenize E text))) (index_document E d text w)"
proof -
  let ?ts = "tokenize E text" and ?p = "map_option term_counts (idx d)"
  let ?idx = "idx(d \<mapsto> ?ts)" and ?n = "of_nat (length (tokenize E text)) :: u32"
  let ?A = "fx_order E (dom (term_counts ?ts) \<union> (case ?p of Some p \<Rightarrow> dom p | None \<Rightarrow> {}))"
  have plain: "plain_index idx" and posts: "posts_ok E V (post idx) w" and fwd: "forward_ok E (vw_forward V (fe_kv w)) idx"
    and st: "stats_ok E (vw_collection V (fe_kv w)) (plain_stats idx)" using assms(1) by (auto simp: index_ok_def)
  have fin: "finite (dom idx)" using plain by (simp add: plain_index_def)
  have "finite (dom (term_counts ?ts) \<union> (case ?p of Some p \<Rightarrow> dom p | None \<Rightarrow> {}))" by (simp split: option.splits)
  note A = order [OF this]
  have good: "good_term t" if "t \<in> set ?A" for t
    using that A plain tokens by (auto simp: plain_index_def split: option.splits)
  have loop: "io_post F (\<lambda>_. index_ok E V ?idx)
      (io_each (\<lambda>t. apply_term_delta E t (fst (term_delta d ?n ?p (term_counts ?ts) t)) (snd (term_delta d ?n ?p (term_counts ?ts) t))) ?A w2)"
    if w2: "forward_ok E (vw_forward V (fe_kv w2)) ?idx" "stats_ok E (vw_collection V (fe_kv w2)) (plain_stats ?idx)"
      "posts_ok E V (post idx) w2" for w2
  proof (rule io_post_mono [OF each_term_post [OF w2(3), where P' = "post ?idx"]])
    show "post ?idx t = post idx t" if "t \<notin> set ?A" for t
      using that A by (auto simp: post_def fun_eq_iff split: option.splits)
    show "index_ok E V ?idx w'" if "posts_ok E V (post ?idx) w' \<and> same_rest V w2 w'" for w'
      using that w2 plain_update [OF plain len] same_rest_ok by (auto simp: index_ok_def)
  qed (use A good post_delta [OF fin] in auto)
  show ?thesis
    unfolding index_document_def Let_def
  proof (rule io_post_call [OF get_forward_post [OF fwd]], rule io_post_call [OF get_stats_post [OF st]], hypsubst,
      rule io_post_seq [OF put_stats_post], goal_cases)
    case (1 _ _ _ w1)
    then have w1: "forward_ok E (vw_forward V (fe_kv w1)) idx" "stats_ok E (vw_collection V (fe_kv w1)) (plain_stats ?idx)"
        "posts_ok E V (post idx) w1"
      using fwd posts_ok_cong [OF posts] replaced_stats [OF plain len, of d] by (simp_all only:)
    show ?case
    proof (rule io_post_seq [OF put_forward_post [OF w1(1)]], rule loop)
    qed (use w1 posts_ok_cong [OF w1(3)] in auto)
  qed
qed

text \<open>Removing a document.\<close>
lemma delete_terms_post:
  assumes "idx d = Some ts" "length ts < 2 ^ 32" "ts \<noteq> []"
    and "posts_ok E V (\<lambda>t. if t \<in> set us then post (idx(d := None)) t else post idx t) w"
    and "distinct (us @ vs)" "set vs \<subseteq> set ts" "\<And>t. t \<in> set ts \<Longrightarrow> good_term t"
    and "n = (if us = [] then 0 else of_nat (length ts))"
  shows "io_post F (\<lambda>n' w'. n' = (if us @ vs = [] then 0 else of_nat (length ts)) \<and> same_rest V w w'
     \<and> posts_ok E V (\<lambda>t. if t \<in> set (us @ vs) then post (idx(d := None)) t else post idx t) w') (delete_terms E d vs n w)"
  using assms(4-6,8)
proof (induction vs arbitrary: us n w)
  case Nil
  then show ?case by (simp add: same_rest_def)
next
  case (Cons t vs)
  let ?P = "\<lambda>us t. if t \<in> set us then post (idx(d := None)) t else post idx t"
  let ?n = "of_nat (length ts) :: u32"
  have t: "t \<in> set ts" "good_term t" "t \<notin> set us" using Cons.prems assms(7) by auto
  have "unat ?n = length ts" by (rule unat_of_length [OF assms(2)])
  then have nz: "?n \<noteq> 0" using assms(3) by (metis length_0_conv unat_0)
  have found: "(if n = 0 then case find (\<lambda>e. pe_doc_key e = d) (pl_entries l) of Some entry \<Rightarrow> pe_doc_length entry | None \<Rightarrow> n else n) = ?n"
    if "l = entries_list E t (?P us t)" "doc_keyed (?P us t)" for l
    using that t(3) Cons.prems(4) nz entries_list_find [of "post idx t" d t] t(1) assms(1) by (auto simp: post_def)
  show ?case unfolding delete_terms.simps Let_def
  proof (rule io_post_seq [OF get_posting_list_post [OF Cons.prems(1) t(2)]], elim conjE)
    fix l w1
    assume l: "l = entries_list E t (?P us t)" and w1: "posts_ok E V (?P us) w1" "fe_kv w1 = fe_kv w"
    note n = found [OF l doc_keyed_posts [OF w1(1) t(2)]]
    have delta: "io_post F (\<lambda>_ w2. posts_ok E V (?P (us @ [t])) w2 \<and> same_rest V w1 w2) (apply_term_delta E t [] [d] w1)"
    proof -
      have "(?P us)(t := apply_segment \<lparr>sg_term = t, sg_added_entries = [], sg_removed_doc_keys = [d]\<rparr> (?P us t)) = ?P (us @ [t])"
        using t(3) by (auto simp: post_remove)
      with apply_term_delta_post [OF w1(1) t(2), of "[]" "[d]"] show ?thesis by simp
    qed
    show "io_post F (\<lambda>n' w'. n' = (if us @ t # vs = [] then 0 else ?n) \<and> same_rest V w w' \<and> posts_ok E V (?P (us @ t # vs)) w')
      (io_then (apply_term_delta E t [] [d] w1) (\<lambda>_. delete_terms E d vs
        (if n = 0 then case find (\<lambda>e. pe_doc_key e = d) (pl_entries l) of None \<Rightarrow> n | Some entry \<Rightarrow> pe_doc_length entry else n)))"
      unfolding n
    proof (rule io_post_seq [OF delta], elim conjE)
      fix w2
      assume w2: "posts_ok E V (?P (us @ [t])) w2" "same_rest V w1 w2"
      show "io_post F (\<lambda>n' w'. n' = (if us @ t # vs = [] then 0 else ?n) \<and> same_rest V w w' \<and> posts_ok E V (?P (us @ t # vs)) w')
          (delete_terms E d vs ?n w2)"
        by (rule io_post_mono [OF Cons.IH [OF w2(1)]]) (use Cons.prems w1 w2 in \<open>auto simp: same_rest_def\<close>)
    qed
  qed
qed

lemma delete_document_post:
  assumes "index_ok E V idx w" "idx d \<noteq> Some []"
  shows "io_post F (\<lambda>_. index_ok E V (idx(d := None))) (fts_delete_document E d w)"
proof -
  have plain: "plain_index idx" and posts: "posts_ok E V (post idx) w" and fwd: "forward_ok E (vw_forward V (fe_kv w)) idx"
    and st: "stats_ok E (vw_collection V (fe_kv w)) (plain_stats idx)" using assms(1) by (auto simp: index_ok_def)
  let ?idx = "idx(d := None)"
  have plain': "plain_index ?idx" using plain by (auto simp: plain_index_def)
  have last: "io_post F (\<lambda>_. index_ok E V ?idx) (kv_delete w1 (delete_fts_forward (fx_storage E) (fe_kv w1) d))"
    if w1: "posts_ok E V (post ?idx) w1" "forward_ok E (vw_forward V (fe_kv w1)) idx" "stats_ok E (vw_collection V (fe_kv w1)) (plain_stats ?idx)" for w1
  proof -
    have "index_ok E V ?idx (w1\<lparr>fe_kv := s'\<rparr>)"
      if "vw_forward V s' = (vw_forward V (fe_kv w1))(d := None)" "vw_inverted V s' = vw_inverted V (fe_kv w1)"
        "vw_collection V s' = vw_collection V (fe_kv w1)" for s'
      using that w1 plain' forward_update(2) [OF w1(2), of d] posts_ok_cong [OF w1(1)] by (simp add: index_ok_def)
    then show ?thesis using delete_forward [of "fe_kv w1" d]
      by (auto simp: kv_delete_def res_post_def io_post_def split: sum.splits prod.splits)
  qed
  show ?thesis
    unfolding fts_delete_document_def
  proof (rule io_post_call [OF get_stats_post [OF st]], rule io_post_call [OF get_forward_post [OF fwd]], hypsubst)
    show "io_post F (\<lambda>_. index_ok E V ?idx) (io_then (case map_option term_counts (idx d) of
         Some tf_map \<Rightarrow> io_then (delete_terms E d (fx_order E (dom tf_map)) 0 w) (\<lambda>doc_len w.
           if doc_len > 0 then put_stats E (stats_remove (plain_stats idx) doc_len) w else (w, Inr ()))
       | None \<Rightarrow> (w, Inr ())) (\<lambda>_ w. kv_delete w (delete_fts_forward (fx_storage E) (fe_kv w) d)))"
    proof (cases "idx d")
      case None
      then have "?idx = idx" by (simp add: fun_upd_idem)
      then show ?thesis using None last [of w] posts fwd st by (intro io_post_then) simp
    next
      case (Some ts)
      let ?n = "of_nat (length ts) :: u32" and ?vs = "fx_order E (set ts)"
      have len: "length ts < 2 ^ 32" and good: "\<And>t. t \<in> set ts \<Longrightarrow> good_term t" and fin: "finite (dom idx)"
        using plain Some by (auto simp: plain_index_def)
      have ne: "ts \<noteq> []" using Some assms(2) by auto
      have vs: "distinct ?vs" "set ?vs = set ts" using order [of "set ts"] by auto
      then have "?vs \<noteq> []" using ne by auto
      have nz: "?n > 0" using unat_of_length [OF len] ne by (metis length_greater_0_conv word_gt_0 unat_0 nat_neq_iff)
      have terms: "io_post F (\<lambda>n w1. n = ?n \<and> posts_ok E V (post ?idx) w1 \<and> same_rest V w w1) (delete_terms E d ?vs 0 w)"
      proof (rule io_post_mono [OF delete_terms_post [where idx = idx and ts = ts and us = "[]"]])
        fix n w1
        assume "n = (if [] @ ?vs = [] then 0 else ?n) \<and> same_rest V w w1
            \<and> posts_ok E V (\<lambda>t. if t \<in> set ([] @ ?vs) then post ?idx t else post idx t) w1"
        moreover have "post idx t = post ?idx t" if "t \<notin> set ts" for t using that Some by (auto simp: post_def fun_eq_iff)
        ultimately show "n = ?n \<and> posts_ok E V (post ?idx) w1 \<and> same_rest V w w1"
          using vs \<open>?vs \<noteq> []\<close> by (auto elim!: posts_ok_cong)
      qed (use Some len ne posts vs good in auto)
      have stats: "io_post F (\<lambda>_ w2. posts_ok E V (post ?idx) w2 \<and> forward_ok E (vw_forward V (fe_kv w2)) idx
          \<and> stats_ok E (vw_collection V (fe_kv w2)) (plain_stats ?idx))
          (if n > 0 then put_stats E (stats_remove (plain_stats idx) n) w1 else (w1, Inr ()))"
        if w1: "n = ?n \<and> posts_ok E V (post ?idx) w1 \<and> same_rest V w w1" for n w1
      proof -
        have "n > 0" "stats_remove (plain_stats idx) n = plain_stats ?idx" "posts_ok E V (post ?idx) w1"
            "forward_ok E (vw_forward V (fe_kv w1)) idx"
          using w1 nz remove_plain [OF fin Some len] fwd by (simp_all add: same_rest_def)
        then show ?thesis by (simp only: if_True) (rule io_post_mono [OF put_stats_post], auto elim!: posts_ok_cong)
      qed
      show ?thesis unfolding Some option.map option.case dom_term_counts
        by (rule io_post_seq [OF io_post_seq [OF terms stats]]) (use last in auto)
    qed
  qed
qed

end

section \<open>Batches\<close>

definition batch_entries :: "batch_state \<Rightarrow> rstr \<Rightarrow> posting_entry list" where
  "batch_entries b t = (case bs_entries b t of Some es \<Rightarrow> es | None \<Rightarrow> [])"

definition batch_docs :: "batch_state \<Rightarrow> rstr \<Rightarrow> rstr set" where
  "batch_docs b t = (case bs_affected b t of Some ds \<Rightarrow> ds | None \<Rightarrow> {})"

lemma batch_stats_update [simp]:
  "batch_docs (b\<lparr>bs_stats := st\<rparr>) = batch_docs b" "batch_entries (b\<lparr>bs_stats := st\<rparr>) = batch_entries b"
  by (auto simp: batch_docs_def batch_entries_def)

lemma foldl_affect:
  "bs_stats (foldl (affect k) b ts) = bs_stats b \<and> batch_entries (foldl (affect k) b ts) = batch_entries b
   \<and> dom (bs_affected (foldl (affect k) b ts)) = dom (bs_affected b) \<union> set ts
   \<and> batch_docs (foldl (affect k) b ts) t = (if t \<in> set ts then insert k (batch_docs b t) else batch_docs b t)"
  by (induction ts arbitrary: b) (auto simp: affect_def batch_docs_def batch_entries_def)

lemma foldl_add_entry:
  "distinct ts \<Longrightarrow> bs_stats (foldl (add_entry k n m) b ts) = bs_stats b
   \<and> dom (bs_affected (foldl (add_entry k n m) b ts)) = dom (bs_affected b) \<union> set ts
   \<and> batch_docs (foldl (add_entry k n m) b ts) t = (if t \<in> set ts then insert k (batch_docs b t) else batch_docs b t)
   \<and> batch_entries (foldl (add_entry k n m) b ts) t = (if t \<in> set ts then batch_entries b t
       @ [\<lparr>pe_doc_key = k, pe_term_frequency = (case m t of Some n \<Rightarrow> n | None \<Rightarrow> 0), pe_doc_length = n\<rparr>] else batch_entries b t)"
  by (induction ts arbitrary: b) (auto simp: add_entry_def affect_def batch_docs_def batch_entries_def)

text \<open>The documents of a batch, with their terms.\<close>
definition new_docs :: "('e, 's, 'c) fts_env \<Rightarrow> (rstr \<times> rstr) list \<Rightarrow> rstr \<rightharpoonup> rstr list" where
  "new_docs E docs = map_of (map (\<lambda>(k, text). (k, tokenize E text)) docs)"

lemma dom_new_docs: "dom (new_docs E docs) = fst ` set docs"
  by (force simp: new_docs_def dom_map_of_conv_image_fst)

definition mentions :: "(rstr \<rightharpoonup> rstr list) \<Rightarrow> rstr \<Rightarrow> rstr \<Rightarrow> bool" where
  "mentions idx t d \<longleftrightarrow> post idx t d \<noteq> None"

lemma mentions_iff: "mentions idx t d \<longleftrightarrow> (\<exists>ts. idx d = Some ts \<and> t \<in> set ts)"
  by (auto simp: mentions_def post_def split: option.splits)

definition collected :: "(rstr \<rightharpoonup> rstr list) \<Rightarrow> (rstr \<rightharpoonup> rstr list) \<Rightarrow> batch_state \<Rightarrow> bool" where
  "collected idx new b \<longleftrightarrow> bs_stats b = plain_stats (idx ++ new) \<and> finite (dom (bs_affected b))
     \<and> (\<forall>t. (\<forall>d. find (\<lambda>e. pe_doc_key e = d) (rev (batch_entries b t)) = post new t d)
          \<and> batch_docs b t = {d \<in> dom new. mentions new t d \<or> mentions idx t d}
          \<and> (t \<in> dom (bs_affected b) \<longleftrightarrow> batch_docs b t \<noteq> {}))"

lemma collected_segment:
  assumes "collected idx new b" "set ds = batch_docs b t"
  shows "apply_segment \<lparr>sg_term = t, sg_added_entries = batch_entries b t, sg_removed_doc_keys = ds\<rparr> (post idx t) = post (idx ++ new) t"
proof
  fix d
  have "find (\<lambda>e. pe_doc_key e = d) (rev (batch_entries b t)) = post new t d" "d \<in> set ds \<longleftrightarrow> d \<in> dom new \<and> (mentions new t d \<or> mentions idx t d)"
    using assms by (auto simp: collected_def)
  then show "apply_segment \<lparr>sg_term = t, sg_added_entries = batch_entries b t, sg_removed_doc_keys = ds\<rparr> (post idx t) d = post (idx ++ new) t d"
    by (auto simp: apply_segment_lookup mentions_def post_def map_add_def split: option.splits if_splits)
qed

lemma not_collected:
  assumes "collected idx new b" "t \<notin> dom (bs_affected b)"
  shows "post (idx ++ new) t = post idx t"
proof -
  have "batch_docs b t = {}" and docs: "batch_docs b t = {d \<in> dom new. mentions new t d \<or> mentions idx t d}"
    using assms by (auto simp: collected_def)
  then have "d \<in> dom new \<Longrightarrow> \<not> mentions new t d \<and> \<not> mentions idx t d" for d by auto
  then show ?thesis by (auto simp: fun_eq_iff mentions_iff post_def map_add_def split: option.splits)
qed

context fts_laws
begin

lemma collect_document:
  assumes "collected idx new b" "plain_index (idx ++ new)" "new k = None" "length ts < 2 ^ 32"
    and b1: "b1 = (case map_option term_counts (idx k) of
        Some p \<Rightarrow> foldl (affect k) (b\<lparr>bs_stats := stats_remove (bs_stats b) (values_sum E p)\<rparr>) (fx_order E (dom p)) | None \<Rightarrow> b)"
    and b2: "b2 = b1\<lparr>bs_stats := stats_update (bs_stats b1) (of_nat (length ts))\<rparr>"
  shows "collected idx (new(k \<mapsto> ts)) (foldl (add_entry k (of_nat (length ts)) (term_counts ts)) b2 (fx_order E (dom (term_counts ts))))"
proof -
  have k: "(idx ++ new) k = idx k" using assms(3) by (simp add: map_add_def)
  have vs: "distinct (fx_order E (set us)) \<and> set (fx_order E (set us)) = set us" for us by (rule order) simp
  have "bs_stats b1 = (case map_option term_counts ((idx ++ new) k) of
      Some p \<Rightarrow> stats_remove (plain_stats (idx ++ new)) (values_sum E p) | None \<Rightarrow> plain_stats (idx ++ new))"
    using assms(1) k unfolding b1 collected_def by (simp add: foldl_affect split: option.splits)
  then have st: "bs_stats b2 = plain_stats (idx ++ new(k \<mapsto> ts))"
    using replaced_stats [OF assms(2,4), of k] by (simp add: b2)
  have b2_docs: "batch_docs b2 t = (if mentions idx t k then insert k (batch_docs b t) else batch_docs b t)" for t
    using vs by (auto simp: b2 b1 foldl_affect mentions_iff split: option.splits)
  have b2_dom: "dom (bs_affected b2) = dom (bs_affected b) \<union> {t. mentions idx t k}"
    using vs by (simp add: b2 b1 foldl_affect mentions_iff split: option.splits)
  have b2_entries: "batch_entries b2 = batch_entries b"
    by (simp add: b2 b1 foldl_affect split: option.splits)
  let ?vs = "fx_order E (set ts)" and ?new = "new(k \<mapsto> ts)"
  let ?b = "foldl (add_entry k (of_nat (length ts)) (term_counts ts)) b2 ?vs"
  have added: "bs_stats ?b = bs_stats b2" "dom (bs_affected ?b) = dom (bs_affected b2) \<union> set ts"
      "batch_docs ?b t = (if t \<in> set ts then insert k (batch_docs b2 t) else batch_docs b2 t)"
      "batch_entries ?b t = (if t \<in> set ts then batch_entries b2 t
         @ [\<lparr>pe_doc_key = k, pe_term_frequency = of_nat (count_list ts t), pe_doc_length = of_nat (length ts)\<rparr>] else batch_entries b2 t)" for t
    using foldl_add_entry [of ?vs k "of_nat (length ts)" "term_counts ts" b2 t] vs [of ts] by (auto simp: term_counts_lookup)
  have old: "find (\<lambda>e. pe_doc_key e = d) (rev (batch_entries b t)) = post new t d"
      "batch_docs b t = {d \<in> dom new. mentions new t d \<or> mentions idx t d}"
      "t \<in> dom (bs_affected b) \<longleftrightarrow> batch_docs b t \<noteq> {}" "finite (dom (bs_affected b))" for t d
    using assms(1) by (auto simp: collected_def)
  have entries: "find (\<lambda>e. pe_doc_key e = d) (rev (batch_entries ?b t)) = post ?new t d" for t d
    using old(1) [of d t] assms(3) by (auto simp: added b2_entries post_def)
  have docs: "batch_docs ?b t = {d \<in> dom ?new. mentions ?new t d \<or> mentions idx t d}" for t
    using assms(3) by (auto simp: added b2_docs old(2) mentions_iff)
  have affected: "t \<in> dom (bs_affected ?b) \<longleftrightarrow> batch_docs ?b t \<noteq> {}" for t
    unfolding added b2_docs b2_dom Un_iff old(3) by (auto simp: mentions_iff)
  have "finite (dom (bs_affected ?b))"
    using old(4) by (cases "idx k") (simp_all add: added b2_dom mentions_iff)
  then show ?thesis using added(1) st entries docs affected by (simp add: collected_def)
qed

lemma batch_document_post:
  assumes "collected idx new b" "plain_index (idx ++ new)" "new (fst doc) = None" "length (tokenize E (snd doc)) < 2 ^ 32"
    and "posts_ok E V P w" "forward_ok E (vw_forward V (fe_kv w)) (idx ++ new)"
  shows "io_post F (\<lambda>b w'. collected idx (new(fst doc \<mapsto> tokenize E (snd doc))) b \<and> posts_ok E V P w'
     \<and> forward_ok E (vw_forward V (fe_kv w')) (idx ++ new(fst doc \<mapsto> tokenize E (snd doc)))
     \<and> vw_collection V (fe_kv w') = vw_collection V (fe_kv w)) (batch_document E b doc w)"
proof -
  have k: "(idx ++ new) (fst doc) = idx (fst doc)" using assms(3) by (simp add: map_add_def)
  show ?thesis
    unfolding batch_document_def Let_def
  proof (rule io_post_call [OF get_forward_post [OF assms(6)]], rule io_post_seq [OF put_forward_post [OF assms(6)]], goal_cases)
    case (1 p u w')
    have "posts_ok E V P w'" using 1(2) by (intro posts_ok_cong [OF assms(5)]) auto
    with 1 show ?case
      using collect_document [OF assms(1-4) refl refl] by (simp add: k)
  qed
qed

lemma batch_documents_post:
  assumes "collected idx new b" "plain_index (idx ++ new)" "distinct (map fst docs)"
    and "\<And>doc. doc \<in> set docs \<Longrightarrow> new (fst doc) = None \<and> length (tokenize E (snd doc)) < 2 ^ 32"
    and "posts_ok E V P w" "forward_ok E (vw_forward V (fe_kv w)) (idx ++ new)"
  shows "io_post F (\<lambda>b w'. collected idx (new ++ new_docs E docs) b \<and> plain_index (idx ++ (new ++ new_docs E docs)) \<and> posts_ok E V P w'
     \<and> forward_ok E (vw_forward V (fe_kv w')) (idx ++ (new ++ new_docs E docs))) (batch_documents E b docs w)"
  using assms
proof (induction docs arbitrary: new b w)
  case Nil
  then show ?case by (simp add: new_docs_def)
next
  case (Cons doc docs)
  let ?new = "new(fst doc \<mapsto> tokenize E (snd doc))"
  have doc: "new (fst doc) = None" "length (tokenize E (snd doc)) < 2 ^ 32" using Cons.prems(4) by auto
  have plain: "plain_index (idx ++ ?new)" using plain_update [OF Cons.prems(2) doc(2), of "fst doc"] by simp
  have "fst doc \<notin> dom (new_docs E docs)" using Cons.prems(3) by (simp add: dom_new_docs)
  then have new: "new ++ new_docs E (doc # docs) = ?new ++ new_docs E docs"
    by (cases doc) (auto simp: new_docs_def map_add_def fun_eq_iff split: option.splits)
  show ?case unfolding new batch_documents.simps
  proof (rule io_post_seq [OF batch_document_post [OF Cons.prems(1,2) doc Cons.prems(5,6)]], elim conjE, rule Cons.IH [where new = ?new])
    show "distinct (map fst docs)" using Cons.prems(3) by simp
    show "?new (fst d) = None \<and> length (tokenize E (snd d)) < 2 ^ 32" if "d \<in> set docs" for d
    proof -
      have "fst d \<noteq> fst doc" using that Cons.prems(3) by (auto simp: image_iff)
      then show ?thesis using that Cons.prems(4) [of d] by simp
    qed
  qed (use plain in \<open>auto simp: fun_upd_def\<close>)
qed

lemma index_batch_post:
  assumes "index_ok E V idx w" "distinct (map fst docs)" "\<And>doc. doc \<in> set docs \<Longrightarrow> length (tokenize E (snd doc)) < 2 ^ 32"
  shows "io_post F (\<lambda>_. index_ok E V (idx ++ new_docs E docs)) (index_batch E docs w)"
proof -
  let ?idx = "idx ++ new_docs E docs"
  let ?b = "\<lparr>bs_stats = plain_stats idx, bs_entries = Map.empty, bs_affected = Map.empty\<rparr>"
  have ok: "plain_index idx" "posts_ok E V (post idx) w" "forward_ok E (vw_forward V (fe_kv w)) idx"
      "stats_ok E (vw_collection V (fe_kv w)) (plain_stats idx)" using assms(1) by (auto simp: index_ok_def)
  have start: "collected idx Map.empty ?b" by (simp add: collected_def batch_entries_def batch_docs_def post_def)
  have docs: "io_post F (\<lambda>b w'. collected idx (new_docs E docs) b \<and> plain_index ?idx \<and> posts_ok E V (post idx) w'
      \<and> forward_ok E (vw_forward V (fe_kv w')) ?idx) (batch_documents E ?b docs w)"
    using batch_documents_post [OF start _ assms(2), where w = w and P = "post idx"] ok assms(3) by simp
  have loop: "io_post F (\<lambda>_ w'. posts_ok E V (post ?idx) w' \<and> same_rest V w1 w')
      (io_each (\<lambda>t. apply_term_delta E t (batch_entries b t) (fx_order E (batch_docs b t))) (fx_order E (dom (bs_affected b))) w1)"
    if b: "collected idx (new_docs E docs) b" and plain: "plain_index ?idx" and w1: "posts_ok E V (post idx) w1" for b w1
  proof (rule each_term_post [OF w1])
    have fin: "finite (dom (bs_affected b))" using b by (simp add: collected_def)
    note A = order [OF fin]
    have docs: "batch_docs b t = {d \<in> dom (new_docs E docs). mentions (new_docs E docs) t d \<or> mentions idx t d}" for t
      using b by (simp add: collected_def)
    then have "finite (batch_docs b t)" for t by (simp add: new_docs_def finite_dom_map_of)
    then show "apply_segment \<lparr>sg_term = t, sg_added_entries = batch_entries b t, sg_removed_doc_keys = fx_order E (batch_docs b t)\<rparr> (post idx t)
        = post ?idx t" for t
      by (intro collected_segment [OF b]) (use order in blast)
    show "distinct (fx_order E (dom (bs_affected b)))" using A by simp
    show "post ?idx t = post idx t" if "t \<notin> set (fx_order E (dom (bs_affected b)))" for t
      using that A by (intro not_collected [OF b]) auto
    show "good_term t" if "t \<in> set (fx_order E (dom (bs_affected b)))" for t
    proof -
      have "batch_docs b t \<noteq> {}" using that A b by (auto simp: collected_def)
      then obtain d where "mentions (new_docs E docs) t d \<or> mentions idx t d" unfolding docs by blast
      then obtain ts where "idx d = Some ts \<or> new_docs E docs d = Some ts" "t \<in> set ts" by (auto simp: mentions_iff)
      then have "idx d = Some ts \<or> ?idx d = Some ts" "t \<in> set ts" by auto
      then show ?thesis by (elim disjE) (erule plain_good [OF ok(1)] plain_good [OF plain], assumption)+
    qed
  qed
  have last: "io_post F (\<lambda>_. index_ok E V ?idx) (put_stats E (bs_stats b) w2)"
    if b: "collected idx (new_docs E docs) b" "plain_index ?idx" and w1: "forward_ok E (vw_forward V (fe_kv w1)) ?idx"
      and w2: "posts_ok E V (post ?idx) w2 \<and> same_rest V w1 w2" for b w1 w2
  proof (rule io_post_mono [OF put_stats_post], elim conjE)
    fix w3 :: "('s, 'c) fts_engine"
    assume w3: "stats_ok E (vw_collection V (fe_kv w3)) (bs_stats b)" "vw_forward V (fe_kv w3) = vw_forward V (fe_kv w2)"
      "vw_inverted V (fe_kv w3) = vw_inverted V (fe_kv w2)" "fe_cache w3 = fe_cache w2" "fe_segment_seq w3 = fe_segment_seq w2"
    have "posts_ok E V (post ?idx) w3" by (rule posts_ok_cong [OF conjunct1 [OF w2]]) (simp_all add: w3)
    moreover have "forward_ok E (vw_forward V (fe_kv w3)) ?idx" using w1 w2 w3(2) by (simp add: same_rest_def)
    moreover have "bs_stats b = plain_stats ?idx" using b(1) by (simp add: collected_def)
    ultimately show "index_ok E V ?idx w3" using b(2) w3(1) by (simp only: index_ok_def)
  qed
  show ?thesis
    unfolding index_batch_def batch_entries_def [symmetric] batch_docs_def [symmetric]
    by (rule io_post_call [OF get_stats_post [OF ok(4)]], hypsubst, rule io_post_seq [OF docs], elim conjE,
        rule io_post_seq [OF loop], assumption+, rule last)
qed

end

section \<open>Search\<close>

text \<open>What a term adds to the score of a document.\<close>
definition add_term :: "('e, 's, 'c) fts_env \<Rightarrow> (rstr \<rightharpoonup> rstr list) \<Rightarrow> rat \<Rightarrow> nat \<Rightarrow> rstr \<Rightarrow> rat option \<Rightarrow> rstr \<Rightarrow> rat option" where
  "add_term E idx avg_dl n d x t = (case post idx t d of None \<Rightarrow> x
     | Some e \<Rightarrow> Some (fx_round E ((case x of Some x \<Rightarrow> x | None \<Rightarrow> 0)
         + score_entry E avg_dl (inverse_frequency E n (card (dom (post idx t)))) e)))"

text \<open>The score of a document by the plain index; \<open>None\<close> when it has no term of the query.\<close>
definition bm25 :: "('e, 's, 'c) fts_env \<Rightarrow> (rstr \<rightharpoonup> rstr list) \<Rightarrow> rstr list \<Rightarrow> rstr \<Rightarrow> rat option" where
  "bm25 E idx ts d = (let st = plain_stats idx; avg_dl = (if fs_avg_dl st > 0 then fs_avg_dl st else 100)
     in foldl (add_term E idx avg_dl (fs_total_docs st) d) None ts)"

text \<open>The answer to a query by the plain index.\<close>
definition plain_search :: "('e, 's, 'c) fts_env \<Rightarrow> (rstr \<rightharpoonup> rstr list) \<Rightarrow> rstr \<Rightarrow> nat \<Rightarrow> fts_result list" where
  "plain_search E idx query limit =
     (let m = bm25 E idx (tokenize E query)
      in take limit (sort_by (le_desc ft_score) (map (\<lambda>k. \<lparr>ft_doc_key = k, ft_score = (case m k of Some x \<Rightarrow> x | None \<Rightarrow> 0)\<rparr>)
           (fx_order E (dom m)))))"

definition good_results :: "('e, 's, 'c) fts_env \<Rightarrow> (rstr \<rightharpoonup> rstr list) \<Rightarrow> rstr list \<Rightarrow> nat \<Rightarrow> fts_result list \<Rightarrow> bool" where
  "good_results E idx ts limit rs \<longleftrightarrow>
     (let found = {d. \<exists>t \<in> set ts. mentions idx t d}
      in distinct (map ft_doc_key rs) \<and> length rs = min limit (card found) \<and> sorted_wrt (\<lambda>a b. ft_score a \<ge> ft_score b) rs
       \<and> (\<forall>r \<in> set rs. ft_doc_key r \<in> found \<and> bm25 E idx ts (ft_doc_key r) = Some (ft_score r))
       \<and> (\<forall>d \<in> found - ft_doc_key ` set rs. \<forall>r \<in> set rs. \<forall>x. bm25 E idx ts d = Some x \<longrightarrow> x \<le> ft_score r))"

lemma dom_bm25: "dom (bm25 E idx ts) = {d. \<exists>t \<in> set ts. mentions idx t d}"
proof -
  have "foldl (add_term E idx avg n d) x ts = None \<longleftrightarrow> x = None \<and> (\<forall>t \<in> set ts. post idx t d = None)" for avg n x d
    by (induction ts arbitrary: x) (auto simp: add_term_def split: option.splits)
  then show ?thesis by (auto simp: bm25_def Let_def mentions_def dom_def)
qed

lemma fold_scores:
  assumes "distinct (map pe_doc_key es)"
  shows "foldl (add_score E f) scores es d = (case find (\<lambda>e. pe_doc_key e = d) es of None \<Rightarrow> scores d
     | Some e \<Rightarrow> Some (fx_round E ((case scores d of Some x \<Rightarrow> x | None \<Rightarrow> 0) + f e)))"
  using assms
proof (induction es arbitrary: scores)
  case (Cons e es)
  have "pe_doc_key e \<notin> pe_doc_key ` set es" using Cons.prems by simp
  then have "find (\<lambda>e'. pe_doc_key e' = pe_doc_key e) es = None" by (auto simp: find_None_iff image_iff)
  with Cons show ?case by (auto simp: add_score_def split: option.splits)
qed simp

text \<open>The best of the scored documents.\<close>
lemma take_best:
  fixes m :: "rstr \<rightharpoonup> rat"
  assumes "distinct ks" "set ks = dom m"
    and "rs = sort_by (le_desc ft_score) (map (\<lambda>k. \<lparr>ft_doc_key = k, ft_score = (case m k of Some x \<Rightarrow> x | None \<Rightarrow> 0)\<rparr>) ks)"
  shows "distinct (map ft_doc_key (take limit rs))" "length (take limit rs) = min limit (card (dom m))"
    and "sorted_wrt (\<lambda>a b. ft_score b \<le> ft_score a) (take limit rs)"
    and "r \<in> set (take limit rs) \<Longrightarrow> m (ft_doc_key r) = Some (ft_score r)"
    and "m d = Some x \<Longrightarrow> d \<notin> ft_doc_key ` set (take limit rs) \<Longrightarrow> r \<in> set (take limit rs) \<Longrightarrow> x \<le> ft_score r"
proof -
  let ?rs = "map (\<lambda>k. \<lparr>ft_doc_key = k, ft_score = (case m k of Some x \<Rightarrow> x | None \<Rightarrow> 0)\<rparr>) ks"
  have "mset (map ft_doc_key rs) = mset ks" by (simp add: assms(3) multiset.map_comp comp_def)
  then have keys: "distinct (map ft_doc_key rs)" using assms(1) mset_eq_imp_distinct_iff by metis
  then show "distinct (map ft_doc_key (take limit rs))" by (simp flip: take_map)
  have "length rs = card (dom m)" using assms distinct_card by fastforce
  then show "length (take limit rs) = min limit (card (dom m))" by simp
  have sorted: "sorted_wrt (\<lambda>a b. ft_score b \<le> ft_score a) (take limit rs @ drop limit rs)"
    using desc.sorted_sort_by [of ft_score ?rs] by (simp add: assms(3) sorted_le_desc)
  then show "sorted_wrt (\<lambda>a b. ft_score b \<le> ft_score a) (take limit rs)" using sorted_wrt_append by blast
  have entry: "r \<in> set rs \<longleftrightarrow> m (ft_doc_key r) = Some (ft_score r)" for r
    using assms(2) by (cases r) (auto simp: assms(3) dom_def split: option.splits intro!: image_eqI)
  then show "r \<in> set (take limit rs) \<Longrightarrow> m (ft_doc_key r) = Some (ft_score r)" using in_set_takeD by fast
  show "x \<le> ft_score r" if "m d = Some x" "d \<notin> ft_doc_key ` set (take limit rs)" "r \<in> set (take limit rs)"
  proof -
    let ?r = "\<lparr>ft_doc_key = d, ft_score = x\<rparr>"
    have "?r \<in> set (take limit rs @ drop limit rs)" using that(1) entry [of ?r] by simp
    moreover have "?r \<notin> set (take limit rs)" using that(2) imageI [of ?r "set (take limit rs)" ft_doc_key] by auto
    ultimately have "?r \<in> set (drop limit rs)" unfolding set_append by blast
    then have "ft_score ?r \<le> ft_score r" using sorted that(3) unfolding sorted_wrt_append by blast
    then show ?thesis by simp
  qed
qed

context fts_laws
begin

lemma score_terms_post:
  assumes "plain_index idx" "posts_ok E V (post idx) w" "card (dom idx) \<le> 5000" "\<And>t. t \<in> set ts \<Longrightarrow> good_term t"
  shows "io_post F (\<lambda>scores' w'. posts_ok E V (post idx) w' \<and> fe_kv w' = fe_kv w
     \<and> scores' = (\<lambda>d. foldl (add_term E idx avg n d) (scores d) ts)) (score_terms E n avg ts scores w)"
  using assms(2,4)
proof (induction ts arbitrary: scores w)
  case (Cons t ts)
  let ?l = "entries_list E t (post idx t)" and ?f = "score_entry E avg (inverse_frequency E n (card (dom (post idx t))))"
  have k: "doc_keyed (post idx t)" using doc_keyed_posts [OF Cons.prems(1)] Cons.prems(2) by simp
  have fin: "finite (dom idx)" using assms(1) by (simp add: plain_index_def)
  have "dom (post idx t) \<subseteq> dom idx" by (auto simp: post_def split: option.splits)
  then have "card (dom (post idx t)) \<le> 5000" using card_mono [OF fin] assms(3) le_trans by blast
  then have short: "length (pl_entries ?l) \<le> 5000" by (simp add: length_entries_list [OF k])
  have scored: "foldl (add_score E ?f) scores (pl_entries ?l) = (\<lambda>d. add_term E idx avg n d (scores d) t)"
    by (rule ext) (simp only: fold_scores [OF distinct_entries_list [OF k]] entries_list_find [OF k] add_term_def)
  have rest: "(let entries = pl_entries ?l; df = length entries
      in score_terms E n avg ts (if df = 0 then scores
         else foldl (add_score E (score_entry E avg (inverse_frequency E n df))) scores
           (if length entries > 5000 then take 5000 entries else entries)) w')
      = score_terms E n avg ts (\<lambda>d. add_term E idx avg n d (scores d) t) w'" for w'
    using short length_entries_list [OF k, of t] unfolding scored [symmetric] Let_def by auto
  show ?case unfolding score_terms.simps
  proof (rule io_post_seq [OF get_posting_list_post [OF Cons.prems(1)]])
    show "good_term t" using Cons.prems(2) by simp
  next
    fix l w'
    assume l: "l = ?l \<and> posts_ok E V (post idx) w' \<and> fe_kv w' = fe_kv w"
    have "io_post F (\<lambda>scores' w'. posts_ok E V (post idx) w' \<and> fe_kv w' = fe_kv w
        \<and> scores' = (\<lambda>d. foldl (add_term E idx avg n d) (scores d) (t # ts)))
        (score_terms E n avg ts (\<lambda>d. add_term E idx avg n d (scores d) t) w')"
      using io_post_mono [OF Cons.IH [of w' "\<lambda>d. add_term E idx avg n d (scores d) t"]] l Cons.prems(2) by simp
    then show "io_post F (\<lambda>scores' w'. posts_ok E V (post idx) w' \<and> fe_kv w' = fe_kv w
        \<and> scores' = (\<lambda>d. foldl (add_term E idx avg n d) (scores d) (t # ts)))
        (let entries = pl_entries l; df = length entries
         in score_terms E n avg ts (if df = 0 then scores
           else foldl (add_score E (score_entry E avg (inverse_frequency E n df))) scores
             (if length entries > 5000 then take 5000 entries else entries)) w')"
      unfolding conjunct1 [OF l] rest .
  qed
qed simp

lemma plain_search_good:
  assumes "plain_index idx"
  shows "good_results E idx (tokenize E query) limit (plain_search E idx query limit)"
proof -
  let ?m = "bm25 E idx (tokenize E query)"
  have "dom ?m \<subseteq> dom idx" by (auto simp: dom_bm25 mentions_iff)
  then have fin: "finite (dom ?m)" using assms finite_subset by (auto simp: plain_index_def)
  note best = take_best [OF conjunct1 [OF order [OF fin]] conjunct2 [OF order [OF fin]] refl]
  show ?thesis
    unfolding good_results_def plain_search_def Let_def dom_bm25 [symmetric, where E = E]
    using best by (auto simp: dom_def)
qed

lemma search_post:
  assumes "index_ok E V idx w" "card (dom idx) \<le> 5000"
  shows "io_post F (\<lambda>rs w'. index_ok E V idx w' \<and> rs = plain_search E idx query limit) (fts_search E query limit w)"
proof -
  let ?st = "plain_stats idx" and ?ts = "tokenize E query" and ?m = "bm25 E idx (tokenize E query)"
  let ?avg = "if fs_avg_dl ?st > 0 then fs_avg_dl ?st else 100"
  have ok: "plain_index idx" "posts_ok E V (post idx) w" "stats_ok E (vw_collection V (fe_kv w)) ?st"
    using assms(1) by (auto simp: index_ok_def)
  have scores: "(\<lambda>d. foldl (add_term E idx ?avg (fs_total_docs ?st) d) None ?ts) = ?m" by (simp add: bm25_def Let_def fun_eq_iff)
  show ?thesis
  proof (cases "fs_total_docs ?st = 0")
    case True
    then have "dom idx = {}" using ok(1) by (simp add: plain_stats_def plain_index_def Let_def)
    then have "dom ?m = {}" by (auto simp: dom_bm25 mentions_iff)
    then have "plain_search E idx query limit = []" using order [of "{}"] by (simp add: plain_search_def Let_def)
    with True assms(1) show ?thesis unfolding fts_search_def
      by (intro io_post_call [OF get_stats_post [OF ok(3)]]) simp
  next
    case False
    have scored: "io_post F (\<lambda>scores w'. index_ok E V idx w' \<and> scores = ?m) (score_terms E (fs_total_docs ?st) ?avg ?ts Map.empty w)"
      by (rule io_post_mono [OF score_terms_post [OF ok(1,2) assms(2) tokens]])
        (use assms(1) scores in \<open>auto simp: index_ok_def\<close>)
    show ?thesis unfolding fts_search_def
    proof (rule io_post_call [OF get_stats_post [OF ok(3)]], hypsubst)
      show "io_post F (\<lambda>rs w'. index_ok E V idx w' \<and> rs = plain_search E idx query limit)
        (let total_docs = fs_total_docs ?st; avg_dl = ?avg
         in if total_docs = 0 then (w, Inr [])
            else io_then (score_terms E total_docs avg_dl ?ts Map.empty w) (\<lambda>scores w.
              let results = map (\<lambda>k. \<lparr>ft_doc_key = k, ft_score = (case scores k of Some x \<Rightarrow> x | None \<Rightarrow> 0)\<rparr>) (fx_order E (dom scores))
              in (w, Inr (take limit (sort_by (le_desc ft_score) results)))))"
        unfolding Let_def if_not_P [OF False]
        by (rule io_post_seq [OF scored]) (simp add: plain_search_def Let_def)
    qed
  qed
qed

text \<open>A document without terms leaves the index and stays in the statistics.\<close>
lemma delete_empty_post:
  assumes "index_ok E V idx w" "idx d = Some []"
  shows "io_post F (\<lambda>_ w'. vw_forward V (fe_kv w') d = None \<and> stats_ok E (vw_collection V (fe_kv w')) (plain_stats idx))
     (fts_delete_document E d w)"
proof -
  have fwd: "forward_ok E (vw_forward V (fe_kv w)) idx" and st: "stats_ok E (vw_collection V (fe_kv w)) (plain_stats idx)"
    using assms(1) by (auto simp: index_ok_def)
  have "fx_order E {} = []" using order [of "{}"] by simp
  then show ?thesis
    unfolding fts_delete_document_def
    apply (intro io_post_call [OF get_stats_post [OF st]] io_post_call [OF get_forward_post [OF fwd]])
    using delete_forward [of "fe_kv w" d] st
    by (auto simp: assms(2) io_then_def kv_delete_def res_post_def io_post_def split: sum.splits prod.splits)
qed

end

end
