(* ===== verification/Fts_Refinement.thy ===== *)
theory Fts_Refinement
  imports Fts_Correct
begin

text \<open>
  What the full-text index promises: any sequence of its operations refines the plain
  index, over the storage in memory and over the tables of the database. A serializer, a
  cache and a tokenizer that keep the laws make an engine on which the properties are
  applied.
\<close>

section \<open>The two storages\<close>

definition memory_view :: "('c \<Rightarrow> rstr \<rightharpoonup> posting_list) \<Rightarrow> (in_memory_state, 'c) fts_view" where
  "memory_view cached = \<lparr>vw_forward = im_fts_forward, vw_inverted = im_fts_inverted, vw_collection = im_collections, vw_cached = cached\<rparr>"

text \<open>The storage in memory does not fail.\<close>
interpretation memory_fts: fts_store "in_memory_storage ord" "memory_view cached" False for ord cached
  by unfold_locales (simp_all add: in_memory_storage_def memory_view_def)

definition tables_view :: "('db \<Rightarrow> rstr \<Rightarrow> rstr \<rightharpoonup> bytes) \<Rightarrow> ('c \<Rightarrow> rstr \<rightharpoonup> posting_list) \<Rightarrow> ('db, 'c) fts_view" where
  "tables_view cb cached = \<lparr>vw_forward = (\<lambda>d. cb d FTS_FORWARD_TABLE), vw_inverted = (\<lambda>d. cb d FTS_INVERTED_TABLE),
     vw_collection = (\<lambda>d. cb d COLLECTIONS_TABLE), vw_cached = cached\<rparr>"

text \<open>The database may.\<close>
sublocale engram_tables \<subseteq> fts: fts_store "engram_kv E" "tables_view cb cached" True for cached
proof -
  have names: "FTS_FORWARD_TABLE \<noteq> FTS_INVERTED_TABLE" "FTS_FORWARD_TABLE \<noteq> COLLECTIONS_TABLE" "FTS_INVERTED_TABLE \<noteq> COLLECTIONS_TABLE"
    by (simp_all add: table_names)
  show "fts_store (engram_kv E) (tables_view cb cached) True"
    by unfold_locales
      (auto simp: engram_kv_def tables_view_def res_post_def put_generic_def get_generic_def delete_generic_def names names [symmetric]
        dest!: b.get_ok b.insert_ok b.remove_ok split: sum.splits prod.splits)
qed

section \<open>Operations on the plain index\<close>

datatype fts_op = OpIndex rstr rstr | OpBatch "(rstr \<times> rstr) list" | OpDelete rstr | OpSearch rstr nat

fun fts_step :: "('e, 's, 'c) fts_env \<Rightarrow> fts_op \<Rightarrow> ('s, 'c) fts_engine \<Rightarrow> ('s, 'c) fts_engine \<times> ('e + fts_result list)" where
  "fts_step E (OpIndex d text) w = io_then (index_document E d text w) (\<lambda>_ w. (w, Inr []))"
| "fts_step E (OpBatch docs) w = io_then (index_batch E docs w) (\<lambda>_ w. (w, Inr []))"
| "fts_step E (OpDelete d) w = io_then (fts_delete_document E d w) (\<lambda>_ w. (w, Inr []))"
| "fts_step E (OpSearch query limit) w = fts_search E query limit w"

fun fts_run :: "('e, 's, 'c) fts_env \<Rightarrow> fts_op list \<Rightarrow> ('s, 'c) fts_engine \<Rightarrow> ('s, 'c) fts_engine \<times> ('e + fts_result list list)" where
  "fts_run E [] w = (w, Inr [])"
| "fts_run E (op # ops) w = io_then (fts_step E op w) (\<lambda>r w. io_then (fts_run E ops w) (\<lambda>rs w. (w, Inr (r # rs))))"

fun plain_step :: "('e, 's, 'c) fts_env \<Rightarrow> fts_op \<Rightarrow> (rstr \<rightharpoonup> rstr list) \<Rightarrow> (rstr \<rightharpoonup> rstr list) \<times> fts_result list" where
  "plain_step E (OpIndex d text) idx = (idx(d \<mapsto> tokenize E text), [])"
| "plain_step E (OpBatch docs) idx = (idx ++ new_docs E docs, [])"
| "plain_step E (OpDelete d) idx = (idx(d := None), [])"
| "plain_step E (OpSearch query limit) idx = (idx, plain_search E idx query limit)"

fun plain_run :: "('e, 's, 'c) fts_env \<Rightarrow> fts_op list \<Rightarrow> (rstr \<rightharpoonup> rstr list) \<Rightarrow> (rstr \<rightharpoonup> rstr list) \<times> fts_result list list" where
  "plain_run E [] idx = (idx, [])"
| "plain_run E (op # ops) idx = (let (idx, r) = plain_step E op idx; (idx, rs) = plain_run E ops idx in (idx, r # rs))"

text \<open>Documents shorter than \<open>2 ^ 32\<close> terms, batches without repetition, no deletion of a document
  without terms, and at most 5000 documents when searching.\<close>
fun op_fits :: "('e, 's, 'c) fts_env \<Rightarrow> fts_op \<Rightarrow> (rstr \<rightharpoonup> rstr list) \<Rightarrow> bool" where
  "op_fits E (OpIndex d text) idx = (length (tokenize E text) < 2 ^ 32)"
| "op_fits E (OpBatch docs) idx = (distinct (map fst docs) \<and> list_all (\<lambda>doc. length (tokenize E (snd doc)) < 2 ^ 32) docs)"
| "op_fits E (OpDelete d) idx = (idx d \<noteq> Some [])"
| "op_fits E (OpSearch query limit) idx = (card (dom idx) \<le> 5000)"

fun ops_fit :: "('e, 's, 'c) fts_env \<Rightarrow> fts_op list \<Rightarrow> (rstr \<rightharpoonup> rstr list) \<Rightarrow> bool" where
  "ops_fit E [] idx = True"
| "ops_fit E (op # ops) idx = (op_fits E op idx \<and> ops_fit E ops (fst (plain_step E op idx)))"

context fts_laws
begin

lemma step_refines:
  assumes "index_ok E V idx w" "op_fits E op idx"
  shows "io_post F (\<lambda>r w'. index_ok E V (fst (plain_step E op idx)) w' \<and> r = snd (plain_step E op idx)) (fts_step E op w)"
proof (cases op)
  case (OpIndex d t)
  with assms show ?thesis by (simp add: io_post_seq [OF index_document_post])
next
  case (OpBatch docs)
  with assms show ?thesis by (auto simp: list_all_iff intro!: io_post_seq [OF index_batch_post])
next
  case (OpDelete d)
  with assms show ?thesis by (simp add: io_post_seq [OF delete_document_post])
next
  case (OpSearch query limit)
  with assms show ?thesis using search_post by simp
qed

lemma run_refines:
  "index_ok E V idx w \<Longrightarrow> ops_fit E ops idx \<Longrightarrow>
   io_post F (\<lambda>rs w'. index_ok E V (fst (plain_run E ops idx)) w' \<and> rs = snd (plain_run E ops idx)) (fts_run E ops w)"
proof (induction ops arbitrary: idx w)
  case (Cons op ops)
  let ?idx = "fst (plain_step E op idx)" and ?r = "snd (plain_step E op idx)"
  have run: "plain_run E (op # ops) idx = (fst (plain_run E ops ?idx), ?r # snd (plain_run E ops ?idx))"
    by (simp add: split_beta)
  have fits: "op_fits E op idx" "ops_fit E ops ?idx" using Cons.prems(2) by auto
  have rest: "io_post F (\<lambda>rs w'. index_ok E V (fst (plain_run E ops ?idx)) w' \<and> rs = ?r # snd (plain_run E ops ?idx))
      (io_then (fts_run E ops w') (\<lambda>rs w. (w, Inr (r # rs))))"
    if "index_ok E V ?idx w' \<and> r = ?r" for r w'
    using that by (auto intro!: io_post_seq [OF Cons.IH [OF _ fits(2)]])
  show ?case unfolding run fts_run.simps fst_conv snd_conv
    by (rule io_post_seq [OF step_refines [OF Cons.prems(1) fits(1)]]) (rule rest)
qed simp

end

text \<open>A new engine over empty tables is the empty index.\<close>
lemma new_index_ok:
  "vw_forward V s = Map.empty \<Longrightarrow> vw_inverted V s = Map.empty \<Longrightarrow> vw_collection V s = Map.empty \<Longrightarrow> vw_cached V c = Map.empty \<Longrightarrow>
   index_ok E V Map.empty (fts_new s c)"
  by (simp add: index_ok_def plain_index_def posts_ok_def holds_term_def post_def forward_ok_def stats_ok_def plain_stats_def
      default_fts_stats_def fts_new_def fun_eq_iff)

section \<open>An engine that keeps the laws\<close>

text \<open>Numbers on the wire, and values as numbers.\<close>
definition wire :: "nat list \<Rightarrow> bytes" where
  "wire ns = concat (map (\<lambda>n. replicate n 1 @ [0]) ns)"

fun unwire :: "nat \<Rightarrow> bytes \<Rightarrow> nat list" where
  "unwire n [] = []"
| "unwire n (b # bs) = (if b = 0 then n # unwire 0 bs else unwire (Suc n) bs)"

lemma unwire_wire: "unwire 0 (wire ns) = ns"
proof (induction ns)
  case (Cons n ns)
  have "unwire m (replicate n 1 @ 0 # bs) = (m + n) # unwire 0 bs" for m n bs by (induction n arbitrary: m) auto
  with Cons show ?case by (simp add: wire_def)
qed (simp add: wire_def)

definition coder :: "('a \<Rightarrow> nat list) \<Rightarrow> (nat list \<Rightarrow> 'a \<times> nat list) \<Rightarrow> bool" where
  "coder en de \<longleftrightarrow> (\<forall>x r. de (en x @ r) = (x, r))"

definition coded :: "('a \<Rightarrow> nat list) \<Rightarrow> (nat list \<Rightarrow> 'a \<times> nat list) \<Rightarrow> ('e, 'a, bytes) codec" where
  "coded en de = \<lparr>to_vec = (\<lambda>x. Inr (wire (en x))), from_slice = (\<lambda>b. Inr (fst (de (unwire 0 b))))\<rparr>"

lemma coded_law: "coder en de \<Longrightarrow> codec_law False (coded en de)"
  by (simp add: coder_def codec_law_def coded_def unwire_wire) (metis append_Nil2 fst_conv)

definition de_nat :: "nat list \<Rightarrow> nat \<times> nat list" where
  "de_nat r = (case r of [] \<Rightarrow> (0, []) | n # r \<Rightarrow> (n, r))"

fun de_many :: "(nat list \<Rightarrow> 'a \<times> nat list) \<Rightarrow> nat \<Rightarrow> nat list \<Rightarrow> 'a list \<times> nat list" where
  "de_many de 0 r = ([], r)"
| "de_many de (Suc n) r = (let (x, r) = de r; (xs, r) = de_many de n r in (x # xs, r))"

definition en_list :: "('a \<Rightarrow> nat list) \<Rightarrow> 'a list \<Rightarrow> nat list" where
  "en_list en xs = length xs # concat (map en xs)"

definition de_list :: "(nat list \<Rightarrow> 'a \<times> nat list) \<Rightarrow> nat list \<Rightarrow> 'a list \<times> nat list" where
  "de_list de r = (let (n, r) = de_nat r in de_many de n r)"

definition en_pair :: "('a \<Rightarrow> nat list) \<Rightarrow> ('b \<Rightarrow> nat list) \<Rightarrow> 'a \<times> 'b \<Rightarrow> nat list" where
  "en_pair en1 en2 x = en1 (fst x) @ en2 (snd x)"

definition de_pair :: "(nat list \<Rightarrow> 'a \<times> nat list) \<Rightarrow> (nat list \<Rightarrow> 'b \<times> nat list) \<Rightarrow> nat list \<Rightarrow> ('a \<times> 'b) \<times> nat list" where
  "de_pair de1 de2 r = (let (x, r) = de1 r; (y, r) = de2 r in ((x, y), r))"

definition de_map :: "('a \<Rightarrow> 'b) \<Rightarrow> (nat list \<Rightarrow> 'a \<times> nat list) \<Rightarrow> nat list \<Rightarrow> 'b \<times> nat list" where
  "de_map g de r = map_prod g id (de r)"

lemma coder_nat: "coder (\<lambda>n. [n]) de_nat"
  by (simp add: coder_def de_nat_def)

lemma coder_list: "coder en de \<Longrightarrow> coder (en_list en) (de_list de)"
proof -
  assume "coder en de"
  then have "de_many de (length xs) (concat (map en xs) @ r) = (xs, r)" for xs r by (induction xs) (auto simp: coder_def)
  then show ?thesis by (simp add: coder_def en_list_def de_list_def de_nat_def)
qed

lemma coder_pair: "coder en1 de1 \<Longrightarrow> coder en2 de2 \<Longrightarrow> coder (en_pair en1 en2) (de_pair de1 de2)"
  by (simp add: coder_def en_pair_def de_pair_def)

lemma coder_map: "coder en de \<Longrightarrow> (\<And>x. g (f x) = x) \<Longrightarrow> coder (en \<circ> f) (de_map g de)"
  by (simp add: coder_def de_map_def)

definition en_str :: "rstr \<Rightarrow> nat list" where "en_str = en_list (\<lambda>n. [n])"
definition de_str :: "nat list \<Rightarrow> rstr \<times> nat list" where "de_str = de_list de_nat"

definition en_entry :: "posting_entry \<Rightarrow> nat list" where
  "en_entry = en_pair en_str (en_pair (\<lambda>n. [n]) (\<lambda>n. [n])) \<circ> (\<lambda>e. (pe_doc_key e, unat (pe_term_frequency e), unat (pe_doc_length e)))"
definition de_entry :: "nat list \<Rightarrow> posting_entry \<times> nat list" where
  "de_entry = de_map (\<lambda>(k, f, l). \<lparr>pe_doc_key = k, pe_term_frequency = of_nat f, pe_doc_length = of_nat l\<rparr>)
     (de_pair de_str (de_pair de_nat de_nat))"

lemma coder_str: "coder en_str de_str"
  by (simp add: en_str_def de_str_def coder_list coder_nat)

lemma coder_entry: "coder en_entry de_entry"
  unfolding en_entry_def de_entry_def by (intro coder_map coder_pair coder_str coder_nat) simp

definition state_codec :: "('e, posting_list_state, bytes) codec" where
  "state_codec = coded (en_pair (\<lambda>n. [n]) (en_pair en_str (en_list en_str)) \<circ> (\<lambda>st. (unat (ps_contract_version st), ps_term st, ps_segments st)))
     (de_map (\<lambda>(v, t, ks). \<lparr>ps_contract_version = of_nat v, ps_term = t, ps_segments = ks\<rparr>) (de_pair de_nat (de_pair de_str (de_list de_str))))"

definition segment_codec :: "('e, posting_segment, bytes) codec" where
  "segment_codec = coded (en_pair en_str (en_pair (en_list en_entry) (en_list en_str)) \<circ> (\<lambda>g. (sg_term g, sg_added_entries g, sg_removed_doc_keys g)))
     (de_map (\<lambda>(t, as, rs). \<lparr>sg_term = t, sg_added_entries = as, sg_removed_doc_keys = rs\<rparr>) (de_pair de_str (de_pair (de_list de_entry) (de_list de_str))))"

definition list_codec :: "('e, posting_list, bytes) codec" where
  "list_codec = coded (en_pair en_str (en_list en_entry) \<circ> (\<lambda>l. (pl_term l, pl_entries l)))
     (de_map (\<lambda>(t, es). \<lparr>pl_term = t, pl_entries = es\<rparr>) (de_pair de_str (de_list de_entry)))"

definition stats_codec :: "('e, fts_stats, bytes) codec" where
  "stats_codec = coded (en_list (\<lambda>n. [n]) \<circ> (\<lambda>st. let (p, q) = quotient_of (fs_avg_dl st)
       in [fs_total_docs st, fs_total_len st, nat p, nat (- p), nat q]))
     (de_map (\<lambda>ns. \<lparr>fs_total_docs = ns ! 0, fs_total_len = ns ! 1,
        fs_avg_dl = (of_nat (ns ! 2) - of_nat (ns ! 3)) / of_nat (ns ! 4)\<rparr>) (de_list de_nat))"

definition counts_codec :: "('e, rstr \<rightharpoonup> u32, bytes) codec" where
  "counts_codec = coded (en_list (en_pair en_str (\<lambda>n. [n])) \<circ> (\<lambda>m. map (\<lambda>k. (k, case m k of Some n \<Rightarrow> unat n | None \<Rightarrow> 0)) (sorted_list_of_set (dom m))))
     (de_map (\<lambda>xs. map_of (map (\<lambda>(k, n). (k, of_nat n)) xs)) (de_list (de_pair de_str de_nat)))"

lemma sample_codecs: "codec_law False state_codec" "codec_law False segment_codec" "codec_law False stats_codec"
proof -
  show "codec_law False state_codec" "codec_law False segment_codec" unfolding state_codec_def segment_codec_def
    by (intro coded_law coder_map coder_pair coder_list coder_str coder_entry coder_nat; simp)+
  have "(rat_of_nat (nat p) - rat_of_nat (nat (- p))) / rat_of_nat (nat q) = r" if "quotient_of r = (p, q)" for r p q
    using quotient_of_denom_pos [OF that] quotient_of_div [OF that] by (cases "p \<ge> 0") auto
  then show "codec_law False stats_codec" unfolding stats_codec_def
    by (intro coded_law coder_map coder_list coder_nat) (auto simp: Let_def split: prod.splits)
qed

lemma counts_codec_finite: "finite (dom m) \<Longrightarrow> res_post False (\<lambda>b. from_slice counts_codec b = Inr m) (to_vec counts_codec m)"
proof -
  assume fin: "finite (dom m)"
  have c: "coder (en_list (en_pair en_str (\<lambda>n. [n]))) (de_list (de_pair de_str de_nat))"
    by (intro coder_list coder_pair coder_str coder_nat)
  have "map_of (map (\<lambda>k. (k, of_nat (case m k of Some n \<Rightarrow> unat n | None \<Rightarrow> 0))) ks) = m |` set ks" if "set ks \<subseteq> dom m" for ks
    using that by (induction ks) (auto simp: restrict_map_insert fun_eq_iff restrict_map_def)
  from this [of "sorted_list_of_set (dom m)"] fin
  have "map_of (map (\<lambda>(k, n). (k, of_nat n)) (map (\<lambda>k. (k, case m k of Some n \<Rightarrow> unat n | None \<Rightarrow> 0)) (sorted_list_of_set (dom m)))) = m"
    by (simp add: comp_def restrict_map_def fun_eq_iff) (metis domIff)
  moreover have "de_list (de_pair de_str de_nat) (en_list (en_pair en_str (\<lambda>n. [n])) xs) = (xs, [])" for xs
    using c [unfolded coder_def, rule_format, of xs "[]"] by simp
  ultimately show ?thesis by (simp add: counts_codec_def coded_def unwire_wire de_map_def)
qed

text \<open>A cache of a thousand entries, the last used first.\<close>
definition lru_get :: "(rstr \<times> posting_list) list \<Rightarrow> rstr \<Rightarrow> (rstr \<times> posting_list) list \<times> posting_list option" where
  "lru_get c k = (case map_of c k of Some l \<Rightarrow> ((k, l) # filter (\<lambda>x. fst x \<noteq> k) c, Some l) | None \<Rightarrow> (c, None))"
definition lru_put :: "(rstr \<times> posting_list) list \<Rightarrow> rstr \<Rightarrow> posting_list \<Rightarrow> (rstr \<times> posting_list) list" where
  "lru_put c k l = take 1000 ((k, l) # filter (\<lambda>x. fst x \<noteq> k) c)"
definition lru_pop :: "(rstr \<times> posting_list) list \<Rightarrow> rstr \<Rightarrow> (rstr \<times> posting_list) list" where
  "lru_pop c k = filter (\<lambda>x. fst x \<noteq> k) c"

definition sample_cut :: "rstr \<Rightarrow> rstr list" where
  "sample_cut s = filter (list_all ascii_alnum) (split_char 32 s)"

definition sample_fts :: "(rstr, in_memory_state, (rstr \<times> posting_list) list) fts_env" where
  "sample_fts = \<lparr>fx_storage = in_memory_storage (\<lambda>_. []), fx_unicode = ascii_tables, fx_cut = sample_cut, fx_counts = counts_codec,
     fx_stats = stats_codec, fx_state = state_codec, fx_segment = segment_codec, fx_list = list_codec, fx_error = (\<lambda>m. m),
     fx_order = sorted_list_of_set, fx_now_ms = (\<lambda>_. 0), fx_cache_get = lru_get, fx_cache_put = lru_put, fx_cache_pop = lru_pop,
     fx_round = (\<lambda>x. x), fx_ln = (\<lambda>x. x - 1), fx_config = default_bm25_config\<rparr>"

lemma map_of_drop_key: "map_of (filter (\<lambda>x. fst x \<noteq> k) c) = (map_of c)(k := None)"
  by (induction c) auto

lemma sample_tokens:
  assumes "t \<in> set (tokenize sample_fts s)"
  shows "good_term t"
proof -
  obtain u where u: "list_all ascii_alnum u" "t = trim u" "t \<noteq> []"
    using assms by (auto simp: tokenize_def sample_fts_def sample_cut_def List.map_filter_def keep_token_def Let_def split: if_splits)
  have "list_all ascii_alnum t" using u set_trim [of u] by (auto simp: list_all_iff)
  then show ?thesis using u(3) by (cases t) (auto simp: good_term_def starts_with_def POSTING_SEGMENT_PREFIX_def ascii_alnum_def)
qed

interpretation sample_fts: fts_laws sample_fts "memory_view map_of" False
proof (intro fts_laws.intro fts_laws_axioms.intro)
  show "fts_store (fx_storage sample_fts) (memory_view map_of) False"
    using memory_fts.fts_store_axioms by (simp add: sample_fts_def)
  show "res_post False (\<lambda>b. from_slice (fx_counts sample_fts) b = Inr (term_counts ts)) (to_vec (fx_counts sample_fts) (term_counts ts))" for ts
    using counts_codec_finite [of "term_counts ts"] by (simp add: sample_fts_def)
  show "vw_cached (memory_view map_of) (fx_cache_put sample_fts c k l) \<subseteq>\<^sub>m (vw_cached (memory_view map_of) c)(k \<mapsto> l)" for c k l
  proof -
    have "map_of (take 1000 xs) \<subseteq>\<^sub>m map_of xs" for xs :: "(rstr \<times> posting_list) list"
      by (metis append_take_drop_id map_of_append map_le_map_add)
    from this [of "(k, l) # filter (\<lambda>x. fst x \<noteq> k) c"] show ?thesis
      by (simp add: sample_fts_def lru_put_def memory_view_def map_of_drop_key)
  qed
  show "r = vw_cached (memory_view map_of) c k \<and> vw_cached (memory_view map_of) c' = vw_cached (memory_view map_of) c"
    if "fx_cache_get sample_fts c k = (c', r)" for c k c' r
    using that by (auto simp: sample_fts_def lru_get_def memory_view_def map_of_drop_key fun_upd_idem split: option.splits)
  show "vw_cached (memory_view map_of) (fx_cache_pop sample_fts c k) \<subseteq>\<^sub>m (vw_cached (memory_view map_of) c)(k := None)" for c k
    by (simp add: sample_fts_def lru_pop_def memory_view_def map_of_drop_key)
  show "distinct (fx_order sample_fts A) \<and> set (fx_order sample_fts A) = A" if "finite A" for A
    using that by (simp add: sample_fts_def)
  show "good_term t" if "t \<in> set (tokenize sample_fts s)" for t s using that by (rule sample_tokens)
qed (simp_all add: sample_fts_def sample_codecs)

definition sample_engine :: "(in_memory_state, (rstr \<times> posting_list) list) fts_engine" where
  "sample_engine = fts_new in_memory_new []"

lemma sample_engine_ok: "index_ok sample_fts (memory_view map_of) Map.empty sample_engine"
  unfolding sample_engine_def by (rule new_index_ok) (simp_all add: memory_view_def in_memory_new_def)

section \<open>Properties\<close>

lemma io_post_False: "io_post False Q r \<Longrightarrow> \<exists>x. snd r = Inr x \<and> Q x (fst r)"
  by (auto simp: io_post_def split: sum.splits)


text \<open>
  C8. Ranking. A search over at most 5000 documents returns distinct documents, at most
  \<open>limit\<close>, that contain a term of the query, each with its BM25 score, the best first, and
  leaves out only documents that score no better.
\<close>
theorem search_ranks_by_bm25:
  assumes "fts_laws E V F" and "index_ok E V idx w" and "card (dom idx) \<le> 5000"
  shows "io_post F (\<lambda>rs w'. good_results E idx (tokenize E query) limit rs) (fts_search E query limit w)"
  using io_post_mono [OF fts_laws.search_post [OF assms]] fts_laws.plain_search_good [OF assms(1)] assms(2)
  by (auto simp: index_ok_def)

lemma one_by_one:
  assumes "fts_laws E V F" "index_ok E V idx w" "list_all (\<lambda>doc. length (tokenize E (snd doc)) < 2 ^ 32) docs" "distinct (map fst docs)"
  shows "io_post F (\<lambda>_. index_ok E V (idx ++ new_docs E docs)) (io_each (\<lambda>doc. index_document E (fst doc) (snd doc)) docs w)"
  using assms(2-4)
proof (induction docs arbitrary: idx w)
  case (Cons doc docs)
  have "fst doc \<notin> dom (new_docs E docs)" using Cons.prems(3) by (simp add: dom_new_docs)
  then have new: "idx ++ new_docs E (doc # docs) = idx(fst doc \<mapsto> tokenize E (snd doc)) ++ new_docs E docs"
    by (cases doc) (auto simp: new_docs_def map_add_def fun_eq_iff split: option.splits)
  have len: "length (tokenize E (snd doc)) < 2 ^ 32" using Cons.prems(2) by simp
  show ?case unfolding new io_each.simps
    by (rule io_post_seq [OF fts_laws.index_document_post [OF assms(1) Cons.prems(1) len]], rule Cons.IH)
      (use Cons.prems in \<open>auto simp: fun_upd_def\<close>)
qed (simp add: new_docs_def)


text \<open>
  A document whose text has no terms is counted when it is indexed and not taken out when it
  is deleted: the statistics go on counting it.
\<close>
theorem empty_document_stays_counted:
  assumes "fts_laws E V F" and "index_ok E V idx w" and "idx d = Some []"
  shows "io_post F (\<lambda>_ w'. vw_forward V (fe_kv w') d = None \<and> stats_ok E (vw_collection V (fe_kv w')) (plain_stats idx))
     (fts_delete_document E d w)"
  using fts_laws.delete_empty_post [OF assms] .

section \<open>Witnesses\<close>

definition sample_fts_ops :: "fts_op list" where
  "sample_fts_ops = [OpIndex (lit ''d1'') (lit ''ab cd''), OpBatch [(lit ''d2'', lit ''ab''), (lit ''d1'', lit ''ef gh'')],
     OpDelete (lit ''d2''), OpSearch (lit ''Ef'') 10]"

lemma sample_tokenize:
  "tokenize sample_fts (lit ''ab'') = [lit ''ab'']" "tokenize sample_fts (lit ''ab cd'') = [lit ''ab'', lit ''cd'']"
  "tokenize sample_fts (lit ''ef gh'') = [lit ''ef'', lit ''gh'']" "tokenize sample_fts (lit ''Ef'') = [lit ''ef'']"
  by (simp_all add: tokenize_def sample_fts_def sample_cut_def ascii_tables_def to_ascii_lowercase_def ascii_alnum_def keep_token_def
      trim_def trim_start_def trim_end_def is_ws_def STOPWORDS_def utf8_len_def utf8_width_def Let_def List.map_filter_def)

definition sample_plain :: "rstr \<rightharpoonup> rstr list" where
  "sample_plain = Map.empty(lit ''d1'' \<mapsto> [lit ''ef'', lit ''gh''])"

lemma sample_indexed:
  "\<exists>w. index_ok sample_fts (memory_view map_of) sample_plain w \<and> snd (index_document sample_fts (lit ''d1'') (lit ''ef gh'') sample_engine) = Inr ()
     \<and> w = fst (index_document sample_fts (lit ''d1'') (lit ''ef gh'') sample_engine)"
  using io_post_False [OF sample_fts.index_document_post [OF sample_engine_ok, of "lit ''ef gh''" "lit ''d1''"]]
  by (simp add: sample_tokenize sample_plain_def del: lit_Cons)

lemma sample_found: "{d. \<exists>t \<in> set [lit ''ef'']. mentions sample_plain t d} = {lit ''d1''}"
  by (auto simp: mentions_iff sample_plain_def split: if_splits)

theorem search_ranks_by_bm25_witness:
  "\<exists>r. snd (fts_search sample_fts (lit ''Ef'') 10 (fst (index_document sample_fts (lit ''d1'') (lit ''ef gh'') sample_engine))) = Inr [r]
     \<and> ft_doc_key r = lit ''d1''"
proof -
  obtain w where w: "index_ok sample_fts (memory_view map_of) sample_plain w" "w = fst (index_document sample_fts (lit ''d1'') (lit ''ef gh'') sample_engine)"
    using sample_indexed by blast
  have "card (dom sample_plain) \<le> 5000" by (simp add: sample_plain_def)
  from io_post_False [OF search_ranks_by_bm25 [OF sample_fts.fts_laws_axioms w(1) this, of "lit ''Ef''" 10]]
  obtain rs where rs: "snd (fts_search sample_fts (lit ''Ef'') 10 w) = Inr rs" "good_results sample_fts sample_plain [lit ''ef''] 10 rs"
    by (auto simp: sample_tokenize simp del: lit_Cons)
  then have "length rs = 1" "\<forall>r \<in> set rs. ft_doc_key r = lit ''d1''"
    unfolding good_results_def sample_found Let_def by auto
  then obtain r where "rs = [r]" "ft_doc_key r = lit ''d1''" by (cases rs) auto
  with rs(1) w(2) show ?thesis by blast
qed

lemma sample_ops_fit: "ops_fit sample_fts sample_fts_ops Map.empty"
  by (simp add: sample_fts_ops_def sample_tokenize new_docs_def del: lit_Cons) (simp add: card_insert_if)

lemma sample_ops_run: "fst (plain_run sample_fts sample_fts_ops Map.empty) = sample_plain"
  by (simp add: sample_fts_ops_def sample_tokenize new_docs_def sample_plain_def split_beta del: lit_Cons)
    (auto simp: fun_eq_iff)



theorem empty_document_stays_counted_witness:
  "\<exists>w :: (in_memory_state, (rstr \<times> posting_list) list) fts_engine. stats_ok sample_fts (vw_collection (memory_view map_of) (fe_kv w)) \<lparr>fs_total_docs = 1, fs_total_len = 0, fs_avg_dl = average_length 0 1\<rparr>
     \<and> vw_forward (memory_view map_of) (fe_kv w) (lit ''d1'') = None"
proof -
  have t: "tokenize sample_fts [] = []" by (simp add: tokenize_def sample_fts_def sample_cut_def ascii_tables_def to_ascii_lowercase_def keep_token_def
      trim_def trim_start_def trim_end_def Let_def List.map_filter_def)
  let ?idx = "Map.empty(lit ''d1'' \<mapsto> [])" and ?w = "fst (index_document sample_fts (lit ''d1'') [] sample_engine)"
  have w: "index_ok sample_fts (memory_view map_of) ?idx ?w"
    using io_post_False [OF sample_fts.index_document_post [OF sample_engine_ok, of "[]" "lit ''d1''"]] by (simp add: t del: lit_Cons)
  have d: "?idx (lit ''d1'') = Some []" by simp
  have st: "plain_stats ?idx = \<lparr>fs_total_docs = 1, fs_total_len = 0, fs_avg_dl = average_length 0 1\<rparr>" by (simp add: plain_stats_def Let_def)
  from io_post_False [OF empty_document_stays_counted [OF sample_fts.fts_laws_axioms w d]]
  show ?thesis unfolding st by blast
qed

end
