(* ===== verification/Experience.thy ===== *)
theory Experience
  imports Redb_Store Float32
begin

text \<open>
  The crate \<^verbatim>\<open>experience-core\<close>: records about how tasks were executed (\<^verbatim>\<open>model.rs\<close>), their
  ranking for a task (\<^verbatim>\<open>matcher.rs\<close>), the store with its four index tables (\<^verbatim>\<open>store.rs\<close>) and the
  projection into a semantic index (\<^verbatim>\<open>projection.rs\<close>). Times are milliseconds as \<^verbatim>\<open>i64\<close>; the
  time an operation reads, the new identifier, the SHA-256 digest and the Unicode tables are
  arguments. Stored confidences are single precision numbers in the unit interval.
\<close>

section \<open>Numbers\<close>

definition i64_max :: int where "i64_max = 2 ^ 63 - 1"
definition i64_min :: int where "i64_min = - (2 ^ 63)"

definition sat_i64 :: "int \<Rightarrow> int" where
  "sat_i64 x = max i64_min (min i64_max x)"

text \<open>\<^verbatim>\<open>saturating_add(1)\<close> on a counter.\<close>
definition bump :: "nat \<Rightarrow> nat" where
  "bump n = min (n + 1) (2 ^ 64 - 1)"

text \<open>A constant added to a number or multiplied with it; only what \<^verbatim>\<open>clamp(0.0, 1.0)\<close> keeps of a sum is used.\<close>
fun f32_plus :: "f32 \<Rightarrow> rat \<Rightarrow> f32" where
  "f32_plus (Finite x) c = Finite (f32_round (x + c))"
| "f32_plus x c = x"

fun f32_times :: "f32 \<Rightarrow> rat \<Rightarrow> f32" where
  "f32_times (Finite x) c = Finite (f32_round (x * c))"
| "f32_times x c = x"

section \<open>The model\<close>

definition DEFAULT_EXPERIENCE_NAMESPACE :: rstr where "DEFAULT_EXPERIENCE_NAMESPACE = lit ''system_experience''"

datatype experience_scope = LocalWindows | WebScope | WorkspaceScope | ToolScope | AgentScope | OtherScope rstr

definition key_char :: "rchar \<Rightarrow> rchar" where
  "key_char ch = (if ascii_alnum ch \<or> ch = 95 \<or> ch = 45 \<or> ch = 58 then hd (to_ascii_lowercase [ch]) else 95)"

definition normalize_key :: "rstr \<Rightarrow> rstr" where
  "normalize_key value = join [95] (filter (\<lambda>part. part \<noteq> []) (split_char 95 (map key_char (trim value))))"

definition normalize_namespace :: "rstr \<Rightarrow> rstr" where
  "normalize_namespace value = (let normalized = normalize_key value
     in if normalized = [] then DEFAULT_EXPERIENCE_NAMESPACE else normalized)"

fun scope_as_key :: "experience_scope \<Rightarrow> rstr" where
  "scope_as_key LocalWindows = lit ''local_windows''"
| "scope_as_key WebScope = lit ''web''"
| "scope_as_key WorkspaceScope = lit ''workspace''"
| "scope_as_key ToolScope = lit ''tool''"
| "scope_as_key AgentScope = lit ''agent''"
| "scope_as_key (OtherScope value) = lit ''other:'' @ normalize_key value"

fun default_ttl_seconds :: "experience_scope \<Rightarrow> int option" where
  "default_ttl_seconds WebScope = Some (24 * 60 * 60)"
| "default_ttl_seconds (OtherScope _) = Some (7 * 24 * 60 * 60)"
| "default_ttl_seconds _ = Some (30 * 24 * 60 * 60)"

datatype experience_status = CandidateStatus | ActiveStatus | RetiredStatus

datatype preflight_kind = UrlReachable | DomStable | FileExists | DirectoryExists | ProcessAlive | PortOpen | GpuAvailable
  | ToolAvailable | WorkerAvailable | WorkspaceState | CustomPreflight rstr

fun preflight_as_key :: "preflight_kind \<Rightarrow> rstr" where
  "preflight_as_key UrlReachable = lit ''url_reachable''"
| "preflight_as_key DomStable = lit ''dom_stable''"
| "preflight_as_key FileExists = lit ''file_exists''"
| "preflight_as_key DirectoryExists = lit ''directory_exists''"
| "preflight_as_key ProcessAlive = lit ''process_alive''"
| "preflight_as_key PortOpen = lit ''port_open''"
| "preflight_as_key GpuAvailable = lit ''gpu_available''"
| "preflight_as_key ToolAvailable = lit ''tool_available''"
| "preflight_as_key WorkerAvailable = lit ''worker_available''"
| "preflight_as_key WorkspaceState = lit ''workspace_state''"
| "preflight_as_key (CustomPreflight value) = lit ''custom:'' @ normalize_key value"

record preflight_check =
  pf_kind :: preflight_kind
  pf_target :: rstr
  pf_description :: rstr
  pf_required :: bool

record experience_step =
  es_label :: rstr
  es_action :: rstr
  es_evidence_ref :: "rstr option"

record failure_signature =
  fg_fingerprint :: rstr
  fg_cause :: rstr
  fg_avoid :: rstr

record evidence_refs =
  er_trace_id :: "rstr option"
  er_witness_id :: "rstr option"
  er_scorecard_id :: "rstr option"
  er_task_id :: "rstr option"
  er_run_id :: "rstr option"
  er_tool_receipt_ids :: "rstr list"
  er_artifact_ids :: "rstr list"

definition default_evidence_refs :: evidence_refs where
  "default_evidence_refs = \<lparr>er_trace_id = None, er_witness_id = None, er_scorecard_id = None, er_task_id = None,
     er_run_id = None, er_tool_receipt_ids = [], er_artifact_ids = []\<rparr>"

record usage_stats =
  us_selected_count :: nat
  us_preflight_pass_count :: nat
  us_preflight_fail_count :: nat
  us_success_count :: nat
  us_failure_count :: nat
  us_last_selected_at_ms :: "int option"
  us_last_failed_at_ms :: "int option"

definition default_usage_stats :: usage_stats where
  "default_usage_stats = \<lparr>us_selected_count = 0, us_preflight_pass_count = 0, us_preflight_fail_count = 0,
     us_success_count = 0, us_failure_count = 0, us_last_selected_at_ms = None, us_last_failed_at_ms = None\<rparr>"

record task_experience =
  xp_id :: rstr
  xp_contract_version :: nat
  xp_namespace :: rstr
  xp_status :: experience_status
  xp_task_signature :: rstr
  xp_task_summary :: rstr
  xp_scope :: experience_scope
  xp_worker_role :: "rstr option"
  xp_tool_names :: "rstr list"
  xp_successful_steps :: "experience_step list"
  xp_required_preflight :: "preflight_check list"
  xp_failure_signatures :: "failure_signature list"
  xp_evidence_refs :: evidence_refs
  xp_hints :: "rstr list"
  xp_anti_patterns :: "rstr list"
  xp_confidence :: f32
  xp_usage :: usage_stats
  xp_ttl_seconds :: "int option"
  xp_created_at_ms :: int
  xp_updated_at_ms :: int
  xp_last_verified_at_ms :: "int option"
  xp_expires_at_ms :: "int option"
  xp_metadata :: "rstr \<rightharpoonup> rstr"

text \<open>\<^verbatim>\<open>saturating_add(ttl.saturating_mul(1000))\<close>\<close>
definition expiry_after :: "int \<Rightarrow> int \<Rightarrow> int" where
  "expiry_after basis ttl = sat_i64 (basis + sat_i64 (ttl * 1000))"

definition experience_new :: "rstr \<Rightarrow> int \<Rightarrow> rstr \<Rightarrow> rstr \<Rightarrow> experience_scope \<Rightarrow> task_experience" where
  "experience_new fresh_id now task_signature task_summary scope =
     (let ttl_seconds = default_ttl_seconds scope
      in \<lparr>xp_id = fresh_id, xp_contract_version = 1, xp_namespace = DEFAULT_EXPERIENCE_NAMESPACE, xp_status = CandidateStatus,
          xp_task_signature = task_signature, xp_task_summary = task_summary, xp_scope = scope, xp_worker_role = None,
          xp_tool_names = [], xp_successful_steps = [], xp_required_preflight = [], xp_failure_signatures = [],
          xp_evidence_refs = default_evidence_refs, xp_hints = [], xp_anti_patterns = [], xp_confidence = Finite (1 / 2),
          xp_usage = default_usage_stats, xp_ttl_seconds = ttl_seconds, xp_created_at_ms = now, xp_updated_at_ms = now,
          xp_last_verified_at_ms = None, xp_expires_at_ms = map_option (expiry_after now) ttl_seconds, xp_metadata = Map.empty\<rparr>)"

text \<open>Keep the first of the values that trim to the same text; drop blank ones.\<close>
fun dedup_from :: "rstr set \<Rightarrow> rstr list \<Rightarrow> rstr list" where
  "dedup_from seen [] = []"
| "dedup_from seen (value # vs) =
     (let normalized = trim value
      in if normalized = [] \<or> normalized \<in> seen then dedup_from seen vs
         else value # dedup_from (insert normalized seen) vs)"

definition dedup_strings :: "rstr list \<Rightarrow> rstr list" where
  "dedup_strings values = dedup_from {} values"

definition normalize_before_store :: "int \<Rightarrow> task_experience \<Rightarrow> task_experience" where
  "normalize_before_store now_ms x =
     (let ttl = (case xp_ttl_seconds x of None \<Rightarrow> default_ttl_seconds (xp_scope x) | Some t \<Rightarrow> Some t);
          basis = (case xp_last_verified_at_ms x of Some t \<Rightarrow> t | None \<Rightarrow> now_ms)
      in x\<lparr>xp_namespace := normalize_namespace (xp_namespace x),
           xp_confidence := f32_clamp (xp_confidence x) 0 1,
           xp_updated_at_ms := now_ms,
           xp_created_at_ms := (if xp_created_at_ms x \<le> 0 then now_ms else xp_created_at_ms x),
           xp_ttl_seconds := ttl,
           xp_expires_at_ms := (case xp_expires_at_ms x of None \<Rightarrow> map_option (expiry_after basis) ttl | Some t \<Rightarrow> Some t),
           xp_tool_names := dedup_strings (xp_tool_names x),
           xp_hints := dedup_strings (xp_hints x),
           xp_anti_patterns := dedup_strings (xp_anti_patterns x)\<rparr>)"

definition is_expired_at :: "task_experience \<Rightarrow> int \<Rightarrow> bool" where
  "is_expired_at x now_ms \<longleftrightarrow> (case xp_expires_at_ms x of Some deadline \<Rightarrow> deadline \<le> now_ms | None \<Rightarrow> False)"

definition is_reusable_at :: "task_experience \<Rightarrow> int \<Rightarrow> bool" where
  "is_reusable_at x now_ms \<longleftrightarrow> xp_status x \<in> {CandidateStatus, ActiveStatus} \<and> \<not> is_expired_at x now_ms
     \<and> f32_gt (xp_confidence x) 0"

definition mark_selected :: "int \<Rightarrow> task_experience \<Rightarrow> task_experience" where
  "mark_selected now_ms x = x\<lparr>xp_usage := (xp_usage x)\<lparr>us_selected_count := bump (us_selected_count (xp_usage x)),
     us_last_selected_at_ms := Some now_ms\<rparr>, xp_updated_at_ms := now_ms\<rparr>"

definition refresh_expiry :: "int \<Rightarrow> task_experience \<Rightarrow> task_experience" where
  "refresh_expiry now_ms x = x\<lparr>xp_expires_at_ms := map_option (expiry_after now_ms) (xp_ttl_seconds x)\<rparr>"

text \<open>\<^verbatim>\<open>(confidence + c).clamp(0.0, 1.0)\<close>\<close>
definition shift_confidence :: "rat \<Rightarrow> task_experience \<Rightarrow> task_experience" where
  "shift_confidence c x = x\<lparr>xp_confidence := f32_clamp (f32_plus (xp_confidence x) c) 0 1\<rparr>"

definition record_preflight_result :: "bool \<Rightarrow> int \<Rightarrow> task_experience \<Rightarrow> task_experience" where
  "record_preflight_result passed now_ms x =
     (let u = xp_usage x;
          x = (if passed
               then shift_confidence (f32_round (3 / 100)) (refresh_expiry now_ms
                      (x\<lparr>xp_usage := u\<lparr>us_preflight_pass_count := bump (us_preflight_pass_count u)\<rparr>,
                         xp_last_verified_at_ms := Some now_ms\<rparr>))
               else shift_confidence (- f32_round (12 / 100))
                      (x\<lparr>xp_usage := u\<lparr>us_preflight_fail_count := bump (us_preflight_fail_count u),
                         us_last_failed_at_ms := Some now_ms\<rparr>\<rparr>))
      in x\<lparr>xp_updated_at_ms := now_ms\<rparr>)"

definition record_task_result :: "bool \<Rightarrow> int \<Rightarrow> task_experience \<Rightarrow> task_experience" where
  "record_task_result succeeded now_ms x =
     (let u = xp_usage x;
          x = (if succeeded
               then shift_confidence (f32_round (8 / 100)) (refresh_expiry now_ms
                      (x\<lparr>xp_usage := u\<lparr>us_success_count := bump (us_success_count u)\<rparr>, xp_status := ActiveStatus,
                         xp_last_verified_at_ms := Some now_ms\<rparr>))
               else let x = shift_confidence (- f32_round (18 / 100))
                      (x\<lparr>xp_usage := u\<lparr>us_failure_count := bump (us_failure_count u), us_last_failed_at_ms := Some now_ms\<rparr>\<rparr>)
                    in if f32_le (xp_confidence x) (f32_round (5 / 100)) then x\<lparr>xp_status := RetiredStatus\<rparr> else x)
      in x\<lparr>xp_updated_at_ms := now_ms\<rparr>)"

section \<open>Ranking\<close>

record experience_query =
  eq_task :: rstr
  eq_scope :: "experience_scope option"
  eq_worker_role :: "rstr option"
  eq_tool_name :: "rstr option"
  eq_limit :: nat
  eq_include_expired :: bool
  eq_min_confidence :: f32
  eq_now_ms :: int

definition experience_query_new :: "int \<Rightarrow> rstr \<Rightarrow> experience_query" where
  "experience_query_new now task = \<lparr>eq_task = task, eq_scope = None, eq_worker_role = None, eq_tool_name = None, eq_limit = 5,
     eq_include_expired = False, eq_min_confidence = Finite 0, eq_now_ms = now\<rparr>"

record experience_match =
  em_experience :: task_experience
  em_score :: f32
  em_reasons :: "rstr list"

text \<open>\<^verbatim>\<open>a < b\<close>\<close>
fun f32_less :: "f32 \<Rightarrow> f32 \<Rightarrow> bool" where
  "f32_less x (Finite c) = (case x of Finite y \<Rightarrow> y < c | NegInf \<Rightarrow> True | _ \<Rightarrow> False)"
| "f32_less x PosInf = (x \<noteq> NaN \<and> x \<noteq> PosInf)"
| "f32_less x _ = False"

text \<open>\<^verbatim>\<open>{:.2}\<close> of a number that is not negative.\<close>
definition show_two_decimals :: "rat \<Rightarrow> rstr" where
  "show_two_decimals r = (let n = nat (rnd_even (100 * r))
     in show_nat (n div 100) @ lit ''.'' @ show_nat (n mod 100 div 10) @ show_nat (n mod 10))"

definition exp_is_cjk :: "rchar \<Rightarrow> bool" where
  "exp_is_cjk c \<longleftrightarrow> 0x4E00 \<le> c \<and> c \<le> 0x9FFF \<or> 0x3400 \<le> c \<and> c \<le> 0x4DBF \<or> 0x20000 \<le> c \<and> c \<le> 0x2A6DF
     \<or> 0x2A700 \<le> c \<and> c \<le> 0x2B73F \<or> 0x2B740 \<le> c \<and> c \<le> 0x2B81F \<or> 0x2B820 \<le> c \<and> c \<le> 0x2CEAF"

text \<open>The set of terms, without repetitions.\<close>
definition fragments :: "unicode \<Rightarrow> rstr \<Rightarrow> rstr list" where
  "fragments U text =
     (let lowered = u_lower U text;
          terms = filter (\<lambda>t. length t \<ge> 2) (map trim (split_by (\<lambda>c. \<not> u_alnum U c) [] lowered));
          cjk_chars = filter exp_is_cjk lowered
      in remdups (terms @ map (\<lambda>(a, b). [a, b]) (zip cjk_chars (tl cjk_chars))))"

definition text_overlap_score :: "unicode \<Rightarrow> rstr \<Rightarrow> rstr \<Rightarrow> rat" where
  "text_overlap_score U query candidate =
     (let query_terms = fragments U query; candidate_terms = fragments U candidate
      in if query_terms = [] \<or> candidate_terms = [] then 0
         else let hits = length (filter (\<lambda>t. t \<in> set candidate_terms \<or> contains (u_lower U candidate) t) query_terms)
           in min 1 (f32_round (f32_round (of_nat hits) / f32_round (of_nat (length query_terms)))))"

definition experience_search_text :: "task_experience \<Rightarrow> rstr" where
  "experience_search_text x = join (lit '' '')
     ([xp_task_signature x, xp_task_summary x, scope_as_key (xp_scope x)]
      @ (case xp_worker_role x of Some worker \<Rightarrow> [worker] | None \<Rightarrow> [])
      @ xp_tool_names x @ xp_hints x @ xp_anti_patterns x
      @ concat (map (\<lambda>s. [es_label s, es_action s]) (xp_successful_steps x)))"

definition eq_ignore_ascii_case :: "rstr \<Rightarrow> rstr \<Rightarrow> bool" where
  "eq_ignore_ascii_case a b \<longleftrightarrow> to_ascii_lowercase a = to_ascii_lowercase b"

definition freshness_of :: "int \<Rightarrow> int \<Rightarrow> rat" where
  "freshness_of now_ms last_verified_at_ms =
     (let age_ms = f32_round (of_int (max 0 (sat_i64 (now_ms - last_verified_at_ms)))); age_days = f32_round (age_ms / 86400000)
      in min 1 (f32_round (1 / f32_round (1 + f32_round (age_days / 14)))))"

text \<open>A constant of the source as a single precision number.\<close>
definition cst :: "nat \<Rightarrow> rat" where
  "cst hundredths = f32_round (of_nat hundredths / 100)"

text \<open>The five steps that raise the score, and the two that lower it.\<close>
definition score_overlap :: "unicode \<Rightarrow> task_experience \<Rightarrow> experience_query \<Rightarrow> f32 \<times> rstr list \<Rightarrow> f32 \<times> rstr list" where
  "score_overlap U x q s = (let overlap = text_overlap_score U (eq_task q) (experience_search_text x)
     in if overlap > 0 then (f32_plus (fst s) (f32_round (overlap * cst 30)), snd s @ [lit ''task_overlap:'' @ show_two_decimals overlap]) else s)"

definition score_scope :: "task_experience \<Rightarrow> experience_query \<Rightarrow> f32 \<times> rstr list \<Rightarrow> (f32 \<times> rstr list) option" where
  "score_scope x q s = (case eq_scope q of None \<Rightarrow> Some s
     | Some scope \<Rightarrow> if scope = xp_scope x then Some (f32_plus (fst s) (cst 10), snd s @ [lit ''scope_match''])
         else if \<not> eq_include_expired q then None else Some s)"

definition score_worker :: "task_experience \<Rightarrow> experience_query \<Rightarrow> f32 \<times> rstr list \<Rightarrow> f32 \<times> rstr list" where
  "score_worker x q s = (case (eq_worker_role q, xp_worker_role x) of
       (Some worker, Some role) \<Rightarrow> if eq_ignore_ascii_case role worker then (f32_plus (fst s) (cst 8), snd s @ [lit ''worker_match'']) else s
     | _ \<Rightarrow> s)"

definition score_tool :: "task_experience \<Rightarrow> experience_query \<Rightarrow> f32 \<times> rstr list \<Rightarrow> f32 \<times> rstr list" where
  "score_tool x q s = (case eq_tool_name q of
       Some tool_name \<Rightarrow> if list_ex (\<lambda>tool. eq_ignore_ascii_case tool tool_name) (xp_tool_names x)
         then (f32_plus (fst s) (cst 8), snd s @ [lit ''tool_match'']) else s
     | None \<Rightarrow> s)"

definition score_freshness :: "task_experience \<Rightarrow> experience_query \<Rightarrow> f32 \<times> rstr list \<Rightarrow> f32 \<times> rstr list" where
  "score_freshness x q s = (case xp_last_verified_at_ms x of None \<Rightarrow> s
     | Some t \<Rightarrow> let freshness = freshness_of (eq_now_ms q) t
         in (f32_plus (fst s) (f32_round (freshness * cst 6)), snd s @ [lit ''freshness:'' @ show_two_decimals freshness]))"

definition score_penalties :: "task_experience \<Rightarrow> f32 \<times> rstr list \<Rightarrow> f32 \<times> rstr list" where
  "score_penalties x s =
     (let u = xp_usage x;
          s = (if us_preflight_fail_count u > us_preflight_pass_count u
               then (f32_times (fst s) (cst 80), snd s @ [lit ''preflight_failure_penalty'']) else s)
      in if us_failure_count u > us_success_count u
         then (f32_times (fst s) (3 / 4), snd s @ [lit ''task_failure_penalty'']) else s)"

definition score_experience :: "unicode \<Rightarrow> experience_query \<Rightarrow> task_experience \<Rightarrow> experience_match option" where
  "score_experience U q x =
     (if \<not> eq_include_expired q \<and> \<not> is_reusable_at x (eq_now_ms q) then None
      else if f32_less (xp_confidence x) (eq_min_confidence q) then None
      else let s = score_overlap U x q (f32_times (f32_clamp (xp_confidence x) 0 1) (cst 55), [])
        in case score_scope x q s of None \<Rightarrow> None
           | Some s \<Rightarrow> let s = score_penalties x (score_freshness x q (score_tool x q (score_worker x q s)))
             in if f32_le (fst s) 0 then None
                else Some \<lparr>em_experience = x, em_score = f32_clamp (fst s) 0 1, em_reasons = snd s\<rparr>)"

text \<open>By score, then by the time of the last update; incomparable scores count as equal.\<close>
definition le_match :: "experience_match \<Rightarrow> experience_match \<Rightarrow> bool" where
  "le_match a b =
     (let later = xp_updated_at_ms (em_experience b) \<le> xp_updated_at_ms (em_experience a)
      in case (em_score a, em_score b) of (Finite x, Finite y) \<Rightarrow> y < x \<or> y = x \<and> later | _ \<Rightarrow> later)"

definition rank_experiences :: "unicode \<Rightarrow> task_experience list \<Rightarrow> experience_query \<Rightarrow> experience_match list" where
  "rank_experiences U experiences q =
     take (max 1 (eq_limit q)) (sort_by le_match (List.map_filter (score_experience U q) experiences))"

section \<open>The semantic index\<close>

definition EXPERIENCE_INDEX_NAMESPACE :: rstr where "EXPERIENCE_INDEX_NAMESPACE = lit ''system_experience''"

record experience_projection =
  ep_namespace :: rstr
  ep_experience_id :: rstr
  ep_scope :: experience_scope
  ep_title :: rstr
  ep_text :: rstr
  ep_confidence :: f32
  ep_updated_at_ms :: int
  ep_expires_at_ms :: "int option"

definition projection_of :: "task_experience \<Rightarrow> experience_projection" where
  "projection_of x =
     (let parts = [xp_task_signature x, xp_task_summary x] @ xp_hints x @ map (\<lambda>v. lit ''Avoid: '' @ v) (xp_anti_patterns x)
           @ map (\<lambda>s. es_label s @ lit '': '' @ es_action s) (xp_successful_steps x)
      in \<lparr>ep_namespace = xp_namespace x, ep_experience_id = xp_id x, ep_scope = xp_scope x, ep_title = xp_task_summary x,
          ep_text = join [10] (filter (\<lambda>part. trim part \<noteq> []) parts), ep_confidence = xp_confidence x,
          ep_updated_at_ms = xp_updated_at_ms x, ep_expires_at_ms = xp_expires_at_ms x\<rparr>)"

definition engram_collection :: "experience_projection \<Rightarrow> rstr" where
  "engram_collection p = EXPERIENCE_INDEX_NAMESPACE"

definition engram_path :: "experience_projection \<Rightarrow> rstr" where
  "engram_path p = scope_as_key (ep_scope p) @ lit ''/'' @ ep_experience_id p"

definition is_experience_namespace :: "rstr \<Rightarrow> bool" where
  "is_experience_namespace namespace \<longleftrightarrow> trim namespace = EXPERIENCE_INDEX_NAMESPACE \<or> trim namespace = DEFAULT_EXPERIENCE_NAMESPACE"

section \<open>The store\<close>

record ('e, 'db) experience_db =
  xd_bytes :: "('e, 'db, bytes) redb_range"
  xd_strs :: "('e, 'db, rstr) redb_range"
  xd_codec :: "('e, task_experience, bytes) codec"
  xd_unicode :: unicode
  xd_sha256 :: "rstr \<Rightarrow> bytes"

definition XP_EXPERIENCES_TABLE :: rstr where "XP_EXPERIENCES_TABLE = lit ''experiences''"
definition INDEX_SCOPE_TASK_TABLE :: rstr where "INDEX_SCOPE_TASK_TABLE = lit ''experience_by_scope_task''"
definition INDEX_WORKER_TABLE :: rstr where "INDEX_WORKER_TABLE = lit ''experience_by_worker''"
definition INDEX_TOOL_TABLE :: rstr where "INDEX_TOOL_TABLE = lit ''experience_by_tool''"
definition INDEX_STATUS_TABLE :: rstr where "INDEX_STATUS_TABLE = lit ''experience_by_status''"
definition XP_METADATA_TABLE :: rstr where "XP_METADATA_TABLE = lit ''metadata''"
definition STORE_VERSION_KEY :: rstr where "STORE_VERSION_KEY = lit ''store_version''"
definition STORE_VERSION_VALUE :: rstr where "STORE_VERSION_VALUE = lit ''1''"
definition SEP :: rstr where "SEP = [0x1f]"

record experience_store_stats =
  xt_total_experiences :: u64
  xt_index_scope_task_entries :: u64
  xt_index_worker_entries :: u64
  xt_index_tool_entries :: u64
  xt_index_status_entries :: u64

text \<open>\<^verbatim>\<open>{byte:02x}\<close>\<close>
definition hex_digit :: "nat \<Rightarrow> rchar" where
  "hex_digit n = (if n < 10 then 48 + n else 87 + n)"

definition hex_byte :: "8 word \<Rightarrow> rstr" where
  "hex_byte b = [hex_digit (unat b div 16), hex_digit (unat b mod 16)]"

definition task_hash :: "('e, 'db) experience_db \<Rightarrow> rstr \<Rightarrow> rstr" where
  "task_hash X task = concat (map hex_byte (take 8 (xd_sha256 X (u_lower (xd_unicode X) (trim task)))))"

fun status_key :: "experience_status \<Rightarrow> rstr" where
  "status_key CandidateStatus = lit ''candidate''"
| "status_key ActiveStatus = lit ''active''"
| "status_key RetiredStatus = lit ''retired''"

definition index_key :: "rstr \<Rightarrow> rstr \<Rightarrow> rstr \<Rightarrow> rstr" where
  "index_key namespace value xid = join SEP [normalize_namespace namespace, normalize_key value, xid]"

definition scoped_task_key :: "('e, 'db) experience_db \<Rightarrow> task_experience \<Rightarrow> rstr" where
  "scoped_task_key X x = join SEP [normalize_namespace (xp_namespace x), scope_as_key (xp_scope x), task_hash X (xp_task_signature x), xp_id x]"

text \<open>The keys of a record in an index table, in the order they are written.\<close>
definition worker_keys :: "task_experience \<Rightarrow> rstr list" where
  "worker_keys x = (case xp_worker_role x of None \<Rightarrow> []
     | Some worker_role \<Rightarrow> [index_key (xp_namespace x) (normalize_key worker_role) (xp_id x)])"

definition tool_keys :: "task_experience \<Rightarrow> rstr list" where
  "tool_keys x = map (\<lambda>tool. index_key (xp_namespace x) (normalize_key tool) (xp_id x)) (xp_tool_names x)"

definition status_keys :: "task_experience \<Rightarrow> rstr list" where
  "status_keys x = [index_key (xp_namespace x) (status_key (xp_status x)) (xp_id x)]"

fun insert_keys :: "('e, 'db) experience_db \<Rightarrow> rstr \<Rightarrow> rstr \<Rightarrow> rstr list \<Rightarrow> 'db \<Rightarrow> 'e + 'db" where
  "insert_keys X t xid [] d = Inr d"
| "insert_keys X t xid (k # ks) d = res_bind (db_insert (xd_strs X) d t k xid) (insert_keys X t xid ks)"

fun remove_keys :: "('e, 'db) experience_db \<Rightarrow> rstr \<Rightarrow> rstr list \<Rightarrow> 'db \<Rightarrow> 'e + 'db" where
  "remove_keys X t [] d = Inr d"
| "remove_keys X t (k # ks) d = res_bind (db_remove (xd_strs X) d t k) (\<lambda>(d, _). remove_keys X t ks d)"

definition insert_indexes :: "('e, 'db) experience_db \<Rightarrow> task_experience \<Rightarrow> 'db \<Rightarrow> 'e + 'db" where
  "insert_indexes X x d =
     res_bind (insert_keys X INDEX_SCOPE_TASK_TABLE (xp_id x) [scoped_task_key X x] d) (\<lambda>d.
     res_bind (insert_keys X INDEX_WORKER_TABLE (xp_id x) (worker_keys x) d) (\<lambda>d.
     res_bind (insert_keys X INDEX_TOOL_TABLE (xp_id x) (tool_keys x) d) (\<lambda>d.
     insert_keys X INDEX_STATUS_TABLE (xp_id x) (status_keys x) d)))"

definition remove_indexes :: "('e, 'db) experience_db \<Rightarrow> task_experience \<Rightarrow> 'db \<Rightarrow> 'e + 'db" where
  "remove_indexes X x d =
     res_bind (remove_keys X INDEX_SCOPE_TASK_TABLE [scoped_task_key X x] d) (\<lambda>d.
     res_bind (remove_keys X INDEX_WORKER_TABLE (worker_keys x) d) (\<lambda>d.
     res_bind (remove_keys X INDEX_TOOL_TABLE (tool_keys x) d) (\<lambda>d.
     remove_keys X INDEX_STATUS_TABLE (status_keys x) d)))"

text \<open>A new database file: the tables are empty and the version is written.\<close>
definition experience_open :: "('e, 'db) experience_db \<Rightarrow> 'db \<Rightarrow> 'e + 'db" where
  "experience_open X d = db_insert (xd_strs X) d XP_METADATA_TABLE STORE_VERSION_KEY STORE_VERSION_VALUE"

definition experience_get :: "('e, 'db) experience_db \<Rightarrow> 'db \<Rightarrow> rstr \<Rightarrow> 'e + task_experience option" where
  "experience_get X d xid = res_bind (db_get (xd_bytes X) d XP_EXPERIENCES_TABLE xid) (\<lambda>found. case found of
       None \<Rightarrow> Inr None
     | Some bytes \<Rightarrow> res_bind (from_slice (xd_codec X) bytes) (\<lambda>x. Inr (Some x)))"

text \<open>One write transaction: it is committed at the end or not at all.\<close>
definition experience_upsert :: "('e, 'db) experience_db \<Rightarrow> int \<Rightarrow> task_experience \<Rightarrow> 'db \<Rightarrow> 'e + 'db \<times> task_experience" where
  "experience_upsert X now experience d =
     (let x = normalize_before_store now experience
      in res_bind (experience_get X d (xp_id x)) (\<lambda>existing.
         res_bind (case existing of Some old \<Rightarrow> remove_indexes X old d | None \<Rightarrow> Inr d) (\<lambda>d.
         res_bind (to_vec (xd_codec X) x) (\<lambda>data.
         res_bind (db_insert (xd_bytes X) d XP_EXPERIENCES_TABLE (xp_id x) data) (\<lambda>d.
         res_bind (insert_indexes X x d) (\<lambda>d. Inr (d, x)))))))"

definition experience_delete :: "('e, 'db) experience_db \<Rightarrow> rstr \<Rightarrow> 'db \<Rightarrow> 'e + 'db \<times> bool" where
  "experience_delete X xid d = res_bind (experience_get X d xid) (\<lambda>existing. case existing of
       None \<Rightarrow> Inr (d, False)
     | Some old \<Rightarrow> res_bind (remove_indexes X old d) (\<lambda>d.
         res_bind (db_remove (xd_bytes X) d XP_EXPERIENCES_TABLE xid) (\<lambda>(d, _). Inr (d, True))))"

definition experience_list :: "('e, 'db) experience_db \<Rightarrow> 'db \<Rightarrow> 'e + task_experience list" where
  "experience_list X d = res_bind (db_iter (xd_bytes X) d XP_EXPERIENCES_TABLE) (res_map (\<lambda>kv. from_slice (xd_codec X) (snd kv)))"

definition experience_rank :: "('e, 'db) experience_db \<Rightarrow> 'db \<Rightarrow> experience_query \<Rightarrow> 'e + experience_match list" where
  "experience_rank X d q = res_bind (experience_list X d) (\<lambda>xs. Inr (rank_experiences (xd_unicode X) xs q))"

text \<open>Read and write are two transactions.\<close>
definition experience_update :: "('e, 'db) experience_db \<Rightarrow> int \<Rightarrow> int \<Rightarrow> rstr \<Rightarrow> (int \<Rightarrow> task_experience \<Rightarrow> task_experience) \<Rightarrow> 'db \<Rightarrow>
  'e + 'db \<times> task_experience option" where
  "experience_update X now1 now2 xid mutate d = res_bind (experience_get X d xid) (\<lambda>found. case found of
       None \<Rightarrow> Inr (d, None)
     | Some x \<Rightarrow> res_bind (experience_upsert X now2 (mutate now1 x) d) (\<lambda>(d, x). Inr (d, Some x)))"

text \<open>Deletions are committed one by one.\<close>
fun delete_all :: "('e, 'db) experience_db \<Rightarrow> rstr list \<Rightarrow> nat \<Rightarrow> 'db \<Rightarrow> 'db \<times> ('e + nat)" where
  "delete_all X [] removed d = (d, Inr removed)"
| "delete_all X (xid # ids) removed d = (case experience_delete X xid d of
       Inl e \<Rightarrow> (d, Inl e)
     | Inr (d, deleted) \<Rightarrow> delete_all X ids (if deleted then bump removed else removed) d)"

definition prune_expired :: "('e, 'db) experience_db \<Rightarrow> int \<Rightarrow> 'db \<Rightarrow> 'db \<times> ('e + nat)" where
  "prune_expired X now_ms d = (case experience_list X d of
       Inl e \<Rightarrow> (d, Inl e)
     | Inr xs \<Rightarrow> delete_all X (map xp_id (filter (\<lambda>x. is_expired_at x now_ms) xs)) 0 d)"

definition experience_stats :: "('e, 'db) experience_db \<Rightarrow> 'db \<Rightarrow> 'e + experience_store_stats" where
  "experience_stats X d =
     res_bind (db_len (xd_bytes X) d XP_EXPERIENCES_TABLE) (\<lambda>total.
     res_bind (db_len (xd_strs X) d INDEX_SCOPE_TASK_TABLE) (\<lambda>scopes.
     res_bind (db_len (xd_strs X) d INDEX_WORKER_TABLE) (\<lambda>workers.
     res_bind (db_len (xd_strs X) d INDEX_TOOL_TABLE) (\<lambda>tools.
     res_bind (db_len (xd_strs X) d INDEX_STATUS_TABLE) (\<lambda>statuses.
     Inr \<lparr>xt_total_experiences = total, xt_index_scope_task_entries = scopes, xt_index_worker_entries = workers,
          xt_index_tool_entries = tools, xt_index_status_entries = statuses\<rparr>)))))"

end
