(* ===== verification/Experience_Index.thy ===== *)
theory Experience_Index
  imports Experience
begin

text \<open>
  The store of experiences keeps its four index tables exact: after any sequence of
  operations, failed ones included, an index table has exactly the keys of the stored records,
  because an identifier ends every key and no other part of a key has the separator. Records
  that keep failing retire, and the ranking is sorted and within its limit.
\<close>

section \<open>Keys\<close>

lemma set_join: "set (join sep xs) \<subseteq> set sep \<union> \<Union> (set ` set xs)"
  by (induction sep xs rule: join.induct) auto

lemma set_split_char: "x \<in> set (split_char c s) \<Longrightarrow> set x \<subseteq> set s"
  by (induction c s arbitrary: x rule: split_char.induct) (auto split: if_splits list.splits, blast+)

lemma key_char_sep: "key_char ch \<noteq> 31"
  by (auto simp: key_char_def ascii_alnum_def to_ascii_lowercase_def)

lemma normalize_key_sep: "31 \<notin> set (normalize_key v)"
proof
  assume "31 \<in> set (normalize_key v)"
  then obtain part where "31 \<in> set part" "part \<in> set (split_char 95 (map key_char (trim v)))"
    using set_join [of "[95]" "filter (\<lambda>part. part \<noteq> []) (split_char 95 (map key_char (trim v)))"]
    by (auto simp: normalize_key_def)
  then have "31 \<in> key_char ` set (trim v)" using set_split_char by fastforce
  then show False using key_char_sep by (metis imageE)
qed

lemma namespace_sep: "31 \<notin> set (normalize_namespace v)"
  using normalize_key_sep by (simp add: normalize_namespace_def DEFAULT_EXPERIENCE_NAMESPACE_def Let_def)

lemma scope_sep: "31 \<notin> set (scope_as_key s)"
  using normalize_key_sep by (cases s) simp_all

lemma hash_sep: "31 \<notin> set (task_hash X t)"
  by (auto simp: task_hash_def hex_byte_def hex_digit_def)

lemma split_sep:
  assumes "c \<notin> set a" "c \<notin> set a'" "a @ c # r = a' @ c # r'"
  shows "r = r'"
  using assms by (auto simp: append_eq_append_conv2 Cons_eq_append_conv append_eq_Cons_conv)

lemma index_key_id:
  assumes "index_key n v i = index_key n' v' i'"
  shows "i = i'"
proof -
  have "normalize_namespace n @ 31 # normalize_key v @ 31 # i = normalize_namespace n' @ 31 # normalize_key v' @ 31 # i'"
    using assms by (simp add: index_key_def SEP_def)
  from split_sep [OF namespace_sep namespace_sep this] show ?thesis
    using split_sep [OF normalize_key_sep normalize_key_sep] by blast
qed

lemma scoped_task_key_id:
  assumes "scoped_task_key X x = scoped_task_key X y"
  shows "xp_id x = xp_id y"
proof -
  have "normalize_namespace (xp_namespace x) @ 31 # scope_as_key (xp_scope x) @ 31 # task_hash X (xp_task_signature x) @ 31 # xp_id x
      = normalize_namespace (xp_namespace y) @ 31 # scope_as_key (xp_scope y) @ 31 # task_hash X (xp_task_signature y) @ 31 # xp_id y"
    using assms by (simp add: scoped_task_key_def SEP_def)
  from split_sep [OF namespace_sep namespace_sep this] show ?thesis
    using split_sep [OF scope_sep scope_sep] split_sep [OF hash_sep hash_sep] by blast
qed

definition INDEX_TABLES :: "rstr set" where
  "INDEX_TABLES = {INDEX_SCOPE_TASK_TABLE, INDEX_WORKER_TABLE, INDEX_TOOL_TABLE, INDEX_STATUS_TABLE}"

definition index_keys :: "('e, 'db) experience_db \<Rightarrow> rstr \<Rightarrow> task_experience \<Rightarrow> rstr list" where
  "index_keys X t x = (if t = INDEX_SCOPE_TASK_TABLE then [scoped_task_key X x] else if t = INDEX_WORKER_TABLE then worker_keys x
     else if t = INDEX_TOOL_TABLE then tool_keys x else status_keys x)"

lemma index_keys_id: "k \<in> set (index_keys X t x) \<Longrightarrow> k \<in> set (index_keys X t y) \<Longrightarrow> xp_id x = xp_id y"
  by (auto simp: index_keys_def worker_keys_def tool_keys_def status_keys_def dest: index_key_id scoped_task_key_id
      split: if_splits option.splits)

lemma index_names:
  "INDEX_SCOPE_TASK_TABLE \<noteq> INDEX_WORKER_TABLE" "INDEX_SCOPE_TASK_TABLE \<noteq> INDEX_TOOL_TABLE" "INDEX_SCOPE_TASK_TABLE \<noteq> INDEX_STATUS_TABLE"
  "INDEX_WORKER_TABLE \<noteq> INDEX_TOOL_TABLE" "INDEX_WORKER_TABLE \<noteq> INDEX_STATUS_TABLE" "INDEX_TOOL_TABLE \<noteq> INDEX_STATUS_TABLE"
  by (simp_all add: INDEX_SCOPE_TASK_TABLE_def INDEX_WORKER_TABLE_def INDEX_TOOL_TABLE_def INDEX_STATUS_TABLE_def)

lemmas index_neq [simp] = index_names index_names [symmetric]

section \<open>The index of a map of records\<close>

definition exact_index :: "(task_experience \<Rightarrow> rstr list) \<Rightarrow> (rstr \<rightharpoonup> task_experience) \<Rightarrow> (rstr \<rightharpoonup> rstr) \<Rightarrow> bool" where
  "exact_index K v tbl \<longleftrightarrow> (\<forall>k i. tbl k = Some i \<longleftrightarrow> (\<exists>x. v i = Some x \<and> k \<in> set (K x)))"

definition own_ids :: "(rstr \<rightharpoonup> task_experience) \<Rightarrow> bool" where
  "own_ids v \<longleftrightarrow> (\<forall>i x. v i = Some x \<longrightarrow> xp_id x = i)"

definition drop_keys :: "rstr list \<Rightarrow> (rstr \<rightharpoonup> rstr) \<Rightarrow> rstr \<rightharpoonup> rstr" where
  "drop_keys ks tbl = (\<lambda>k. if k \<in> set ks then None else tbl k)"

definition add_keys :: "rstr list \<Rightarrow> rstr \<Rightarrow> (rstr \<rightharpoonup> rstr) \<Rightarrow> rstr \<rightharpoonup> rstr" where
  "add_keys ks i tbl = (\<lambda>k. if k \<in> set ks then Some i else tbl k)"

definition keys_name_record :: "(task_experience \<Rightarrow> rstr list) \<Rightarrow> bool" where
  "keys_name_record K \<longleftrightarrow> (\<forall>x y k. k \<in> set (K x) \<and> k \<in> set (K y) \<longrightarrow> xp_id x = xp_id y)"

lemma exact_drop:
  assumes "exact_index K v tbl" "own_ids v" "keys_name_record K" "v i = Some old"
  shows "exact_index K (v(i := None)) (drop_keys (K old) tbl)"
proof -
  have "drop_keys (K old) tbl k = Some j \<longleftrightarrow> (\<exists>x. (v(i := None)) j = Some x \<and> k \<in> set (K x))" for k j
  proof -
    have old: "k \<in> set (K old) \<Longrightarrow> v j = Some x \<Longrightarrow> k \<in> set (K x) \<Longrightarrow> j = i" for x
      using assms(2-4) unfolding own_ids_def keys_name_record_def by metis
    have "tbl k = Some j \<longleftrightarrow> (\<exists>x. v j = Some x \<and> k \<in> set (K x))" using assms(1) by (simp add: exact_index_def)
    then show ?thesis using old assms(4) by (auto simp: drop_keys_def)
  qed
  then show ?thesis by (simp add: exact_index_def)
qed

lemma exact_add:
  assumes "exact_index K v tbl" "own_ids v" "keys_name_record K" "v i = None" "xp_id x = i"
  shows "exact_index K (v(i \<mapsto> x)) (add_keys (K x) i tbl)"
proof -
  have "add_keys (K x) i tbl k = Some j \<longleftrightarrow> (\<exists>y. (v(i \<mapsto> x)) j = Some y \<and> k \<in> set (K y))" for k j
  proof -
    have new: "k \<in> set (K x) \<Longrightarrow> v j = Some y \<Longrightarrow> k \<in> set (K y) \<Longrightarrow> j = i" for y
      using assms(2,3,5) unfolding own_ids_def keys_name_record_def by metis
    have "tbl k = Some j \<longleftrightarrow> (\<exists>x. v j = Some x \<and> k \<in> set (K x))" using assms(1) by (simp add: exact_index_def)
    then show ?thesis using new assms(4) by (auto simp: add_keys_def)
  qed
  then show ?thesis by (simp add: exact_index_def)
qed

section \<open>The tables\<close>

locale experience_tables = paired_tables "xd_bytes X" "xd_strs X" cb cs + json_codec "xd_codec X"
  for X :: "('e, 'db) experience_db" and cb and cs

definition records :: "('e, 'db) experience_db \<Rightarrow> ('db \<Rightarrow> rstr \<Rightarrow> rstr \<rightharpoonup> bytes) \<Rightarrow> 'db \<Rightarrow> rstr \<rightharpoonup> task_experience" where
  "records X cb d = table_view (xd_codec X) cb XP_EXPERIENCES_TABLE d"

lemma records_Some: "records X cb d i = Some x \<longleftrightarrow> (\<exists>v. cb d XP_EXPERIENCES_TABLE i = Some v \<and> from_slice (xd_codec X) v = Inr x)"
  by (auto simp: records_def table_view_def split: option.splits sum.splits)

text \<open>Every record is readable and stored under its identifier, and the index tables are exact.\<close>
definition indexed :: "('e, 'db) experience_db \<Rightarrow> ('db \<Rightarrow> rstr \<Rightarrow> rstr \<rightharpoonup> bytes) \<Rightarrow> ('db \<Rightarrow> rstr \<Rightarrow> rstr \<rightharpoonup> rstr) \<Rightarrow> 'db \<Rightarrow> bool" where
  "indexed X cb cs d \<longleftrightarrow> own_ids (records X cb d) \<and> dom (records X cb d) = dom (cb d XP_EXPERIENCES_TABLE)
     \<and> (\<forall>t \<in> INDEX_TABLES. exact_index (index_keys X t) (records X cb d) (cs d t))"

context experience_tables
begin

lemma keys_name: "keys_name_record (index_keys X t)"
  using index_keys_id by (auto simp: keys_name_record_def)

lemma insert_keys_tables:
  "insert_keys X t i ks d = Inr d' \<Longrightarrow> cs d' = (cs d)(t := add_keys ks i (cs d t)) \<and> cb d' = cb d"
proof (induction ks arbitrary: d)
  case (Cons k ks)
  then obtain d1 where d1: "db_insert (xd_strs X) d t k i = Inr d1" "insert_keys X t i ks d1 = Inr d'" by (auto simp: res_bind_eq_Inr)
  with Cons.IH [OF d1(2)] s.insert_ok [OF d1(1)] strs_frame(1) [OF d1(1)] show ?case by (auto simp: add_keys_def fun_eq_iff)
qed (simp add: add_keys_def)

lemma remove_keys_tables:
  "remove_keys X t ks d = Inr d' \<Longrightarrow> cs d' = (cs d)(t := drop_keys ks (cs d t)) \<and> cb d' = cb d"
proof (induction ks arbitrary: d)
  case (Cons k ks)
  then obtain d1 r where d1: "db_remove (xd_strs X) d t k = Inr (d1, r)" "remove_keys X t ks d1 = Inr d'"
    by (auto simp: res_bind_eq_Inr)
  with Cons.IH [OF d1(2)] s.remove_ok [OF d1(1)] strs_frame(2) [OF d1(1)] show ?case by (auto simp: drop_keys_def fun_eq_iff)
qed (simp add: drop_keys_def)

lemma insert_indexes_tables:
  assumes "insert_indexes X x d = Inr d'"
  shows "cb d' = cb d \<and> (\<forall>t \<in> INDEX_TABLES. cs d' t = add_keys (index_keys X t x) (xp_id x) (cs d t))"
proof -
  obtain d1 d2 d3 where
    "insert_keys X INDEX_SCOPE_TASK_TABLE (xp_id x) [scoped_task_key X x] d = Inr d1"
    "insert_keys X INDEX_WORKER_TABLE (xp_id x) (worker_keys x) d1 = Inr d2"
    "insert_keys X INDEX_TOOL_TABLE (xp_id x) (tool_keys x) d2 = Inr d3"
    "insert_keys X INDEX_STATUS_TABLE (xp_id x) (status_keys x) d3 = Inr d'"
    using assms by (auto simp: insert_indexes_def res_bind_eq_Inr)
  note * = this [THEN insert_keys_tables]
  show ?thesis using * by (simp add: INDEX_TABLES_def index_keys_def)
qed

lemma remove_indexes_tables:
  assumes "remove_indexes X x d = Inr d'"
  shows "cb d' = cb d \<and> (\<forall>t \<in> INDEX_TABLES. cs d' t = drop_keys (index_keys X t x) (cs d t))"
proof -
  obtain d1 d2 d3 where
    "remove_keys X INDEX_SCOPE_TASK_TABLE [scoped_task_key X x] d = Inr d1"
    "remove_keys X INDEX_WORKER_TABLE (worker_keys x) d1 = Inr d2"
    "remove_keys X INDEX_TOOL_TABLE (tool_keys x) d2 = Inr d3"
    "remove_keys X INDEX_STATUS_TABLE (status_keys x) d3 = Inr d'"
    using assms by (auto simp: remove_indexes_def res_bind_eq_Inr)
  note * = this [THEN remove_keys_tables]
  show ?thesis using * by (simp add: INDEX_TABLES_def index_keys_def)
qed

lemma get_view: "experience_get X d i = Inr r \<Longrightarrow> r = records X cb d i"
  by (auto simp: experience_get_def records_def table_view_def res_bind_eq_Inr dest!: b.get_ok split: option.splits sum.splits)

lemma records_cong: "cb d' XP_EXPERIENCES_TABLE = cb d XP_EXPERIENCES_TABLE \<Longrightarrow> records X cb d' = records X cb d"
  by (auto simp: records_def table_view_def)

lemma upsert_ok:
  assumes "experience_upsert X now x0 d = Inr (d', x)" "indexed X cb cs d"
  shows "x = normalize_before_store now x0 \<and> records X cb d' = (records X cb d)(xp_id x \<mapsto> x) \<and> indexed X cb cs d'"
proof -
  let ?i = "xp_id x" and ?v = "records X cb d"
  have x: "x = normalize_before_store now x0" using assms(1) by (auto simp: experience_upsert_def Let_def res_bind_eq_Inr)
  obtain d1 data d2 where steps: "(case ?v ?i of Some old \<Rightarrow> remove_indexes X old d | None \<Rightarrow> Inr d) = Inr d1"
      "to_vec (xd_codec X) x = Inr data" "db_insert (xd_bytes X) d1 XP_EXPERIENCES_TABLE ?i data = Inr d2" "insert_indexes X x d2 = Inr d'"
    using assms(1) by (auto simp: experience_upsert_def Let_def res_bind_eq_Inr dest!: get_view)
  have own: "own_ids ?v" and dom: "dom ?v = dom (cb d XP_EXPERIENCES_TABLE)"
    and exact: "\<And>t. t \<in> INDEX_TABLES \<Longrightarrow> exact_index (index_keys X t) ?v (cs d t)" using assms(2) by (auto simp: indexed_def)
  have d1: "cb d1 = cb d \<and> (\<forall>t \<in> INDEX_TABLES. exact_index (index_keys X t) (?v(?i := None)) (cs d1 t))"
  proof (cases "?v ?i")
    case None
    then have "?v(?i := None) = ?v" by (simp add: fun_upd_idem)
    with None steps(1) exact show ?thesis by simp
  next
    case (Some old)
    with steps(1) have "remove_indexes X old d = Inr d1" by simp
    from remove_indexes_tables [OF this] exact_drop [OF exact own keys_name Some] show ?thesis by simp
  qed
  have d2: "cb d2 XP_EXPERIENCES_TABLE = (cb d XP_EXPERIENCES_TABLE)(?i \<mapsto> data)" "cs d2 = cs d1"
    using b.insert_ok [OF steps(3)] bytes_frame(1) [OF steps(3)] d1 by simp_all
  have view: "records X cb d' = ?v(?i \<mapsto> x)"
    using d2(1) insert_indexes_tables [OF steps(4)] roundtrip [OF steps(2)] by (auto simp: records_def table_view_def fun_eq_iff)
  have rest: "own_ids (?v(?i := None))" using own by (auto simp: own_ids_def)
  have "exact_index (index_keys X t) (?v(?i \<mapsto> x)) (cs d' t)" if t: "t \<in> INDEX_TABLES" for t
  proof -
    have "exact_index (index_keys X t) ((?v(?i := None))(?i \<mapsto> x)) (add_keys (index_keys X t x) ?i (cs d1 t))"
      by (rule exact_add [OF _ rest keys_name]) (use d1 t in simp_all)
    then show ?thesis using insert_indexes_tables [OF steps(4)] t d2(2) by simp
  qed
  then have "\<forall>t \<in> INDEX_TABLES. exact_index (index_keys X t) (?v(?i \<mapsto> x)) (cs d' t)" by blast
  moreover have "own_ids (?v(?i \<mapsto> x))" using own by (simp add: own_ids_def)
  moreover have "dom (?v(?i \<mapsto> x)) = dom (cb d' XP_EXPERIENCES_TABLE)" using dom d2(1) insert_indexes_tables [OF steps(4)] by simp
  ultimately show ?thesis using x view by (simp add: indexed_def)
qed

lemma delete_ok:
  assumes "experience_delete X i d = Inr (d', r)" "indexed X cb cs d"
  shows "records X cb d' = (records X cb d)(i := None) \<and> r = (records X cb d i \<noteq> None) \<and> indexed X cb cs d'"
proof (cases "records X cb d i")
  case None
  with assms show ?thesis by (auto simp: experience_delete_def res_bind_eq_Inr fun_upd_idem dest!: get_view)
next
  case (Some old)
  let ?v = "records X cb d"
  obtain d1 r' where steps: "remove_indexes X old d = Inr d1" "db_remove (xd_bytes X) d1 XP_EXPERIENCES_TABLE i = Inr (d', r')" and r: "r = True"
    using assms(1) Some by (auto simp: experience_delete_def res_bind_eq_Inr dest!: get_view)
  have ix: "own_ids ?v" "dom ?v = dom (cb d XP_EXPERIENCES_TABLE)" "\<And>t. t \<in> INDEX_TABLES \<Longrightarrow> exact_index (index_keys X t) ?v (cs d t)"
    using assms(2) by (auto simp: indexed_def)
  have d': "cb d' XP_EXPERIENCES_TABLE = (cb d XP_EXPERIENCES_TABLE)(i := None)" "cs d' = cs d1"
    using b.remove_ok [OF steps(2)] bytes_frame(2) [OF steps(2)] remove_indexes_tables [OF steps(1)] by simp_all
  then have view: "records X cb d' = ?v(i := None)" by (auto simp: records_def table_view_def fun_eq_iff)
  have "\<forall>t \<in> INDEX_TABLES. exact_index (index_keys X t) (?v(i := None)) (cs d' t)"
    using exact_drop [OF ix(3) ix(1) keys_name Some] remove_indexes_tables [OF steps(1)] d'(2) by simp
  moreover have "own_ids (?v(i := None))" using ix(1) by (simp add: own_ids_def)
  ultimately show ?thesis using view r Some ix(2) d'(1) by (simp add: indexed_def)
qed

lemma update_ok:
  assumes "experience_update X now1 now2 i mutate d = Inr (d', r)" "indexed X cb cs d"
  shows "indexed X cb cs d'"
  using assms by (auto simp: experience_update_def res_bind_eq_Inr dest: upsert_ok split: option.splits)

lemma delete_all_ok: "indexed X cb cs d \<Longrightarrow> indexed X cb cs (fst (delete_all X ids n d))"
  by (induction ids arbitrary: n d) (auto split: sum.splits dest: delete_ok)

lemma delete_all_records:
  assumes "delete_all X ids n d = (d', Inr m)" "indexed X cb cs d" "distinct ids"
  shows "records X cb d' = (\<lambda>i. if i \<in> set ids then None else records X cb d i)"
    and "n + length ids \<le> 2 ^ 64 - 1 \<Longrightarrow> set ids \<subseteq> dom (records X cb d) \<Longrightarrow> m = n + length ids"
proof -
  have "records X cb d' = (\<lambda>i. if i \<in> set ids then None else records X cb d i)
      \<and> (n + length ids \<le> 2 ^ 64 - 1 \<and> set ids \<subseteq> dom (records X cb d) \<longrightarrow> m = n + length ids)"
    using assms
  proof (induction ids arbitrary: n d)
    case (Cons i ids)
    from Cons.prems(1) obtain d1 r where del: "experience_delete X i d = Inr (d1, r)"
        "delete_all X ids (if r then bump n else n) d1 = (d', Inr m)" by (auto split: sum.splits)
    note d1 = delete_ok [OF del(1) Cons.prems(2)]
    have "distinct ids" "i \<notin> set ids" using Cons.prems(3) by auto
    from Cons.IH [OF del(2) _ this(1)] d1
    have IH: "records X cb d' = (\<lambda>j. if j \<in> set ids then None else records X cb d1 j)"
      "(if r then bump n else n) + length ids \<le> 2 ^ 64 - 1 \<and> set ids \<subseteq> dom (records X cb d1) \<longrightarrow> m = (if r then bump n else n) + length ids"
      by blast+
    have "m = n + length (i # ids)" if "n + length (i # ids) \<le> 2 ^ 64 - 1" "set (i # ids) \<subseteq> dom (records X cb d)"
    proof -
      have "r" using d1 that(2) by auto
      moreover have "bump n = Suc n" using that(1) by (simp add: bump_def)
      ultimately show ?thesis using IH(2) that d1 \<open>i \<notin> set ids\<close> by auto
    qed
    then show ?case using IH(1) d1 by (auto simp: fun_eq_iff)
  qed simp
  then show "records X cb d' = (\<lambda>i. if i \<in> set ids then None else records X cb d i)"
    and "n + length ids \<le> 2 ^ 64 - 1 \<Longrightarrow> set ids \<subseteq> dom (records X cb d) \<Longrightarrow> m = n + length ids" by blast+
qed

lemma list_ok:
  assumes "experience_list X d = Inr xs" "own_ids (records X cb d)"
  shows "set xs = ran (records X cb d)" and "distinct (map xp_id xs)"
proof -
  obtain kvs where kvs: "db_iter (xd_bytes X) d XP_EXPERIENCES_TABLE = Inr kvs" "list_all2 (\<lambda>kv x. from_slice (xd_codec X) (snd kv) = Inr x) kvs xs"
    using assms(1) by (auto simp: experience_list_def res_bind_eq_Inr res_map_eq_Inr)
  have entry: "(k, v) \<in> set kvs \<longleftrightarrow> cb d XP_EXPERIENCES_TABLE k = Some v" for k v by (rule b.iter_entry [OF kvs(1)])
  have rec: "records X cb d (fst kv) = Some x" if "kv \<in> set kvs" "from_slice (xd_codec X) (snd kv) = Inr x" for kv x
    using that entry [of "fst kv" "snd kv"] by (simp add: records_def table_view_def)
  have "map xp_id xs = map fst kvs"
    using kvs(2) rec assms(2) by (induction rule: list_all2_induct) (auto simp: own_ids_def)
  then show "distinct (map xp_id xs)" using b.iter_distinct [OF kvs(1)] by simp
  show "set xs = ran (records X cb d)"
  proof
    have "\<forall>x \<in> set xs. \<exists>kv \<in> set kvs. from_slice (xd_codec X) (snd kv) = Inr x"
      using kvs(2) by (induction rule: list_all2_induct) auto
    then show "set xs \<subseteq> ran (records X cb d)" using rec by (fastforce simp: ran_def)
    show "ran (records X cb d) \<subseteq> set xs"
    proof
      fix x
      assume "x \<in> ran (records X cb d)"
      then obtain k v where "cb d XP_EXPERIENCES_TABLE k = Some v" "from_slice (xd_codec X) v = Inr x"
        by (auto simp: ran_def records_Some)
      moreover have "\<forall>kv \<in> set kvs. \<exists>x \<in> set xs. from_slice (xd_codec X) (snd kv) = Inr x"
        using kvs(2) by (induction rule: list_all2_induct) auto
      ultimately show "x \<in> set xs" using entry [of k v] by fastforce
    qed
  qed
qed

end

section \<open>Sequences of operations\<close>

datatype experience_op = UpsertOp int task_experience | DeleteOp rstr | SelectedOp int int rstr | PreflightOp int int rstr bool
  | ResultOp int int rstr bool | PruneOp int

definition kept_result :: "'db \<Rightarrow> 'e + 'db \<times> 'r \<Rightarrow> 'db" where
  "kept_result d r = (case r of Inl _ \<Rightarrow> d | Inr (d', _) \<Rightarrow> d')"

text \<open>The database after an operation; one that failed leaves what it committed.\<close>
fun apply_experience_op :: "('e, 'db) experience_db \<Rightarrow> 'db \<Rightarrow> experience_op \<Rightarrow> 'db" where
  "apply_experience_op X d (UpsertOp now x) = kept_result d (experience_upsert X now x d)"
| "apply_experience_op X d (DeleteOp i) = kept_result d (experience_delete X i d)"
| "apply_experience_op X d (SelectedOp now1 now2 i) = kept_result d (experience_update X now1 now2 i mark_selected d)"
| "apply_experience_op X d (PreflightOp now1 now2 i passed) = kept_result d (experience_update X now1 now2 i (record_preflight_result passed) d)"
| "apply_experience_op X d (ResultOp now1 now2 i succeeded) = kept_result d (experience_update X now1 now2 i (record_task_result succeeded) d)"
| "apply_experience_op X d (PruneOp now) = fst (prune_expired X now d)"

context experience_tables
begin

lemma step_indexed:
  assumes "indexed X cb cs d"
  shows "indexed X cb cs (apply_experience_op X d op)"
proof (cases op)
  case (UpsertOp now x)
  then show ?thesis using assms upsert_ok by (auto simp: kept_result_def split: sum.splits)
next
  case (DeleteOp i)
  then show ?thesis using assms delete_ok by (auto simp: kept_result_def split: sum.splits)
next
  case (PruneOp now)
  then show ?thesis using assms delete_all_ok by (simp add: prune_expired_def split: sum.splits)
qed (use assms update_ok in \<open>auto simp: kept_result_def split: sum.splits\<close>)

lemma run_indexed: "indexed X cb cs d \<Longrightarrow> indexed X cb cs (foldl (apply_experience_op X) d ops)"
  by (induction ops arbitrary: d) (auto intro: step_indexed)

text \<open>Every record has one key in the tables of scopes and of statuses.\<close>
lemma index_size:
  assumes "indexed X cb cs d" "t \<in> {INDEX_SCOPE_TASK_TABLE, INDEX_STATUS_TABLE}"
  shows "card (dom (cs d t)) = card (dom (records X cb d))"
proof -
  let ?v = "records X cb d" and ?key = "\<lambda>x. hd (index_keys X t x)"
  have one: "index_keys X t x = [?key x]" for x using assms(2) by (auto simp: index_keys_def status_keys_def)
  have own: "own_ids ?v" and exact: "exact_index (index_keys X t) ?v (cs d t)" using assms by (auto simp: indexed_def INDEX_TABLES_def)
  have "set (index_keys X t x) = {?key x}" for x using one by (metis empty_set list.simps(15))
  then have entry: "cs d t k = Some i \<longleftrightarrow> (\<exists>x. ?v i = Some x \<and> k = ?key x)" for k i using exact by (simp add: exact_index_def)
  have "dom (cs d t) = (\<lambda>i. ?key (the (?v i))) ` dom ?v"
  proof
    show "dom (cs d t) \<subseteq> (\<lambda>i. ?key (the (?v i))) ` dom ?v" using entry by force
    show "(\<lambda>i. ?key (the (?v i))) ` dom ?v \<subseteq> dom (cs d t)" using entry by force
  qed
  moreover have "inj_on (\<lambda>i. ?key (the (?v i))) (dom ?v)"
  proof (rule inj_onI)
    fix i j
    assume "i \<in> dom ?v" "j \<in> dom ?v" "?key (the (?v i)) = ?key (the (?v j))"
    then obtain x y where xy: "?v i = Some x" "?v j = Some y" "?key x = ?key y" by auto
    then have "?key x \<in> set (index_keys X t x)" "?key x \<in> set (index_keys X t y)" using one by (metis list.set_intros(1))+
    then have "xp_id x = xp_id y" by (rule index_keys_id)
    then show "i = j" using own xy(1,2) unfolding own_ids_def by metis
  qed
  ultimately show ?thesis by (simp add: card_image)
qed

lemma stats_ok:
  assumes "experience_stats X d = Inr st"
  shows "xt_total_experiences st = of_nat (card (dom (cb d XP_EXPERIENCES_TABLE)))
    \<and> xt_index_scope_task_entries st = of_nat (card (dom (cs d INDEX_SCOPE_TASK_TABLE)))
    \<and> xt_index_status_entries st = of_nat (card (dom (cs d INDEX_STATUS_TABLE)))"
  using assms by (auto simp: experience_stats_def res_bind_eq_Inr dest!: b.len_ok s.len_ok)

end

section \<open>Failing records\<close>

lemma f32_round_up: "x \<le> 1 \<Longrightarrow> f32_round x \<le> max 0 (x + 1 / 2 ^ 24)"
proof (cases "0 < x")
  case True
  assume "x \<le> 1"
  have "pow2 (log2_floor x) \<le> 1" using log2_floor_bounds(1) [OF True] \<open>x \<le> 1\<close> by linarith
  then have "log2_floor x \<le> 0" using pow2_mono [of 1 "log2_floor x"] by (cases "log2_floor x \<le> 0") (auto simp: pow2_def)
  then have s: "23 \<le> min (23 - log2_floor x) 149" by simp
  define s where "s = min (23 - log2_floor x) 149"
  have "of_int (rnd_even (x * pow2 s)) \<le> x * pow2 s + 1 / 2" by (rule rnd_even_bounds(1))
  then have "of_int (rnd_even (x * pow2 s)) * pow2 (- s) \<le> (x * pow2 s + 1 / 2) * pow2 (- s)"
    by (simp add: less_imp_le)
  also have "\<dots> = x + pow2 (- s) / 2" by (simp add: distrib_right flip: pow2_add mult.assoc) (simp add: mult.assoc pow2_def flip: pow2_add)
  also have "\<dots> \<le> x + 1 / 2 ^ 24" using pow2_mono [of "- s" "- 23"] s by (simp add: s_def pow2_def)
  finally show ?thesis using True by (simp add: f32_round_def s_def Let_def)
qed (simp add: f32_round_def)

lemma f32_round_down: "0 < x \<Longrightarrow> x \<le> 1 \<Longrightarrow> x - 1 / 2 ^ 24 \<le> f32_round x"
proof -
  assume x: "0 < x" "x \<le> 1"
  have "pow2 (log2_floor x) \<le> 1" using log2_floor_bounds(1) [OF x(1)] x(2) by linarith
  then have "log2_floor x \<le> 0" using pow2_mono [of 1 "log2_floor x"] by (cases "log2_floor x \<le> 0") (auto simp: pow2_def)
  then have s: "23 \<le> min (23 - log2_floor x) 149" by simp
  define s where "s = min (23 - log2_floor x) 149"
  have "x - 1 / 2 ^ 24 \<le> x - pow2 (- s) / 2" using pow2_mono [of "- s" "- 23"] s by (simp add: s_def pow2_def)
  also have "\<dots> = (x * pow2 s - 1 / 2) * pow2 (- s)"
    by (simp add: left_diff_distrib flip: pow2_add mult.assoc) (simp add: mult.assoc pow2_def flip: pow2_add)
  also have "\<dots> \<le> of_int (rnd_even (x * pow2 s)) * pow2 (- s)"
    using rnd_even_bounds(2) [of "x * pow2 s"] by (simp add: less_imp_le)
  finally show ?thesis using x by (simp add: f32_round_def s_def Let_def)
qed

text \<open>A failure takes at least \<open>0.17\<close> from the confidence, down to zero.\<close>
lemma failure_step:
  assumes "xp_confidence x = Finite c" "c \<le> 1"
  shows "\<exists>c'. xp_confidence (record_task_result False now x) = Finite c' \<and> 0 \<le> c' \<and> c' \<le> max 0 (c - 17 / 100)
    \<and> (c' \<le> f32_round (5 / 100) \<longrightarrow> xp_status (record_task_result False now x) = RetiredStatus)"
proof -
  let ?r = "f32_round (18 / 100)"
  have r: "18 / 100 - 1 / 2 ^ 24 \<le> ?r" by (rule f32_round_down) simp_all
  have "f32_round (c - ?r) \<le> max 0 (c - ?r + 1 / 2 ^ 24)"
    using assms(2) f32_round_nonneg [of "18 / 100"] by (intro f32_round_up) linarith
  also have "\<dots> \<le> max 0 (c - 17 / 100)" using r by simp
  finally have up: "f32_round (c - ?r) \<le> max 0 (c - 17 / 100)" .
  have "f32_round (c - ?r) \<le> 1" using up assms(2) by simp
  then have "xp_confidence (record_task_result False now x) = Finite (f32_round (c - ?r))"
    using assms(1) by (auto simp: record_task_result_def shift_confidence_def Let_def not_less)
  then show ?thesis using up assms(1) by (auto simp: record_task_result_def shift_confidence_def Let_def)
qed

lemma failures_lower:
  assumes "xp_confidence x = Finite c" "c \<le> 1"
  shows "\<exists>c'. xp_confidence (foldl (\<lambda>x now. record_task_result False now x) x moments) = Finite c'
    \<and> c' \<le> 1 \<and> (moments \<noteq> [] \<longrightarrow> 0 \<le> c' \<and> c' \<le> max 0 (c - of_nat (length moments) * (17 / 100)))"
  using assms
proof (induction moments rule: rev_induct)
  case (snoc now moments)
  let ?y = "foldl (\<lambda>x now. record_task_result False now x) x moments"
  obtain c1 where c1: "xp_confidence ?y = Finite c1" "c1 \<le> 1" "moments \<noteq> [] \<longrightarrow> c1 \<le> max 0 (c - of_nat (length moments) * (17 / 100))"
    using snoc by blast
  obtain c2 where c2: "xp_confidence (record_task_result False now ?y) = Finite c2" "0 \<le> c2" "c2 \<le> max 0 (c1 - 17 / 100)"
    using failure_step [OF c1(1,2)] by blast
  have start: "moments = [] \<Longrightarrow> c1 = c" using c1(1) snoc.prems(1) by auto
  have "c1 \<le> max 0 (c - of_nat (length moments) * (17 / 100)) \<or> c1 \<le> c - of_nat (length moments) * (17 / 100)"
    using c1(3) start by (cases "moments = []") auto
  moreover have "of_nat (length (moments @ [now])) * (17 / 100) = of_nat (length moments) * (17 / 100) + (17 / 100 :: rat)"
    by (simp add: distrib_right)
  ultimately have "c2 \<le> max 0 (c - of_nat (length (moments @ [now])) * (17 / 100))" using c2(3) by linarith
  then show ?case using c2 c1(2) by auto
qed auto

section \<open>Ranking\<close>

definition finite_score :: "experience_match \<Rightarrow> rat" where
  "finite_score m = (case em_score m of Finite r \<Rightarrow> r | _ \<Rightarrow> 0)"

lemma set_map_filter: "set (List.map_filter f xs) = {y. \<exists>x \<in> set xs. f x = Some y}"
  by (induction xs) (auto simp: map_filter_simps split: option.splits)

lemma insort_by_cong:
  "(\<And>y. y \<in> set ys \<Longrightarrow> le x y = le' x y) \<Longrightarrow> insort_by le x ys = insort_by le' x ys"
  by (induction ys) auto

lemma sort_by_cong:
  "(\<And>x y. x \<in> set xs \<Longrightarrow> y \<in> set xs \<Longrightarrow> le x y = le' x y) \<Longrightarrow> sort_by le xs = sort_by le' xs"
  by (induction xs) (auto intro!: insort_by_cong)

text \<open>Scores of records with finite confidence are finite.\<close>
lemma finite_steps:
  "\<exists>r. f32_plus (Finite a) c = Finite r" "\<exists>r. f32_times (Finite a) c = Finite r"
  by simp_all

definition has_number :: "f32 \<times> rstr list \<Rightarrow> bool" where
  "has_number s \<longleftrightarrow> (\<exists>r. fst s = Finite r)"

lemma has_number_steps:
  "has_number s \<Longrightarrow> has_number (score_overlap U x q s)" "has_number s \<Longrightarrow> has_number (score_worker x q s)"
  "has_number s \<Longrightarrow> has_number (score_tool x q s)" "has_number s \<Longrightarrow> has_number (score_freshness x q s)"
  "has_number s \<Longrightarrow> has_number (score_penalties x s)" "has_number s \<Longrightarrow> score_scope x q s = Some s' \<Longrightarrow> has_number s'"
  by (auto simp: has_number_def score_overlap_def score_worker_def score_tool_def score_freshness_def score_penalties_def score_scope_def
      Let_def split: option.splits if_splits)

lemma scored:
  assumes "score_experience U q x = Some m" "xp_confidence x = Finite c"
  shows "em_experience m = x \<and> (\<exists>r. em_score m = Finite r \<and> 0 < r \<and> r \<le> 1)
    \<and> (eq_include_expired q \<or> is_reusable_at x (eq_now_ms q))
    \<and> \<not> f32_less (xp_confidence x) (eq_min_confidence q)
    \<and> (\<forall>s. eq_scope q = Some s \<longrightarrow> xp_scope x = s \<or> eq_include_expired q)"
proof -
  define s0 where "s0 = score_overlap U x q (f32_times (f32_clamp (xp_confidence x) 0 1) (cst 55), [])"
  obtain s1 where s1: "score_scope x q s0 = Some s1" using assms(1) by (auto simp: score_experience_def s0_def split: if_splits option.splits)
  define s2 where "s2 = score_penalties x (score_freshness x q (score_tool x q (score_worker x q s1)))"
  have m: "\<not> f32_le (fst s2) 0" "m = \<lparr>em_experience = x, em_score = f32_clamp (fst s2) 0 1, em_reasons = snd s2\<rparr>"
      "eq_include_expired q \<or> is_reusable_at x (eq_now_ms q)" "\<not> f32_less (xp_confidence x) (eq_min_confidence q)"
    using assms(1) s1 by (auto simp: score_experience_def Let_def simp flip: s0_def s2_def split: if_splits)
  have "has_number (f32_times (f32_clamp (xp_confidence x) 0 1) (cst 55), [])" by (simp add: assms(2) has_number_def)
  then have "has_number s0" unfolding s0_def by (rule has_number_steps)
  then have "has_number s1" using s1 by (rule has_number_steps)
  then have "has_number s2" unfolding s2_def by (intro has_number_steps(1-5))
  then obtain r where "fst s2 = Finite r" by (auto simp: has_number_def)
  moreover have "\<forall>s. eq_scope q = Some s \<longrightarrow> xp_scope x = s \<or> eq_include_expired q" using s1 by (auto simp: score_scope_def split: if_splits)
  ultimately show ?thesis using m by auto
qed

section \<open>A concrete database\<close>

definition sample_experience :: task_experience where
  "sample_experience = experience_new (lit ''e'') 5 (lit ''t'') (lit ''s'') (OtherScope (lit ''o''))"

text \<open>A codec of one value; other values fail to encode.\<close>
definition sample_experience_db :: "(rstr, bytes mem_db \<times> rstr mem_db) experience_db" where
  "sample_experience_db = \<lparr>xd_bytes = mem_ranges fst (\<lambda>a d. (a, snd d)), xd_strs = mem_ranges snd (\<lambda>a d. (fst d, a)),
     xd_codec = \<lparr>to_vec = (\<lambda>x. if x = normalize_before_store 5 sample_experience then Inr [0] else Inl (lit ''other'')),
       from_slice = (\<lambda>_. Inr (normalize_before_store 5 sample_experience))\<rparr>,
     xd_unicode = \<lparr>u_lower = (\<lambda>s. s), u_alnum = (\<lambda>c. c < 128)\<rparr>, xd_sha256 = (\<lambda>_. [])\<rparr>"

interpretation sample_experiences: experience_tables sample_experience_db "\<lambda>d t. map_of (fst d t)" "\<lambda>d t. map_of (snd d t)"
  by (intro experience_tables.intro json_codec.intro)
    (auto simp: sample_experience_db_def mem_pair_tables split: if_splits)

section \<open>Properties\<close>


lemma sample_experience_stats: "\<exists>st. experience_stats sample_experience_db d = Inr st"
  by (simp add: experience_stats_def sample_experience_db_def mem_ranges_sel)


text \<open>
  A record that keeps failing retires. Whatever its confidence, after six failed tasks in
  a row its confidence is zero, it is retired and it is not reused; one more success makes it
  active again.
\<close>
theorem failing_experience_retires:
  assumes "xp_confidence x = Finite c" and "c \<le> 1" and "6 \<le> length moments"
  shows "let y = foldl (\<lambda>x now. record_task_result False now x) x moments in
    xp_confidence y = Finite 0 \<and> xp_status y = RetiredStatus \<and> \<not> is_reusable_at y now
    \<and> xp_status (record_task_result True now y) = ActiveStatus"
proof -
  obtain times last where m: "moments = times @ [last]" using assms(3) by (cases moments rule: rev_cases) auto
  let ?y = "foldl (\<lambda>x now. record_task_result False now x) x times"
  obtain c1 where c1: "xp_confidence ?y = Finite c1" "c1 \<le> 1" "c1 \<le> max 0 (c - of_nat (length times) * (17 / 100))"
    using failures_lower [OF assms(1,2), of times] assms(3) m by fastforce
  have "c - of_nat (length times) * (17 / 100) \<le> 1 - 5 * (17 / 100)" using assms(2,3) m by simp
  then have low: "c1 \<le> 15 / 100" using c1(3) by simp
  obtain c2 where c2: "xp_confidence (record_task_result False last ?y) = Finite c2" "0 \<le> c2" "c2 \<le> max 0 (c1 - 17 / 100)"
      "c2 \<le> f32_round (5 / 100) \<longrightarrow> xp_status (record_task_result False last ?y) = RetiredStatus"
    using failure_step [OF c1(1,2)] by blast
  then have "c2 = 0" using low by simp
  with c2 show ?thesis by (simp add: m Let_def is_reusable_at_def record_task_result_def refresh_expiry_def shift_confidence_def)
qed

lemma sample_confidence: "xp_confidence sample_experience = Finite (1 / 2)"
  by (simp add: sample_experience_def experience_new_def Let_def)

theorem failing_experience_retires_witness:
  "xp_status (foldl (\<lambda>x now. record_task_result False now x) sample_experience [1, 2, 3, 4, 5, 6]) = RetiredStatus"
proof -
  from failing_experience_retires [OF sample_confidence, of "[1, 2, 3, 4, 5, 6]"] show ?thesis by (simp add: Let_def)
qed

text \<open>
  Ranking. When the confidences are numbers, the matches of a query are sorted by score and
  then by the time of the last update; they are at most the limit (at least one is allowed), have
  scores in the unit interval, and every match is a record that is reusable now and of the wanted
  scope unless expired ones are asked for.
\<close>
theorem ranking_is_sorted:
  assumes "\<forall>x \<in> set xs. \<exists>c. xp_confidence x = Finite c"
  shows "let ms = rank_experiences U xs q in length ms \<le> max 1 (eq_limit q)
    \<and> sorted_wrt (\<lambda>a b. finite_score b < finite_score a \<or> finite_score a = finite_score b
         \<and> xp_updated_at_ms (em_experience b) \<le> xp_updated_at_ms (em_experience a)) ms
    \<and> (\<forall>m \<in> set ms. em_experience m \<in> set xs \<and> em_score m = Finite (finite_score m) \<and> 0 < finite_score m \<and> finite_score m \<le> 1
         \<and> (eq_include_expired q \<or> is_reusable_at (em_experience m) (eq_now_ms q) \<and> eq_scope q \<in> {None, Some (xp_scope (em_experience m))}))"
proof -
  let ?all = "List.map_filter (score_experience U q) xs"
  have all: "em_experience m \<in> set xs \<and> em_score m = Finite (finite_score m) \<and> 0 < finite_score m \<and> finite_score m \<le> 1
      \<and> (eq_include_expired q \<or> is_reusable_at (em_experience m) (eq_now_ms q) \<and> eq_scope q \<in> {None, Some (xp_scope (em_experience m))})"
    if member: "m \<in> set ?all" for m
  proof -
    obtain x where x: "x \<in> set xs" "score_experience U q x = Some m" using member by (auto simp: set_map_filter)
    obtain c where "xp_confidence x = Finite c" using assms x(1) by blast
    from scored [OF x(2) this] x(1) show ?thesis by (cases "eq_scope q") (auto simp: finite_score_def)
  qed
  let ?le = "le_desc_then finite_score (\<lambda>m. - xp_updated_at_ms (em_experience m))"
  have "sort_by le_match ?all = sort_by ?le ?all"
  proof (rule sort_by_cong)
    fix a b
    assume "a \<in> set ?all" "b \<in> set ?all"
    then have "em_score a = Finite (finite_score a)" "em_score b = Finite (finite_score b)" using all by blast+
    then show "le_match a b = ?le a b" by (auto simp: le_match_def le_desc_then_def Let_def)
  qed
  then have ranked: "rank_experiences U xs q = take (max 1 (eq_limit q)) (sort_by ?le ?all)" by (simp add: rank_experiences_def)
  have "sorted_wrt ?le (take (max 1 (eq_limit q)) (sort_by ?le ?all))" by (intro sorted_wrt_take desc_then.sorted_sort_by)
  moreover have "set (take (max 1 (eq_limit q)) (sort_by ?le ?all)) \<subseteq> set ?all" by (metis set_sort_by set_take_subset)
  ultimately show ?thesis
    unfolding ranked Let_def using all
    by (auto simp: le_desc_then_def elim!: sorted_wrt_mono_rel [rotated])
qed

theorem ranking_is_sorted_witness:
  "length (rank_experiences (xd_unicode sample_experience_db) [sample_experience] (experience_query_new 7 (lit ''t''))) \<le> 5"
proof -
  have "\<forall>x \<in> set [sample_experience]. \<exists>c. xp_confidence x = Finite c" using sample_confidence by (metis empty_iff empty_set set_ConsD)
  from ranking_is_sorted [OF this, of "xd_unicode sample_experience_db" "experience_query_new 7 (lit ''t'')"] show ?thesis by (simp add: experience_query_new_def Let_def)
qed

end
