(* ===== verification/Knowledge_Graph.thy ===== *)
theory Knowledge_Graph
  imports Retry_Provider Float32 Redb_Store
begin

text \<open>
  The knowledge graph of the crate \<^verbatim>\<open>knowledge\<close> (\<^verbatim>\<open>knowledge/src/kg.rs\<close>): triples, events with
  several participants, and the entities they name, with indexes from names to positions. A
  query that would index out of bounds is \<open>None\<close>. The iteration order of a hash map, the
  lower-casing of names and the text of single precision numbers are parameters.
\<close>

section \<open>Data\<close>

text \<open>Only the variants with a message occur.\<close>
type_synonym brain_error = "unit error"

record kg_triple =
  kt_subject :: rstr
  kt_predicate :: rstr
  kt_object :: rstr
  kt_metadata :: "rstr \<rightharpoonup> rstr"
  kt_sentiment :: "rstr option"
  kt_urgency :: f32

record kg_entity =
  kn_id :: rstr
  kn_entity_type :: rstr
  kn_properties :: "rstr \<rightharpoonup> rstr"

record hyperedge =
  hy_id :: rstr
  hy_label :: rstr
  hy_participants :: "rstr list"
  hy_properties :: "rstr \<rightharpoonup> rstr"
  hy_created_at_ms :: int
  hy_sentiment :: "rstr option"
  hy_urgency :: f32

record kg_config =
  kc_max_triples :: nat
  kc_auto_register_entities :: bool
  kc_batch_write_size :: nat
  kc_source_tag :: rstr

definition default_kg_config :: kg_config where
  "default_kg_config = \<lparr>kc_max_triples = 500000, kc_auto_register_entities = True, kc_batch_write_size = 100,
     kc_source_tag = lit ''jarvis-core''\<rparr>"

record graph_env =
  gv_order :: "rstr set \<Rightarrow> rstr list"
  gv_lower :: "rstr \<Rightarrow> rstr"
  gv_show_f32 :: "f32 \<Rightarrow> rstr"
  gv_parse_f32 :: "rstr \<Rightarrow> f32 option"

definition reserved_key :: "rstr \<Rightarrow> bool" where
  "reserved_key k \<longleftrightarrow> starts_with k (lit ''_'') \<and> \<not> starts_with k (lit ''_sentiment'') \<and> \<not> starts_with k (lit ''_urgency'')"

definition restricted_chars :: "rchar list" where
  "restricted_chars = [0, 10, 13, 0x1f]"

definition has_restricted :: "rstr \<Rightarrow> bool" where
  "has_restricted s \<longleftrightarrow> list_ex (\<lambda>c. c \<in> set restricted_chars) s"

definition validate_triple :: "graph_env \<Rightarrow> kg_triple \<Rightarrow> brain_error + unit" where
  "validate_triple V t =
     (if trim (kt_subject t) = [] \<or> trim (kt_predicate t) = [] \<or> trim (kt_object t) = []
      then Inl (Validation (lit ''Triple components cannot be empty''))
      else if utf8_len (kt_subject t) > 1024 \<or> utf8_len (kt_predicate t) > 1024 \<or> utf8_len (kt_object t) > 1024
      then Inl (Validation (lit ''Triple components must be < 1024 characters''))
      else if \<not> (f32_ge (kt_urgency t) 0 \<and> f32_le (kt_urgency t) 1)
      then Inl (Validation (lit ''Urgency must be between 0.0 and 1.0 (got '' @ gv_show_f32 V (kt_urgency t) @ lit '')''))
      else case find reserved_key (gv_order V (dom (kt_metadata t))) of
        Some k \<Rightarrow> Inl (Validation (lit ''Metadata keys starting with '' @ [39, 95, 39] @ lit '' are reserved (got '' @ k @ lit '')''))
      | None \<Rightarrow>
          if has_restricted (kt_subject t) \<or> has_restricted (kt_predicate t) \<or> has_restricted (kt_object t)
          then Inl (Validation (lit ''Triple contains restricted control characters'')) else Inr ())"

definition MAX_TRIPLES :: nat where "MAX_TRIPLES = 100000"
definition MAX_HYPEREDGES :: nat where "MAX_HYPEREDGES = 50000"

section \<open>The graph in memory\<close>

record knowledge_graph =
  kg_triples :: "kg_triple list"
  kg_entities :: "rstr \<rightharpoonup> kg_entity"
  kg_hyperedges :: "hyperedge list"
  kg_subject_index :: "rstr \<rightharpoonup> nat list"
  kg_object_index :: "rstr \<rightharpoonup> nat list"
  kg_participant_index :: "rstr \<rightharpoonup> nat list"

definition kg_new :: knowledge_graph where
  "kg_new = \<lparr>kg_triples = [], kg_entities = Map.empty, kg_hyperedges = [],
     kg_subject_index = Map.empty, kg_object_index = Map.empty, kg_participant_index = Map.empty\<rparr>"

text \<open>\<^verbatim>\<open>entry(k).or_default().push(i)\<close>\<close>
definition push_index :: "rstr \<Rightarrow> nat \<Rightarrow> (rstr \<rightharpoonup> nat list) \<Rightarrow> rstr \<rightharpoonup> nat list" where
  "push_index k i m = m(k \<mapsto> (case m k of Some is \<Rightarrow> is @ [i] | None \<Rightarrow> [i]))"

definition register_entity :: "rstr \<Rightarrow> (rstr \<rightharpoonup> kg_entity) \<Rightarrow> rstr \<rightharpoonup> kg_entity" where
  "register_entity k es = (if es k = None
     then es(k \<mapsto> \<lparr>kn_id = k, kn_entity_type = lit ''auto'', kn_properties = Map.empty\<rparr>) else es)"

definition index_triple :: "nat \<Rightarrow> kg_triple \<Rightarrow> knowledge_graph \<Rightarrow> knowledge_graph" where
  "index_triple i t g = g\<lparr>kg_subject_index := push_index (kt_subject t) i (kg_subject_index g),
     kg_object_index := push_index (kt_object t) i (kg_object_index g),
     kg_entities := register_entity (kt_object t) (register_entity (kt_subject t) (kg_entities g))\<rparr>"

definition add_triple :: "kg_triple \<Rightarrow> knowledge_graph \<Rightarrow> knowledge_graph \<times> (brain_error + unit)" where
  "add_triple t g =
     (if length (kg_triples g) \<ge> MAX_TRIPLES
      then (g, Inl (Internal (lit ''KnowledgeGraph limit reached: '' @ show_nat MAX_TRIPLES @ lit '' triples'')))
      else ((index_triple (length (kg_triples g)) t g)\<lparr>kg_triples := kg_triples g @ [t]\<rparr>, Inr ()))"

definition add_triples_batch :: "graph_env \<Rightarrow> kg_triple list \<Rightarrow> knowledge_graph \<Rightarrow> knowledge_graph \<times> (brain_error + nat)" where
  "add_triples_batch V ts g =
     (if length (kg_triples g) + length ts > MAX_TRIPLES
      then (g, Inl (Internal (lit ''KnowledgeGraph limit exceeded ('' @ show_nat (length (kg_triples g)) @ lit '' + '' @ show_nat (length ts)
              @ lit '' > '' @ show_nat MAX_TRIPLES @ lit '')'')))
      else case res_map (validate_triple V) ts of
        Inl e \<Rightarrow> (g, Inl e)
      | Inr _ \<Rightarrow>
          (foldl (\<lambda>g (i, t). index_triple i t g) (g\<lparr>kg_triples := kg_triples g @ ts\<rparr>) (List.enumerate (length (kg_triples g)) ts),
           Inr (length ts)))"

definition add_entity :: "kg_entity \<Rightarrow> knowledge_graph \<Rightarrow> knowledge_graph" where
  "add_entity e g = g\<lparr>kg_entities := (kg_entities g)(kn_id e \<mapsto> e)\<rparr>"

definition index_participant :: "nat \<Rightarrow> knowledge_graph \<Rightarrow> rstr \<Rightarrow> knowledge_graph" where
  "index_participant i g p = g\<lparr>kg_participant_index := push_index p i (kg_participant_index g),
     kg_entities := register_entity p (kg_entities g)\<rparr>"

definition add_hyperedge :: "hyperedge \<Rightarrow> knowledge_graph \<Rightarrow> knowledge_graph \<times> (brain_error + unit)" where
  "add_hyperedge h g =
     (if length (kg_hyperedges g) \<ge> MAX_HYPEREDGES
      then (g, Inl (Internal (lit ''KG Hyperedge limit reached ('' @ show_nat MAX_HYPEREDGES @ lit '')'')))
      else ((foldl (index_participant (length (kg_hyperedges g))) g (hy_participants h))\<lparr>kg_hyperedges := kg_hyperedges g @ [h]\<rparr>, Inr ()))"

section \<open>Queries\<close>

text \<open>\<^verbatim>\<open>&v[i]\<close> for every index; \<open>None\<close> is the panic.\<close>
fun index_all :: "'a list \<Rightarrow> nat list \<Rightarrow> 'a list option" where
  "index_all xs [] = Some []"
| "index_all xs (i # is) = (if i < length xs then map_option (\<lambda>ys. xs ! i # ys) (index_all xs is) else None)"

definition at_indices :: "'a list \<Rightarrow> (rstr \<rightharpoonup> nat list) \<Rightarrow> rstr \<Rightarrow> 'a list option" where
  "at_indices xs m k = (case m k of Some is \<Rightarrow> index_all xs is | None \<Rightarrow> Some [])"

definition query_subject :: "knowledge_graph \<Rightarrow> rstr \<Rightarrow> kg_triple list option" where
  "query_subject g s = at_indices (kg_triples g) (kg_subject_index g) s"

definition query_object :: "knowledge_graph \<Rightarrow> rstr \<Rightarrow> kg_triple list option" where
  "query_object g s = at_indices (kg_triples g) (kg_object_index g) s"

definition query_participant_events :: "knowledge_graph \<Rightarrow> rstr \<Rightarrow> hyperedge list option" where
  "query_participant_events g p = at_indices (kg_hyperedges g) (kg_participant_index g) p"

text \<open>The sets of positions of the participants; \<open>None\<close> when one of them has none.\<close>
fun participant_sets :: "(rstr \<rightharpoonup> nat list) \<Rightarrow> rstr list \<Rightarrow> nat set list option" where
  "participant_sets m [] = Some []"
| "participant_sets m (p # ps) = (case m p of
       None \<Rightarrow> None
     | Some is \<Rightarrow> map_option (\<lambda>sets. set is # sets) (participant_sets m ps))"

fun intersect_sets :: "nat set \<Rightarrow> nat set list \<Rightarrow> nat set" where
  "intersect_sets first [] = first"
| "intersect_sets first (s # sets) = (let first = first \<inter> s in if first = {} then {} else intersect_sets first sets)"

definition recall_multi_participant_event :: "knowledge_graph \<Rightarrow> rstr list \<Rightarrow> hyperedge list option" where
  "recall_multi_participant_event g ps =
     (if ps = [] \<or> length ps > 16 then Some []
      else case participant_sets (kg_participant_index g) ps of
        Some (first # sets) \<Rightarrow> index_all (kg_hyperedges g) (sorted_list_of_set (intersect_sets first sets))
      | _ \<Rightarrow> Some [])"

type_synonym hop = "rstr \<times> rstr \<times> rstr \<times> rstr"

definition hop_of :: "kg_triple \<Rightarrow> kg_triple \<Rightarrow> hop" where
  "hop_of t1 t2 = (kt_predicate t1, kt_object t1, kt_predicate t2, kt_object t2)"

fun second_hops :: "nat \<Rightarrow> kg_triple \<Rightarrow> kg_triple list \<Rightarrow> hop list \<Rightarrow> hop list \<times> bool" where
  "second_hops max_results t1 [] results = (results, False)"
| "second_hops max_results t1 (t2 # ts) results =
     (if length results \<ge> max_results then (results, True) else second_hops max_results t1 ts (results @ [hop_of t1 t2]))"

fun first_hops :: "knowledge_graph \<Rightarrow> rstr option \<Rightarrow> nat \<Rightarrow> kg_triple list \<Rightarrow> hop list \<Rightarrow> hop list option" where
  "first_hops g p1_filter max_results [] results = Some results"
| "first_hops g p1_filter max_results (t1 # ts) results =
     (if (case p1_filter of Some p \<Rightarrow> kt_predicate t1 \<noteq> p | None \<Rightarrow> False) then first_hops g p1_filter max_results ts results
      else case query_subject g (kt_object t1) of
        None \<Rightarrow> None
      | Some seconds \<Rightarrow> (case second_hops max_results t1 seconds results of
            (results, True) \<Rightarrow> Some results
          | (results, False) \<Rightarrow> first_hops g p1_filter max_results ts results))"

definition query_2hop_filtered :: "knowledge_graph \<Rightarrow> rstr \<Rightarrow> rstr option \<Rightarrow> nat \<Rightarrow> hop list option" where
  "query_2hop_filtered g start p1_filter max_results = (case query_subject g start of
       None \<Rightarrow> None
     | Some firsts \<Rightarrow> first_hops g p1_filter max_results firsts [])"

fun all_hops :: "knowledge_graph \<Rightarrow> kg_triple list \<Rightarrow> hop list \<Rightarrow> hop list option" where
  "all_hops g [] results = Some results"
| "all_hops g (t1 # ts) results = (case query_subject g (kt_object t1) of
       None \<Rightarrow> None
     | Some seconds \<Rightarrow> all_hops g ts (results @ map (hop_of t1) seconds))"

definition query_2hop :: "knowledge_graph \<Rightarrow> rstr \<Rightarrow> hop list option" where
  "query_2hop g start = (case query_subject g start of None \<Rightarrow> None | Some firsts \<Rightarrow> all_hops g firsts [])"

definition entity_count :: "knowledge_graph \<Rightarrow> nat" where
  "entity_count g = card (dom (kg_entities g))"

definition get_stats :: "knowledge_graph \<Rightarrow> rstr \<rightharpoonup> nat" where
  "get_stats g = [lit ''triples'' \<mapsto> length (kg_triples g), lit ''entities'' \<mapsto> card (dom (kg_entities g)),
     lit ''hyperedges'' \<mapsto> length (kg_hyperedges g), lit ''subject_index_size'' \<mapsto> card (dom (kg_subject_index g)),
     lit ''object_index_size'' \<mapsto> card (dom (kg_object_index g)),
     lit ''participant_index_size'' \<mapsto> card (dom (kg_participant_index g))]"

definition index_errors :: "knowledge_graph \<Rightarrow> rstr \<Rightarrow> nat \<Rightarrow> rstr list" where
  "index_errors g name i =
     (if i \<ge> length (kg_triples g) then [lit ''Out-of-bounds index '' @ show_nat i @ lit '' for subject '' @ name]
      else if kt_subject (kg_triples g ! i) \<noteq> name
      then [lit ''Subject mismatch at index '' @ show_nat i @ lit '': expected '' @ name @ lit '', found '' @ kt_subject (kg_triples g ! i)]
      else [])"

definition check_index_consistency :: "graph_env \<Rightarrow> knowledge_graph \<Rightarrow> rstr list" where
  "check_index_consistency V g = concat (map (\<lambda>name. case kg_subject_index g name of
       Some is \<Rightarrow> concat (map (index_errors g name) is) | None \<Rightarrow> []) (gv_order V (dom (kg_subject_index g))))"

definition get_entity :: "knowledge_graph \<Rightarrow> rstr \<Rightarrow> kg_entity option" where
  "get_entity g k = kg_entities g k"

definition lookup_entities_by_surface_form :: "graph_env \<Rightarrow> knowledge_graph \<Rightarrow> rstr \<Rightarrow> nat \<Rightarrow> kg_entity list" where
  "lookup_entities_by_surface_form V g surface limit =
     take limit (filter (\<lambda>e. contains (gv_lower V (kn_id e)) (gv_lower V surface))
       (List.map_filter (kg_entities g) (gv_order V (dom (kg_entities g)))))"

text \<open>\<^verbatim>\<open>{:.1}\<close> of a number that is not negative.\<close>
fun show_one_decimal :: "f32 \<Rightarrow> rstr" where
  "show_one_decimal (Finite r) = (let n = nat (rnd_even (10 * r)) in show_nat (n div 10) @ lit ''.'' @ show_nat (n mod 10))"
| "show_one_decimal PosInf = lit ''inf''"
| "show_one_decimal NegInf = lit ''-inf''"
| "show_one_decimal NaN = lit ''NaN''"

definition event_to_text :: "graph_env \<Rightarrow> knowledge_graph \<Rightarrow> hyperedge \<Rightarrow> rstr" where
  "event_to_text V g edge =
     (let participants = join (lit '', '') (map (\<lambda>p. case get_entity g p of
            Some e \<Rightarrow> p @ lit '' ('' @ kn_entity_type e @ lit '')'' | None \<Rightarrow> p) (hy_participants edge));
          props = join (lit '' | '') (List.map_filter (\<lambda>k. if starts_with k (lit ''_'') then None
              else map_option (\<lambda>v. k @ lit '': '' @ v) (hy_properties edge k)) (gv_order V (dom (hy_properties edge))));
          sentiment = (case hy_sentiment edge of Some s \<Rightarrow> lit '' ['' @ s @ lit '']'' | None \<Rightarrow> []);
          urgency = (if f32_gt (hy_urgency edge) (1 / 2) then lit '' (Urgency: '' @ show_one_decimal (hy_urgency edge) @ lit '')'' else [])
      in lit ''Event: '' @ hy_label edge @ sentiment @ urgency @ lit '' | Participants: ['' @ participants @ lit ''] | Details: ''
         @ (if props = [] then lit ''No extra data'' else props))"

section \<open>Removal, rebuilding, distillation\<close>

definition sort_values :: "(rstr \<rightharpoonup> nat list) \<Rightarrow> rstr \<rightharpoonup> nat list" where
  "sort_values m = (\<lambda>k. map_option sort (m k))"

definition rebuild_indices :: "knowledge_graph \<Rightarrow> knowledge_graph" where
  "rebuild_indices g =
     (let ts = List.enumerate 0 (kg_triples g); hs = List.enumerate 0 (kg_hyperedges g)
      in g\<lparr>kg_subject_index := sort_values (foldl (\<lambda>m (i, t). push_index (kt_subject t) i m) Map.empty ts),
           kg_object_index := sort_values (foldl (\<lambda>m (i, t). push_index (kt_object t) i m) Map.empty ts),
           kg_participant_index := sort_values (foldl (\<lambda>m (i, h). foldl (\<lambda>m p. push_index p i m) m (hy_participants h)) Map.empty hs)\<rparr>)"

definition remove_entity :: "rstr \<Rightarrow> knowledge_graph \<Rightarrow> knowledge_graph" where
  "remove_entity k g = rebuild_indices
     (g\<lparr>kg_triples := filter (\<lambda>t. kt_subject t \<noteq> k \<and> kt_object t \<noteq> k) (kg_triples g), kg_entities := (kg_entities g)(k := None)\<rparr>)"

definition count_up :: "rstr \<Rightarrow> (rstr \<rightharpoonup> nat) \<Rightarrow> rstr \<rightharpoonup> nat" where
  "count_up k m = m(k \<mapsto> (case m k of Some n \<Rightarrow> n + 1 | None \<Rightarrow> 1))"

definition degree_map :: "kg_triple list \<Rightarrow> rstr \<rightharpoonup> nat" where
  "degree_map ts = foldl (\<lambda>m t. count_up (kt_object t) (count_up (kt_subject t) m)) Map.empty ts"

definition concept_id :: "rstr \<Rightarrow> rstr" where
  "concept_id centroid = lit ''concept://summary_of_'' @ centroid"

fun distill_each :: "rstr list \<Rightarrow> nat \<Rightarrow> knowledge_graph \<Rightarrow> knowledge_graph \<times> (brain_error + nat)" where
  "distill_each [] concept_count g = (g, Inr concept_count)"
| "distill_each (centroid # cs) concept_count g =
     (if kg_entities g (concept_id centroid) = None
      then io_then (add_triple \<lparr>kt_subject = concept_id centroid, kt_predicate = lit ''summarizes'', kt_object = centroid,
               kt_metadata = [lit ''system_generated'' \<mapsto> lit ''true''], kt_sentiment = None, kt_urgency = Finite (f32_round (1 / 10))\<rparr>
             (add_entity \<lparr>kn_id = concept_id centroid, kn_entity_type = lit ''AbstractConcept'',
               kn_properties = [lit ''derived_from'' \<mapsto> centroid]\<rparr> g))
           (\<lambda>_ g. distill_each cs (concept_count + 1) g)
      else distill_each cs concept_count g)"

definition distill_concepts :: "graph_env \<Rightarrow> knowledge_graph \<Rightarrow> knowledge_graph \<times> (brain_error + nat)" where
  "distill_concepts V g =
     (let degrees = degree_map (kg_triples g); names = gv_order V (dom degrees);
          degree = (\<lambda>k. case degrees k of Some d \<Rightarrow> d | None \<Rightarrow> 0);
          total_degree = sum_list (map degree names);
          avg_degree = (if kg_entities g = Map.empty then 0 else total_degree div card (dom (kg_entities g)));
          threshold = max (avg_degree * 2) 5
      in distill_each (filter (\<lambda>k. threshold \<le> degree k) names) 0 g)"

section \<open>Serialization\<close>

text \<open>The serialized fields; the indexes are skipped.\<close>
type_synonym graph_data = "kg_triple list \<times> (rstr \<rightharpoonup> kg_entity) \<times> hyperedge list"

definition graph_to_json :: "('e, graph_data, 'b) codec \<Rightarrow> knowledge_graph \<Rightarrow> 'e + 'b" where
  "graph_to_json C g = to_vec C (kg_triples g, kg_entities g, kg_hyperedges g)"

definition graph_from_json :: "('e, graph_data, 'b) codec \<Rightarrow> 'b \<Rightarrow> 'e + knowledge_graph" where
  "graph_from_json C json = res_bind (from_slice C json) (\<lambda>(ts, es, hs). Inr (rebuild_indices
     (kg_new\<lparr>kg_triples := ts, kg_entities := es, kg_hyperedges := hs\<rparr>)))"

end
