(* ===== verification/Knowledge_Index.thy ===== *)
theory Knowledge_Index
  imports Knowledge_Graph
begin

text \<open>
  The indexes of the knowledge graph are exact: after any sequence of operations, failed ones
  included, an index is what rebuilding it from the triples and events would give. Queries
  never panic and are the obvious filters; recalling an event, hopping with a limit, batches
  and serialization are described by the same view.
\<close>

section \<open>The index of a list\<close>

definition occurrences :: "('a \<Rightarrow> rstr list) \<Rightarrow> 'a list \<Rightarrow> rstr \<Rightarrow> nat list" where
  "occurrences names xs k = concat (map (\<lambda>i. replicate (count_list (names (xs ! i)) k) i) [0..<length xs])"

definition of_entries :: "(rstr \<Rightarrow> nat list) \<Rightarrow> rstr \<rightharpoonup> nat list" where
  "of_entries f = (\<lambda>k. if f k = [] then None else Some (f k))"

definition list_index :: "('a \<Rightarrow> rstr list) \<Rightarrow> 'a list \<Rightarrow> rstr \<rightharpoonup> nat list" where
  "list_index names xs = of_entries (occurrences names xs)"

lemma occurrences_Nil [simp]: "occurrences names [] = (\<lambda>k. [])"
  by (simp add: occurrences_def fun_eq_iff)

lemma occurrences_snoc: "occurrences names (xs @ [x]) = (\<lambda>k. occurrences names xs k @ replicate (count_list (names x) k) (length xs))"
proof -
  have "map (\<lambda>i. replicate (count_list (names ((xs @ [x]) ! i)) k) i) [0..<length xs]
      = map (\<lambda>i. replicate (count_list (names (xs ! i)) k) i) [0..<length xs]" for k
    by (rule map_cong) (simp_all add: nth_append)
  note same = this
  show ?thesis
  proof
    fix k
    have "occurrences names (xs @ [x]) k
        = concat (map (\<lambda>i. replicate (count_list (names ((xs @ [x]) ! i)) k) i) [0..<length xs]) @ replicate (count_list (names x) k) (length xs)"
      by (simp add: occurrences_def)
    also have "\<dots> = occurrences names xs k @ replicate (count_list (names x) k) (length xs)" unfolding same occurrences_def ..
    finally show "occurrences names (xs @ [x]) k = occurrences names xs k @ replicate (count_list (names x) k) (length xs)" .
  qed
qed

lemma of_entries_Nil [simp]: "of_entries (\<lambda>k. []) = Map.empty"
  by (simp add: of_entries_def)

lemma push_of_entries: "push_index p i (of_entries f) = of_entries (f(p := f p @ [i]))"
  by (simp add: push_index_def of_entries_def fun_eq_iff)

lemma push_many: "foldl (\<lambda>m p. push_index p i m) (of_entries f) ps = of_entries (\<lambda>k. f k @ replicate (count_list ps k) i)"
proof (induction ps arbitrary: f)
  case (Cons p ps)
  have "(\<lambda>k. (f(p := f p @ [i])) k @ replicate (count_list ps k) i) = (\<lambda>k. f k @ replicate (count_list (p # ps) k) i)"
    by (auto simp: fun_eq_iff)
  with Cons show ?case by (simp add: push_of_entries)
qed simp

lemma index_snoc: "list_index names (xs @ [x]) = foldl (\<lambda>m p. push_index p (length xs) m) (list_index names xs) (names x)"
  by (simp add: list_index_def push_many occurrences_snoc)

lemma enumerate_snoc: "List.enumerate n (xs @ [x]) = List.enumerate n xs @ [(n + length xs, x)]"
  by (simp add: enumerate_append_eq)

lemma index_loop: "foldl (\<lambda>m (i, x). foldl (\<lambda>m p. push_index p i m) m (names x)) Map.empty (List.enumerate 0 xs) = list_index names xs"
proof (induction xs rule: rev_induct)
  case Nil
  then show ?case by (simp add: list_index_def)
next
  case (snoc x xs)
  then show ?case by (simp add: enumerate_snoc index_snoc)
qed

lemma set_occurrences: "set (occurrences names xs k) = {i. i < length xs \<and> k \<in> set (names (xs ! i))}"
  by (auto simp: occurrences_def count_list_0_iff)

lemma sorted_occurrences: "sorted (occurrences names xs k)"
proof (induction xs rule: rev_induct)
  case (snoc x xs)
  then show ?case by (auto simp: occurrences_snoc sorted_append set_occurrences)
qed simp

lemma sort_values_index: "sort_values (list_index names xs) = list_index names xs"
  by (simp add: sort_values_def list_index_def of_entries_def fun_eq_iff sorted_sort_id sorted_occurrences)

lemma index_all_ok: "\<forall>i \<in> set is. i < length xs \<Longrightarrow> index_all xs is = Some (map ((!) xs) is)"
  by (induction "is") auto

lemma map_occurrences: "map ((!) xs) (occurrences names xs k) = concat (map (\<lambda>x. replicate (count_list (names x) k) x) xs)"
proof -
  have "map ((!) xs) (occurrences names xs k) = concat (map (\<lambda>x. replicate (count_list (names x) k) x) (map ((!) xs) [0..<length xs]))"
    by (simp add: occurrences_def map_concat o_def)
  then show ?thesis by (simp add: map_nth)
qed

lemma at_index: "at_indices xs (list_index names xs) k = Some (concat (map (\<lambda>x. replicate (count_list (names x) k) x) xs))"
  by (auto simp: at_indices_def list_index_def of_entries_def index_all_ok set_occurrences simp flip: map_occurrences)

lemma single_name: "concat (map (\<lambda>x. replicate (count_list [f x] k) x) xs) = filter (\<lambda>x. f x = k) xs"
  by (induction xs) auto

section \<open>The invariant\<close>

definition exact_graph :: "knowledge_graph \<Rightarrow> bool" where
  "exact_graph g \<longleftrightarrow> kg_subject_index g = list_index (\<lambda>t. [kt_subject t]) (kg_triples g)
     \<and> kg_object_index g = list_index (\<lambda>t. [kt_object t]) (kg_triples g)
     \<and> kg_participant_index g = list_index hy_participants (kg_hyperedges g)"

definition endpoints :: "kg_triple list \<Rightarrow> rstr set" where
  "endpoints ts = kt_subject ` set ts \<union> kt_object ` set ts"

definition sound_graph :: "knowledge_graph \<Rightarrow> bool" where
  "sound_graph g \<longleftrightarrow> exact_graph g \<and> endpoints (kg_triples g) \<subseteq> dom (kg_entities g)
     \<and> length (kg_triples g) \<le> MAX_TRIPLES \<and> length (kg_hyperedges g) \<le> MAX_HYPEREDGES"

lemma endpoints_append [simp]: "endpoints (ts @ us) = endpoints ts \<union> endpoints us"
  by (auto simp: endpoints_def)

lemma endpoints_single: "endpoints [t] = {kt_subject t, kt_object t}"
  by (auto simp: endpoints_def)

lemma dom_register [simp]: "dom (register_entity k es) = insert k (dom es)"
  by (auto simp: register_entity_def)

lemma rebuild_exact: "rebuild_indices g = g\<lparr>kg_subject_index := list_index (\<lambda>t. [kt_subject t]) (kg_triples g),
    kg_object_index := list_index (\<lambda>t. [kt_object t]) (kg_triples g),
    kg_participant_index := list_index hy_participants (kg_hyperedges g)\<rparr>"
  using index_loop [of "\<lambda>t. [kt_subject t]" "kg_triples g"] index_loop [of "\<lambda>t. [kt_object t]" "kg_triples g"]
    index_loop [of hy_participants "kg_hyperedges g"]
  by (simp add: rebuild_indices_def Let_def sort_values_index)

lemma rebuild_fixes: "exact_graph g \<Longrightarrow> rebuild_indices g = g"
  by (simp add: rebuild_exact exact_graph_def)

lemma graph_exact_add:
  assumes "exact_graph g"
  shows "exact_graph ((index_triple (length (kg_triples g)) t g)\<lparr>kg_triples := kg_triples g @ [t]\<rparr>)"
  using assms by (simp add: exact_graph_def index_triple_def index_snoc)

lemma sound_new: "sound_graph kg_new"
  by (simp add: sound_graph_def exact_graph_def kg_new_def list_index_def endpoints_def)

lemma sound_add_triple: "sound_graph g \<Longrightarrow> sound_graph (fst (add_triple t g))"
  using graph_exact_add [of g t]
  by (auto simp: add_triple_def sound_graph_def index_triple_def endpoints_single)

lemma sound_add_entity: "sound_graph g \<Longrightarrow> sound_graph (add_entity e g)"
  by (auto simp: add_entity_def sound_graph_def exact_graph_def)

subsection \<open>Batches\<close>

lemma index_triple_triples [simp]:
  "index_triple i t (g\<lparr>kg_triples := ts\<rparr>) = (index_triple i t g)\<lparr>kg_triples := ts\<rparr>"
  "kg_triples (index_triple i t g) = kg_triples g"
  by (simp_all add: index_triple_def)

lemma index_loop_triples:
  "foldl (\<lambda>g (i, t). index_triple i t g) (g\<lparr>kg_triples := us\<rparr>) its = (foldl (\<lambda>g (i, t). index_triple i t g) g its)\<lparr>kg_triples := us\<rparr>"
  by (induction its arbitrary: g) auto

lemma batch_loop:
  assumes "length (kg_triples g) + length ts \<le> MAX_TRIPLES"
  shows "io_each add_triple ts g
    = (foldl (\<lambda>g (i, t). index_triple i t g) (g\<lparr>kg_triples := kg_triples g @ ts\<rparr>) (List.enumerate (length (kg_triples g)) ts), Inr ())"
  using assms
proof (induction ts arbitrary: g)
  case (Cons t ts)
  let ?g = "(index_triple (length (kg_triples g)) t g)\<lparr>kg_triples := kg_triples g @ [t]\<rparr>"
  have add: "add_triple t g = (?g, Inr ())" using Cons.prems by (simp add: add_triple_def)
  have "length (kg_triples ?g) + length ts \<le> MAX_TRIPLES" using Cons.prems by simp
  from Cons.IH [OF this] show ?case
    by (simp add: add io_then_def index_loop_triples)
qed simp

lemma io_each_sound: "(\<And>x g. sound_graph g \<Longrightarrow> sound_graph (fst (f x g))) \<Longrightarrow> sound_graph g \<Longrightarrow> sound_graph (fst (io_each f xs g))"
proof (induction xs arbitrary: g)
  case (Cons x xs)
  obtain g' r where step: "f x g = (g', r)" by fastforce
  then have "sound_graph g'" using Cons.prems by (metis fst_conv)
  then show ?case using Cons step by (cases r) (simp_all add: io_then_def)
qed simp

lemma batch_result:
  "add_triples_batch V ts g =
     (if MAX_TRIPLES < length (kg_triples g) + length ts
      then (g, Inl (Internal (lit ''KnowledgeGraph limit exceeded ('' @ show_nat (length (kg_triples g)) @ lit '' + '' @ show_nat (length ts)
              @ lit '' > '' @ show_nat MAX_TRIPLES @ lit '')'')))
      else case res_map (validate_triple V) ts of
        Inl e \<Rightarrow> (g, Inl e) | Inr _ \<Rightarrow> (fst (io_each add_triple ts g :: knowledge_graph \<times> (brain_error + unit)), Inr (length ts)))"
  using batch_loop [of g ts] by (auto simp: add_triples_batch_def split: sum.splits simp del: lit_Cons)

lemma sound_add_batch: "sound_graph g \<Longrightarrow> sound_graph (fst (add_triples_batch V ts g))"
  unfolding batch_result using io_each_sound [of add_triple, OF sound_add_triple]
  by (auto split: sum.splits simp del: lit_Cons)

subsection \<open>Events, removal and distillation\<close>

lemma participants_loop:
  "foldl (index_participant i) g ps = g\<lparr>kg_participant_index := foldl (\<lambda>m p. push_index p i m) (kg_participant_index g) ps,
     kg_entities := foldl (\<lambda>es p. register_entity p es) (kg_entities g) ps\<rparr>"
  by (induction ps arbitrary: g) (simp_all add: index_participant_def)

lemma dom_register_all: "dom es \<subseteq> dom (foldl (\<lambda>es p. register_entity p es) es ps)"
proof (induction ps arbitrary: es)
  case (Cons p ps)
  from Cons [of "register_entity p es"] show ?case by auto
qed simp

lemma sound_add_hyperedge: "sound_graph g \<Longrightarrow> sound_graph (fst (add_hyperedge h g))"
  using subset_trans [OF _ dom_register_all]
  by (simp add: add_hyperedge_def sound_graph_def exact_graph_def participants_loop index_snoc)

lemma sound_rebuild: "sound_graph g \<Longrightarrow> sound_graph (rebuild_indices g)"
  by (simp add: rebuild_fixes sound_graph_def)

lemma sound_remove: "sound_graph g \<Longrightarrow> sound_graph (remove_entity k g)"
  by (auto simp: remove_entity_def rebuild_exact sound_graph_def exact_graph_def endpoints_def intro: le_trans [OF length_filter_le])

lemma sound_distill_each: "sound_graph g \<Longrightarrow> sound_graph (fst (distill_each cs n g))"
proof (induction cs arbitrary: g n)
  case (Cons c cs)
  show ?case
  proof (cases "kg_entities g (concept_id c)")
    case None
    define t e where "t = \<lparr>kt_subject = concept_id c, kt_predicate = lit ''summarizes'', kt_object = c,
               kt_metadata = [lit ''system_generated'' \<mapsto> lit ''true''], kt_sentiment = None, kt_urgency = Finite (f32_round (1 / 10))\<rparr>"
      and "e = \<lparr>kn_id = concept_id c, kn_entity_type = lit ''AbstractConcept'', kn_properties = [lit ''derived_from'' \<mapsto> c]\<rparr>"
    have "sound_graph (fst (add_triple t (add_entity e g)))" using Cons.prems sound_add_triple sound_add_entity by blast
    moreover obtain g' r where step: "add_triple t (add_entity e g) = (g', r)" by fastforce
    ultimately have "sound_graph g'" by simp
    moreover have "distill_each (c # cs) n g = io_then (add_triple t (add_entity e g)) (\<lambda>_ g. distill_each cs (n + 1) g)"
      using None by (simp add: t_def e_def)
    ultimately show ?thesis using step Cons.IH by (cases r) (simp_all add: io_then_def)
  qed (use Cons in simp)
qed simp

lemma sound_distill: "sound_graph g \<Longrightarrow> sound_graph (fst (distill_concepts V g))"
  by (simp add: distill_concepts_def Let_def sound_distill_each)

section \<open>Queries of an exact graph\<close>

lemma queries:
  assumes "exact_graph g"
  shows "query_subject g s = Some (filter (\<lambda>t. kt_subject t = s) (kg_triples g))"
    and "query_object g s = Some (filter (\<lambda>t. kt_object t = s) (kg_triples g))"
    and "query_participant_events g s = Some (concat (map (\<lambda>h. replicate (count_list (hy_participants h) s) h) (kg_hyperedges g)))"
  using assms single_name [of kt_subject s] single_name [of kt_object s]
  by (simp_all add: exact_graph_def query_subject_def query_object_def query_participant_events_def at_index)

lemma no_index_errors: "exact_graph g \<Longrightarrow> check_index_consistency V g = []"
  by (auto simp: check_index_consistency_def exact_graph_def list_index_def of_entries_def set_occurrences index_errors_def split: option.splits)

subsection \<open>Recalling an event\<close>

lemma intersect_sets: "intersect_sets first sets = first \<inter> \<Inter> (set sets)"
  by (induction first sets rule: intersect_sets.induct) (auto simp: Let_def)

lemma participant_sets_index:
  "participant_sets (list_index names xs) ps =
     (if \<forall>p \<in> set ps. occurrences names xs p \<noteq> [] then Some (map (\<lambda>p. {i. i < length xs \<and> p \<in> set (names (xs ! i))}) ps) else None)"
  by (induction ps) (auto simp: list_index_def of_entries_def simp flip: set_occurrences)

lemma filter_positions: "map ((!) xs) (filter (\<lambda>i. P (xs ! i)) [0..<length xs]) = filter P xs"
proof -
  have "filter P xs = filter P (map ((!) xs) [0..<length xs])" by (simp add: map_nth)
  then show ?thesis by (simp add: filter_map o_def)
qed

lemma list_of_positions: "sorted_list_of_set {i. i < n \<and> P i} = filter P [0..<n]"
proof -
  have set: "{i. i < n \<and> P i} = set (filter P [0..<n])" by auto
  show ?thesis unfolding set
    by (simp only: sorted_list_of_set_sort_remdups sorted_sort_id sorted_wrt_filter sorted_upt distinct_remdups_id distinct_filter distinct_upt)
qed

lemma recalled:
  assumes "exact_graph g" and "ps \<noteq> []" and "length ps \<le> 16"
  shows "recall_multi_participant_event g ps = Some (filter (\<lambda>h. set ps \<subseteq> set (hy_participants h)) (kg_hyperedges g))"
proof (cases "\<forall>p \<in> set ps. occurrences hy_participants (kg_hyperedges g) p \<noteq> []")
  case True
  let ?at = "\<lambda>p. {i. i < length (kg_hyperedges g) \<and> p \<in> set (hy_participants (kg_hyperedges g ! i))}"
  obtain q qs where ps: "ps = q # qs" using assms(2) by (cases ps) auto
  have "intersect_sets (?at q) (map ?at qs) = {i. i < length (kg_hyperedges g) \<and> set ps \<subseteq> set (hy_participants (kg_hyperedges g ! i))}"
    by (auto simp: intersect_sets ps)
  then have "sorted_list_of_set (intersect_sets (?at q) (map ?at qs))
      = filter (\<lambda>i. set ps \<subseteq> set (hy_participants (kg_hyperedges g ! i))) [0..<length (kg_hyperedges g)]"
    by (simp only: list_of_positions)
  moreover have "participant_sets (kg_participant_index g) ps = Some (map ?at ps)"
    using True assms(1) by (simp add: participant_sets_index exact_graph_def)
  then have "recall_multi_participant_event g ps = index_all (kg_hyperedges g) (sorted_list_of_set (intersect_sets (?at q) (map ?at qs)))"
    using assms(2,3) by (simp add: recall_multi_participant_event_def ps del: participant_sets.simps)
  ultimately show ?thesis using filter_positions [where P = "\<lambda>h. set ps \<subseteq> set (hy_participants h)"] by (simp add: index_all_ok)
next
  case False
  then obtain p where "p \<in> set ps" "occurrences hy_participants (kg_hyperedges g) p = []" by blast
  then have "\<not> set ps \<subseteq> set (hy_participants h)" if event: "h \<in> set (kg_hyperedges g)" for h
  proof -
    obtain i where "i < length (kg_hyperedges g)" "h = kg_hyperedges g ! i" using event by (auto simp: in_set_conv_nth)
    with \<open>occurrences _ _ p = []\<close> have "p \<notin> set (hy_participants h)"
      using set_occurrences [of hy_participants "kg_hyperedges g" p] by auto
    with \<open>p \<in> set ps\<close> show ?thesis by blast
  qed
  then have "filter (\<lambda>h. set ps \<subseteq> set (hy_participants h)) (kg_hyperedges g) = []" by (simp add: filter_empty_conv)
  moreover have "participant_sets (kg_participant_index g) ps = None"
    using False assms(1) by (simp add: participant_sets_index exact_graph_def)
  then have "recall_multi_participant_event g ps = Some []" by (simp add: recall_multi_participant_event_def)
  ultimately show ?thesis by simp
qed

subsection \<open>Two hops\<close>

definition hops_from :: "kg_triple list \<Rightarrow> kg_triple list \<Rightarrow> hop list" where
  "hops_from ts firsts = concat (map (\<lambda>t1. map (hop_of t1) (filter (\<lambda>t. kt_subject t = kt_object t1) ts)) firsts)"

lemma second_hops_take:
  assumes "length results \<le> n"
  shows "second_hops n t1 ts results = (take n (results @ map (hop_of t1) ts), n < length results + length ts)"
  using assms
proof (induction ts arbitrary: results)
  case (Cons t ts)
  show ?case
  proof (cases "length results = n")
    case False
    with Cons.prems Cons.IH [of "results @ [hop_of t1 t]"] show ?thesis by simp
  qed simp
qed simp

lemma first_hops_take:
  assumes "exact_graph g" and "length results \<le> n"
  shows "first_hops g f n ts results
    = Some (take n (results @ hops_from (kg_triples g) (filter (\<lambda>t. f = None \<or> f = Some (kt_predicate t)) ts)))"
  using assms(2)
proof (induction ts arbitrary: results)
  case (Cons t1 ts)
  let ?seconds = "filter (\<lambda>t. kt_subject t = kt_object t1) (kg_triples g)"
  show ?case
  proof (cases "f = None \<or> f = Some (kt_predicate t1)")
    case True
    let ?rs = "results @ map (hop_of t1) ?seconds"
    have "(case f of Some p \<Rightarrow> kt_predicate t1 \<noteq> p | None \<Rightarrow> False) = False" using True by (auto split: option.splits)
    then have step: "first_hops g f n (t1 # ts) results = (if n < length ?rs then Some (take n ?rs) else first_hops g f n ts ?rs)"
      by (simp add: queries(1) [OF assms(1)] second_hops_take [OF Cons.prems])
    show ?thesis
    proof (cases "n < length ?rs")
      case True
      with step \<open>f = None \<or> _\<close> show ?thesis by (simp add: hops_from_def)
    next
      case False
      with Cons.IH [of ?rs] step \<open>f = None \<or> _\<close> show ?thesis by (simp add: hops_from_def)
    qed
  next
    case False
    then show ?thesis using Cons by (auto split: option.splits)
  qed
qed (simp add: hops_from_def)

lemma all_hops_are: "exact_graph g \<Longrightarrow> all_hops g ts results = Some (results @ hops_from (kg_triples g) ts)"
  by (induction ts arbitrary: results) (simp_all add: queries hops_from_def)

lemma hops_filter:
  "hops_from ts (filter (\<lambda>t. P (kt_predicate t)) us) = filter (\<lambda>h. P (fst h)) (hops_from ts us)"
proof -
  have "filter (\<lambda>h. P (fst h)) (map (hop_of t1) xs) = (if P (kt_predicate t1) then map (hop_of t1) xs else [])" for t1 xs
    by (induction xs) (auto simp: hop_of_def)
  then show ?thesis by (induction us) (simp_all add: hops_from_def)
qed

section \<open>Sequences of operations\<close>

datatype graph_op = AddTriple kg_triple | AddBatch "kg_triple list" | AddEntity kg_entity | AddEvent hyperedge
  | RemoveEntity rstr | Rebuild | Distill

text \<open>A failed operation leaves the graph it had reached.\<close>
fun apply_graph_op :: "graph_env \<Rightarrow> knowledge_graph \<Rightarrow> graph_op \<Rightarrow> knowledge_graph" where
  "apply_graph_op V g (AddTriple t) = fst (add_triple t g)"
| "apply_graph_op V g (AddBatch ts) = fst (add_triples_batch V ts g)"
| "apply_graph_op V g (AddEntity e) = add_entity e g"
| "apply_graph_op V g (AddEvent h) = fst (add_hyperedge h g)"
| "apply_graph_op V g (RemoveEntity k) = remove_entity k g"
| "apply_graph_op V g Rebuild = rebuild_indices g"
| "apply_graph_op V g Distill = fst (distill_concepts V g)"

definition graph_after :: "graph_env \<Rightarrow> graph_op list \<Rightarrow> knowledge_graph" where
  "graph_after V ops = foldl (apply_graph_op V) kg_new ops"

lemma sound_after: "sound_graph (graph_after V ops)"
proof -
  have "sound_graph g \<Longrightarrow> sound_graph (foldl (apply_graph_op V) g ops)" for g
  proof (induction ops arbitrary: g)
    case (Cons op ops)
    have "sound_graph (apply_graph_op V g op)"
      using Cons.prems by (cases op) (simp_all add: sound_add_triple sound_add_batch sound_add_entity sound_add_hyperedge
          sound_remove sound_rebuild sound_distill)
    with Cons.IH show ?case by simp
  qed simp
  then show ?thesis using sound_new by (simp add: graph_after_def)
qed

lemma exact_after: "exact_graph (graph_after V ops)"
  using sound_after by (simp add: sound_graph_def)

section \<open>Properties\<close>

text \<open>
  C17. The indexes of the graph are exact. After any sequence of additions, batches, events,
  removals and distillations, failed ones included, rebuilding the indexes changes nothing, the
  integrity check finds nothing, no query panics, queries are the filters they should be (an
  event once for every mention of the participant), every triple joins registered entities and
  the limits hold.
\<close>
theorem graph_stays_indexed:
  "let g = graph_after V ops in
     rebuild_indices g = g \<and> check_index_consistency V g = []
     \<and> query_subject g k = Some (filter (\<lambda>t. kt_subject t = k) (kg_triples g))
     \<and> query_object g k = Some (filter (\<lambda>t. kt_object t = k) (kg_triples g))
     \<and> query_participant_events g k = Some (concat (map (\<lambda>h. replicate (count_list (hy_participants h) k) h) (kg_hyperedges g)))
     \<and> kt_subject ` set (kg_triples g) \<union> kt_object ` set (kg_triples g) \<subseteq> dom (kg_entities g)
     \<and> length (kg_triples g) \<le> MAX_TRIPLES \<and> length (kg_hyperedges g) \<le> MAX_HYPEREDGES"
  using sound_after [of V ops]
  by (simp add: sound_graph_def endpoints_def rebuild_fixes no_index_errors queries Let_def)

text \<open>
  Recalling events. For one to sixteen names, the events recalled are those in which all of
  them take part, in the order they were added; otherwise there is none.
\<close>
theorem recall_finds_common_events:
  "recall_multi_participant_event (graph_after V ops) ps
     = Some (if ps = [] \<or> 16 < length ps then []
             else filter (\<lambda>h. set ps \<subseteq> set (hy_participants h)) (kg_hyperedges (graph_after V ops)))"
proof (cases "ps = [] \<or> 16 < length ps")
  case True
  then show ?thesis by (auto simp: recall_multi_participant_event_def)
next
  case False
  then show ?thesis using recalled [OF exact_after, of ps V ops] by simp
qed

text \<open>
  The limited search of two hops. It returns the first results of the unlimited one that have
  the wanted first predicate, at most as many as asked for.
\<close>
theorem limited_hops_are_a_prefix:
  "\<exists>hops. query_2hop (graph_after V ops) start = Some hops
     \<and> query_2hop_filtered (graph_after V ops) start p1_filter max_results
         = Some (take max_results (filter (\<lambda>h. p1_filter = None \<or> p1_filter = Some (fst h)) hops))"
  by (simp add: query_2hop_def query_2hop_filtered_def queries [OF exact_after] all_hops_are [OF exact_after]
      first_hops_take [OF exact_after] del: filter_filter flip: hops_filter [where P = "\<lambda>p. p1_filter = None \<or> p1_filter = Some p"])


text \<open>
  A graph that was written is read back. The text leaves the indexes out, and reading
  rebuilds exactly the ones the graph had.
\<close>
theorem saved_graph_is_restored:
  assumes "json_codec C" and "graph_to_json C (graph_after V ops) = Inr json"
  shows "graph_from_json C json = Inr (graph_after V ops)"
proof -
  have "from_slice C json = Inr (kg_triples (graph_after V ops), kg_entities (graph_after V ops), kg_hyperedges (graph_after V ops))"
    using assms by (simp add: graph_to_json_def json_codec.roundtrip)
  then have "graph_from_json C json = Inr (rebuild_indices (graph_after V ops))"
    by (simp add: graph_from_json_def kg_new_def rebuild_exact)
  then show ?thesis by (simp add: rebuild_fixes [OF exact_after])
qed

definition sample_event_ops :: "graph_op list" where
  "sample_event_ops = [AddEvent \<lparr>hy_id = [], hy_label = lit ''met'', hy_participants = [lit ''a'', lit ''b''], hy_properties = Map.empty,
     hy_created_at_ms = 0, hy_sentiment = None, hy_urgency = Finite 0\<rparr>, RemoveEntity (lit ''a'')]"

definition sample_graph_env :: graph_env where
  "sample_graph_env = \<lparr>gv_order = (\<lambda>_. []), gv_lower = (\<lambda>s. s), gv_show_f32 = (\<lambda>_. lit ''0''), gv_parse_f32 = (\<lambda>_. Some (Finite 0))\<rparr>"

theorem saved_graph_is_restored_witness:
  "let g = graph_after sample_graph_env sample_event_ops
   in graph_from_json mem_json (kg_triples g, kg_entities g, kg_hyperedges g) = (Inr g :: unit + knowledge_graph)"
proof -
  have "json_codec (mem_json :: (unit, graph_data, graph_data) codec)" by unfold_locales (simp add: mem_json_def)
  from saved_graph_is_restored [OF this, of sample_graph_env sample_event_ops] show ?thesis
    by (simp add: graph_to_json_def mem_json_def Let_def)
qed

text \<open>Removing an entity leaves the events it took part in, which then name an entity that is not there.\<close>
theorem removed_entity_stays_in_events:
  "get_entity (remove_entity k g) k = None \<and> kg_hyperedges (remove_entity k g) = kg_hyperedges g"
  by (simp add: remove_entity_def rebuild_exact get_entity_def)

text \<open>
  When the graph is full, a distillation registers the concept before the triple is refused; the
  next distillation takes the concept for done.
\<close>
theorem failed_distillation_is_not_repeated:
  assumes "length (kg_triples g) = MAX_TRIPLES" and "kg_entities g (concept_id c) = None"
  shows "\<exists>g' e. distill_each (c # cs) n g = (g', Inl e) \<and> kg_triples g' = kg_triples g
    \<and> (\<forall>m cs'. distill_each (c # cs') m g' = distill_each cs' m g')"
  using assms by (simp add: io_then_def add_triple_def add_entity_def)

end
