(* ===== verification/Knowledge_Store.thy ===== *)
theory Knowledge_Store
  imports Knowledge_Index Engram_Storage
begin

text \<open>
  The persistent knowledge graph (\<^verbatim>\<open>PersistentKnowledgeGraph\<close> of \<^verbatim>\<open>knowledge/src/kg.rs\<close>) over
  the storage trait of the memory engine. Sentiment and urgency of a triple travel inside its
  metadata. Over any storage that keeps the contract \<open>triple_store\<close> the graph is a map from
  names to the last triple stored for them.
\<close>

section \<open>Operations\<close>

record ('e, 's) kg_store =
  ks_storage :: "('e, 's) storage"
  ks_config :: kg_config
  ks_env :: graph_env
  ks_metadata :: "(rstr, rstr \<rightharpoonup> rstr, bytes) codec"
  ks_graph :: "(rstr, graph_data, rstr) codec"
  ks_error :: "'e \<Rightarrow> rstr"

definition map_err :: "('a \<Rightarrow> 'e) \<Rightarrow> 'a + 'b \<Rightarrow> 'e + 'b" where
  "map_err f r = (case r of Inl e \<Rightarrow> Inl (f e) | Inr x \<Rightarrow> Inr x)"

definition insert_absent :: "rstr \<Rightarrow> rstr \<Rightarrow> (rstr \<rightharpoonup> rstr) \<Rightarrow> rstr \<rightharpoonup> rstr" where
  "insert_absent k v m = (if m k = None then m(k \<mapsto> v) else m)"

definition stored_metadata :: "('e, 's) kg_store \<Rightarrow> rstr \<Rightarrow> kg_triple \<Rightarrow> rstr \<rightharpoonup> rstr" where
  "stored_metadata K now t =
     (let m = insert_absent (lit ''source'') (kc_source_tag (ks_config K)) (kt_metadata t);
          m = insert_absent (lit ''timestamp'') now m;
          m = (case kt_sentiment t of Some s \<Rightarrow> m(lit ''_sentiment'' \<mapsto> s) | None \<Rightarrow> m)
      in m(lit ''_urgency'' \<mapsto> gv_show_f32 (ks_env K) (kt_urgency t)))"

definition pk_add_triple :: "('e, 's) kg_store \<Rightarrow> rstr \<Rightarrow> kg_triple \<Rightarrow> 's \<Rightarrow> brain_error + 's" where
  "pk_add_triple K now t st =
     res_bind (validate_triple (ks_env K) t) (\<lambda>_.
     res_bind (map_err (\<lambda>e. Internal (lit ''Metadata Serialization failed: '' @ e)) (to_vec (ks_metadata K) (stored_metadata K now t))) (\<lambda>meta.
     map_err (\<lambda>e. Internal (ks_error K e)) (put_triple (ks_storage K) st (kt_subject t) (kt_predicate t) (kt_object t) meta)))"

definition batch_entry :: "('e, 's) kg_store \<Rightarrow> rstr \<Rightarrow> kg_triple \<Rightarrow> brain_error + triple" where
  "batch_entry K now t =
     res_bind (validate_triple (ks_env K) t) (\<lambda>_.
     res_bind (map_err Internal (to_vec (ks_metadata K) (stored_metadata K now t))) (\<lambda>meta.
     Inr (kt_subject t, kt_predicate t, kt_object t, meta)))"

definition pk_add_triples_batch :: "('e, 's) kg_store \<Rightarrow> rstr \<Rightarrow> kg_triple list \<Rightarrow> 's \<Rightarrow> brain_error + 's \<times> nat" where
  "pk_add_triples_batch K now ts st =
     res_bind (res_map (batch_entry K now) ts) (\<lambda>batch.
     res_bind (map_err (\<lambda>e. Internal (ks_error K e)) (put_triples_batch (ks_storage K) st batch)) (\<lambda>st. Inr (st, length batch)))"

definition triple_of_row :: "('e, 's) kg_store \<Rightarrow> triple \<Rightarrow> kg_triple" where
  "triple_of_row K row = (case row of (s, p, o', meta) \<Rightarrow>
     let metadata = (case from_slice (ks_metadata K) meta of Inr m \<Rightarrow> m | Inl _ \<Rightarrow> Map.empty)
     in \<lparr>kt_subject = s, kt_predicate = p, kt_object = o', kt_metadata = metadata, kt_sentiment = metadata (lit ''_sentiment''),
         kt_urgency = (case metadata (lit ''_urgency'') of
             Some u \<Rightarrow> (case gv_parse_f32 (ks_env K) u of Some x \<Rightarrow> x | None \<Rightarrow> Finite 0) | None \<Rightarrow> Finite 0)\<rparr>)"

definition pk_query_subject :: "('e, 's) kg_store \<Rightarrow> 's \<Rightarrow> rstr \<Rightarrow> brain_error + kg_triple list" where
  "pk_query_subject K st s =
     res_bind (map_err (\<lambda>e. Internal (ks_error K e)) (query_triples (ks_storage K) st (Some s) None None)) (\<lambda>rows.
     Inr (map (triple_of_row K) rows))"

fun pk_second_hops :: "('e, 's) kg_store \<Rightarrow> 's \<Rightarrow> kg_triple list \<Rightarrow> hop list \<Rightarrow> brain_error + hop list" where
  "pk_second_hops K st [] results = Inr results"
| "pk_second_hops K st (t1 # ts) results =
     res_bind (pk_query_subject K st (kt_object t1)) (\<lambda>hop2. pk_second_hops K st ts (results @ map (hop_of t1) hop2))"

definition pk_query_2hop :: "('e, 's) kg_store \<Rightarrow> 's \<Rightarrow> rstr \<Rightarrow> brain_error + hop list" where
  "pk_query_2hop K st start = res_bind (pk_query_subject K st start) (\<lambda>hop1. pk_second_hops K st hop1 [])"

definition migrate_from_json :: "('e, 's) kg_store \<Rightarrow> rstr \<Rightarrow> rstr \<Rightarrow> 's \<Rightarrow> brain_error + 's \<times> nat" where
  "migrate_from_json K now old_json st =
     res_bind (map_err (\<lambda>e. Internal (lit ''Old KG Deserialization failed: '' @ e)) (from_slice (ks_graph K) old_json)) (\<lambda>(ts, _, _).
     pk_add_triples_batch K now ts st)"

section \<open>What is read back\<close>

lemma map_err_Inr [simp, res_simps]: "map_err f r = Inr x \<longleftrightarrow> r = Inr x"
  by (cases r) (simp_all add: map_err_def)

definition stored_form :: "('e, 's) kg_store \<Rightarrow> rstr \<Rightarrow> kg_triple \<Rightarrow> kg_triple" where
  "stored_form K now t = t\<lparr>kt_metadata := stored_metadata K now t,
     kt_sentiment := (case kt_sentiment t of Some s \<Rightarrow> Some s | None \<Rightarrow> kt_metadata t (lit ''_sentiment''))\<rparr>"

lemma stored_sentiment:
  "stored_metadata K now t (lit ''_sentiment'') = (case kt_sentiment t of Some s \<Rightarrow> Some s | None \<Rightarrow> kt_metadata t (lit ''_sentiment''))"
  "stored_metadata K now t (lit ''_urgency'') = Some (gv_show_f32 (ks_env K) (kt_urgency t))"
  by (simp_all add: stored_metadata_def insert_absent_def Let_def split: option.split)

lemma triple_of_stored:
  assumes "json_codec (ks_metadata K)" and "to_vec (ks_metadata K) (stored_metadata K now t) = Inr meta"
    and "gv_parse_f32 (ks_env K) (gv_show_f32 (ks_env K) (kt_urgency t)) = Some (kt_urgency t)"
  shows "triple_of_row K (kt_subject t, kt_predicate t, kt_object t, meta) = stored_form K now t"
  using json_codec.roundtrip [OF assms(1,2)] assms(3)
  by (simp add: triple_of_row_def stored_form_def stored_sentiment Let_def del: lit_Cons)

section \<open>The graph as a map\<close>

datatype pk_op = StoreTriple rstr kg_triple | StoreBatch rstr "kg_triple list"

fun pk_run :: "('e, 's) kg_store \<Rightarrow> pk_op list \<Rightarrow> 's \<Rightarrow> brain_error + 's" where
  "pk_run K [] st = Inr st"
| "pk_run K (StoreTriple now t # ops) st = res_bind (pk_add_triple K now t st) (pk_run K ops)"
| "pk_run K (StoreBatch now ts # ops) st = res_bind (pk_add_triples_batch K now ts st) (\<lambda>(st, _). pk_run K ops st)"

fun pk_triples :: "pk_op list \<Rightarrow> (rstr \<times> kg_triple) list" where
  "pk_triples [] = []"
| "pk_triples (StoreTriple now t # ops) = (now, t) # pk_triples ops"
| "pk_triples (StoreBatch now ts # ops) = map (Pair now) ts @ pk_triples ops"

definition names_of :: "kg_triple \<Rightarrow> rstr \<times> rstr \<times> rstr" where
  "names_of t = (kt_subject t, kt_predicate t, kt_object t)"

type_synonym kg_map = "rstr \<times> rstr \<times> rstr \<rightharpoonup> kg_triple"

definition put_latest :: "('e, 's) kg_store \<Rightarrow> kg_map \<Rightarrow> rstr \<times> kg_triple \<Rightarrow> kg_map" where
  "put_latest K m nt = m(names_of (snd nt) \<mapsto> stored_form K (fst nt) (snd nt))"

text \<open>The last triple stored under each three names, in the form it is read back.\<close>
definition latest :: "('e, 's) kg_store \<Rightarrow> (rstr \<times> kg_triple) list \<Rightarrow> kg_map" where
  "latest K nts = foldl (put_latest K) Map.empty nts"

text \<open>The rows of the view decode to the triples of the map.\<close>
definition shows_map :: "('e, 's) kg_store \<Rightarrow> triple_map \<Rightarrow> kg_map \<Rightarrow> bool" where
  "shows_map K v m \<longleftrightarrow> (\<forall>x. m x = (case v x of None \<Rightarrow> None
     | Some meta \<Rightarrow> (case x of (s, p, o') \<Rightarrow> Some (triple_of_row K (s, p, o', meta)))))"

text \<open>What is assumed of a triple that is stored: the names suit the storage, the number is read back.\<close>
definition storable :: "('e, 's) kg_store \<Rightarrow> (rstr \<Rightarrow> bool) \<Rightarrow> kg_triple \<Rightarrow> bool" where
  "storable K ok t \<longleftrightarrow> ok (kt_subject t) \<and> ok (kt_predicate t) \<and> ok (kt_object t)
     \<and> gv_parse_f32 (ks_env K) (gv_show_f32 (ks_env K) (kt_urgency t)) = Some (kt_urgency t)"

lemma shows_map_put:
  assumes "json_codec (ks_metadata K)" and "storable K ok t" and "to_vec (ks_metadata K) (stored_metadata K now t) = Inr meta"
    and "shows_map K v m"
  shows "shows_map K (put_spec v (kt_subject t, kt_predicate t, kt_object t, meta)) (put_latest K m (now, t))"
  using triple_of_stored [OF assms(1,3)] assms(2,4)
  by (auto simp: shows_map_def put_spec_def names_of_def storable_def put_latest_def)

lemma batch_entry_Inr: "batch_entry K now t = Inr row \<longleftrightarrow> validate_triple (ks_env K) t = Inr ()
    \<and> (\<exists>meta. to_vec (ks_metadata K) (stored_metadata K now t) = Inr meta \<and> row = (kt_subject t, kt_predicate t, kt_object t, meta))"
  by (auto simp: batch_entry_def res_bind_eq_Inr)

lemma batch_rows:
  assumes "res_map (batch_entry K now) ts = Inr rows" and "json_codec (ks_metadata K)" and "\<forall>t \<in> set ts. storable K ok t"
    and "shows_map K v m"
  shows "shows_map K (foldl put_spec v rows) (foldl (put_latest K) m (map (Pair now) ts))
    \<and> op_ok ok (PutBatch rows)"
  using assms(1,3,4)
proof (induction ts arbitrary: rows v m)
  case (Cons t ts)
  from Cons.prems(1) obtain meta rest where
    meta: "to_vec (ks_metadata K) (stored_metadata K now t) = Inr meta" and rest: "res_map (batch_entry K now) ts = Inr rest"
    and rows: "rows = (kt_subject t, kt_predicate t, kt_object t, meta) # rest"
    by (auto simp: batch_entry_Inr res_bind_eq_Inr)
  have t: "storable K ok t" using Cons.prems(2) by simp
  from Cons.IH [OF rest _ shows_map_put [OF assms(2) t meta Cons.prems(3)]] Cons.prems(2) t
  show ?case by (auto simp: rows storable_def)
qed simp

context triple_store
begin

lemma pk_run_shows:
  assumes "ks_storage K = S" and "json_codec (ks_metadata K)"
  shows "pk_run K ops st = Inr st' \<Longrightarrow> \<forall>(now, t) \<in> set (pk_triples ops). storable K ok t \<Longrightarrow> sane st \<Longrightarrow> shows_map K (view st) m
    \<Longrightarrow> sane st' \<and> shows_map K (view st') (foldl (put_latest K) m (pk_triples ops))"
proof (induction ops arbitrary: st m)
  case (Cons op ops)
  show ?case
  proof (cases op)
    case (StoreTriple now t)
    with Cons.prems(1) obtain meta st1 where
      step: "to_vec (ks_metadata K) (stored_metadata K now t) = Inr meta"
        "put_triple S st (kt_subject t) (kt_predicate t) (kt_object t) meta = Inr st1" "pk_run K ops st1 = Inr st'"
      by (auto simp: pk_add_triple_def res_bind_eq_Inr assms(1))
    have t: "storable K ok t" using Cons.prems(2) StoreTriple by simp
    then have "sane st1" "view st1 = put_spec (view st) (kt_subject t, kt_predicate t, kt_object t, meta)"
      using put_ok [OF Cons.prems(3) _ _ _ step(2)] by (auto simp: storable_def)
    moreover have "\<forall>(now, t) \<in> set (pk_triples ops). storable K ok t" using Cons.prems(2) StoreTriple by simp
    moreover note shows_map_put [OF assms(2) t step(1) Cons.prems(4)]
    ultimately show ?thesis using Cons.IH [OF step(3), of "put_latest K m (now, t)"] StoreTriple by simp
  next
    case (StoreBatch now ts)
    with Cons.prems(1) obtain rows st1 where
      step: "res_map (batch_entry K now) ts = Inr rows" "put_triples_batch S st rows = Inr st1" "pk_run K ops st1 = Inr st'"
      by (auto simp: pk_add_triples_batch_def res_bind_eq_Inr assms(1))
    have "\<forall>t \<in> set ts. storable K ok t" using Cons.prems(2) StoreBatch by auto
    note rows = batch_rows [OF step(1) assms(2) this Cons.prems(4)]
    then have "sane st1" "view st1 = foldl put_spec (view st) rows"
      using batch_ok [OF Cons.prems(3) _ step(2)] by auto
    moreover have "\<forall>(now, t) \<in> set (pk_triples ops). storable K ok t" using Cons.prems(2) StoreBatch by simp
    ultimately show ?thesis using Cons.IH [OF step(3), of "foldl (put_latest K) m (map (Pair now) ts)"] rows StoreBatch by simp
  qed
qed simp

lemma pk_query_shows:
  assumes "ks_storage K = S" and "pk_query_subject K st s = Inr us" and "sane st" and "shows_map K (view st) m"
  shows "set us = {t. \<exists>p o'. m (s, p, o') = Some t} \<and> distinct us"
proof -
  obtain rows where rows: "query_triples S st (Some s) None None = Inr rows" and us: "us = map (triple_of_row K) rows"
    using assms(1,2) by (auto simp: pk_query_subject_def res_bind_eq_Inr)
  have q: "distinct rows" "(a, p, o', meta) \<in> set rows \<longleftrightarrow> view st (a, p, o') = Some meta \<and> a = s" for a p o' meta
    using query_ok [OF assms(3) rows] by (auto simp: wanted_def)
  have names: "names_of (triple_of_row K (a, p, o', meta)) = (a, p, o')" for a p o' meta
    by (simp add: triple_of_row_def names_of_def Let_def)
  have "inj_on (triple_of_row K) (set rows)"
  proof (rule inj_onI)
    fix x y
    assume "x \<in> set rows" "y \<in> set rows" and eq: "triple_of_row K x = triple_of_row K y"
    moreover obtain a p o' meta b q' r meta' where xy: "x = (a, p, o', meta)" "y = (b, q', r, meta')" by (metis prod_cases4)
    moreover have "(a, p, o') = (b, q', r)" using names eq xy by metis
    ultimately show "x = y" using q(2) by auto
  qed
  then have "distinct us" using q(1) by (simp add: us distinct_map)
  moreover have "t \<in> set us \<longleftrightarrow> (\<exists>p o'. m (s, p, o') = Some t)" for t
  proof
    assume "t \<in> set us"
    then obtain a p o' meta where t: "t = triple_of_row K (a, p, o', meta)" "(a, p, o', meta) \<in> set rows" by (auto simp: us)
    then have "view st (s, p, o') = Some meta" "a = s" using q(2) by auto
    with t(1) assms(4) have "m (s, p, o') = Some t" unfolding shows_map_def by simp
    then show "\<exists>p o'. m (s, p, o') = Some t" by blast
  next
    assume "\<exists>p o'. m (s, p, o') = Some t"
    then obtain p o' where "m (s, p, o') = Some t" by blast
    with assms(4) obtain meta where "view st (s, p, o') = Some meta" "t = triple_of_row K (s, p, o', meta)"
      by (auto simp: shows_map_def split: option.splits)
    with q(2) show "t \<in> set us" unfolding us by force
  qed
  ultimately show ?thesis by blast
qed

end

section \<open>Properties\<close>


definition sample_kg_triple :: kg_triple where
  "sample_kg_triple = \<lparr>kt_subject = lit ''a'', kt_predicate = lit ''knows'', kt_object = lit ''b'', kt_metadata = Map.empty,
     kt_sentiment = Some (lit ''joy''), kt_urgency = Finite 0\<rparr>"

definition sample_metadata :: "rstr \<rightharpoonup> rstr" where
  "sample_metadata = [lit ''source'' \<mapsto> lit ''jarvis-core'', lit ''timestamp'' \<mapsto> lit ''7'', lit ''_sentiment'' \<mapsto> lit ''joy'',
     lit ''_urgency'' \<mapsto> lit ''0'']"

text \<open>A codec of one value; other values fail to encode.\<close>
definition sample_kg_store :: "(rstr, bytes mem_db \<times> rstr mem_db) kg_store" where
  "sample_kg_store = \<lparr>ks_storage = engram_kv sample_engram, ks_config = default_kg_config, ks_env = sample_graph_env,
     ks_metadata = \<lparr>to_vec = (\<lambda>m. if m = sample_metadata then Inr [0] else Inl (lit ''other'')), from_slice = (\<lambda>_. Inr sample_metadata)\<rparr>,
     ks_graph = \<lparr>to_vec = (\<lambda>_. Inl []), from_slice = (\<lambda>_. Inl [])\<rparr>, ks_error = (\<lambda>e. e)\<rparr>"

lemma sample_kg_fields:
  "ks_storage sample_kg_store = engram_kv sample_engram" "json_codec (ks_metadata sample_kg_store)"
  "storable sample_kg_store plain_name sample_kg_triple"
  "stored_metadata sample_kg_store (lit ''7'') sample_kg_triple = sample_metadata"
  by (simp_all add: sample_kg_store_def json_codec_def storable_def sample_kg_triple_def sample_graph_env_def plain_name_def SEPARATOR_def
      stored_metadata_def insert_absent_def default_kg_config_def sample_metadata_def)

lemma sample_kg_store_runs:
  "\<exists>d' us. pk_run sample_kg_store [StoreTriple (lit ''7'') sample_kg_triple] (\<lambda>_. [], \<lambda>_. []) = Inr d'
     \<and> pk_query_subject sample_kg_store d' (lit ''a'') = Inr us"
proof -
  have "validate_triple (ks_env sample_kg_store) sample_kg_triple = Inr ()"
    by (simp add: validate_triple_def sample_kg_store_def sample_kg_triple_def sample_graph_env_def has_restricted_def restricted_chars_def
        utf8_len_def utf8_width_def trim_def trim_start_def trim_end_def is_ws_def)
  moreover have "to_vec (ks_metadata sample_kg_store) sample_metadata = Inr [0]" by (simp add: sample_kg_store_def)
  moreover obtain d' where "put_triple (engram_kv sample_engram) (\<lambda>_. [], \<lambda>_. []) (kt_subject sample_kg_triple)
      (kt_predicate sample_kg_triple) (kt_object sample_kg_triple) [0] = Inr d'"
    by (simp add: engram_kv_def kv_put_triple_def kg_insert_def sample_engram_def mem_ranges_sel)
  moreover obtain us where "pk_query_subject sample_kg_store d' (lit ''a'') = Inr us"
    by (simp add: pk_query_subject_def sample_kg_fields(1) engram_kv_def kv_query_triples_def query_strategy_def sample_engram_def
        mem_ranges_sel map_err_def)
  ultimately show ?thesis by (auto simp: pk_add_triple_def sample_kg_fields(1,4) map_err_def simp del: lit_Cons)
qed


end
