(* ===== verification/Relation_Traversal.thy ===== *)
theory Relation_Traversal
  imports Float32 "HOL-Library.FSet"
begin

text \<open>
  Facts with relations and the walk over related facts (\<^verbatim>\<open>memory-core/src/knowledge.rs\<close>). The
  walk is a breadth-first search with limits on depth, visited nodes and edges; its loop is a
  recursive function with a termination proof.
\<close>

section \<open>Facts\<close>

definition RELATION_QUERY_DEFAULT_MAX_DEPTH :: nat where "RELATION_QUERY_DEFAULT_MAX_DEPTH = 2"
definition RELATION_QUERY_HARD_CAP_DEPTH :: nat where "RELATION_QUERY_HARD_CAP_DEPTH = 3"
definition RELATION_QUERY_DEFAULT_MAX_VISITED_NODES :: nat where "RELATION_QUERY_DEFAULT_MAX_VISITED_NODES = 64"
definition RELATION_QUERY_DEFAULT_MAX_RETURNED_EDGES :: nat where "RELATION_QUERY_DEFAULT_MAX_RETURNED_EDGES = 128"

datatype fact_status = PendingFact | VerifiedFact | PendingReview | ArchivedFact

definition default_fact_status :: fact_status where "default_fact_status = PendingFact"

datatype fact_protection = NormalFact | Pinned | Protected | CoreIdentity

definition default_fact_protection :: fact_protection where "default_fact_protection = NormalFact"

record relation =
  rl_predicate :: rstr
  rl_target_id :: rstr
  rl_strength :: f32

record fact =
  fc_id :: rstr
  fc_category :: rstr
  fc_content :: rstr
  fc_importance :: f32
  fc_created_at :: time
  fc_updated_at :: time
  fc_verified :: bool
  fc_source :: "rstr option"
  fc_confidence :: f32
  fc_relations :: "relation list"
  fc_semantic_hash :: "rstr option"
  fc_status :: fact_status
  fc_protection :: fact_protection

record knowledge_document =
  kd_id :: rstr
  kd_title :: rstr
  kd_content :: rstr
  kd_summary :: "rstr option"
  kd_collection :: "rstr option"
  kd_path :: "rstr option"
  kd_metadata :: "rstr \<rightharpoonup> rstr"
  kd_score :: f32

definition fact_new :: "rstr \<Rightarrow> time \<Rightarrow> rstr \<Rightarrow> rstr \<Rightarrow> fact" where
  "fact_new fresh_id now content category = \<lparr>fc_id = fresh_id, fc_category = category, fc_content = content,
     fc_importance = Finite (1 / 2), fc_created_at = now, fc_updated_at = now, fc_verified = False, fc_source = None,
     fc_confidence = Finite 1, fc_relations = [], fc_semantic_hash = None, fc_status = PendingFact, fc_protection = NormalFact\<rparr>"

section \<open>The walk\<close>

record relation_query_budget =
  rb_max_depth :: nat
  rb_max_visited_nodes :: nat
  rb_max_returned_edges :: nat

definition for_requested_depth :: "nat \<Rightarrow> relation_query_budget" where
  "for_requested_depth depth =
     \<lparr>rb_max_depth = (if depth = 0 then 0 else min depth RELATION_QUERY_HARD_CAP_DEPTH),
      rb_max_visited_nodes = RELATION_QUERY_DEFAULT_MAX_VISITED_NODES,
      rb_max_returned_edges = RELATION_QUERY_DEFAULT_MAX_RETURNED_EDGES\<rparr>"

record relation_traversal_report =
  rr_requested_depth :: nat
  rr_effective_max_depth :: nat
  rr_visited_nodes :: nat
  rr_traversed_edges :: nat
  rr_returned_facts :: nat
  rr_cycle_safe :: bool
  rr_depth_hard_capped :: bool
  rr_visited_budget_exceeded :: bool
  rr_edge_budget_exceeded :: bool
  rr_truncated :: bool
  rr_truncation_reason :: "rstr option"

fun show_bool :: "bool \<Rightarrow> rstr" where
  "show_bool True = lit ''true''"
| "show_bool False = lit ''false''"

definition relation_key :: "string \<Rightarrow> rstr" where
  "relation_key s = lit ''brain.memory.relation.last_'' @ lit s"

definition metadata_entries :: "relation_traversal_report \<Rightarrow> rstr \<Rightarrow> (rstr \<times> rstr) list" where
  "metadata_entries r root_fact_id =
     [(relation_key ''root_fact_id'', root_fact_id),
      (relation_key ''requested_depth'', show_nat (rr_requested_depth r)),
      (relation_key ''effective_max_depth'', show_nat (rr_effective_max_depth r)),
      (relation_key ''visited_nodes'', show_nat (rr_visited_nodes r)),
      (relation_key ''traversed_edges'', show_nat (rr_traversed_edges r)),
      (relation_key ''returned_facts'', show_nat (rr_returned_facts r)),
      (relation_key ''cycle_safe'', show_bool (rr_cycle_safe r)),
      (relation_key ''depth_hard_capped'', show_bool (rr_depth_hard_capped r)),
      (relation_key ''visited_budget_exceeded'', show_bool (rr_visited_budget_exceeded r)),
      (relation_key ''edge_budget_exceeded'', show_bool (rr_edge_budget_exceeded r)),
      (relation_key ''budget_exceeded'', show_bool (rr_visited_budget_exceeded r \<or> rr_edge_budget_exceeded r \<or> rr_depth_hard_capped r)),
      (relation_key ''truncated'', show_bool (rr_truncated r)),
      (relation_key ''truncation_reason'', (case rr_truncation_reason r of Some s \<Rightarrow> s | None \<Rightarrow> []))]"

text \<open>The variables of the loop.\<close>
record walk =
  wk_results :: "fact list"
  wk_visited :: "rstr fset"
  wk_to_visit :: "(rstr \<times> nat) list"
  wk_traversed_edges :: nat
  wk_visited_budget_exceeded :: bool
  wk_edge_budget_exceeded :: bool

text \<open>The loop over the relations of a fact.\<close>
fun follow_relations :: "relation_query_budget \<Rightarrow> nat \<Rightarrow> relation list \<Rightarrow> walk \<Rightarrow> walk" where
  "follow_relations b current_depth [] w = w"
| "follow_relations b current_depth (rel # rels) w =
     (if wk_traversed_edges w \<ge> rb_max_returned_edges b then w\<lparr>wk_edge_budget_exceeded := True\<rparr>
      else if fcard (wk_visited w) \<ge> rb_max_visited_nodes b then w\<lparr>wk_visited_budget_exceeded := True\<rparr>
      else let w = w\<lparr>wk_traversed_edges := wk_traversed_edges w + 1\<rparr>;
               w = (if rl_target_id rel |\<in>| wk_visited w then w
                    else w\<lparr>wk_visited := finsert (rl_target_id rel) (wk_visited w),
                           wk_to_visit := wk_to_visit w @ [(rl_target_id rel, current_depth + 1)]\<rparr>)
           in follow_relations b current_depth rels w)"

text \<open>One pass of the loop for the node just taken from the queue; the flag says that the loop goes on.\<close>
definition visit :: "relation_query_budget \<Rightarrow> (rstr \<rightharpoonup> fact) \<Rightarrow> rstr \<Rightarrow> nat \<Rightarrow> walk \<Rightarrow> walk \<times> bool" where
  "visit b facts_by_id current_id current_depth w =
     (if current_depth > rb_max_depth b then (w, True)
      else if fcard (wk_visited w) > rb_max_visited_nodes b then (w\<lparr>wk_visited_budget_exceeded := True\<rparr>, False)
      else case facts_by_id current_id of
        None \<Rightarrow> (w, True)
      | Some found \<Rightarrow>
          let w = (if current_depth > 0 then w\<lparr>wk_results := wk_results w @ [found]\<rparr> else w)
          in if current_depth \<ge> rb_max_depth b then (w, True)
             else let w = follow_relations b current_depth (fc_relations found) w
               in (w, \<not> (wk_visited_budget_exceeded w \<or> wk_edge_budget_exceeded w)))"

definition walk_measure :: "relation_query_budget \<Rightarrow> walk \<Rightarrow> nat" where
  "walk_measure b w = (rb_max_visited_nodes b - fcard (wk_visited w)) + length (wk_to_visit w)"

lemma follow_measure: "walk_measure b (follow_relations b k rels w) \<le> walk_measure b w"
proof (induction b k rels w rule: follow_relations.induct)
  case (2 b k rel rels w)
  then show ?case by (auto simp: Let_def walk_measure_def fcard_finsert_if)
qed simp

lemma visit_measure: "walk_measure b (fst (visit b F i k w)) \<le> walk_measure b w"
proof -
  have "walk_measure b (w\<lparr>wk_results := rs\<rparr>) = walk_measure b w" for rs
    by (simp add: walk_measure_def)
  then show ?thesis
    using follow_measure [of b k _ w] follow_measure [of b k _ "w\<lparr>wk_results := rs\<rparr>" for rs]
    by (auto simp: visit_def Let_def walk_measure_def split: option.split)
qed

text \<open>\<^verbatim>\<open>while let Some(..) = to_visit.pop_front()\<close>\<close>
function walk_loop :: "relation_query_budget \<Rightarrow> (rstr \<rightharpoonup> fact) \<Rightarrow> walk \<Rightarrow> walk" where
  "walk_loop b facts_by_id w = (case wk_to_visit w of
       [] \<Rightarrow> w
     | (current_id, current_depth) # rest \<Rightarrow>
         (case visit b facts_by_id current_id current_depth (w\<lparr>wk_to_visit := rest\<rparr>) of
            (w, goes_on) \<Rightarrow> if goes_on then walk_loop b facts_by_id w else w))"
  by pat_completeness auto
termination
proof (relation "measure (\<lambda>(b, facts_by_id, w). walk_measure b w)")
  fix b :: relation_query_budget and F w x rest i k w' goes_on
  assume *: "wk_to_visit w = x # rest" "(i, k) = x" "(w', goes_on) = visit b F i k (w\<lparr>wk_to_visit := rest\<rparr>)"
  then have "w' = fst (visit b F i k (w\<lparr>wk_to_visit := rest\<rparr>))" by (metis fst_conv)
  then have "walk_measure b w' \<le> walk_measure b (w\<lparr>wk_to_visit := rest\<rparr>)" by (simp add: visit_measure)
  also have "\<dots> < walk_measure b w" using *(1) by (simp add: walk_measure_def)
  finally show "((b, F, w'), b, F, w) \<in> measure (\<lambda>(b, facts_by_id, w). walk_measure b w)" by simp
qed simp

declare walk_loop.simps [simp del]

record relation_traversal_result =
  rx_facts :: "fact list"
  rx_report :: relation_traversal_report

definition traverse_related_facts_with_report :: "(rstr \<rightharpoonup> fact) \<Rightarrow> rstr \<Rightarrow> nat \<Rightarrow> relation_traversal_result" where
  "traverse_related_facts_with_report facts_by_id fact_id depth =
     (let budget = for_requested_depth depth; depth_hard_capped = (depth > rb_max_depth budget)
      in if rb_max_depth budget = 0
         then \<lparr>rx_facts = [], rx_report = \<lparr>rr_requested_depth = depth, rr_effective_max_depth = 0, rr_visited_nodes = 0,
           rr_traversed_edges = 0, rr_returned_facts = 0, rr_cycle_safe = True, rr_depth_hard_capped = depth_hard_capped,
           rr_visited_budget_exceeded = False, rr_edge_budget_exceeded = False, rr_truncated = depth_hard_capped,
           rr_truncation_reason = (if depth_hard_capped then Some (lit ''depth_hard_cap'') else None)\<rparr>\<rparr>
         else let w = walk_loop budget facts_by_id \<lparr>wk_results = [], wk_visited = {|fact_id|}, wk_to_visit = [(fact_id, 0)],
                wk_traversed_edges = 0, wk_visited_budget_exceeded = False, wk_edge_budget_exceeded = False\<rparr>;
              reasons = (if depth_hard_capped then [lit ''depth_hard_cap''] else [])
                @ (if wk_visited_budget_exceeded w then [lit ''visited_nodes_budget''] else [])
                @ (if wk_edge_budget_exceeded w then [lit ''returned_edges_budget''] else [])
           in \<lparr>rx_facts = wk_results w, rx_report = \<lparr>rr_requested_depth = depth, rr_effective_max_depth = rb_max_depth budget,
             rr_visited_nodes = fcard (wk_visited w), rr_traversed_edges = wk_traversed_edges w,
             rr_returned_facts = length (wk_results w), rr_cycle_safe = True, rr_depth_hard_capped = depth_hard_capped,
             rr_visited_budget_exceeded = wk_visited_budget_exceeded w, rr_edge_budget_exceeded = wk_edge_budget_exceeded w,
             rr_truncated = (reasons \<noteq> []),
             rr_truncation_reason = (if reasons = [] then None else Some (join (lit '','') reasons))\<rparr>\<rparr>)"

definition traverse_related_facts :: "(rstr \<rightharpoonup> fact) \<Rightarrow> rstr \<Rightarrow> nat \<Rightarrow> fact list" where
  "traverse_related_facts facts_by_id fact_id depth = rx_facts (traverse_related_facts_with_report facts_by_id fact_id depth)"

section \<open>The walk is a breadth-first search\<close>

definition related :: "(rstr \<rightharpoonup> fact) \<Rightarrow> rstr \<Rightarrow> rstr \<Rightarrow> bool" where
  "related F i j \<longleftrightarrow> (\<exists>f rel. F i = Some f \<and> rel \<in> set (fc_relations f) \<and> rl_target_id rel = j)"

text \<open>
  The nodes taken from the queue, with their depths, come before those in the queue: together
  they are the visited names, each once, in the order of their depths.
\<close>
definition walk_ok :: "relation_query_budget \<Rightarrow> (rstr \<rightharpoonup> fact) \<Rightarrow> rstr \<Rightarrow> (rstr \<times> nat) list \<Rightarrow> walk \<Rightarrow> bool" where
  "walk_ok b F start taken w \<longleftrightarrow>
     (let seen = taken @ wk_to_visit w in
      distinct (map fst seen) \<and> fset (wk_visited w) = fst ` set seen \<and> sorted (map snd seen) \<and> seen \<noteq> [] \<and> hd seen = (start, 0)
      \<and> (\<forall>(i, k) \<in> set seen. k \<le> rb_max_depth b \<and> (related F ^^ k) start i)
      \<and> fcard (wk_visited w) \<le> rb_max_visited_nodes b \<and> wk_traversed_edges w \<le> rb_max_returned_edges b)"

definition results_of :: "(rstr \<rightharpoonup> fact) \<Rightarrow> (rstr \<times> nat) list \<Rightarrow> fact list" where
  "results_of F taken = List.map_filter (\<lambda>(i, k). if 0 < k then F i else None) taken"

definition shallow :: "nat \<Rightarrow> walk \<Rightarrow> bool" where
  "shallow k w \<longleftrightarrow> (\<forall>x \<in> set (wk_to_visit w). snd x \<le> k)"

definition known :: "(rstr \<times> nat) list \<Rightarrow> walk \<Rightarrow> rstr \<Rightarrow> nat \<Rightarrow> bool" where
  "known taken w j k \<longleftrightarrow> (\<exists>k' \<le> k. (j, k') \<in> set (taken @ wk_to_visit w))"

text \<open>The relations of a node that was taken from the queue lead to known nodes.\<close>
definition closed_walk :: "relation_query_budget \<Rightarrow> (rstr \<rightharpoonup> fact) \<Rightarrow> (rstr \<times> nat) list \<Rightarrow> walk \<Rightarrow> bool" where
  "closed_walk b F taken w \<longleftrightarrow> (\<forall>(i, k) \<in> set taken. k < rb_max_depth b \<longrightarrow> (\<forall>j. related F i j \<longrightarrow> known taken w j (k + 1)))"

definition exceeded :: "walk \<Rightarrow> bool" where
  "exceeded w \<longleftrightarrow> wk_visited_budget_exceeded w \<or> wk_edge_budget_exceeded w"

lemma known_mono: "known taken w j k \<Longrightarrow> set (taken @ wk_to_visit w) \<subseteq> set (taken' @ wk_to_visit w') \<Longrightarrow> known taken' w' j k"
  unfolding known_def by blast

lemma walk_ok_push:
  assumes "walk_ok b F start taken w" and "shallow (k + 1) w" and "\<forall>x \<in> set taken. snd x \<le> k + 1"
    and "j |\<notin>| wk_visited w" and "fcard (wk_visited w) < rb_max_visited_nodes b" and "k < rb_max_depth b" and "(related F ^^ (k + 1)) start j"
  shows "walk_ok b F start taken (w\<lparr>wk_visited := finsert j (wk_visited w), wk_to_visit := wk_to_visit w @ [(j, k + 1)]\<rparr>)"
proof -
  have "sorted (map snd (taken @ wk_to_visit w) @ [k + 1])"
    using assms(1-3) by (auto simp: walk_ok_def shallow_def Let_def sorted_append)
  moreover have "j \<notin> fst ` set (taken @ wk_to_visit w)" using assms(1,4) by (simp add: walk_ok_def Let_def)
  ultimately show ?thesis using assms by (auto simp: walk_ok_def Let_def fcard_finsert_if hd_append)
qed

lemma follow_ok:
  assumes "walk_ok b F start taken w" and "shallow (k + 1) w" and "\<forall>x \<in> set taken. snd x \<le> k + 1" and "k < rb_max_depth b"
    and "\<forall>rel \<in> set rels. (related F ^^ (k + 1)) start (rl_target_id rel)" and "\<not> exceeded w"
  shows "walk_ok b F start taken (follow_relations b k rels w) \<and> shallow (k + 1) (follow_relations b k rels w)
    \<and> wk_results (follow_relations b k rels w) = wk_results w
    \<and> set (wk_to_visit w) \<subseteq> set (wk_to_visit (follow_relations b k rels w))
    \<and> (\<not> exceeded (follow_relations b k rels w) \<longrightarrow> (\<forall>rel \<in> set rels. known taken (follow_relations b k rels w) (rl_target_id rel) (k + 1)))"
  using assms
proof (induction rels arbitrary: w)
  case Nil
  then show ?case by simp
next
  case (Cons rel rels)
  let ?j = "rl_target_id rel"
  show ?case
  proof (cases "rb_max_returned_edges b \<le> wk_traversed_edges w \<or> rb_max_visited_nodes b \<le> fcard (wk_visited w)")
    case True
    then show ?thesis using Cons.prems(1,2) by (auto simp: walk_ok_def shallow_def exceeded_def Let_def)
  next
    case False
    define w1 where "w1 = w\<lparr>wk_traversed_edges := wk_traversed_edges w + 1\<rparr>"
    define w2 where "w2 = (if ?j |\<in>| wk_visited w1 then w1
      else w1\<lparr>wk_visited := finsert ?j (wk_visited w1), wk_to_visit := wk_to_visit w1 @ [(?j, k + 1)]\<rparr>)"
    have step: "follow_relations b k (rel # rels) w = follow_relations b k rels w2"
      using False by (simp add: w2_def w1_def Let_def)
    have w1: "walk_ok b F start taken w1" "shallow (k + 1) w1" "\<not> exceeded w1"
      using Cons.prems False by (auto simp: w1_def walk_ok_def shallow_def exceeded_def Let_def)
    have "walk_ok b F start taken w2" "shallow (k + 1) w2" "\<not> exceeded w2"
      using w1 walk_ok_push [OF w1(1,2) Cons.prems(3) _ _ Cons.prems(4), of ?j] False Cons.prems(5)
      by (auto simp: w2_def shallow_def exceeded_def) (simp_all add: w1_def)
    moreover have "known taken w2 ?j (k + 1)"
    proof (cases "?j |\<in>| wk_visited w1")
      case True
      have "?j \<in> fst ` set (taken @ wk_to_visit w1)" using w1(1) True by (simp add: walk_ok_def Let_def)
      then obtain k' where k': "(?j, k') \<in> set (taken @ wk_to_visit w1)" by (metis imageE prod.collapse)
      then have "k' \<le> k + 1" using w1(2) Cons.prems(3) by (fastforce simp: shallow_def)
      then show ?thesis using k' True by (auto simp: known_def w2_def)
    qed (auto simp: known_def w2_def)
    moreover have "\<forall>rel \<in> set rels. (related F ^^ (k + 1)) start (rl_target_id rel)" using Cons.prems(5) by simp
    ultimately have *: "known taken w2 ?j (k + 1)" and ih: "walk_ok b F start taken (follow_relations b k rels w2)"
        "shallow (k + 1) (follow_relations b k rels w2)" "wk_results (follow_relations b k rels w2) = wk_results w2"
        "set (wk_to_visit w2) \<subseteq> set (wk_to_visit (follow_relations b k rels w2))"
        "\<not> exceeded (follow_relations b k rels w2) \<longrightarrow>
           (\<forall>rel \<in> set rels. known taken (follow_relations b k rels w2) (rl_target_id rel) (k + 1))"
      using Cons.IH [of w2] Cons.prems(3,4) by blast+
    have "known taken (follow_relations b k rels w2) ?j (k + 1)" using ih(4) by (intro known_mono [OF *]) auto
    moreover have "set (wk_to_visit w) \<subseteq> set (wk_to_visit w2)" "wk_results w2 = wk_results w" by (auto simp: w2_def w1_def)
    ultimately show ?thesis
      unfolding step using ih by simp
  qed
qed

text \<open>What the loop keeps: \<^verbatim>\<open>taken\<close> are the nodes taken from the queue so far.\<close>
definition walk_inv :: "relation_query_budget \<Rightarrow> (rstr \<rightharpoonup> fact) \<Rightarrow> rstr \<Rightarrow> (rstr \<times> nat) list \<Rightarrow> walk \<Rightarrow> bool" where
  "walk_inv b F start taken w \<longleftrightarrow> walk_ok b F start taken w \<and> wk_results w = results_of F taken
     \<and> (\<not> exceeded w \<longrightarrow> closed_walk b F taken w \<and> (\<forall>x \<in> set (wk_to_visit w). \<forall>y \<in> set (wk_to_visit w). snd x \<le> snd y + 1))"

lemma results_of_snoc: "results_of F (taken @ [(i, k)]) = results_of F taken @ (if 0 < k then case F i of Some f \<Rightarrow> [f] | None \<Rightarrow> [] else [])"
  by (simp add: results_of_def List.map_filter_def split: option.split)

lemma closed_walk_snoc:
  assumes "closed_walk b F taken w" and "wk_to_visit w = (i, k) # rest" and "set rest \<subseteq> set (wk_to_visit w')"
    and "\<And>j. k < rb_max_depth b \<Longrightarrow> related F i j \<Longrightarrow> known (taken @ [(i, k)]) w' j (k + 1)"
  shows "closed_walk b F (taken @ [(i, k)]) w'"
proof -
  have "set (taken @ wk_to_visit w) \<subseteq> set ((taken @ [(i, k)]) @ wk_to_visit w')" using assms(2,3) by auto
  then have "known (taken @ [(i, k)]) w' j m" if "known taken w j m" for j m using known_mono that by blast
  then show ?thesis using assms(1,4) unfolding closed_walk_def by fastforce
qed

lemma walk_ok_pop:
  assumes "walk_ok b F start taken w" and "wk_to_visit w = (i, k) # rest"
  shows "walk_ok b F start (taken @ [(i, k)]) (w\<lparr>wk_to_visit := rest, wk_results := rs\<rparr>)"
  using assms by (simp add: walk_ok_def Let_def)

lemma visit_inv:
  assumes inv: "walk_inv b F start taken w" and queue: "wk_to_visit w = (i, k) # rest" and fine: "\<not> exceeded w"
    and v: "visit b F i k (w\<lparr>wk_to_visit := rest\<rparr>) = (w', goes_on)"
  shows "walk_inv b F start (taken @ [(i, k)]) w' \<and> (goes_on \<longleftrightarrow> \<not> exceeded w')"
proof -
  have ok: "walk_ok b F start taken w" and res: "wk_results w = results_of F taken" and cl: "closed_walk b F taken w"
    and lev: "\<forall>x \<in> set rest. snd x \<le> k + 1" "\<forall>x \<in> set rest. \<forall>y \<in> set rest. snd x \<le> snd y + 1"
    using inv fine queue by (simp_all add: walk_inv_def)
  have k: "k \<le> rb_max_depth b" "(related F ^^ k) start i" "fcard (wk_visited w) \<le> rb_max_visited_nodes b"
    and before: "\<forall>x \<in> set (taken @ [(i, k)]). snd x \<le> k + 1" and after: "\<forall>x \<in> set rest. k \<le> snd x"
    using ok queue by (auto simp: walk_ok_def Let_def sorted_append le_Suc_eq)
  show ?thesis
  proof (cases "F i")
    case None
    then have "\<not> related F i j" for j by (simp add: related_def)
    then have "closed_walk b F (taken @ [(i, k)]) (w\<lparr>wk_to_visit := rest\<rparr>)" using cl queue by (auto intro: closed_walk_snoc)
    moreover have "walk_ok b F start (taken @ [(i, k)]) (w\<lparr>wk_to_visit := rest\<rparr>)"
      using ok queue by (simp add: walk_ok_def Let_def)
    moreover have "w' = w\<lparr>wk_to_visit := rest\<rparr>" "goes_on" using v k None by (auto simp: visit_def)
    moreover have "results_of F (taken @ [(i, k)]) = results_of F taken" using None by (simp add: results_of_snoc)
    moreover have "\<not> exceeded (w\<lparr>wk_to_visit := rest\<rparr>)" using fine by (simp add: exceeded_def)
    ultimately show ?thesis using res lev by (simp add: walk_inv_def)
  next
    case (Some f)
    define w1 where "w1 = w\<lparr>wk_to_visit := rest, wk_results := wk_results w @ (if 0 < k then [f] else [])\<rparr>"
    have w1: "walk_ok b F start (taken @ [(i, k)]) w1" "shallow (k + 1) w1" "\<not> exceeded w1"
        "wk_results w1 = results_of F (taken @ [(i, k)])" "wk_to_visit w1 = rest"
      using walk_ok_pop [OF ok queue] lev fine Some res by (auto simp: w1_def shallow_def exceeded_def results_of_snoc)
    show ?thesis
    proof (cases "k < rb_max_depth b")
      case False
      then have "closed_walk b F (taken @ [(i, k)]) w1" using cl queue w1(5) by (auto intro: closed_walk_snoc)
      moreover have "w' = w1" "goes_on" using v Some k False by (auto simp: visit_def w1_def Let_def split: if_splits)
      ultimately show ?thesis using w1 lev by (simp add: walk_inv_def)
    next
      case True
      define w2 where "w2 = follow_relations b k (fc_relations f) w1"
      have w': "w' = w2" "goes_on \<longleftrightarrow> \<not> exceeded w2"
        using v Some k True by (auto simp: visit_def w1_def w2_def Let_def exceeded_def split: if_splits)
      have "related F i (rl_target_id rel)" if "rel \<in> set (fc_relations f)" for rel
        using that Some by (auto simp: related_def)
      then have "\<forall>rel \<in> set (fc_relations f). (related F ^^ (k + 1)) start (rl_target_id rel)"
        using k(2) by (auto intro: relpowp_Suc_I)
      note fol = follow_ok [OF w1(1,2) before True this w1(3), folded w2_def]
      have "closed_walk b F (taken @ [(i, k)]) w2" if "\<not> exceeded w2"
        using fol that Some w1(5) by (intro closed_walk_snoc [OF cl queue]) (auto simp: related_def)
      moreover have "k \<le> snd x" if "x \<in> set (wk_to_visit w2)" for x
        using fol that by (auto simp: walk_ok_def Let_def sorted_append)
      then have levels: "snd x \<le> snd y + 1" if "x \<in> set (wk_to_visit w2)" "y \<in> set (wk_to_visit w2)" for x y
        using fol that by (fastforce simp: shallow_def)
      ultimately show ?thesis using fol w1(4) w' levels by (simp add: walk_inv_def)
    qed
  qed
qed

lemma walk_loop_inv:
  assumes "walk_inv b F start taken w" and "\<not> exceeded w"
  shows "\<exists>taken'. walk_inv b F start taken' (walk_loop b F w)
    \<and> (\<not> exceeded (walk_loop b F w) \<longrightarrow> wk_to_visit (walk_loop b F w) = [])"
  using assms
proof (induction b F w arbitrary: taken rule: walk_loop.induct)
  case (1 b F w)
  show ?case
  proof (cases "wk_to_visit w")
    case Nil
    then have "walk_loop b F w = w" by (simp add: walk_loop.simps)
    then show ?thesis using 1 Nil by auto
  next
    case (Cons x rest)
    obtain i k w' goes_on where x: "x = (i, k)" and v: "visit b F i k (w\<lparr>wk_to_visit := rest\<rparr>) = (w', goes_on)"
      by (metis prod.exhaust)
    then have step: "walk_loop b F w = (if goes_on then walk_loop b F w' else w')"
      using Cons by (simp add: walk_loop.simps)
    have inv: "walk_inv b F start (taken @ [(i, k)]) w' \<and> (goes_on \<longleftrightarrow> \<not> exceeded w')"
      using visit_inv [OF 1(2) _ 1(3) v] Cons x by simp
    show ?thesis
    proof (cases goes_on)
      case True
      then show ?thesis using 1(1) [OF Cons x [symmetric] v [symmetric] True, of "taken @ [(i, k)]"] inv step by auto
    next
      case False
      then show ?thesis using step inv by auto
    qed
  qed
qed

section \<open>What the walk returns\<close>

definition start_walk :: "rstr \<Rightarrow> walk" where
  "start_walk fact_id = \<lparr>wk_results = [], wk_visited = {|fact_id|}, wk_to_visit = [(fact_id, 0)],
     wk_traversed_edges = 0, wk_visited_budget_exceeded = False, wk_edge_budget_exceeded = False\<rparr>"

text \<open>The least number of relations that lead to a name.\<close>
definition distance :: "(rstr \<rightharpoonup> fact) \<Rightarrow> rstr \<Rightarrow> rstr \<Rightarrow> nat" where
  "distance F start i = (LEAST k. (related F ^^ k) start i)"

text \<open>The names of the facts found: those of the taken nodes that are facts, the start apart.\<close>
definition found_ids :: "(rstr \<rightharpoonup> fact) \<Rightarrow> (rstr \<times> nat) list \<Rightarrow> rstr list" where
  "found_ids F taken = map fst (filter (\<lambda>x. 0 < snd x \<and> F (fst x) \<noteq> None) taken)"

lemma results_of_found_ids: "results_of F taken = map (the \<circ> F) (found_ids F taken)"
  by (induction taken) (auto simp: results_of_def found_ids_def List.map_filter_def split: if_splits)

lemma start_walk_inv: "0 < rb_max_visited_nodes b \<Longrightarrow> walk_inv b F start [] (start_walk start)"
  by (simp add: walk_inv_def walk_ok_def start_walk_def results_of_def List.map_filter_def closed_walk_def fcard.rep_eq)

lemma walk_ok_start: "walk_ok b F start taken w \<Longrightarrow> (start, 0) \<in> set (taken @ wk_to_visit w)"
  by (metis hd_in_set walk_ok_def)

lemma walk_ok_once: "walk_ok b F start taken w \<Longrightarrow> (i, k) \<in> set taken \<Longrightarrow> (i, m) \<in> set (taken @ wk_to_visit w) \<Longrightarrow> k = m"
  by (metis (no_types, lifting) UnCI eq_key_imp_eq_value set_append walk_ok_def)

lemma found_ids_bounds:
  assumes "walk_ok b F start taken w"
  shows "distinct (found_ids F taken)" and "Suc (length (found_ids F taken)) \<le> rb_max_visited_nodes b"
    and "set (found_ids F taken) \<subseteq> {i. i \<noteq> start \<and> F i \<noteq> None \<and> (\<exists>k. 0 < k \<and> k \<le> rb_max_depth b \<and> (related F ^^ k) start i)}"
proof -
  let ?seen = "taken @ wk_to_visit w"
  have d: "distinct (map fst ?seen)" and v: "fset (wk_visited w) = fst ` set ?seen" "fcard (wk_visited w) \<le> rb_max_visited_nodes b"
    using assms by (simp_all only: walk_ok_def Let_def)
  have dt: "distinct (map fst taken)" using d by simp
  then show dist: "distinct (found_ids F taken)" unfolding found_ids_def by (rule distinct_map_filter)
  have start: "start \<notin> set (found_ids F taken)"
    using walk_ok_once [OF assms] walk_ok_start [OF assms] by (fastforce simp: found_ids_def)
  have sub: "insert start (set (found_ids F taken)) \<subseteq> fset (wk_visited w)"
    using v(1) walk_ok_start [OF assms] by (force simp: found_ids_def)
  have "Suc (length (found_ids F taken)) = card (insert start (set (found_ids F taken)))"
    using start dist by (simp add: distinct_card)
  also have "\<dots> \<le> fcard (wk_visited w)" unfolding fcard.rep_eq using sub by (simp add: card_mono)
  finally show "Suc (length (found_ids F taken)) \<le> rb_max_visited_nodes b" using v(2) by simp
  show "set (found_ids F taken) \<subseteq> {i. i \<noteq> start \<and> F i \<noteq> None \<and> (\<exists>k. 0 < k \<and> k \<le> rb_max_depth b \<and> (related F ^^ k) start i)}"
    using start assms unfolding walk_ok_def Let_def found_ids_def by fastforce
qed

text \<open>When no budget was exceeded, the walk took every name within the depth, at its least depth.\<close>
lemma taken_complete:
  assumes "walk_ok b F start taken w" and "closed_walk b F taken w" and "wk_to_visit w = []"
  shows "(related F ^^ k) start i \<Longrightarrow> k \<le> rb_max_depth b \<Longrightarrow> \<exists>k' \<le> k. (i, k') \<in> set taken"
proof (induction k arbitrary: i)
  case 0
  then show ?case using walk_ok_start [OF assms(1)] assms(3) by auto
next
  case (Suc k)
  then obtain j where j: "(related F ^^ k) start j" "related F j i" by auto
  then obtain k' where "k' \<le> k" "(j, k') \<in> set taken" using Suc by fastforce
  then have "known taken w i (k' + 1)" using assms(2) j(2) Suc.prems(2) unfolding closed_walk_def by fastforce
  then obtain m where "m \<le> k' + 1" "(i, m) \<in> set taken" using assms(3) by (auto simp: known_def)
  then show ?case using \<open>k' \<le> k\<close> by (intro exI [of _ m]) simp
qed

lemma taken_distance:
  assumes "walk_ok b F start taken w" and "closed_walk b F taken w" and "wk_to_visit w = []" and "(i, k) \<in> set taken"
  shows "distance F start i = k"
  unfolding distance_def
proof (rule Least_equality)
  have "k \<le> rb_max_depth b \<and> (related F ^^ k) start i" using assms(1,4) unfolding walk_ok_def Let_def by fastforce
  then show "(related F ^^ k) start i" ..
  fix m
  assume m: "(related F ^^ m) start i"
  show "k \<le> m"
  proof (rule ccontr)
    assume "\<not> k \<le> m"
    moreover have "k \<le> rb_max_depth b" using assms(1,4) unfolding walk_ok_def Let_def by fastforce
    ultimately obtain k' where "k' \<le> m" "(i, k') \<in> set taken" using taken_complete [OF assms(1-3) m] by auto
    then show False using walk_ok_once [OF assms(1,4), of k'] \<open>\<not> k \<le> m\<close> by simp
  qed
qed

lemma found_ids_complete:
  assumes "walk_ok b F start taken w" and "closed_walk b F taken w" and "wk_to_visit w = []"
  shows "set (found_ids F taken) = {i. i \<noteq> start \<and> F i \<noteq> None \<and> (\<exists>k \<le> rb_max_depth b. (related F ^^ k) start i)}"
    and "sorted (map (distance F start) (found_ids F taken))"
proof -
  have mem: "i \<in> set (found_ids F taken)" if h: "i \<noteq> start" "F i \<noteq> None" "(related F ^^ k) start i" "k \<le> rb_max_depth b" for i k
  proof -
    obtain k' where k': "(i, k') \<in> set taken" using taken_complete [OF assms h(3,4)] by blast
    then have "(related F ^^ k') start i" using assms(1) unfolding walk_ok_def Let_def by fastforce
    then have "k' \<noteq> 0" using h(1) by (cases k') simp_all
    then show ?thesis using k' h(2) by (force simp: found_ids_def)
  qed
  then show "set (found_ids F taken) = {i. i \<noteq> start \<and> F i \<noteq> None \<and> (\<exists>k \<le> rb_max_depth b. (related F ^^ k) start i)}"
    using found_ids_bounds(3) [OF assms(1)] mem by blast
  have "map (distance F start) (found_ids F taken) = map snd (filter (\<lambda>x. 0 < snd x \<and> F (fst x) \<noteq> None) taken)"
    using taken_distance [OF assms] by (auto simp: found_ids_def)
  moreover have "sorted (map snd taken)" using assms(1) by (simp add: walk_ok_def Let_def sorted_append)
  ultimately show "sorted (map (distance F start) (found_ids F taken))" by (simp add: sorted_filter)
qed

text \<open>The result of a walk, by the walk's end.\<close>
lemma traverse_is_walk:
  assumes "0 < depth"
  shows "\<exists>taken w. walk_inv (for_requested_depth depth) F start taken w \<and> (\<not> exceeded w \<longrightarrow> wk_to_visit w = [])
    \<and> rx_facts (traverse_related_facts_with_report F start depth) = wk_results w
    \<and> rr_traversed_edges (rx_report (traverse_related_facts_with_report F start depth)) = wk_traversed_edges w
    \<and> rr_visited_nodes (rx_report (traverse_related_facts_with_report F start depth)) = fcard (wk_visited w)
    \<and> rr_visited_budget_exceeded (rx_report (traverse_related_facts_with_report F start depth)) = wk_visited_budget_exceeded w
    \<and> rr_edge_budget_exceeded (rx_report (traverse_related_facts_with_report F start depth)) = wk_edge_budget_exceeded w"
proof -
  let ?b = "for_requested_depth depth"
  have b: "rb_max_depth ?b \<noteq> 0" "0 < rb_max_visited_nodes ?b"
    using assms by (simp_all add: for_requested_depth_def RELATION_QUERY_HARD_CAP_DEPTH_def RELATION_QUERY_DEFAULT_MAX_VISITED_NODES_def)
  have "\<not> exceeded (start_walk start)" by (simp add: exceeded_def start_walk_def)
  then obtain taken where t: "walk_inv ?b F start taken (walk_loop ?b F (start_walk start))"
      "\<not> exceeded (walk_loop ?b F (start_walk start)) \<longrightarrow> wk_to_visit (walk_loop ?b F (start_walk start)) = []"
    using walk_loop_inv start_walk_inv [OF b(2)] by blast
  then show ?thesis
    using b(1)
    by (intro exI [of _ taken] exI [of _ "walk_loop ?b F (start_walk start)"])
      (simp add: traverse_related_facts_with_report_def Let_def start_walk_def)
qed


section \<open>The properties of the walk\<close>

text \<open>
  C31. Whatever the relations are, cycles included, the walk ends, and within its budgets: the
  facts it returns are facts of the store under distinct names, the start not among them, each
  reached by at most three relations and at most the requested number; there are at most 63 of
  them, and the report counts at most 64 visited names and 128 relations.
\<close>
theorem related_facts_are_bounded:
  "\<exists>ids. rx_facts (traverse_related_facts_with_report F start depth) = map (the \<circ> F) ids \<and> distinct ids \<and> length ids \<le> 63
     \<and> set ids \<subseteq> {i. i \<noteq> start \<and> F i \<noteq> None \<and> (\<exists>k. 0 < k \<and> k \<le> min depth 3 \<and> (related F ^^ k) start i)}
     \<and> rr_visited_nodes (rx_report (traverse_related_facts_with_report F start depth)) \<le> 64
     \<and> rr_traversed_edges (rx_report (traverse_related_facts_with_report F start depth)) \<le> 128"
proof (cases "depth = 0")
  case True
  then show ?thesis by (simp add: traverse_related_facts_with_report_def for_requested_depth_def)
next
  case False
  let ?b = "for_requested_depth depth" and ?r = "traverse_related_facts_with_report F start depth"
  obtain taken w where w: "walk_inv ?b F start taken w" "rx_facts ?r = wk_results w"
      "rr_traversed_edges (rx_report ?r) = wk_traversed_edges w" "rr_visited_nodes (rx_report ?r) = fcard (wk_visited w)"
    using traverse_is_walk [of depth F start] False by blast
  have b: "rb_max_depth ?b = min depth 3" "rb_max_visited_nodes ?b = 64" "rb_max_returned_edges ?b = 128"
    by (simp_all add: for_requested_depth_def RELATION_QUERY_HARD_CAP_DEPTH_def RELATION_QUERY_DEFAULT_MAX_VISITED_NODES_def
      RELATION_QUERY_DEFAULT_MAX_RETURNED_EDGES_def)
  have ok: "walk_ok ?b F start taken w" and "wk_results w = results_of F taken" using w(1) by (simp_all add: walk_inv_def)
  then have "rx_facts ?r = map (the \<circ> F) (found_ids F taken)" using w(2) by (simp add: results_of_found_ids)
  moreover have "fcard (wk_visited w) \<le> 64" "wk_traversed_edges w \<le> 128" using ok b by (simp_all add: walk_ok_def Let_def)
  ultimately show ?thesis
    using found_ids_bounds [OF ok] w(3,4) b by (intro exI [of _ "found_ids F taken"]) simp
qed

text \<open>
  C9. When the report says that neither budget was exceeded, the facts returned are exactly
  the facts that some chain of at most three relations, and at most the requested number, leads to
  from the start, the start itself apart; each once, and those nearer the start before those farther away.
\<close>
theorem related_facts_are_complete:
  assumes "\<not> rr_visited_budget_exceeded (rx_report (traverse_related_facts_with_report F start depth))"
    and "\<not> rr_edge_budget_exceeded (rx_report (traverse_related_facts_with_report F start depth))"
  shows "\<exists>ids. rx_facts (traverse_related_facts_with_report F start depth) = map (the \<circ> F) ids \<and> distinct ids
     \<and> sorted (map (distance F start) ids)
     \<and> set ids = {i. i \<noteq> start \<and> F i \<noteq> None \<and> (\<exists>k \<le> min depth 3. (related F ^^ k) start i)}"
proof (cases "depth = 0")
  case True
  then show ?thesis by (simp add: traverse_related_facts_with_report_def for_requested_depth_def)
next
  case False
  let ?b = "for_requested_depth depth" and ?r = "traverse_related_facts_with_report F start depth"
  obtain taken w where w: "walk_inv ?b F start taken w" "rx_facts ?r = wk_results w" and fin: "\<not> exceeded w \<longrightarrow> wk_to_visit w = []"
      and e: "rr_visited_budget_exceeded (rx_report ?r) = wk_visited_budget_exceeded w" "rr_edge_budget_exceeded (rx_report ?r) = wk_edge_budget_exceeded w"
    using traverse_is_walk [of depth F start] False by blast
  have b: "rb_max_depth ?b = min depth 3" by (simp add: for_requested_depth_def RELATION_QUERY_HARD_CAP_DEPTH_def)
  have "\<not> exceeded w" using e assms by (simp add: exceeded_def)
  then have ok: "walk_ok ?b F start taken w" "closed_walk ?b F taken w" "wk_to_visit w = []" and "wk_results w = results_of F taken"
    using w(1) fin by (simp_all add: walk_inv_def)
  then have "rx_facts ?r = map (the \<circ> F) (found_ids F taken)" using w(2) by (simp add: results_of_found_ids)
  then show ?thesis
    using found_ids_complete [OF ok] found_ids_bounds(1) [OF ok(1)] b by (intro exI [of _ "found_ids F taken"]) simp
qed

text \<open>A ring of two facts, each related to the other.\<close>
definition sample_facts :: "rstr \<rightharpoonup> fact" where
  "sample_facts = [lit ''a'' \<mapsto> (fact_new (lit ''a'') 0 [] [])\<lparr>fc_relations := [\<lparr>rl_predicate = [], rl_target_id = lit ''b'', rl_strength = Finite 1\<rparr>]\<rparr>,
     lit ''b'' \<mapsto> (fact_new (lit ''b'') 0 [] [])\<lparr>fc_relations := [\<lparr>rl_predicate = [], rl_target_id = lit ''a'', rl_strength = Finite 1\<rparr>]\<rparr>]"

lemma sample_walk: "walk_loop (for_requested_depth 2) sample_facts (start_walk (lit ''a''))
    = \<lparr>wk_results = [the (sample_facts (lit ''b''))], wk_visited = {|lit ''b'', lit ''a''|}, wk_to_visit = [],
       wk_traversed_edges = 2, wk_visited_budget_exceeded = False, wk_edge_budget_exceeded = False\<rparr>"
  by (simp add: walk_loop.simps visit_def for_requested_depth_def RELATION_QUERY_HARD_CAP_DEPTH_def
    RELATION_QUERY_DEFAULT_MAX_VISITED_NODES_def RELATION_QUERY_DEFAULT_MAX_RETURNED_EDGES_def sample_facts_def fact_new_def
    start_walk_def fcard.rep_eq Let_def)

lemma related_facts_are_complete_witness:
  "\<exists>ids. rx_facts (traverse_related_facts_with_report sample_facts (lit ''a'') 2) = map (the \<circ> sample_facts) ids \<and> distinct ids
     \<and> sorted (map (distance sample_facts (lit ''a'')) ids)
     \<and> set ids = {i. i \<noteq> lit ''a'' \<and> sample_facts i \<noteq> None \<and> (\<exists>k \<le> min 2 3. (related sample_facts ^^ k) (lit ''a'') i)}"
  by (rule related_facts_are_complete)
    (simp_all add: traverse_related_facts_with_report_def for_requested_depth_def RELATION_QUERY_HARD_CAP_DEPTH_def Let_def
      sample_walk [unfolded start_walk_def for_requested_depth_def RELATION_QUERY_HARD_CAP_DEPTH_def, simplified])

end
