(* ===== verification/Text_Compression.thy ===== *)
theory Text_Compression
  imports Approval Json
begin

text \<open>
  The crate \<^verbatim>\<open>compression\<close> beyond its previews: cutting of texts with a notice (\<^verbatim>\<open>text.rs\<close>,
  \<^verbatim>\<open>tool.rs\<close>), the filters for the output of commands (\<^verbatim>\<open>command.rs\<close>), snippets of documents
  and search results (\<^verbatim>\<open>rag.rs\<close>, \<^verbatim>\<open>browser.rs\<close>), known JSON answers (\<^verbatim>\<open>json.rs\<close>) and error
  texts of the gateway (\<^verbatim>\<open>gateway.rs\<close>). Characters are counted as the code counts them,
  Unicode scalar values.
\<close>

section \<open>Cutting with a notice\<close>

datatype truncation_notice = ToolOutput | ContextSafety | Generic | DocumentUnderstand | RepeatedSpecialistResult

fun head_tail_message :: "truncation_notice \<Rightarrow> nat \<Rightarrow> rstr" where
  "head_tail_message ToolOutput omitted = lit ''Note: Output truncated; '' @ show_nat omitted @ lit '' characters omitted to save tokens''"
| "head_tail_message ContextSafety omitted = lit ''... '' @ show_nat omitted @ lit '' characters truncated for context safety ...''"
| "head_tail_message Generic omitted = lit ''... '' @ show_nat omitted @ lit '' characters truncated ...''"
| "head_tail_message DocumentUnderstand omitted =
     lit ''document_understand output truncated; '' @ show_nat omitted @ lit '' characters omitted''"
| "head_tail_message RepeatedSpecialistResult omitted = lit ''... trimmed repeated specialist result ...''"

fun head_message :: "truncation_notice \<Rightarrow> nat \<Rightarrow> nat \<Rightarrow> rstr" where
  "head_message DocumentUnderstand shown original =
     lit ''document_understand output truncated: showing first '' @ show_nat shown @ lit '' of '' @ show_nat original @ lit '' chars''"
| "head_message ToolOutput shown original =
     lit ''Note: Output truncated from '' @ show_nat original @ lit '' to '' @ show_nat shown @ lit '' chars to save tokens''"
| "head_message ContextSafety shown original =
     lit ''showing first '' @ show_nat shown @ lit '' of '' @ show_nat original @ lit '' chars for context safety''"
| "head_message _ shown original = lit ''showing first '' @ show_nat shown @ lit '' of '' @ show_nat original @ lit '' chars''"

record compression_result =
  cr_content :: rstr
  cr_original_chars :: nat
  cr_output_chars :: nat
  cr_omitted_chars :: nat
  cr_truncated :: bool

definition unchanged :: "rstr \<Rightarrow> compression_result" where
  "unchanged inp = \<lparr>cr_content = inp, cr_original_chars = length inp, cr_output_chars = length inp, cr_omitted_chars = 0, cr_truncated = False\<rparr>"

definition truncated_result :: "rstr \<Rightarrow> nat \<Rightarrow> nat \<Rightarrow> compression_result" where
  "truncated_result content original_chars omitted_chars =
     \<lparr>cr_content = content, cr_original_chars = original_chars, cr_output_chars = length content, cr_omitted_chars = omitted_chars, cr_truncated = True\<rparr>"

definition head_tail_with_notice :: "rstr \<Rightarrow> nat \<Rightarrow> truncation_notice \<Rightarrow> compression_result" where
  "head_tail_with_notice inp max_chars notice =
     (let original_chars = length inp in
      if max_chars = 0 \<or> original_chars \<le> max_chars then unchanged inp
      else let head_len = max_chars div 2;
               tail_len = max_chars - head_len;
               omitted_chars = original_chars - max_chars
           in truncated_result (take head_len inp @ [10, 10] @ lit ''['' @ head_tail_message notice omitted_chars @ lit '']'' @ [10, 10]
                @ rev (take tail_len (rev inp))) original_chars omitted_chars)"

definition head_tail :: "rstr \<Rightarrow> nat \<Rightarrow> compression_result" where
  "head_tail inp max_chars = head_tail_with_notice inp max_chars Generic"

definition head_with_notice :: "rstr \<Rightarrow> nat \<Rightarrow> truncation_notice \<Rightarrow> compression_result" where
  "head_with_notice inp max_chars notice =
     (let original_chars = length inp in
      if max_chars = 0 \<or> original_chars \<le> max_chars then unchanged inp
      else truncated_result (take max_chars inp @ [10, 10] @ lit ''['' @ head_message notice max_chars original_chars @ lit '']'')
             original_chars (original_chars - max_chars))"

definition ellipsize :: "rstr \<Rightarrow> nat \<Rightarrow> rstr" where
  "ellipsize inp max_chars = (if length inp \<le> max_chars then inp else take max_chars inp @ lit ''...'')"

definition line_window :: "rstr \<Rightarrow> nat \<Rightarrow> compression_result" where
  "line_window inp max_lines =
     (let original_lines = length (lines inp) in
      if max_lines = 0 \<or> original_lines \<le> max_lines then unchanged inp
      else truncated_result (join [10] (take max_lines (lines inp)) @ [10, 10] @ lit ''[... '' @ show_nat (original_lines - max_lines)
             @ lit '' lines omitted ...]'') (length inp) 0)"

text \<open>\<^verbatim>\<open>ToolOutputCompression\<close> has the fields of \<^verbatim>\<open>CompressionResult\<close> and is converted field by field.\<close>
type_synonym tool_output_compression = compression_result

definition compress_tool_output :: "rstr \<Rightarrow> nat \<Rightarrow> tool_output_compression" where
  "compress_tool_output output max_chars = head_with_notice output max_chars ToolOutput"

section \<open>The output of commands\<close>

datatype command_compression_mode = Passthrough | GenericOutput | VerbosePreserved | Cargo | GitStatus | GitDiff | GitLog | Pytest | NodeTest | SearchOutput

record command_compression_result =
  cc_content :: rstr
  cc_mode :: command_compression_mode
  cc_original_chars :: nat
  cc_output_chars :: nat
  cc_truncated :: bool

definition command_result :: "rstr \<Rightarrow> command_compression_mode \<Rightarrow> nat \<Rightarrow> command_compression_result" where
  "command_result content mode original_chars = \<lparr>cc_content = content, cc_mode = mode, cc_original_chars = original_chars,
     cc_output_chars = length content, cc_truncated = (length content < original_chars)\<rparr>"

definition from_compression :: "compression_result \<Rightarrow> command_compression_mode \<Rightarrow> command_compression_result" where
  "from_compression r mode = \<lparr>cc_content = cr_content r, cc_mode = mode, cc_original_chars = cr_original_chars r,
     cc_output_chars = cr_output_chars r, cc_truncated = cr_truncated r\<rparr>"

datatype command_outcome_kind = OutcomeSuccess | NoMatch | PartialSuccess | OutcomeFailure

record command_outcome =
  co_success :: bool
  co_kind :: command_outcome_kind
  co_summary :: rstr
  co_raw_status_success :: bool
  co_exit_code :: "int option"

definition looks_like_search :: "rstr \<Rightarrow> bool" where
  "looks_like_search command \<longleftrightarrow> starts_with command (lit ''rg '') \<or> contains command (lit '' rg '')
     \<or> starts_with command (lit ''grep '') \<or> contains command (lit '' grep '')
     \<or> starts_with command (lit ''find '') \<or> contains command (lit '' find '')"

definition interpret_command_outcome :: "unicode \<Rightarrow> rstr \<Rightarrow> int option \<Rightarrow> bool \<Rightarrow> rstr \<Rightarrow> rstr \<Rightarrow> command_outcome" where
  "interpret_command_outcome U command exit_code raw_status_success stdout stderr =
     (let lower = u_lower U command; trimmed_stdout = trim stdout; trimmed_stderr = trim stderr;
          outcome = (\<lambda>success kind summary. \<lparr>co_success = success, co_kind = kind, co_summary = summary,
            co_raw_status_success = raw_status_success, co_exit_code = exit_code\<rparr>);
          detail = (if trimmed_stderr \<noteq> [] then trimmed_stderr else if trimmed_stdout \<noteq> [] then trimmed_stdout
            else lit ''command exited with a non-zero status'')
      in if raw_status_success then outcome True OutcomeSuccess (lit ''command completed successfully'')
         else if exit_code = Some 1 \<and> looks_like_search lower then outcome True NoMatch (lit ''search command completed with no matches'')
         else case (if contains lower (lit ''robocopy'') then exit_code else None) of
           Some code \<Rightarrow>
             if 0 \<le> code \<and> code \<le> 7
             then outcome True (if code = 0 then OutcomeSuccess else PartialSuccess)
                    (lit ''robocopy completed with non-fatal exit code '' @ show_nat (nat code))
             else outcome False OutcomeFailure (preview_text detail 240)
         | None \<Rightarrow> outcome False OutcomeFailure (preview_text detail 240))"

definition command_requests_verbose_output :: "rstr \<Rightarrow> bool" where
  "command_requests_verbose_output command_lowercase \<longleftrightarrow>
     contains_any command_lowercase (map lit [''--verbose'', ''--debug'', ''--trace'', ''--nocapture'', ''--show-output'', ''--full'', ''--raw'', ''-vv'', ''-vvv''])
     \<or> list_ex (\<lambda>token. token = lit ''-v'') (split_whitespace command_lowercase)"

definition looks_like_cargo :: "rstr \<Rightarrow> bool" where
  "looks_like_cargo command \<longleftrightarrow> starts_with command (lit ''cargo '') \<or> contains command (lit '' cargo '')"

definition looks_like_node_test :: "rstr \<Rightarrow> bool" where
  "looks_like_node_test command \<longleftrightarrow> contains_any command (map lit [''npm test'', ''pnpm test'', ''yarn test'', ''vitest'', ''jest''])"

definition test_relevant_line :: "unicode \<Rightarrow> rstr \<Rightarrow> bool" where
  "test_relevant_line U line \<longleftrightarrow> (let lower = u_lower U line in
     contains_any lower (map lit [''error'', ''failed'', ''failure'', ''panic'', ''assert'', ''expected'', ''actual'', ''test result''])
     \<or> starts_with lower (lit ''----'')
     \<or> contains lower (lit ''thread '' @ [39])
     \<or> contains_any lower (map lit [''stack backtrace'', ''warning:'']))"

definition cargo_relevant_line :: "unicode \<Rightarrow> rstr \<Rightarrow> bool" where
  "cargo_relevant_line U line \<longleftrightarrow> test_relevant_line U line
     \<or> contains_any (u_lower U line) (map lit [''compiling '', ''finished '', ''running '', ''warning:'', ''error[''])"

definition git_diff_relevant_line :: "rstr \<Rightarrow> bool" where
  "git_diff_relevant_line line \<longleftrightarrow>
     list_ex (starts_with line) (map lit [''diff --git'', ''index '', ''--- '', ''+++ '', ''@@'', ''+'', ''-''])"

definition select_lines :: "rstr \<Rightarrow> (rstr \<Rightarrow> bool) \<Rightarrow> rstr" where
  "select_lines output keep =
     (let kept = filter keep (lines output); omitted = length (filter (\<lambda>l. \<not> keep l) (lines output))
      in join [10] (if 0 < omitted \<and> kept \<noteq> [] then kept @ [lit ''['' @ show_nat omitted @ lit '' non-essential lines omitted]''] else kept))"

definition limit_lines :: "rstr \<Rightarrow> nat \<Rightarrow> rstr \<Rightarrow> rstr" where
  "limit_lines output max_lines label =
     (let total = length (lines output) in
      if total \<le> max_lines then output
      else cr_content (line_window output max_lines) @ [10] @ lit ''['' @ label @ lit '' truncated: '' @ show_nat total @ lit '' total lines]'')"

text \<open>The choice of the filter by the command.\<close>
definition filtered_output :: "unicode \<Rightarrow> rstr \<Rightarrow> rstr \<Rightarrow> command_compression_mode \<times> rstr" where
  "filtered_output U lower output =
     (if looks_like_cargo lower then (Cargo, select_lines output (cargo_relevant_line U))
      else if contains lower (lit ''pytest'') then (Pytest, select_lines output (test_relevant_line U))
      else if looks_like_node_test lower then (NodeTest, select_lines output (test_relevant_line U))
      else if starts_with lower (lit ''git status'') \<or> contains lower (lit '' git status'') then (GitStatus, limit_lines output 160 (lit ''git status output''))
      else if starts_with lower (lit ''git diff'') \<or> contains lower (lit '' git diff'') then (GitDiff, select_lines output git_diff_relevant_line)
      else if starts_with lower (lit ''git log'') \<or> contains lower (lit '' git log'') then (GitLog, limit_lines output 120 (lit ''git log output''))
      else if looks_like_search lower then (SearchOutput, limit_lines output 200 (lit ''search output''))
      else (GenericOutput, []))"

definition compress_command_output :: "unicode \<Rightarrow> rstr \<Rightarrow> rstr \<Rightarrow> nat \<Rightarrow> command_compression_result" where
  "compress_command_output U command output max_chars =
     (let original_chars = length output in
      if max_chars = 0 \<or> original_chars \<le> max_chars then command_result output Passthrough original_chars
      else let lower = u_lower U command in
        if command_requests_verbose_output lower then from_compression (head_tail_with_notice output max_chars ToolOutput) VerbosePreserved
        else case filtered_output U lower output of (mode, filtered) \<Rightarrow>
          command_result
            (if trim filtered = [] then cr_content (head_tail_with_notice output max_chars ToolOutput)
             else if length filtered > max_chars then cr_content (head_tail_with_notice filtered max_chars ToolOutput)
             else filtered) mode original_chars)"

section \<open>Snippets, search results, errors\<close>

record knowledge_snippet =
  sn_text :: rstr
  sn_original_chars :: nat
  sn_output_chars :: nat
  sn_truncated :: bool

definition knowledge_snippet_of :: "rstr \<Rightarrow> nat \<Rightarrow> knowledge_snippet" where
  "knowledge_snippet_of content max_chars =
     (let snippet = map (\<lambda>c. if c = 10 then 32 else c) (preview_text (trim content) max_chars)
      in \<lparr>sn_text = snippet, sn_original_chars = length content, sn_output_chars = length snippet, sn_truncated = (length snippet < length content)\<rparr>)"

definition knowledge_snippet_text :: "rstr \<Rightarrow> nat \<Rightarrow> rstr" where
  "knowledge_snippet_text content max_chars = sn_text (knowledge_snippet_of content max_chars)"

definition format_knowledge_result :: "nat \<Rightarrow> rstr \<Rightarrow> rstr \<Rightarrow> rstr \<Rightarrow> rstr \<Rightarrow> nat \<Rightarrow> rstr" where
  "format_knowledge_result index title collection path content max_chars =
     lit ''Result '' @ show_nat (index + 1) @ lit '':'' @ [10] @ lit ''title: '' @ title @ [10] @ lit ''collection: '' @ collection
     @ [10] @ lit ''path: '' @ path @ [10] @ lit ''content:'' @ [10] @ knowledge_snippet_text content max_chars"

record search_result_summary_item =
  sr_title :: rstr
  sr_url :: rstr
  sr_snippet :: rstr

definition render_search_results :: "rstr \<Rightarrow> rstr \<Rightarrow> search_result_summary_item list \<Rightarrow> nat \<Rightarrow> rstr" where
  "render_search_results query engine results max_snippet_chars =
     join [10] ([lit ''# Browser Search Results: '' @ query, lit ''Engine: '' @ engine, lit ''Results: '' @ show_nat (length results), []]
       @ concat (map (\<lambda>r. [lit ''## '' @ sr_title r, lit ''URL: '' @ sr_url r]
           @ (if trim (sr_snippet r) \<noteq> [] then [knowledge_snippet_text (sr_snippet r) max_snippet_chars] else []) @ [[]]) results))"

definition compact_external_error_message :: "unicode \<Rightarrow> (rstr \<Rightarrow> bool) \<Rightarrow> rstr \<Rightarrow> rstr \<Rightarrow> rstr" where
  "compact_external_error_message U is_realtime channel error =
     (if is_realtime channel
      then let lowered = u_lower U error in
        if contains lowered (lit ''task preempted by new input'') then
          [25910, 21040, 20320, 30340, 26032, 28040, 24687, 20102, 65292, 25105, 24050, 32463, 20999,
           21040, 26368, 26032, 36825, 26465, 26469, 32487, 32493, 22788, 29702, 12290]
        else if contains lowered (lit ''timed out'') then
          [25265, 27465, 65292, 25105, 36825, 27425, 26412, 22320, 25512, 29702, 36229, 26102, 20102,
           12290, 35831, 20877, 21457, 19968, 27425, 26356, 30701, 19968, 28857, 30340, 28040, 24687,
           65292, 25105, 20250, 29992, 26356, 36731, 30340, 19978, 19979, 25991, 32487, 32493, 22238,
           22797, 12290]
        else if contains lowered (lit ''provider error'') \<or> contains lowered (lit ''inference failed'') \<or> contains lowered (lit ''decode failed'') then
          [25265, 27465, 65292, 25105, 21018, 25165, 26412, 22320, 25512, 29702, 20986, 20102, 28857,
           38382, 39064, 12290, 36825, 26465, 38169, 35823, 24050, 32463, 34987, 31995, 32479, 35760,
           24405, 65292, 20320, 21487, 20197, 30452, 25509, 20877, 21457, 19968, 27425, 65292, 25105,
           20250, 23613, 37327, 29992, 26356, 36731, 30340, 36335, 24452, 22238, 22797, 12290]
        else
          [25265, 27465, 65292, 25105, 36825, 27425, 22788, 29702, 28040, 24687, 26102, 36935, 21040,
           20869, 37096, 38169, 35823, 12290, 20320, 21487, 20197, 30452, 25509, 20877, 21457, 19968,
           27425, 65292, 25105, 20250, 37325, 26032, 23581, 35797, 12290]
      else lit ''I encountered an error: '' @ error)"

section \<open>Known JSON answers\<close>

definition str_or_empty :: "json \<Rightarrow> string \<Rightarrow> rstr" where
  "str_or_empty j k = (case Option.bind (json_get j (lit k)) as_str of Some s \<Rightarrow> s | None \<Rightarrow> [])"

definition u64_or_zero :: "json \<Rightarrow> string \<Rightarrow> u64" where
  "u64_or_zero j k = (case Option.bind (json_get j (lit k)) as_u64 of Some n \<Rightarrow> n | None \<Rightarrow> 0)"

definition compact_item :: "json \<Rightarrow> json" where
  "compact_item j = JObj [(lit ''full_name'', JStr (str_or_empty j ''full_name'')), (lit ''html_url'', JStr (str_or_empty j ''html_url'')),
     (lit ''stargazers_count'', JInt (uint (u64_or_zero j ''stargazers_count''))), (lit ''description'', JStr (str_or_empty j ''description'')),
     (lit ''language'', JStr (str_or_empty j ''language'')), (lit ''updated_at'', JStr (str_or_empty j ''updated_at''))]"

text \<open>\<^verbatim>\<open>serde_json::from_str\<close> and \<^verbatim>\<open>to_string_pretty\<close> are parameters.\<close>
definition compact_known_json_api_response :: "(rstr \<Rightarrow> json option) \<Rightarrow> (json \<Rightarrow> rstr option) \<Rightarrow> rstr \<Rightarrow> rstr \<Rightarrow> nat \<Rightarrow> rstr option" where
  "compact_known_json_api_response parse pretty url txt max_items =
     (if \<not> contains (to_ascii_lowercase url) (lit ''api.github.com/search/repositories'') then None
      else Option.bind (parse txt) (\<lambda>payload.
        Option.bind (Option.bind (json_get payload (lit ''items'')) as_array) (\<lambda>items.
          pretty (JObj [(lit ''total_count'', JInt (uint (u64_or_zero payload ''total_count''))),
            (lit ''incomplete_results'', JBool (case Option.bind (json_get payload (lit ''incomplete_results'')) as_bool of Some b \<Rightarrow> b | None \<Rightarrow> False)),
            (lit ''items'', JArr (map compact_item (take max_items items)))]))))"

record structured_fetch_summary =
  fs_content :: rstr
  fs_item_count :: nat

definition summary_line :: "json \<Rightarrow> rstr" where
  "summary_line j =
     (let full_name = (case or_else (Option.bind (json_get j (lit ''full_name'')) as_str) (Option.bind (json_get j (lit ''name'')) as_str) of
            Some s \<Rightarrow> s | None \<Rightarrow> lit ''unknown'')
      in lit ''- '' @ full_name @ lit '' ('' @ show_nat (unat (u64_or_zero j ''stargazers_count'')) @ lit '' stars): '' @ str_or_empty j ''description''
         @ [10] @ lit ''  '' @ str_or_empty j ''html_url'')"

definition summarize_github_search_items :: "(rstr \<Rightarrow> json option) \<Rightarrow> rstr \<Rightarrow> rstr \<Rightarrow> nat \<Rightarrow> structured_fetch_summary option" where
  "summarize_github_search_items parse url txt max_items =
     (if \<not> contains (to_ascii_lowercase url) (lit ''api.github.com/search/'') then None
      else Option.bind (parse txt) (\<lambda>payload.
        Option.bind (Option.bind (json_get payload (lit ''items'')) as_array) (\<lambda>items.
          let summary = map summary_line (take max_items items)
          in if summary = [] then None else Some \<lparr>fs_content = join [10] summary, fs_item_count = length summary\<rparr>)))"

section \<open>What is kept\<close>

lemma contains_joined_line: "l \<in> set ls \<Longrightarrow> contains (join sep ls) l"
proof (induction sep ls rule: join.induct)
  case (3 sep x y ys)
  show ?case
  proof (cases "l = x")
    case True
    then show ?thesis by (auto simp: contains_iff intro: exI [of _ "[]"])
  next
    case False
    then have "contains (join sep (y # ys)) l" using 3 by simp
    then obtain u v where "join sep (y # ys) = u @ l @ v" by (auto simp: contains_iff)
    then show ?thesis by (metis append_assoc contains_iff join.simps(3))
  qed
qed (auto simp: contains_iff intro: exI [of _ "[]"])

lemma cut_content:
  "cr_content (head_tail_with_notice inp max_chars notice) =
     (if max_chars = 0 \<or> length inp \<le> max_chars then inp
      else take (max_chars div 2) inp @ [10, 10] @ lit ''['' @ head_tail_message notice (length inp - max_chars) @ lit '']'' @ [10, 10]
        @ drop (length inp - (max_chars - max_chars div 2)) inp)"
  by (simp add: head_tail_with_notice_def unchanged_def truncated_result_def Let_def take_rev del: lit_Cons)

text \<open>
  Cutting is honest about what it did. A result that is not marked as truncated is the text; one
  that is marked begins and ends with the text's own characters around a note, and the
  characters left out are counted: shown and omitted ones add up to the original.
\<close>
theorem cut_text_is_accounted:
  "let r = head_tail_with_notice inp max_chars notice in
     cr_original_chars r = length inp \<and> cr_output_chars r = length (cr_content r)
     \<and> (if cr_truncated r
        then \<exists>head note tail. cr_content r = head @ note @ tail \<and> length head + length tail + cr_omitted_chars r = length inp
             \<and> prefix head inp \<and> suffix tail inp \<and> length head + length tail = max_chars
        else cr_content r = inp \<and> cr_omitted_chars r = 0)"
proof (cases "max_chars = 0 \<or> length inp \<le> max_chars")
  case True
  then have "head_tail_with_notice inp max_chars notice = unchanged inp" by (simp add: head_tail_with_notice_def Let_def)
  then show ?thesis by (simp add: unchanged_def)
next
  case False
  let ?r = "head_tail_with_notice inp max_chars notice" and ?head = "take (max_chars div 2) inp"
    and ?tail = "drop (length inp - (max_chars - max_chars div 2)) inp"
  have fields: "cr_original_chars ?r = length inp" "cr_output_chars ?r = length (cr_content ?r)" "cr_truncated ?r"
      "cr_omitted_chars ?r = length inp - max_chars"
    using False by (simp_all add: head_tail_with_notice_def truncated_result_def Let_def)
  have "max_chars div 2 \<le> length inp" using False by linarith
  then have "length ?head = max_chars div 2" by simp
  then have "length ?head + length ?tail = max_chars" using False by simp
  moreover have "prefix ?head inp" "suffix ?tail inp" by (simp_all add: take_is_prefix suffix_drop)
  moreover have "cr_content ?r = ?head @ ([10, 10] @ lit ''['' @ head_tail_message notice (length inp - max_chars) @ lit '']'' @ [10, 10]) @ ?tail"
    using False by (simp add: cut_content del: lit_Cons)
  moreover have "length ?head + length ?tail + cr_omitted_chars ?r = length inp"
    unfolding fields(4) \<open>length ?head + length ?tail = max_chars\<close> using False by simp
  ultimately have "\<exists>head note tail. cr_content ?r = head @ note @ tail \<and> length head + length tail + cr_omitted_chars ?r = length inp
      \<and> prefix head inp \<and> suffix tail inp \<and> length head + length tail = max_chars" by blast
  then show ?thesis using fields(1-3) by (simp only: Let_def if_True)
qed

text \<open>
  Failures stay visible. When the output of a test run is too long but its relevant lines fit and
  are not blank, every relevant line is part of the text that is shown.
\<close>
theorem relevant_lines_survive:
  assumes "0 < max_chars" and "max_chars < length output" and "\<not> command_requests_verbose_output (u_lower U command)"
    and "looks_like_cargo (u_lower U command)"
    and "l \<in> set (lines output)" and "cargo_relevant_line U l"
    and "trim (select_lines output (cargo_relevant_line U)) \<noteq> []" and "length (select_lines output (cargo_relevant_line U)) \<le> max_chars"
  shows "cc_mode (compress_command_output U command output max_chars) = Cargo
    \<and> contains (cc_content (compress_command_output U command output max_chars)) l"
proof -
  have "contains (select_lines output (cargo_relevant_line U)) l"
    unfolding select_lines_def Let_def by (rule contains_joined_line) (use assms(5,6) in auto)
  then show ?thesis using assms by (simp add: compress_command_output_def filtered_output_def command_result_def)
qed

theorem relevant_lines_survive_witness:
  "contains (cc_content (compress_command_output ascii_tables (lit ''cargo test'') (lit ''warning: x'' @ 10 # replicate 90 120) 60)) (lit ''warning: x'')"
proof -
  let ?out = "lit ''warning: x'' @ 10 # replicate 90 120"
  have aux: "lines_aux acc (replicate n 120) = (if acc = [] \<and> n = 0 then [] else [rev acc @ replicate n 120])" for acc n
    by (induction n arbitrary: acc) (auto simp: replicate_append_same)
  have lines: "lines ?out = [lit ''warning: x'', replicate 90 120]"
    by (simp add: lines_def strip_cr_def aux)
  have no: "\<not> contains (replicate n 120) (c # p)" if "c \<noteq> 120" for n c p
    using that by (metis contains_iff in_set_conv_decomp append_Cons in_set_replicate)
  have rel: "cargo_relevant_line ascii_tables (lit ''warning: x'')" "\<not> cargo_relevant_line ascii_tables (replicate 90 120)"
    unfolding cargo_relevant_line_def test_relevant_line_def Let_def contains_any_def
    by (simp_all add: ascii_tables_def to_ascii_lowercase_def no starts_with_def)
  have sel: "select_lines ?out (cargo_relevant_line ascii_tables) = lit ''warning: x'' @ 10 # lit ''['' @ show_nat 1 @ lit '' non-essential lines omitted]''"
    unfolding select_lines_def lines by (simp add: rel del: lit_Cons)
  have "show_nat 1 = [49]" by (simp add: show_nat.simps)
  then have "trim (select_lines ?out (cargo_relevant_line ascii_tables)) \<noteq> []" "length (select_lines ?out (cargo_relevant_line ascii_tables)) \<le> 60"
    unfolding sel by (simp_all add: is_ws_def trim_def trim_start_def trim_end_def)
  moreover have "\<not> command_requests_verbose_output (u_lower ascii_tables (lit ''cargo test''))" "looks_like_cargo (u_lower ascii_tables (lit ''cargo test''))"
    by (simp_all add: ascii_tables_def to_ascii_lowercase_def command_requests_verbose_output_def looks_like_cargo_def
      contains_any_def starts_with_def split_whitespace_def is_ws_def)
  moreover have "lit ''warning: x'' \<in> set (lines ?out)" "60 < length ?out" unfolding lines by simp_all
  ultimately show ?thesis
    using relevant_lines_survive [of 60 ?out ascii_tables "lit ''cargo test''" "lit ''warning: x''"] rel(1) by (simp del: lit_Cons)
qed

lemma note_inside: "x \<noteq> c \<Longrightarrow> replicate m c @ x # ys \<noteq> replicate n c"
  by (metis in_set_conv_decomp in_set_replicate)

text \<open>
  The flag of a filtered output compares lengths only: a text that lost characters but gained a longer
  note is reported as not truncated.
\<close>
theorem truncation_flag_can_be_wrong:
  "let r = compress_command_output ascii_tables (lit ''ls'') (replicate 11 97) 10
   in \<not> cc_truncated r \<and> cc_content r \<noteq> replicate 11 97"
  by (simp add: compress_command_output_def filtered_output_def command_result_def ascii_tables_def to_ascii_lowercase_def
    command_requests_verbose_output_def contains_any_def starts_with_def split_whitespace_def is_ws_def looks_like_cargo_def
    looks_like_node_test_def looks_like_search_def cut_content show_nat.simps note_inside)

end
