(* ===== verification/Agent_Session.thy ===== *)
theory Agent_Session
  imports Text_Compression Relation_Traversal Background Retry_Provider
begin

text \<open>
  Messages and sessions of an agent (\<^verbatim>\<open>protocol-core/src/lib.rs\<close>, with the roles of
  \<^verbatim>\<open>infra/src/agent.rs\<close>). The printing of JSON values and of statuses and the JSON form of a
  status are a parameter; the instants a function reads from the clock are arguments.
\<close>

section \<open>Agent roles\<close>

datatype agent_role = Researcher | Trader | RiskAnalyst | Strategist | Custom rstr

definition agent_role_from_str :: "unicode \<Rightarrow> rstr \<Rightarrow> agent_role" where
  "agent_role_from_str U s =
     (let lower = u_lower U s in
      if lower = lit ''researcher'' then Researcher
      else if lower = lit ''trader'' then Trader
      else if lower = lit ''risk_analyst'' then RiskAnalyst
      else if lower = lit ''strategist'' then Strategist
      else if lower = lit ''benshu'' then Custom (lit ''benshu'')
      else Custom s)"

fun agent_role_name :: "agent_role \<Rightarrow> rstr" where
  "agent_role_name Researcher = lit ''researcher''"
| "agent_role_name Trader = lit ''trader''"
| "agent_role_name RiskAnalyst = lit ''risk_analyst''"
| "agent_role_name Strategist = lit ''strategist''"
| "agent_role_name (Custom name) = name"

fun agent_role_description :: "agent_role \<Rightarrow> rstr" where
  "agent_role_description Researcher = lit ''Specialized in deep research, web search, and data analysis.''"
| "agent_role_description Trader = lit ''Specialized in executing trades and managing orders.''"
| "agent_role_description RiskAnalyst = lit ''Specialized in assessing risks and providing safety scores.''"
| "agent_role_description Strategist = lit ''Specialized in high-level planning and decision making.''"
| "agent_role_description (Custom name) =
     (if name = lit ''benshu'' then lit ''Prime agent responsible for user interaction, coordination, governance, and delivery.''
      else lit ''Specialized agent for custom tasks.'')"

fun agent_role_capabilities :: "agent_role \<Rightarrow> rstr list" where
  "agent_role_capabilities Researcher = map lit [''search'', ''analyze'', ''synthesize'']"
| "agent_role_capabilities Trader = map lit [''trade'', ''order_management'', ''balance_check'']"
| "agent_role_capabilities RiskAnalyst = map lit [''risk_assessment'', ''safety_audit'', ''metrics'']"
| "agent_role_capabilities Strategist = map lit [''planning'', ''orchestration'', ''optimization'']"
| "agent_role_capabilities (Custom name) =
     (if name = lit ''benshu'' then map lit [''interaction'', ''coordination'', ''governance'', ''delivery'']
      else [lit ''custom_task''])"

section \<open>Content\<close>

datatype role = SystemRole | UserRole | AssistantRole | ToolRole

fun role_as_str :: "role \<Rightarrow> rstr" where
  "role_as_str SystemRole = lit ''system''"
| "role_as_str UserRole = lit ''user''"
| "role_as_str AssistantRole = lit ''assistant''"
| "role_as_str ToolRole = lit ''tool''"

datatype image_source = ImageBase64 rstr rstr | ImageUrl rstr
datatype audio_source = AudioBase64 rstr rstr | AudioUrl rstr
datatype video_source = VideoBase64 rstr rstr | VideoUrl rstr

text \<open>A tool call has an identifier, a name and arguments; a tool result the identifier of its call, a name if any, and the content.\<close>
datatype content_part =
    TextPart rstr
  | ImagePart image_source
  | ToolCallPart rstr rstr json
  | ToolResultPart rstr "rstr option" rstr
  | AudioPart audio_source
  | VideoPart video_source

datatype content =
    TextContent rstr
  | Parts "content_part list"
  | FactContent fact
  | SystemNotification rstr
  | CancelledContent rstr

text \<open>\<open>show_json\<close> is the \<^verbatim>\<open>Display\<close> of a JSON value.\<close>
fun part_as_text :: "(json \<Rightarrow> rstr) \<Rightarrow> content_part \<Rightarrow> rstr" where
  "part_as_text show_json (TextPart t) = t"
| "part_as_text show_json (ToolCallPart i name arguments) = lit ''[Tool Call: '' @ name @ lit '' with args: '' @ show_json arguments @ lit '']''"
| "part_as_text show_json (ToolResultPart i name content) =
     lit ''[Tool Result: '' @ (case name of Some n \<Rightarrow> n | None \<Rightarrow> lit ''unknown_tool'') @ lit ''] '' @ content"
| "part_as_text show_json (ImagePart s) = lit ''[Image Content]''"
| "part_as_text show_json (AudioPart s) = lit ''[Audio Content]''"
| "part_as_text show_json (VideoPart s) = lit ''[Video Content]''"

fun content_as_text :: "(json \<Rightarrow> rstr) \<Rightarrow> content \<Rightarrow> rstr" where
  "content_as_text show_json (TextContent t) = t"
| "content_as_text show_json (Parts parts) = join [10] (map (part_as_text show_json) parts)"
| "content_as_text show_json (FactContent f) = lit ''[Fact: '' @ fc_category f @ lit ''] '' @ fc_content f"
| "content_as_text show_json (SystemNotification notice) = lit ''[System] '' @ notice"
| "content_as_text show_json (CancelledContent reason) = lit ''[Cancelled] Reason: '' @ reason"

fun soft_trim_part :: "nat \<Rightarrow> content_part \<Rightarrow> content_part" where
  "soft_trim_part limit (ToolResultPart i name content) = ToolResultPart i name (cr_content (head_tail_with_notice content limit ContextSafety))"
| "soft_trim_part limit p = p"

definition content_soft_trim :: "nat \<Rightarrow> content \<Rightarrow> content" where
  "content_soft_trim limit c =
     (if limit < 100 then c
      else case c of
        TextContent t \<Rightarrow> TextContent (cr_content (head_tail_with_notice t limit ContextSafety))
      | Parts parts \<Rightarrow> Parts (map (soft_trim_part limit) parts)
      | _ \<Rightarrow> c)"

fun hard_clear_part :: "content_part \<Rightarrow> content_part" where
  "hard_clear_part (TextPart t) = TextPart (lit ''[TEXT_CLEARED]'')"
| "hard_clear_part (ToolResultPart i name content) = ToolResultPart i name (lit ''[RESULT_CLEARED]'')"
| "hard_clear_part p = p"

fun content_hard_clear :: "content \<Rightarrow> content" where
  "content_hard_clear (TextContent t) = TextContent (lit ''[CONTENT_CLEARED_TO_SAVE_CONTEXT_WINDOW]'')"
| "content_hard_clear (Parts parts) = Parts (map hard_clear_part parts)"
| "content_hard_clear c = c"

section \<open>Messages\<close>

record message =
  ms_role :: role
  ms_content :: content
  ms_name :: "rstr option"
  ms_unverified :: bool
  ms_source_collection :: "rstr option"
  ms_source_path :: "rstr option"
  ms_utility_score :: f32
  ms_last_accessed :: time
  ms_created_at :: time
  ms_confidence :: f32
  ms_used_experience_ids :: "rstr list"
  ms_used_anti_pattern_ids :: "rstr list"
  ms_metadata :: "rstr \<rightharpoonup> rstr"

definition default_confidence :: f32 where "default_confidence = Finite 1"
definition default_utility :: f32 where "default_utility = Finite (1 / 2)"
definition default_session_contract_version :: u32 where "default_session_contract_version = 1"

definition message_new :: "time \<Rightarrow> role \<Rightarrow> content \<Rightarrow> message" where
  "message_new now r c = \<lparr>ms_role = r, ms_content = c, ms_name = None, ms_unverified = False, ms_source_collection = None,
     ms_source_path = None, ms_utility_score = Finite (1 / 2), ms_last_accessed = now, ms_created_at = now, ms_confidence = Finite 1,
     ms_used_experience_ids = [], ms_used_anti_pattern_ids = [], ms_metadata = Map.empty\<rparr>"

definition system_message :: "time \<Rightarrow> content \<Rightarrow> message" where "system_message now c = message_new now SystemRole c"
definition user_message :: "time \<Rightarrow> content \<Rightarrow> message" where "user_message now c = message_new now UserRole c"
definition assistant_message :: "time \<Rightarrow> content \<Rightarrow> message" where "assistant_message now c = message_new now AssistantRole c"

definition tool_result :: "time \<Rightarrow> rstr \<Rightarrow> rstr \<Rightarrow> message" where
  "tool_result now tool_call_id content = message_new now ToolRole (Parts [ToolResultPart tool_call_id None content])"

definition put_metadata :: "string \<Rightarrow> rstr \<Rightarrow> message \<Rightarrow> message" where
  "put_metadata k v m = m\<lparr>ms_metadata := (ms_metadata m)(lit k \<mapsto> v)\<rparr>"

text \<open>The name goes to the first tool result only.\<close>
fun name_first_result :: "rstr \<Rightarrow> content_part list \<Rightarrow> content_part list" where
  "name_first_result tool_name [] = []"
| "name_first_result tool_name (ToolResultPart i name content # parts) = ToolResultPart i (Some tool_name) content # parts"
| "name_first_result tool_name (p # parts) = p # name_first_result tool_name parts"

definition with_tool_name :: "rstr \<Rightarrow> message \<Rightarrow> message" where
  "with_tool_name tool_name m = put_metadata ''tool_name'' tool_name
     (case ms_content m of Parts parts \<Rightarrow> m\<lparr>ms_content := Parts (name_first_result tool_name parts)\<rparr> | _ \<Rightarrow> m)"

definition runtime_tool_error_result :: "time \<Rightarrow> rstr \<Rightarrow> rstr \<Rightarrow> rstr \<Rightarrow> message" where
  "runtime_tool_error_result now tool_call_id tool_name content =
     put_metadata ''tool_name'' tool_name (put_metadata ''tool_error_origin'' (lit ''runtime'') (put_metadata ''tool_error'' (lit ''true'')
       (put_metadata ''tool_message_kind'' (lit ''error'') (with_tool_name tool_name (tool_result now tool_call_id content)))))"

definition with_name :: "rstr \<Rightarrow> message \<Rightarrow> message" where
  "with_name name m = m\<lparr>ms_name := Some name\<rparr>"

definition message_text :: "(json \<Rightarrow> rstr) \<Rightarrow> message \<Rightarrow> rstr" where
  "message_text show_json m = content_as_text show_json (ms_content m)"

definition message_soft_trim :: "nat \<Rightarrow> message \<Rightarrow> message" where
  "message_soft_trim limit m = m\<lparr>ms_content := content_soft_trim limit (ms_content m)\<rparr>"

definition message_hard_clear :: "message \<Rightarrow> message" where
  "message_hard_clear m = m\<lparr>ms_content := content_hard_clear (ms_content m)\<rparr>"

section \<open>Ownership of a task\<close>

record tool_call =
  tc_id :: rstr
  tc_name :: rstr
  tc_arguments :: json

record task_ownership =
  ow_visible_owner :: agent_role
  ow_execution_owner :: agent_role
  ow_memory_owner :: agent_role
  ow_approval_owner :: agent_role
  ow_final_response_owner :: agent_role
  ow_session_id :: "rstr option"

definition ownership_direct :: "agent_role \<Rightarrow> rstr option \<Rightarrow> task_ownership" where
  "ownership_direct owner session_id = \<lparr>ow_visible_owner = owner, ow_execution_owner = owner, ow_memory_owner = owner,
     ow_approval_owner = owner, ow_final_response_owner = owner, ow_session_id = session_id\<rparr>"

definition prime_owned :: "agent_role \<Rightarrow> agent_role \<Rightarrow> rstr option \<Rightarrow> task_ownership" where
  "prime_owned prime_owner execution_owner session_id = \<lparr>ow_visible_owner = prime_owner, ow_execution_owner = execution_owner,
     ow_memory_owner = prime_owner, ow_approval_owner = prime_owner, ow_final_response_owner = prime_owner, ow_session_id = session_id\<rparr>"

datatype delegation_mode = InternalRecommendation | InternalAssignment | SessionTransfer

record delegation_record =
  dr_delegated_by :: agent_role
  dr_delegated_to :: agent_role
  dr_mode :: delegation_mode
  dr_task_owner :: agent_role
  dr_session_id :: "rstr option"
  dr_summary :: "rstr option"

section \<open>The status of a session and its trace in the messages\<close>

text \<open>A clarification has its question and the original request, an approval the tool and its arguments.\<close>
datatype session_status =
    Thinking
  | PendingTools
  | AwaitingClarification rstr rstr
  | AwaitingApproval rstr rstr
  | Executing
  | Completed
  | Failed rstr

fun status_label :: "session_status \<Rightarrow> rstr" where
  "status_label (AwaitingClarification c r) = lit ''awaiting_clarification''"
| "status_label (AwaitingApproval t a) = lit ''awaiting_approval''"
| "status_label Thinking = lit ''thinking''"
| "status_label PendingTools = lit ''pending_tools''"
| "status_label Executing = lit ''executing''"
| "status_label Completed = lit ''completed''"
| "status_label (Failed e) = lit ''failed''"

text \<open>\<^verbatim>\<open>encode_json\<close>, \<^verbatim>\<open>decode_json\<close> and the debug form of a status.\<close>
record status_env =
  se_encode :: "session_status \<Rightarrow> rstr option"
  se_decode :: "rstr \<Rightarrow> session_status option"
  se_debug :: "session_status \<Rightarrow> rstr"

definition status_apply_metadata :: "status_env \<Rightarrow> session_status \<Rightarrow> message \<Rightarrow> message" where
  "status_apply_metadata E s m =
     (let m = put_metadata ''session_status'' (status_label s) m
      in case se_encode E s of Some encoded \<Rightarrow> put_metadata ''session_status_json'' encoded m | None \<Rightarrow> m)"

definition decode_from_message :: "status_env \<Rightarrow> message \<Rightarrow> session_status option" where
  "decode_from_message E m = Option.bind (ms_metadata m (lit ''session_status_json'')) (se_decode E)"

record clarification_state =
  cl_clarification :: rstr
  cl_original_request :: rstr

datatype clarification_event = Awaiting | StatusSurface | Resolved | CancelledEvent

fun event_status_kind :: "clarification_event \<Rightarrow> rstr" where
  "event_status_kind Awaiting = lit ''awaiting_clarification''"
| "event_status_kind StatusSurface = lit ''awaiting_clarification''"
| "event_status_kind Resolved = lit ''thinking''"
| "event_status_kind CancelledEvent = lit ''failed''"

definition as_session_status :: "clarification_state \<Rightarrow> session_status" where
  "as_session_status c = AwaitingClarification (cl_clarification c) (cl_original_request c)"

definition event_status :: "clarification_state \<Rightarrow> clarification_event \<Rightarrow> rstr option \<Rightarrow> session_status" where
  "event_status c event failure_reason =
     (case event of
        Resolved \<Rightarrow> Thinking
      | CancelledEvent \<Rightarrow> Failed (case failure_reason of Some r \<Rightarrow> r | None \<Rightarrow> lit ''clarification_cancelled'')
      | _ \<Rightarrow> as_session_status c)"

definition clarification_apply_metadata :: "status_env \<Rightarrow> clarification_state \<Rightarrow> clarification_event \<Rightarrow> rstr option \<Rightarrow> message \<Rightarrow> message" where
  "clarification_apply_metadata E c event failure_reason m =
     (let m = status_apply_metadata E (event_status c event failure_reason) m;
          m = put_metadata ''clarification_prompt'' (cl_clarification c) m;
          m = put_metadata ''clarification_original_request'' (cl_original_request c) m;
          m = put_metadata ''clarification_status_kind'' (event_status_kind event) m
      in case event of
           Awaiting \<Rightarrow> m
         | StatusSurface \<Rightarrow> put_metadata ''clarification_status_surface'' (lit ''true'') m
         | Resolved \<Rightarrow> put_metadata ''clarification_resolved'' (lit ''true'') m
         | CancelledEvent \<Rightarrow>
             let m = put_metadata ''clarification_cancelled'' (lit ''true'') m
             in case failure_reason of
                  Some reason \<Rightarrow> if trim reason \<noteq> [] then put_metadata ''clarification_failure_reason'' reason m else m
                | None \<Rightarrow> m)"

definition has_metadata :: "message \<Rightarrow> string \<Rightarrow> bool" where
  "has_metadata m k \<longleftrightarrow> ms_metadata m (lit k) \<noteq> None"

text \<open>One message of the history: an answer, or nothing to say and on to the message before it.\<close>
definition status_answer :: "status_env \<Rightarrow> message \<Rightarrow> clarification_state option option" where
  "status_answer E m =
     (case decode_from_message E m of
        Some Thinking \<Rightarrow> if has_metadata m ''clarification_resolved'' then Some None else None
      | Some (Failed _) \<Rightarrow> if has_metadata m ''clarification_cancelled'' then Some None else None
      | Some (AwaitingClarification c r) \<Rightarrow> Some (Some \<lparr>cl_clarification = c, cl_original_request = r\<rparr>)
      | _ \<Rightarrow> None)"

definition label_answer :: "message \<Rightarrow> clarification_state option option" where
  "label_answer m =
     (let label = ms_metadata m (lit ''session_status'') in
      if label = Some (lit ''thinking'') \<and> has_metadata m ''clarification_resolved'' then Some None
      else if label = Some (lit ''failed'') \<and> has_metadata m ''clarification_cancelled'' then Some None
      else if label = Some (lit ''awaiting_clarification'')
      then Some (Option.bind (ms_metadata m (lit ''clarification_prompt'')) (\<lambda>c.
             Option.bind (ms_metadata m (lit ''clarification_original_request'')) (\<lambda>r.
               Some \<lparr>cl_clarification = c, cl_original_request = r\<rparr>)))
      else None)"

fun recover_backwards :: "status_env \<Rightarrow> message list \<Rightarrow> clarification_state option" where
  "recover_backwards E [] = None"
| "recover_backwards E (m # older) =
     (case status_answer E m of
        Some r \<Rightarrow> r
      | None \<Rightarrow> (case label_answer m of Some r \<Rightarrow> r | None \<Rightarrow> recover_backwards E older))"

definition recover_from_history :: "status_env \<Rightarrow> message list \<Rightarrow> clarification_state option" where
  "recover_from_history E history = recover_backwards E (rev history)"

section \<open>Sessions\<close>

record session_lifecycle =
  lc_contract_version :: u32
  lc_archived_at :: "time option"
  lc_archive_reason :: "rstr option"
  lc_retention_until :: "time option"
  lc_last_recovered_at :: "time option"
  lc_recovered_from :: "rstr option"

definition default_session_lifecycle :: session_lifecycle where
  "default_session_lifecycle = \<lparr>lc_contract_version = default_session_contract_version, lc_archived_at = None, lc_archive_reason = None,
     lc_retention_until = None, lc_last_recovered_at = None, lc_recovered_from = None\<rparr>"

record agent_session =
  ag_id :: rstr
  ag_messages :: "message list"
  ag_step :: nat
  ag_status :: session_status
  ag_updated_at :: time
  ag_is_distilled :: bool
  ag_hardened_skills :: "rstr list"
  ag_agent_role :: "rstr option"
  ag_max_steps :: nat
  ag_executed_tools :: "rstr list"
  ag_lifecycle :: session_lifecycle
  ag_background_envelope :: "background_envelope option"

definition agent_session_new :: "time \<Rightarrow> rstr \<Rightarrow> agent_session" where
  "agent_session_new now i = \<lparr>ag_id = i, ag_messages = [], ag_step = 0, ag_status = Thinking, ag_updated_at = now,
     ag_is_distilled = False, ag_hardened_skills = [], ag_agent_role = None, ag_max_steps = 10, ag_executed_tools = [],
     ag_lifecycle = default_session_lifecycle, ag_background_envelope = None\<rparr>"

text \<open>The clock is read twice.\<close>
definition archive_session :: "time \<Rightarrow> time \<Rightarrow> rstr option \<Rightarrow> time option \<Rightarrow> agent_session \<Rightarrow> agent_session" where
  "archive_session now1 now2 reason retention_until s =
     s\<lparr>ag_lifecycle := (ag_lifecycle s)\<lparr>lc_archived_at := Some now1,
         lc_archive_reason := (case reason of Some r \<Rightarrow> if trim r \<noteq> [] then Some r else None | None \<Rightarrow> None),
         lc_retention_until := retention_until\<rparr>,
       ag_updated_at := now2\<rparr>"

definition mark_recovered :: "time \<Rightarrow> time \<Rightarrow> rstr \<Rightarrow> agent_session \<Rightarrow> agent_session" where
  "mark_recovered now1 now2 source s =
     s\<lparr>ag_lifecycle := (ag_lifecycle s)\<lparr>lc_last_recovered_at := Some now1, lc_recovered_from := Some source\<rparr>, ag_updated_at := now2\<rparr>"

definition is_archived :: "agent_session \<Rightarrow> bool" where
  "is_archived s \<longleftrightarrow> lc_archived_at (ag_lifecycle s) \<noteq> None"

definition retention_expired_at :: "agent_session \<Rightarrow> time \<Rightarrow> bool" where
  "retention_expired_at s now \<longleftrightarrow> is_archived s
     \<and> (case lc_retention_until (ag_lifecycle s) of Some deadline \<Rightarrow> deadline \<le> now | None \<Rightarrow> False)"

fun valid_transition :: "session_status \<Rightarrow> session_status \<Rightarrow> bool" where
  "valid_transition Thinking PendingTools = True"
| "valid_transition Thinking (AwaitingClarification _ _) = True"
| "valid_transition Thinking Completed = True"
| "valid_transition Thinking (Failed _) = True"
| "valid_transition PendingTools (AwaitingClarification _ _) = True"
| "valid_transition PendingTools (AwaitingApproval _ _) = True"
| "valid_transition PendingTools Executing = True"
| "valid_transition PendingTools (Failed _) = True"
| "valid_transition (AwaitingClarification _ _) Thinking = True"
| "valid_transition (AwaitingClarification _ _) (Failed _) = True"
| "valid_transition (AwaitingApproval _ _) Executing = True"
| "valid_transition (AwaitingApproval _ _) (Failed _) = True"
| "valid_transition Executing Thinking = True"
| "valid_transition Executing Completed = True"
| "valid_transition Executing (Failed _) = True"
| "valid_transition Completed Thinking = True"
| "valid_transition (Failed _) Thinking = True"
| "valid_transition _ _ = False"

definition set_status :: "status_env \<Rightarrow> time \<Rightarrow> session_status \<Rightarrow> agent_session \<Rightarrow> agent_session \<times> (unit error + unit)" where
  "set_status E now new_status s =
     (if ag_status s = new_status \<or> valid_transition (ag_status s) new_status
      then (s\<lparr>ag_status := new_status, ag_updated_at := now\<rparr>, Inr ())
      else (s, Inl (Agent (lit ''Invalid state transition for session '' @ ag_id s @ lit '': '' @ se_debug E (ag_status s)
             @ lit '' -> '' @ se_debug E new_status))))"

section \<open>Recovery of a clarification\<close>

text \<open>
  A history as it is written: messages without a status, messages with the status of the session,
  and messages with an event of a clarification. The messages start without status entries.
\<close>
datatype history_entry =
    PlainMessage message
  | StatusMessage session_status message
  | ClarificationMessage clarification_state clarification_event "rstr option" message

fun written :: "status_env \<Rightarrow> history_entry \<Rightarrow> message" where
  "written E (PlainMessage m) = m"
| "written E (StatusMessage s m) = status_apply_metadata E s m"
| "written E (ClarificationMessage c event reason m) = clarification_apply_metadata E c event reason m"

fun entry_message :: "history_entry \<Rightarrow> message" where
  "entry_message (PlainMessage m) = m"
| "entry_message (StatusMessage s m) = m"
| "entry_message (ClarificationMessage c event reason m) = m"

definition fresh_message :: "message \<Rightarrow> bool" where
  "fresh_message m \<longleftrightarrow> list_all (\<lambda>k. \<not> has_metadata m k)
     [''session_status'', ''session_status_json'', ''clarification_resolved'', ''clarification_cancelled'']"

text \<open>The clarification that is open after one more entry.\<close>
fun track_clarification :: "clarification_state option \<Rightarrow> history_entry \<Rightarrow> clarification_state option" where
  "track_clarification open_one (PlainMessage m) = open_one"
| "track_clarification open_one (StatusMessage s m) =
     (case s of AwaitingClarification c r \<Rightarrow> Some \<lparr>cl_clarification = c, cl_original_request = r\<rparr> | _ \<Rightarrow> open_one)"
| "track_clarification open_one (ClarificationMessage c event reason m) =
     (if event = Awaiting \<or> event = StatusSurface then Some c else None)"

definition status_codec_ok :: "status_env \<Rightarrow> bool" where
  "status_codec_ok E \<longleftrightarrow> (\<forall>s. \<exists>e. se_encode E s = Some e \<and> se_decode E e = Some s)"

lemma put_metadata_lookup [simp]: "ms_metadata (put_metadata k v m) x = (if x = lit k then Some v else ms_metadata m x)"
  by (simp add: put_metadata_def)

lemma lit_inject [simp]: "lit a = lit b \<longleftrightarrow> a = b"
  by (simp add: lit_def inj_map_eq_map inj_of_char)

lemma status_answer_written:
  assumes "status_codec_ok E" and "fresh_message (entry_message x)"
  shows "(case status_answer E (written E x) of
      Some r \<Rightarrow> r
    | None \<Rightarrow> (case label_answer (written E x) of Some r \<Rightarrow> r | None \<Rightarrow> open_one)) = track_clarification open_one x"
proof -
  have codec: "\<exists>e. se_encode E s = Some e \<and> se_decode E e = Some s" for s using assms(1) by (simp add: status_codec_ok_def)
  show ?thesis
  proof (cases x)
    case (PlainMessage m)
    then show ?thesis using assms(2)
      by (simp add: fresh_message_def has_metadata_def status_answer_def label_answer_def decode_from_message_def)
  next
    case (StatusMessage s m)
    obtain e where "se_encode E s = Some e" "se_decode E e = Some s" using codec by blast
    then show ?thesis using assms(2) StatusMessage
      by (cases s) (simp_all add: fresh_message_def has_metadata_def status_answer_def label_answer_def decode_from_message_def
        status_apply_metadata_def Let_def del: lit_Cons lit_Nil)
  next
    case (ClarificationMessage c event reason m)
    obtain e where "se_encode E (event_status c event reason) = Some e" "se_decode E e = Some (event_status c event reason)" using codec by blast
    then show ?thesis using assms(2) ClarificationMessage
      by (cases event) (auto simp: fresh_message_def has_metadata_def status_answer_def label_answer_def decode_from_message_def
        clarification_apply_metadata_def status_apply_metadata_def event_status_def as_session_status_def Let_def
        split: option.split simp del: lit_Cons lit_Nil)
  qed
qed

text \<open>
  C20. The clarification recovered from a history is the one that is open at its end: the last
  question that no later event resolved or cancelled, whatever messages and statuses are written
  between and after.
\<close>
theorem recovery_finds_open_clarification:
  assumes "status_codec_ok E" and "\<forall>x \<in> set history. fresh_message (entry_message x)"
  shows "recover_from_history E (map (written E) history) = foldl track_clarification None history"
  using assms(2)
proof (induction history rule: rev_induct)
  case Nil
  show ?case by (simp add: recover_from_history_def)
next
  case (snoc x history)
  then have "recover_backwards E (rev (map (written E) history)) = foldl track_clarification None history"
    by (simp add: recover_from_history_def)
  with status_answer_written [OF assms(1), of x] snoc.prems show ?case by (simp add: recover_from_history_def)
qed

text \<open>A code for statuses: the label, the texts behind their lengths.\<close>
definition sample_status_env :: status_env where
  "sample_status_env =
     \<lparr>se_encode = (\<lambda>s. Some (case s of Thinking \<Rightarrow> [0] | PendingTools \<Rightarrow> [1] | Executing \<Rightarrow> [2] | Completed \<Rightarrow> [3]
        | Failed e \<Rightarrow> 4 # e | AwaitingClarification c r \<Rightarrow> 5 # length c # c @ r | AwaitingApproval t a \<Rightarrow> 6 # length t # t @ a)),
      se_decode = (\<lambda>e. case e of [] \<Rightarrow> None | k # ks \<Rightarrow>
        if k = 0 then Some Thinking else if k = 1 then Some PendingTools else if k = 2 then Some Executing else if k = 3 then Some Completed
        else if k = 4 then Some (Failed ks)
        else case ks of [] \<Rightarrow> None | n # xs \<Rightarrow>
          Some (if k = 5 then AwaitingClarification (take n xs) (drop n xs) else AwaitingApproval (take n xs) (drop n xs))),
      se_debug = status_label\<rparr>"

theorem recovery_finds_open_clarification_witness:
  "recover_from_history sample_status_env (map (written sample_status_env)
     [StatusMessage Thinking (user_message 0 (TextContent [])),
      ClarificationMessage \<lparr>cl_clarification = [63], cl_original_request = [97]\<rparr> Awaiting None (assistant_message 1 (TextContent [])),
      PlainMessage (user_message 2 (TextContent []))]) = Some \<lparr>cl_clarification = [63], cl_original_request = [97]\<rparr>"
proof -
  have "status_codec_ok sample_status_env"
    by (auto simp: status_codec_ok_def sample_status_env_def split: session_status.split)
  then show ?thesis
    by (subst recovery_finds_open_clarification)
      (simp_all add: fresh_message_def has_metadata_def user_message_def assistant_message_def message_new_def)
qed

section \<open>The state machine of a session\<close>

text \<open>The statuses a session goes through, latest first.\<close>
inductive session_run :: "session_status list \<Rightarrow> bool" where
  run_start: "session_run [Thinking]"
| run_step: "session_run (s # ss) \<Longrightarrow> s = t \<or> valid_transition s t \<Longrightarrow> session_run (t # s # ss)"

inductive_cases session_run_Cons: "session_run (t # ss)"

text \<open>Requests for a status, and the statuses they leave behind.\<close>
fun status_log :: "status_env \<Rightarrow> (time \<times> session_status) list \<Rightarrow> agent_session \<Rightarrow> session_status list" where
  "status_log E [] s = [ag_status s]"
| "status_log E ((now, t) # reqs) s = ag_status s # status_log E reqs (fst (set_status E now t s))"

definition serve_statuses :: "status_env \<Rightarrow> (time \<times> session_status) list \<Rightarrow> agent_session \<Rightarrow> agent_session" where
  "serve_statuses E reqs s = foldl (\<lambda>s (now, t). fst (set_status E now t s)) s reqs"

lemma status_log_snoc: "status_log E (reqs @ [(now, t)]) s = status_log E reqs s @ [ag_status (serve_statuses E (reqs @ [(now, t)]) s)]"
  by (induction reqs arbitrary: s) (auto simp: serve_statuses_def)

lemma status_log_last: "\<exists>older. status_log E reqs s = older @ [ag_status (serve_statuses E reqs s)]"
  by (induction reqs rule: rev_induct) (auto simp: status_log_snoc serve_statuses_def)

lemma serve_snoc: "serve_statuses E (reqs @ [(now, t)]) s = fst (set_status E now t (serve_statuses E reqs s))"
  by (simp add: serve_statuses_def)

lemma set_status_moves: "ag_status (fst (set_status E now t s)) = ag_status s \<or> valid_transition (ag_status s) (ag_status (fst (set_status E now t s)))"
  by (simp add: set_status_def)

lemma status_log_run: "session_run (rev (status_log E reqs (agent_session_new now i)))"
proof (induction reqs rule: rev_induct)
  case Nil
  show ?case by (simp add: agent_session_new_def run_start)
next
  case (snoc r reqs)
  obtain ti t where r: "r = (ti, t)" by (cases r)
  obtain older where "status_log E reqs (agent_session_new now i) = older @ [ag_status (serve_statuses E reqs (agent_session_new now i))]"
    using status_log_last by blast
  with snoc have "session_run (ag_status (serve_statuses E reqs (agent_session_new now i)) # rev older)" by simp
  from run_step [OF this] set_status_moves [of E ti t "serve_statuses E reqs (agent_session_new now i)"] show ?case
    unfolding r status_log_snoc serve_snoc \<open>status_log E reqs _ = _\<close> by (metis rev.simps(2) rev_append rev_rev_ident append_Cons append_Nil rev_eq_Cons_iff)
qed

fun tool_phase :: "session_status \<Rightarrow> bool" where
  "tool_phase PendingTools = True"
| "tool_phase Executing = True"
| "tool_phase (AwaitingApproval t a) = True"
| "tool_phase _ = False"

lemma tool_phase_entered: "valid_transition s t \<Longrightarrow> tool_phase t \<Longrightarrow> t \<noteq> PendingTools \<Longrightarrow> tool_phase s"
  by (cases "(s, t)" rule: valid_transition.cases) auto

lemma run_enters_by_pending:
  assumes "session_run tr" and "tr = t # ss" and "tool_phase t"
  shows "\<exists>mid older. tr = mid @ PendingTools # older \<and> list_all tool_phase mid"
  using assms
proof (induction arbitrary: t ss)
  case run_start
  then show ?case by simp
next
  case (run_step s older new)
  show ?case
  proof (cases "new = PendingTools")
    case True
    then show ?thesis by (intro exI [of _ "[]"] exI [of _ "s # older"]) simp
  next
    case False
    then have "tool_phase s" using run_step tool_phase_entered by auto
    then obtain mid rest where "s # older = mid @ PendingTools # rest" "list_all tool_phase mid" using run_step.IH [OF refl] by blast
    then show ?thesis using run_step.prems by (intro exI [of _ "new # mid"] exI [of _ rest]) auto
  qed
qed

text \<open>
  C18. Tools run only after they were announced. However statuses are requested, allowed or not, a
  session that is executing tools has been through \<^verbatim>\<open>PendingTools\<close>, and since then it has only
  waited for approval or executed: no thinking, no clarification and no end of the turn lies between.
\<close>
theorem execution_follows_pending_tools:
  assumes "ag_status (serve_statuses E reqs (agent_session_new now i)) = Executing"
  shows "\<exists>older mid. status_log E reqs (agent_session_new now i) = older @ PendingTools # mid \<and> list_all tool_phase mid"
proof -
  let ?tr = "status_log E reqs (agent_session_new now i)"
  obtain older where "?tr = older @ [Executing]" using status_log_last [of E reqs "agent_session_new now i"] assms by auto
  then obtain mid rest where m: "rev ?tr = mid @ PendingTools # rest" "list_all tool_phase mid"
    using run_enters_by_pending [OF status_log_run [of E reqs now i], of Executing "rev older"] by auto
  have "?tr = rev rest @ PendingTools # rev mid" using arg_cong [OF m(1), of rev] by simp
  moreover have "list_all tool_phase (rev mid)" using m(2) by (simp add: list_all_iff)
  ultimately show ?thesis by blast
qed

theorem execution_follows_pending_tools_witness:
  "let reqs = [(1, PendingTools), (2, AwaitingApproval (lit ''rm'') []), (3, Thinking), (4, Executing)]
   in \<exists>older mid. status_log sample_status_env reqs (agent_session_new 0 []) = older @ PendingTools # mid \<and> list_all tool_phase mid"
  unfolding Let_def
  by (rule execution_follows_pending_tools) (simp add: serve_statuses_def set_status_def agent_session_new_def)

text \<open>
  C35. A refused request changes nothing, and no session is stuck: from every status at most two
  accepted requests lead back to thinking.
\<close>
theorem session_can_resume:
  "(snd (set_status E now t s) = Inr () \<or> fst (set_status E now t s) = s)
   \<and> (\<exists>reqs. length reqs \<le> 2 \<and> ag_status (serve_statuses E reqs s) = Thinking)"
proof -
  have "\<exists>ts. length ts \<le> 2 \<and> ag_status (foldl (\<lambda>s t. fst (set_status E now t s)) s ts) = Thinking"
  proof (cases "ag_status s")
    case PendingTools
    then show ?thesis by (intro exI [of _ "[Executing, Thinking]"]) (simp add: set_status_def)
  next
    case (AwaitingApproval t a)
    then show ?thesis by (intro exI [of _ "[Executing, Thinking]"]) (simp add: set_status_def)
  qed (auto intro!: exI [of _ "[Thinking]"] simp: set_status_def)
  then obtain ts where "length ts \<le> 2" "ag_status (foldl (\<lambda>s t. fst (set_status E now t s)) s ts) = Thinking" by blast
  then have "length (map (Pair now) ts) \<le> 2 \<and> ag_status (serve_statuses E (map (Pair now) ts) s) = Thinking"
    by (simp add: serve_statuses_def foldl_map)
  then have "\<exists>reqs. length reqs \<le> 2 \<and> ag_status (serve_statuses E reqs s) = Thinking" by blast
  moreover have "snd (set_status E now t s) = Inr () \<or> fst (set_status E now t s) = s" by (simp add: set_status_def)
  ultimately show ?thesis by blast
qed

end
