(* ===== verification/Chat_Session.thy ===== *)
theory Chat_Session
  imports Agent_Session Redb_Store
begin

text \<open>
  Conversations on disk (\<^verbatim>\<open>brain/src/session/session.rs\<close>): sessions with their messages,
  branching and rewinding, saving and loading, and the manager that lists, deletes and cleans up.
  The file system is the record of operations \<open>disk\<close> with the laws of the locale \<open>disk_laws\<close>:
  an operation that writes may fail at any time, then the disk it leaves is part of its result.
  A path is the list of its components; a name that is joined to a path has no separator and is
  not a dot or two. \<^verbatim>\<open>anyhow\<close> errors are made from their text by an argument, like the encoders.
\<close>

section \<open>The file system\<close>

type_synonym path = "rstr list"

record ('e, 'fs) disk =
  dk_create_dirs :: "path \<Rightarrow> 'fs \<Rightarrow> 'fs \<times> ('e + unit)"
  dk_write :: "path \<Rightarrow> rstr \<Rightarrow> 'fs \<Rightarrow> 'fs \<times> ('e + unit)"
  dk_remove_dir_all :: "path \<Rightarrow> 'fs \<Rightarrow> 'fs \<times> ('e + unit)"
  dk_read :: "'fs \<Rightarrow> path \<Rightarrow> 'e + rstr"
  dk_exists :: "'fs \<Rightarrow> path \<Rightarrow> bool"
  dk_is_dir :: "'fs \<Rightarrow> path \<Rightarrow> bool"
  dk_read_dir :: "'fs \<Rightarrow> path \<Rightarrow> 'e + ('e + rstr) list"

definition below :: "path \<Rightarrow> path \<Rightarrow> bool" where
  "below dir p \<longleftrightarrow> take (length dir) p = dir"

text \<open>Joining an empty name gives the path itself.\<close>
definition join_path :: "path \<Rightarrow> rstr \<Rightarrow> path" where
  "join_path dir name = (if name = [] then dir else dir @ [name])"

locale disk_laws =
  fixes D :: "('e, 'fs) disk" and files :: "'fs \<Rightarrow> path \<rightharpoonup> rstr"
  assumes create_dirs_files: "files (fst (dk_create_dirs D p fs)) = files fs"
    and write_ok: "dk_write D p s fs = (fs', Inr ()) \<Longrightarrow> files fs' = (files fs)(p \<mapsto> s)"
    and write_frame: "q \<noteq> p \<Longrightarrow> files (fst (dk_write D p s fs)) q = files fs q"
    and remove_ok: "dk_remove_dir_all D p fs = (fs', Inr ()) \<Longrightarrow> below p q \<Longrightarrow> files fs' q = None"
    and remove_partial: "files (fst (dk_remove_dir_all D p fs)) q = files fs q
      \<or> below p q \<and> files (fst (dk_remove_dir_all D p fs)) q = None"
    and read_ok: "files fs p = Some s \<Longrightarrow> dk_read D fs p = Inr s"
    and exists_ok: "files fs q = Some s \<Longrightarrow> below p q \<Longrightarrow> dk_exists D fs p"

section \<open>Sessions\<close>

datatype session_state = ActiveSession | PausedSession | ArchivedSession

record session_config =
  sc_storage_dir :: path
  sc_max_messages :: nat
  sc_auto_save :: bool

definition default_session_config :: session_config where
  "default_session_config = \<lparr>sc_storage_dir = [lit ''.benshu'', lit ''sessions''], sc_max_messages = 0, sc_auto_save = True\<rparr>"

record session_meta =
  sm_id :: rstr
  sm_title :: rstr
  sm_created_at :: time
  sm_last_active :: time
  sm_message_count :: nat
  sm_parent_id :: "rstr option"
  sm_branch_point :: "nat option"
  sm_state :: session_state
  sm_tags :: "rstr \<rightharpoonup> rstr"

record chat_session =
  ch_meta :: session_meta
  ch_messages :: "message list"
  ch_config :: session_config
  ch_dirty :: bool

record ('e, 'fs) chat_env =
  ce_disk :: "('e, 'fs) disk"
  ce_meta :: "('e, session_meta, rstr) codec"
  ce_message :: "('e, message, rstr) codec"
  ce_bail :: "rstr \<Rightarrow> 'e"

definition chat_new :: "rstr \<Rightarrow> time \<Rightarrow> rstr \<Rightarrow> session_config \<Rightarrow> chat_session" where
  "chat_new id_text now title config =
     \<lparr>ch_meta = \<lparr>sm_id = id_text, sm_title = title, sm_created_at = now, sm_last_active = now, sm_message_count = 0,
        sm_parent_id = None, sm_branch_point = None, sm_state = ActiveSession, sm_tags = Map.empty\<rparr>,
      ch_messages = [], ch_config = config, ch_dirty = True\<rparr>"

definition chat_message_count :: "chat_session \<Rightarrow> nat" where
  "chat_message_count s = length (ch_messages s)"

definition set_title :: "rstr \<Rightarrow> chat_session \<Rightarrow> chat_session" where
  "set_title title s = s\<lparr>ch_meta := (ch_meta s)\<lparr>sm_title := title\<rparr>, ch_dirty := True\<rparr>"

definition archive_chat :: "chat_session \<Rightarrow> chat_session" where
  "archive_chat s = s\<lparr>ch_meta := (ch_meta s)\<lparr>sm_state := ArchivedSession\<rparr>, ch_dirty := True\<rparr>"

definition session_dir :: "chat_session \<Rightarrow> path" where
  "session_dir s = join_path (sc_storage_dir (ch_config s)) (sm_id (ch_meta s))"

definition meta_path :: "path \<Rightarrow> path" where
  "meta_path dir = dir @ [lit ''meta.json'']"

definition messages_path :: "path \<Rightarrow> path" where
  "messages_path dir = dir @ [lit ''messages.jsonl'']"

text \<open>One encoded message for each line.\<close>
definition messages_content :: "('e, 'fs) chat_env \<Rightarrow> message list \<Rightarrow> 'e + rstr" where
  "messages_content E messages = res_bind (res_map (to_vec (ce_message E)) messages) (\<lambda>ls. Inr (concat (map (\<lambda>l. l @ [10]) ls)))"

text \<open>A failed save leaves the session as it was.\<close>
definition save_chat :: "('e, 'fs) chat_env \<Rightarrow> chat_session \<Rightarrow> 'fs \<Rightarrow> 'fs \<times> ('e + chat_session)" where
  "save_chat E s fs =
     (if \<not> ch_dirty s then (fs, Inr s)
      else let dir = session_dir s in
        io_then (dk_create_dirs (ce_disk E) dir fs) (\<lambda>_ fs.
        io_then (fs, to_vec (ce_meta E) (ch_meta s)) (\<lambda>meta_json fs.
        io_then (dk_write (ce_disk E) (meta_path dir) meta_json fs) (\<lambda>_ fs.
        io_then (fs, messages_content E (ch_messages s)) (\<lambda>content fs.
        io_then (dk_write (ce_disk E) (messages_path dir) content fs) (\<lambda>_ fs.
          (fs, Inr (s\<lparr>ch_dirty := False\<rparr>))))))))"

definition push_message :: "('e, 'fs) chat_env \<Rightarrow> time \<Rightarrow> message \<Rightarrow> chat_session \<Rightarrow> 'fs \<Rightarrow> 'fs \<times> chat_session" where
  "push_message E now m s fs =
     (let messages = ch_messages s @ [m];
          s = s\<lparr>ch_messages := messages, ch_meta := (ch_meta s)\<lparr>sm_message_count := length messages, sm_last_active := now\<rparr>,
               ch_dirty := True\<rparr>
      in if sc_auto_save (ch_config s)
         then (case save_chat E s fs of (fs, Inr s') \<Rightarrow> (fs, s') | (fs, Inl _) \<Rightarrow> (fs, s))
         else (fs, s))"

definition beyond_text :: "string \<Rightarrow> nat \<Rightarrow> chat_session \<Rightarrow> rstr" where
  "beyond_text what n s = lit ''Cannot '' @ lit what @ lit '' message '' @ show_nat n @ lit '' (session has ''
     @ show_nat (length (ch_messages s)) @ lit '' messages)''"

definition fork_chat :: "('e, 'fs) chat_env \<Rightarrow> rstr \<Rightarrow> time \<Rightarrow> nat \<Rightarrow> rstr \<Rightarrow> chat_session \<Rightarrow> 'e + chat_session" where
  "fork_chat E id_text now at_message branch_title s =
     (if at_message > length (ch_messages s) then Inl (ce_bail E (beyond_text ''fork at'' at_message s))
      else Inr \<lparr>ch_meta = \<lparr>sm_id = id_text, sm_title = branch_title, sm_created_at = now, sm_last_active = now,
             sm_message_count = at_message, sm_parent_id = Some (sm_id (ch_meta s)), sm_branch_point = Some at_message,
             sm_state = ActiveSession, sm_tags = Map.empty\<rparr>,
           ch_messages = take at_message (ch_messages s), ch_config = ch_config s, ch_dirty = True\<rparr>)"

definition rewind_chat :: "('e, 'fs) chat_env \<Rightarrow> time \<Rightarrow> nat \<Rightarrow> chat_session \<Rightarrow> chat_session \<times> ('e + unit)" where
  "rewind_chat E now to_message s =
     (if to_message > length (ch_messages s) then (s, Inl (ce_bail E (beyond_text ''rewind to'' to_message s)))
      else let messages = take to_message (ch_messages s)
        in (s\<lparr>ch_messages := messages, ch_meta := (ch_meta s)\<lparr>sm_message_count := length messages, sm_last_active := now\<rparr>,
              ch_dirty := True\<rparr>, Inr ()))"

text \<open>Blank lines and lines that do not decode are left out.\<close>
definition parse_messages :: "('e, 'fs) chat_env \<Rightarrow> rstr \<Rightarrow> message list" where
  "parse_messages E content =
     List.map_filter (\<lambda>line. if trim line = [] then None
        else case from_slice (ce_message E) line of Inr msg \<Rightarrow> Some msg | Inl _ \<Rightarrow> None) (lines content)"

definition load_chat :: "('e, 'fs) chat_env \<Rightarrow> path \<Rightarrow> session_config \<Rightarrow> 'fs \<Rightarrow> 'e + chat_session" where
  "load_chat E dir config fs =
     res_bind (dk_read (ce_disk E) fs (meta_path dir)) (\<lambda>meta_json.
     res_bind (from_slice (ce_meta E) meta_json) (\<lambda>meta.
     res_bind (if dk_exists (ce_disk E) fs (messages_path dir)
         then res_bind (dk_read (ce_disk E) fs (messages_path dir)) (\<lambda>content. Inr (parse_messages E content)) else Inr []) (\<lambda>messages.
       Inr \<lparr>ch_meta = meta, ch_messages = messages, ch_config = config, ch_dirty = False\<rparr>)))"

section \<open>The manager\<close>

record session_manager =
  sg_config :: session_config
  sg_active_session :: "rstr option"

definition manager_new :: "('e, 'fs) chat_env \<Rightarrow> session_config \<Rightarrow> 'fs \<Rightarrow> 'fs \<times> session_manager" where
  "manager_new E config fs = (fst (dk_create_dirs (ce_disk E) (sc_storage_dir config) fs), \<lparr>sg_config = config, sg_active_session = None\<rparr>)"

definition create_session :: "rstr \<Rightarrow> time \<Rightarrow> rstr \<Rightarrow> session_manager \<Rightarrow> session_manager \<times> chat_session" where
  "create_session id_text now title g = (g\<lparr>sg_active_session := Some id_text\<rparr>, chat_new id_text now title (sg_config g))"

definition listed_meta :: "('e, 'fs) chat_env \<Rightarrow> 'fs \<Rightarrow> path \<Rightarrow> session_meta option" where
  "listed_meta E fs entry =
     (if \<not> dk_is_dir (ce_disk E) fs entry \<or> \<not> dk_exists (ce_disk E) fs (meta_path entry) then None
      else case res_bind (dk_read (ce_disk E) fs (meta_path entry)) (from_slice (ce_meta E)) of Inr meta \<Rightarrow> Some meta | Inl _ \<Rightarrow> None)"

definition list_chats :: "('e, 'fs) chat_env \<Rightarrow> session_manager \<Rightarrow> 'fs \<Rightarrow> 'e + session_meta list" where
  "list_chats E g fs =
     (let dir = sc_storage_dir (sg_config g)
      in if \<not> dk_exists (ce_disk E) fs dir then Inr []
         else res_bind (dk_read_dir (ce_disk E) fs dir) (\<lambda>entries.
           Inr (sort_by (le_desc sm_last_active)
             (List.map_filter (\<lambda>entry. case entry of Inr name \<Rightarrow> listed_meta E fs (join_path dir name) | Inl _ \<Rightarrow> None) entries))))"

definition load_session :: "('e, 'fs) chat_env \<Rightarrow> rstr \<Rightarrow> 'fs \<Rightarrow> session_manager \<Rightarrow> session_manager \<times> ('e + chat_session)" where
  "load_session E session_id fs g =
     (let dir = join_path (sc_storage_dir (sg_config g)) session_id
      in if \<not> dk_exists (ce_disk E) fs dir
         then (g, Inl (ce_bail E (lit ''Session '' @ 39 # session_id @ 39 # lit '' not found'')))
         else case load_chat E dir (sg_config g) fs of
             Inl e \<Rightarrow> (g, Inl e)
           | Inr s \<Rightarrow> (g\<lparr>sg_active_session := Some session_id\<rparr>, Inr s))"

definition delete_session :: "('e, 'fs) chat_env \<Rightarrow> session_manager \<Rightarrow> rstr \<Rightarrow> 'fs \<Rightarrow> 'fs \<times> ('e + unit)" where
  "delete_session E g session_id fs =
     (let dir = join_path (sc_storage_dir (sg_config g)) session_id
      in if dk_exists (ce_disk E) fs dir then dk_remove_dir_all (ce_disk E) dir fs else (fs, Inr ()))"

fun cleanup_each :: "('e, 'fs) chat_env \<Rightarrow> session_manager \<Rightarrow> time \<Rightarrow> nat \<Rightarrow> session_meta list \<Rightarrow> 'fs \<Rightarrow> 'fs \<times> ('e + nat)" where
  "cleanup_each E g cutoff cleaned [] fs = (fs, Inr cleaned)"
| "cleanup_each E g cutoff cleaned (meta # metas) fs =
     (if sm_state meta = ArchivedSession \<and> sm_last_active meta < cutoff
      then io_then (delete_session E g (sm_id meta) fs) (\<lambda>_. cleanup_each E g cutoff (cleaned + 1) metas)
      else cleanup_each E g cutoff cleaned metas fs)"

definition cleanup_old_sessions :: "('e, 'fs) chat_env \<Rightarrow> session_manager \<Rightarrow> time \<Rightarrow> time \<Rightarrow> 'fs \<Rightarrow> 'fs \<times> ('e + nat)" where
  "cleanup_old_sessions E g now max_age fs =
     io_then (fs, list_chats E g fs) (\<lambda>sessions. cleanup_each E g (now - max_age) 0 sessions)"

section \<open>What is on disk\<close>

text \<open>The encoder of messages writes one line that is not blank and reads it back.\<close>
definition line_codec :: "('e, 'a, rstr) codec \<Rightarrow> bool" where
  "line_codec C \<longleftrightarrow> (\<forall>x b. to_vec C x = Inr b \<longrightarrow> from_slice C b = Inr x \<and> 10 \<notin> set b \<and> 13 \<notin> set b \<and> trim b \<noteq> [])"

lemma lines_aux_line: "10 \<notin> set l \<Longrightarrow> lines_aux acc (l @ 10 # rest) = strip_cr (rev acc @ l) # lines_aux [] rest"
  by (induction l arbitrary: acc) auto

lemma strip_cr_free: "13 \<notin> set l \<Longrightarrow> strip_cr l = l"
  by (auto simp: strip_cr_def dest: last_in_set)

lemma lines_of_written: "list_all (\<lambda>l. 10 \<notin> set l \<and> 13 \<notin> set l) ls \<Longrightarrow> lines (concat (map (\<lambda>l. l @ [10]) ls)) = ls"
  unfolding lines_def by (induction ls) (auto simp: lines_aux_line strip_cr_free)

lemma parse_messages_content:
  assumes "line_codec (ce_message E)" and "messages_content E messages = Inr content"
  shows "parse_messages E content = messages"
proof -
  obtain ls where ls: "list_all2 (\<lambda>m l. to_vec (ce_message E) m = Inr l) messages ls"
    and content: "content = concat (map (\<lambda>l. l @ [10]) ls)"
    using assms(2) by (auto simp: messages_content_def res_simps)
  have "list_all (\<lambda>l. 10 \<notin> set l \<and> 13 \<notin> set l) ls"
    using ls assms(1) by (auto simp: list_all2_conv_all_nth list_all_length line_codec_def)
  then have "lines content = ls" unfolding content by (rule lines_of_written)
  moreover have "List.map_filter (\<lambda>line. if trim line = [] then None
      else case from_slice (ce_message E) line of Inr msg \<Rightarrow> Some msg | Inl _ \<Rightarrow> None) ls = messages"
    using ls by (induction rule: list_all2_induct) (use assms(1) in \<open>auto simp: map_filter_simps line_codec_def\<close>)
  ultimately show ?thesis by (simp add: parse_messages_def)
qed

lemma paths_differ [simp]:
  "meta_path d = meta_path d' \<longleftrightarrow> d = d'" "messages_path d = messages_path d' \<longleftrightarrow> d = d'"
  "meta_path d \<noteq> messages_path d'" "messages_path d \<noteq> meta_path d'"
  by (auto simp: meta_path_def messages_path_def)

lemma below_session_files [simp]:
  "below dir (meta_path dir)" "below dir (messages_path dir)"
  by (simp_all add: below_def meta_path_def messages_path_def)

lemma not_below_sibling: "a \<noteq> b \<Longrightarrow> \<not> (below (dir @ [a]) (meta_path (dir @ [b])) \<or> below (dir @ [a]) (messages_path (dir @ [b])))"
  by (simp add: below_def meta_path_def messages_path_def)

locale chat_store = disk_laws "ce_disk E" files for E :: "('e, 'fs) chat_env" and files +
  assumes meta_codec: "json_codec (ce_meta E)" and message_codec: "line_codec (ce_message E)"
begin

definition stored :: "chat_session \<Rightarrow> 'fs \<Rightarrow> bool" where
  "stored s fs \<longleftrightarrow> (\<exists>c. files fs (meta_path (session_dir s)) = Some c \<and> from_slice (ce_meta E) c = Inr (ch_meta s))
     \<and> (\<exists>c. files fs (messages_path (session_dir s)) = Some c \<and> parse_messages E c = ch_messages s)"

lemma stored_load: "stored s fs \<Longrightarrow> load_chat E (session_dir s) (ch_config s) fs = Inr (s\<lparr>ch_dirty := False\<rparr>)"
  by (auto simp: stored_def load_chat_def read_ok exists_ok below_def)

lemma save_stores:
  assumes "save_chat E s fs = (fs', Inr s')" and "ch_dirty s"
  shows "stored s' fs'" and "s' = s\<lparr>ch_dirty := False\<rparr>"
proof -
  from assms obtain fs1 fs2 meta_json content where steps:
    "to_vec (ce_meta E) (ch_meta s) = Inr meta_json" "messages_content E (ch_messages s) = Inr content"
    "dk_write (ce_disk E) (meta_path (session_dir s)) meta_json fs1 = (fs2, Inr ())"
    "dk_write (ce_disk E) (messages_path (session_dir s)) content fs2 = (fs', Inr ())"
    and s': "s' = s\<lparr>ch_dirty := False\<rparr>"
    by (auto simp: save_chat_def Let_def res_simps)
  then show "stored s' fs'"
    using write_ok [OF steps(3)] write_ok [OF steps(4)] json_codec.roundtrip [OF meta_codec steps(1)]
      parse_messages_content [OF message_codec steps(2)]
    by (simp add: stored_def session_dir_def)
  from s' show "s' = s\<lparr>ch_dirty := False\<rparr>" .
qed

text \<open>A save touches the two files of its session only, also when it fails.\<close>
lemma save_frame:
  assumes "p \<noteq> meta_path (session_dir s)" and "p \<noteq> messages_path (session_dir s)"
  shows "files (fst (save_chat E s fs)) p = files fs p"
proof -
  have w: "files fs' p = files fs1 p" if "dk_write (ce_disk E) q c fs1 = (fs', r)" "p \<noteq> q" for q c fs1 fs' r
    using write_frame [OF that(2), of c fs1] that(1) by simp
  have d: "files fs' = files fs1" if "dk_create_dirs (ce_disk E) q fs1 = (fs', r)" for q fs1 fs' r
    using create_dirs_files [of q fs1] that by simp
  show ?thesis
    using assms by (auto simp: save_chat_def Let_def io_then_def dest!: d w split: prod.splits sum.splits)
qed

lemma save_other: "session_dir other \<noteq> session_dir s \<Longrightarrow> stored s fs \<Longrightarrow> stored s (fst (save_chat E other fs))"
  by (simp add: stored_def save_frame)

lemma delete_other:
  assumes "stored s fs" and "session_dir s = sc_storage_dir (sg_config g) @ [i]" and "k \<noteq> i" and "k \<noteq> []"
  shows "stored s (fst (delete_session E g k fs))"
proof -
  have "files (fst (dk_remove_dir_all (ce_disk E) (sc_storage_dir (sg_config g) @ [k]) fs)) p = files fs p"
    if "p = meta_path (session_dir s) \<or> p = messages_path (session_dir s)" for p
    using remove_partial [of "sc_storage_dir (sg_config g) @ [k]" fs p] not_below_sibling [OF assms(3)] that assms(2) by auto
  then show ?thesis using assms(1,4) by (simp add: delete_session_def Let_def join_path_def stored_def)
qed

end

section \<open>A conversation with interference\<close>

text \<open>What happens to a session that is open, and to its neighbours on the disk.\<close>
datatype chat_op =
    Push time message
  | SetTitle rstr
  | Rewind time nat
  | ArchiveChat
  | SaveChat
  | SaveOther chat_session
  | DeleteOther rstr

fun chat_step :: "('e, 'fs) chat_env \<Rightarrow> session_manager \<Rightarrow> 'fs \<times> chat_session \<Rightarrow> chat_op \<Rightarrow> 'fs \<times> chat_session" where
  "chat_step E g (fs, s) (Push now m) = push_message E now m s fs"
| "chat_step E g (fs, s) (SetTitle title) = (fs, set_title title s)"
| "chat_step E g (fs, s) (Rewind now n) = (fs, fst (rewind_chat E now n s))"
| "chat_step E g (fs, s) ArchiveChat = (fs, archive_chat s)"
| "chat_step E g (fs, s) SaveChat = (case save_chat E s fs of (fs, Inr s') \<Rightarrow> (fs, s') | (fs, Inl _) \<Rightarrow> (fs, s))"
| "chat_step E g (fs, s) (SaveOther other) = (fst (save_chat E other fs), s)"
| "chat_step E g (fs, s) (DeleteOther k) = (fst (delete_session E g k fs), s)"

fun leaves_alone :: "path \<Rightarrow> rstr \<Rightarrow> chat_op \<Rightarrow> bool" where
  "leaves_alone dir i (SaveOther other) = (session_dir other \<noteq> dir @ [i])"
| "leaves_alone dir i (DeleteOther k) = (k \<noteq> i \<and> k \<noteq> [])"
| "leaves_alone dir i _ = True"

lemma save_result: "save_chat E s fs = (fs', Inr s') \<Longrightarrow> s' = s\<lparr>ch_dirty := False\<rparr>"
  by (auto simp: save_chat_def Let_def res_simps split: if_splits)

text \<open>The count in the metadata is the number of messages in every session that is open.\<close>
lemma counts_step:
  assumes "sm_message_count (ch_meta s) = length (ch_messages s)"
  shows "sm_message_count (ch_meta (snd (chat_step E g (fs, s) oper))) = length (ch_messages (snd (chat_step E g (fs, s) oper)))"
  using assms
  by (cases oper) (auto simp: push_message_def set_title_def rewind_chat_def archive_chat_def Let_def
      split: prod.split sum.split dest!: save_result)

lemma step_session_dir:
  "session_dir (snd (chat_step E g (fs, s) oper)) = session_dir s \<and> ch_config (snd (chat_step E g (fs, s) oper)) = ch_config s"
  by (cases oper) (auto simp: push_message_def set_title_def rewind_chat_def archive_chat_def Let_def session_dir_def
      split: prod.split sum.split dest!: save_result)

context chat_store begin

lemma saved_or_dirty:
  assumes "ch_dirty s \<or> stored s fs"
  shows "case save_chat E s fs of (fs', Inr s') \<Rightarrow> stored s' fs' \<and> \<not> ch_dirty s' | (fs', Inl _) \<Rightarrow> ch_dirty s"
proof (cases "ch_dirty s")
  case True
  then show ?thesis by (auto split: prod.split sum.split dest: save_stores save_result)
next
  case False
  with assms show ?thesis by (simp add: save_chat_def)
qed

lemma step_keeps_disk:
  assumes "ch_dirty s \<or> stored s fs" and "leaves_alone (sc_storage_dir (sg_config g)) i oper"
    and "session_dir s = sc_storage_dir (sg_config g) @ [i]"
  shows "case chat_step E g (fs, s) oper of (fs', s') \<Rightarrow> ch_dirty s' \<or> stored s' fs'"
proof (cases oper)
  case (Push now m)
  let ?s = "s\<lparr>ch_messages := ch_messages s @ [m], ch_meta := (ch_meta s)\<lparr>sm_message_count := length (ch_messages s @ [m]), sm_last_active := now\<rparr>,
               ch_dirty := True\<rparr>"
  show ?thesis using saved_or_dirty [of ?s fs]
    by (auto simp: Push push_message_def Let_def split: prod.splits sum.splits)
next
  case SaveChat
  then show ?thesis using saved_or_dirty [OF assms(1)] by (auto split: prod.splits sum.splits)
next
  case (SaveOther other)
  then show ?thesis using assms save_other [of other s fs] by auto
next
  case (DeleteOther k)
  then show ?thesis using assms delete_other [of s fs g i k] by auto
qed (use assms in \<open>auto simp: set_title_def rewind_chat_def archive_chat_def Let_def\<close>)

lemma run_keeps_disk:
  assumes "ch_dirty s \<or> stored s fs" and "list_all (leaves_alone (sc_storage_dir (sg_config g)) i) ops"
    and "session_dir s = sc_storage_dir (sg_config g) @ [i]"
  shows "case foldl (chat_step E g) (fs, s) ops of (fs', s') \<Rightarrow> (ch_dirty s' \<or> stored s' fs') \<and> session_dir s' = session_dir s \<and> ch_config s' = ch_config s"
  using assms
proof (induction ops arbitrary: fs s)
  case (Cons oper ops)
  obtain fs1 s1 where r: "chat_step E g (fs, s) oper = (fs1, s1)" by fastforce
  have "ch_dirty s1 \<or> stored s1 fs1" using step_keeps_disk [of s fs g i oper] Cons.prems r by simp
  moreover have same: "session_dir s1 = session_dir s" "ch_config s1 = ch_config s"
    using step_session_dir [of E g fs s oper] r by simp_all
  ultimately show ?case using Cons.IH [of s1 fs1] Cons.prems r by (simp add: case_prod_beta)
qed simp

end

section \<open>Cleaning up\<close>

definition expired_meta :: "time \<Rightarrow> session_meta \<Rightarrow> bool" where
  "expired_meta cutoff meta \<longleftrightarrow> sm_state meta = ArchivedSession \<and> sm_last_active meta < cutoff"

context disk_laws begin

lemma delete_effect:
  assumes "ce_disk E = D"
  shows "files (fst (delete_session E g k fs)) q = files fs q
    \<or> below (join_path (sc_storage_dir (sg_config g)) k) q \<and> files (fst (delete_session E g k fs)) q = None"
  using remove_partial by (simp add: delete_session_def Let_def assms)

lemma delete_complete:
  assumes "ce_disk E = D" and "delete_session E g k fs = (fs', Inr ())"
    and "below (join_path (sc_storage_dir (sg_config g)) k) q"
  shows "files fs' q = None"
  using assms exists_ok [of fs q _ "join_path (sc_storage_dir (sg_config g)) k"]
  by (cases "files fs q") (auto simp: delete_session_def Let_def remove_ok split: if_splits)

lemma cleanup_each_effect:
  assumes "ce_disk E = D"
  shows "files (fst (cleanup_each E g cutoff n metas fs)) q = files fs q
    \<or> (\<exists>meta \<in> set metas. expired_meta cutoff meta \<and> below (join_path (sc_storage_dir (sg_config g)) (sm_id meta)) q)
      \<and> files (fst (cleanup_each E g cutoff n metas fs)) q = None"
proof (induction metas arbitrary: n fs)
  case (Cons meta metas)
  show ?case
  proof (cases "expired_meta cutoff meta")
    case True
    obtain fs1 r where d: "delete_session E g (sm_id meta) fs = (fs1, r)" by fastforce
    have "files fs1 q = files fs q \<or> below (join_path (sc_storage_dir (sg_config g)) (sm_id meta)) q \<and> files fs1 q = None"
      using delete_effect [OF assms, of g "sm_id meta" fs q] d by simp
    then show ?thesis using True d Cons.IH [of "n + 1" fs1]
      by (cases r) (auto simp: expired_meta_def io_then_def)
  qed (use Cons.IH [of n fs] in \<open>auto simp: expired_meta_def\<close>)
qed simp

lemma cleanup_each_complete:
  assumes "ce_disk E = D" and "cleanup_each E g cutoff n metas fs = (fs', Inr m)"
  shows "m = n + length (filter (expired_meta cutoff) metas)
    \<and> (\<forall>meta \<in> set metas. expired_meta cutoff meta \<longrightarrow> below (join_path (sc_storage_dir (sg_config g)) (sm_id meta)) q \<longrightarrow> files fs' q = None)"
  using assms(2)
proof (induction metas arbitrary: n fs)
  case (Cons meta metas)
  show ?case
  proof (cases "expired_meta cutoff meta")
    case True
    with Cons.prems obtain fs1 where d: "delete_session E g (sm_id meta) fs = (fs1, Inr ())"
      and rest: "cleanup_each E g cutoff (n + 1) metas fs1 = (fs', Inr m)"
      by (auto simp: expired_meta_def res_simps)
    have "below (join_path (sc_storage_dir (sg_config g)) (sm_id meta)) q \<Longrightarrow> files fs' q = None"
      using delete_complete [OF assms(1) d] cleanup_each_effect [OF assms(1), of g cutoff "n + 1" metas fs1 q] rest by auto
    then show ?thesis using Cons.IH [OF rest] True by auto
  qed (use Cons in \<open>auto simp: expired_meta_def\<close>)
qed simp

end

section \<open>A disk in memory\<close>

text \<open>The faults say which of the next writing operations fail; a failed one changes no file.\<close>
record mem_disk =
  md_files :: "(path \<times> rstr) list"
  md_dirs :: "path list"
  md_faults :: "bool list"

definition faulty :: "(mem_disk \<Rightarrow> mem_disk) \<Rightarrow> mem_disk \<Rightarrow> mem_disk \<times> (unit + unit)" where
  "faulty f d = (case md_faults d of
       [] \<Rightarrow> (f d, Inr ())
     | fault # rest \<Rightarrow> (let d = d\<lparr>md_faults := rest\<rparr> in if fault then (d, Inl ()) else (f d, Inr ())))"

definition memory_disk :: "(unit, mem_disk) disk" where
  "memory_disk = \<lparr>dk_create_dirs = (\<lambda>p. faulty (\<lambda>d. d\<lparr>md_dirs := p # md_dirs d\<rparr>)),
     dk_write = (\<lambda>p s. faulty (\<lambda>d. d\<lparr>md_files := (p, s) # filter (\<lambda>(q, _). q \<noteq> p) (md_files d)\<rparr>)),
     dk_remove_dir_all = (\<lambda>p. faulty (\<lambda>d. d\<lparr>md_files := filter (\<lambda>(q, _). \<not> below p q) (md_files d),
         md_dirs := filter (\<lambda>q. \<not> below p q) (md_dirs d)\<rparr>)),
     dk_read = (\<lambda>d p. case map_of (md_files d) p of Some s \<Rightarrow> Inr s | None \<Rightarrow> Inl ()),
     dk_exists = (\<lambda>d p. p \<in> set (md_dirs d) \<or> list_ex (\<lambda>(q, _). below p q) (md_files d)),
     dk_is_dir = (\<lambda>d p. p \<in> set (md_dirs d)),
     dk_read_dir = (\<lambda>d p. Inr (map Inr (remdups (map last (filter (\<lambda>q. q \<noteq> [] \<and> butlast q = p) (md_dirs d))))))\<rparr>"

lemma map_of_filter_fst: "map_of (filter (\<lambda>(q, _). P q) xs) p = (if P p then map_of xs p else None)"
  by (induction xs) auto

definition mem_files :: "mem_disk \<Rightarrow> path \<rightharpoonup> rstr" where
  "mem_files d = map_of (md_files d)"

interpretation mem: disk_laws memory_disk mem_files
proof unfold_locales
  fix fs q s p
  assume "mem_files fs q = Some s" and "below p q"
  then show "dk_exists memory_disk fs p"
    by (force simp: memory_disk_def mem_files_def list_ex_iff dest: map_of_SomeD)
qed (auto simp: mem_files_def memory_disk_def faulty_def map_of_filter_fst Let_def fun_eq_iff split: list.splits if_splits)

text \<open>A codec for the given values.\<close>
definition numbered :: "'a list \<Rightarrow> (unit, 'a, rstr) codec" where
  "numbered xs = \<lparr>to_vec = (\<lambda>x. case find (\<lambda>(i, y). y = x) (enumerate 65 xs) of Some (i, _) \<Rightarrow> Inr [i] | None \<Rightarrow> Inl ()),
     from_slice = (\<lambda>b. case find (\<lambda>(i, _). b = [i]) (enumerate 65 xs) of Some (_, x) \<Rightarrow> Inr x | None \<Rightarrow> Inl ())\<rparr>"

lemma numbered_codec:
  assumes "to_vec (numbered xs) x = Inr b" and "length xs < 60"
  shows "from_slice (numbered xs) b = Inr x \<and> 10 \<notin> set b \<and> 13 \<notin> set b \<and> trim b \<noteq> []"
proof -
  obtain i y where "find (\<lambda>(i, y). y = x) (enumerate 65 xs) = Some (i, y)" and b: "b = [i]"
    using assms(1) by (auto simp: numbered_def split: option.splits)
  then have i: "(i, x) \<in> set (enumerate 65 xs)" by (auto simp: find_Some_iff in_set_conv_nth)
  then have range: "65 \<le> i" "i < 125" using assms(2) by (auto simp: in_set_enumerate_eq)
  then have "trim b \<noteq> []" by (auto simp: b trim_def trim_start_def trim_end_def is_ws_def)
  moreover have "find (\<lambda>(j, _). b = [j]) (enumerate 65 xs) = Some (i, x)"
  proof (cases "find (\<lambda>(j, _). b = [j]) (enumerate 65 xs)")
    case None
    with i b show ?thesis by (auto simp: find_None_iff)
  next
    case (Some p)
    then have "fst p = i" "p \<in> set (enumerate 65 xs)" using b by (auto simp: find_Some_iff in_set_conv_nth case_prod_beta)
    with i Some show ?thesis by (auto simp: in_set_enumerate_eq)
  qed
  ultimately show ?thesis using range b by (simp add: numbered_def)
qed

definition sample_env :: "session_meta list \<Rightarrow> message list \<Rightarrow> (unit, mem_disk) chat_env" where
  "sample_env metas messages = \<lparr>ce_disk = memory_disk, ce_meta = numbered metas, ce_message = numbered messages, ce_bail = (\<lambda>_. ())\<rparr>"

lemma sample_env_codecs:
  assumes "length metas < 60" and "length messages < 60"
  shows "ce_disk (sample_env metas messages) = memory_disk" "json_codec (ce_meta (sample_env metas messages))"
    "line_codec (ce_message (sample_env metas messages))"
  using numbered_codec [OF _ assms(1)] numbered_codec [OF _ assms(2)]
  by (simp_all add: sample_env_def json_codec_def line_codec_def)

text \<open>The store over a disk in memory keeps the contract, whatever faults it has.\<close>
interpretation mem_store: chat_store "sample_env [ch_meta (chat_new i 0 [] default_session_config)] []" mem_files for i
  using sample_env_codecs [of "[ch_meta (chat_new i 0 [] default_session_config)]" "[]"] mem.disk_laws_axioms
  by (simp add: chat_store_def chat_store_axioms_def)

section \<open>Properties\<close>


definition sample_message :: message where
  "sample_message = user_message 1 (TextContent [97])"

definition sample_manager :: session_manager where
  "sample_manager = \<lparr>sg_config = default_session_config\<lparr>sc_storage_dir := [lit ''r'']\<rparr>, sg_active_session = None\<rparr>"

definition sample_meta :: "nat \<Rightarrow> session_meta" where
  "sample_meta n = \<lparr>sm_id = lit ''s'', sm_title = [], sm_created_at = 0, sm_last_active = int n, sm_message_count = n,
     sm_parent_id = None, sm_branch_point = None, sm_state = ActiveSession, sm_tags = Map.empty\<rparr>"

definition sample_chat_env :: "(unit, mem_disk) chat_env" where
  "sample_chat_env = sample_env [sample_meta 1, sample_meta 2] [sample_message]"

lemmas chat_eval = sample_chat_env_def sample_env_def sample_manager_def sample_meta_def sample_message_def default_session_config_def
  chat_new_def push_message_def save_chat_def messages_content_def load_chat_def parse_messages_def session_dir_def join_path_def
  meta_path_def messages_path_def memory_disk_def faulty_def numbered_def io_then_def below_def lines_def strip_cr_def map_filter_simps
  trim_def trim_start_def trim_end_def is_ws_def set_title_def Let_def


text \<open>
  C24. Cleaning up deletes what has expired and nothing else. Whatever fails on the way, a file
  that is changed is gone and lies in the directory of a listed session that is archived and was
  last active before the limit; a cleanup that returns has emptied the directories of all of them
  and counts them.
\<close>
theorem cleanup_deletes_only_expired:
  assumes "disk_laws (ce_disk E) files" and "list_chats E g fs = Inr metas"
    and "cleanup_old_sessions E g now max_age fs = (fs', r)"
  shows "(files fs' q \<noteq> files fs q \<longrightarrow> files fs' q = None
      \<and> (\<exists>meta \<in> set metas. expired_meta (now - max_age) meta \<and> below (join_path (sc_storage_dir (sg_config g)) (sm_id meta)) q))
    \<and> (\<forall>n. r = Inr n \<longrightarrow> n = length (filter (expired_meta (now - max_age)) metas)
      \<and> (\<forall>meta \<in> set metas. expired_meta (now - max_age) meta
           \<longrightarrow> below (join_path (sc_storage_dir (sg_config g)) (sm_id meta)) q \<longrightarrow> files fs' q = None))"
proof -
  have run: "cleanup_each E g (now - max_age) 0 metas fs = (fs', r)"
    using assms(2,3) by (simp add: cleanup_old_sessions_def io_then_def)
  from disk_laws.cleanup_each_effect [OF assms(1) refl, of g "now - max_age" 0 metas fs q] run
    disk_laws.cleanup_each_complete [OF assms(1) refl, of g "now - max_age" 0 metas fs fs' _ q]
  show ?thesis by auto
qed

definition archived_meta :: "nat \<Rightarrow> session_meta" where
  "archived_meta n = (sample_meta n)\<lparr>sm_state := ArchivedSession\<rparr>"

theorem cleanup_deletes_only_expired_witness:
  "let E = sample_env [archived_meta 1] []; d = \<lparr>md_files = [(meta_path [lit ''r'', lit ''s''], [65])],
       md_dirs = [[lit ''r''], [lit ''r'', lit ''s'']], md_faults = []\<rparr>
   in \<exists>d'. cleanup_old_sessions E sample_manager 10 5 d = (d', Inr 1) \<and> mem_files d' (meta_path [lit ''r'', lit ''s'']) = None"
proof -
  let ?E = "sample_env [archived_meta 1] []"
  let ?d = "\<lparr>md_files = [(meta_path [lit ''r'', lit ''s''], [65])], md_dirs = [[lit ''r''], [lit ''r'', lit ''s'']], md_faults = []\<rparr>"
  have metas: "list_chats ?E sample_manager ?d = Inr [archived_meta 1]"
    by (simp add: list_chats_def listed_meta_def chat_eval)
  obtain d' where run: "cleanup_old_sessions ?E sample_manager 10 5 ?d = (d', Inr 1)"
    using metas by (simp add: cleanup_old_sessions_def archived_meta_def delete_session_def chat_eval)
  have laws: "disk_laws (ce_disk ?E) mem_files" using mem.disk_laws_axioms by (simp add: sample_env_def)
  have "expired_meta (10 - 5) (archived_meta 1)" by (simp add: expired_meta_def archived_meta_def sample_meta_def)
  then have "mem_files d' (meta_path [lit ''r'', lit ''s'']) = None"
    using cleanup_deletes_only_expired [OF laws metas run, of "meta_path [lit ''r'', lit ''s'']"]
    by (simp add: sample_manager_def join_path_def archived_meta_def sample_meta_def default_session_config_def)
  with run show ?thesis by auto
qed

text \<open>
  A fork at a message succeeds exactly when a rewind to it does, and has the messages the
  rewound session has; its parent stays as it is.
\<close>
theorem branch_equals_rewind:
  "case fork_chat E i now n title s of
     Inl _ \<Rightarrow> length (ch_messages s) < n \<and> fst (rewind_chat E now n s) = s \<and> isl (snd (rewind_chat E now n s))
   | Inr b \<Rightarrow> n \<le> length (ch_messages s) \<and> ch_messages b = ch_messages (fst (rewind_chat E now n s)) \<and> ch_messages b = take n (ch_messages s)
       \<and> sm_message_count (ch_meta b) = length (ch_messages b) \<and> sm_parent_id (ch_meta b) = Some (sm_id (ch_meta s))"
  by (auto simp: fork_chat_def rewind_chat_def Let_def)

text \<open>A save that fails between its two files leaves metadata that count a message too many.\<close>
theorem torn_save_miscounts:
  "let (d, s) = foldl (chat_step sample_chat_env sample_manager)
         (\<lparr>md_files = [], md_dirs = [], md_faults = [False, False, False, False, False, True]\<rparr>,
          chat_new (lit ''s'') 0 [] (sg_config sample_manager))
         [Push 1 sample_message, Push 2 sample_message]
   in \<exists>s'. load_chat sample_chat_env [lit ''r'', lit ''s''] (sg_config sample_manager) d = Inr s'
        \<and> sm_message_count (ch_meta s') = 2 \<and> length (ch_messages s') = 1"
  by (simp add: chat_eval)

text \<open>Deleting the session with the empty name deletes every session.\<close>
theorem empty_name_deletes_all:
  assumes "disk_laws (ce_disk E) files" and "delete_session E g [] fs = (fs', Inr ())" and "below (sc_storage_dir (sg_config g)) q"
  shows "files fs' q = None"
  using disk_laws.delete_complete [OF assms(1) refl assms(2)] assms(3) by (simp add: join_path_def)

end
