(* ===== verification/Turn_History.thy ===== *)
theory Turn_History
  imports Agent_Session Hardness_Text
begin

text \<open>
  What the reasoner reads from the messages of a turn
  (\<^verbatim>\<open>brain/src/agent/reasoner/turn_state.rs\<close>) and what it keeps of a long history
  (\<^verbatim>\<open>context_pruning.rs\<close>). The printing of JSON arguments is the argument \<open>sj\<close>.
\<close>

section \<open>The messages of the current turn\<close>

text \<open>\<^verbatim>\<open>find_map\<close> of an iterator.\<close>
fun find_map :: "('a \<Rightarrow> 'b option) \<Rightarrow> 'a list \<Rightarrow> 'b option" where
  "find_map f [] = None"
| "find_map f (x # xs) = (case f x of Some y \<Rightarrow> Some y | None \<Rightarrow> find_map f xs)"

definition meta_is :: "message \<Rightarrow> string \<Rightarrow> rstr \<Rightarrow> bool" where
  "meta_is m k v \<longleftrightarrow> ms_metadata m (lit k) = Some v"

definition is_tool_message :: "message \<Rightarrow> bool" where
  "is_tool_message m \<longleftrightarrow> ms_role m = ToolRole"

definition is_tool_error :: "message \<Rightarrow> bool" where
  "is_tool_error m \<longleftrightarrow> meta_is m ''tool_error'' (lit ''true'')"

text \<open>From the last message of the user on; without one, all messages.\<close>
definition current_turn_messages :: "message list \<Rightarrow> message list" where
  "current_turn_messages messages =
     (if list_ex (\<lambda>m. ms_role m = UserRole) messages
      then drop (length messages - 1 - length (takeWhile (\<lambda>m. ms_role m \<noteq> UserRole) (rev messages))) messages
      else messages)"

definition latest_loop_guard_abort_for_tool :: "(json \<Rightarrow> rstr) \<Rightarrow> message list \<Rightarrow> rstr \<Rightarrow> bool" where
  "latest_loop_guard_abort_for_tool sj messages tool_name =
     list_ex (\<lambda>m. is_tool_message m \<and> meta_is m ''tool_name'' tool_name \<and> is_tool_error m
       \<and> contains (message_text sj m) (lit ''Loop prevention triggered'')) (take 4 (rev messages))"

definition latest_loop_guard_reuse_for_tool :: "message list \<Rightarrow> rstr \<Rightarrow> bool" where
  "latest_loop_guard_reuse_for_tool messages tool_name =
     list_ex (\<lambda>m. is_tool_message m \<and> meta_is m ''tool_name'' tool_name \<and> meta_is m ''loop_guard_reused_previous'' (lit ''true''))
       (take 4 (rev (current_turn_messages messages)))"

definition latest_loop_guard_reuse_tool_name :: "message list \<Rightarrow> rstr option" where
  "latest_loop_guard_reuse_tool_name messages =
     find_map (\<lambda>m. if is_tool_message m \<and> meta_is m ''loop_guard_reused_previous'' (lit ''true'')
       then ms_metadata m (lit ''tool_name'') else None) (take 4 (rev (current_turn_messages messages)))"

definition latest_runtime_tool_error_for_tool :: "(json \<Rightarrow> rstr) \<Rightarrow> message list \<Rightarrow> rstr \<Rightarrow> rstr option" where
  "latest_runtime_tool_error_for_tool sj messages tool_name =
     find_map (\<lambda>m. if is_tool_message m \<and> meta_is m ''tool_name'' tool_name \<and> is_tool_error m then Some (message_text sj m) else None)
       (rev (current_turn_messages messages))"

section \<open>Reading tool results\<close>

definition structured_tool_observation_not_found :: "rstr \<Rightarrow> bool" where
  "structured_tool_observation_not_found lowered \<longleftrightarrow>
     contains_any lowered [
       [34] @ lit ''error_kind'' @ [34] @ lit '':'' @ [34] @ lit ''not_found'' @ [34],
       [34] @ lit ''error_kind'' @ [34] @ lit '': '' @ [34] @ lit ''not_found'' @ [34],
       [34] @ lit ''error_kind'' @ [34] @ lit '':'' @ [34] @ lit ''chapter_not_found'' @ [34],
       [34] @ lit ''error_kind'' @ [34] @ lit '': '' @ [34] @ lit ''chapter_not_found'' @ [34]]
     \<and> \<not> contains_any lowered [
       lit ''missing_required'', lit ''missing required'', lit '' is required'', lit '' required for '']"

definition structured_tool_contract_error :: "rstr \<Rightarrow> bool" where
  "structured_tool_contract_error lowered \<longleftrightarrow> \<not> structured_tool_observation_not_found lowered
     \<and> (contains_any lowered [
       [34] @ lit ''success'' @ [34] @ lit '':false'', [34] @ lit ''success'' @ [34] @ lit '': false'',
       lit ''missing_required'', lit ''missing required'', lit '' is required'', lit '' required for '']
        \<or> contains lowered (lit ''next_step_hint'') \<and> contains lowered (lit ''example_shape''))"

definition tool_result_content_is_runtime_error :: "rstr \<Rightarrow> bool" where
  "tool_result_content_is_runtime_error content \<longleftrightarrow>
     (let lowered = to_ascii_lowercase content in
      contains_any lowered [
       lit ''error executing tool'', lit ''runtime tool error'', lit ''tool execution error'',
       lit ''execution timed out before a usable result'', lit ''provider error'', lit ''http error'']
      \<or> structured_tool_contract_error lowered)"

definition tool_result_is_blocked :: "rstr \<Rightarrow> bool" where
  "tool_result_is_blocked result \<longleftrightarrow> contains_any (to_ascii_lowercase result) (map lit [''status: blocked'', ''status: blocker''])"

text \<open>\<^verbatim>\<open>replace([' ', '\n', '\r', '\t'], "")\<close>\<close>
definition compacted :: "rstr \<Rightarrow> rstr" where
  "compacted s = filter (\<lambda>c. c \<notin> {32, 10, 13, 9}) s"

definition tool_result_is_blocked_or_failed :: "rstr \<Rightarrow> bool" where
  "tool_result_is_blocked_or_failed result \<longleftrightarrow>
     (let lowered = to_ascii_lowercase result in
      contains_any lowered [
       lit ''status: blocked'', lit ''status: blocker'', lit ''status: failed'', lit ''status: needs_confirmation'',
       [34] @ lit ''status'' @ [34] @ lit '':'' @ [34] @ lit ''blocked'' @ [34],
       [34] @ lit ''status'' @ [34] @ lit '': '' @ [34] @ lit ''blocked'' @ [34],
       [34] @ lit ''status'' @ [34] @ lit '':'' @ [34] @ lit ''failed'' @ [34],
       [34] @ lit ''status'' @ [34] @ lit '': '' @ [34] @ lit ''failed'' @ [34],
       [34] @ lit ''status'' @ [34] @ lit '':'' @ [34] @ lit ''needs_confirmation'' @ [34],
       [34] @ lit ''status'' @ [34] @ lit '': '' @ [34] @ lit ''needs_confirmation'' @ [34]]
      \<or> contains (compacted lowered) ([34] @ lit ''status'' @ [34] @ lit '':'' @ [34] @ lit ''blocker'' @ [34]))"

text \<open>A message of a tool that did not report an error.\<close>
definition is_tool_success :: "message \<Rightarrow> bool" where
  "is_tool_success m \<longleftrightarrow> is_tool_message m \<and> \<not> is_tool_error m"

definition result_part_text :: "content_part \<Rightarrow> rstr option" where
  "result_part_text p = (case p of
       ToolResultPart i name content \<Rightarrow>
         (let t = trim content
          in if t = [] \<or> tool_result_content_is_runtime_error t \<or> tool_result_is_blocked_or_failed t then None else Some t)
     | _ \<Rightarrow> None)"

definition latest_successful_tool_result_text :: "message list \<Rightarrow> rstr \<Rightarrow> rstr option" where
  "latest_successful_tool_result_text messages tool_name =
     find_map (\<lambda>m. if is_tool_success m \<and> meta_is m ''tool_name'' tool_name
       then (case ms_content m of Parts parts \<Rightarrow> find_map result_part_text parts | _ \<Rightarrow> None) else None)
       (rev (current_turn_messages messages))"

definition blocked_part :: "rstr option \<Rightarrow> content_part \<Rightarrow> (rstr \<times> rstr) option" where
  "blocked_part metadata_tool_name p = (case p of
       ToolResultPart i name content \<Rightarrow>
         (let t = trim content
          in if t = [] \<or> \<not> tool_result_is_blocked_or_failed t then None
             else Some (case or_else metadata_tool_name name of Some n \<Rightarrow> n | None \<Rightarrow> lit ''tool'', t))
     | _ \<Rightarrow> None)"

definition latest_blocked_tool_result :: "message list \<Rightarrow> (rstr \<times> rstr) option" where
  "latest_blocked_tool_result messages =
     find_map (\<lambda>m. if is_tool_success m
       then (case ms_content m of Parts parts \<Rightarrow> find_map (blocked_part (ms_metadata m (lit ''tool_name''))) parts | _ \<Rightarrow> None) else None)
       (rev (current_turn_messages messages))"

definition latest_successful_tool_name :: "message list \<Rightarrow> rstr option" where
  "latest_successful_tool_name messages =
     find_map (\<lambda>m. if is_tool_success m then ms_metadata m (lit ''tool_name'') else None) (rev (current_turn_messages messages))"

definition latest_successful_tool_result_for_names :: "(json \<Rightarrow> rstr) \<Rightarrow> message list \<Rightarrow> rstr list \<Rightarrow> (rstr \<times> rstr) option" where
  "latest_successful_tool_result_for_names sj messages tool_names =
     find_map (\<lambda>m. if is_tool_success m
       then Option.bind (ms_metadata m (lit ''tool_name'')) (\<lambda>tool_name.
         if \<not> list_ex (\<lambda>candidate. tool_name = candidate) tool_names then None
         else let t = trim (message_text sj m)
              in if t = [] \<or> tool_result_is_blocked_or_failed t then None else Some (tool_name, t))
       else None) (rev (current_turn_messages messages))"

definition process_path_markers :: "rstr list" where
  "process_path_markers = [
     lit ''/status_report.'', [92] @ lit ''status_report.'', lit ''/progress_report.'',
     [92] @ lit ''progress_report.'', lit ''/task_status.'', [92] @ lit ''task_status.'', lit ''/heartbeat.'',
     [92] @ lit ''heartbeat.'', lit ''/checkpoint_report.'', [92] @ lit ''checkpoint_report.'',
     lit ''/execution_log.'', [92] @ lit ''execution_log.'', lit ''/recovery_notes.'', [92] @ lit ''recovery_notes.'',
     lit ''/error'', [92] @ lit ''error'', lit ''/err'', [92] @ lit ''err'', lit ''/blocker'', [92] @ lit ''blocker'',
     lit ''/blocked'', [92] @ lit ''blocked'']"

definition tool_result_is_process_artifact_only :: "rstr \<Rightarrow> bool" where
  "tool_result_is_process_artifact_only lowered \<longleftrightarrow>
     (let compact = compacted lowered;
          status_or_progress_note = (contains_any compact [
       lit ''statusreport'', lit ''status_report'', lit ''progressreport'', lit ''progress_report'',
       lit ''taskstatus'', lit ''task_status'', lit ''executionlog'', lit ''execution_log'', lit ''checkpoint_report'',
       lit ''checkpointreport'', lit ''recoverynotes'', lit ''recovery_notes'']
            \<or> contains_any lowered [
       [29366, 24577, 25253, 21578], [36827, 23637, 25253, 21578], [25191, 34892, 26085, 24535],
       [24674, 22797, 35760, 24405], lit ''progress report'', lit ''task status'', lit ''execution log'']);
          reports_internal_progress = contains_any lowered [
       lit ''completion_scope'', lit ''initial stage'', lit ''file discovery'', [36335, 24452, 39564, 35777],
       lit ''blockers:'', lit ''blocked:'', lit ''status: processing'', lit ''need to fetch'', lit ''needs retrieval'',
       [38656, 35201, 20808, 33719, 21462], [38656, 35201, 20174, 30693, 35782, 24211], [19979, 19968, 27493]]
      in contains_any lowered process_path_markers \<or> status_or_progress_note \<and> reports_internal_progress)"

definition tool_result_has_durable_effect :: "rstr \<Rightarrow> rstr \<Rightarrow> bool" where
  "tool_result_has_durable_effect tool_name result \<longleftrightarrow>
     (let lowered = to_ascii_lowercase result in
      \<not> tool_result_is_process_artifact_only lowered
      \<and> (contains_any lowered [
       lit ''runtime_effect: artifact.'', lit ''runtime_effects: artifact.'',
       [34] @ lit ''runtime_effect'' @ [34] @ lit '':'' @ [34] @ lit ''artifact.'',
       [34] @ lit ''runtime_effect'' @ [34] @ lit '': '' @ [34] @ lit ''artifact.'',
       lit ''runtime_effect: knowledge.'', lit ''runtime_effects: knowledge.'',
       [34] @ lit ''runtime_effect'' @ [34] @ lit '':'' @ [34] @ lit ''knowledge.'',
       [34] @ lit ''runtime_effect'' @ [34] @ lit '': '' @ [34] @ lit ''knowledge.'']
         \<or> contains lowered ([34] @ lit ''runtime_effects'' @ [34]) \<and> (contains lowered (lit ''artifact.'') \<or> contains lowered (lit ''knowledge.''))
         \<or> tool_name = lit ''write_file'' \<and> contains lowered (lit ''successfully wrote'')
         \<or> tool_name = lit ''knowledge_import_url'' \<and> contains lowered (lit ''imported web knowledge into collection'')
         \<or> tool_name = lit ''knowledge_manage_document''
           \<and> contains_any lowered (map lit [''knowledge document created'', ''knowledge document updated'', ''knowledge document physically deleted''])))"

definition latest_successful_durable_effect_tool_result :: "(json \<Rightarrow> rstr) \<Rightarrow> message list \<Rightarrow> (rstr \<times> rstr) option" where
  "latest_successful_durable_effect_tool_result sj messages =
     find_map (\<lambda>m. if is_tool_success m
       then Option.bind (ms_metadata m (lit ''tool_name'')) (\<lambda>tool_name.
         let t = trim (message_text sj m)
         in if t = [] \<or> tool_result_content_is_runtime_error t \<or> tool_result_is_blocked_or_failed t then None
            else if tool_result_has_durable_effect tool_name t then Some (tool_name, t) else None)
       else None) (rev (current_turn_messages messages))"

text \<open>A pair of empty texts stands for a success that hides the errors before it.\<close>
definition latest_tool_error_result :: "(json \<Rightarrow> rstr) \<Rightarrow> message list \<Rightarrow> (rstr \<times> rstr) option" where
  "latest_tool_error_result sj messages =
     Option.bind (find_map (\<lambda>m. if \<not> is_tool_message m then None
       else let tool_name = (case ms_metadata m (lit ''tool_name'') of Some n \<Rightarrow> n | None \<Rightarrow> lit ''unknown_tool'');
                t = trim (message_text sj m)
            in if t = [] then None
               else if is_tool_error m \<or> tool_result_content_is_runtime_error t then Some (tool_name, t)
               else Some ([], [])) (rev (current_turn_messages messages)))
       (\<lambda>(tool_name, error). if tool_name = [] \<and> error = [] then None else Some (tool_name, error))"

definition delegate_part_role :: "unicode \<Rightarrow> content_part \<Rightarrow> rstr option" where
  "delegate_part_role U p = (case p of
       ToolCallPart i name arguments \<Rightarrow>
         if name \<noteq> lit ''delegate'' then None
         else map_option (\<lambda>role. u_lower U (trim role)) (Option.bind (json_get arguments (lit ''role'')) as_str)
     | _ \<Rightarrow> None)"

definition latest_delegate_role :: "unicode \<Rightarrow> message list \<Rightarrow> rstr option" where
  "latest_delegate_role U messages =
     find_map (\<lambda>m. if ms_role m \<noteq> AssistantRole then None
       else case ms_content m of Parts parts \<Rightarrow> find_map (delegate_part_role U) (rev parts) | _ \<Rightarrow> None) (rev messages)"

definition has_system_marker :: "(json \<Rightarrow> rstr) \<Rightarrow> message list \<Rightarrow> rstr \<Rightarrow> bool" where
  "has_system_marker sj messages marker = list_ex (\<lambda>m. ms_role m = SystemRole \<and> contains (message_text sj m) marker) messages"

fun marker_before_user :: "(json \<Rightarrow> rstr) \<Rightarrow> rstr \<Rightarrow> message list \<Rightarrow> bool" where
  "marker_before_user sj marker [] = False"
| "marker_before_user sj marker (m # older) =
     (if ms_role m = UserRole then False
      else if ms_role m = SystemRole \<and> contains (message_text sj m) marker then True
      else marker_before_user sj marker older)"

definition has_system_marker_after_latest_user :: "(json \<Rightarrow> rstr) \<Rightarrow> message list \<Rightarrow> rstr \<Rightarrow> bool" where
  "has_system_marker_after_latest_user sj messages marker = marker_before_user sj marker (rev messages)"

section \<open>Keeping a history within its limit\<close>

record reasoner_limits =
  rl_max_history_messages :: nat
  rl_smart_pruning :: bool

text \<open>Where the loop of \<^verbatim>\<open>ensure_latest_user_turn_retained\<close> removes a message.\<close>
definition first_index :: "(nat \<Rightarrow> message \<Rightarrow> bool) \<Rightarrow> message list \<Rightarrow> nat option" where
  "first_index p messages = find_map (\<lambda>(i, m). if p i m then Some i else None) (List.enumerate 0 messages)"

definition index_or :: "nat \<Rightarrow> nat option \<Rightarrow> nat" where
  "index_or d i = (case i of Some n \<Rightarrow> n | None \<Rightarrow> d)"

definition remove_at :: "nat \<Rightarrow> 'a list \<Rightarrow> 'a list" where
  "remove_at i xs = take i xs @ drop (Suc i) xs"

definition removal_index :: "message list \<Rightarrow> nat" where
  "removal_index messages =
     (let removable_non_user = index_or 0 (first_index (\<lambda>i m. ms_role m \<noteq> UserRole) messages);
          removable = min (index_or removable_non_user
            (first_index (\<lambda>i m. ms_role m \<noteq> UserRole \<and> (i \<noteq> 0 \<or> ms_role m \<noteq> SystemRole)) messages)) (length messages - 1)
      in if removable < length messages \<and> ms_role (messages ! removable) = UserRole \<and> list_ex (\<lambda>m. ms_role m \<noteq> UserRole) messages
         then index_or 0 (first_index (\<lambda>i m. ms_role m \<noteq> UserRole) messages)
         else removable)"

lemma find_map_Some: "find_map f xs = Some y \<Longrightarrow> \<exists>x \<in> set xs. f x = Some y"
  by (induction xs) (auto split: option.splits)

lemma first_index_less: "first_index p messages = Some i \<Longrightarrow> i < length messages \<and> p i (messages ! i)"
  unfolding first_index_def by (drule find_map_Some) (auto simp: in_set_enumerate_eq split: if_splits)

lemma find_map_None: "find_map f xs = None \<longleftrightarrow> (\<forall>x \<in> set xs. f x = None)"
  by (induction xs) (auto split: option.splits)

lemma first_index_None: "first_index p messages = None \<longleftrightarrow> (\<forall>i < length messages. \<not> p i (messages ! i))"
  unfolding first_index_def find_map_None by (auto simp: Ball_def in_set_enumerate_eq split: if_splits)

lemma removal_index_less:
  assumes "messages \<noteq> []"
  shows "removal_index messages < length messages"
proof -
  have "index_or 0 (first_index p messages) < length messages" for p
    using first_index_less [of p messages] assms by (cases "first_index p messages") (auto simp: index_or_def)
  moreover have "min i (length messages - 1) < length messages" for i using assms by (cases messages) auto
  ultimately show ?thesis by (simp add: removal_index_def Let_def)
qed

lemma length_remove_at: "i < length xs \<Longrightarrow> length (remove_at i xs) = length xs - 1"
  by (simp add: remove_at_def min_def)

function shrink :: "nat \<Rightarrow> message list \<Rightarrow> message list" where
  "shrink max_history_messages messages =
     (if length messages > max_history_messages then shrink max_history_messages (remove_at (removal_index messages) messages) else messages)"
  by pat_completeness auto
termination
proof (relation "measure (\<lambda>(n, messages). length messages)")
  fix n :: nat and messages :: "message list"
  assume "n < length messages"
  then have "messages \<noteq> []" by auto
  from length_remove_at [OF removal_index_less [OF this]] this
  show "((n, remove_at (removal_index messages) messages), n, messages) \<in> measure (\<lambda>(n, messages). length messages)"
    by (cases messages) auto
qed simp

declare shrink.simps [simp del]

definition ensure_latest_user_turn_retained :: "message list \<Rightarrow> message list \<Rightarrow> nat \<Rightarrow> message list" where
  "ensure_latest_user_turn_retained messages original_messages max_history_messages =
     (if list_ex (\<lambda>m. ms_role m = UserRole) messages then messages
      else case find (\<lambda>m. ms_role m = UserRole) (rev original_messages) of
        None \<Rightarrow> messages
      | Some latest_user \<Rightarrow>
          (let messages = messages @ [latest_user]
           in if max_history_messages = 0 then messages else shrink max_history_messages messages))"

text \<open>\<^verbatim>\<open>&text[0..n]\<close>: \<open>None\<close> is the panic of an end inside a character or beyond the text.\<close>
fun slice_to :: "rstr \<Rightarrow> nat \<Rightarrow> rstr option" where
  "slice_to s 0 = Some []"
| "slice_to [] (Suc n) = None"
| "slice_to (c # s) (Suc n) =
     (if utf8_width c \<le> Suc n then map_option (Cons c) (slice_to s (Suc n - utf8_width c)) else None)"

fun history_role :: "role \<Rightarrow> rstr" where
  "history_role SystemRole = lit ''SYSTEM''"
| "history_role UserRole = lit ''USER''"
| "history_role AssistantRole = lit ''ASSISTANT''"
| "history_role ToolRole = lit ''TOOL_RESULT''"

text \<open>The text given to the distiller; \<open>None\<close> is a panic.\<close>
fun history_text :: "(json \<Rightarrow> rstr) \<Rightarrow> nat \<Rightarrow> message list \<Rightarrow> rstr option" where
  "history_text sj i [] = Some []"
| "history_text sj i (m # ms) =
     (if i = 0 \<and> ms_role m = SystemRole then history_text sj (i + 1) ms
      else let owned_text = content_as_text sj (ms_content m)
        in Option.bind (if utf8_len owned_text > 800 then map_option (\<lambda>s. s @ lit ''... [TRUNCATED]'') (slice_to owned_text 800) else Some owned_text)
          (\<lambda>safe_text. map_option (\<lambda>older. lit ''['' @ show_nat i @ lit ''] '' @ history_role (ms_role m) @ lit '': '' @ trim safe_text @ [10] @ older)
            (history_text sj (i + 1) ms)))"

definition distillation_prompt :: "rstr \<Rightarrow> rstr" where
  "distillation_prompt history =
     lit ''### CONTEXT DISTILLER'' @ [10] @ lit ''Distill this history into a '' @ [39] @ lit ''Task Fact Bundle'' @ [39] @ lit ''.'' @ [10, 10] @ lit ''1. GLOBAL GOAL'' @ [10] @ lit ''2. KEY DISCOVERIES'' @ [10]
     @ lit ''3. TOOL OUTCOMES'' @ [10] @ lit ''4. NEXT STEPS'' @ [10, 10] @ lit ''HISTORY:'' @ [10] @ history"

text \<open>
  The distillation as a request to the provider. \<open>ask\<close> is the provider: \<open>Inl\<close> an error of the
  request or of the timeout, \<open>Inr None\<close> a stream that broke, \<open>Inr (Some t)\<close> the text it collected.
\<close>
definition summarize_old_messages :: "(json \<Rightarrow> rstr) \<Rightarrow> (rstr \<Rightarrow> 'e + rstr option) \<Rightarrow> time \<Rightarrow> message list \<Rightarrow> ('e + message) option" where
  "summarize_old_messages sj ask now old_messages =
     map_option (\<lambda>history.
       if history = [] then Inr (system_message now (TextContent (lit ''### CONTEXT DISTILLATION'' @ [10] @ lit ''Interaction history exhausted.'')))
       else case ask (distillation_prompt history) of
         Inl e \<Rightarrow> Inl e
       | Inr answer \<Rightarrow>
           let summary = (case answer of Some t \<Rightarrow> t | None \<Rightarrow> lit ''Distillation failed.'')
           in Inr (system_message now (TextContent (lit ''### CONTEXT DISTILLATION (FACT BUNDLE)'' @ [10] @ trim summary @ [10, 10]
                @ lit ''(Archived '' @ show_nat (length old_messages) @ lit '' interaction turns)'')))) (history_text sj 0 old_messages)"

text \<open>\<^verbatim>\<open>(max_history_messages as f32 * RECENT_HISTORY_RATIO) as usize\<close>, with the ratio 0.4\<close>
definition RECENT_HISTORY_RATIO :: rat where
  "RECENT_HISTORY_RATIO = f32_round (4 / 10)"

definition keep_recent :: "nat \<Rightarrow> nat" where
  "keep_recent limit = nat \<lfloor>f32_mul (f32_round (of_nat limit)) RECENT_HISTORY_RATIO\<rfloor>"

text \<open>The cache of distillations, by the digest of the texts, which are hashed one after the other.\<close>
definition distil :: "(json \<Rightarrow> rstr) \<Rightarrow> (rstr \<Rightarrow> 'k) \<Rightarrow> (rstr \<Rightarrow> 'e + rstr option) \<Rightarrow> time \<Rightarrow> message list \<Rightarrow> ('k \<rightharpoonup> message)
    \<Rightarrow> ('k \<rightharpoonup> message) \<times> ('e + message) option" where
  "distil sj digest ask now to_summarize cache =
     (let cache_key = digest (concat (map (\<lambda>m. content_as_text sj (ms_content m)) to_summarize))
      in case cache cache_key of
           Some msg \<Rightarrow> (cache, Some (Inr msg))
         | None \<Rightarrow> (case summarize_old_messages sj ask now to_summarize of
             Some (Inr msg) \<Rightarrow> (cache(cache_key \<mapsto> msg), Some (Inr msg))
           | r \<Rightarrow> (cache, r)))"

text \<open>The last step: the cut to the limit, with the first system message put back.\<close>
definition recombine :: "nat \<Rightarrow> message list \<Rightarrow> message \<Rightarrow> message list \<Rightarrow> message list" where
  "recombine limit to_summarize summary_msg recent_history =
     (let first_is_system = (to_summarize \<noteq> [] \<and> ms_role (hd to_summarize) = SystemRole);
          new_messages = (if first_is_system then [hd to_summarize, summary_msg] else [summary_msg]) @ recent_history
      in if length new_messages > limit
         then let cut = drop (length new_messages - limit) new_messages
              in if list_all (\<lambda>m. ms_role m \<noteq> SystemRole) cut \<and> first_is_system then hd to_summarize # cut else cut
         else new_messages)"

text \<open>\<open>None\<close> is a panic of the distillation, \<open>Inl\<close> an error of the provider.\<close>
definition prepare_messages :: "(json \<Rightarrow> rstr) \<Rightarrow> (rstr \<Rightarrow> 'k) \<Rightarrow> (rstr \<Rightarrow> 'e + rstr option) \<Rightarrow> time \<Rightarrow> reasoner_limits \<Rightarrow> message list
    \<Rightarrow> ('k \<rightharpoonup> message) \<Rightarrow> ('k \<rightharpoonup> message) \<times> ('e + message list) option" where
  "prepare_messages sj digest ask now config all_messages cache =
     (let messages = filter (\<lambda>m. trim (content_as_text sj (ms_content m)) \<noteq> []) all_messages;
          limit = rl_max_history_messages config;
          last_ones = drop (length messages - limit) messages;
          to_summarize_count = length messages - keep_recent limit
      in if length messages \<le> limit then (cache, Some (Inr (ensure_latest_user_turn_retained messages messages limit)))
         else if \<not> rl_smart_pruning config \<or> to_summarize_count \<le> 2
         then (cache, Some (Inr (ensure_latest_user_turn_retained last_ones messages limit)))
         else case distil sj digest ask now (take to_summarize_count messages) cache of
             (cache, Some (Inr summary_msg)) \<Rightarrow>
               (cache, Some (Inr (ensure_latest_user_turn_retained
                 (recombine limit (take to_summarize_count messages) summary_msg (drop to_summarize_count messages)) messages limit)))
           | (cache, Some (Inl e)) \<Rightarrow> (cache, Some (Inl e))
           | (cache, None) \<Rightarrow> (cache, None))"

section \<open>What is kept of a history\<close>

definition has_user :: "message list \<Rightarrow> bool" where
  "has_user messages \<longleftrightarrow> list_ex (\<lambda>m. ms_role m = UserRole) messages"

lemma set_remove_at: "set (remove_at i xs) \<subseteq> set xs"
  by (auto simp: remove_at_def dest: in_set_takeD in_set_dropD)

text \<open>As long as there is another message to remove, no message of the user is removed.\<close>
lemma removal_spares_user:
  assumes "list_ex (\<lambda>m. ms_role m \<noteq> UserRole) messages"
  shows "ms_role (messages ! removal_index messages) \<noteq> UserRole"
proof -
  obtain n where n: "first_index (\<lambda>i m. ms_role m \<noteq> UserRole) messages = Some n"
    using assms first_index_None [of "\<lambda>i m. ms_role m \<noteq> UserRole" messages] by (fastforce simp: list_ex_iff in_set_conv_nth)
  define j where "j = index_or n (first_index (\<lambda>i m. ms_role m \<noteq> UserRole \<and> (i \<noteq> 0 \<or> ms_role m \<noteq> SystemRole)) messages)"
  have j: "j < length messages \<and> ms_role (messages ! j) \<noteq> UserRole"
    using first_index_less [OF n] first_index_less [of "\<lambda>i m. ms_role m \<noteq> UserRole \<and> (i \<noteq> 0 \<or> ms_role m \<noteq> SystemRole)" messages]
    by (auto simp: j_def index_or_def split: option.split)
  then have "min j (length messages - 1) = j" by linarith
  have n0: "index_or 0 (first_index (\<lambda>i m. ms_role m \<noteq> UserRole) messages) = n" by (simp add: n index_or_def)
  have "removal_index messages = j"
    unfolding removal_index_def Let_def n0 j_def [symmetric] \<open>min j (length messages - 1) = j\<close> using j by simp
  then show ?thesis using j by simp
qed

lemma remove_at_other: "k \<noteq> i \<Longrightarrow> k < length xs \<Longrightarrow> xs ! k \<in> set (remove_at i xs)"
proof (cases "k < i")
  case True
  moreover assume "k < length xs"
  ultimately have "take i xs ! k \<in> set (take i xs)" by (intro nth_mem) simp
  then show ?thesis using True by (simp add: remove_at_def)
next
  case False
  moreover assume "k \<noteq> i" "k < length xs"
  ultimately have k: "Suc i \<le> k" "k < length xs" by simp_all
  then have "drop (Suc i) xs ! (k - Suc i) \<in> set (drop (Suc i) xs)" by (intro nth_mem) simp
  moreover have "drop (Suc i) xs ! (k - Suc i) = xs ! k" using k by simp
  ultimately have "xs ! k \<in> set (drop (Suc i) xs)" by simp
  then show ?thesis by (simp add: remove_at_def)
qed

lemma has_user_remove_at:
  assumes "has_user messages" and "1 < length messages"
  shows "has_user (remove_at (removal_index messages) messages)"
proof -
  let ?i = "removal_index messages"
  have "messages \<noteq> []" using assms(2) by auto
  then have i: "?i < length messages" by (rule removal_index_less)
  show ?thesis
  proof (cases "list_ex (\<lambda>m. ms_role m \<noteq> UserRole) messages")
    case True
    obtain k where k: "k < length messages" "ms_role (messages ! k) = UserRole"
      using assms(1) by (auto simp: has_user_def list_ex_iff in_set_conv_nth)
    then have "k \<noteq> ?i" using removal_spares_user [OF True] by auto
    then have "messages ! k \<in> set (remove_at ?i messages)" using k(1) by (rule remove_at_other)
    then show ?thesis using k(2) by (auto simp: has_user_def list_ex_iff)
  next
    case False
    then have all: "\<forall>m \<in> set messages. ms_role m = UserRole" by (simp add: list_ex_iff)
    have "length (remove_at ?i messages) \<noteq> 0" unfolding length_remove_at [OF i] using assms(2) by linarith
    then have "hd (remove_at ?i messages) \<in> set (remove_at ?i messages)" by (intro hd_in_set) auto
    moreover from this have "ms_role (hd (remove_at ?i messages)) = UserRole" using set_remove_at [of ?i messages] all by blast
    ultimately show ?thesis unfolding has_user_def list_ex_iff by blast
  qed
qed

lemma shrink_spec:
  assumes "0 < limit"
  shows "length (shrink limit messages) \<le> limit \<and> set (shrink limit messages) \<subseteq> set messages
    \<and> (has_user messages \<longrightarrow> has_user (shrink limit messages))"
  using assms
proof (induction limit messages rule: shrink.induct)
  case (1 limit messages)
  show ?case
  proof (cases "limit < length messages")
    case True
    have "has_user messages \<longrightarrow> has_user (remove_at (removal_index messages) messages)"
      using has_user_remove_at True 1(2) by simp
    then show ?thesis using 1 True set_remove_at by (subst (1 2 3) shrink.simps) fastforce
  next
    case False
    then show ?thesis by (subst (1 2 3) shrink.simps) simp
  qed
qed

lemma find_SomeD: "find P xs = Some x \<Longrightarrow> P x \<and> x \<in> set xs"
  by (induction xs) (auto split: if_splits)

lemma retained_spec:
  assumes "length messages \<le> limit" and "0 < limit"
  shows "length (ensure_latest_user_turn_retained messages originals limit) \<le> limit
    \<and> set (ensure_latest_user_turn_retained messages originals limit) \<subseteq> set messages \<union> set originals
    \<and> (has_user originals \<longrightarrow> has_user (ensure_latest_user_turn_retained messages originals limit))"
proof (cases "has_user messages")
  case True
  then show ?thesis using assms by (auto simp: ensure_latest_user_turn_retained_def has_user_def)
next
  case no_user: False
  show ?thesis
  proof (cases "find (\<lambda>m. ms_role m = UserRole) (rev originals)")
    case None
    then have "\<not> has_user originals" by (auto simp: has_user_def list_ex_iff find_None_iff)
    then show ?thesis using None assms no_user by (auto simp: ensure_latest_user_turn_retained_def has_user_def)
  next
    case (Some m)
    from find_SomeD [OF Some] have m: "ms_role m = UserRole" "m \<in> set originals" by simp_all
    have "has_user (messages @ [m])" using m by (simp add: has_user_def)
    moreover have "ensure_latest_user_turn_retained messages originals limit = shrink limit (messages @ [m])"
      using Some assms(2) no_user by (simp add: ensure_latest_user_turn_retained_def has_user_def)
    ultimately show ?thesis using shrink_spec [OF assms(2), of "messages @ [m]"] m by auto
  qed
qed

section \<open>The number of recent messages\<close>

text \<open>Rounding to single precision keeps 24 bits of every number that is not tiny.\<close>
lemma f32_round_relative:
  assumes "1 / 2 ^ 100 \<le> x"
  shows "f32_round x \<le> x * (1 + 1 / 2 ^ 24)" and "x * (1 - 1 / 2 ^ 24) \<le> f32_round x"
proof -
  have pos: "0 < x" using assms by (rule order.strict_trans2 [rotated]) simp
  define k where "k = log2_floor x"
  have le: "pow2 k \<le> x" "x < pow2 (k + 1)" using log2_floor_bounds [OF pos] by (simp_all add: k_def)
  have "pow2 (- 100) \<le> x" using assms by (simp add: pow2_def)
  then have "pow2 (- 100) < pow2 (k + 1)" using le(2) by simp
  then have "- 101 \<le> k" using pow2_mono [of "k + 1" "- 100"] by linarith
  then have s: "min (23 - k) 149 = 23 - k" by simp
  let ?m = "of_int (rnd_even (x * pow2 (23 - k))) :: rat" and ?p = "pow2 (- (23 - k))"
  have r: "f32_round x = ?m * ?p" using pos s by (simp add: f32_round_def k_def Let_def)
  have one: "pow2 (23 - k) * ?p = 1" unfolding pow2_add [symmetric] by (simp add: pow2_def)
  have "?p = pow2 k * pow2 (- 23)" unfolding pow2_add [symmetric] by simp
  then have half: "?p / 2 = pow2 k * (1 / 2 ^ 24)" by (simp add: pow2_def)
  have "?m * ?p \<le> (x * pow2 (23 - k) + 1 / 2) * ?p"
    using rnd_even_bounds(1) [of "x * pow2 (23 - k)"] by (intro mult_right_mono) (simp_all add: less_imp_le [OF pow2_pos])
  also have "\<dots> = x * (pow2 (23 - k) * ?p) + ?p / 2" by (simp add: distrib_right mult.assoc)
  also have "\<dots> \<le> x * (1 + 1 / 2 ^ 24)" unfolding one half using le(1) by (simp add: distrib_left)
  finally show "f32_round x \<le> x * (1 + 1 / 2 ^ 24)" using r by simp
  have "x * (1 - 1 / 2 ^ 24) \<le> x * (pow2 (23 - k) * ?p) - ?p / 2" unfolding one half using le(1) by (simp add: right_diff_distrib)
  also have "\<dots> = (x * pow2 (23 - k) - 1 / 2) * ?p" by (simp add: left_diff_distrib mult.assoc)
  also have "\<dots> \<le> ?m * ?p"
    using rnd_even_bounds(2) [of "x * pow2 (23 - k)"] by (intro mult_right_mono) (simp_all add: less_imp_le [OF pow2_pos])
  finally show "x * (1 - 1 / 2 ^ 24) \<le> f32_round x" using r by simp
qed

lemma keep_recent_le:
  assumes "1 \<le> limit"
  shows "100 * keep_recent limit \<le> 43 * limit"
proof -
  let ?n = "of_nat limit :: rat" and ?x = "f32_round (of_nat limit)" and ?c = "f32_round (4 / 10)"
  have n: "1 \<le> ?n" using assms by simp
  have small: "1 / 2 ^ 100 \<le> (1 / 8 :: rat)" by simp
  have x: "?x \<le> ?n * (1 + 1 / 2 ^ 24)" "?n * (1 - 1 / 2 ^ 24) \<le> ?x" using small n by (intro f32_round_relative; linarith)+
  have c: "?c \<le> 41 / 100" "39 / 100 \<le> ?c"
    using f32_round_relative [of "4 / 10"] small by simp_all
  have x': "?x \<le> ?n * (101 / 100)" "1 / 2 \<le> ?x"
    using x n mult_left_mono [of "1 + 1 / 2 ^ 24" "101 / 100" ?n] mult_left_mono [of "99 / 100" "1 - 1 / 2 ^ 24" ?n] by simp_all
  have "?x * ?c \<le> (?n * (101 / 100)) * (41 / 100)" using x' c n by (intro mult_mono) simp_all
  then have up: "?x * ?c \<le> ?n * (42 / 100)" using n by simp
  have "1 / 2 * (39 / 100) \<le> ?x * ?c" using x' c by (intro mult_mono) simp_all
  then have "1 / 2 ^ 100 \<le> ?x * ?c" using small by linarith
  then have "f32_round (?x * ?c) \<le> (?x * ?c) * (1 + 1 / 2 ^ 24)" by (rule f32_round_relative)
  also have "\<dots> \<le> (?n * (42 / 100)) * (1 + 1 / 2 ^ 24)" using up by (intro mult_right_mono) simp_all
  also have "\<dots> \<le> ?n * (43 / 100)" using n by simp
  finally have "f32_mul ?x RECENT_HISTORY_RATIO \<le> ?n * (43 / 100)" by (simp add: f32_mul_def RECENT_HISTORY_RATIO_def)
  then have "of_nat (keep_recent limit) \<le> ?n * (43 / 100)"
    unfolding keep_recent_def using f32_round_nonneg [of "?x * RECENT_HISTORY_RATIO"] by (simp add: f32_mul_def) linarith
  then show ?thesis by (simp add: of_nat_le_iff [symmetric, where 'a = rat] del: of_nat_le_iff)
qed

section \<open>The pruned history\<close>

definition cache_ok :: "('k \<rightharpoonup> message) \<Rightarrow> bool" where
  "cache_ok cache \<longleftrightarrow> (\<forall>m \<in> ran cache. ms_role m = SystemRole)"

lemma distil_spec:
  assumes "distil sj digest ask now to_summarize cache = (cache', Some (Inr m))" and "cache_ok cache"
  shows "ms_role m = SystemRole \<and> m \<in> ran cache' \<and> cache_ok cache'"
proof -
  have role: "ms_role m' = SystemRole" if "summarize_old_messages sj ask now to_summarize = Some (Inr m')" for m'
    using that by (auto simp: summarize_old_messages_def system_message_def message_new_def Let_def split: if_splits sum.splits)
  show ?thesis
  proof (cases "cache (digest (concat (map (\<lambda>m. content_as_text sj (ms_content m)) to_summarize)))")
    case (Some m')
    then show ?thesis using assms by (auto simp: distil_def cache_ok_def Let_def ran_def)
  next
    case None
    then have "summarize_old_messages sj ask now to_summarize = Some (Inr m)"
        "cache' = cache(digest (concat (map (\<lambda>m. content_as_text sj (ms_content m)) to_summarize)) \<mapsto> m)"
      using assms(1) by (auto simp: distil_def Let_def split: option.splits sum.splits)
    then show ?thesis using role assms(2) None by (auto simp: cache_ok_def)
  qed
qed

lemma recombine_spec:
  assumes "1 \<le> limit" and "100 * length recent_history \<le> 43 * limit" and "ms_role summary_msg = SystemRole"
  shows "length (recombine limit to_summarize summary_msg recent_history) \<le> limit
    \<and> set (recombine limit to_summarize summary_msg recent_history) \<subseteq> insert summary_msg (set to_summarize \<union> set recent_history)"
proof (cases "limit = 1")
  case True
  then have "recent_history = []" using assms(2) by (cases recent_history) simp_all
  then show ?thesis using True assms(3) by (cases to_summarize) (auto simp: recombine_def Let_def)
next
  case False
  then have "length recent_history + 2 \<le> limit" using assms(1,2) by linarith
  then show ?thesis by (cases to_summarize) (auto simp: recombine_def Let_def)
qed

text \<open>
  C19. A prepared history fits its limit and keeps the user. For a positive limit, the messages
  sent to the provider are at most the limit, each is one of the given messages or a cached
  distillation, and if some message of the user is not blank a message of the user is among them.
  The cache only holds messages of the system.
\<close>
theorem pruned_history_keeps_user:
  assumes "prepare_messages sj digest ask now config given cache = (cache', Some (Inr kept))"
    and "cache_ok cache" and "0 < rl_max_history_messages config"
  shows "length kept \<le> rl_max_history_messages config \<and> set kept \<subseteq> set given \<union> ran cache' \<and> cache_ok cache'
    \<and> (list_ex (\<lambda>m. ms_role m = UserRole \<and> trim (content_as_text sj (ms_content m)) \<noteq> []) given \<longrightarrow> has_user kept)"
proof -
  let ?limit = "rl_max_history_messages config"
  define messages where "messages = filter (\<lambda>m. trim (content_as_text sj (ms_content m)) \<noteq> []) given"
  define count where "count = length messages - keep_recent ?limit"
  have user: "has_user messages" if "list_ex (\<lambda>m. ms_role m = UserRole \<and> trim (content_as_text sj (ms_content m)) \<noteq> []) given"
    using that by (auto simp: has_user_def list_ex_iff messages_def)
  have given: "set messages \<subseteq> set given" by (auto simp: messages_def)
  have done_if: ?thesis if "kept = ensure_latest_user_turn_retained picked messages ?limit" "length picked \<le> ?limit"
      "set picked \<subseteq> set messages \<union> ran cache'" "cache_ok cache'" for picked
    using retained_spec [OF that(2) assms(3), of messages] that user given by blast
  show ?thesis
  proof (cases "length messages \<le> ?limit \<or> \<not> rl_smart_pruning config \<or> count \<le> 2")
    case True
    define picked where "picked = (if length messages \<le> ?limit then messages else drop (length messages - ?limit) messages)"
    have "kept = ensure_latest_user_turn_retained picked messages ?limit \<and> cache' = cache"
      using assms(1) True unfolding prepare_messages_def Let_def messages_def [symmetric] count_def [symmetric]
      by (auto simp: picked_def)
    then show ?thesis using assms(2) by (intro done_if [of picked]) (auto simp: picked_def dest: in_set_dropD)
  next
    case False
    then obtain m where m: "distil sj digest ask now (take count messages) cache = (cache', Some (Inr m))"
        "kept = ensure_latest_user_turn_retained (recombine ?limit (take count messages) m (drop count messages)) messages ?limit"
      using assms(1) unfolding prepare_messages_def Let_def messages_def [symmetric] count_def [symmetric]
      by (auto split: prod.splits option.splits sum.splits)
    note dm = distil_spec [OF m(1) assms(2)]
    have "length (drop count messages) \<le> keep_recent ?limit" by (simp add: count_def)
    then have "100 * length (drop count messages) \<le> 43 * ?limit" using keep_recent_le [of ?limit] assms(3) by linarith
    then have "length (recombine ?limit (take count messages) m (drop count messages)) \<le> ?limit"
        "set (recombine ?limit (take count messages) m (drop count messages)) \<subseteq> insert m (set (take count messages) \<union> set (drop count messages))"
      using recombine_spec [of ?limit "drop count messages" m "take count messages"] dm assms(3) by simp_all
    then show ?thesis using dm m(2) by (intro done_if) (auto dest: in_set_takeD in_set_dropD)
  qed
qed

definition sample_turn :: "message list" where
  "sample_turn = [user_message 0 (TextContent (lit ''q'')), system_message 1 (TextContent (lit ''a'')), system_message 2 (TextContent (lit ''b''))]"

theorem pruned_history_keeps_user_witness:
  "\<exists>kept. prepare_messages (\<lambda>_. []) (\<lambda>t. t) (\<lambda>_. Inl ()) 3 \<lparr>rl_max_history_messages = 2, rl_smart_pruning = False\<rparr> sample_turn Map.empty
      = (Map.empty, Some (Inr kept)) \<and> length kept \<le> 2 \<and> has_user kept"
proof -
  let ?config = "\<lparr>rl_max_history_messages = 2, rl_smart_pruning = False\<rparr>"
  have nonblank: "trim (content_as_text (\<lambda>_. []) (ms_content m)) \<noteq> []" if "m \<in> set sample_turn" for m
    using that by (auto simp: sample_turn_def user_message_def system_message_def message_new_def trim_def trim_start_def trim_end_def is_ws_def)
  then have "filter (\<lambda>m. trim (content_as_text (\<lambda>_. []) (ms_content m)) \<noteq> []) sample_turn = sample_turn" by (simp add: filter_id_conv)
  then obtain kept where kept: "prepare_messages (\<lambda>_. []) (\<lambda>t. t) (\<lambda>_. Inl ()) 3 ?config sample_turn Map.empty = (Map.empty, Some (Inr kept))"
    by (simp add: prepare_messages_def Let_def) (simp add: sample_turn_def)
  have "list_ex (\<lambda>m. ms_role m = UserRole \<and> trim (content_as_text (\<lambda>_. []) (ms_content m)) \<noteq> []) sample_turn"
    using nonblank [of "hd sample_turn"] by (simp add: sample_turn_def user_message_def message_new_def)
  then show ?thesis using pruned_history_keeps_user [OF kept] kept by (auto simp: cache_ok_def)
qed

lemma slice_inside: "slice_to (replicate n 233) (2 * k + 1) = None"
proof (induction k arbitrary: n)
  case 0
  show ?case by (cases n) (simp_all add: utf8_width_def)
next
  case (Suc k)
  then show ?case by (cases n) (simp_all add: utf8_width_def)
qed

text \<open>
  The text for the distiller is cut at byte 800. When that is inside a character the cut panics,
  here for one ASCII letter and 400 letters of two bytes.
\<close>
theorem distillation_can_panic:
  "history_text sj 1 [user_message now (TextContent (97 # replicate 400 233))] = None"
proof -
  have "slice_to (97 # replicate 400 233) (Suc 799) = map_option (Cons 97) (slice_to (replicate 400 233) (2 * 399 + 1))"
    by (subst slice_to.simps) (simp add: utf8_width_def)
  then have "slice_to (97 # replicate 400 233) 800 = None" using slice_inside [of 400 399] by simp
  then show ?thesis by (simp add: user_message_def message_new_def utf8_len_def utf8_width_def sum_list_replicate)
qed

section \<open>Errors of tools\<close>

lemma current_turn_snoc: "current_turn_messages (messages @ [m]) = (if ms_role m = UserRole then [m] else current_turn_messages messages @ [m])"
proof (cases "ms_role m = UserRole")
  case False
  have "length (takeWhile (\<lambda>m. ms_role m \<noteq> UserRole) (rev messages)) < length messages" if "list_ex (\<lambda>m. ms_role m = UserRole) messages"
  proof -
    have "takeWhile (\<lambda>m. ms_role m \<noteq> UserRole) (rev messages) \<noteq> rev messages"
      using that by (auto simp: takeWhile_eq_all_conv list_ex_iff)
    then show ?thesis by (metis length_rev length_takeWhile_le le_neq_implies_less takeWhile_eq_take take_all_iff)
  qed
  then show ?thesis using False by (auto simp: current_turn_messages_def Suc_diff_Suc)
qed (simp add: current_turn_messages_def)

lemma find_map_append: "find_map f (xs @ ys) = (case find_map f xs of Some y \<Rightarrow> Some y | None \<Rightarrow> find_map f ys)"
  by (induction xs) (auto split: option.split)

lemma current_turn_append:
  "list_all (\<lambda>m. ms_role m \<noteq> UserRole) later \<Longrightarrow> current_turn_messages (messages @ later) = current_turn_messages messages @ later"
  by (induction later rule: rev_induct) (simp_all add: current_turn_snoc flip: append_assoc)



end
