(* ===== verification/Context_Window.thy ===== *)
theory Context_Window
  imports Turn_History Runtime_Policy
begin

text \<open>
  The context of a turn (\<^verbatim>\<open>brain/src/agent/context.rs\<close>): estimates of tokens, the selection of
  recent history, the summary of what was left out, and the fit of the assembled messages into the
  budget of the prompt. The tokenizer is a parameter, as are the messages of the background
  layers under a pressure band and what the injectors answered; the texts of the layers and the
  metrics about occupancy are not modelled.
\<close>

section \<open>Estimates\<close>

definition saturating_add :: "nat \<Rightarrow> nat \<Rightarrow> nat" where
  "saturating_add a b = min usize_max (a + b)"

text \<open>The number of tokens of a text, \<open>None\<close> when the tokenizer could not be loaded.\<close>
record token_env =
  te_encode :: "(rstr \<Rightarrow> nat) option"
  te_show_json :: "json \<Rightarrow> rstr"

definition LOCAL_RECENT_HISTORY_MESSAGES :: nat where "LOCAL_RECENT_HISTORY_MESSAGES = 12"
definition LOCAL_PROVIDER_TOKEN_INFLATION_NUMERATOR :: nat where "LOCAL_PROVIDER_TOKEN_INFLATION_NUMERATOR = 9"
definition LOCAL_PROVIDER_TOKEN_INFLATION_DENOMINATOR :: nat where "LOCAL_PROVIDER_TOKEN_INFLATION_DENOMINATOR = 4"
definition CONTEXT_FIT_SAFETY_MARGIN_TOKENS :: nat where "CONTEXT_FIT_SAFETY_MARGIN_TOKENS = 1000"

definition message_tokens :: "token_env \<Rightarrow> message \<Rightarrow> nat" where
  "message_tokens T m =
     (case te_encode T of
        Some encode \<Rightarrow> encode (message_text (te_show_json T) m) + 4
      | None \<Rightarrow> utf8_len (message_text (te_show_json T) m) div 4)"

definition estimate_tokens :: "token_env \<Rightarrow> message list \<Rightarrow> nat" where
  "estimate_tokens T messages = sum_list (map (message_tokens T) messages)"

definition div_ceil :: "nat \<Rightarrow> nat \<Rightarrow> nat" where
  "div_ceil a b = (a + b - 1) div b"

definition adjust_estimated_tokens :: "nat \<Rightarrow> bool \<Rightarrow> nat" where
  "adjust_estimated_tokens tokens is_local =
     (if \<not> is_local \<or> tokens = 0 then tokens
      else div_ceil (saturating_mul tokens LOCAL_PROVIDER_TOKEN_INFLATION_NUMERATOR) LOCAL_PROVIDER_TOKEN_INFLATION_DENOMINATOR)"

definition estimate_tokens_for_provider :: "token_env \<Rightarrow> message list \<Rightarrow> bool \<Rightarrow> nat" where
  "estimate_tokens_for_provider T messages is_local = adjust_estimated_tokens (estimate_tokens T messages) is_local"

definition message_token_cost_for_provider :: "token_env \<Rightarrow> message \<Rightarrow> bool \<Rightarrow> nat" where
  "message_token_cost_for_provider T m is_local = max (estimate_tokens_for_provider T [m] is_local) 1"

definition trim_message_to_token_budget :: "message \<Rightarrow> nat \<Rightarrow> bool \<Rightarrow> message" where
  "trim_message_to_token_budget m token_budget is_local =
     (let chars_per_token = if is_local then 3 else 4
      in message_soft_trim (min 16000 (max 128 (saturating_mul token_budget chars_per_token))) m)"

section \<open>Fitting messages into a budget\<close>

definition latest_user_index :: "message list \<Rightarrow> nat option" where
  "latest_user_index messages = find (\<lambda>i. ms_role (messages ! i) = UserRole) (rev [0..<length messages])"

text \<open>The messages from the last to the first; the tail is kept in the order of time.\<close>
fun fit_tail :: "token_env \<Rightarrow> bool \<Rightarrow> nat \<Rightarrow> nat option \<Rightarrow> bool \<Rightarrow> (nat \<times> message) list \<Rightarrow> message list \<Rightarrow> nat \<Rightarrow> message list" where
  "fit_tail T is_local tail_budget latest skip_first [] tail tail_used = tail"
| "fit_tail T is_local tail_budget latest skip_first ((index, m) # older) tail tail_used =
     (if index = 0 \<and> skip_first then fit_tail T is_local tail_budget latest skip_first older tail tail_used
      else let must_keep = Some index = latest \<or> tail = [];
               cost = message_token_cost_for_provider T m is_local;
               over = saturating_add tail_used cost > tail_budget
        in if over \<and> \<not> must_keep then fit_tail T is_local tail_budget latest skip_first older tail tail_used
           else let candidate = if over then trim_message_to_token_budget m (max (tail_budget - tail_used) 1) is_local else m;
                    cost = if over then message_token_cost_for_provider T candidate is_local else cost
             in if saturating_add tail_used cost \<le> tail_budget \<or> must_keep
                then fit_tail T is_local tail_budget latest skip_first older (candidate # tail) (saturating_add tail_used cost)
                else fit_tail T is_local tail_budget latest skip_first older tail tail_used)"

text \<open>Messages that are neither of the system nor of the user go first.\<close>
function drop_until_fits :: "token_env \<Rightarrow> bool \<Rightarrow> nat \<Rightarrow> message list \<Rightarrow> message list" where
  "drop_until_fits T is_local prompt_budget fitted =
     (if estimate_tokens_for_provider T fitted is_local > prompt_budget \<and> length fitted > 1
      then case first_index (\<lambda>_ m. ms_role m \<notin> {SystemRole, UserRole}) fitted of
          None \<Rightarrow> fitted
        | Some remove_index \<Rightarrow> drop_until_fits T is_local prompt_budget (remove_at remove_index fitted)
      else fitted)"
  by pat_completeness auto
termination
  by (relation "measure (\<lambda>(_, _, _, fitted). length fitted)") (auto simp: length_remove_at dest!: first_index_less)

declare drop_until_fits.simps [simp del]

definition first_system :: "message list \<Rightarrow> message option" where
  "first_system messages = (case messages of m # _ \<Rightarrow> if ms_role m = SystemRole then Some m else None | [] \<Rightarrow> None)"

definition static_budget :: "nat \<Rightarrow> nat" where
  "static_budget prompt_budget =
     (let quarter = max (prompt_budget div 4) 1
      in if prompt_budget < 128 then min quarter (max prompt_budget 1) else min prompt_budget (max 128 quarter))"

definition fit_messages_to_prompt_budget :: "token_env \<Rightarrow> message list \<Rightarrow> nat \<Rightarrow> bool \<Rightarrow> message list \<times> nat" where
  "fit_messages_to_prompt_budget T messages prompt_budget is_local =
     (if messages = [] \<or> estimate_tokens_for_provider T messages is_local \<le> prompt_budget then (messages, 0)
      else let head = (case first_system messages of
                 Some system \<Rightarrow>
                   [if message_token_cost_for_provider T system is_local > static_budget prompt_budget
                    then trim_message_to_token_budget system (static_budget prompt_budget) is_local else system]
               | None \<Rightarrow> []);
               used = (case head of system # _ \<Rightarrow> saturating_add 0 (message_token_cost_for_provider T system is_local) | [] \<Rightarrow> 0);
               fitted = head @ fit_tail T is_local (max (prompt_budget - used) 1) (latest_user_index messages) (head \<noteq> [])
                          (rev (List.enumerate 0 messages)) [] 0;
               fitted = drop_until_fits T is_local prompt_budget fitted;
               fitted = (if estimate_tokens_for_provider T fitted is_local > prompt_budget
                 then map (\<lambda>m. trim_message_to_token_budget m (max (prompt_budget div max (length fitted) 1) 1) is_local) fitted
                 else fitted)
        in (fitted, length messages - length fitted))"

definition final_context_prompt_budget :: "context_config \<Rightarrow> nat" where
  "final_context_prompt_budget cfg =
     (let safety_margin = min CONTEXT_FIT_SAFETY_MARGIN_TOKENS (cx_max_tokens cfg div 8)
      in max (cx_max_tokens cfg - cx_response_reserve cfg - safety_margin) 1)"

section \<open>Selecting history\<close>

text \<open>From the latest message back; a message that does not fit is left out and older ones are
  still tried. The selected messages are in the order of time, the others in that of the loop.\<close>
fun select_history :: "token_env \<Rightarrow> (rstr \<Rightarrow> nat) \<Rightarrow> bool \<Rightarrow> nat \<Rightarrow> message list \<Rightarrow> message list \<Rightarrow> nat \<Rightarrow> message list \<Rightarrow> message list \<times> message list" where
  "select_history T encode is_local history_budget [] selected history_usage pruned = (selected, pruned)"
| "select_history T encode is_local history_budget (m # older) selected history_usage pruned =
     (let m = if encode (message_text (te_show_json T) m) > 2000 then message_soft_trim 4000 m else m;
          cost = adjust_estimated_tokens (encode (message_text (te_show_json T) m) + 4) is_local
      in if history_usage + cost \<le> history_budget
         then select_history T encode is_local history_budget older (m # selected) (history_usage + cost) pruned
         else select_history T encode is_local history_budget older selected history_usage (pruned @ [m]))"

definition effective_max_history :: "context_config \<Rightarrow> strategy \<Rightarrow> bool \<Rightarrow> nat" where
  "effective_max_history cfg strat is_local =
     (let n = max (nat \<lceil>f32_mul (f32_round (of_nat (cx_max_history_messages cfg))) (sg_max_history_ratio (config strat))\<rceil>) 1;
          n = (if strat = Fallback then 1 else n)
      in if is_local then min n LOCAL_RECENT_HISTORY_MESSAGES else n)"

definition retain_latest_user :: "message list \<Rightarrow> message list \<Rightarrow> message list" where
  "retain_latest_user history selected =
     (if list_ex (\<lambda>m. ms_role m = UserRole) selected then selected
      else case find (\<lambda>m. ms_role m = UserRole) (rev history) of
          Some latest_user \<Rightarrow> selected @ [message_soft_trim 2000 latest_user]
        | None \<Rightarrow> selected)"

definition one_line :: "rstr \<Rightarrow> rstr" where
  "one_line s = map (\<lambda>c. if c = 10 then 32 else c) s"

fun pruned_line :: "token_env \<Rightarrow> message \<Rightarrow> rstr" where
  "pruned_line T m =
     (let shown = message_text (te_show_json T) m in
      case ms_role m of
        AssistantRole \<Rightarrow> lit ''- Assistant decision: ''
          @ (if length shown > 64 then one_line (take 60 shown) @ lit ''...'' else one_line shown) @ [10]
      | ToolRole \<Rightarrow> lit ''- Result from: '' @ (case ms_name m of Some n \<Rightarrow> n | None \<Rightarrow> lit ''unknown_tool'') @ [10]
      | UserRole \<Rightarrow> lit ''- User requested: '' @ (if length shown > 40 then take 40 shown @ lit ''...'' else shown) @ [10]
      | SystemRole \<Rightarrow> [])"

definition pruned_log :: "token_env \<Rightarrow> message list \<Rightarrow> rstr" where
  "pruned_log T pruned = lit ''### Historical Context Summary (Pruned)'' @ 10
     # lit ''To save context space, early history was summarized below:'' @ 10 # concat (map (pruned_line T) pruned)"

definition SAFETY_MARGIN :: nat where "SAFETY_MARGIN = 1000"

section \<open>Building the context\<close>

text \<open>\<open>background band recent\<close> are the messages of the background layers, \<open>injected\<close> the answers of
  the injectors. The result is an error when the tokenizer could not be loaded.\<close>
record context_inputs =
  ci_config :: context_config
  ci_system_prompt :: "rstr option"
  ci_background :: "background_pressure_band \<Rightarrow> message list \<Rightarrow> message list"
  ci_has_envelope :: bool
  ci_injected :: "message list"

definition static_prefix :: "time \<Rightarrow> context_inputs \<Rightarrow> strategy \<Rightarrow> message list" where
  "static_prefix now c strat =
     (case ci_system_prompt c of
        None \<Rightarrow> []
      | Some prompt \<Rightarrow> [system_message now (TextContent (prompt @ (if sg_add_concise_directive (config strat)
            then 10 # 10 # lit ''IMPERATIVE: Be extremely concise. Use minimal tokens to achieve the task.'' else [])))])"

definition fallback_messages :: "token_env \<Rightarrow> time \<Rightarrow> context_inputs \<Rightarrow> message list \<Rightarrow> message list" where
  "fallback_messages T now c history =
     (let final = static_prefix now c Fallback @ ci_background c Normal history;
          final = (case find (\<lambda>m. ms_role m = UserRole) (rev history) of Some last_user \<Rightarrow> final @ [last_user] | None \<Rightarrow> final)
      in if history = [] then final
         else let latest = last history;
                  already_included = final \<noteq> [] \<and> ms_role (last final) = ms_role latest
                    \<and> message_text (te_show_json T) (last final) = message_text (te_show_json T) latest
           in if already_included then final else final @ [latest])"

definition occupancy :: "nat \<Rightarrow> nat \<Rightarrow> f32" where
  "occupancy tokens max_window = Finite (if max_window = 0 then 0 else f32_round (f32_round (of_nat tokens) / f32_round (of_nat max_window)))"

definition history_budget :: "token_env \<Rightarrow> time \<Rightarrow> context_inputs \<Rightarrow> strategy \<Rightarrow> bool \<Rightarrow> nat" where
  "history_budget T now c strat is_local =
     cx_max_tokens (ci_config c) - (cx_response_reserve (ci_config c) + SAFETY_MARGIN
       + (estimate_tokens_for_provider T (static_prefix now c strat) is_local
          + estimate_tokens_for_provider T (ci_background c Normal []) is_local
          + estimate_tokens_for_provider T (ci_injected c) is_local))"

definition chosen_history :: "token_env \<Rightarrow> (rstr \<Rightarrow> nat) \<Rightarrow> time \<Rightarrow> context_inputs \<Rightarrow> strategy \<Rightarrow> bool \<Rightarrow> message list \<Rightarrow> message list \<times> message list" where
  "chosen_history T encode now c strat is_local history =
     (let n = length history - effective_max_history (ci_config c) strat is_local;
          (selected, pruned) = select_history T encode is_local (history_budget T now c strat is_local)
             (rev (drop n history)) [] 0 (take n history)
      in (retain_latest_user history selected, pruned))"

definition assembled :: "token_env \<Rightarrow> time \<Rightarrow> context_inputs \<Rightarrow> strategy \<Rightarrow> bool \<Rightarrow> background_pressure_band \<Rightarrow> message list \<Rightarrow> message list \<Rightarrow> message list" where
  "assembled T now c strat is_local band selected pruned =
     static_prefix now c strat @ ci_background c band selected @ ci_injected c
     @ (if (cx_smart_pruning (ci_config c) \<or> sg_enable_smart_pruning (config strat)) \<and> pruned \<noteq> [] \<and> \<not> (is_local \<and> ci_has_envelope c)
        then [system_message now (TextContent (pruned_log T (rev pruned)))] else [])
     @ selected"

definition build_context :: "token_env \<Rightarrow> time \<Rightarrow> context_inputs \<Rightarrow> message list \<Rightarrow> strategy \<Rightarrow> bool \<Rightarrow> unit + message list" where
  "build_context T now c history strat is_local =
     (case te_encode T of
        None \<Rightarrow> Inl ()
      | Some encode \<Rightarrow>
          if strat = Fallback
          then Inr (fst (fit_messages_to_prompt_budget T (fallback_messages T now c history) (final_context_prompt_budget (ci_config c)) is_local))
          else let (selected, pruned) = chosen_history T encode now c strat is_local history;
                   final = assembled T now c strat is_local Normal selected pruned;
                   band = from_prompt_occupancy_ratio (occupancy (estimate_tokens_for_provider T final is_local) (cx_max_tokens (ci_config c)));
                   final = (if band \<noteq> Normal then assembled T now c strat is_local band selected pruned else final)
               in Inr (fst (fit_messages_to_prompt_budget T final (final_context_prompt_budget (ci_config c)) is_local)))"

section \<open>What pruning may do\<close>

text \<open>A message that was trimmed any number of times, and a list of messages of which some were
  dropped and the others trimmed.\<close>
inductive trimmed_of :: "message \<Rightarrow> message \<Rightarrow> bool" where
  trimmed_refl [intro, simp]: "trimmed_of m m"
| trimmed_step [intro]: "trimmed_of m k \<Longrightarrow> trimmed_of m (message_soft_trim limit k)"

inductive pruned_to :: "message list \<Rightarrow> message list \<Rightarrow> bool" where
  pruned_Nil [intro, simp]: "pruned_to [] []"
| pruned_drop [intro]: "pruned_to ms ks \<Longrightarrow> pruned_to (m # ms) ks"
| pruned_keep [intro]: "trimmed_of m k \<Longrightarrow> pruned_to ms ks \<Longrightarrow> pruned_to (m # ms) (k # ks)"

inductive_cases pruned_to_ConsE: "pruned_to (m # ms) ks"
inductive_cases pruned_to_NilE: "pruned_to [] ks"

lemma trimmed_of_trans: "trimmed_of k j \<Longrightarrow> trimmed_of m k \<Longrightarrow> trimmed_of m j"
  by (induction rule: trimmed_of.induct) auto

lemma trimmed_of_role: "trimmed_of m k \<Longrightarrow> ms_role k = ms_role m"
  by (induction rule: trimmed_of.induct) (simp_all add: message_soft_trim_def)

lemma trimmed_of_budget [intro, simp]: "trimmed_of m (trim_message_to_token_budget m b l)"
  by (auto simp: trim_message_to_token_budget_def)

lemma pruned_to_refl [intro, simp]: "pruned_to ms ms"
  by (induction ms) auto

lemma pruned_to_Nil [simp]: "pruned_to ms []"
  by (induction ms) auto

lemma pruned_to_map: "(\<And>m. trimmed_of m (f m)) \<Longrightarrow> pruned_to ms (map f ms)"
  by (induction ms) auto

lemma pruned_to_append: "pruned_to ms ks \<Longrightarrow> pruned_to ms' ks' \<Longrightarrow> pruned_to (ms @ ms') (ks @ ks')"
  by (induction rule: pruned_to.induct) auto

lemma pruned_to_trans: "pruned_to ms ks \<Longrightarrow> pruned_to ks js \<Longrightarrow> pruned_to ms js"
proof (induction arbitrary: js rule: pruned_to.induct)
  case (pruned_keep m k ms ks)
  from pruned_keep.prems pruned_keep show ?case
    by (auto elim!: pruned_to_ConsE intro: trimmed_of_trans)
qed (auto elim: pruned_to_NilE)

lemma pruned_to_length: "pruned_to ms ks \<Longrightarrow> length ks \<le> length ms"
  by (induction rule: pruned_to.induct) auto

lemma pruned_to_source: "pruned_to ms ks \<Longrightarrow> k \<in> set ks \<Longrightarrow> \<exists>m \<in> set ms. trimmed_of m k"
  by (induction rule: pruned_to.induct) auto

lemma pruned_to_remove: "pruned_to ms (remove_at i ms)"
proof -
  have "pruned_to (take i ms @ drop i ms) (take i ms @ drop (Suc i) ms)"
  proof (rule pruned_to_append)
    show "pruned_to (drop i ms) (drop (Suc i) ms)"
      by (cases "drop i ms") (auto simp: drop_Suc drop_tl)
  qed simp
  then show ?thesis by (simp add: remove_at_def)
qed

subsection \<open>The fit\<close>

lemma fit_tail_spec:
  "\<exists>kept. fit_tail T is_local b latest skip older tail used = kept @ tail
    \<and> pruned_to (rev (map snd (filter (\<lambda>(i, _). \<not> (i = 0 \<and> skip)) older))) kept
    \<and> (\<forall>(i, m) \<in> set older. Some i = latest \<longrightarrow> \<not> (i = 0 \<and> skip) \<longrightarrow> (\<exists>k \<in> set kept. trimmed_of m k))"
proof (induction older arbitrary: tail used)
  case (Cons x older)
  obtain index m where x: "x = (index, m)" by fastforce
  define cost where "cost = message_token_cost_for_provider T m is_local"
  define over where "over \<longleftrightarrow> saturating_add used cost > b"
  define candidate where "candidate = (if over then trim_message_to_token_budget m (max (b - used) 1) is_local else m)"
  define cost' where "cost' = (if over then message_token_cost_for_provider T candidate is_local else cost)"
  let ?must = "Some index = latest \<or> tail = []"
  have cand: "trimmed_of m candidate" by (simp add: candidate_def)
  have step: "fit_tail T is_local b latest skip (x # older) tail used =
      (if index = 0 \<and> skip then fit_tail T is_local b latest skip older tail used
       else if over \<and> \<not> ?must then fit_tail T is_local b latest skip older tail used
       else if saturating_add used cost' \<le> b \<or> ?must
       then fit_tail T is_local b latest skip older (candidate # tail) (saturating_add used cost')
       else fit_tail T is_local b latest skip older tail used)"
    by (simp only: x fit_tail.simps Let_def over_def cost_def candidate_def cost'_def)
  consider (skip) "index = 0 \<and> skip" | (left_out) "\<not> (index = 0 \<and> skip)" "over \<and> \<not> ?must"
    | (kept) "\<not> (index = 0 \<and> skip)" "\<not> (over \<and> \<not> ?must)" "saturating_add used cost' \<le> b \<or> ?must"
    | (too_big) "\<not> (index = 0 \<and> skip)" "\<not> (over \<and> \<not> ?must)" "\<not> (saturating_add used cost' \<le> b \<or> ?must)" by blast
  then show ?case
  proof cases
    case skip
    then show ?thesis using Cons.IH [of tail used] by (auto simp: x)
  next
    case left_out
    then have same: "fit_tail T is_local b latest skip (x # older) tail used = fit_tail T is_local b latest skip older tail used"
      by (simp add: step)
    show ?thesis using Cons.IH [of tail used] left_out unfolding same
      by (auto simp: x intro!: pruned_to_append [of _ _ "[m]" "[]", simplified])
  next
    case kept
    then have same: "fit_tail T is_local b latest skip (x # older) tail used
        = fit_tail T is_local b latest skip older (candidate # tail) (saturating_add used cost')"
      unfolding step by argo
    from Cons.IH [of "candidate # tail" "saturating_add used cost'"] obtain ks where
      ks: "fit_tail T is_local b latest skip older (candidate # tail) (saturating_add used cost') = ks @ candidate # tail"
        "pruned_to (rev (map snd (filter (\<lambda>(i, _). \<not> (i = 0 \<and> skip)) older))) ks"
        "\<forall>(i, m) \<in> set older. Some i = latest \<longrightarrow> \<not> (i = 0 \<and> skip) \<longrightarrow> (\<exists>k \<in> set ks. trimmed_of m k)" by blast
    have "pruned_to (rev (map snd (filter (\<lambda>(i, _). \<not> (i = 0 \<and> skip)) older)) @ [m]) (ks @ [candidate])"
      by (rule pruned_to_append [OF ks(2)]) (use cand in auto)
    with ks kept(1) cand show ?thesis unfolding same by (intro exI [of _ "ks @ [candidate]"]) (auto simp: x)
  next
    case too_big
    then have same: "fit_tail T is_local b latest skip (x # older) tail used = fit_tail T is_local b latest skip older tail used"
      by (simp add: step)
    show ?thesis using Cons.IH [of tail used] too_big unfolding same
      by (auto simp: x intro!: pruned_to_append [of _ _ "[m]" "[]", simplified])
  qed
qed simp

lemma drop_until_fits_spec:
  "pruned_to fitted (drop_until_fits T is_local b fitted)
   \<and> filter (\<lambda>m. ms_role m \<in> {SystemRole, UserRole}) (drop_until_fits T is_local b fitted) = filter (\<lambda>m. ms_role m \<in> {SystemRole, UserRole}) fitted
   \<and> (\<forall>m ms. fitted = m # ms \<longrightarrow> ms_role m = SystemRole \<longrightarrow> (\<exists>ms'. drop_until_fits T is_local b fitted = m # ms'))"
proof (induction T is_local b fitted rule: drop_until_fits.induct)
  case (1 T is_local b fitted)
  show ?case
  proof (cases "estimate_tokens_for_provider T fitted is_local > b \<and> length fitted > 1")
    case True
    show ?thesis
    proof (cases "first_index (\<lambda>_ m. ms_role m \<notin> {SystemRole, UserRole}) fitted")
      case (Some i)
      have step: "drop_until_fits T is_local b fitted = drop_until_fits T is_local b (remove_at i fitted)"
        using True Some by (subst drop_until_fits.simps) simp
      have i: "i < length fitted" "ms_role (fitted ! i) \<notin> {SystemRole, UserRole}" using first_index_less [OF Some] by simp_all
      note IH = 1 [OF True Some]
      have "fitted = take i fitted @ fitted ! i # drop (Suc i) fitted" using i(1) by (rule id_take_nth_drop)
      then have keep: "filter (\<lambda>m. ms_role m \<in> {SystemRole, UserRole}) (remove_at i fitted) = filter (\<lambda>m. ms_role m \<in> {SystemRole, UserRole}) fitted"
        using i(2) by (metis (no_types, lifting) filter.simps(2) filter_append remove_at_def)
      have head: "\<exists>ms'. remove_at i fitted = m # ms'" if "fitted = m # ms" "ms_role m = SystemRole" for m ms
        using i(2) that by (cases i) (auto simp: remove_at_def)
      show ?thesis unfolding step using IH keep head pruned_to_trans [OF pruned_to_remove] by metis
    next
      case None
      have same: "drop_until_fits T is_local b fitted = fitted" by (subst drop_until_fits.simps) (simp only: None option.case if_cancel)
      show ?thesis unfolding same by simp
    qed
  next
    case False
    have same: "drop_until_fits T is_local b fitted = fitted" by (subst drop_until_fits.simps) (simp only: False if_False)
    show ?thesis unfolding same by simp
  qed
qed

lemma find_of_map: "find P (map f xs) = map_option f (find (P \<circ> f) xs)"
  by (induction xs) auto

lemma latest_user_index_iff:
  "find (\<lambda>m. ms_role m = UserRole) (rev messages) = Some u \<longleftrightarrow>
   (\<exists>i. latest_user_index messages = Some i \<and> i < length messages \<and> messages ! i = u)"
proof -
  have "rev messages = map ((!) messages) (rev [0..<length messages])" by (simp add: rev_map [symmetric] map_nth)
  then have "find (\<lambda>m. ms_role m = UserRole) (rev messages) = map_option ((!) messages) (latest_user_index messages)"
    by (simp add: latest_user_index_def find_of_map comp_def)
  moreover have "i < length messages" if "latest_user_index messages = Some i" for i
    using that by (auto simp: latest_user_index_def find_Some_iff rev_nth)
  ultimately show ?thesis by auto
qed

text \<open>What the fit keeps: the order, the first message when it is the system's, the latest message
  of the user, each possibly trimmed.\<close>
lemma fit_spec:
  assumes "fit_messages_to_prompt_budget T messages b is_local = (kept, dropped)"
  shows "pruned_to messages kept \<and> length kept + dropped = length messages
    \<and> (\<forall>s. first_system messages = Some s \<longrightarrow> (\<exists>k ks. kept = k # ks \<and> trimmed_of s k))
    \<and> (\<forall>u. find (\<lambda>m. ms_role m = UserRole) (rev messages) = Some u \<longrightarrow> (\<exists>k \<in> set kept. trimmed_of u k))"
proof (cases "messages = [] \<or> estimate_tokens_for_provider T messages is_local \<le> b")
  case True
  then have same: "kept = messages" "dropped = 0" using assms by (auto simp: fit_messages_to_prompt_budget_def)
  have "\<exists>k \<in> set kept. trimmed_of u k" if "find (\<lambda>m. ms_role m = UserRole) (rev messages) = Some u" for u
    using find_SomeD [OF that] same by (intro bexI [of _ u]) auto
  with same show ?thesis by (auto simp: first_system_def split: list.splits if_splits)
next
  case False
  define head where "head = (case first_system messages of
      Some system \<Rightarrow> [if message_token_cost_for_provider T system is_local > static_budget b
        then trim_message_to_token_budget system (static_budget b) is_local else system]
    | None \<Rightarrow> [])"
  define used where "used = (case head of system # _ \<Rightarrow> saturating_add 0 (message_token_cost_for_provider T system is_local) | [] \<Rightarrow> 0)"
  let ?older = "rev (List.enumerate 0 messages)"
  obtain tail where tail: "fit_tail T is_local (max (b - used) 1) (latest_user_index messages) (head \<noteq> []) ?older [] 0 = tail"
    "pruned_to (rev (map snd (filter (\<lambda>(i, _). \<not> (i = 0 \<and> head \<noteq> [])) ?older))) tail"
    "\<forall>(i, m) \<in> set ?older. Some i = latest_user_index messages \<longrightarrow> \<not> (i = 0 \<and> head \<noteq> []) \<longrightarrow> (\<exists>k \<in> set tail. trimmed_of m k)"
    using fit_tail_spec [where T = T and is_local = is_local and b = "max (b - used) 1" and latest = "latest_user_index messages"
        and skip = "head \<noteq> []" and older = ?older and tail = "[]" and used = 0] by auto
  define fitted where "fitted = drop_until_fits T is_local b (head @ tail)"
  define final where "final = (if estimate_tokens_for_provider T fitted is_local > b
      then map (\<lambda>m. trim_message_to_token_budget m (max (b div max (length fitted) 1) 1) is_local) fitted else fitted)"
  have "(final, length messages - length final) = (kept, dropped)"
    using assms False
    by (simp only: fit_messages_to_prompt_budget_def Let_def if_False head_def [symmetric] used_def [symmetric] tail(1)
        fitted_def [symmetric] final_def [symmetric])
  then have res: "kept = final" "dropped = length messages - length final" by auto
  note drop = drop_until_fits_spec [of "head @ tail" T is_local b, folded fitted_def]
  have final: "pruned_to fitted final" by (auto simp: final_def intro: pruned_to_map)
  have final_in: "\<exists>k' \<in> set final. trimmed_of k k'" if "k \<in> set fitted" for k
    using that by (auto simp: final_def)
  show ?thesis
  proof (cases "first_system messages")
    case None
    then have head: "head = []" by (simp add: head_def)
    have "rev (map snd (filter (\<lambda>(i, _). \<not> (i = 0 \<and> head \<noteq> [])) ?older)) = messages"
      by (simp add: head rev_map [symmetric])
    with tail(2) have "pruned_to messages (head @ tail)" by (simp add: head)
    then have pruned: "pruned_to messages final" using drop final pruned_to_trans by blast
    have "\<exists>k \<in> set final. trimmed_of u k" if u: "find (\<lambda>m. ms_role m = UserRole) (rev messages) = Some u" for u
    proof -
      obtain i where i: "latest_user_index messages = Some i" "i < length messages" "messages ! i = u"
        using u latest_user_index_iff by blast
      then have "(i, u) \<in> set ?older" by (auto simp: in_set_enumerate_eq)
      with tail(3) i(1) head obtain k where k: "k \<in> set tail" "trimmed_of u k" by fastforce
      have "ms_role u = UserRole" using u by (auto simp: find_Some_iff)
      then have "k \<in> set (filter (\<lambda>m. ms_role m \<in> {SystemRole, UserRole}) (head @ tail))" using k trimmed_of_role by auto
      then have "k \<in> set fitted" using drop by (metis (no_types, lifting) filter_is_subset subsetD)
      with final_in k(2) show ?thesis using trimmed_of_trans by blast
    qed
    with pruned None res show ?thesis using pruned_to_length [OF pruned] by simp
  next
    case (Some s)
    then obtain ms where ms: "messages = s # ms" and s: "ms_role s = SystemRole"
      by (auto simp: first_system_def split: list.splits if_splits)
    obtain h where head: "head = [h]" "trimmed_of s h" using Some by (auto simp: head_def)
    have "filter (\<lambda>(i, _). \<not> (i = 0 \<and> head \<noteq> [])) (List.enumerate 0 messages) = List.enumerate 1 ms"
      unfolding ms by (auto simp: head in_set_enumerate_eq intro!: filter_True)
    then have "rev (map snd (filter (\<lambda>(i, _). \<not> (i = 0 \<and> head \<noteq> [])) ?older)) = ms"
      by (simp add: rev_filter [symmetric] rev_map [symmetric])
    with tail(2) have "pruned_to messages (head @ tail)" unfolding ms head(1) by (auto intro: head(2))
    then have pruned: "pruned_to messages final" using drop final pruned_to_trans by blast
    have hs: "ms_role h = SystemRole" using head(2) s trimmed_of_role by simp
    then obtain ks where "fitted = h # ks" using drop head(1) by auto
    then have first: "\<exists>k ks. final = k # ks \<and> trimmed_of s k"
      using head(2) trimmed_of_trans [OF trimmed_of_budget head(2)] by (auto simp: final_def)
    have "\<exists>k \<in> set final. trimmed_of u k" if u: "find (\<lambda>m. ms_role m = UserRole) (rev messages) = Some u" for u
    proof -
      obtain i where i: "latest_user_index messages = Some i" "i < length messages" "messages ! i = u"
        using u latest_user_index_iff by blast
      have role: "ms_role u = UserRole" using u by (auto simp: find_Some_iff)
      with i(3) s ms have "i \<noteq> 0" by (cases i) auto
      moreover have "(i, u) \<in> set ?older" using i by (auto simp: in_set_enumerate_eq)
      ultimately obtain k where k: "k \<in> set tail" "trimmed_of u k" using tail(3) i(1) by fastforce
      then have "k \<in> set (filter (\<lambda>m. ms_role m \<in> {SystemRole, UserRole}) (head @ tail))" using role trimmed_of_role by auto
      then have "k \<in> set fitted" using drop by (metis (no_types, lifting) filter_is_subset subsetD)
      with final_in k(2) show ?thesis using trimmed_of_trans by blast
    qed
    with pruned Some res first show ?thesis using pruned_to_length [OF pruned] by simp
  qed
qed

subsection \<open>Selection\<close>

lemma trimmed_of_soft [intro, simp]: "trimmed_of m (message_soft_trim l m)"
  by auto

text \<open>The selected messages are some of the history in its order, and nothing is lost: what is not
  selected is in the list of the others.\<close>
lemma select_history_spec:
  "select_history T encode is_local b older selected used pruned = (sel, out) \<Longrightarrow>
   (\<exists>new. sel = new @ selected \<and> pruned_to (rev older) new \<and> length sel + length out = length older + length selected + length pruned)"
proof (induction older arbitrary: selected used pruned)
  case (Cons m older)
  define k where "k = (if encode (message_text (te_show_json T) m) > 2000 then message_soft_trim 4000 m else m)"
  define cost where "cost = adjust_estimated_tokens (encode (message_text (te_show_json T) k) + 4) is_local"
  have k: "trimmed_of m k" by (simp add: k_def)
  have step: "(if used + cost \<le> b then select_history T encode is_local b older (k # selected) (used + cost) pruned
     else select_history T encode is_local b older selected used (pruned @ [k])) = (sel, out)"
    using Cons.prems by (simp only: select_history.simps Let_def k_def [symmetric] cost_def [symmetric])
  show ?case
  proof (cases "used + cost \<le> b")
    case True
    with step Cons.IH [of "k # selected" "used + cost" pruned] obtain new where
      "sel = new @ k # selected" "pruned_to (rev older) new" "length sel + length out = length older + length (k # selected) + length pruned"
      by auto
    moreover have "pruned_to (rev older @ [m]) (new @ [k])" if "pruned_to (rev older) new"
      by (rule pruned_to_append [OF that]) (use k in auto)
    ultimately show ?thesis by (intro exI [of _ "new @ [k]"]) auto
  next
    case False
    with step Cons.IH [of selected used "pruned @ [k]"] obtain new where
      "sel = new @ selected" "pruned_to (rev older) new" "length sel + length out = length older + length selected + length (pruned @ [k])"
      by auto
    then show ?thesis using pruned_to_append [of "rev older" new "[m]" "[]"] by auto
  qed
qed simp

lemma chosen_history_spec:
  assumes "chosen_history T encode now c strat is_local history = (selected, pruned)"
  shows "(\<forall>k \<in> set selected. \<exists>m \<in> set history. trimmed_of m k)
    \<and> (list_ex (\<lambda>m. ms_role m = UserRole) history \<longrightarrow> list_ex (\<lambda>m. ms_role m = UserRole) selected)"
proof -
  let ?n = "length history - effective_max_history (ci_config c) strat is_local"
  obtain sel where sel: "select_history T encode is_local (history_budget T now c strat is_local) (rev (drop ?n history)) [] 0 (take ?n history) = (sel, pruned)"
    and s: "selected = retain_latest_user history sel"
    using assms by (auto simp: chosen_history_def Let_def split: prod.splits)
  have "pruned_to (drop ?n history) sel" using select_history_spec [OF sel] by auto
  then have from_history: "\<exists>m \<in> set history. trimmed_of m k" if "k \<in> set sel" for k
    using pruned_to_source that by (meson in_set_dropD)
  show ?thesis
  proof (cases "find (\<lambda>m. ms_role m = UserRole) (rev history)")
    case None
    then have "\<not> list_ex (\<lambda>m. ms_role m = UserRole) history" by (auto simp: find_None_iff list_ex_iff)
    with None from_history s show ?thesis by (auto simp: retain_latest_user_def)
  next
    case (Some u)
    then have u: "ms_role u = UserRole" "u \<in> set history" by (auto dest: find_SomeD)
    moreover have "ms_role (message_soft_trim 2000 u) = UserRole" using u by (simp add: message_soft_trim_def)
    ultimately show ?thesis using Some from_history s by (auto simp: retain_latest_user_def)
  qed
qed

lemma find_in_append: "find P (xs @ ys) = (case find P xs of Some x \<Rightarrow> Some x | None \<Rightarrow> find P ys)"
  by (induction xs) auto

lemma user_of_suffix:
  assumes "list_ex (\<lambda>m. ms_role m = UserRole) ks"
  shows "\<exists>u. find (\<lambda>m. ms_role m = UserRole) (rev (ms @ ks)) = Some u \<and> u \<in> set ks \<and> ms_role u = UserRole"
proof -
  obtain u where "find (\<lambda>m. ms_role m = UserRole) (rev ks) = Some u"
    using assms by (cases "find (\<lambda>m. ms_role m = UserRole) (rev ks)") (auto simp: find_None_iff list_ex_iff)
  then show ?thesis by (auto simp: find_in_append dest: find_SomeD)
qed

section \<open>Properties\<close>

text \<open>
  C12. The context keeps the instructions and a question. However little room there is: when a
  system prompt is set, the context begins with it, at most trimmed and with the directive of the
  strategy; and when the history has a message of the user, the context contains one of them, at
  most trimmed.
\<close>
theorem context_keeps_prompt_and_user:
  assumes "build_context T now c history strat is_local = Inr kept"
  shows "(ci_system_prompt c \<noteq> None \<longrightarrow> (\<exists>k ks. kept = k # ks \<and> trimmed_of (hd (static_prefix now c strat)) k))
    \<and> (list_ex (\<lambda>m. ms_role m = UserRole) history \<longrightarrow> (\<exists>u \<in> set history. \<exists>k \<in> set kept. ms_role u = UserRole \<and> trimmed_of u k))"
proof -
  have main: ?thesis
    if kept: "kept = fst (fit_messages_to_prompt_budget T (static_prefix now c strat @ mid @ ks) b is_local)"
      and ks: "\<forall>k \<in> set ks. \<exists>m \<in> set history. trimmed_of m k"
      and user: "list_ex (\<lambda>m. ms_role m = UserRole) history \<longrightarrow> list_ex (\<lambda>m. ms_role m = UserRole) ks" for mid ks b
  proof -
    let ?final = "static_prefix now c strat @ mid @ ks"
    obtain dropped where "fit_messages_to_prompt_budget T ?final b is_local = (kept, dropped)"
      using kept by (metis prod.collapse)
    note fit = fit_spec [OF this]
    have "\<exists>k ks. kept = k # ks \<and> trimmed_of (hd (static_prefix now c strat)) k" if "ci_system_prompt c \<noteq> None"
      using that fit by (auto simp: static_prefix_def first_system_def system_message_def message_new_def)
    moreover have "\<exists>u \<in> set history. \<exists>k \<in> set kept. ms_role u = UserRole \<and> trimmed_of u k"
      if asked: "list_ex (\<lambda>m. ms_role m = UserRole) history"
    proof -
      obtain u where u: "find (\<lambda>m. ms_role m = UserRole) (rev ((static_prefix now c strat @ mid) @ ks)) = Some u" "u \<in> set ks" "ms_role u = UserRole"
        using user_of_suffix [of ks "static_prefix now c strat @ mid"] user asked by auto
      obtain m where m: "m \<in> set history" "trimmed_of m u" using ks u(2) by blast
      then have "ms_role m = UserRole" using trimmed_of_role u(3) by simp
      moreover obtain k where "k \<in> set kept" "trimmed_of u k" using fit u(1) by auto
      ultimately show ?thesis using m trimmed_of_trans by blast
    qed
    ultimately show ?thesis by blast
  qed
  obtain encode where enc: "te_encode T = Some encode" using assms by (cases "te_encode T") (auto simp: build_context_def)
  show ?thesis
  proof (cases "strat = Fallback")
    case True
    define ks where "ks = drop (length (static_prefix now c Fallback @ ci_background c Normal history)) (fallback_messages T now c history)"
    have fm: "fallback_messages T now c history = static_prefix now c Fallback @ ci_background c Normal history @ ks
      \<and> (\<forall>k \<in> set ks. k \<in> set history) \<and> (list_ex (\<lambda>m. ms_role m = UserRole) history \<longrightarrow> list_ex (\<lambda>m. ms_role m = UserRole) ks)"
      unfolding ks_def fallback_messages_def Let_def
      by (auto split: option.splits if_splits dest!: find_SomeD simp: find_None_iff list_ex_iff)
    have "kept = fst (fit_messages_to_prompt_budget T (fallback_messages T now c history) (final_context_prompt_budget (ci_config c)) is_local)"
      using assms enc True by (simp add: build_context_def)
    with fm show ?thesis by (intro main [of "ci_background c Normal history" ks]) (auto simp: True)
  next
    case False
    obtain selected pruned where ch: "chosen_history T encode now c strat is_local history = (selected, pruned)" by fastforce
    have "\<exists>band. kept = fst (fit_messages_to_prompt_budget T (assembled T now c strat is_local band selected pruned)
        (final_context_prompt_budget (ci_config c)) is_local)"
      using assms enc False ch by (auto simp: build_context_def Let_def split: if_splits)
    then obtain mid where "kept = fst (fit_messages_to_prompt_budget T (static_prefix now c strat @ mid @ selected) (final_context_prompt_budget (ci_config c)) is_local)"
      unfolding assembled_def by (metis append.assoc)
    then show ?thesis by (rule main) (use chosen_history_spec [OF ch] in auto)
  qed
qed

definition length_tokens :: token_env where
  "length_tokens = \<lparr>te_encode = Some length, te_show_json = (\<lambda>_. [])\<rparr>"

definition small_context :: "nat \<Rightarrow> context_inputs" where
  "small_context n = \<lparr>ci_config = default_context_config\<lparr>cx_max_tokens := n, cx_response_reserve := 0\<rparr>, ci_system_prompt = Some (lit ''p''),
     ci_background = (\<lambda>_ _. []), ci_has_envelope = False, ci_injected = []\<rparr>"

theorem context_keeps_prompt_and_user_witness:
  "\<exists>k ks. build_context length_tokens 0 (small_context 4) [user_message 1 (TextContent (lit ''question'')), assistant_message 2 (TextContent (lit ''a''))] Fallback True
       = Inr (k # ks)
     \<and> trimmed_of (system_message 0 (TextContent (lit ''p'' @ 10 # 10 # lit ''IMPERATIVE: Be extremely concise. Use minimal tokens to achieve the task.''))) k
     \<and> (\<exists>j \<in> set (k # ks). trimmed_of (user_message 1 (TextContent (lit ''question''))) j)"
proof -
  let ?history = "[user_message 1 (TextContent (lit ''question'')), assistant_message 2 (TextContent (lit ''a''))]"
  obtain kept where kept: "build_context length_tokens 0 (small_context 4) ?history Fallback True = Inr kept"
    by (simp add: build_context_def length_tokens_def)
  have "ci_system_prompt (small_context 4) \<noteq> None" and "list_ex (\<lambda>m. ms_role m = UserRole) ?history"
    by (simp_all add: small_context_def user_message_def message_new_def)
  then obtain k ks u j where k: "kept = k # ks" "trimmed_of (hd (static_prefix 0 (small_context 4) Fallback)) k"
    and u: "u \<in> set ?history" "ms_role u = UserRole" "j \<in> set kept" "trimmed_of u j"
    using context_keeps_prompt_and_user [OF kept] by blast
  from u(1,2) have "u = user_message 1 (TextContent (lit ''question''))"
    by (auto simp: assistant_message_def message_new_def)
  moreover have "hd (static_prefix 0 (small_context 4) Fallback)
      = system_message 0 (TextContent (lit ''p'' @ 10 # 10 # lit ''IMPERATIVE: Be extremely concise. Use minimal tokens to achieve the task.''))"
    by (simp add: static_prefix_def small_context_def)
  ultimately show ?thesis using kept k u(3,4) by (intro exI [of _ k] exI [of _ ks]) metis
qed

text \<open>The selection goes on after a message that does not fit, so an old question can take the
  place of the latest one, although the prompt has room for it.\<close>
theorem latest_question_can_be_lost:
  "let old = user_message 1 (TextContent (lit ''a'')); latest = user_message 2 (TextContent (replicate 200 98));
       c = (small_context 1100)\<lparr>ci_system_prompt := None\<rparr>
   in build_context length_tokens 0 c [old, latest] Standard False = Inr [old]
      \<and> estimate_tokens length_tokens [old, latest] \<le> final_context_prompt_budget (ci_config c)"
proof -
  let ?c = "(small_context 1100)\<lparr>ci_system_prompt := None\<rparr>"
  have "49 \<le> f32_round 50" using f32_round_relative(2) [of 50] by simp
  then have "48 \<le> f32_round (f32_round 50)" using f32_round_relative(2) [of "f32_round 50"] by simp
  then have window: "2 \<le> effective_max_history (ci_config ?c) Standard False"
    by (simp add: effective_max_history_def small_context_def default_context_config_def f32_mul_def) linarith
  then have chosen: "chosen_history length_tokens length 0 ?c Standard False
      [user_message 1 (TextContent (lit ''a'')), user_message 2 (TextContent (replicate 200 98))]
    = ([user_message 1 (TextContent (lit ''a''))], [user_message 2 (TextContent (replicate 200 98))])"
    by (simp add: chosen_history_def Let_def)
      (simp add: history_budget_def small_context_def default_context_config_def SAFETY_MARGIN_def static_prefix_def
        estimate_tokens_for_provider_def estimate_tokens_def adjust_estimated_tokens_def length_tokens_def message_text_def
        user_message_def message_new_def retain_latest_user_def)
  have same: "assembled length_tokens 0 ?c Standard False band [user_message 1 (TextContent (lit ''a''))] pruned = [user_message 1 (TextContent (lit ''a''))]"
    for band pruned by (simp add: assembled_def static_prefix_def small_context_def default_context_config_def)
  have budget: "final_context_prompt_budget (ci_config ?c) = 963"
    by (simp add: small_context_def default_context_config_def final_context_prompt_budget_def CONTEXT_FIT_SAFETY_MARGIN_TOKENS_def)
  have tokens: "message_tokens length_tokens (user_message n (TextContent w)) = length w + 4" for n w
    by (simp add: message_tokens_def length_tokens_def message_text_def user_message_def message_new_def)
  have fit: "fst (fit_messages_to_prompt_budget length_tokens [user_message 1 (TextContent (lit ''a''))] 963 False) = [user_message 1 (TextContent (lit ''a''))]"
    by (simp add: fit_messages_to_prompt_budget_def estimate_tokens_for_provider_def adjust_estimated_tokens_def estimate_tokens_def tokens)
  have "te_encode length_tokens = Some length" by (simp add: length_tokens_def)
  then have "build_context length_tokens 0 ?c [user_message 1 (TextContent (lit ''a'')), user_message 2 (TextContent (replicate 200 98))] Standard False
      = Inr [user_message 1 (TextContent (lit ''a''))]"
    by (simp only: build_context_def chosen same budget fit Let_def option.case prod.case strategy.distinct if_False if_cancel)
  moreover have "estimate_tokens length_tokens [user_message 1 (TextContent (lit ''a'')), user_message 2 (TextContent (replicate 200 98))] \<le> 963"
    by (simp add: estimate_tokens_def tokens)
  ultimately show ?thesis by (simp only: Let_def budget)
qed

end
