(* ===== verification/Context_Fit.thy ===== *)
theory Context_Fit
  imports Context_Window
begin

text \<open>
  The clamp of a chat request to the window of a local model
  (\<^verbatim>\<open>brain/src/agent/runtime_context_budget.rs\<close>, with \<^verbatim>\<open>ChatRequest\<close> of \<^verbatim>\<open>provider-core\<close> and
  \<^verbatim>\<open>ToolDefinition\<close> of \<^verbatim>\<open>infra\<close>): how many tokens a request will take, which messages and tools
  are left out, how much output remains. The tokenizer and the JSON text of the tools are
  parameters; what a provider says of itself is a record.
\<close>

section \<open>Requests\<close>

datatype safety_level = Green | Yellow | Red

record tool_definition =
  td_name :: rstr
  td_description :: rstr
  td_parameters :: json
  td_parameters_ts :: "rstr option"
  td_is_binary :: bool
  td_is_verified :: bool
  td_safety_level :: safety_level
  td_usage_guidelines :: "rstr option"

text \<open>The temperature and the continuation hint are passed on untouched.\<close>
record ('t, 'h) chat_request =
  cq_model :: rstr
  cq_system_prompt :: "rstr option"
  cq_messages :: "message list"
  cq_tools :: "tool_definition list"
  cq_temperature :: "'t option"
  cq_max_tokens :: "u64 option"
  cq_extra_params :: "json option"
  cq_enable_cache_control :: bool
  cq_session_id :: "rstr option"
  cq_continuation_hint :: "'h option"

record provider_view =
  pw_is_local :: bool
  pw_context_window :: nat

record fit_env = token_env +
  fe_tools_json :: "tool_definition list \<Rightarrow> rstr option"

definition LOCAL_CONTEXT_SAFETY_MARGIN_TOKENS :: nat where "LOCAL_CONTEXT_SAFETY_MARGIN_TOKENS = 512"
definition LOCAL_MIN_OUTPUT_TOKENS :: nat where "LOCAL_MIN_OUTPUT_TOKENS = 64"

record clamp_report =
  lr_effective_context_window_tokens :: nat
  lr_estimated_prompt_tokens_before :: nat
  lr_estimated_prompt_tokens_after :: nat
  lr_requested_output_tokens_before :: "u64 option"
  lr_requested_output_tokens_after :: "u64 option"
  lr_dropped_message_count :: nat
  lr_dropped_tool_count :: nat

definition effective_context_window_tokens :: "provider_view \<Rightarrow> u64 option \<Rightarrow> nat" where
  "effective_context_window_tokens p configured_context_tokens =
     (let provider_window = max (pw_context_window p) 1;
          configured_window = (case configured_context_tokens of
              Some tokens \<Rightarrow> if unat tokens > 0 then unat tokens else provider_window
            | None \<Rightarrow> provider_window)
      in if pw_is_local p then max (min configured_window provider_window) 1 else max configured_window 1)"

section \<open>The estimate\<close>

definition prompt_messages :: "time \<Rightarrow> rstr option \<Rightarrow> message list" where
  "prompt_messages now prompt =
     (case prompt of
        Some p \<Rightarrow> if trim p = [] then [] else [system_message now (TextContent (trim p))]
      | None \<Rightarrow> [])"

definition tool_chars :: "tool_definition \<Rightarrow> nat" where
  "tool_chars t = length (td_name t) + length (td_description t) + (case td_usage_guidelines t of Some g \<Rightarrow> length g | None \<Rightarrow> 0)"

definition tool_tokens :: "('z) fit_env_scheme \<Rightarrow> tool_definition list \<Rightarrow> nat" where
  "tool_tokens T tools =
     (if tools = [] then 0
      else saturating_add (case fe_tools_json T tools of
             Some json \<Rightarrow> saturating_add (length json) 3 div 4
           | None \<Rightarrow> saturating_add (sum_list (map tool_chars tools)) 3 div 4) (saturating_mul (length tools) 16))"

definition estimate_chat_request_prompt_tokens :: "fit_env \<Rightarrow> time \<Rightarrow> ('t, 'h) chat_request \<Rightarrow> nat" where
  "estimate_chat_request_prompt_tokens T now q =
     saturating_add (estimate_tokens (token_env.truncate T) (prompt_messages now (cq_system_prompt q) @ cq_messages q)) (tool_tokens T (cq_tools q))"

text \<open>The request that is estimated keeps its system prompt, so the prompt counts twice.\<close>
definition estimate_static_prompt_tokens :: "fit_env \<Rightarrow> time \<Rightarrow> ('t, 'h) chat_request \<Rightarrow> nat" where
  "estimate_static_prompt_tokens T now q =
     estimate_chat_request_prompt_tokens T now (q\<lparr>cq_messages := prompt_messages now (cq_system_prompt q)\<rparr>)"

section \<open>Leaving out messages\<close>

definition message_cost :: "fit_env \<Rightarrow> message \<Rightarrow> nat" where
  "message_cost T m = max (estimate_tokens (token_env.truncate T) [m]) 1"

text \<open>From the last message back; the kept ones are in the order of time.\<close>
fun fit_messages :: "fit_env \<Rightarrow> nat \<Rightarrow> bool \<Rightarrow> message list \<Rightarrow> message list \<Rightarrow> nat \<Rightarrow> message list" where
  "fit_messages T message_budget is_local [] kept used = kept"
| "fit_messages T message_budget is_local (m # older) kept used =
     (let cost = message_cost T m
      in if saturating_add used cost \<le> message_budget \<or> kept = []
         then let candidate = (if saturating_add used cost > message_budget
                then message_soft_trim (max (saturating_mul message_budget (if is_local then 3 else 4)) 256) m else m)
           in fit_messages T message_budget is_local older (candidate # kept) (saturating_add used (message_cost T candidate))
         else fit_messages T message_budget is_local older kept used)"

definition fit_request_messages :: "fit_env \<Rightarrow> time \<Rightarrow> ('t, 'h) chat_request \<Rightarrow> nat \<Rightarrow> bool \<Rightarrow> message list" where
  "fit_request_messages T now q prompt_budget is_local =
     (let message_budget = max (prompt_budget - estimate_static_prompt_tokens T now q) 1;
          shorten = message_soft_trim (max (saturating_mul message_budget 3) 256);
          kept = fit_messages T message_budget is_local (rev (cq_messages q)) [] 0;
          kept = (if kept = [] \<and> cq_messages q \<noteq> [] then [shorten (last (cq_messages q))] else kept)
      in if list_ex (\<lambda>m. ms_role m = UserRole) kept then kept
         else case find (\<lambda>m. ms_role m = UserRole) (rev (cq_messages q)) of
             Some last_user \<Rightarrow> kept @ [shorten last_user]
           | None \<Rightarrow> kept)"

function pop_tools :: "fit_env \<Rightarrow> time \<Rightarrow> nat \<Rightarrow> ('t, 'h) chat_request \<Rightarrow> ('t, 'h) chat_request" where
  "pop_tools T now prompt_budget q =
     (if cq_tools q \<noteq> [] \<and> estimate_chat_request_prompt_tokens T now q > prompt_budget
      then pop_tools T now prompt_budget (q\<lparr>cq_tools := butlast (cq_tools q)\<rparr>) else q)"
  by pat_completeness auto
termination
  by (relation "measure (\<lambda>(_, _, _, q). length (cq_tools q))") auto

function drop_oldest :: "fit_env \<Rightarrow> time \<Rightarrow> nat \<Rightarrow> ('t, 'h) chat_request \<Rightarrow> ('t, 'h) chat_request" where
  "drop_oldest T now prompt_budget q =
     (if length (cq_messages q) > 1 \<and> estimate_chat_request_prompt_tokens T now q > prompt_budget
      then drop_oldest T now prompt_budget (q\<lparr>cq_messages := tl (cq_messages q)\<rparr>) else q)"
  by pat_completeness auto
termination
  by (relation "measure (\<lambda>(_, _, _, q). length (cq_messages q))") auto

section \<open>Trimming texts\<close>

definition trim_string_to_char_limit :: "nat \<Rightarrow> rstr \<Rightarrow> rstr" where
  "trim_string_to_char_limit char_limit value =
     (if length value \<le> char_limit then value else take (char_limit - 32) value @ 10 # 10 # lit ''[context-fit: truncated]'')"

definition trim_prompt :: "nat \<Rightarrow> ('t, 'h) chat_request \<Rightarrow> ('t, 'h) chat_request" where
  "trim_prompt char_limit q = q\<lparr>cq_system_prompt := map_option (trim_string_to_char_limit char_limit) (cq_system_prompt q)\<rparr>"

definition trim_all :: "nat \<Rightarrow> ('t, 'h) chat_request \<Rightarrow> ('t, 'h) chat_request" where
  "trim_all char_limit q = trim_prompt char_limit (q\<lparr>cq_messages := map (message_soft_trim char_limit) (cq_messages q)\<rparr>)"

definition next_limit :: "nat \<Rightarrow> nat" where
  "next_limit char_limit = max (saturating_mul char_limit 3 div 4) 128"

lemma next_limit_less: "128 < n \<Longrightarrow> next_limit n < n"
  by (auto simp: next_limit_def saturating_mul_def min_def)

text \<open>The loop of both trimmings, with what is trimmed as an argument.\<close>
function trim_while :: "fit_env \<Rightarrow> time \<Rightarrow> (nat \<Rightarrow> ('t, 'h) chat_request \<Rightarrow> ('t, 'h) chat_request) \<Rightarrow> nat \<Rightarrow> nat
    \<Rightarrow> ('t, 'h) chat_request \<Rightarrow> ('t, 'h) chat_request" where
  "trim_while T now shorten prompt_budget char_limit q =
     (if estimate_chat_request_prompt_tokens T now q > prompt_budget \<and> char_limit > 128
      then trim_while T now shorten prompt_budget (next_limit char_limit) (shorten (next_limit char_limit) q)
      else q)"
  by pat_completeness auto
termination
  by (relation "measure (\<lambda>(_, _, _, _, n, _). n)") (auto simp: next_limit_less)

declare pop_tools.simps [simp del] drop_oldest.simps [simp del] trim_while.simps [simp del]

definition trim_system_prompt_to_budget :: "fit_env \<Rightarrow> time \<Rightarrow> nat \<Rightarrow> ('t, 'h) chat_request \<Rightarrow> ('t, 'h) chat_request" where
  "trim_system_prompt_to_budget T now prompt_budget q =
     (if cq_system_prompt q = None then q
      else let prompt_budget = max prompt_budget 1;
               q = trim_while T now trim_prompt prompt_budget (max (saturating_mul prompt_budget 3) 128) q
           in if estimate_chat_request_prompt_tokens T now q > prompt_budget then trim_prompt 128 q else q)"

definition trim_messages_and_system_to_budget :: "fit_env \<Rightarrow> time \<Rightarrow> nat \<Rightarrow> ('t, 'h) chat_request \<Rightarrow> ('t, 'h) chat_request" where
  "trim_messages_and_system_to_budget T now prompt_budget q =
     (let prompt_budget = max prompt_budget 1;
          q = trim_while T now trim_all prompt_budget (max (saturating_mul prompt_budget 3) 128) q
      in if estimate_chat_request_prompt_tokens T now q > prompt_budget then trim_all 128 q else q)"

section \<open>The clamp\<close>

fun insert_entry :: "rstr \<Rightarrow> json \<Rightarrow> (rstr \<times> json) list \<Rightarrow> (rstr \<times> json) list" where
  "insert_entry k v [] = [(k, v)]"
| "insert_entry k v ((k', v') # kvs) = (if k' = k then (k, v) # kvs else (k', v') # insert_entry k v kvs)"

definition annotate_context_budget ::
  "nat \<Rightarrow> nat \<Rightarrow> nat \<Rightarrow> u64 option \<Rightarrow> u64 option \<Rightarrow> nat \<Rightarrow> nat \<Rightarrow> ('t, 'h) chat_request \<Rightarrow> ('t, 'h) chat_request" where
  "annotate_context_budget context_window prompt_before prompt_after output_before output_after dropped_messages dropped_tools q =
     (let kvs = (case cq_extra_params q of Some (JObj kvs) \<Rightarrow> kvs | _ \<Rightarrow> []);
          put = (\<lambda>k n. insert_entry (lit k) (JInt (int n)));
          kvs = put ''estimated_prompt_tokens_after_context_fit'' prompt_after
                (put ''estimated_prompt_tokens_before_context_fit'' prompt_before
                (put ''effective_context_window_tokens'' context_window kvs));
          kvs = (case output_before of Some n \<Rightarrow> put ''requested_output_tokens_before_context_fit'' (unat n) kvs | None \<Rightarrow> kvs);
          kvs = (case output_after of Some n \<Rightarrow> put ''requested_output_tokens_after_context_fit'' (unat n) kvs | None \<Rightarrow> kvs);
          kvs = (if dropped_messages > 0 \<or> dropped_tools > 0 \<or> output_before \<noteq> output_after
            then put ''context_fit_dropped_tools'' dropped_tools (put ''context_fit_dropped_messages'' dropped_messages
                 (insert_entry (lit ''context_fit_applied'') (JBool True) kvs))
            else kvs)
      in q\<lparr>cq_extra_params := Some (JObj kvs)\<rparr>)"

definition safety_margin :: "nat \<Rightarrow> nat" where
  "safety_margin context_window = min LOCAL_CONTEXT_SAFETY_MARGIN_TOKENS (context_window div 8)"

definition requested_output :: "nat \<Rightarrow> nat \<Rightarrow> u64 option \<Rightarrow> nat" where
  "requested_output context_window default_output_tokens max_tokens =
     (let default_output = min (max default_output_tokens 1) (max (context_window - 1) 1)
      in min (case max_tokens of Some t \<Rightarrow> if unat t > 0 then unat t else default_output | None \<Rightarrow> default_output)
           (max (context_window - 1) 1))"

definition minimum_output :: "nat \<Rightarrow> nat" where
  "minimum_output context_window = max (min LOCAL_MIN_OUTPUT_TOKENS (max (context_window div 4) 1)) 1"

text \<open>The request cut to a budget for its prompt, with the numbers of messages and tools left out.\<close>
definition cut_request :: "fit_env \<Rightarrow> time \<Rightarrow> nat \<Rightarrow> ('t, 'h) chat_request \<Rightarrow> ('t, 'h) chat_request \<times> nat \<times> nat" where
  "cut_request T now prompt_budget q =
     (let q1 = q\<lparr>cq_messages := fit_request_messages T now q prompt_budget True\<rparr>;
          dropped_messages = length (cq_messages q) - length (cq_messages q1);
          q2 = pop_tools T now prompt_budget q1;
          dropped_tools = length (cq_tools q1) - length (cq_tools q2);
          q3 = drop_oldest T now prompt_budget q2;
          dropped_messages = dropped_messages + (length (cq_messages q2) - length (cq_messages q3));
          per_message_chars = max (saturating_mul prompt_budget 3 div max (length (cq_messages q3)) 1) 128;
          q4 = (if estimate_chat_request_prompt_tokens T now q3 > prompt_budget
            then q3\<lparr>cq_messages := map (message_soft_trim per_message_chars) (cq_messages q3)\<rparr> else q3);
          q5 = (if estimate_chat_request_prompt_tokens T now q4 > prompt_budget
            then trim_system_prompt_to_budget T now prompt_budget q4 else q4)
      in (q5, dropped_messages, dropped_tools))"

text \<open>The request, the tokens left for the output, and the numbers of messages and tools left out,
  when the prompt takes too much, and in general.\<close>
definition squeeze_request :: "fit_env \<Rightarrow> time \<Rightarrow> nat \<Rightarrow> nat \<Rightarrow> ('t, 'h) chat_request \<Rightarrow> ('t, 'h) chat_request \<times> nat \<times> nat \<times> nat" where
  "squeeze_request T now context_window requested q =
     (let margin = safety_margin context_window;
          minimum = minimum_output context_window;
          target_output = max (min requested minimum) 1;
          cut = cut_request T now (max (context_window - target_output - margin) 1) q;
          available = context_window - estimate_chat_request_prompt_tokens T now (fst cut) - margin;
          q = (if available < minimum
            then trim_messages_and_system_to_budget T now (max (context_window - minimum - margin) 1) (fst cut) else fst cut);
          available = context_window - estimate_chat_request_prompt_tokens T now q - margin
      in (q, max (min target_output (max available 1)) (min minimum (max (context_window div 4) 1)), fst (snd cut), snd (snd cut)))"

definition fit_request :: "fit_env \<Rightarrow> time \<Rightarrow> nat \<Rightarrow> nat \<Rightarrow> ('t, 'h) chat_request \<Rightarrow> ('t, 'h) chat_request \<times> nat \<times> nat \<times> nat" where
  "fit_request T now context_window requested q =
     (let margin = safety_margin context_window;
          prompt_before = estimate_chat_request_prompt_tokens T now q
      in if saturating_add (saturating_add prompt_before requested) margin > context_window
         then let available_output = context_window - prompt_before - margin
           in if available_output \<ge> LOCAL_MIN_OUTPUT_TOKENS then (q, min requested available_output, 0, 0)
              else squeeze_request T now context_window requested q
         else (q, requested, 0, 0))"

definition clamp_local_chat_request_to_context ::
  "fit_env \<Rightarrow> time \<Rightarrow> provider_view \<Rightarrow> u64 option \<Rightarrow> nat \<Rightarrow> ('t, 'h) chat_request \<Rightarrow> ('t, 'h) chat_request \<times> clamp_report option" where
  "clamp_local_chat_request_to_context T now p configured_context_tokens default_output_tokens q =
     (if \<not> pw_is_local p then (q, None)
      else let context_window = effective_context_window_tokens p configured_context_tokens;
               output_before = cq_max_tokens q;
               prompt_before = estimate_chat_request_prompt_tokens T now q;
               (q, target_output, dropped_messages, dropped_tools) =
                  fit_request T now context_window (requested_output context_window default_output_tokens output_before) q;
               q = q\<lparr>cq_max_tokens := Some (of_nat target_output)\<rparr>;
               prompt_after = estimate_chat_request_prompt_tokens T now q;
               q = annotate_context_budget context_window prompt_before prompt_after output_before (Some (of_nat target_output))
                     dropped_messages dropped_tools q
           in (q, Some \<lparr>lr_effective_context_window_tokens = context_window, lr_estimated_prompt_tokens_before = prompt_before,
                 lr_estimated_prompt_tokens_after = prompt_after, lr_requested_output_tokens_before = output_before,
                 lr_requested_output_tokens_after = Some (of_nat target_output), lr_dropped_message_count = dropped_messages,
                 lr_dropped_tool_count = dropped_tools\<rparr>))"

section \<open>What the cut keeps\<close>

abbreviation asks :: "message list \<Rightarrow> bool" where
  "asks messages \<equiv> list_ex (\<lambda>m. ms_role m = UserRole) messages"

text \<open>Every message comes from a given one, and the tools are the first of the given ones.\<close>
definition follows :: "('t, 'h) chat_request \<Rightarrow> ('t, 'h) chat_request \<Rightarrow> bool" where
  "follows q q' \<longleftrightarrow> (\<forall>k \<in> set (cq_messages q'). \<exists>m \<in> set (cq_messages q). trimmed_of m k) \<and> (\<exists>n. cq_tools q' = take n (cq_tools q))"

lemma follows_refl [intro, simp]: "follows q q"
  by (auto simp: follows_def intro: exI [of _ "length (cq_tools q)"])

lemma follows_trans: "follows q r \<Longrightarrow> follows r t \<Longrightarrow> follows q t"
  unfolding follows_def by (metis take_take trimmed_of_trans)

lemma asks_trimmed: "list_all2 trimmed_of ms ks \<Longrightarrow> asks ks = asks ms"
  by (induction rule: list_all2_induct) (auto dest: trimmed_of_role)

lemma list_all2_source: "list_all2 P xs ys \<Longrightarrow> y \<in> set ys \<Longrightarrow> \<exists>x \<in> set xs. P x y"
  by (induction rule: list_all2_induct) auto

text \<open>A step that only trims messages and changes the prompt.\<close>
definition only_trims :: "('t, 'h) chat_request \<Rightarrow> ('t, 'h) chat_request \<Rightarrow> bool" where
  "only_trims q q' \<longleftrightarrow> list_all2 trimmed_of (cq_messages q) (cq_messages q') \<and> cq_tools q' = cq_tools q"

lemma only_trims_refl [intro, simp]: "only_trims q q"
  by (simp add: only_trims_def list_all2_refl)

lemma only_trims_trans: "only_trims q r \<Longrightarrow> only_trims r t \<Longrightarrow> only_trims q t"
  unfolding only_trims_def
  by (auto elim!: list_all2_trans [of trimmed_of trimmed_of trimmed_of, rotated] intro: trimmed_of_trans)

lemma only_trims_follows: "only_trims q q' \<Longrightarrow> follows q q' \<and> asks (cq_messages q') = asks (cq_messages q)"
  using list_all2_source [of trimmed_of "cq_messages q" "cq_messages q'"]
  by (auto simp: only_trims_def follows_def asks_trimmed intro: exI [of _ "length (cq_tools q)"])

lemma only_trims_map [intro]: "only_trims q (q\<lparr>cq_messages := map (message_soft_trim n) (cq_messages q)\<rparr>)"
  by (auto simp: only_trims_def list_all2_conv_all_nth)

lemma only_trims_prompt [intro, simp]: "only_trims q (trim_prompt n q)" "only_trims q (trim_all n q)"
  by (auto simp: only_trims_def trim_prompt_def trim_all_def list_all2_conv_all_nth)

lemma only_trims_while:
  assumes "\<And>n q. only_trims q (shorten n q)"
  shows "only_trims q (trim_while T now shorten b n q)"
  using assms
proof (induction T now shorten b n q rule: trim_while.induct)
  case (1 T now shorten b n q)
  show ?case
    by (subst trim_while.simps) (auto intro: only_trims_trans [OF 1(2) 1(1)] 1(2))
qed

lemma pop_tools_spec:
  "cq_messages (pop_tools T now b q) = cq_messages q \<and> follows q (pop_tools T now b q)"
proof (induction T now b q rule: pop_tools.induct)
  case (1 T now b q)
  have "follows q (q\<lparr>cq_tools := butlast (cq_tools q)\<rparr>)"
    by (auto simp: follows_def butlast_conv_take)
  with 1 show ?case by (subst (1 2) pop_tools.simps) (auto intro: follows_trans)
qed

lemma drop_oldest_spec:
  "(\<exists>n. cq_messages (drop_oldest T now b q) = drop n (cq_messages q))
   \<and> (cq_messages q \<noteq> [] \<longrightarrow> cq_messages (drop_oldest T now b q) \<noteq> []) \<and> cq_tools (drop_oldest T now b q) = cq_tools q"
proof (induction T now b q rule: drop_oldest.induct)
  case (1 T now b q)
  show ?case
  proof (cases "length (cq_messages q) > 1 \<and> estimate_chat_request_prompt_tokens T now q > b")
    case True
    then have step: "drop_oldest T now b q = drop_oldest T now b (q\<lparr>cq_messages := tl (cq_messages q)\<rparr>)"
      by (subst drop_oldest.simps) (simp only: simp_thms if_True)
    from True have "tl (cq_messages q) \<noteq> []" by (cases "cq_messages q") auto
    moreover obtain n where "cq_messages (drop_oldest T now b q) = drop n (tl (cq_messages q))" using 1 [OF True] step by auto
    then have "cq_messages (drop_oldest T now b q) = drop (Suc n) (cq_messages q)" by (simp add: drop_Suc)
    ultimately show ?thesis using 1 [OF True] step by auto
  next
    case False
    then have "drop_oldest T now b q = q" by (subst drop_oldest.simps) (simp only: if_False)
    then show ?thesis by (auto intro: exI [of _ 0])
  qed
qed

lemma drop_oldest_follows: "follows q (drop_oldest T now b q)"
  using drop_oldest_spec [of T now b q] unfolding follows_def
  by (metis in_set_dropD take_all_iff order_refl trimmed_refl)

text \<open>The question survives the dropping when it is the last message, or when nothing is dropped.\<close>
lemma drop_oldest_asks:
  assumes "cq_messages q \<noteq> [] \<and> ms_role (last (cq_messages q)) = UserRole
    \<or> asks (cq_messages q) \<and> (length (cq_messages q) \<le> 1 \<or> estimate_chat_request_prompt_tokens T now q \<le> b)"
  shows "asks (cq_messages (drop_oldest T now b q))"
  using assms
proof
  assume user: "cq_messages q \<noteq> [] \<and> ms_role (last (cq_messages q)) = UserRole"
  obtain n where n: "cq_messages (drop_oldest T now b q) = drop n (cq_messages q)" "drop n (cq_messages q) \<noteq> []"
    using drop_oldest_spec [of T now b q] user by auto
  then have "last (cq_messages (drop_oldest T now b q)) = last (cq_messages q)" by (simp add: last_drop)
  moreover have "last (cq_messages (drop_oldest T now b q)) \<in> set (cq_messages (drop_oldest T now b q))"
    unfolding n(1) by (rule last_in_set [OF n(2)])
  ultimately show ?thesis using user by (auto simp: list_ex_iff)
next
  assume "asks (cq_messages q) \<and> (length (cq_messages q) \<le> 1 \<or> estimate_chat_request_prompt_tokens T now q \<le> b)"
  then show ?thesis by (subst drop_oldest.simps) auto
qed

subsection \<open>The messages that fit\<close>

definition total_cost :: "fit_env \<Rightarrow> message list \<Rightarrow> nat" where
  "total_cost T ms = sum_list (map (message_cost T) ms)"

lemma total_cost_simps [simp]: "total_cost T [] = 0" "total_cost T (m # ms) = message_cost T m + total_cost T ms"
  by (simp_all add: total_cost_def)

lemma length_le_cost: "length ms \<le> total_cost T ms"
  by (induction ms) (auto simp: message_cost_def)

lemma tokens_le_cost: "estimate_tokens (token_env.truncate T) ms \<le> total_cost T ms"
  by (induction ms) (auto simp: estimate_tokens_def message_cost_def)

lemma fit_messages_spec:
  assumes "b < usize_max" and "used = min usize_max (total_cost T kept)" and "length kept \<le> 1 \<or> total_cost T kept \<le> b"
  shows "\<exists>new. fit_messages T b l older kept used = new @ kept \<and> list_all (\<lambda>k. \<exists>m \<in> set older. trimmed_of m k) new
    \<and> (older \<noteq> [] \<longrightarrow> new @ kept \<noteq> []) \<and> (length (new @ kept) \<le> 1 \<or> total_cost T (new @ kept) \<le> b)"
  using assms(2,3)
proof (induction older arbitrary: kept used)
  case (Cons m older)
  define candidate where "candidate = (if saturating_add used (message_cost T m) > b
      then message_soft_trim (max (saturating_mul b (if l then 3 else 4)) 256) m else m)"
  have from_m: "trimmed_of m candidate" by (auto simp: candidate_def)
  show ?case
  proof (cases "saturating_add used (message_cost T m) \<le> b \<or> kept = []")
    case True
    let ?used = "saturating_add used (message_cost T candidate)"
    have step: "fit_messages T b l (m # older) kept used = fit_messages T b l older (candidate # kept) ?used"
      using True by (simp add: Let_def candidate_def)
    have "?used = min usize_max (total_cost T (candidate # kept))"
      using Cons.prems(1) by (auto simp: saturating_add_def)
    moreover have "length (candidate # kept) \<le> 1 \<or> total_cost T (candidate # kept) \<le> b"
    proof (cases "kept = []")
      case False
      with True have fits: "saturating_add used (message_cost T m) \<le> b" by simp
      then have "candidate = m" by (simp add: candidate_def)
      with fits assms(1) Cons.prems(1) show ?thesis by (auto simp: saturating_add_def min_def split: if_splits)
    qed simp
    ultimately obtain new where "fit_messages T b l older (candidate # kept) ?used = new @ candidate # kept"
      "list_all (\<lambda>k. \<exists>m \<in> set older. trimmed_of m k) new" "length (new @ candidate # kept) \<le> 1 \<or> total_cost T (new @ candidate # kept) \<le> b"
      using Cons.IH [of ?used "candidate # kept"] by blast
    then show ?thesis using step from_m
      by (intro exI [of _ "new @ [candidate]"]) (auto simp: list_all_iff)
  next
    case False
    then have "fit_messages T b l (m # older) kept used = fit_messages T b l older kept used" by (simp add: Let_def)
    moreover obtain new where "fit_messages T b l older kept used = new @ kept"
      "list_all (\<lambda>k. \<exists>m \<in> set older. trimmed_of m k) new" "length (new @ kept) \<le> 1 \<or> total_cost T (new @ kept) \<le> b"
      using Cons.IH [OF Cons.prems] by blast
    ultimately show ?thesis using False by (intro exI [of _ new]) (auto simp: list_all_iff)
  qed
qed simp

lemma fit_request_messages_spec:
  assumes "max (b - estimate_static_prompt_tokens T now q) 1 < usize_max" and "asks (cq_messages q)"
  shows "let ms = fit_request_messages T now q b l in
    (\<forall>k \<in> set ms. \<exists>m \<in> set (cq_messages q). trimmed_of m k)
    \<and> (ms \<noteq> [] \<and> ms_role (last ms) = UserRole
       \<or> asks ms \<and> (length ms \<le> 1 \<or> total_cost T ms \<le> max (b - estimate_static_prompt_tokens T now q) 1))"
proof -
  let ?b = "max (b - estimate_static_prompt_tokens T now q) 1"
  define kept where "kept = fit_messages T ?b l (rev (cq_messages q)) [] 0"
  have some: "cq_messages q \<noteq> []" using assms(2) by auto
  obtain k: "list_all (\<lambda>k. \<exists>m \<in> set (cq_messages q). trimmed_of m k) kept" "kept \<noteq> []" "length kept \<le> 1 \<or> total_cost T kept \<le> ?b"
    using fit_messages_spec [OF assms(1), of 0 T "[]" l "rev (cq_messages q)"] some by (auto simp: kept_def)
  show ?thesis
  proof (cases "asks kept")
    case True
    then have "fit_request_messages T now q b l = kept" using k(2) by (simp add: fit_request_messages_def Let_def kept_def)
    with True k show ?thesis by (auto simp: Let_def list_all_iff)
  next
    case False
    obtain u where u: "find (\<lambda>m. ms_role m = UserRole) (rev (cq_messages q)) = Some u"
      using assms(2) by (cases "find (\<lambda>m. ms_role m = UserRole) (rev (cq_messages q))") (auto simp: find_None_iff list_ex_iff)
    then have "ms_role u = UserRole" "u \<in> set (cq_messages q)" by (auto dest: find_SomeD)
    moreover have "fit_request_messages T now q b l = kept @ [message_soft_trim (max (saturating_mul ?b 3) 256) u]"
      using False k(2) u by (simp add: fit_request_messages_def Let_def kept_def)
    moreover have "ms_role (message_soft_trim n u) = ms_role u" for n by (simp add: message_soft_trim_def)
    ultimately show ?thesis using k(1) by (auto simp: Let_def list_all_iff)
  qed
qed

subsection \<open>The whole cut\<close>

text \<open>What was kept within its budget fits the prompt, so nothing more is dropped.\<close>
lemma kept_fits:
  assumes "b < usize_max" and "length ms \<le> 1 \<or> total_cost T ms \<le> max (b - estimate_static_prompt_tokens T now q) 1"
  shows "length ms \<le> 1 \<or> estimate_chat_request_prompt_tokens T now (q\<lparr>cq_messages := ms\<rparr>) \<le> b"
proof (rule disjCI)
  assume "\<not> estimate_chat_request_prompt_tokens T now (q\<lparr>cq_messages := ms\<rparr>) \<le> b"
  then have over: "b < saturating_add (estimate_tokens (token_env.truncate T) (prompt_messages now (cq_system_prompt q)) + estimate_tokens (token_env.truncate T) ms)
      (tool_tokens T (cq_tools q))"
    by (simp add: estimate_chat_request_prompt_tokens_def estimate_tokens_def)
  let ?s = "estimate_tokens (token_env.truncate T) (prompt_messages now (cq_system_prompt q))"
  have static: "estimate_static_prompt_tokens T now q = min usize_max (?s + ?s + tool_tokens T (cq_tools q))"
    by (simp add: estimate_static_prompt_tokens_def estimate_chat_request_prompt_tokens_def estimate_tokens_def saturating_add_def)
  show "length ms \<le> 1"
  proof (rule ccontr)
    assume "\<not> length ms \<le> 1"
    with assms(2) have "total_cost T ms \<le> max (b - estimate_static_prompt_tokens T now q) 1" "2 \<le> total_cost T ms"
      using length_le_cost [of ms T] by linarith+
    then have "total_cost T ms + estimate_static_prompt_tokens T now q \<le> b" by linarith
    with static assms(1) have "?s + estimate_tokens (token_env.truncate T) ms + tool_tokens T (cq_tools q) \<le> b"
      using tokens_le_cost [of T ms] by (simp add: min_def split: if_splits)
    with over show False by (simp add: saturating_add_def)
  qed
qed

lemma only_trims_system: "only_trims q (trim_system_prompt_to_budget T now b q)"
  by (auto simp: trim_system_prompt_to_budget_def Let_def
      intro: only_trims_trans [OF only_trims_while [OF only_trims_prompt(1)] only_trims_prompt(1)] only_trims_while [OF only_trims_prompt(1)])

lemma only_trims_both: "only_trims q (trim_messages_and_system_to_budget T now b q)"
  by (auto simp: trim_messages_and_system_to_budget_def Let_def
      intro: only_trims_trans [OF only_trims_while [OF only_trims_prompt(2)] only_trims_prompt(2)] only_trims_while [OF only_trims_prompt(2)])

lemma cut_request_spec:
  assumes "b < usize_max" and "1 < usize_max" and "asks (cq_messages q)"
  shows "follows q (fst (cut_request T now b q)) \<and> asks (cq_messages (fst (cut_request T now b q)))"
proof -
  define q1 where "q1 = q\<lparr>cq_messages := fit_request_messages T now q b True\<rparr>"
  define q2 where "q2 = pop_tools T now b q1"
  define q3 where "q3 = drop_oldest T now b q2"
  define q4 where "q4 = (if estimate_chat_request_prompt_tokens T now q3 > b
      then q3\<lparr>cq_messages := map (message_soft_trim (max (saturating_mul b 3 div max (length (cq_messages q3)) 1) 128)) (cq_messages q3)\<rparr> else q3)"
  define q5 where "q5 = (if estimate_chat_request_prompt_tokens T now q4 > b then trim_system_prompt_to_budget T now b q4 else q4)"
  have res: "fst (cut_request T now b q) = q5"
    by (simp only: cut_request_def Let_def q1_def [symmetric] q2_def [symmetric] q3_def [symmetric] q4_def [symmetric]
        q5_def [symmetric] fst_conv)
  have budget: "max (b - estimate_static_prompt_tokens T now q) 1 < usize_max" using assms(1,2) by linarith
  note ms = fit_request_messages_spec [OF budget assms(3), where l = True, unfolded Let_def]
  have f1: "follows q q1" using ms by (auto simp: follows_def q1_def intro: exI [of _ "length (cq_tools q)"])
  have f2: "follows q1 q2" "cq_messages q2 = fit_request_messages T now q b True"
    using pop_tools_spec [of T now b q1] by (simp_all add: q2_def) (simp add: q1_def)
  have f3: "follows q2 q3" unfolding q3_def by (rule drop_oldest_follows)
  have "asks (cq_messages q3)" unfolding q3_def
  proof (rule drop_oldest_asks)
    consider (user_last) "cq_messages q2 \<noteq> [] \<and> ms_role (last (cq_messages q2)) = UserRole"
      | (within_budget) "asks (cq_messages q2)" "length (cq_messages q2) \<le> 1 \<or> total_cost T (cq_messages q2) \<le> max (b - estimate_static_prompt_tokens T now q) 1"
      using ms f2(2) by auto
    then show "cq_messages q2 \<noteq> [] \<and> ms_role (last (cq_messages q2)) = UserRole
      \<or> asks (cq_messages q2) \<and> (length (cq_messages q2) \<le> 1 \<or> estimate_chat_request_prompt_tokens T now q2 \<le> b)"
    proof cases
      case within_budget
      have "length (cq_messages q2) \<le> 1 \<or> estimate_chat_request_prompt_tokens T now q1 \<le> b"
        using kept_fits [OF assms(1) within_budget(2)] by (simp add: q1_def f2(2))
      moreover have "q2 = q1" if "estimate_chat_request_prompt_tokens T now q1 \<le> b"
        using that unfolding q2_def by (subst pop_tools.simps) simp
      ultimately show ?thesis using within_budget(1) by auto
    qed simp
  qed
  moreover have "only_trims q3 q5"
    unfolding q5_def q4_def by (auto intro: only_trims_trans [OF only_trims_map] only_trims_system)
  ultimately show ?thesis using only_trims_follows [of q3 q5] res f1 f2(1) f3 by (metis follows_trans)
qed

lemma fit_request_spec:
  assumes "w < usize_max" and "asks (cq_messages q)"
  shows "follows q (fst (fit_request T now w n q)) \<and> asks (cq_messages (fst (fit_request T now w n q)))"
proof -
  let ?b = "max (w - max (min n (minimum_output w)) 1 - safety_margin w) 1"
  let ?cut = "fst (cut_request T now ?b q)"
  have one: "1 < usize_max" by (simp add: usize_max_def)
  have b: "?b < usize_max" using assms(1) one by linarith
  note cut = cut_request_spec [OF b one assms(2), of T now]
  have trimmed: "follows q q' \<and> asks (cq_messages q')" if "only_trims ?cut q'" for q'
    using only_trims_follows [OF that] cut follows_trans by blast
  obtain c b' where sq: "fst (squeeze_request T now w n q) = (if c then trim_messages_and_system_to_budget T now b' ?cut else ?cut)"
    unfolding squeeze_request_def Let_def fst_conv by blast
  have "follows q (fst (squeeze_request T now w n q)) \<and> asks (cq_messages (fst (squeeze_request T now w n q)))"
  proof (cases c)
    case True
    then show ?thesis unfolding sq using trimmed [OF only_trims_both] by simp
  qed (unfold sq, use cut in simp)
  then show ?thesis using assms(2) by (simp add: fit_request_def Let_def)
qed

section \<open>Properties\<close>

lemma local_window: "pw_is_local p \<Longrightarrow> effective_context_window_tokens p c \<le> max (pw_context_window p) 1"
  by (auto simp: effective_context_window_tokens_def Let_def split: option.split)

lemma estimate_ignores [simp]:
  "estimate_chat_request_prompt_tokens T now (q\<lparr>cq_max_tokens := t\<rparr>) = estimate_chat_request_prompt_tokens T now q"
  "estimate_chat_request_prompt_tokens T now (q\<lparr>cq_extra_params := e\<rparr>) = estimate_chat_request_prompt_tokens T now q"
  by (simp_all add: estimate_chat_request_prompt_tokens_def)

lemma annotate_fields [simp]:
  "cq_messages (annotate_context_budget w b a ob oa dm dt q) = cq_messages q"
  "cq_tools (annotate_context_budget w b a ob oa dm dt q) = cq_tools q"
  "cq_max_tokens (annotate_context_budget w b a ob oa dm dt q) = cq_max_tokens q"
  "estimate_chat_request_prompt_tokens T now (annotate_context_budget w b a ob oa dm dt q) = estimate_chat_request_prompt_tokens T now q"
  by (simp_all add: annotate_context_budget_def Let_def)

lemma requested_output_range: "1 \<le> requested_output w d t \<and> requested_output w d t \<le> max (w - 1) 1"
  by (auto simp: requested_output_def Let_def min_def split: option.split)

lemma fit_request_output:
  assumes "1 \<le> n" and "n \<le> max (w - 1) 1"
  shows "1 \<le> fst (snd (fit_request T now w n q)) \<and> fst (snd (fit_request T now w n q)) \<le> max (w - 1) 1"
proof -
  have small: "min (minimum_output w) (max (w div 4) 1) \<le> max (w - 1) 1" "1 \<le> min (minimum_output w) (max (w div 4) 1)"
    by (auto simp: minimum_output_def)
  have upper: "max (min (max (min n (minimum_output w)) 1) a) (min (minimum_output w) (max (w div 4) 1)) \<le> max (w - 1) 1" for a
    by (rule max.boundedI, rule min.coboundedI1, rule max.boundedI, rule min.coboundedI1, rule assms(2), simp, rule small(1))
  obtain a where eq: "fst (snd (squeeze_request T now w n q)) = max (min (max (min n (minimum_output w)) 1) a) (min (minimum_output w) (max (w div 4) 1))"
    unfolding squeeze_request_def Let_def fst_conv snd_conv by blast
  have "1 \<le> fst (snd (squeeze_request T now w n q)) \<and> fst (snd (squeeze_request T now w n q)) \<le> max (w - 1) 1"
    unfolding eq by (rule conjI [OF le_trans [OF small(2) max.cobounded2] upper])
  with assms show ?thesis by (auto simp: fit_request_def Let_def LOCAL_MIN_OUTPUT_TOKENS_def)
qed

text \<open>
  C23. The clamp keeps the question. However small the window of a local model is: when the
  request has a message of the user, the clamped request has one of them, at most trimmed; every
  message it has is a given one, at most trimmed; and its tools are the first of the given ones.
\<close>
theorem clamp_keeps_user:
  assumes "pw_context_window p < usize_max" and "list_ex (\<lambda>m. ms_role m = UserRole) (cq_messages q)"
  shows "case clamp_local_chat_request_to_context T now p configured default_output q of (q', report) \<Rightarrow>
      (\<exists>u \<in> set (cq_messages q). \<exists>k \<in> set (cq_messages q'). ms_role u = UserRole \<and> trimmed_of u k)
      \<and> (\<forall>k \<in> set (cq_messages q'). \<exists>m \<in> set (cq_messages q). trimmed_of m k) \<and> (\<exists>n. cq_tools q' = take n (cq_tools q))"
proof -
  obtain q' report where r: "clamp_local_chat_request_to_context T now p configured default_output q = (q', report)" by fastforce
  have "follows q q' \<and> asks (cq_messages q')"
  proof (cases "pw_is_local p")
    case False
    with r assms(2) show ?thesis by (simp add: clamp_local_chat_request_to_context_def)
  next
    case True
    let ?w = "effective_context_window_tokens p configured"
    have "?w < usize_max" using local_window [OF True, of configured] assms(1) by (auto simp: usize_max_def)
    from fit_request_spec [OF this assms(2)] r True show ?thesis
      by (auto simp: clamp_local_chat_request_to_context_def Let_def case_prod_beta follows_def)
  qed
  moreover from this obtain k where "k \<in> set (cq_messages q')" "ms_role k = UserRole" by (auto simp: list_ex_iff)
  ultimately show ?thesis unfolding r using trimmed_of_role by (fastforce simp: follows_def)
qed


definition sample_fit_env :: fit_env where
  "sample_fit_env = \<lparr>te_encode = Some length, te_show_json = (\<lambda>_. []), fe_tools_json = (\<lambda>_. None)\<rparr>"

definition sample_request :: "(unit, unit) chat_request" where
  "sample_request = \<lparr>cq_model = lit ''m'', cq_system_prompt = Some (replicate 500 115),
     cq_messages = [user_message 1 (TextContent (lit ''question'')), assistant_message 2 (TextContent (replicate 300 97))], cq_tools = [],
     cq_temperature = None, cq_max_tokens = None, cq_extra_params = None, cq_enable_cache_control = False, cq_session_id = None,
     cq_continuation_hint = None\<rparr>"

abbreviation sample_clamp :: "(unit, unit) chat_request \<times> clamp_report option" where
  "sample_clamp \<equiv> clamp_local_chat_request_to_context sample_fit_env 0 \<lparr>pw_is_local = True, pw_context_window = 100\<rparr> None 50 sample_request"

theorem clamp_keeps_user_witness:
  "\<exists>k \<in> set (cq_messages (fst sample_clamp)). trimmed_of (user_message 1 (TextContent (lit ''question''))) k"
proof -
  have "pw_context_window \<lparr>pw_is_local = True, pw_context_window = 100\<rparr> < usize_max" by (simp add: usize_max_def)
  moreover have "list_ex (\<lambda>m. ms_role m = UserRole) (cq_messages sample_request)"
    by (simp add: sample_request_def user_message_def message_new_def)
  ultimately obtain u k where u: "u \<in> set (cq_messages sample_request)" "ms_role u = UserRole"
    and k: "k \<in> set (cq_messages (fst sample_clamp))" "trimmed_of u k"
    using clamp_keeps_user [of "\<lparr>pw_is_local = True, pw_context_window = 100\<rparr>" sample_request sample_fit_env 0 None 50]
    unfolding case_prod_beta by blast
  from u have "u = user_message 1 (TextContent (lit ''question''))"
    by (auto simp: sample_request_def assistant_message_def message_new_def)
  with k show ?thesis by blast
qed


text \<open>The static part of the estimate counts the system prompt twice.\<close>
theorem static_counts_prompt_twice:
  "estimate_static_prompt_tokens T now q
     = saturating_add (2 * estimate_tokens (token_env.truncate T) (prompt_messages now (cq_system_prompt q))) (tool_tokens T (cq_tools q))"
  by (simp add: estimate_static_prompt_tokens_def estimate_chat_request_prompt_tokens_def estimate_tokens_def mult_2)

end
