(* ===== verification/Model_Pool.thy ===== *)
theory Model_Pool
  imports Float32
begin

text \<open>
  The pool of local models of the crate \<^verbatim>\<open>engram\<close> (\<^verbatim>\<open>model_pool.rs\<close>): models under keys, a
  budget for main memory and one for graphics memory, and eviction when a model is loaded or a
  budget changes. The hash map of entries is the list of its entries in iteration order; since
  an insertion may reorder a hash map, it passes the list through the argument \<open>shuffle\<close>. What
  a loader returns is an argument, and so is the clock, read once per operation, in
  nanoseconds. An operation that loads a model holds the lock of the entries twice, to make room
  and to insert; the two parts are definitions of their own, because other loads come between.
\<close>

section \<open>Models and entries\<close>

text \<open>What the pool reads of an embedder or a reranker; the model itself is its handle.\<close>
record local_model =
  lm_handle :: nat
  lm_memory_size :: nat
  lm_is_gpu :: bool

datatype model_resource = EmbedderModel local_model | RerankerModel local_model

fun memory_size :: "model_resource \<Rightarrow> nat" where
  "memory_size (EmbedderModel e) = lm_memory_size e"
| "memory_size (RerankerModel r) = lm_memory_size r"

fun is_gpu :: "model_resource \<Rightarrow> bool" where
  "is_gpu (EmbedderModel e) = lm_is_gpu e"
| "is_gpu (RerankerModel r) = lm_is_gpu r"

fun type_name :: "model_resource \<Rightarrow> rstr" where
  "type_name (EmbedderModel _) = lit ''Embedder''"
| "type_name (RerankerModel _) = lit ''Reranker''"

record pool_entry =
  me_resource :: model_resource
  me_last_used :: time
  me_loaded_at :: time
  me_access_count :: u64

definition pool_entry_new :: "time \<Rightarrow> model_resource \<Rightarrow> pool_entry" where
  "pool_entry_new now r = \<lparr>me_resource = r, me_last_used = now, me_loaded_at = now, me_access_count = 0\<rparr>"

definition touch_entry :: "time \<Rightarrow> pool_entry \<Rightarrow> pool_entry" where
  "touch_entry now e = e\<lparr>me_last_used := now, me_access_count := me_access_count e + 1\<rparr>"

text \<open>\<^verbatim>\<open>Instant::elapsed\<close>, which is zero for an instant that lies ahead.\<close>
definition elapsed :: "time \<Rightarrow> pool_entry \<Rightarrow> nat" where
  "elapsed now e = nat (now - me_last_used e)"

type_synonym pool_entries = "(rstr \<times> pool_entry) list"

record memory_stats =
  mst_used :: nat
  mst_max :: nat
  mst_usage_ratio :: rat

record model_pool =
  mp_max_ram :: nat
  mp_max_vram :: nat
  mp_entries :: pool_entries
  mp_loading_locks :: "rstr set"

definition pool_new :: "nat \<Rightarrow> nat \<Rightarrow> model_pool" where
  "pool_new max_ram max_vram = \<lparr>mp_max_ram = max_ram, mp_max_vram = max_vram, mp_entries = [], mp_loading_locks = {}\<rparr>"

text \<open>Bytes used by the models of one kind, \<open>True\<close> for graphics memory.\<close>
definition usage :: "bool \<Rightarrow> pool_entries \<Rightarrow> nat" where
  "usage gpu es = sum_list (map (\<lambda>(_, e). memory_size (me_resource e)) (filter (\<lambda>(_, e). is_gpu (me_resource e) = gpu) es))"

definition budget :: "bool \<Rightarrow> model_pool \<Rightarrow> nat" where
  "budget gpu p = (if gpu then mp_max_vram p else mp_max_ram p)"

definition usage_stats :: "nat \<Rightarrow> nat \<Rightarrow> memory_stats" where
  "usage_stats used limit = \<lparr>mst_used = used, mst_max = limit,
     mst_usage_ratio = (if limit > 0 then f32_round (f32_round (of_nat used) / f32_round (of_nat limit)) else 0)\<rparr>"

definition get_memory_stats :: "model_pool \<Rightarrow> memory_stats \<times> memory_stats" where
  "get_memory_stats p = (usage_stats (usage False (mp_entries p)) (mp_max_ram p), usage_stats (usage True (mp_entries p)) (mp_max_vram p))"

definition current_usage :: "model_pool \<Rightarrow> nat \<times> nat" where
  "current_usage p = (let (ram, vram) = get_memory_stats p in (mst_used ram, mst_used vram))"

definition is_kind_loaded :: "unicode \<Rightarrow> rstr \<Rightarrow> model_pool \<Rightarrow> bool" where
  "is_kind_loaded u name p = list_ex (\<lambda>(k, _). contains (u_lower u k) name) (mp_entries p)"

definition is_whisper_loaded :: "unicode \<Rightarrow> model_pool \<Rightarrow> bool" where
  "is_whisper_loaded u p = is_kind_loaded u (lit ''whisper'') p"

definition is_piper_loaded :: "unicode \<Rightarrow> model_pool \<Rightarrow> bool" where
  "is_piper_loaded u p = is_kind_loaded u (lit ''piper'') p"

definition is_model_loaded :: "model_pool \<Rightarrow> rstr \<Rightarrow> bool" where
  "is_model_loaded p key = (map_of (mp_entries p) key \<noteq> None)"

definition loaded_models_count :: "model_pool \<Rightarrow> nat" where
  "loaded_models_count p = length (mp_entries p)"

definition list_loaded_models :: "model_pool \<Rightarrow> rstr list" where
  "list_loaded_models p = map fst (mp_entries p)"

definition get_model_info :: "time \<Rightarrow> model_pool \<Rightarrow> rstr \<Rightarrow> (rstr \<times> nat \<times> bool \<times> nat \<times> u64) option" where
  "get_model_info now p key = map_option (\<lambda>e. (type_name (me_resource e), memory_size (me_resource e),
     is_gpu (me_resource e), elapsed now e, me_access_count e)) (map_of (mp_entries p) key)"

section \<open>Eviction\<close>

text \<open>\<^verbatim>\<open>min_by_key\<close> keeps the first of several minima.\<close>
fun min_by_key :: "('a \<Rightarrow> 'k :: linorder) \<Rightarrow> 'a list \<Rightarrow> 'a option" where
  "min_by_key f [] = None"
| "min_by_key f (x # xs) = (case min_by_key f xs of
     None \<Rightarrow> Some x
   | Some y \<Rightarrow> Some (if f x \<le> f y then x else y))"

definition eviction_key :: "time \<Rightarrow> pool_entry \<Rightarrow> nat" where
  "eviction_key now e = (let idle_ms = (elapsed now e div 1000000) mod 2 ^ 64;
                             frequency_bonus = unat (me_access_count e div 10)
                         in idle_ms - frequency_bonus)"

definition evict_candidate :: "time \<Rightarrow> bool \<Rightarrow> pool_entries \<Rightarrow> rstr option" where
  "evict_candidate now gpu es =
     map_option fst (min_by_key (\<lambda>(_, e). eviction_key now e) (filter (\<lambda>(_, e). is_gpu (me_resource e) = gpu) es))"

definition remove_entry :: "rstr \<Rightarrow> pool_entries \<Rightarrow> pool_entries" where
  "remove_entry key es = filter (\<lambda>(k, _). k \<noteq> key) es"

lemma min_by_key_None: "min_by_key f xs = None \<longleftrightarrow> xs = []"
  by (cases xs) (auto split: option.splits)

lemma min_by_key_least: "min_by_key f xs = Some x \<Longrightarrow> x \<in> set xs \<and> (\<forall>y \<in> set xs. f x \<le> f y)"
  by (induction xs arbitrary: x) (auto split: option.splits if_splits simp: min_by_key_None)

lemma evict_candidate_in:
  "evict_candidate now gpu es = Some k \<Longrightarrow> \<exists>e. (k, e) \<in> set es \<and> is_gpu (me_resource e) = gpu"
  by (auto simp: evict_candidate_def dest!: min_by_key_least)

lemma remove_entry_shorter: "(k, e) \<in> set es \<Longrightarrow> length (remove_entry k es) < length es"
  unfolding remove_entry_def by (rule length_filter_less) auto

function evict_loop :: "time \<Rightarrow> nat \<Rightarrow> bool \<Rightarrow> nat \<Rightarrow> pool_entries \<Rightarrow> pool_entries" where
  "evict_loop now required_size gpu limit es =
     (if usage gpu es + required_size \<le> limit then es
      else case evict_candidate now gpu es of
        Some key \<Rightarrow> evict_loop now required_size gpu limit (remove_entry key es)
      | None \<Rightarrow> es)"
  by pat_completeness auto
termination
  by (relation "measure (\<lambda>(_, _, _, _, es). length es)")
    (auto dest!: evict_candidate_in intro: remove_entry_shorter)

declare evict_loop.simps [simp del]

definition evict_for_space :: "time \<Rightarrow> nat \<Rightarrow> bool \<Rightarrow> model_pool \<Rightarrow> model_pool" where
  "evict_for_space now required_size gpu p =
     (let limit = budget gpu p
      in if required_size > limit then p
         else p\<lparr>mp_entries := evict_loop now required_size gpu limit (mp_entries p)\<rparr>)"

definition set_budgets :: "time \<Rightarrow> nat \<Rightarrow> nat \<Rightarrow> model_pool \<Rightarrow> model_pool" where
  "set_budgets now ram_bytes vram_bytes p =
     evict_for_space now 0 True (evict_for_space now 0 False (p\<lparr>mp_max_ram := ram_bytes, mp_max_vram := vram_bytes\<rparr>))"

section \<open>Loading\<close>

type_synonym reorder = "pool_entries \<Rightarrow> pool_entries"

fun as_embedder :: "model_resource \<Rightarrow> local_model option" where
  "as_embedder (EmbedderModel e) = Some e"
| "as_embedder (RerankerModel _) = None"

fun as_reranker :: "model_resource \<Rightarrow> local_model option" where
  "as_reranker (RerankerModel r) = Some r"
| "as_reranker (EmbedderModel _) = None"

definition pooled :: "(model_resource \<Rightarrow> local_model option) \<Rightarrow> model_pool \<Rightarrow> rstr \<Rightarrow> local_model option" where
  "pooled pick p key = Option.bind (map_of (mp_entries p) key) (\<lambda>e. pick (me_resource e))"

definition touch_model :: "time \<Rightarrow> rstr \<Rightarrow> model_pool \<Rightarrow> model_pool" where
  "touch_model now key p = p\<lparr>mp_entries := map (\<lambda>(k, e). (k, if k = key then touch_entry now e else e)) (mp_entries p)\<rparr>"

definition get_loading_lock :: "rstr \<Rightarrow> model_pool \<Rightarrow> model_pool" where
  "get_loading_lock key p = p\<lparr>mp_loading_locks := insert key (mp_loading_locks p)\<rparr>"

definition drop_loading_lock :: "rstr \<Rightarrow> model_pool \<Rightarrow> model_pool" where
  "drop_loading_lock key p = p\<lparr>mp_loading_locks := mp_loading_locks p - {key}\<rparr>"

text \<open>The first part of a load under the lock of the entries, and the second.\<close>
definition make_room :: "time \<Rightarrow> local_model \<Rightarrow> model_pool \<Rightarrow> model_pool" where
  "make_room now model p = evict_for_space now (lm_memory_size model) (lm_is_gpu model) p"

definition insert_model :: "reorder \<Rightarrow> time \<Rightarrow> rstr \<Rightarrow> model_resource \<Rightarrow> model_pool \<Rightarrow> model_pool" where
  "insert_model shuffle now key r p = drop_loading_lock key
     (p\<lparr>mp_entries := shuffle ((key, pool_entry_new now r) # remove_entry key (mp_entries p))\<rparr>)"

text \<open>A request without another thread between its parts, so the second look finds what the
  first found.\<close>
definition get_model ::
  "(model_resource \<Rightarrow> local_model option) \<Rightarrow> (local_model \<Rightarrow> model_resource) \<Rightarrow> reorder \<Rightarrow> time \<Rightarrow> rstr \<Rightarrow> 'e + local_model
   \<Rightarrow> model_pool \<Rightarrow> model_pool \<times> ('e + local_model)" where
  "get_model pick wrap shuffle now key loaded p =
     (case pooled pick p key of
        Some m \<Rightarrow> (touch_model now key p, Inr m)
      | None \<Rightarrow>
          (let p = get_loading_lock key p
           in case pooled pick p key of
                Some m \<Rightarrow> (p, Inr m)
              | None \<Rightarrow> (case loaded of
                    Inl e \<Rightarrow> (p, Inl e)
                  | Inr model \<Rightarrow> (insert_model shuffle now key (wrap model) (make_room now model p), Inr model))))"

definition get_embedder :: "reorder \<Rightarrow> time \<Rightarrow> rstr \<Rightarrow> 'e + local_model \<Rightarrow> model_pool \<Rightarrow> model_pool \<times> ('e + local_model)" where
  "get_embedder = get_model as_embedder EmbedderModel"

definition get_reranker :: "reorder \<Rightarrow> time \<Rightarrow> rstr \<Rightarrow> 'e + local_model \<Rightarrow> model_pool \<Rightarrow> model_pool \<times> ('e + local_model)" where
  "get_reranker = get_model as_reranker RerankerModel"

section \<open>Unloading\<close>

definition unload_one :: "rstr \<Rightarrow> model_pool \<Rightarrow> model_pool" where
  "unload_one key p = drop_loading_lock key (p\<lparr>mp_entries := remove_entry key (mp_entries p)\<rparr>)"

definition prune :: "time \<Rightarrow> nat \<Rightarrow> model_pool \<Rightarrow> model_pool \<times> nat" where
  "prune now timeout_secs p =
     (let to_remove = map fst (filter (\<lambda>(_, e). elapsed now e \<ge> timeout_secs * 1000000000) (mp_entries p))
      in (foldl (\<lambda>p key. if is_model_loaded p key then unload_one key p else p)
            p to_remove, length to_remove))"

definition unload_model :: "rstr \<Rightarrow> model_pool \<Rightarrow> model_pool \<times> bool" where
  "unload_model key p =
     (if is_model_loaded p key then (unload_one key p, True)
      else (p, False))"

definition clear_pool :: "model_pool \<Rightarrow> model_pool \<times> nat" where
  "clear_pool p = (p\<lparr>mp_entries := [], mp_loading_locks := {}\<rparr>, length (mp_entries p))"

section \<open>What eviction does\<close>

lemma usage_Nil [simp]: "usage gpu [] = 0"
  by (simp add: usage_def)

lemma usage_Cons [simp]:
  "usage gpu ((k, e) # es) = (if is_gpu (me_resource e) = gpu then memory_size (me_resource e) else 0) + usage gpu es"
  by (simp add: usage_def)

lemma usage_remove: "usage gpu (remove_entry k es) \<le> usage gpu es"
  by (induction es) (auto simp: remove_entry_def)

lemma usage_mset: "mset es = mset es' \<Longrightarrow> usage gpu es = usage gpu es'"
  unfolding usage_def sum_mset_sum_list [symmetric] mset_map mset_filter by simp

lemma usage_touch [simp]: "usage gpu (map (\<lambda>(k, e). (k, if k = key then touch_entry now e else e)) es) = usage gpu es"
  by (induction es) (auto simp: touch_entry_def)

lemma distinct_remove: "distinct (map fst es) \<Longrightarrow> distinct (map fst (remove_entry k es))"
  unfolding remove_entry_def by (rule distinct_map_filter)

lemma no_candidate: "evict_candidate now gpu es = None \<Longrightarrow> usage gpu es = 0"
  by (simp add: evict_candidate_def min_by_key_None usage_def)

text \<open>After the eviction there is room, whatever the sizes, if the model fits the budget at all.\<close>
lemma evict_makes_room:
  "required_size \<le> limit \<Longrightarrow> usage gpu (evict_loop now required_size gpu limit es) + required_size \<le> limit"
proof (induction now required_size gpu limit es rule: evict_loop.induct)
  case (1 now required_size gpu limit es)
  then show ?case
    by (subst evict_loop.simps) (auto simp: no_candidate split: option.splits)
qed

lemma evict_usage: "usage g (evict_loop now required_size gpu limit es) \<le> usage g es"
proof (induction now required_size gpu limit es rule: evict_loop.induct)
  case (1 now required_size gpu limit es)
  then show ?case
    by (subst evict_loop.simps) (auto split: option.splits intro: le_trans [OF _ usage_remove])
qed

lemma evict_distinct: "distinct (map fst es) \<Longrightarrow> distinct (map fst (evict_loop now required_size gpu limit es))"
proof (induction now required_size gpu limit es rule: evict_loop.induct)
  case (1 now required_size gpu limit es)
  then show ?case
    by (subst evict_loop.simps) (auto split: option.splits intro: distinct_remove)
qed

lemma remove_other_kind:
  assumes "distinct (map fst es)" and "(k, e) \<in> set es" and "is_gpu (me_resource e) = gpu"
  shows "filter (\<lambda>(_, e). is_gpu (me_resource e) \<noteq> gpu) (remove_entry k es) = filter (\<lambda>(_, e). is_gpu (me_resource e) \<noteq> gpu) es"
proof -
  have "k' \<noteq> k" if "(k', e') \<in> set es" "is_gpu (me_resource e') \<noteq> gpu" for k' e'
    using that assms eq_key_imp_eq_value [OF assms(1), of k' e e'] by auto
  then show ?thesis by (auto simp: remove_entry_def intro!: filter_cong)
qed

text \<open>Models of the other kind stay, and nothing happens when there is room.\<close>
lemma evict_other_kind:
  "distinct (map fst es) \<Longrightarrow>
   filter (\<lambda>(_, e). is_gpu (me_resource e) \<noteq> gpu) (evict_loop now required_size gpu limit es) = filter (\<lambda>(_, e). is_gpu (me_resource e) \<noteq> gpu) es"
proof (induction now required_size gpu limit es rule: evict_loop.induct)
  case (1 now required_size gpu limit es)
  show ?case
  proof (cases "usage gpu es + required_size \<le> limit")
    case False
    show ?thesis
    proof (cases "evict_candidate now gpu es")
      case (Some k)
      then obtain e where e: "(k, e) \<in> set es" "is_gpu (me_resource e) = gpu" using evict_candidate_in by blast
      note same = remove_other_kind [OF 1(2) e]
      from 1(1) [OF False Some distinct_remove [OF 1(2)]] same show ?thesis
        using False Some by (subst evict_loop.simps) simp
    qed (use False in \<open>subst evict_loop.simps, simp\<close>)
  qed (subst evict_loop.simps, simp)
qed

section \<open>Sessions with the pool\<close>

datatype 'e pool_op =
    GetEmbedder rstr "'e + local_model"
  | GetReranker rstr "'e + local_model"
  | Prune nat
  | Unload rstr
  | ClearPool
  | SetBudgets nat nat

fun serve_pool :: "reorder \<Rightarrow> model_pool \<Rightarrow> time \<times> 'e pool_op \<Rightarrow> model_pool" where
  "serve_pool shuffle p (now, GetEmbedder key loaded) = fst (get_embedder shuffle now key loaded p)"
| "serve_pool shuffle p (now, GetReranker key loaded) = fst (get_reranker shuffle now key loaded p)"
| "serve_pool shuffle p (now, Prune secs) = fst (prune now secs p)"
| "serve_pool shuffle p (now, Unload key) = fst (unload_model key p)"
| "serve_pool shuffle p (now, ClearPool) = fst (clear_pool p)"
| "serve_pool shuffle p (now, SetBudgets ram vram) = set_budgets now ram vram p"

text \<open>Every model a loader returns fits the budget for its kind at that time.\<close>
fun loads_fit :: "reorder \<Rightarrow> model_pool \<Rightarrow> (time \<times> 'e pool_op) list \<Rightarrow> bool" where
  "loads_fit shuffle p [] = True"
| "loads_fit shuffle p (x # xs) =
     ((case snd x of
         GetEmbedder _ (Inr m) \<Rightarrow> lm_memory_size m \<le> budget (lm_is_gpu m) p
       | GetReranker _ (Inr m) \<Rightarrow> lm_memory_size m \<le> budget (lm_is_gpu m) p
       | _ \<Rightarrow> True) \<and> loads_fit shuffle (serve_pool shuffle p x) xs)"

definition pool_ok :: "model_pool \<Rightarrow> bool" where
  "pool_ok p \<longleftrightarrow> distinct (map fst (mp_entries p)) \<and> usage False (mp_entries p) \<le> mp_max_ram p \<and> usage True (mp_entries p) \<le> mp_max_vram p"

lemma pool_ok_iff: "pool_ok p \<longleftrightarrow> distinct (map fst (mp_entries p)) \<and> (\<forall>gpu. usage gpu (mp_entries p) \<le> budget gpu p)"
  by (auto simp: pool_ok_def budget_def)

lemma pool_ok_remove: "pool_ok p \<Longrightarrow> pool_ok (p\<lparr>mp_entries := remove_entry k (mp_entries p)\<rparr>)"
  by (auto simp: pool_ok_def distinct_remove intro: le_trans [OF usage_remove])

lemma pool_ok_distinct: "pool_ok p \<Longrightarrow> distinct (map fst (mp_entries p))"
  by (simp add: pool_ok_def)

lemma pool_ok_clear [simp]: "pool_ok (p\<lparr>mp_entries := [], mp_loading_locks := {}\<rparr>)"
  by (simp add: pool_ok_def)

lemma pool_ok_locks [simp]:
  "pool_ok (drop_loading_lock k p) = pool_ok p" "pool_ok (get_loading_lock k p) = pool_ok p"
  "budget g (get_loading_lock k p) = budget g p"
  by (simp_all add: pool_ok_def drop_loading_lock_def get_loading_lock_def budget_def)

lemma pool_ok_unload: "pool_ok p \<Longrightarrow> pool_ok (unload_one key p)"
  by (simp add: unload_one_def pool_ok_remove)

lemma pool_ok_touch: "pool_ok p \<Longrightarrow> pool_ok (touch_model now key p)"
  by (simp add: pool_ok_def touch_model_def) (simp add: comp_def case_prod_beta)

lemma budget_entries [simp]: "budget g (p\<lparr>mp_entries := es\<rparr>) = budget g p"
  by (simp add: budget_def)

lemma evict_for_space_spec:
  assumes "distinct (map fst (mp_entries p))"
  shows "distinct (map fst (mp_entries (evict_for_space now n gpu p)))"
    and "usage g (mp_entries (evict_for_space now n gpu p)) \<le> usage g (mp_entries p)"
    and "budget g (evict_for_space now n gpu p) = budget g p"
    and "n \<le> budget gpu p \<Longrightarrow> usage gpu (mp_entries (evict_for_space now n gpu p)) + n \<le> budget gpu p"
  using assms by (simp_all add: evict_for_space_def Let_def evict_distinct evict_usage evict_makes_room)

lemma set_budgets_ok:
  assumes "distinct (map fst (mp_entries p))"
  shows "pool_ok (set_budgets now ram vram p)"
proof -
  let ?p = "p\<lparr>mp_max_ram := ram, mp_max_vram := vram\<rparr>"
  let ?q = "evict_for_space now 0 False ?p"
  have p: "distinct (map fst (mp_entries ?p))" using assms by simp
  note q = evict_for_space_spec [OF p, where now = now and n = 0 and gpu = False]
  note r = evict_for_space_spec [OF q(1), where now = now and n = 0 and gpu = True]
  have "usage gpu (mp_entries (evict_for_space now 0 True ?q)) \<le> budget gpu (evict_for_space now 0 True ?q)" for gpu
  proof (cases gpu)
    case False
    then show ?thesis using r(2,3) [where g = False] q(3) [where g = False] q(4) by simp
  qed (use r(3) [where g = True] r(4) in simp)
  with r(1) show ?thesis by (simp add: set_budgets_def pool_ok_iff)
qed

lemma insert_model_ok:
  assumes "\<And>xs. mset (shuffle xs) = mset xs" and "pool_ok p" and "memory_size r \<le> budget (is_gpu r) p"
    and "usage (is_gpu r) (mp_entries p) + memory_size r \<le> budget (is_gpu r) p"
  shows "pool_ok (insert_model shuffle now key r p)"
proof -
  let ?es = "(key, pool_entry_new now r) # remove_entry key (mp_entries p)"
  have "mset (map fst (shuffle ?es)) = mset (map fst ?es)" using assms(1) by (simp only: mset_map)
  then have "distinct (map fst (shuffle ?es)) = distinct (map fst ?es)" by (metis mset_eq_imp_distinct_iff)
  moreover have "distinct (map fst ?es)"
    using assms(2) distinct_remove [of "mp_entries p" key] by (auto simp: pool_ok_def remove_entry_def)
  moreover have "usage gpu (shuffle ?es) \<le> budget gpu p" for gpu
    using usage_mset [OF assms(1), of gpu ?es] usage_remove [of gpu key "mp_entries p"] assms(2,4)
    by (auto simp: pool_ok_iff pool_entry_new_def dest: spec [of _ gpu])
  ultimately show ?thesis by (simp add: insert_model_def) (simp add: pool_ok_iff)
qed

lemma get_model_ok:
  assumes "\<And>xs. mset (shuffle xs) = mset xs" and "pool_ok p"
    and "\<And>m. memory_size (wrap m) = lm_memory_size m \<and> is_gpu (wrap m) = lm_is_gpu m"
    and "\<And>m. loaded = Inr m \<Longrightarrow> lm_memory_size m \<le> budget (lm_is_gpu m) p"
  shows "pool_ok (fst (get_model pick wrap shuffle now key loaded p))"
proof -
  let ?p = "get_loading_lock key p"
  have "pool_ok (insert_model shuffle now key (wrap m) (make_room now m ?p))" if m: "loaded = Inr m" for m
  proof -
    have d: "distinct (map fst (mp_entries ?p))" using assms(2) by (simp add: pool_ok_def get_loading_lock_def)
    note q = evict_for_space_spec [OF d, where now = now and n = "lm_memory_size m" and gpu = "lm_is_gpu m"]
    have "pool_ok ?p" using assms(2) by simp
    then have "pool_ok (make_room now m ?p)"
      using q(1,2,3) unfolding make_room_def pool_ok_iff by (metis le_trans)
    then show ?thesis
      using insert_model_ok [OF assms(1)] assms(3) assms(4) [OF m] q(3,4) by (simp add: make_room_def)
  qed
  then show ?thesis
    using assms(2) by (auto simp: get_model_def Let_def pool_ok_touch split: option.splits sum.splits)
qed

lemma prune_ok: "pool_ok p \<Longrightarrow> pool_ok (fst (prune now secs p))"
proof -
  have "pool_ok (foldl (\<lambda>p key. if is_model_loaded p key then unload_one key p else p) p ks)"
    if "pool_ok p" for p ks
    using that by (induction ks arbitrary: p) (auto intro: pool_ok_unload)
  then show "pool_ok p \<Longrightarrow> pool_ok (fst (prune now secs p))" by (simp add: prune_def Let_def)
qed

lemma serve_pool_ok:
  assumes "\<And>xs. mset (shuffle xs) = mset xs" and "pool_ok p" and "loads_fit shuffle p [x]"
  shows "pool_ok (serve_pool shuffle p x)"
proof -
  obtain now q where x: "x = (now, q)" by fastforce
  show ?thesis
  proof (cases q)
    case (GetEmbedder key loaded)
    then show ?thesis using assms(2,3)
      by (auto simp: x get_embedder_def intro!: get_model_ok [OF assms(1)])
  next
    case (GetReranker key loaded)
    then show ?thesis using assms(2,3)
      by (auto simp: x get_reranker_def intro!: get_model_ok [OF assms(1)])
  qed (use assms(2) in \<open>auto simp: x prune_ok unload_model_def pool_ok_unload clear_pool_def set_budgets_ok [OF pool_ok_distinct]\<close>)
qed

section \<open>Properties\<close>

text \<open>
  C11. The pool keeps its budgets. After any sequence of requests, failed loads, prunings,
  unloadings and changes of the budgets, the models of either kind use no more than the budget
  for the kind, and a key holds one model, if every loaded model fits its budget when it is
  loaded. How the hash map orders its entries does not matter.
\<close>
theorem pool_stays_within_budget:
  assumes "\<And>xs. mset (shuffle xs) = mset xs"
    and "loads_fit shuffle (pool_new ram vram) ops"
  shows "let p = foldl (serve_pool shuffle) (pool_new ram vram) ops
    in distinct (list_loaded_models p) \<and> fst (current_usage p) \<le> mp_max_ram p \<and> snd (current_usage p) \<le> mp_max_vram p"
proof -
  have "pool_ok (foldl (serve_pool shuffle) p ops)" if "pool_ok p" "loads_fit shuffle p ops" for p
    using that(1,2)
  proof (induction ops arbitrary: p)
    case (Cons x ops)
    then have "pool_ok (serve_pool shuffle p x)" by (intro serve_pool_ok [OF assms(1)]) auto
    with Cons show ?case by simp
  qed simp
  from this [of "pool_new ram vram"] assms(2) show ?thesis
    by (simp add: Let_def pool_ok_def pool_new_def list_loaded_models_def current_usage_def get_memory_stats_def usage_stats_def)
qed

definition sample_model :: "nat \<Rightarrow> nat \<Rightarrow> local_model" where
  "sample_model h n = \<lparr>lm_handle = h, lm_memory_size = n, lm_is_gpu = False\<rparr>"

theorem pool_stays_within_budget_witness:
  "\<exists>p. p = foldl (serve_pool rev) (pool_new 10 0)
       [(1, GetEmbedder (lit ''a'') (Inr (sample_model 1 6))), (2, GetReranker (lit ''b'') (Inr (sample_model 2 7) :: unit + local_model)),
        (3, GetEmbedder (lit ''c'') (Inl ())), (4, SetBudgets 8 0)]
     \<and> fst (current_usage p) \<le> 8"
proof -
  let ?ops = "[(1, GetEmbedder (lit ''a'') (Inr (sample_model 1 6))), (2, GetReranker (lit ''b'') (Inr (sample_model 2 7) :: unit + local_model)),
        (3, GetEmbedder (lit ''c'') (Inl ())), (4, SetBudgets 8 0)] :: (time \<times> unit pool_op) list"
  have fit: "loads_fit rev (pool_new 10 0) ?ops"
    by (simp add: sample_model_def budget_def get_embedder_def get_reranker_def get_model_def pooled_def pool_new_def Let_def
        get_loading_lock_def insert_model_def make_room_def drop_loading_lock_def evict_for_space_def set_budgets_def)
  have "mp_max_ram (foldl (serve_pool rev) (pool_new 10 0) ?ops) = 8"
    by (simp add: set_budgets_def evict_for_space_def Let_def)
  then show ?thesis using pool_stays_within_budget [of rev 10 0 ?ops] fit by (auto simp: Let_def)
qed

text \<open>
  Eviction goes for the wrong end. Among models that were touched fewer than ten times
  the one that goes first has been used most recently, and access counts make a model go earlier:
  the key is the idle time less a bonus, and the smallest key is evicted.
\<close>
theorem most_recent_model_is_evicted:
  assumes "evict_candidate now gpu es = Some k" and "distinct (map fst es)"
    and "\<forall>(_, e) \<in> set es. me_access_count e < 10 \<and> elapsed now e < 2 ^ 64"
  shows "\<exists>e. (k, e) \<in> set es \<and> (\<forall>(_, e') \<in> set es. is_gpu (me_resource e') = gpu \<longrightarrow> elapsed now e div 1000000 \<le> elapsed now e' div 1000000)"
proof -
  have key: "eviction_key now e = elapsed now e div 1000000" if "(k', e) \<in> set es" for k' e
  proof -
    have b: "me_access_count e < 10" "elapsed now e < 2 ^ 64" using assms(3) that by auto
    have "elapsed now e div 1000000 \<le> elapsed now e" by simp
    with b(2) have "(elapsed now e div 1000000) mod 2 ^ 64 = elapsed now e div 1000000" by (intro mod_less) linarith
    moreover have "me_access_count e div 10 = 0" using b(1) by (simp add: div_word_less)
    ultimately show ?thesis by (simp add: eviction_key_def)
  qed
  obtain e where "(k, e) \<in> set es"
    and "\<forall>x \<in> set (filter (\<lambda>(_, e). is_gpu (me_resource e) = gpu) es). eviction_key now e \<le> (\<lambda>(_, e). eviction_key now e) x"
    using assms(1) by (auto simp: evict_candidate_def dest!: min_by_key_least)
  with key show ?thesis by fastforce
qed

text \<open>A model beyond its budget is loaded all the same.\<close>
theorem oversized_model_is_loaded:
  "let p = fst (get_embedder rev 1 (lit ''a'') (Inr (sample_model 1 6) :: unit + local_model) (pool_new 5 0))
   in fst (current_usage p) = 6 \<and> mp_max_ram p = 5"
  by (simp add: get_embedder_def get_model_def pooled_def pool_new_def Let_def get_loading_lock_def insert_model_def make_room_def
      drop_loading_lock_def evict_for_space_def budget_def sample_model_def current_usage_def get_memory_stats_def usage_stats_def
      pool_entry_new_def remove_entry_def)

text \<open>Two loads at once make room for one model each before either is inserted, and exceed the budget.\<close>
theorem concurrent_loads_exceed_budget:
  "let a = sample_model 1 6; b = sample_model 2 6;
       p = make_room 2 b (get_loading_lock (lit ''b'') (make_room 1 a (get_loading_lock (lit ''a'') (pool_new 10 0))));
       p = insert_model rev 4 (lit ''b'') (RerankerModel b) (insert_model rev 3 (lit ''a'') (EmbedderModel a) p)
   in fst (current_usage p) = 12 \<and> mp_max_ram p = 10"
  by (simp add: pool_new_def Let_def get_loading_lock_def insert_model_def make_room_def
      drop_loading_lock_def evict_for_space_def budget_def sample_model_def current_usage_def get_memory_stats_def usage_stats_def
      pool_entry_new_def remove_entry_def evict_loop.simps)

end
