(* ===== verification/Spec2Isabelle.thy ===== *)
theory Spec2Isabelle
  imports Loop_Guard State_Provider Circuit_Breaker Retry_Provider Approval Background Scheduler Prefix_Cache
    Runtime_Policy Task_Sink Hardness_Text Creation_Intake Chunker Virtual_Path Rank_Fusion Fts_Refinement Experience_Index
    Knowledge_Store Relation_Traversal Chat_Session Context_Fit Model_Pool
begin

text \<open>
  \<^bold>\<open>A verification library for the BenShu agent runtime.\<close>

  The program is a Rust workspace: a gateway and a panel (\<^verbatim>\<open>apps/\<close>) over some thirty crates
  (\<^verbatim>\<open>crates/\<close>) that give a language-model agent its tools, its memory, its model providers
  and its durable state. An agent turn asks a provider for a completion (through a retrying
  and a circuit-breaking wrapper), runs the tools the answer names (after the approval
  policy and the loop guard agreed), refreshes the background envelope that goes into the
  next prompt, and records what happened in the state database; the scheduler starts turns
  by itself. A long task runs as a plan of steps whose checkpoints go through a sink into the
  task record. What was learned goes into the memory engine (storage, full-text index,
  fusion of rankings) and into the store of experiences. This library models the crates that
  decide and remember, file by file.

  \<^bold>\<open>Foundations.\<close>
  \<^item> \<open>Prelude\<close>: Rust strings as lists of code points (\<open>rstr\<close>), the operations of \<^verbatim>\<open>str\<close> and
    \<^verbatim>\<open>Vec\<close> the sources use (\<open>trim\<close>, \<open>lines\<close>, \<open>split\<close>, \<open>starts_with\<close>, \<open>retain\<close>,
    \<open>dedup\<close>, stable sorting by a comparison), results as sums with \<open>res_bind\<close> and
    \<open>res_map\<close>, saturating arithmetic, and rounding to \<^verbatim>\<open>f64\<close> as a monotone function.
    \<open>Float32\<close> adds single precision numbers, \<open>Json\<close> the values of \<^verbatim>\<open>serde_json\<close>.
  \<^item> \<open>Redb_Store\<close>: the embedded database and the JSON codec as records of operations with
    their laws as locales (single tables, iteration, key ranges, two kinds of tables in one
    database); the contract of a manager over a table; instances in memory.

  \<^bold>\<open>Durable state.\<close>
  \<^item> \<open>Task_State\<close>, \<open>Run_State\<close>, \<open>Runtime_Event\<close>, \<open>Artifact_State\<close>: the managers of
    \<^verbatim>\<open>state/src\<close> with their records field by field. Tasks: completion is kept by later saves
    (\<open>completion_survives_updates\<close>), attaching artifacts and its lost update, listing. Events:
    the append-only log, completion decisions (\<open>complete_iff_all_topics_recorded\<close>), repeated
    signatures. Artifacts: the report of a cleanup, what it may delete, its dry run.
  \<^item> \<open>State_Provider\<close>: the six managers over one database as a language of requests; what one
    manager stored is not disturbed by the others (\<open>stored_task_survives_other_requests\<close>, below).
  \<^item> \<open>Scheduler\<close>: \<^verbatim>\<open>scheduler/src/lib.rs\<close>, the job store, the job table with its timers, the
    bookkeeping after a run and the registration of jobs.
  \<^item> \<open>Experience\<close>, \<open>Experience_Index\<close>: the crate \<^verbatim>\<open>experience-core\<close>. Records about executed
    tasks, how results move their confidence, their ranking for a task, and the store with four
    index tables, which stay exact under every sequence of operations (\<open>indexes_are_exact\<close>).

  \<^bold>\<open>Long tasks.\<close>
  \<^item> \<open>Continuous_Task\<close>: the executor of \<^verbatim>\<open>brain/src/runtime/continuous_task.rs\<close> with its
    retries, judgements of outputs, dependencies, events and completion gate
    (\<open>run_is_prefix_of_plan\<close>, \<open>runner_calls_bounded\<close>, \<open>gate_accepts_own_events\<close>). Its invariants
    are proved for any sink that keeps the contract \<open>checkpoint_contract\<close>.
  \<^item> \<open>Task_Sink\<close>: the sink that keeps the task record, with pausing and cancellation
    (\<open>run_is_durable\<close>, \<open>pause_ends\<close>, \<open>cancelled_task_runs_nothing\<close>).

  \<^bold>\<open>Memory engine.\<close>
  \<^item> \<open>Engram_Storage\<close>: \<^verbatim>\<open>engram/src/storage\<close>, the trait as a record of operations, the
    implementations over tables and in memory, and the contract they share
    (\<open>triple_storages_agree\<close>).
  \<^item> \<open>Fts_Index\<close>, \<open>Fts_Correct\<close>, \<open>Fts_Refinement\<close>: \<^verbatim>\<open>engram/src/fts.rs\<close> over that trait; the
    definitions, one lemma per operation against the plain map from documents to their terms,
    and the refinement of whole sessions (\<open>fts_refines_plain_index\<close>) with BM25 ranking.
  \<^item> \<open>Chunker\<close>, \<open>Virtual_Path\<close>, \<open>Rank_Fusion\<close>: the splitting of documents, logical addresses
    and reciprocal rank fusion of \<^verbatim>\<open>engram/src\<close>.
  \<^item> \<open>Model_Pool\<close>: \<^verbatim>\<open>engram/src/model_pool.rs\<close>, the pool of loaded models. Every operation keeps
    the budgets for main and graphics memory when the loaded models fit
    (\<open>pool_stays_within_budget\<close>); which models are evicted, and what loading at the same time
    may do, is shown beside it.

  \<^bold>\<open>Knowledge.\<close>
  \<^item> \<open>Knowledge_Graph\<close>, \<open>Knowledge_Index\<close>: the graph in memory of \<^verbatim>\<open>knowledge/src/kg.rs\<close>, triples
    and events with the indexes of their subjects, objects and participants, which stay exact
    under every operation (\<open>graph_stays_indexed\<close>); batches, queries over one and two hops,
    removal, distillation of concepts and the saved form.
  \<^item> \<open>Knowledge_Store\<close>: the persistent graph of the same file over the triple storage of
    \<open>Engram_Storage\<close>; it answers as a map from triples to their metadata (\<open>persistent_graph_is_a_map\<close>).
  \<^item> \<open>Relation_Traversal\<close>: \<^verbatim>\<open>memory-core/src/knowledge.rs\<close>, the walk over related facts. Its
    loop is a recursion with a measure; it stays within its budgets
    (\<open>related_facts_are_bounded\<close>) and is a breadth-first search (\<open>related_facts_are_complete\<close>).

  \<^bold>\<open>Turns and their policies.\<close>
  \<^item> \<open>Loop_Guard\<close>: \<^verbatim>\<open>loop-guard/src/{policy,history}.rs\<close>. The record \<open>query_history\<close> has the
    fields of \<^verbatim>\<open>QueryHistory\<close>; \<open>record_call\<close>, \<open>check_loop\<close> and the similarity functions follow
    the methods.
  \<^item> \<open>Circuit_Breaker\<close>: \<^verbatim>\<open>brain/src/agent/provider/resilient.rs\<close>, whole requests and, for
    concurrency, a step relation in which requests begin and end in any order.
  \<^item> \<open>Retry_Provider\<close>: \<^verbatim>\<open>providers/src/retry.rs\<close> with the error values of
    \<^verbatim>\<open>infra/src/error.rs\<close>; the delays with their double precision arithmetic.
  \<^item> \<open>Approval\<close>: \<^verbatim>\<open>brain/src/approval/policy.rs\<close> and the preview cut of
    \<^verbatim>\<open>compression/src/preview.rs\<close>: who approves, what patterns mean.
  \<^item> \<open>Background\<close>: \<^verbatim>\<open>memory-core/src/background.rs\<close>, the envelope with its layers, the slots
    kept in metadata, the legacy text forms and the budget caps.
  \<^item> \<open>Prefix_Cache\<close>: \<^verbatim>\<open>infra/src/prefix_cache.rs\<close>, the prompt prefix cache and its
    invalidator.
  \<^item> \<open>Runtime_Policy\<close>, \<open>Provider_Health\<close>, \<open>Creation_Intake\<close>: \<^verbatim>\<open>runtime-policy-core/src\<close>, the
    attempts and their delays, workflows and context budgets; the classes of provider failures
    and the text of a pause; the questions before a creation and the language contract.
  \<^item> \<open>Hardness\<close>, \<open>Hardness_Text\<close>: the crate \<^verbatim>\<open>hardness\<close>, recovery and intervention decisions
    and the heuristics over text, panics included.

  \<^bold>\<open>Messages and sessions.\<close>
  \<^item> \<open>Agent_Session\<close>: \<^verbatim>\<open>protocol-core/src/lib.rs\<close> and the roles of \<^verbatim>\<open>infra/src/agent.rs\<close>.
    Messages with their parts, trimming and metadata; the status of a session as a state
    machine whose requests may be refused (\<open>execution_follows_pending_tools\<close>,
    \<open>session_can_resume\<close>); the clarification written into messages and recovered from a
    history (\<open>recovery_finds_open_clarification\<close>).
  \<^item> \<open>Turn_History\<close>: \<^verbatim>\<open>brain/src/agent/reasoner/{turn_state,context_pruning}.rs\<close>. What the
    reasoner reads from the messages of a turn (\<open>tool_error_is_seen_until_success\<close>), and the
    pruning of a long history with its cache of distillations
    (\<open>pruned_history_keeps_user\<close>); the answer of the model is an argument.
  \<^item> \<open>Text_Compression\<close>: the rest of \<^verbatim>\<open>compression/src\<close>, cuts with their notices, the
    filters for the output of commands with their outcomes, search results and external
    errors (\<open>relevant_lines_survive\<close>).
  \<^item> \<open>Chat_Session\<close>: \<^verbatim>\<open>brain/src/session/session.rs\<close>, conversations kept in a directory each. The
    locale \<open>disk_laws\<close> says what the file system promises, \<open>chat_store\<close> adds the codec of
    messages; what is saved is read back whatever else happens
    (\<open>clean_session_is_on_disk\<close>), and cleaning up deletes what has expired
    (\<open>cleanup_deletes_only_expired\<close>). The locales are interpreted on files in memory.
  \<^item> \<open>Context_Window\<close>: \<^verbatim>\<open>brain/src/agent/context.rs\<close>, the choice of history and the fit of the
    assembled messages into the prompt (\<open>context_keeps_prompt_and_user\<close>).
  \<^item> \<open>Context_Fit\<close>: \<^verbatim>\<open>brain/src/agent/runtime_context_budget.rs\<close>, the clamp of a request to the
    window of a local model (\<open>clamp_keeps_user\<close>, \<open>clamp_bounds_output\<close>). The loops that drop
    tools, drop messages and shorten texts are recursions with measures.

  \<^bold>\<open>How the code is modelled.\<close> A struct is a record, an enum a datatype. A method that takes
  \<^verbatim>\<open>&self\<close> over locks or atomics is a function from the old to the new state; where two
  critical sections of one operation can be separated by another task (\<open>upsert_write\<close>, the
  requests of the circuit breaker, the task sink between load and save) the parts are separate
  definitions or the interference is an argument. \<^verbatim>\<open>?\<close> is \<open>res_bind\<close>, or \<open>io_then\<close> where
  the state survives the error; a panic is a value (\<open>Panic\<close>, \<open>None\<close>). Machine integers are
  words where they can wrap, natural numbers with their saturation written out where they
  saturate, and times are integers. Loops are structural recursions over the list they iterate,
  the retry loops recurse on the attempts left, and the chunker has a termination proof. One
  loop can run for ever: a paused task polls its record until someone resumes it.
  \<open>wait_while_paused\<close> bounds the polls by its argument \<open>patience\<close>, and \<open>pause_ends\<close> shows that
  a bound beyond the poll at which the task is resumed is enough, whatever its value.

  \<^bold>\<open>What is a parameter.\<close> The database and the codecs (\<open>redb\<close>, \<open>codec\<close>), identifiers and
  time stamps as text, the Unicode tables behind \<^verbatim>\<open>is_alphanumeric\<close> and \<^verbatim>\<open>to_lowercase\<close>, the
  rounding of double precision numbers, the file system, the timer wheel of the scheduler, hash
  functions, the iteration order of hash maps, the cache of posting lists, the system load,
  the tokenizer,
  the loading of models and the answers of providers and step runners. What the properties need of them are the
  laws of the locales or explicit hypotheses, and each has an instance on which the witnesses
  run.

  \<^bold>\<open>What is not modelled.\<close> Logging, metrics and the text of log lines; locks as such (a
  poisoned lock, deadlock); the asynchronous runtime: a future is the value it resolves to.
  Of the modelled crates, the scheduler's health probe and its event loop, the opening of
  database files and the checkpoint sink over a plain file are left out. The crates for the
  user interface, tools, inference, search, channels, telemetry and security are not modelled:
  they are input and output around foreign libraries, and prompt text.
  Of the context window, the texts of the background layers, the filter for overlaps and the
  metrics are left out; the messages of the layers are an argument. The decision functions of
  \<^verbatim>\<open>routing\<close> and of the tools for writing are tables of words and are left out.
\<close>

section \<open>One database, six managers\<close>


definition sample_requests :: "nat request list" where
  "sample_requests = [SaveArtifact (sample_artifact ''a'' 0 Ephemeral), SaveSession (lit ''s'') (lit ''r''),
     SaveTask (task_new 2 0 (lit ''u'') [] 7 (lit ''b'')), CleanupArtifacts 9000 sample_policy,
     AppendEvent (sample_event 1 7 ''a''), RemoveSession (lit ''s'')]"


end
